(* ===== verification/Prelude.thy ===== *)
theory Prelude
  imports Complex_Main "HOL-Library.Char_ord" "HOL-Library.List_Lexorder"
    "HOL-Library.Product_Lexorder" "HOL-Library.Sublist"
begin

text \<open>
  Shared vocabulary of the development: the Python text operations the sources use
  (\<open>str.strip\<close>, \<open>dict.fromkeys\<close> as an order-preserving de-duplication), JSON values, and the
  relational idioms of the SQLite stores (\<open>UPDATE ... WHERE\<close>, \<open>MAX(...) + 1\<close>,
  \<open>ORDER BY\<close>) as list functions, with the lemmas every store proof shares.

  Conventions. A Python \<open>str\<close> is a \<open>string\<close> (code points up to 255). A timestamp or a duration
  is a rational number: the floats of the code without their rounding. A row of a table is a
  record and a table a list of rows in insertion order. A call that may raise returns
  \<open>error + result\<close>; a transaction that raises is rolled back, so its \<open>Inl\<close> carries no new state.
\<close>

type_synonym timestamp = rat
type_synonym ident = string

datatype json =
    JNull
  | JBool bool
  | JInt int
  | JFloat rat
  | JStr string
  | JArr "json list"
  | JObj "(string \<times> json) list"

named_theorems table_simps \<open>rewriting facts about the table operations\<close>

section \<open>Text\<close>

text \<open>The characters \<open>str.strip()\<close> removes, for code points up to 255.\<close>

definition py_space :: "char \<Rightarrow> bool" where
  "py_space c = (let n = (of_char c :: nat) in
     (9 \<le> n \<and> n \<le> 13) \<or> (28 \<le> n \<and> n \<le> 32) \<or> n = 133 \<or> n = 160)"

definition strip :: "string \<Rightarrow> string" where
  "strip s = rev (dropWhile py_space (rev (dropWhile py_space s)))"

lemma dropWhile_rev_dropWhile_hd:
  assumes "ys \<noteq> []" "ys = dropWhile P xs"
  shows "\<not> P (hd ys)"
  using assms hd_dropWhile by metis

lemma strip_ends:
  assumes "strip s \<noteq> []"
  shows "\<not> py_space (hd (strip s))" "\<not> py_space (last (strip s))"
proof -
  let ?a = "dropWhile py_space s"
  let ?b = "dropWhile py_space (rev ?a)"
  from assms have b: "?b \<noteq> []" by (simp add: strip_def)
  then have "\<not> py_space (hd ?b)" by (rule hd_dropWhile)
  then show "\<not> py_space (last (strip s))" by (simp add: strip_def last_rev)
  from b have a: "?a \<noteq> []" by (metis dropWhile.simps(1) rev.simps(1))
  then have hda: "\<not> py_space (hd ?a)" by (rule hd_dropWhile)
  have "suffix ?b (rev ?a)" by (rule suffix_dropWhile)
  then have "prefix (rev ?b) ?a" by (simp add: suffix_to_prefix)
  then obtain zs where "?a = rev ?b @ zs" by (auto simp: prefix_def)
  with b have "hd ?a = hd (rev ?b)" by (metis hd_append2 rev_is_Nil_conv)
  with hda show "\<not> py_space (hd (strip s))" by (simp add: strip_def)
qed

lemma strip_fixed:
  assumes "s = [] \<or> (\<not> py_space (hd s) \<and> \<not> py_space (last s))"
  shows "strip s = s"
proof (cases "s = []")
  case True
  then show ?thesis by (simp add: strip_def)
next
  case False
  with assms have "dropWhile py_space s = s"
    by (cases s) auto
  moreover from False assms have "dropWhile py_space (rev s) = rev s"
    by (cases s rule: rev_cases) auto
  ultimately show ?thesis by (simp add: strip_def)
qed

lemma strip_idem [simp]: "strip (strip s) = strip s"
  by (rule strip_fixed) (use strip_ends in blast)

section \<open>Order-preserving de-duplication\<close>

definition dedup :: "'a list \<Rightarrow> 'a list" where
  "dedup xs = rev (remdups (rev xs))"

lemma set_dedup [simp]: "set (dedup xs) = set xs"
  by (simp add: dedup_def)

lemma distinct_dedup [simp]: "distinct (dedup xs)"
  by (simp add: dedup_def)

lemma dedup_Nil_iff [simp]: "dedup xs = [] \<longleftrightarrow> xs = []"
  by (simp add: dedup_def)

lemma dedup_id: "distinct xs \<Longrightarrow> dedup xs = xs"
  by (simp add: dedup_def distinct_remdups_id)

section \<open>Tables\<close>

text \<open>\<open>UPDATE t SET f WHERE p\<close>, and the row count the cursor reports.\<close>

definition update_where :: "('r \<Rightarrow> bool) \<Rightarrow> ('r \<Rightarrow> 'r) \<Rightarrow> 'r list \<Rightarrow> 'r list" where
  "update_where p f t = map (\<lambda>r. if p r then f r else r) t"

definition row_count :: "('r \<Rightarrow> bool) \<Rightarrow> 'r list \<Rightarrow> nat" where
  "row_count p t = length (filter p t)"

text \<open>\<open>COALESCE(MAX(column), 0) + 1\<close> over the selected rows.\<close>

definition next_number :: "nat list \<Rightarrow> nat" where
  "next_number ns = Suc (fold max ns 0)"

lemma length_update_where [simp, table_simps]: "length (update_where p f t) = length t"
  by (simp add: update_where_def)

lemma nth_update_where [table_simps]:
  "i < length t \<Longrightarrow> update_where p f t ! i = (if p (t ! i) then f (t ! i) else t ! i)"
  by (simp add: update_where_def)

lemma map_update_where [table_simps]:
  "(\<And>r. p r \<Longrightarrow> k (f r) = k r) \<Longrightarrow> map k (update_where p f t) = map k t"
  by (simp add: update_where_def)

lemma set_update_where:
  "r \<in> set (update_where p f t) \<longleftrightarrow> (\<exists>q \<in> set t. r = (if p q then f q else q))"
  by (auto simp: update_where_def)

lemma update_where_none: "(\<And>r. r \<in> set t \<Longrightarrow> \<not> p r) \<Longrightarrow> update_where p f t = t"
  by (simp add: update_where_def map_idI)

lemma row_count_0_iff [table_simps]: "row_count p t = 0 \<longleftrightarrow> (\<forall>r \<in> set t. \<not> p r)"
  by (simp add: row_count_def filter_empty_conv)

lemma fold_max_ge:
  fixes ns :: "nat list"
  shows "a \<le> fold max ns a"
proof (induction ns arbitrary: a)
  case Nil
  show ?case by simp
next
  case (Cons m ns)
  have "a \<le> max m a" by simp
  also have "\<dots> \<le> fold max ns (max m a)" by (rule Cons.IH)
  finally show ?case by simp
qed

lemma fold_max_upper:
  fixes ns :: "nat list"
  shows "n \<in> set ns \<Longrightarrow> n \<le> fold max ns a"
proof (induction ns arbitrary: a)
  case Nil
  then show ?case by simp
next
  case (Cons m ns)
  have "m \<le> fold max ns (max m a)"
    using fold_max_ge [of "max m a" ns] by simp
  with Cons show ?case by auto
qed

lemma fold_max_upt: "fold max [a ..< b] (0::nat) = (if a < b then b - 1 else 0)"
proof (induction b)
  case 0
  show ?case by simp
next
  case (Suc b)
  then show ?case by auto
qed

lemma next_number_fresh: "n \<in> set ns \<Longrightarrow> n < next_number ns"
  using fold_max_upper [of n ns 0] by (simp add: next_number_def less_Suc_eq_le)

lemma next_number_upt [simp]: "next_number [Suc 0 ..< Suc n] = Suc n"
  by (simp add: next_number_def fold_max_upt)

text \<open>Keys: a table whose key column is distinct has at most one row per key.\<close>

lemma distinct_map_eqD:
  "distinct (map k t) \<Longrightarrow> r \<in> set t \<Longrightarrow> q \<in> set t \<Longrightarrow> k r = k q \<Longrightarrow> r = q"
  by (auto simp: distinct_map inj_on_def)

lemma find_key_Some:
  assumes "distinct (map k t)" "r \<in> set t"
  shows "find (\<lambda>q. k q = k r) t = Some r"
proof -
  from assms(2) obtain i where i: "i < length t" "t ! i = r" by (auto simp: in_set_conv_nth)
  have "\<forall>j < i. k (t ! j) \<noteq> k r"
    using assms(1) i by (auto simp: distinct_conv_nth)
  with i show ?thesis unfolding find_Some_iff by auto
qed

lemma if_SomeD: "(if P then Some a else None) = Some v \<Longrightarrow> P \<and> v = a"
  by (cases P) auto

lemma find_SomeD: "find p t = Some r \<Longrightarrow> r \<in> set t \<and> p r"
  by (auto simp: find_Some_iff)

lemma find_append:
  "find p (xs @ ys) = (case find p xs of None \<Rightarrow> find p ys | Some x \<Rightarrow> Some x)"
  by (induction xs) auto

lemma find_update_where:
  assumes "\<And>r. p r \<Longrightarrow> q (f r) = q r"
  shows "find q (update_where p f t) = map_option (\<lambda>r. if p r then f r else r) (find q t)"
  using assms by (induction t) (auto simp: update_where_def)

lemma row_count_key_1:
  assumes "distinct (map k t)" "r \<in> set t" "k r = a"
  shows "row_count (\<lambda>q. k q = a \<and> p q) t = (if p r then 1 else 0)"
  using assms
proof (induction t)
  case Nil
  then show ?case by simp
next
  case (Cons x t)
  show ?case
  proof (cases "x = r")
    case True
    have "k r \<notin> k ` set t" using Cons.prems(1) True by simp
    then have "\<forall>q \<in> set t. k q \<noteq> a" using Cons.prems(3) by blast
    then have "filter (\<lambda>q. k q = a \<and> p q) t = []"
      by (simp add: filter_empty_conv)
    with True Cons.prems show ?thesis by (simp add: row_count_def)
  next
    case False
    with Cons.prems have "k x \<noteq> a" by (auto simp: image_iff)
    with False Cons show ?thesis by (simp add: row_count_def)
  qed
qed

lemma row_count_1D: "row_count p t = 1 \<Longrightarrow> \<exists>r \<in> set t. p r"
  by (cases "filter p t") (auto simp: row_count_def filter_eq_Cons_iff)

lemma update_where_key:
  assumes "distinct (map k t)" "r \<in> set t" "p r" "\<And>q. p q \<Longrightarrow> k q = k r"
  shows "update_where p f t = update_where (\<lambda>q. k q = k r) (\<lambda>q. f r) t"
  unfolding update_where_def
proof (rule map_cong [OF refl])
  fix q
  assume q: "q \<in> set t"
  show "(if p q then f q else q) = (if k q = k r then f r else q)"
  proof (cases "k q = k r")
    case True
    then have "q = r" by (rule distinct_map_eqD [OF assms(1) q assms(2)])
    with assms(3) show ?thesis by simp
  next
    case False
    with assms(4) show ?thesis by auto
  qed
qed

text \<open>Two rows of the same table compared position by position.\<close>

lemma list_all2_update_where:
  assumes "\<And>r. R r r" "\<And>r. r \<in> set t \<Longrightarrow> p r \<Longrightarrow> R r (f r)"
  shows "list_all2 R t (update_where p f t)"
  using assms by (auto simp: list_all2_conv_all_nth update_where_def)

end
