(* ===== verification/Task_Contracts.thy ===== *)
theory Task_Contracts
  imports Prelude
begin

text \<open>
  \<open>tasks/contracts.py\<close>: task statuses, the task specification, the stored task and its events,
  the result a worker reports, and the errors. A \<open>task_row\<close> is a row of the table
  \<open>background_tasks\<close>; \<open>task_record\<close>, the value returned to callers, adds the dependencies.
\<close>

datatype task_status =
    CREATED | QUEUED | CLAIMED | RUNNING | WAITING_DEPENDENCY
  | SUCCEEDED | FAILED | CANCELLED | TIMED_OUT | BLOCKED | UNKNOWN_OUTCOME

fun status_value :: "task_status \<Rightarrow> string" where
  "status_value CREATED = ''created''"
| "status_value QUEUED = ''queued''"
| "status_value CLAIMED = ''claimed''"
| "status_value RUNNING = ''running''"
| "status_value WAITING_DEPENDENCY = ''waiting_dependency''"
| "status_value SUCCEEDED = ''succeeded''"
| "status_value FAILED = ''failed''"
| "status_value CANCELLED = ''cancelled''"
| "status_value TIMED_OUT = ''timed_out''"
| "status_value BLOCKED = ''blocked''"
| "status_value UNKNOWN_OUTCOME = ''unknown_outcome''"

text \<open>\<open>TaskStatus(value)\<close>: the enum member with that value.\<close>

definition all_statuses :: "task_status list" where
  "all_statuses = [CREATED, QUEUED, CLAIMED, RUNNING, WAITING_DEPENDENCY,
     SUCCEEDED, FAILED, CANCELLED, TIMED_OUT, BLOCKED, UNKNOWN_OUTCOME]"

definition status_of :: "string \<Rightarrow> task_status option" where
  "status_of v = find (\<lambda>s. status_value s = v) all_statuses"

definition terminal_statuses :: "task_status list" where
  "terminal_statuses = [SUCCEEDED, FAILED, CANCELLED, TIMED_OUT, BLOCKED, UNKNOWN_OUTCOME]"

definition active_statuses :: "task_status list" where
  "active_statuses = [CREATED, QUEUED, CLAIMED, RUNNING, WAITING_DEPENDENCY]"

fun is_terminal :: "task_status \<Rightarrow> bool" where
  "is_terminal s = (s \<in> set terminal_statuses)"

record task_spec =
  sp_task_id :: string
  sp_objective :: string
  sp_workspace :: string
  sp_parent_run_id :: "string option"
  sp_dependencies :: "string list"
  sp_max_steps :: int
  sp_timeout_seconds :: rat
  sp_max_attempts :: int
  sp_idempotency_key :: "string option"
  sp_metadata :: "(string \<times> json) list"

record task_row =
  tk_task_id :: string
  tk_parent_run_id :: "string option"
  tk_request_digest :: string
  tk_objective :: string
  tk_workspace :: string
  tk_status :: task_status
  tk_version :: nat
  tk_attempt :: nat
  tk_max_attempts :: int
  tk_max_steps :: int
  tk_timeout_seconds :: rat
  tk_cancel_requested :: bool
  tk_lease_owner :: "string option"
  tk_lease_expires_at :: "timestamp option"
  tk_last_heartbeat_at :: "timestamp option"
  tk_side_effect_state :: string
  tk_created_at :: timestamp
  tk_updated_at :: timestamp
  tk_started_at :: "timestamp option"
  tk_completed_at :: "timestamp option"
  tk_stop_reason :: "string option"
  tk_output :: "json option"
  tk_error :: "json option"
  tk_metadata :: "(string \<times> json) list"

record task_record = task_row +
  tk_dependencies :: "string list"

record task_event =
  ev_task_id :: string
  ev_sequence :: nat
  ev_type :: string
  ev_payload :: json
  ev_timestamp :: timestamp

record task_result =
  rs_status :: task_status
  rs_output :: "json option"
  rs_error :: "json option"
  rs_stop_reason :: "string option"
  rs_side_effect_state :: string
  rs_model_calls :: int
  rs_tool_calls :: int
  rs_input_tokens :: int
  rs_output_tokens :: int

datatype task_error =
    ValueError string
  | TaskNotFoundError string
  | TaskConflictError string
  | TaskTransitionError string
  | TaskLeaseError string

text \<open>\<open>TaskExecutionResult.__post_init__\<close>.\<close>

definition check_result :: "task_result \<Rightarrow> task_error + task_result" where
  "check_result r =
     (if is_terminal (rs_status r) then Inr r
      else Inl (ValueError ''execution result status must be terminal''))"

definition record_terminal :: "'a task_row_scheme \<Rightarrow> bool" where
  "record_terminal t = is_terminal (tk_status t)"

lemma status_of_value [simp]: "status_of (status_value s) = Some s"
  by (cases s) (simp_all add: status_of_def all_statuses_def)

lemma status_of_Some: "status_of v = Some s \<Longrightarrow> status_value s = v"
  by (auto simp: status_of_def find_Some_iff)

lemma terminal_iff_not_active: "is_terminal s \<longleftrightarrow> s \<notin> set active_statuses"
  by (cases s) (simp_all add: terminal_statuses_def active_statuses_def)

end
