(* ===== verification/Task_Store.thy ===== *)
theory Task_Store
  imports Task_Contracts
begin

text \<open>
  \<open>tasks/store.py\<close>: \<open>SQLiteDurableTaskStore\<close>, the durable queue of background tasks. The
  state is the four tables; every public operation is one definition (or two transactions, for
  \<open>claim_next\<close>), its guards in the order of the code. The readings of the clock are arguments,
  one per call of \<open>self._clock()\<close>. \<open>digest\<close> stands for SHA-256 of the canonical JSON.
  Columns holding JSON are kept decoded.
\<close>

record idempotency_row =
  id_key :: string
  id_digest :: string
  id_task_id :: string
  id_created_at :: timestamp

record store =
  tasks :: "task_row list"
  deps :: "(string \<times> string) list"   \<comment> \<open>\<open>(task_id, depends_on)\<close>\<close>
  events :: "task_event list"
  idem :: "idempotency_row list"

definition empty_store :: store where
  "empty_store = \<lparr>tasks = [], deps = [], events = [], idem = []\<rparr>"

fun allowed_transitions :: "task_status \<Rightarrow> task_status list" where
  "allowed_transitions CREATED = [QUEUED, WAITING_DEPENDENCY, CANCELLED]"
| "allowed_transitions WAITING_DEPENDENCY = [QUEUED, BLOCKED, CANCELLED]"
| "allowed_transitions QUEUED = [CLAIMED, CANCELLED, BLOCKED]"
| "allowed_transitions CLAIMED = [RUNNING, QUEUED, CANCELLED, UNKNOWN_OUTCOME]"
| "allowed_transitions RUNNING = [QUEUED, SUCCEEDED, FAILED, CANCELLED, TIMED_OUT, UNKNOWN_OUTCOME]"
| "allowed_transitions _ = []"

section \<open>Validation\<close>

definition required_text :: "string \<Rightarrow> string \<Rightarrow> task_error + string" where
  "required_text value label = (let normalized = strip value in
     if normalized = [] then Inl (ValueError (label @ '' must not be empty''))
     else Inr normalized)"

definition text_identifier :: "string \<Rightarrow> string \<Rightarrow> task_error + string" where
  "text_identifier value label = (case required_text value label of
     Inl e \<Rightarrow> Inl e
   | Inr normalized \<Rightarrow>
       if length normalized > 200 then Inl (ValueError (label @ '' exceeds 200 characters''))
       else Inr normalized)"

definition optional_identifier :: "string option \<Rightarrow> string \<Rightarrow> task_error + string option" where
  "optional_identifier value label = (case value of
     None \<Rightarrow> Inr None
   | Some v \<Rightarrow> (case text_identifier v label of Inl e \<Rightarrow> Inl e | Inr n \<Rightarrow> Inr (Some n)))"

fun identifiers :: "string list \<Rightarrow> string \<Rightarrow> task_error + string list" where
  "identifiers [] label = Inr []"
| "identifiers (v # vs) label = (case text_identifier v label of
     Inl e \<Rightarrow> Inl e
   | Inr n \<Rightarrow> (case identifiers vs label of Inl e \<Rightarrow> Inl e | Inr ns \<Rightarrow> Inr (n # ns)))"

definition validate_spec :: "task_spec \<Rightarrow> task_error + task_spec" where
  "validate_spec spec =
    (case text_identifier (sp_task_id spec) ''task_id'' of Inl e \<Rightarrow> Inl e | Inr task_id \<Rightarrow>
     case required_text (sp_objective spec) ''objective'' of Inl e \<Rightarrow> Inl e | Inr objective \<Rightarrow>
     case required_text (sp_workspace spec) ''workspace'' of Inl e \<Rightarrow> Inl e | Inr workspace \<Rightarrow>
     case optional_identifier (sp_parent_run_id spec) ''parent_run_id'' of
       Inl e \<Rightarrow> Inl e | Inr parent_run_id \<Rightarrow>
     case identifiers (sp_dependencies spec) ''dependency'' of Inl e \<Rightarrow> Inl e | Inr ds \<Rightarrow>
     let dependencies = dedup ds in
     if task_id \<in> set dependencies then Inl (ValueError ''task cannot depend on itself'')
     else if \<not> (1 \<le> sp_max_steps spec \<and> sp_max_steps spec \<le> 10000)
       then Inl (ValueError ''max_steps must be within [1, 10000]'')
     else if sp_timeout_seconds spec \<le> 0 \<or> sp_timeout_seconds spec > 86400
       then Inl (ValueError ''timeout_seconds must be within (0, 86400]'')
     else if \<not> (1 \<le> sp_max_attempts spec \<and> sp_max_attempts spec \<le> 20)
       then Inl (ValueError ''max_attempts must be within [1, 20]'')
     else
       case optional_identifier
              (if sp_idempotency_key spec = Some [] then None else sp_idempotency_key spec)
              ''idempotency_key'' of
         Inl e \<Rightarrow> Inl e
       | Inr idempotency_key \<Rightarrow>
         Inr \<lparr>sp_task_id = task_id, sp_objective = objective, sp_workspace = workspace,
              sp_parent_run_id = parent_run_id, sp_dependencies = dependencies,
              sp_max_steps = sp_max_steps spec, sp_timeout_seconds = sp_timeout_seconds spec,
              sp_max_attempts = sp_max_attempts spec, sp_idempotency_key = idempotency_key,
              sp_metadata = sp_metadata spec\<rparr>)"

definition spec_digest :: "(task_spec \<Rightarrow> string) \<Rightarrow> task_spec \<Rightarrow> string" where
  "spec_digest digest spec = digest (spec\<lparr>sp_idempotency_key := None\<rparr>)"

section \<open>Reading rows\<close>

definition row_to_task :: "store \<Rightarrow> task_row \<Rightarrow> task_record" where
  "row_to_task s row = task_row.extend row
     (task_record.fields
       (sort (map snd (filter (\<lambda>e. fst e = tk_task_id row) (deps s)))))"

definition fetch_task :: "store \<Rightarrow> string \<Rightarrow> task_row option" where
  "fetch_task s task_id = find (\<lambda>t. tk_task_id t = task_id) (tasks s)"

definition get_task_locked :: "store \<Rightarrow> string \<Rightarrow> task_error + task_record" where
  "get_task_locked s task_id = (case fetch_task s task_id of
     None \<Rightarrow> Inl (TaskNotFoundError (''unknown task: '' @ task_id))
   | Some row \<Rightarrow> Inr (row_to_task s row))"

definition get_task :: "store \<Rightarrow> string \<Rightarrow> task_error + task_record" where
  "get_task s task_id = (case text_identifier task_id ''task_id'' of
     Inl e \<Rightarrow> Inl e | Inr i \<Rightarrow> get_task_locked s i)"

fun parse_statuses :: "string list \<Rightarrow> task_error + task_status list" where
  "parse_statuses [] = Inr []"
| "parse_statuses (v # vs) = (case status_of v of
     None \<Rightarrow> Inl (ValueError (v @ '' is not a valid TaskStatus''))
   | Some x \<Rightarrow> (case parse_statuses vs of Inl e \<Rightarrow> Inl e | Inr xs \<Rightarrow> Inr (x # xs)))"

definition queue_order :: "task_row list \<Rightarrow> task_row list" where
  "queue_order = sort_key (\<lambda>t. (tk_created_at t, tk_task_id t))"

definition list_tasks ::
  "store \<Rightarrow> string option \<Rightarrow> string list \<Rightarrow> int \<Rightarrow> task_error + task_record list" where
  "list_tasks s parent_run_id statuses limit =
    (if \<not> (1 \<le> limit \<and> limit \<le> 1000) then Inl (ValueError ''limit must be within [1, 1000]'')
     else case optional_identifier parent_run_id ''parent_run_id'' of Inl e \<Rightarrow> Inl e | Inr parent \<Rightarrow>
     case parse_statuses statuses of Inl e \<Rightarrow> Inl e | Inr wanted \<Rightarrow>
       Inr (map (row_to_task s) (take (nat limit) (queue_order (filter
         (\<lambda>t. (parent = None \<or> tk_parent_run_id t = parent) \<and>
              (wanted = [] \<or> tk_status t \<in> set wanted)) (tasks s))))))"

section \<open>Events\<close>

definition task_sequences :: "store \<Rightarrow> string \<Rightarrow> nat list" where
  "task_sequences s task_id = map ev_sequence (filter (\<lambda>e. ev_task_id e = task_id) (events s))"

definition append_event :: "string \<Rightarrow> string \<Rightarrow> json \<Rightarrow> timestamp \<Rightarrow> store \<Rightarrow> store" where
  "append_event task_id event_type payload now s =
     s\<lparr>events := events s @
       [\<lparr>ev_task_id = task_id, ev_sequence = next_number (task_sequences s task_id),
         ev_type = take 160 (strip event_type), ev_payload = payload, ev_timestamp = now\<rparr>]\<rparr>"

definition reason_payload :: "string \<Rightarrow> json" where
  "reason_payload reason = JObj [(''reason'', JStr reason)]"

definition list_events ::
  "store \<Rightarrow> string \<Rightarrow> int \<Rightarrow> int \<Rightarrow> task_error + task_event list" where
  "list_events s task_id after_sequence limit =
    (if after_sequence < 0 then Inl (ValueError ''after_sequence must not be negative'')
     else if \<not> (1 \<le> limit \<and> limit \<le> 5000) then Inl (ValueError ''limit must be within [1, 5000]'')
     else case get_task s task_id of Inl e \<Rightarrow> Inl e | Inr _ \<Rightarrow>
       Inr (take (nat limit) (sort_key ev_sequence (filter
         (\<lambda>e. ev_task_id e = task_id \<and> after_sequence < int (ev_sequence e)) (events s)))))"

section \<open>Status changes\<close>

definition update_tasks ::
  "(task_row \<Rightarrow> bool) \<Rightarrow> (task_row \<Rightarrow> task_row) \<Rightarrow> store \<Rightarrow> store" where
  "update_tasks p f s = s\<lparr>tasks := update_where p f (tasks s)\<rparr>"

definition clear_lease :: "task_row \<Rightarrow> task_row" where
  "clear_lease t =
     t\<lparr>tk_lease_owner := None, tk_lease_expires_at := None, tk_last_heartbeat_at := None\<rparr>"

definition transition_row :: "task_status \<Rightarrow> string \<Rightarrow> timestamp \<Rightarrow> task_row \<Rightarrow> task_row" where
  "transition_row next_status reason now t = clear_lease
     (t\<lparr>tk_status := next_status, tk_version := Suc (tk_version t), tk_updated_at := now,
        tk_completed_at := (if is_terminal next_status then Some now else tk_completed_at t),
        tk_stop_reason := Some reason\<rparr>)"

definition transition_locked ::
  "string \<Rightarrow> task_status \<Rightarrow> task_status \<Rightarrow> string \<Rightarrow> timestamp \<Rightarrow> store \<Rightarrow> task_error + store" where
  "transition_locked task_id expected next_status reason now s =
    (if next_status \<notin> set (allowed_transitions expected)
     then Inl (TaskTransitionError (''transition not allowed: '' @ status_value expected
                 @ '' -> '' @ status_value next_status))
     else let hit = (\<lambda>t. tk_task_id t = task_id \<and> tk_status t = expected) in
       if row_count hit (tasks s) \<noteq> 1
       then Inl (TaskConflictError ''task changed during transition'')
       else Inr (append_event task_id (''task.'' @ status_value next_status)
              (reason_payload reason) now
              (update_tasks hit (transition_row next_status reason now) s)))"

section \<open>Creating a task\<close>

definition initial_status :: "task_spec \<Rightarrow> task_status" where
  "initial_status spec = (if sp_dependencies spec \<noteq> [] then WAITING_DEPENDENCY else QUEUED)"

definition new_row :: "task_spec \<Rightarrow> string \<Rightarrow> timestamp \<Rightarrow> task_row" where
  "new_row spec dg now =
     \<lparr>tk_task_id = sp_task_id spec, tk_parent_run_id = sp_parent_run_id spec,
      tk_request_digest = dg, tk_objective = sp_objective spec, tk_workspace = sp_workspace spec,
      tk_status = initial_status spec, tk_version = 0, tk_attempt = 0,
      tk_max_attempts = sp_max_attempts spec, tk_max_steps = sp_max_steps spec,
      tk_timeout_seconds = sp_timeout_seconds spec, tk_cancel_requested = False,
      tk_lease_owner = None, tk_lease_expires_at = None, tk_last_heartbeat_at = None,
      tk_side_effect_state = ''none'', tk_created_at = now, tk_updated_at = now,
      tk_started_at = None, tk_completed_at = None, tk_stop_reason = None,
      tk_output = None, tk_error = None, tk_metadata = sp_metadata spec\<rparr>"

definition insert_task :: "task_spec \<Rightarrow> string \<Rightarrow> timestamp \<Rightarrow> store \<Rightarrow> store" where
  "insert_task spec dg now s =
     s\<lparr>tasks := tasks s @ [new_row spec dg now],
       deps := deps s @ map (\<lambda>d. (sp_task_id spec, d)) (sp_dependencies spec),
       idem := idem s @ (case sp_idempotency_key spec of None \<Rightarrow> []
         | Some k \<Rightarrow> [\<lparr>id_key = k, id_digest = dg, id_task_id = sp_task_id spec,
                      id_created_at = now\<rparr>])\<rparr>"

definition created_events :: "task_spec \<Rightarrow> timestamp \<Rightarrow> store \<Rightarrow> store" where
  "created_events spec now s =
    (let s1 = append_event (sp_task_id spec) ''task.created''
           (JObj [(''status'', JStr (status_value (initial_status spec))),
                  (''dependencies'', JArr (map JStr (sp_dependencies spec)))]) now s
     in if initial_status spec = QUEUED
        then append_event (sp_task_id spec) ''task.queued'' (reason_payload ''no_dependencies'') now s1
        else s1)"

definition create_task ::
  "(task_spec \<Rightarrow> string) \<Rightarrow> store \<Rightarrow> task_spec \<Rightarrow> timestamp
     \<Rightarrow> task_error + store \<times> task_record \<times> bool" where
  "create_task digest s spec now =
    (case validate_spec spec of Inl e \<Rightarrow> Inl e | Inr normalized \<Rightarrow>
     let dg = spec_digest digest normalized;
         existing = (case sp_idempotency_key normalized of None \<Rightarrow> None
           | Some k \<Rightarrow> find (\<lambda>r. id_key r = k) (idem s)) in
     case existing of
       Some row \<Rightarrow>
         if id_digest row \<noteq> dg
         then Inl (TaskConflictError ''idempotency key belongs to another task request'')
         else (case get_task_locked s (id_task_id row) of
             Inl e \<Rightarrow> Inl e | Inr t \<Rightarrow> Inr (s, t, False))
     | None \<Rightarrow>
        (case find (\<lambda>d. fetch_task s d = None) (sp_dependencies normalized) of
           Some d \<Rightarrow> Inl (TaskNotFoundError (''unknown dependency: '' @ d))
         | None \<Rightarrow>
            if fetch_task s (sp_task_id normalized) \<noteq> None
            then Inl (TaskConflictError (''task already exists: '' @ sp_task_id normalized))
            else let s' = created_events normalized now (insert_task normalized dg now s) in
              (case get_task_locked s' (sp_task_id normalized) of
                 Inl e \<Rightarrow> Inl e | Inr t \<Rightarrow> Inr (s', t, True))))"

section \<open>Dependencies\<close>

definition dependency_statuses :: "store \<Rightarrow> string \<Rightarrow> task_status list" where
  "dependency_statuses s task_id =
     concat (map (\<lambda>d. map tk_status (filter (\<lambda>t. tk_task_id t = d) (tasks s)))
       (sort (map snd (filter (\<lambda>e. fst e = task_id) (deps s)))))"

definition dependency_verdict :: "task_status list \<Rightarrow> (task_status \<times> string) option" where
  "dependency_verdict sts =
    (if \<exists>x \<in> set sts. is_terminal x \<and> x \<noteq> SUCCEEDED
     then Some (BLOCKED, ''dependency_failed'')
     else if sts \<noteq> [] \<and> (\<forall>x \<in> set sts. x = SUCCEEDED)
     then Some (QUEUED, ''dependencies_satisfied'')
     else None)"

fun refresh_loop ::
  "timestamp \<Rightarrow> string list \<Rightarrow> store \<Rightarrow> task_error + store \<times> string list" where
  "refresh_loop now [] s = Inr (s, [])"
| "refresh_loop now (task_id # rest) s =
    (case dependency_verdict (dependency_statuses s task_id) of
       None \<Rightarrow> refresh_loop now rest s
     | Some (next_status, reason) \<Rightarrow>
        (case transition_locked task_id WAITING_DEPENDENCY next_status reason now s of
           Inl e \<Rightarrow> Inl e
         | Inr s' \<Rightarrow> (case refresh_loop now rest s' of
             Inl e \<Rightarrow> Inl e | Inr (s'', changed) \<Rightarrow> Inr (s'', task_id # changed))))"

definition waiting_ids :: "store \<Rightarrow> string list" where
  "waiting_ids s =
     map tk_task_id (queue_order (filter (\<lambda>t. tk_status t = WAITING_DEPENDENCY) (tasks s)))"

definition refresh_dependencies :: "store \<Rightarrow> timestamp \<Rightarrow> task_error + store \<times> string list" where
  "refresh_dependencies s now = refresh_loop now (waiting_ids s) s"

fun refresh_after_loop :: "timestamp \<Rightarrow> string list \<Rightarrow> store \<Rightarrow> task_error + store" where
  "refresh_after_loop now [] s = Inr s"
| "refresh_after_loop now (task_id # rest) s =
    (case fetch_task s task_id of
       None \<Rightarrow> refresh_after_loop now rest s
     | Some row \<Rightarrow>
        if tk_status row \<noteq> WAITING_DEPENDENCY then refresh_after_loop now rest s
        else (case dependency_verdict (dependency_statuses s task_id) of
            None \<Rightarrow> refresh_after_loop now rest s
          | Some (next_status, reason) \<Rightarrow>
             (case transition_locked task_id WAITING_DEPENDENCY next_status reason now s of
                Inl e \<Rightarrow> Inl e | Inr s' \<Rightarrow> refresh_after_loop now rest s')))"

definition refresh_dependencies_after ::
  "string \<Rightarrow> timestamp \<Rightarrow> store \<Rightarrow> task_error + store" where
  "refresh_dependencies_after completed_task_id now s =
     refresh_after_loop now (map fst (filter (\<lambda>e. snd e = completed_task_id) (deps s))) s"

section \<open>Claims and leases\<close>

definition claim_row :: "string \<Rightarrow> rat \<Rightarrow> timestamp \<Rightarrow> task_row \<Rightarrow> task_row" where
  "claim_row worker lease_seconds now t =
     t\<lparr>tk_status := CLAIMED, tk_version := Suc (tk_version t), tk_attempt := Suc (tk_attempt t),
       tk_lease_owner := Some worker, tk_lease_expires_at := Some (now + lease_seconds),
       tk_last_heartbeat_at := Some now, tk_updated_at := now\<rparr>"

definition claimable :: "store \<Rightarrow> task_row list" where
  "claimable s =
     queue_order (filter (\<lambda>t. tk_status t = QUEUED \<and> \<not> tk_cancel_requested t) (tasks s))"

definition claim_locked ::
  "store \<Rightarrow> string \<Rightarrow> rat \<Rightarrow> timestamp \<Rightarrow> task_error + store \<times> task_record option" where
  "claim_locked s worker lease_seconds now =
    (case claimable s of
       [] \<Rightarrow> Inr (s, None)
     | row # _ \<Rightarrow>
        if int (tk_attempt row) \<ge> tk_max_attempts row
        then (case transition_locked (tk_task_id row) QUEUED FAILED
                     ''attempt_budget_exhausted'' now s of
            Inl e \<Rightarrow> Inl e | Inr s' \<Rightarrow> Inr (s', None))
        else let hit = (\<lambda>t. tk_task_id t = tk_task_id row \<and> tk_status t = QUEUED
                             \<and> tk_version t = tk_version row) in
          if row_count hit (tasks s) \<noteq> 1
          then Inl (TaskConflictError ''queued task changed during claim'')
          else let s' = append_event (tk_task_id row) ''task.claimed''
                 (JObj [(''worker_id'', JStr worker),
                        (''attempt'', JInt (int (tk_attempt row) + 1))]) now
                 (update_tasks hit (claim_row worker lease_seconds now) s) in
            (case get_task_locked s' (tk_task_id row) of
               Inl e \<Rightarrow> Inl e | Inr t \<Rightarrow> Inr (s', Some t)))"

text \<open>
  \<open>claim_next\<close> runs two transactions: the refresh of the dependencies commits before the claim,
  so its effect stays when the claim raises.
\<close>

definition claim_next ::
  "store \<Rightarrow> string \<Rightarrow> rat \<Rightarrow> timestamp \<Rightarrow> timestamp
     \<Rightarrow> store \<times> (task_error + task_record option)" where
  "claim_next s worker_id lease_seconds now1 now2 =
    (case text_identifier worker_id ''worker_id'' of Inl e \<Rightarrow> (s, Inl e) | Inr worker \<Rightarrow>
     if lease_seconds \<le> 0 then (s, Inl (ValueError ''lease_seconds must be positive''))
     else case refresh_dependencies s now1 of
       Inl e \<Rightarrow> (s, Inl e)
     | Inr (s1, _) \<Rightarrow>
        (case claim_locked s1 worker lease_seconds now2 of
           Inl e \<Rightarrow> (s1, Inl e) | Inr (s2, r) \<Rightarrow> (s2, Inr r)))"

definition assert_owner ::
  "'a task_row_scheme \<Rightarrow> string \<Rightarrow> nat \<Rightarrow> timestamp \<Rightarrow> task_error + unit" where
  "assert_owner task worker_id expected_version now =
    (case text_identifier worker_id ''worker_id'' of Inl e \<Rightarrow> Inl e | Inr worker \<Rightarrow>
     if tk_version task \<noteq> expected_version then Inl (TaskLeaseError ''task version changed'')
     else if tk_lease_owner task \<noteq> Some worker
       then Inl (TaskLeaseError ''worker does not own task lease'')
     else case tk_lease_expires_at task of
         Some x \<Rightarrow> if x \<le> now then Inl (TaskLeaseError ''task lease expired'') else Inr ()
       | None \<Rightarrow> Inr ())"

text \<open>The rows an owner's \<open>UPDATE\<close> addresses; \<open>worker_id\<close> is the argument as passed in.\<close>

definition owned_row :: "string \<Rightarrow> string \<Rightarrow> nat \<Rightarrow> task_row \<Rightarrow> bool" where
  "owned_row task_id worker_id version t =
     (tk_task_id t = task_id \<and> tk_lease_owner t = Some worker_id \<and> tk_version t = version)"

section \<open>The worker's operations\<close>

text \<open>
  \<open>now\<close> is the reading at the top of the operation and \<open>now'\<close> the one inside
  \<open>_assert_owner\<close>.
\<close>

definition start_row :: "timestamp \<Rightarrow> task_row \<Rightarrow> task_row" where
  "start_row now t =
     t\<lparr>tk_status := RUNNING, tk_version := Suc (tk_version t),
       tk_started_at := (case tk_started_at t of None \<Rightarrow> Some now | Some x \<Rightarrow> Some x),
       tk_updated_at := now\<rparr>"

definition start_task ::
  "store \<Rightarrow> string \<Rightarrow> string \<Rightarrow> nat \<Rightarrow> timestamp \<Rightarrow> timestamp \<Rightarrow> task_error + store \<times> task_record"
where
  "start_task s task_id worker_id expected_version now now' =
    (case get_task_locked s task_id of Inl e \<Rightarrow> Inl e | Inr task \<Rightarrow>
     case assert_owner task worker_id expected_version now' of Inl e \<Rightarrow> Inl e | Inr _ \<Rightarrow>
     if tk_status task \<noteq> CLAIMED then Inl (TaskTransitionError ''only claimed tasks can start'')
     else let hit = (\<lambda>t. tk_task_id t = tk_task_id task \<and> tk_status t = CLAIMED
                          \<and> tk_version t = expected_version) in
       if row_count hit (tasks s) \<noteq> 1
       then Inl (TaskConflictError ''task changed before start'')
       else let s' = append_event (tk_task_id task) ''task.started''
              (JObj [(''worker_id'', JStr worker_id), (''attempt'', JInt (int (tk_attempt task)))])
              now (update_tasks hit (start_row now) s) in
         (case get_task_locked s' (tk_task_id task) of Inl e \<Rightarrow> Inl e | Inr t \<Rightarrow> Inr (s', t)))"

definition heartbeat_row :: "rat \<Rightarrow> timestamp \<Rightarrow> task_row \<Rightarrow> task_row" where
  "heartbeat_row lease_seconds now t =
     t\<lparr>tk_lease_expires_at := Some (now + lease_seconds), tk_last_heartbeat_at := Some now,
       tk_updated_at := now\<rparr>"

definition heartbeat ::
  "store \<Rightarrow> string \<Rightarrow> string \<Rightarrow> nat \<Rightarrow> rat \<Rightarrow> timestamp \<Rightarrow> timestamp
     \<Rightarrow> task_error + store \<times> task_record" where
  "heartbeat s task_id worker_id expected_version lease_seconds now now' =
    (if lease_seconds \<le> 0 then Inl (ValueError ''lease_seconds must be positive'')
     else case get_task_locked s task_id of Inl e \<Rightarrow> Inl e | Inr task \<Rightarrow>
     case assert_owner task worker_id expected_version now' of Inl e \<Rightarrow> Inl e | Inr _ \<Rightarrow>
     if tk_status task \<notin> {CLAIMED, RUNNING} then Inl (TaskLeaseError ''task is not active'')
     else let s' = update_tasks (owned_row (tk_task_id task) worker_id expected_version)
                     (heartbeat_row lease_seconds now) s in
       (case get_task_locked s' (tk_task_id task) of Inl e \<Rightarrow> Inl e | Inr t \<Rightarrow> Inr (s', t)))"

definition side_effect_states :: "string list" where
  "side_effect_states = [''none'', ''safe'', ''committed'', ''unknown'']"

definition mark_row :: "string \<Rightarrow> timestamp \<Rightarrow> task_row \<Rightarrow> task_row" where
  "mark_row state now t = t\<lparr>tk_side_effect_state := state, tk_updated_at := now\<rparr>"

definition mark_side_effect_state ::
  "store \<Rightarrow> string \<Rightarrow> string \<Rightarrow> nat \<Rightarrow> string \<Rightarrow> timestamp \<Rightarrow> timestamp
     \<Rightarrow> task_error + store \<times> task_record" where
  "mark_side_effect_state s task_id worker_id expected_version state now' now =
    (case required_text state ''side_effect_state'' of Inl e \<Rightarrow> Inl e | Inr normalized \<Rightarrow>
     if normalized \<notin> set side_effect_states
     then Inl (ValueError ''unsupported side_effect_state'')
     else case get_task_locked s task_id of Inl e \<Rightarrow> Inl e | Inr task \<Rightarrow>
     case assert_owner task worker_id expected_version now' of Inl e \<Rightarrow> Inl e | Inr _ \<Rightarrow>
       let s' = update_tasks (owned_row (tk_task_id task) worker_id expected_version)
                  (mark_row normalized now) s in
       (case get_task_locked s' (tk_task_id task) of Inl e \<Rightarrow> Inl e | Inr t \<Rightarrow> Inr (s', t)))"

definition cancel_row :: "string \<Rightarrow> timestamp \<Rightarrow> task_row \<Rightarrow> task_row" where
  "cancel_row reason now t =
     t\<lparr>tk_cancel_requested := True, tk_stop_reason := Some reason, tk_updated_at := now\<rparr>"

definition request_cancel ::
  "store \<Rightarrow> string \<Rightarrow> string \<Rightarrow> timestamp \<Rightarrow> task_error + store \<times> task_record" where
  "request_cancel s task_id reason now =
    (case required_text reason ''reason'' of Inl e \<Rightarrow> Inl e | Inr text \<Rightarrow>
     let normalized_reason = take 500 text in
     case get_task_locked s task_id of Inl e \<Rightarrow> Inl e | Inr task \<Rightarrow>
     if record_terminal task then Inr (s, task)
     else (case
        (if tk_status task \<in> {CREATED, WAITING_DEPENDENCY, QUEUED, CLAIMED}
         then transition_locked (tk_task_id task) (tk_status task) CANCELLED normalized_reason now s
         else Inr (append_event (tk_task_id task) ''task.cancel_requested''
                (reason_payload normalized_reason) now
                (update_tasks (\<lambda>t. tk_task_id t = tk_task_id task)
                   (cancel_row normalized_reason now) s))) of
        Inl e \<Rightarrow> Inl e
      | Inr s' \<Rightarrow> (case get_task_locked s' (tk_task_id task) of
          Inl e \<Rightarrow> Inl e | Inr t \<Rightarrow> Inr (s', t))))"

definition complete_row :: "task_result \<Rightarrow> timestamp \<Rightarrow> task_row \<Rightarrow> task_row" where
  "complete_row result now t = clear_lease
     (t\<lparr>tk_status := rs_status result, tk_version := Suc (tk_version t), tk_updated_at := now,
        tk_completed_at := Some now, tk_stop_reason := rs_stop_reason result,
        tk_output := rs_output result, tk_error := rs_error result,
        tk_side_effect_state := rs_side_effect_state result\<rparr>)"

definition optional_text :: "string option \<Rightarrow> json" where
  "optional_text v = (case v of None \<Rightarrow> JNull | Some x \<Rightarrow> JStr x)"

definition completion_payload :: "task_result \<Rightarrow> json" where
  "completion_payload r = JObj
     [(''stop_reason'', optional_text (rs_stop_reason r)),
      (''model_calls'', JInt (rs_model_calls r)), (''tool_calls'', JInt (rs_tool_calls r)),
      (''input_tokens'', JInt (rs_input_tokens r)), (''output_tokens'', JInt (rs_output_tokens r)),
      (''side_effect_state'', JStr (rs_side_effect_state r))]"

definition complete_task ::
  "store \<Rightarrow> string \<Rightarrow> string \<Rightarrow> nat \<Rightarrow> task_result \<Rightarrow> timestamp \<Rightarrow> timestamp
     \<Rightarrow> task_error + store \<times> task_record" where
  "complete_task s task_id worker_id expected_version result now now' =
    (case get_task_locked s task_id of Inl e \<Rightarrow> Inl e | Inr task \<Rightarrow>
     case assert_owner task worker_id expected_version now' of Inl e \<Rightarrow> Inl e | Inr _ \<Rightarrow>
     if tk_status task \<notin> {CLAIMED, RUNNING}
     then Inl (TaskTransitionError ''task is not active'')
     else if rs_status result \<notin> set (allowed_transitions (tk_status task))
     then Inl (TaskTransitionError (''transition not allowed: '' @ status_value (tk_status task)
                 @ '' -> '' @ status_value (rs_status result)))
     else let hit = (\<lambda>t. owned_row (tk_task_id task) worker_id expected_version t
                          \<and> tk_status t = tk_status task) in
       if row_count hit (tasks s) \<noteq> 1
       then Inl (TaskConflictError ''task completion lost ownership'')
       else let s1 = append_event (tk_task_id task) (''task.'' @ status_value (rs_status result))
              (completion_payload result) now (update_tasks hit (complete_row result now) s) in
         (case refresh_dependencies_after (tk_task_id task) now s1 of
            Inl e \<Rightarrow> Inl e
          | Inr s2 \<Rightarrow> (case get_task_locked s2 (tk_task_id task) of
              Inl e \<Rightarrow> Inl e | Inr t \<Rightarrow> Inr (s2, t))))"

definition requeue_row :: "string \<Rightarrow> timestamp \<Rightarrow> task_row \<Rightarrow> task_row" where
  "requeue_row reason now t = clear_lease
     (t\<lparr>tk_status := QUEUED, tk_version := Suc (tk_version t), tk_updated_at := now,
        tk_stop_reason := Some reason\<rparr>)"

definition requeue_task ::
  "store \<Rightarrow> string \<Rightarrow> string \<Rightarrow> nat \<Rightarrow> string \<Rightarrow> timestamp \<Rightarrow> timestamp
     \<Rightarrow> task_error + store \<times> task_record" where
  "requeue_task s task_id worker_id expected_version reason now now' =
    (case get_task_locked s task_id of Inl e \<Rightarrow> Inl e | Inr task \<Rightarrow>
     case assert_owner task worker_id expected_version now' of Inl e \<Rightarrow> Inl e | Inr _ \<Rightarrow>
     if tk_status task \<notin> {CLAIMED, RUNNING}
     then Inl (TaskTransitionError ''task is not active'')
     else if int (tk_attempt task) \<ge> tk_max_attempts task
     then Inl (TaskTransitionError ''attempt budget exhausted'')
     else if tk_side_effect_state task \<notin> {''none'', ''safe''}
     then Inl (TaskTransitionError ''task with uncertain side effects cannot retry'')
     else case required_text reason ''reason'' of Inl e \<Rightarrow> Inl e | Inr text \<Rightarrow>
       let hit = (\<lambda>t. owned_row (tk_task_id task) worker_id expected_version t
                       \<and> tk_status t = tk_status task) in
       if row_count hit (tasks s) \<noteq> 1
       then Inl (TaskConflictError ''task requeue lost ownership'')
       else let s' = append_event (tk_task_id task) ''task.queued''
              (JObj [(''reason'', JStr reason), (''attempt'', JInt (int (tk_attempt task)))]) now
              (update_tasks hit (requeue_row (take 500 text) now) s) in
         (case get_task_locked s' (tk_task_id task) of Inl e \<Rightarrow> Inl e | Inr t \<Rightarrow> Inr (s', t)))"

section \<open>Recovery of expired leases\<close>

definition recovery_verdict :: "task_row \<Rightarrow> task_status \<times> string" where
  "recovery_verdict t =
    (if tk_side_effect_state t \<in> {''committed'', ''unknown''}
     then (UNKNOWN_OUTCOME, ''lease_expired_after_possible_side_effect'')
     else if int (tk_attempt t) < tk_max_attempts t
     then (QUEUED, ''lease_expired_requeued'')
     else (FAILED, ''lease_expired_attempt_budget_exhausted''))"

definition expired :: "timestamp \<Rightarrow> task_row \<Rightarrow> bool" where
  "expired now t = (tk_status t \<in> {CLAIMED, RUNNING} \<and>
     (case tk_lease_expires_at t of None \<Rightarrow> False | Some x \<Rightarrow> x \<le> now))"

definition recover_row :: "task_status \<Rightarrow> string \<Rightarrow> timestamp \<Rightarrow> task_row \<Rightarrow> task_row" where
  "recover_row next_status reason now t = clear_lease
     (t\<lparr>tk_status := next_status, tk_version := Suc (tk_version t), tk_updated_at := now,
        tk_completed_at := (if next_status \<in> {FAILED, UNKNOWN_OUTCOME} then Some now
                            else tk_completed_at t),
        tk_stop_reason := Some reason\<rparr>)"

definition recover_one :: "timestamp \<Rightarrow> task_row \<Rightarrow> store \<Rightarrow> store" where
  "recover_one now task s =
    (case recovery_verdict task of (next_status, reason) \<Rightarrow>
       append_event (tk_task_id task) (''task.'' @ status_value next_status)
         (JObj [(''reason'', JStr reason), (''recovered'', JBool True)]) now
         (update_tasks (\<lambda>t. tk_task_id t = tk_task_id task \<and> tk_version t = tk_version task)
            (recover_row next_status reason now) s))"

fun recover_loop :: "timestamp \<Rightarrow> task_row list \<Rightarrow> store \<Rightarrow> task_error + store \<times> task_record list"
where
  "recover_loop now [] s = Inr (s, [])"
| "recover_loop now (task # rest) s =
    (let s' = recover_one now task s in
     case get_task_locked s' (tk_task_id task) of Inl e \<Rightarrow> Inl e | Inr t \<Rightarrow>
     (case recover_loop now rest s' of
        Inl e \<Rightarrow> Inl e | Inr (s'', ts) \<Rightarrow> Inr (s'', t # ts)))"

definition expired_rows :: "store \<Rightarrow> timestamp \<Rightarrow> task_row list" where
  "expired_rows s now =
     sort_key (\<lambda>t. (tk_updated_at t, tk_task_id t)) (filter (expired now) (tasks s))"

definition recover_expired_leases ::
  "store \<Rightarrow> timestamp \<Rightarrow> task_error + store \<times> task_record list" where
  "recover_expired_leases s now = recover_loop now (expired_rows s now) s"

end
