(* ===== verification/Task_Store_Inv.thy ===== *)
theory Task_Store_Inv
  imports Task_Store
begin

text \<open>
  The invariant of the task store and the way its rows may change. \<open>row_step\<close> is one legal
  change of a row; \<open>store_inv\<close> is kept and \<open>evolves\<close> holds across every operation; a
  \<open>store_step\<close> is one successful operation and \<open>task_reachable\<close> the stores an execution can reach.
\<close>

named_theorems row_defs \<open>the row updates of the task store\<close>

declare transition_row_def [row_defs] clear_lease_def [row_defs] claim_row_def [row_defs]
  start_row_def [row_defs] heartbeat_row_def [row_defs] mark_row_def [row_defs]
  cancel_row_def [row_defs] complete_row_def [row_defs] requeue_row_def [row_defs]
  recover_row_def [row_defs]

section \<open>Legal changes of one row\<close>

text \<open>
  The lifecycle: the edges of the table \<open>_ALLOWED_TRANSITIONS\<close>, and the one edge the recovery of
  expired leases takes without consulting it.
\<close>

definition lifecycle :: "task_status \<Rightarrow> task_status \<Rightarrow> bool" where
  "lifecycle a b \<longleftrightarrow> b \<in> set (allowed_transitions a) \<or> (a = CLAIMED \<and> b = FAILED)"

definition leased :: "task_status \<Rightarrow> bool" where
  "leased x \<longleftrightarrow> x = CLAIMED \<or> x = RUNNING"

definition row_wf :: "task_row \<Rightarrow> bool" where
  "row_wf t \<longleftrightarrow>
     1 \<le> tk_max_attempts t \<and> tk_max_attempts t \<le> 20 \<and>
     int (tk_attempt t) \<le> tk_max_attempts t \<and>
     (tk_status t \<in> {CREATED, QUEUED, WAITING_DEPENDENCY} \<longrightarrow> int (tk_attempt t) < tk_max_attempts t) \<and>
     (tk_lease_owner t \<noteq> None \<longleftrightarrow> leased (tk_status t)) \<and>
     (tk_lease_expires_at t \<noteq> None \<longleftrightarrow> leased (tk_status t)) \<and>
     (tk_last_heartbeat_at t \<noteq> None \<longleftrightarrow> leased (tk_status t)) \<and>
     (tk_completed_at t \<noteq> None \<longleftrightarrow> is_terminal (tk_status t))"

definition same_request :: "task_row \<Rightarrow> task_row \<Rightarrow> bool" where
  "same_request t u \<longleftrightarrow>
     tk_task_id u = tk_task_id t \<and> tk_parent_run_id u = tk_parent_run_id t \<and>
     tk_request_digest u = tk_request_digest t \<and> tk_objective u = tk_objective t \<and>
     tk_workspace u = tk_workspace t \<and> tk_max_attempts u = tk_max_attempts t \<and>
     tk_max_steps u = tk_max_steps t \<and> tk_timeout_seconds u = tk_timeout_seconds t \<and>
     tk_created_at u = tk_created_at t \<and> tk_metadata u = tk_metadata t"

definition row_step :: "task_row \<Rightarrow> task_row \<Rightarrow> bool" where
  "row_step t u \<longleftrightarrow> same_request t u \<and> \<not> is_terminal (tk_status t) \<and>
     (row_wf t \<longrightarrow> row_wf u) \<and>
     (tk_status u = tk_status t \<and> tk_version u = tk_version t \<and> tk_attempt u = tk_attempt t \<or>
      lifecycle (tk_status t) (tk_status u) \<and> tk_version u = Suc (tk_version t) \<and>
      tk_attempt u = (if tk_status u = CLAIMED then Suc (tk_attempt t) else tk_attempt t))"

lemmas row_step_defs = row_step_def same_request_def row_wf_def lifecycle_def leased_def
  terminal_statuses_def

lemma row_step_transition:
  assumes "next_status \<in> set (allowed_transitions (tk_status t))"
    and "next_status \<in> {CANCELLED, BLOCKED} \<or> (next_status = QUEUED \<and> tk_status t = WAITING_DEPENDENCY)"
  shows "row_step t (transition_row next_status reason now t)"
proof -
  from assms(2) consider "next_status = CANCELLED" | "next_status = BLOCKED"
    | "next_status = QUEUED" "tk_status t = WAITING_DEPENDENCY" by auto
  then show ?thesis
    by cases (use assms(1) in \<open>cases "tk_status t"; simp add: row_step_defs row_defs\<close>)+
qed

lemma row_step_claim:
  assumes "tk_status t = QUEUED" "int (tk_attempt t) < tk_max_attempts t"
  shows "row_step t (claim_row w l now t)"
  using assms by (simp add: row_step_defs row_defs)

lemma row_step_start: "tk_status t = CLAIMED \<Longrightarrow> row_step t (start_row now t)"
  by (simp add: row_step_defs row_defs)

lemma row_step_heartbeat: "leased (tk_status t) \<Longrightarrow> row_step t (heartbeat_row l now t)"
  by (auto simp: row_step_defs row_defs)

lemma row_step_mark: "leased (tk_status t) \<Longrightarrow> row_step t (mark_row x now t)"
  by (auto simp: row_step_defs row_defs)

lemma row_step_cancel: "tk_status t = RUNNING \<Longrightarrow> row_step t (cancel_row r now t)"
  by (simp add: row_step_defs row_defs)

lemma row_step_complete:
  assumes "leased (tk_status t)" "rs_status r \<in> set (allowed_transitions (tk_status t))"
    "is_terminal (rs_status r)"
  shows "row_step t (complete_row r now t)"
  using assms by (cases "rs_status r") (auto simp: row_step_defs row_defs)

lemma row_step_requeue:
  assumes "leased (tk_status t)" "int (tk_attempt t) < tk_max_attempts t"
  shows "row_step t (requeue_row r now t)"
  using assms by (auto simp: row_step_defs row_defs)

lemma row_step_recover:
  assumes "leased (tk_status t)" "recovery_verdict t = (next_status, reason)"
  shows "row_step t (recover_row next_status reason now t)"
  using assms by (auto simp: row_step_defs row_defs recovery_verdict_def split: if_splits)

lemma row_step_id: "row_step t u \<Longrightarrow> tk_task_id u = tk_task_id t"
  by (simp add: row_step_def same_request_def)

abbreviation row_steps :: "task_row \<Rightarrow> task_row \<Rightarrow> bool" where
  "row_steps \<equiv> row_step\<^sup>*\<^sup>*"

lemma row_steps_same_request: "row_steps t u \<Longrightarrow> same_request t u"
  by (induction rule: rtranclp_induct) (auto simp: row_step_def same_request_def)

lemma row_steps_wf: "row_steps t u \<Longrightarrow> row_wf t \<Longrightarrow> row_wf u"
  by (induction rule: rtranclp_induct) (auto simp: row_step_def)

lemma row_steps_terminal: "row_steps t u \<Longrightarrow> is_terminal (tk_status t) \<Longrightarrow> u = t"
  by (erule converse_rtranclpE) (simp_all add: row_step_def)

lemma row_steps_lifecycle: "row_steps t u \<Longrightarrow> lifecycle\<^sup>*\<^sup>* (tk_status t) (tk_status u)"
  by (induction rule: rtranclp_induct)
    (auto simp: row_step_def intro: rtranclp.rtrancl_into_rtrancl)

lemma row_steps_version:
  "row_steps t u \<Longrightarrow> tk_version t \<le> tk_version u \<and>
     (tk_version u = tk_version t \<longrightarrow> tk_status u = tk_status t \<and> tk_attempt u = tk_attempt t)"
  by (induction rule: rtranclp_induct) (auto simp: row_step_def)

lemma row_steps_attempt: "row_steps t u \<Longrightarrow> tk_attempt t \<le> tk_attempt u"
  by (induction rule: rtranclp_induct) (auto simp: row_step_def split: if_splits)

section \<open>The invariant of the store\<close>

definition entered :: "task_status \<Rightarrow> bool" where
  "entered x \<longleftrightarrow> x \<in> {QUEUED, CLAIMED, RUNNING, SUCCEEDED, FAILED, TIMED_OUT, UNKNOWN_OUTCOME}"

definition succeeded :: "store \<Rightarrow> string \<Rightarrow> bool" where
  "succeeded s i \<longleftrightarrow> (\<exists>u \<in> set (tasks s). tk_task_id u = i \<and> tk_status u = SUCCEEDED)"

definition deps_done :: "store \<Rightarrow> string \<Rightarrow> bool" where
  "deps_done s i \<longleftrightarrow> (\<forall>e \<in> set (deps s). fst e = i \<longrightarrow> succeeded s (snd e))"

definition earlier :: "string list \<Rightarrow> string \<Rightarrow> string \<Rightarrow> bool" where
  "earlier ids a b \<longleftrightarrow> (\<exists>j < length ids. \<exists>i < j. ids ! j = a \<and> ids ! i = b)"

definition ids_ok :: "store \<Rightarrow> bool" where
  "ids_ok s \<longleftrightarrow> distinct (map tk_task_id (tasks s))"

definition deps_ok :: "store \<Rightarrow> bool" where
  "deps_ok s \<longleftrightarrow> distinct (deps s) \<and>
     (\<forall>e \<in> set (deps s). earlier (map tk_task_id (tasks s)) (fst e) (snd e))"

definition gate_ok :: "store \<Rightarrow> bool" where
  "gate_ok s \<longleftrightarrow>
     (\<forall>t \<in> set (tasks s). entered (tk_status t) \<longrightarrow> deps_done s (tk_task_id t)) \<and>
     (\<forall>t \<in> set (tasks s). tk_status t = WAITING_DEPENDENCY \<longrightarrow>
        (\<exists>e \<in> set (deps s). fst e = tk_task_id t))"

definition events_ok :: "store \<Rightarrow> bool" where
  "events_ok s \<longleftrightarrow> (\<forall>i. \<exists>n. task_sequences s i = [Suc 0 ..< Suc n])"

definition idem_ok :: "store \<Rightarrow> bool" where
  "idem_ok s \<longleftrightarrow> distinct (map id_key (idem s)) \<and>
     (\<forall>r \<in> set (idem s). \<exists>t \<in> set (tasks s).
        tk_task_id t = id_task_id r \<and> tk_request_digest t = id_digest r)"

definition store_inv :: "store \<Rightarrow> bool" where
  "store_inv s \<longleftrightarrow> ids_ok s \<and> (\<forall>t \<in> set (tasks s). row_wf t) \<and> deps_ok s \<and> gate_ok s \<and>
     events_ok s \<and> idem_ok s"

definition evolves :: "store \<Rightarrow> store \<Rightarrow> bool" where
  "evolves s s' \<longleftrightarrow>
     (\<exists>old new. tasks s' = old @ new \<and> list_all2 row_steps (tasks s) old) \<and>
     prefix (deps s) (deps s') \<and> prefix (events s) (events s') \<and> prefix (idem s) (idem s')"

lemma evolvesI:
  assumes "tasks s' = old @ new" "list_all2 row_steps (tasks s) old"
    "prefix (deps s) (deps s')" "prefix (events s) (events s')" "prefix (idem s) (idem s')"
  shows "evolves s s'"
  using assms unfolding evolves_def by blast

lemma evolves_refl [simp]: "evolves s s"
  by (rule evolvesI [of _ "tasks s" "[]"]) (simp_all add: list_all2_refl)

lemma list_all2_rtranclp_trans:
  "list_all2 r\<^sup>*\<^sup>* xs ys \<Longrightarrow> list_all2 r\<^sup>*\<^sup>* ys zs \<Longrightarrow> list_all2 r\<^sup>*\<^sup>* xs zs"
  by (rule list_all2_trans) auto

lemma evolves_trans:
  assumes "evolves s t" "evolves t u"
  shows "evolves s u"
proof -
  from assms(1) obtain old new where o: "tasks t = old @ new" "list_all2 row_steps (tasks s) old"
    by (auto simp: evolves_def)
  from assms(2) obtain old' new' where o': "tasks u = old' @ new'" "list_all2 row_steps (tasks t) old'"
    by (auto simp: evolves_def)
  from o(1) o'(2) obtain a b where ab: "old' = a @ b" "list_all2 row_steps old a"
    by (auto simp: list_all2_append1)
  with o(2) have "list_all2 row_steps (tasks s) a" by (blast intro: list_all2_rtranclp_trans)
  with o'(1) ab(1) have "\<exists>x y. tasks u = x @ y \<and> list_all2 row_steps (tasks s) x" by auto
  with assms show ?thesis unfolding evolves_def by (auto intro: prefix_order.trans)
qed

text \<open>What \<open>evolves\<close> says of one task: it is still there, and its row changed legally.\<close>

lemma evolves_task:
  assumes "evolves s s'" "t \<in> set (tasks s)"
  shows "\<exists>u \<in> set (tasks s'). row_steps t u"
proof -
  from assms(1) obtain old new where o: "tasks s' = old @ new" "list_all2 row_steps (tasks s) old"
    by (auto simp: evolves_def)
  from o(2) assms(2) obtain u where "u \<in> set old" "row_steps t u"
    by (metis in_set_conv_nth list_all2_conv_all_nth)
  with o(1) show ?thesis by auto
qed

section \<open>The two primitive changes keep the invariant\<close>

lemma store_inv_append_event:
  assumes "store_inv s"
  shows "store_inv (append_event i ty p now s)"
proof -
  have ev: "events_ok (append_event i ty p now s)"
    unfolding events_ok_def
  proof
    fix j
    from assms obtain n where n: "task_sequences s j = [Suc 0 ..< Suc n]"
      by (auto simp: store_inv_def events_ok_def)
    show "\<exists>n. task_sequences (append_event i ty p now s) j = [Suc 0 ..< Suc n]"
    proof (cases "j = i")
      case True
      have "task_sequences (append_event i ty p now s) j = [Suc 0 ..< Suc n] @ [Suc n]"
        using n True next_number_upt [of n] by (simp add: append_event_def task_sequences_def)
      also have "\<dots> = [Suc 0 ..< Suc (Suc n)]" by simp
      finally show ?thesis by blast
    next
      case False
      with n have "task_sequences (append_event i ty p now s) j = [Suc 0 ..< Suc n]"
        by (simp add: append_event_def task_sequences_def)
      then show ?thesis by blast
    qed
  qed
  have "tasks (append_event i ty p now s) = tasks s" "deps (append_event i ty p now s) = deps s"
    "idem (append_event i ty p now s) = idem s" by (simp_all add: append_event_def)
  with assms ev show ?thesis
    by (simp add: store_inv_def ids_ok_def deps_ok_def gate_ok_def idem_ok_def deps_done_def
        succeeded_def)
qed

lemma evolves_append_event [simp]: "evolves s (append_event i ty p now s)"
  by (rule evolvesI [of _ "tasks s" "[]"]) (simp_all add: append_event_def list_all2_refl)

lemma update_keeps_ids:
  assumes "\<And>t. t \<in> set (tasks s) \<Longrightarrow> p t \<Longrightarrow> row_step t (f t)"
  shows "map tk_task_id (tasks (update_tasks p f s)) = map tk_task_id (tasks s)"
  using assms by (auto simp: update_tasks_def update_where_def row_step_id)

lemma update_keeps_succeeded:
  assumes "\<And>t. t \<in> set (tasks s) \<Longrightarrow> p t \<Longrightarrow> row_step t (f t)" "succeeded s i"
  shows "succeeded (update_tasks p f s) i"
proof -
  from assms(2) obtain u where u: "u \<in> set (tasks s)" "tk_task_id u = i" "tk_status u = SUCCEEDED"
    by (auto simp: succeeded_def)
  from u(3) have "is_terminal (tk_status u)" by (simp add: terminal_statuses_def)
  with assms(1) [OF u(1)] have "\<not> p u" by (auto simp: row_step_def)
  with u(1) have "u \<in> set (tasks (update_tasks p f s))"
    unfolding update_tasks_def by (auto simp: set_update_where)
  with u show ?thesis by (auto simp: succeeded_def)
qed

lemma store_inv_update:
  assumes inv: "store_inv s"
    and steps: "\<And>t. t \<in> set (tasks s) \<Longrightarrow> p t \<Longrightarrow> row_step t (f t)"
    and gate: "\<And>t. t \<in> set (tasks s) \<Longrightarrow> p t \<Longrightarrow> \<not> entered (tk_status t) \<Longrightarrow>
        entered (tk_status (f t)) \<Longrightarrow> deps_done s (tk_task_id t)"
    and wait: "\<And>t. t \<in> set (tasks s) \<Longrightarrow> p t \<Longrightarrow> tk_status (f t) = WAITING_DEPENDENCY \<Longrightarrow>
        tk_status t = WAITING_DEPENDENCY"
  shows "store_inv (update_tasks p f s)"
proof -
  let ?s = "update_tasks p f s"
  have fields: "deps ?s = deps s" "idem ?s = idem s" "events ?s = events s"
    by (simp_all add: update_tasks_def)
  note ids = update_keeps_ids [where s = s and p = p and f = f, OF steps]
  have row: "\<exists>q \<in> set (tasks s). r = (if p q then f q else q)" if "r \<in> set (tasks ?s)" for r
    using that by (simp add: update_tasks_def set_update_where)
  have kept: "deps_done ?s i" if "deps_done s i" for i
    using that update_keeps_succeeded [where s = s and p = p and f = f, OF steps]
    by (auto simp: deps_done_def fields)
  have wf: "\<forall>t \<in> set (tasks ?s). row_wf t"
  proof
    fix r assume "r \<in> set (tasks ?s)"
    then obtain q where "q \<in> set (tasks s)" "r = (if p q then f q else q)" using row by blast
    with inv steps [of q] show "row_wf r" by (auto simp: store_inv_def row_step_def)
  qed
  have gate_ok: "gate_ok ?s"
    unfolding gate_ok_def
  proof (intro conjI ballI impI)
    fix r assume r: "r \<in> set (tasks ?s)" "entered (tk_status r)"
    then obtain q where q: "q \<in> set (tasks s)" "r = (if p q then f q else q)" using row by blast
    have "tk_task_id r = tk_task_id q" using q steps [of q] by (auto simp: row_step_id)
    moreover have "deps_done s (tk_task_id q)"
      using q r inv gate [of q] by (cases "entered (tk_status q)") (auto simp: store_inv_def gate_ok_def split: if_splits)
    ultimately show "deps_done ?s (tk_task_id r)" using kept by simp
  next
    fix r assume r: "r \<in> set (tasks ?s)" "tk_status r = WAITING_DEPENDENCY"
    then obtain q where q: "q \<in> set (tasks s)" "r = (if p q then f q else q)" using row by blast
    have "tk_task_id r = tk_task_id q" using q steps [of q] by (auto simp: row_step_id)
    moreover have "tk_status q = WAITING_DEPENDENCY" using q r wait [of q] by (auto split: if_splits)
    ultimately show "\<exists>e \<in> set (deps ?s). fst e = tk_task_id r"
      using inv q by (auto simp: store_inv_def gate_ok_def fields)
  qed
  have "idem_ok ?s"
    unfolding idem_ok_def
  proof (intro conjI ballI)
    show "distinct (map id_key (idem ?s))" using inv by (simp add: store_inv_def idem_ok_def fields)
    fix r assume "r \<in> set (idem ?s)"
    then obtain t where t: "t \<in> set (tasks s)" "tk_task_id t = id_task_id r"
        "tk_request_digest t = id_digest r"
      using inv by (auto simp: store_inv_def idem_ok_def fields)
    let ?u = "if p t then f t else t"
    have "?u \<in> set (tasks ?s)" using t(1) by (auto simp: update_tasks_def set_update_where)
    moreover have "tk_task_id ?u = id_task_id r" "tk_request_digest ?u = id_digest r"
      using t steps [of t] by (auto simp: row_step_def same_request_def)
    ultimately show "\<exists>t \<in> set (tasks ?s). tk_task_id t = id_task_id r \<and> tk_request_digest t = id_digest r"
      by blast
  qed
  moreover have "ids_ok ?s" "deps_ok ?s" "events_ok ?s"
    using inv ids by (simp_all add: store_inv_def ids_ok_def deps_ok_def events_ok_def fields
        task_sequences_def)
  ultimately show ?thesis using wf gate_ok by (simp add: store_inv_def)
qed

lemma evolves_update:
  assumes "\<And>t. t \<in> set (tasks s) \<Longrightarrow> p t \<Longrightarrow> row_step t (f t)"
  shows "evolves s (update_tasks p f s)"
proof -
  have "list_all2 row_steps (tasks s) (update_where p f (tasks s))"
    using assms by (intro list_all2_update_where) auto
  then show ?thesis unfolding evolves_def update_tasks_def by auto
qed

text \<open>An update followed by an event, the shape of every status change.\<close>

lemma update_event_ok:
  assumes "store_inv s"
    and "\<And>t. t \<in> set (tasks s) \<Longrightarrow> p t \<Longrightarrow> row_step t (f t)"
    and "\<And>t. t \<in> set (tasks s) \<Longrightarrow> p t \<Longrightarrow> \<not> entered (tk_status t) \<Longrightarrow>
        entered (tk_status (f t)) \<Longrightarrow> deps_done s (tk_task_id t)"
    and "\<And>t. t \<in> set (tasks s) \<Longrightarrow> p t \<Longrightarrow> tk_status (f t) = WAITING_DEPENDENCY \<Longrightarrow>
        tk_status t = WAITING_DEPENDENCY"
  shows "store_inv (append_event i ty pl now (update_tasks p f s)) \<and>
    evolves s (append_event i ty pl now (update_tasks p f s))"
proof -
  have "store_inv (update_tasks p f s)" by (rule store_inv_update) (use assms in blast)+
  moreover have "evolves s (update_tasks p f s)" by (rule evolves_update) (use assms in blast)
  ultimately show ?thesis by (blast intro: store_inv_append_event evolves_append_event evolves_trans)
qed

end
