(* ===== verification/Task_Store_Steps.thy ===== *)
theory Task_Store_Steps
  imports Task_Store_Inv
begin

text \<open>
  Every operation of the task store keeps \<open>store_inv\<close> and changes rows only as \<open>evolves\<close> allows;
  the executions of the store as the relation \<open>store_step\<close> and the predicate \<open>task_reachable\<close>.
\<close>

section \<open>Reading a task\<close>

lemma row_to_task_fields [simp]:
  "tk_task_id (row_to_task s r) = tk_task_id r"
  "tk_status (row_to_task s r) = tk_status r"
  "tk_version (row_to_task s r) = tk_version r"
  "tk_attempt (row_to_task s r) = tk_attempt r"
  "tk_max_attempts (row_to_task s r) = tk_max_attempts r"
  "tk_lease_owner (row_to_task s r) = tk_lease_owner r"
  "tk_lease_expires_at (row_to_task s r) = tk_lease_expires_at r"
  "tk_side_effect_state (row_to_task s r) = tk_side_effect_state r"
  "task_row.truncate (row_to_task s r) = r"
  by (simp_all add: row_to_task_def task_row.defs task_record.defs)

lemma get_task_lockedE:
  assumes "get_task_locked s i = Inr t"
  obtains r where "r \<in> set (tasks s)" "tk_task_id r = i" "t = row_to_task s r"
  using assms by (auto simp: get_task_locked_def fetch_task_def split: option.splits dest: find_SomeD)

lemma fetch_task_iff:
  assumes "ids_ok s"
  shows "fetch_task s i = Some r \<longleftrightarrow> r \<in> set (tasks s) \<and> tk_task_id r = i"
  using assms find_key_Some [of tk_task_id "tasks s" r]
  by (auto simp: fetch_task_def ids_ok_def dest: find_SomeD)

lemma fetch_task_None_iff: "fetch_task s i = None \<longleftrightarrow> i \<notin> tk_task_id ` set (tasks s)"
  by (auto simp: fetch_task_def find_None_iff)

lemma ids_okD:
  "ids_ok s \<Longrightarrow> r \<in> set (tasks s) \<Longrightarrow> q \<in> set (tasks s) \<Longrightarrow> tk_task_id r = tk_task_id q \<Longrightarrow> r = q"
  unfolding ids_ok_def by (rule distinct_map_eqD)

lemma assert_ownerD:
  assumes "assert_owner t w v now = Inr u"
  shows "tk_version t = v" "tk_lease_owner t = Some (strip w)"
    "\<And>x. tk_lease_expires_at t = Some x \<Longrightarrow> now < x"
  using assms
  by (auto simp: assert_owner_def text_identifier_def required_text_def Let_def
      split: sum.splits if_splits option.splits)

lemma store_invD:
  assumes "store_inv s"
  shows "ids_ok s" "\<And>t. t \<in> set (tasks s) \<Longrightarrow> row_wf t" "deps_ok s" "gate_ok s" "events_ok s" "idem_ok s"
  using assms by (simp_all add: store_inv_def)

lemma leased_owner: "row_wf t \<Longrightarrow> tk_lease_owner t = Some w \<Longrightarrow> leased (tk_status t)"
  by (auto simp: row_wf_def)

lemma not_entered_iff: "\<not> entered x \<longleftrightarrow> x \<in> {CREATED, WAITING_DEPENDENCY, CANCELLED, BLOCKED}"
  by (cases x) (simp_all add: entered_def)

lemmas update_event_inv = update_event_ok [THEN conjunct1]
  and update_event_evolves = update_event_ok [THEN conjunct2]

section \<open>Transitions and the refresh of dependencies\<close>

lemma dependency_statuses_succeeded:
  assumes "store_inv s" "\<forall>x \<in> set (dependency_statuses s i). x = SUCCEEDED"
  shows "deps_done s i"
  unfolding deps_done_def
proof (intro ballI impI)
  fix e assume e: "e \<in> set (deps s)" "fst e = i"
  have "earlier (map tk_task_id (tasks s)) (fst e) (snd e)"
    using assms(1) e(1) by (auto simp: store_inv_def deps_ok_def)
  then have "snd e \<in> set (map tk_task_id (tasks s))"
    unfolding earlier_def by (metis dual_order.strict_trans nth_mem)
  then obtain u where u: "u \<in> set (tasks s)" "tk_task_id u = snd e" by auto
  then have "tk_status u \<in> set (dependency_statuses s i)"
    using e unfolding dependency_statuses_def by force
  with assms(2) u show "succeeded s (snd e)" by (auto simp: succeeded_def)
qed

lemma dependency_verdict_Some:
  assumes "dependency_verdict sts = Some (nxt, reason)"
  shows "nxt = BLOCKED \<or> nxt = QUEUED \<and> (\<forall>x \<in> set sts. x = SUCCEEDED)"
  using assms by (auto simp: dependency_verdict_def split: if_splits)

lemma transition_ok:
  assumes inv: "store_inv s"
    and tr: "transition_locked i ex nxt reason now s = Inr s'"
    and nxt: "nxt \<in> {CANCELLED, BLOCKED} \<or> nxt = QUEUED \<and> ex = WAITING_DEPENDENCY \<and> deps_done s i"
  shows "store_inv s' \<and> evolves s s'"
proof -
  let ?hit = "\<lambda>t. tk_task_id t = i \<and> tk_status t = ex"
  from tr have allowed: "nxt \<in> set (allowed_transitions ex)"
    and s': "s' = append_event i (''task.'' @ status_value nxt) (reason_payload reason) now
              (update_tasks ?hit (transition_row nxt reason now) s)"
    by (auto simp: transition_locked_def Let_def split: if_splits)
  have step: "row_step t (transition_row nxt reason now t)" if "?hit t" for t
    by (rule row_step_transition) (use that nxt allowed in auto)
  have st: "tk_status (transition_row nxt reason now t) = nxt" for t
    by (simp add: row_defs)
  show ?thesis unfolding s'
    by (rule update_event_ok [OF inv]) (use step st nxt in \<open>auto simp: entered_def\<close>)
qed

lemma refresh_loop_ok:
  "store_inv s \<Longrightarrow> refresh_loop now ids s = Inr (s', changed) \<Longrightarrow> store_inv s' \<and> evolves s s'"
proof (induction now ids s arbitrary: s' changed rule: refresh_loop.induct)
  case (1 now s)
  then show ?case by simp
next
  case (2 now i rest s)
  show ?case
  proof (cases "dependency_verdict (dependency_statuses s i)")
    case None
    with 2 show ?thesis by simp
  next
    case (Some nr)
    obtain nxt reason where nr: "nr = (nxt, reason)" by (cases nr)
    with Some "2.prems"(2) obtain s1 ch where
      s1: "transition_locked i WAITING_DEPENDENCY nxt reason now s = Inr s1"
      and rest: "refresh_loop now rest s1 = Inr (s', ch)"
      by (auto split: sum.splits)
    have "nxt \<in> {CANCELLED, BLOCKED} \<or> nxt = QUEUED \<and> WAITING_DEPENDENCY = WAITING_DEPENDENCY \<and> deps_done s i"
      using dependency_verdict_Some Some nr "2.prems"(1) dependency_statuses_succeeded by blast
    from transition_ok [OF "2.prems"(1) s1 this]
    have a: "store_inv s1" "evolves s s1" by auto
    with "2.IH"(2) [OF Some _ s1 a(1) rest] nr show ?thesis by (auto intro: evolves_trans)
  qed
qed

lemma refresh_dependencies_ok:
  "store_inv s \<Longrightarrow> refresh_dependencies s now = Inr (s', changed) \<Longrightarrow> store_inv s' \<and> evolves s s'"
  unfolding refresh_dependencies_def by (rule refresh_loop_ok)

lemma refresh_after_loop_ok:
  "store_inv s \<Longrightarrow> refresh_after_loop now ids s = Inr s' \<Longrightarrow> store_inv s' \<and> evolves s s'"
proof (induction now ids s arbitrary: s' rule: refresh_after_loop.induct)
  case (1 now s)
  then show ?case by simp
next
  case (2 now i rest s)
  show ?case
  proof (cases "\<exists>row. fetch_task s i = Some row \<and> tk_status row = WAITING_DEPENDENCY \<and>
                  dependency_verdict (dependency_statuses s i) \<noteq> None")
    case False
    with 2 show ?thesis by (auto split: option.splits if_splits)
  next
    case True
    then obtain row nxt reason where row: "fetch_task s i = Some row" "tk_status row = WAITING_DEPENDENCY"
      and v: "dependency_verdict (dependency_statuses s i) = Some (nxt, reason)" by auto
    with "2.prems"(2) obtain s1 where
      s1: "transition_locked i WAITING_DEPENDENCY nxt reason now s = Inr s1"
      and rest: "refresh_after_loop now rest s1 = Inr s'"
      by (auto split: sum.splits)
    have "nxt \<in> {CANCELLED, BLOCKED} \<or> nxt = QUEUED \<and> WAITING_DEPENDENCY = WAITING_DEPENDENCY \<and> deps_done s i"
      using dependency_verdict_Some v "2.prems"(1) dependency_statuses_succeeded by blast
    from transition_ok [OF "2.prems"(1) s1 this]
    have a: "store_inv s1" "evolves s s1" by auto
    with "2.IH"(4) [OF row(1) _ v _ s1 a(1) rest] row(2) show ?thesis by (auto intro: evolves_trans)
  qed
qed

section \<open>Claims and the worker's operations\<close>

lemma sort_key_head:
  assumes "sort_key k xs = y # ys"
  shows "y \<in> set xs" "\<And>x. x \<in> set xs \<Longrightarrow> k y \<le> k x"
proof -
  have s: "set (sort_key k xs) = set xs" by simp
  with assms show "y \<in> set xs" by (metis list.set_intros(1))
  have "sorted (map k (y # ys))" using sorted_sort_key [of k xs] assms by simp
  moreover fix x assume "x \<in> set xs"
  with s assms have "x \<in> set (y # ys)" by simp
  ultimately show "k y \<le> k x" by auto
qed

lemma claimable_head:
  assumes "claimable s = r # rs"
  shows "r \<in> set (tasks s)" "tk_status r = QUEUED" "\<not> tk_cancel_requested r"
    "\<And>t. t \<in> set (tasks s) \<Longrightarrow> tk_status t = QUEUED \<Longrightarrow> \<not> tk_cancel_requested t \<Longrightarrow>
       (tk_created_at r, tk_task_id r) \<le> (tk_created_at t, tk_task_id t)"
  using sort_key_head [of _ _ r rs] assms unfolding claimable_def queue_order_def by fastforce+

lemma queued_budget:
  "store_inv s \<Longrightarrow> t \<in> set (tasks s) \<Longrightarrow> tk_status t = QUEUED \<Longrightarrow> int (tk_attempt t) < tk_max_attempts t"
  by (auto simp: store_inv_def row_wf_def)

text \<open>
  What a claim does. The branch for an exhausted budget asks for a transition the table does not
  have; \<open>row_wf\<close> keeps every queued task within its budget, so the branch is not taken.
\<close>

lemma claim_locked_cases:
  assumes inv: "store_inv s" and cl: "claim_locked s w l now = Inr (s', r)"
  obtains (idle) "claimable s = []" "s' = s" "r = None"
  | (claim) row rest where "claimable s = row # rest"
      "s' = append_event (tk_task_id row) ''task.claimed''
         (JObj [(''worker_id'', JStr w), (''attempt'', JInt (int (tk_attempt row) + 1))]) now
         (update_tasks (\<lambda>t. tk_task_id t = tk_task_id row \<and> tk_status t = QUEUED
             \<and> tk_version t = tk_version row) (claim_row w l now) s)"
      "\<exists>t. r = Some t \<and> get_task_locked s' (tk_task_id row) = Inr t"
proof (cases "claimable s")
  case Nil
  with cl show ?thesis by (intro idle) (auto simp: claim_locked_def)
next
  case (Cons row rest)
  have "int (tk_attempt row) < tk_max_attempts row"
    using claimable_head [OF Cons] queued_budget [OF inv] by blast
  with cl Cons show ?thesis
    by (intro claim [OF Cons]) (auto simp: claim_locked_def Let_def split: if_splits sum.splits)
qed

lemma claim_locked_ok:
  assumes inv: "store_inv s" and cl: "claim_locked s w l now = Inr (s', r)"
  shows "store_inv s' \<and> evolves s s'"
  using inv cl
proof (cases rule: claim_locked_cases)
  case idle
  with inv show ?thesis by simp
next
  case (claim row rest)
  have step: "row_step t (claim_row w l now t)" if "t \<in> set (tasks s)" "tk_status t = QUEUED" for t
    by (rule row_step_claim) (use that queued_budget [OF inv] in auto)
  have st: "tk_status (claim_row w l now t) = CLAIMED" for t by (simp add: row_defs)
  show ?thesis unfolding claim(2)
    by (rule update_event_ok [OF inv]) (use step st in \<open>auto simp: entered_def\<close>)
qed

lemma claim_next_ok:
  assumes inv: "store_inv s" and cl: "claim_next s w l n1 n2 = (s', r)"
  shows "store_inv s' \<and> evolves s s'"
proof -
  consider "s' = s" | s1 ch where "refresh_dependencies s n1 = Inr (s1, ch)" "s' = s1"
    | s1 ch w' r' where "refresh_dependencies s n1 = Inr (s1, ch)" "claim_locked s1 w' l n2 = Inr (s', r')"
    using cl by (auto simp: claim_next_def split: sum.splits if_splits)
  then show ?thesis
  proof cases
    case 1
    with inv show ?thesis by simp
  next
    case 2
    with refresh_dependencies_ok [OF inv] show ?thesis by blast
  next
    case 3
    from refresh_dependencies_ok [OF inv 3(1)] have "store_inv s1" "evolves s s1" by auto
    with claim_locked_ok [OF _ 3(2)] show ?thesis by (blast intro: evolves_trans)
  qed
qed

lemma start_task_ok:
  assumes inv: "store_inv s" and st: "start_task s i w v now now' = Inr (s', t)"
  shows "store_inv s' \<and> evolves s s'"
proof -
  from st obtain e pl where s': "s' = append_event e ''task.started'' pl now
      (update_tasks (\<lambda>t. tk_task_id t = e \<and> tk_status t = CLAIMED \<and> tk_version t = v)
         (start_row now) s)"
    by (auto simp: start_task_def Let_def split: sum.splits if_splits)
  show ?thesis unfolding s'
    by (rule update_event_ok [OF inv])
      (use row_step_start in \<open>auto simp: entered_def start_row_def\<close>)
qed

lemma owned_update_ok:
  assumes inv: "store_inv s"
    and step: "\<And>t. leased (tk_status t) \<Longrightarrow> row_step t (f t)"
    and st: "\<And>t. tk_status (f t) = tk_status t"
  shows "store_inv (update_tasks (owned_row i w v) f s) \<and> evolves s (update_tasks (owned_row i w v) f s)"
proof -
  have "row_step t (f t)" if "t \<in> set (tasks s)" "owned_row i w v t" for t
    using that step leased_owner store_invD(2) [OF inv] by (auto simp: owned_row_def)
  then show ?thesis
    using st by (auto intro!: store_inv_update [OF inv] evolves_update)
qed

lemma heartbeat_ok:
  assumes inv: "store_inv s" and hb: "heartbeat s i w v l now now' = Inr (s', t)"
  shows "store_inv s' \<and> evolves s s'"
proof -
  from hb obtain e where s': "s' = update_tasks (owned_row e w v) (heartbeat_row l now) s"
    by (auto simp: heartbeat_def Let_def split: sum.splits if_splits)
  show ?thesis unfolding s'
    by (rule owned_update_ok [OF inv]) (erule row_step_heartbeat, simp add: heartbeat_row_def)
qed

lemma mark_side_effect_state_ok:
  assumes inv: "store_inv s" and mk: "mark_side_effect_state s i w v x now' now = Inr (s', t)"
  shows "store_inv s' \<and> evolves s s'"
proof -
  from mk obtain e y where s': "s' = update_tasks (owned_row e w v) (mark_row y now) s"
    by (auto simp: mark_side_effect_state_def Let_def split: sum.splits if_splits)
  show ?thesis unfolding s'
    by (rule owned_update_ok [OF inv]) (erule row_step_mark, simp add: mark_row_def)
qed

lemma request_cancel_ok:
  assumes inv: "store_inv s" and rc: "request_cancel s i reason now = Inr (s', t)"
  shows "store_inv s' \<and> evolves s s'"
proof -
  from rc obtain n task where task: "get_task_locked s i = Inr task"
    and cs: "record_terminal task \<and> s' = s \<or>
      tk_status task \<in> {CREATED, WAITING_DEPENDENCY, QUEUED, CLAIMED} \<and>
        transition_locked (tk_task_id task) (tk_status task) CANCELLED n now s = Inr s' \<or>
      \<not> is_terminal (tk_status task) \<and> tk_status task \<notin> {CREATED, WAITING_DEPENDENCY, QUEUED, CLAIMED} \<and>
        s' = append_event (tk_task_id task) ''task.cancel_requested'' (reason_payload n) now
             (update_tasks (\<lambda>t. tk_task_id t = tk_task_id task) (cancel_row n now) s)"
    by (auto simp: request_cancel_def Let_def record_terminal_def split: sum.splits if_splits)
  from cs consider "s' = s"
    | "transition_locked (tk_task_id task) (tk_status task) CANCELLED n now s = Inr s'"
    | "\<not> is_terminal (tk_status task)" "tk_status task \<notin> {CREATED, WAITING_DEPENDENCY, QUEUED, CLAIMED}"
      "s' = append_event (tk_task_id task) ''task.cancel_requested'' (reason_payload n) now
             (update_tasks (\<lambda>t. tk_task_id t = tk_task_id task) (cancel_row n now) s)"
    by blast
  then show ?thesis
  proof cases
    case 1
    with inv show ?thesis by simp
  next
    case 2
    then show ?thesis by (rule transition_ok [OF inv]) simp
  next
    case 3
    from task obtain r where r: "r \<in> set (tasks s)" "tk_task_id r = i" "task = row_to_task s r"
      by (rule get_task_lockedE)
    have run: "tk_status r = RUNNING"
      using 3 r by (cases "tk_status r") (auto simp: terminal_statuses_def)
    have step: "row_step t (cancel_row n now t)"
      if "t \<in> set (tasks s)" "tk_task_id t = tk_task_id task" for t
      using that r run ids_okD [OF store_invD(1) [OF inv]] by (intro row_step_cancel) auto
    show ?thesis unfolding 3(3)
      by (rule update_event_ok [OF inv]) (use step in \<open>auto simp: cancel_row_def\<close>)
  qed
qed

lemma complete_task_ok:
  assumes inv: "store_inv s" and res: "check_result res0 = Inr res"
    and ct: "complete_task s i w v res now now' = Inr (s', t)"
  shows "store_inv s' \<and> evolves s s'"
proof -
  have fin: "is_terminal (rs_status res)" using res by (auto simp: check_result_def split: if_splits)
  from ct obtain task pl s1 where task: "get_task_locked s i = Inr task"
    and st: "tk_status task \<in> {CLAIMED, RUNNING}"
      "rs_status res \<in> set (allowed_transitions (tk_status task))"
    and s1: "s1 = append_event (tk_task_id task) (''task.'' @ status_value (rs_status res)) pl now
        (update_tasks (\<lambda>t. owned_row (tk_task_id task) w v t \<and> tk_status t = tk_status task)
           (complete_row res now) s)"
    and s2: "refresh_dependencies_after (tk_task_id task) now s1 = Inr s'"
    by (auto simp: complete_task_def Let_def split: sum.splits if_splits)
  have step: "row_step t (complete_row res now t)" if "tk_status t = tk_status task" for t
    by (rule row_step_complete) (use that st fin in \<open>auto simp: leased_def\<close>)
  have "tk_status (complete_row res now t) = rs_status res" for t by (simp add: row_defs)
  then have "store_inv s1 \<and> evolves s s1" unfolding s1
    by (intro update_event_ok [OF inv]) (use step st fin in \<open>auto simp: entered_def terminal_statuses_def\<close>)
  with refresh_after_loop_ok [OF _ s2 [unfolded refresh_dependencies_after_def]]
  show ?thesis by (blast intro: evolves_trans)
qed

lemma requeue_task_ok:
  assumes inv: "store_inv s" and rq: "requeue_task s i w v reason now now' = Inr (s', t)"
  shows "store_inv s' \<and> evolves s s'"
proof -
  from rq obtain task pl x where task: "get_task_locked s i = Inr task"
    and st: "tk_status task \<in> {CLAIMED, RUNNING}" "int (tk_attempt task) < tk_max_attempts task"
    and s': "s' = append_event (tk_task_id task) ''task.queued'' pl now
        (update_tasks (\<lambda>t. owned_row (tk_task_id task) w v t \<and> tk_status t = tk_status task)
           (requeue_row x now) s)"
    by (auto simp: requeue_task_def Let_def split: sum.splits if_splits)
  from task obtain r where r: "r \<in> set (tasks s)" "tk_task_id r = i" "task = row_to_task s r"
    by (rule get_task_lockedE)
  have step: "row_step t (requeue_row x now t)"
    if "t \<in> set (tasks s)" "owned_row (tk_task_id task) w v t" for t
  proof -
    have "t = r" using that r ids_okD [OF store_invD(1) [OF inv]] by (auto simp: owned_row_def)
    with st r show ?thesis by (intro row_step_requeue) (auto simp: leased_def)
  qed
  have "tk_status (requeue_row x now t) = QUEUED" for t by (simp add: row_defs)
  with step st show ?thesis unfolding s'
    by (intro update_event_ok [OF inv]) (auto simp: entered_def)
qed

section \<open>Recovery\<close>

lemma recover_one_ok:
  assumes inv: "store_inv s" and row: "task \<in> set (tasks s)" "leased (tk_status task)"
  shows "store_inv (recover_one now task s) \<and> evolves s (recover_one now task s)"
proof -
  obtain nxt reason where v: "recovery_verdict task = (nxt, reason)" by (cases "recovery_verdict task")
  have step: "row_step t (recover_row nxt reason now t)"
    if "t \<in> set (tasks s)" "tk_task_id t = tk_task_id task" for t
  proof -
    have "t = task" using that row ids_okD [OF store_invD(1) [OF inv]] by blast
    with row v show ?thesis by (intro row_step_recover) auto
  qed
  have st: "tk_status (recover_row nxt reason now t) = nxt" for t by (simp add: row_defs)
  have ent: "entered (tk_status t)" if "t \<in> set (tasks s)" "tk_task_id t = tk_task_id task" for t
    using that row ids_okD [OF store_invD(1) [OF inv]] by (auto simp: entered_def leased_def)
  have "nxt \<noteq> WAITING_DEPENDENCY" using v by (auto simp: recovery_verdict_def split: if_splits)
  with step st ent show ?thesis unfolding recover_one_def v prod.case
    by (intro update_event_ok [OF inv]) auto
qed

lemma recover_one_others:
  assumes "t \<in> set (tasks s)" "tk_task_id t \<noteq> tk_task_id task"
  shows "t \<in> set (tasks (recover_one now task s))"
proof (cases "recovery_verdict task")
  case (Pair nxt reason)
  with assms show ?thesis
    by (auto simp: recover_one_def append_event_def update_tasks_def set_update_where
        intro!: bexI [of _ t])
qed

lemma recover_loop_ok:
  assumes "store_inv s" "set rows \<subseteq> set (tasks s)" "\<forall>t \<in> set rows. leased (tk_status t)"
    "distinct (map tk_task_id rows)" "recover_loop now rows s = Inr (s', ts)"
  shows "store_inv s' \<and> evolves s s'"
  using assms
proof (induction now rows s arbitrary: s' ts rule: recover_loop.induct)
  case (1 now s)
  then show ?case by simp
next
  case (2 now task rest s)
  let ?s = "recover_one now task s"
  have one: "store_inv ?s \<and> evolves s ?s" using "2.prems" by (intro recover_one_ok) auto
  from "2.prems"(5) obtain t ts' where t: "get_task_locked ?s (tk_task_id task) = Inr t"
    and rest: "recover_loop now rest ?s = Inr (s', ts')"
    by (auto simp: Let_def split: sum.splits)
  have "set rest \<subseteq> set (tasks ?s)"
  proof
    fix x assume "x \<in> set rest"
    with "2.prems"(2,4) have "x \<in> set (tasks s)" "tk_task_id x \<noteq> tk_task_id task" by (auto simp: image_iff)
    then show "x \<in> set (tasks ?s)" by (rule recover_one_others)
  qed
  with "2.IH" [OF refl t _ _ _ _ rest] one "2.prems" show ?case by (auto intro: evolves_trans)
qed

lemma expired_rows_props:
  assumes "ids_ok s"
  shows "set (expired_rows s now) \<subseteq> set (tasks s)"
    "\<forall>t \<in> set (expired_rows s now). leased (tk_status t)"
    "distinct (map tk_task_id (expired_rows s now))"
proof -
  show "set (expired_rows s now) \<subseteq> set (tasks s)" "\<forall>t \<in> set (expired_rows s now). leased (tk_status t)"
    by (auto simp: expired_rows_def expired_def leased_def)
  have "distinct (map tk_task_id (filter (expired now) (tasks s)))"
    using assms by (simp add: ids_ok_def distinct_map_filter)
  then show "distinct (map tk_task_id (expired_rows s now))"
    by (simp add: expired_rows_def distinct_map)
qed

lemma recover_expired_leases_ok:
  assumes "store_inv s" "recover_expired_leases s now = Inr (s', ts)"
  shows "store_inv s' \<and> evolves s s'"
  using assms expired_rows_props [OF store_invD(1) [OF assms(1)]]
  unfolding recover_expired_leases_def by (intro recover_loop_ok)

section \<open>Creation\<close>

lemma validate_spec_props:
  assumes "validate_spec spec = Inr n"
  shows "distinct (sp_dependencies n)" "sp_task_id n \<notin> set (sp_dependencies n)"
    "1 \<le> sp_max_attempts n" "sp_max_attempts n \<le> 20"
  using assms unfolding validate_spec_def
  by (auto simp: Let_def split: sum.splits if_splits)

lemma earlier_append: "earlier ids a b \<Longrightarrow> earlier (ids @ zs) a b"
proof -
  assume "earlier ids a b"
  then obtain i j where "j < length ids" "i < j" "ids ! j = a" "ids ! i = b"
    by (auto simp: earlier_def)
  then show ?thesis
    unfolding earlier_def by (intro exI [of _ j] conjI exI [of _ i]) (auto simp: nth_append)
qed

lemma earlier_last: "b \<in> set ids \<Longrightarrow> earlier (ids @ [a]) a b"
proof -
  assume "b \<in> set ids"
  then obtain i where "i < length ids" "ids ! i = b" by (auto simp: in_set_conv_nth)
  then show ?thesis
    unfolding earlier_def by (intro exI [of _ "length ids"] conjI exI [of _ i]) (auto simp: nth_append)
qed

lemma earlier_mem:
  assumes "earlier ids a b"
  shows "a \<in> set ids" "b \<in> set ids"
  using assms unfolding earlier_def by (metis nth_mem order.strict_trans)+

lemma store_inv_insert_task:
  assumes inv: "store_inv s" and n: "validate_spec spec = Inr n"
    and deps: "\<forall>d \<in> set (sp_dependencies n). fetch_task s d \<noteq> None"
    and fresh: "fetch_task s (sp_task_id n) = None"
    and key: "\<And>k. sp_idempotency_key n = Some k \<Longrightarrow> find (\<lambda>r. id_key r = k) (idem s) = None"
  shows "store_inv (insert_task n dg now s)"
proof -
  let ?s = "insert_task n dg now s" and ?row = "new_row n dg now" and ?i = "sp_task_id n"
  note v = validate_spec_props [OF n] and si = store_invD [OF inv]
  let ?ids = "map tk_task_id (tasks s)"
  have fields: "tasks ?s = tasks s @ [?row]" "deps ?s = deps s @ map (Pair ?i) (sp_dependencies n)"
    "events ?s = events s" by (simp_all add: insert_task_def)
  have row: "tk_task_id ?row = ?i" "tk_status ?row = initial_status n" "tk_request_digest ?row = dg"
    by (simp_all add: new_row_def)
  have new: "?i \<notin> set ?ids" using fresh by (simp add: fetch_task_None_iff image_image)
  have old_edge: "fst e \<in> set ?ids" "fst e \<noteq> ?i" if "e \<in> set (deps s)" for e
    using that si(3) new earlier_mem unfolding deps_ok_def by metis+
  have dep_mem: "d \<in> set ?ids" if "d \<in> set (sp_dependencies n)" for d
    using deps that by (auto simp: fetch_task_None_iff)
  have ids: "ids_ok ?s" using si(1) new by (simp add: ids_ok_def fields row)
  have wf: "\<forall>t \<in> set (tasks ?s). row_wf t"
    using si(2) v by (auto simp: fields row_wf_def new_row_def initial_status_def leased_def terminal_statuses_def)
  have dep: "deps_ok ?s"
    unfolding deps_ok_def fields
  proof (intro conjI ballI)
    have "distinct (map (Pair ?i) (sp_dependencies n))"
      using v(1) by (simp add: distinct_map inj_on_def)
    moreover have "set (deps s) \<inter> set (map (Pair ?i) (sp_dependencies n)) = {}"
      using old_edge(2) by fastforce
    ultimately show "distinct (deps s @ map (Pair ?i) (sp_dependencies n))"
      using si(3) by (simp add: deps_ok_def)
    fix e assume "e \<in> set (deps s @ map (Pair ?i) (sp_dependencies n))"
    then consider "e \<in> set (deps s)" | d where "d \<in> set (sp_dependencies n)" "e = (?i, d)" by auto
    then show "earlier (map tk_task_id (tasks s @ [?row])) (fst e) (snd e)"
    proof cases
      case 1
      with si(3) show ?thesis by (auto simp: deps_ok_def intro: earlier_append)
    next
      case 2
      with earlier_last [OF dep_mem] row show ?thesis by simp
    qed
  qed
  have succ: "succeeded ?s i" if "succeeded s i" for i
    using that by (auto simp: succeeded_def fields)
  have gate: "gate_ok ?s"
    unfolding gate_ok_def
  proof (intro conjI ballI impI)
    fix t assume t: "t \<in> set (tasks ?s)" "entered (tk_status t)"
    show "deps_done ?s (tk_task_id t)"
    proof (cases "t \<in> set (tasks s)")
      case True
      with t si(4) new succ show ?thesis by (auto simp: gate_ok_def deps_done_def fields)
    next
      case False
      with t have "t = ?row" by (simp add: fields)
      with t old_edge(2) show ?thesis
        by (auto simp: deps_done_def fields row initial_status_def entered_def split: if_splits)
    qed
  next
    fix t assume t: "t \<in> set (tasks ?s)" "tk_status t = WAITING_DEPENDENCY"
    show "\<exists>e \<in> set (deps ?s). fst e = tk_task_id t"
    proof (cases "t \<in> set (tasks s)")
      case True
      with t si(4) show ?thesis by (auto simp: gate_ok_def fields)
    next
      case False
      with t have "t = ?row" by (simp add: fields)
      with t show ?thesis by (cases "sp_dependencies n") (auto simp: fields row initial_status_def)
    qed
  qed
  have ev: "events_ok ?s" using si(5) by (simp add: events_ok_def task_sequences_def fields)
  have im: "idem_ok ?s"
    using si(6) key row
    by (auto simp: idem_ok_def insert_task_def find_None_iff split: option.splits)
  from ids wf dep gate ev im show ?thesis by (simp add: store_inv_def)
qed

lemma evolves_insert_task [simp]: "evolves s (insert_task n dg now s)"
  by (rule evolvesI [of _ "tasks s" "[new_row n dg now]"]) (simp_all add: insert_task_def list_all2_refl)

lemma created_events_ok:
  "store_inv s \<Longrightarrow> store_inv (created_events n now s) \<and> evolves s (created_events n now s)"
  unfolding created_events_def Let_def
  by (auto intro: store_inv_append_event evolves_trans evolves_append_event)

lemma create_task_cases:
  assumes "create_task digest s spec now = Inr (s', t, b)"
  obtains n k row where "validate_spec spec = Inr n" "sp_idempotency_key n = Some k"
      "find (\<lambda>r. id_key r = k) (idem s) = Some row" "id_digest row = spec_digest digest n"
      "get_task_locked s (id_task_id row) = Inr t" "s' = s" "\<not> b"
  | n where "validate_spec spec = Inr n"
      "\<And>k. sp_idempotency_key n = Some k \<Longrightarrow> find (\<lambda>r. id_key r = k) (idem s) = None"
      "\<forall>d \<in> set (sp_dependencies n). fetch_task s d \<noteq> None" "fetch_task s (sp_task_id n) = None"
      "s' = created_events n now (insert_task n (spec_digest digest n) now s)"
      "get_task_locked s' (sp_task_id n) = Inr t" "b"
proof -
  from assms obtain n where n: "validate_spec spec = Inr n"
    by (auto simp: create_task_def split: sum.splits)
  define ex where "ex = (case sp_idempotency_key n of None \<Rightarrow> None
    | Some k \<Rightarrow> find (\<lambda>r. id_key r = k) (idem s))"
  note body = assms [unfolded create_task_def n sum.case Let_def, folded ex_def]
  show thesis
  proof (cases ex)
    case (Some row)
    then obtain k where "sp_idempotency_key n = Some k" "find (\<lambda>r. id_key r = k) (idem s) = Some row"
      by (auto simp: ex_def split: option.splits)
    with body Some show ?thesis
      by (intro that(1) [OF n]) (auto split: if_splits sum.splits)
  next
    case None
    then have "find (\<lambda>r. id_key r = k) (idem s) = None" if "sp_idempotency_key n = Some k" for k
      using that by (simp add: ex_def)
    moreover from body None have found: "find (\<lambda>d. fetch_task s d = None) (sp_dependencies n) = None"
      "fetch_task s (sp_task_id n) = None" by (auto split: option.splits if_splits)
    moreover from found(1) have "\<forall>d \<in> set (sp_dependencies n). fetch_task s d \<noteq> None"
      by (simp add: find_None_iff)
    ultimately show ?thesis
      using body None by (intro that(2) [OF n]) (simp_all split: sum.splits)
  qed
qed

lemma create_task_ok:
  assumes inv: "store_inv s" and cr: "create_task digest s spec now = Inr (s', t, b)"
  shows "store_inv s' \<and> evolves s s'"
  using cr
proof (cases rule: create_task_cases)
  case 1
  with inv show ?thesis by simp
next
  case (2 n)
  then have "store_inv (insert_task n (spec_digest digest n) now s)"
    by (intro store_inv_insert_task [OF inv])
  from created_events_ok [OF this] 2(5) show ?thesis
    using evolves_trans [OF evolves_insert_task] by blast
qed

section \<open>Executions\<close>

inductive store_step :: "(task_spec \<Rightarrow> string) \<Rightarrow> store \<Rightarrow> store \<Rightarrow> bool" for digest where
  create: "create_task digest s spec now = Inr (s', t, b) \<Longrightarrow> store_step digest s s'"
| refresh: "refresh_dependencies s now = Inr (s', changed) \<Longrightarrow> store_step digest s s'"
| claim: "claim_next s w l now now' = (s', r) \<Longrightarrow> store_step digest s s'"
| start: "start_task s i w v now now' = Inr (s', t) \<Longrightarrow> store_step digest s s'"
| beat: "heartbeat s i w v l now now' = Inr (s', t) \<Longrightarrow> store_step digest s s'"
| mark: "mark_side_effect_state s i w v x now' now = Inr (s', t) \<Longrightarrow> store_step digest s s'"
| cancel: "request_cancel s i reason now = Inr (s', t) \<Longrightarrow> store_step digest s s'"
| complete: "check_result res0 = Inr res \<Longrightarrow> complete_task s i w v res now now' = Inr (s', t)
    \<Longrightarrow> store_step digest s s'"
| requeue: "requeue_task s i w v reason now now' = Inr (s', t) \<Longrightarrow> store_step digest s s'"
| recover: "recover_expired_leases s now = Inr (s', ts) \<Longrightarrow> store_step digest s s'"

inductive task_reachable :: "(task_spec \<Rightarrow> string) \<Rightarrow> store \<Rightarrow> bool" for digest where
  empty: "task_reachable digest empty_store"
| step: "task_reachable digest s \<Longrightarrow> store_step digest s s' \<Longrightarrow> task_reachable digest s'"

lemmas operation_ok = create_task_ok refresh_dependencies_ok claim_next_ok start_task_ok
  heartbeat_ok mark_side_effect_state_ok request_cancel_ok complete_task_ok requeue_task_ok
  recover_expired_leases_ok

lemma store_step_ok: "store_step digest s s' \<Longrightarrow> store_inv s \<Longrightarrow> store_inv s' \<and> evolves s s'"
  by (induction rule: store_step.induct)
    (erule (1) create_task_ok | erule (1) refresh_dependencies_ok | erule (1) claim_next_ok
      | erule (1) start_task_ok | erule (1) heartbeat_ok | erule (1) mark_side_effect_state_ok
      | erule (1) request_cancel_ok | erule (2) complete_task_ok | erule (1) requeue_task_ok
      | erule (1) recover_expired_leases_ok)+

lemma store_inv_empty: "store_inv empty_store"
  by (auto simp: store_inv_def empty_store_def ids_ok_def deps_ok_def gate_ok_def events_ok_def
      idem_ok_def task_sequences_def intro: exI [of _ 0])

lemma reachable_inv: "task_reachable digest s \<Longrightarrow> store_inv s"
  by (induction rule: task_reachable.induct) (auto simp: store_inv_empty dest: store_step_ok)

lemma steps_evolve:
  "(store_step digest)\<^sup>*\<^sup>* s s' \<Longrightarrow> store_inv s \<Longrightarrow> store_inv s' \<and> evolves s s'"
  by (induction rule: rtranclp_induct) (auto dest: store_step_ok intro: evolves_trans)

end
