(* ===== verification/Interfaces.thy ===== *)
theory Interfaces
  imports Prelude
begin

text \<open>
  The contracts several components share, as locales over a transition relation with an
  invariant. \<open>preserving\<close> lifts the invariant to executions, \<open>monotone_reading\<close> is a counter that
  never goes back (a row version, an acknowledged sequence, the last sequence of a topic), and
  \<open>append_only\<close> a log whose entries never change. Each store interprets them on its own steps.
\<close>

locale preserving =
  fixes inv :: "'s \<Rightarrow> bool" and step :: "'s \<Rightarrow> 's \<Rightarrow> bool"
  assumes inv_step: "inv s \<Longrightarrow> step s s' \<Longrightarrow> inv s'"
begin

lemma inv_steps: "step\<^sup>*\<^sup>* s s' \<Longrightarrow> inv s \<Longrightarrow> inv s'"
  by (induction rule: rtranclp_induct) (auto intro: inv_step)

text \<open>A reflexive and transitive relation that holds across one step holds across executions.\<close>

lemma lift_steps:
  assumes "step\<^sup>*\<^sup>* s s'" "inv s"
    and refl: "\<And>s. r s s" and trans: "\<And>s t u. r s t \<Longrightarrow> r t u \<Longrightarrow> r s u"
    and one: "\<And>s s'. inv s \<Longrightarrow> step s s' \<Longrightarrow> r s s'"
  shows "r s s'"
  using assms(1,2)
proof (induction rule: rtranclp_induct)
  case base
  show ?case by (rule refl)
next
  case (step t u)
  then have "inv t" by (auto intro: inv_steps)
  with step one show ?case by (blast intro: trans)
qed

end

locale monotone_reading = preserving inv step
  for inv :: "'s \<Rightarrow> bool" and step :: "'s \<Rightarrow> 's \<Rightarrow> bool" +
  fixes reading :: "'s \<Rightarrow> 'k \<Rightarrow> nat option"
  assumes reading_step:
    "inv s \<Longrightarrow> step s s' \<Longrightarrow> reading s k = Some v \<Longrightarrow> \<exists>v'. reading s' k = Some v' \<and> v \<le> v'"
begin

lemma reading_steps:
  "step\<^sup>*\<^sup>* s s' \<Longrightarrow> inv s \<Longrightarrow> reading s k = Some v \<Longrightarrow> \<exists>v'. reading s' k = Some v' \<and> v \<le> v'"
proof (induction rule: rtranclp_induct)
  case base
  then show ?case by blast
next
  case (step t u)
  then obtain v1 where "reading t k = Some v1" "v \<le> v1" by blast
  moreover have "inv t" using step by (auto intro: inv_steps)
  ultimately show ?case using reading_step [OF _ step(2)] by (metis le_trans)
qed

text \<open>A value that has been passed never comes back: the law behind fencing by version.\<close>

lemma never_returns:
  assumes "inv s" "reading s k = Some v" "old < v" "step\<^sup>*\<^sup>* s s'"
  shows "reading s' k \<noteq> Some old"
  using reading_steps [OF assms(4,1,2)] assms(3) by auto

end

locale append_only = preserving inv step
  for inv :: "'s \<Rightarrow> bool" and step :: "'s \<Rightarrow> 's \<Rightarrow> bool" +
  fixes log :: "'s \<Rightarrow> 'e list"
  assumes log_step: "inv s \<Longrightarrow> step s s' \<Longrightarrow> prefix (log s) (log s')"
begin

lemma log_steps: "step\<^sup>*\<^sup>* s s' \<Longrightarrow> inv s \<Longrightarrow> prefix (log s) (log s')"
  by (erule lift_steps) (auto intro: log_step prefix_order.trans)

lemma entry_stable:
  assumes "step\<^sup>*\<^sup>* s s'" "inv s" "i < length (log s)"
  shows "i < length (log s')" "log s' ! i = log s ! i"
proof -
  from log_steps [OF assms(1,2)] obtain zs where "log s' = log s @ zs" by (auto simp: prefix_def)
  with assms(3) show "i < length (log s')" "log s' ! i = log s ! i" by (auto simp: nth_append)
qed

end

text \<open>
  The pull interface of a message bus as one consumer sees it: a page is a prefix of the pending
  messages, and confirming a message removes it and everything before it.
\<close>

fun drain :: "('s \<Rightarrow> 'm list) \<Rightarrow> ('s \<Rightarrow> 'm \<Rightarrow> 's) \<Rightarrow> nat \<Rightarrow> 's \<Rightarrow> 'm list \<times> 's" where
  "drain fetch confirm 0 s = ([], s)"
| "drain fetch confirm (Suc fuel) s =
    (case fetch s of
       [] \<Rightarrow> ([], s)
     | page \<Rightarrow> (let (rest, s') = drain fetch confirm fuel (confirm s (last page))
                in (page @ rest, s')))"

locale pull_queue =
  fixes inv :: "'s \<Rightarrow> bool" and pending :: "'s \<Rightarrow> 'm list" and fetch :: "'s \<Rightarrow> 'm list"
    and confirm :: "'s \<Rightarrow> 'm \<Rightarrow> 's"
  assumes fetch_pending: "inv s \<Longrightarrow> \<exists>n > 0. fetch s = take n (pending s)"
    and confirm_inv: "inv s \<Longrightarrow> m \<in> set (pending s) \<Longrightarrow> inv (confirm s m)"
    and confirm_pending: "inv s \<Longrightarrow> pending s = xs @ m # ys \<Longrightarrow> pending (confirm s m) = ys"
begin

text \<open>A consumer that pulls pages and confirms their last message gets every message once, in order.\<close>

lemma drain_delivers:
  assumes "inv s" "length (pending s) < fuel"
  shows "fst (drain fetch confirm fuel s) = pending s \<and> inv (snd (drain fetch confirm fuel s)) \<and>
    pending (snd (drain fetch confirm fuel s)) = []"
  using assms
proof (induction fuel arbitrary: s)
  case 0
  then show ?case by simp
next
  case (Suc fuel)
  obtain n where n: "0 < n" "fetch s = take n (pending s)" using fetch_pending [OF Suc.prems(1)] by blast
  show ?case
  proof (cases "pending s")
    case Nil
    with Suc n show ?thesis by simp
  next
    case (Cons p ps)
    define page where "page = take n (pending s)"
    with Cons n have page: "page \<noteq> []" by simp
    have split: "pending s = butlast page @ last page # drop n (pending s)"
      using append_butlast_last_id [OF page] append_take_drop_id [of n "pending s"]
      by (metis append_Cons append_assoc append_Nil page_def)
    have mem: "last page \<in> set (pending s)" using page page_def by (metis in_set_takeD last_in_set)
    have pd: "pending (confirm s (last page)) = drop n (pending s)"
      by (rule confirm_pending [OF Suc.prems(1) split])
    have "length (drop n (pending s)) < fuel" using Suc.prems(2) n(1) Cons by simp
    with Suc.IH [OF confirm_inv [OF Suc.prems(1) mem]] pd
    have ih: "fst (drain fetch confirm fuel (confirm s (last page))) = drop n (pending s)"
      "inv (snd (drain fetch confirm fuel (confirm s (last page))))"
      "pending (snd (drain fetch confirm fuel (confirm s (last page)))) = []" by simp_all
    show ?thesis
      using ih page append_take_drop_id [of n "pending s"]
      by (cases page) (auto simp: n(2) page_def [symmetric] Let_def split: prod.splits)
  qed
qed

end

end
