(* ===== verification/Task_Store_Props.thy ===== *)
theory Task_Store_Props
  imports Task_Store_Steps Interfaces
begin

text \<open>
  What the durable task queue promises: the lifecycle, fencing of stale workers, the dependency
  gate, retries, recovery, idempotent creation and the event log.
\<close>

lemma evolves_fetch:
  assumes "store_inv s" "store_inv s'" "evolves s s'" "fetch_task s i = Some t"
  shows "\<exists>u. fetch_task s' i = Some u \<and> row_steps t u"
proof -
  from assms(1,4) have t: "t \<in> set (tasks s)" "tk_task_id t = i"
    using fetch_task_iff by (auto simp: store_inv_def)
  from evolves_task [OF assms(3) t(1)] obtain u where u: "u \<in> set (tasks s')" "row_steps t u" by blast
  moreover have "tk_task_id u = i" using row_steps_same_request [OF u(2)] t by (simp add: same_request_def)
  ultimately show ?thesis using assms(2) fetch_task_iff by (auto simp: store_inv_def)
qed

definition task_version :: "store \<Rightarrow> string \<Rightarrow> nat option" where
  "task_version s i = map_option tk_version (fetch_task s i)"

interpretation task_store: preserving store_inv "store_step digest" for digest
  by unfold_locales (blast dest: store_step_ok)

interpretation task_versions: monotone_reading store_inv "store_step digest" task_version for digest
proof unfold_locales
  fix s s' k v assume a: "store_inv s" "store_step digest s s'" "task_version s k = Some v"
  then obtain t where t: "fetch_task s k = Some t" "tk_version t = v" by (auto simp: task_version_def)
  with evolves_fetch [OF a(1) _ _ t(1)] store_step_ok [OF a(2,1)]
  obtain u where "fetch_task s' k = Some u" "row_steps t u" by blast
  with t show "\<exists>v'. task_version s' k = Some v' \<and> v \<le> v'"
    using row_steps_version [of t u] by (auto simp: task_version_def)
qed

interpretation task_events: append_only store_inv "store_step digest" events for digest
  by unfold_locales (auto dest: store_step_ok simp: evolves_def)

section \<open>A concrete execution, for the witnesses\<close>

definition demo_digest :: "task_spec \<Rightarrow> string" where
  "demo_digest spec = sp_task_id spec @ ''|'' @ sp_objective spec"

definition demo_spec :: "string \<Rightarrow> string list \<Rightarrow> task_spec" where
  "demo_spec i ds = \<lparr>sp_task_id = i, sp_objective = ''run'', sp_workspace = ''w'',
     sp_parent_run_id = None, sp_dependencies = ds, sp_max_steps = 20, sp_timeout_seconds = 600,
     sp_max_attempts = 2, sp_idempotency_key = Some (''k'' @ i), sp_metadata = []\<rparr>"

definition store_of :: "task_error + store \<times> 'a \<Rightarrow> store" where
  "store_of r = (case r of Inl _ \<Rightarrow> empty_store | Inr (s, _) \<Rightarrow> s)"

definition demo1 :: store where
  "demo1 = store_of (create_task demo_digest empty_store (demo_spec ''a'' []) 1)"

definition demo2 :: store where
  "demo2 = store_of (create_task demo_digest demo1 (demo_spec ''b'' [''a'']) 2)"

definition demo3 :: store where
  "demo3 = fst (claim_next demo2 ''w1'' 10 3 3)"

definition demo4 :: store where
  "demo4 = store_of (start_task demo3 ''a'' ''w1'' 1 4 4)"

lemma demo_values:
  "map (\<lambda>t. (tk_task_id t, tk_status t, tk_version t)) (tasks demo4) =
     [(''a'', RUNNING, 2), (''b'', WAITING_DEPENDENCY, 0)]"
  by code_simp

lemma store_of_Inr: "\<not> isl r \<Longrightarrow> \<exists>x. r = Inr (store_of r, x)"
  by (cases r) (auto simp: store_of_def)

lemma demo1_steps: "store_step demo_digest empty_store demo1"
proof -
  have "\<not> isl (create_task demo_digest empty_store (demo_spec ''a'' []) 1)" by code_simp
  from store_of_Inr [OF this] obtain t b where
    "create_task demo_digest empty_store (demo_spec ''a'' []) 1 = Inr (demo1, t, b)"
    by (auto simp: demo1_def)
  then show ?thesis by (rule store_step.create)
qed

lemma demo2_steps: "store_step demo_digest demo1 demo2"
proof -
  have "\<not> isl (create_task demo_digest demo1 (demo_spec ''b'' [''a'']) 2)" by code_simp
  from store_of_Inr [OF this] obtain t b where
    "create_task demo_digest demo1 (demo_spec ''b'' [''a'']) 2 = Inr (demo2, t, b)"
    by (auto simp: demo2_def)
  then show ?thesis by (rule store_step.create)
qed

lemma demo3_steps: "store_step demo_digest demo2 demo3"
  unfolding demo3_def
  by (rule store_step.claim [where w = "''w1''" and l = 10 and now = 3 and now' = 3]) (rule prod.collapse [symmetric])

lemma demo4_steps: "store_step demo_digest demo3 demo4"
proof -
  have "\<not> isl (start_task demo3 ''a'' ''w1'' 1 4 4)" by code_simp
  from store_of_Inr [OF this] obtain t where
    "start_task demo3 ''a'' ''w1'' 1 4 4 = Inr (demo4, t)" by (auto simp: demo4_def)
  then show ?thesis by (rule store_step.start)
qed

lemma demo_reachable:
  "task_reachable demo_digest demo1" "task_reachable demo_digest demo2"
  "task_reachable demo_digest demo3" "task_reachable demo_digest demo4"
proof -
  show r1: "task_reachable demo_digest demo1" by (rule task_reachable.step [OF task_reachable.empty demo1_steps])
  show r2: "task_reachable demo_digest demo2" by (rule task_reachable.step [OF r1 demo2_steps])
  show r3: "task_reachable demo_digest demo3" by (rule task_reachable.step [OF r2 demo3_steps])
  show "task_reachable demo_digest demo4" by (rule task_reachable.step [OF r3 demo4_steps])
qed

section \<open>Lifecycle and fencing\<close>

text \<open>
  C1. The rows of the queue follow the lifecycle. From a reachable store, whatever sequence of
  successful operations runs, a task keeps its identity and request, its status moves only along
  the transition table (and the recovery edge from CLAIMED to FAILED), its version and attempt
  never decrease, and a row in a terminal status is never changed again.
\<close>

theorem task_lifecycle:
  assumes "task_reachable digest s" "(store_step digest)\<^sup>*\<^sup>* s s'" "fetch_task s i = Some t"
  shows "\<exists>u. fetch_task s' i = Some u \<and> same_request t u \<and>
    lifecycle\<^sup>*\<^sup>* (tk_status t) (tk_status u) \<and> tk_version t \<le> tk_version u \<and>
    tk_attempt t \<le> tk_attempt u \<and> (is_terminal (tk_status t) \<longrightarrow> u = t)"
proof -
  have inv: "store_inv s" using assms(1) by (rule reachable_inv)
  from evolves_fetch [OF inv _ _ assms(3)] steps_evolve [OF assms(2) inv]
  obtain u where "fetch_task s' i = Some u" "row_steps t u" by blast
  then show ?thesis
    using row_steps_same_request row_steps_lifecycle row_steps_version row_steps_attempt
      row_steps_terminal by blast
qed

theorem task_lifecycle_witness:
  "\<exists>u. fetch_task demo4 ''a'' = Some u \<and> tk_status u = RUNNING \<and>
     lifecycle\<^sup>*\<^sup>* QUEUED (tk_status u)"
proof -
  have f: "fetch_task demo1 ''a'' \<noteq> None \<and> tk_status (the (fetch_task demo1 ''a'')) = QUEUED" by code_simp
  then obtain t where t: "fetch_task demo1 ''a'' = Some t" "tk_status t = QUEUED" by auto
  have "(store_step demo_digest)\<^sup>*\<^sup>* demo1 demo4"
    using demo2_steps demo3_steps demo4_steps by (auto intro: converse_rtranclp_into_rtranclp)
  from task_lifecycle [OF demo_reachable(1) this t(1)] obtain u where
    "fetch_task demo4 ''a'' = Some u" "lifecycle\<^sup>*\<^sup>* (tk_status t) (tk_status u)" by blast
  moreover have "tk_status (the (fetch_task demo4 ''a'')) = RUNNING" by code_simp
  ultimately show ?thesis using t(2) by auto
qed

text \<open>Every operation of a worker presents a task id, a worker and a version.\<close>

definition worker_writes :: "store \<Rightarrow> string \<Rightarrow> string \<Rightarrow> nat \<Rightarrow> store \<Rightarrow> bool" where
  "worker_writes s i w v s' \<longleftrightarrow>
     (\<exists>now now' t. start_task s i w v now now' = Inr (s', t)) \<or>
     (\<exists>l now now' t. heartbeat s i w v l now now' = Inr (s', t)) \<or>
     (\<exists>x now now' t. mark_side_effect_state s i w v x now now' = Inr (s', t)) \<or>
     (\<exists>res now now' t. complete_task s i w v res now now' = Inr (s', t)) \<or>
     (\<exists>r now now' t. requeue_task s i w v r now now' = Inr (s', t))"

lemma worker_writes_current:
  assumes "worker_writes s i w v s'"
  shows "\<exists>t \<in> set (tasks s). tk_task_id t = i \<and> tk_version t = v \<and> tk_lease_owner t = Some (strip w)"
proof -
  from assms obtain task u n where g: "get_task_locked s i = Inr task"
    and a: "assert_owner task w v n = Inr u"
    unfolding worker_writes_def
    by (elim disjE exE)
      (auto simp: start_task_def heartbeat_def mark_side_effect_state_def complete_task_def
        requeue_task_def Let_def split: sum.splits if_splits)
  from g obtain r where "r \<in> set (tasks s)" "tk_task_id r = i" "task = row_to_task s r"
    by (rule get_task_lockedE)
  with assert_ownerD [OF a] show ?thesis by auto
qed

text \<open>
  C2. Stale workers are fenced. Once the version of a task has passed the version a worker holds
  (its lease expired and was recovered, another worker claimed the task, the task was cancelled),
  no operation the worker attempts with that version, at any later time, changes anything.
\<close>

theorem stale_worker_fenced:
  assumes "task_reachable digest s" "fetch_task s i = Some t" "v < tk_version t"
    and "(store_step digest)\<^sup>*\<^sup>* s s1"
  shows "\<not> worker_writes s1 i w v s2"
proof
  assume w: "worker_writes s1 i w v s2"
  have inv: "store_inv s" using assms(1) by (rule reachable_inv)
  have "store_inv s1" using steps_evolve [OF assms(4) inv] by blast
  then have "ids_ok s1" by (simp add: store_inv_def)
  from worker_writes_current [OF w] obtain r where
    "r \<in> set (tasks s1)" "tk_task_id r = i" "tk_version r = v" by blast
  with fetch_task_iff [OF \<open>ids_ok s1\<close>] have "task_version s1 i = Some v"
    by (auto simp: task_version_def)
  moreover have "task_version s i = Some (tk_version t)" using assms(2) by (simp add: task_version_def)
  ultimately show False
    using task_versions.never_returns [OF inv _ assms(3) assms(4)] by blast
qed

theorem stale_worker_fenced_witness: "\<forall>s2. \<not> worker_writes demo4 ''a'' ''w1'' 1 s2"
proof -
  have "fetch_task demo4 ''a'' \<noteq> None \<and> 1 < tk_version (the (fetch_task demo4 ''a''))" by code_simp
  then obtain t where "fetch_task demo4 ''a'' = Some t" "1 < tk_version t" by auto
  from stale_worker_fenced [OF demo_reachable(4) this rtranclp.rtrancl_refl] show ?thesis by blast
qed

section \<open>Dependencies\<close>

text \<open>
  C3. The dependency gate. In every reachable store the dependency graph is acyclic, and a task
  that is queued, claimed, running, or has produced an outcome has only succeeded dependencies.
\<close>

lemma deps_ok_acyclic:
  assumes "deps_ok s" "ids_ok s"
  shows "acyclic (set (deps s))"
proof -
  let ?ids = "map tk_task_id (tasks s)"
  let ?pos = "\<lambda>x. LEAST k. k < length ?ids \<and> ?ids ! k = x"
  have pos: "?pos (?ids ! k) = k" if "k < length ?ids" for k
    by (rule Least_equality) (use that assms(2) in \<open>auto simp: ids_ok_def distinct_conv_nth\<close>,
      metis distinct_conv_nth length_map nth_map order.strict_trans nle_le not_less)
  have "(set (deps s))\<inverse> \<subseteq> measure ?pos"
  proof
    fix p assume "p \<in> (set (deps s))\<inverse>"
    then obtain a b where p: "p = (b, a)" "(a, b) \<in> set (deps s)" by auto
    with assms(1) have "earlier ?ids a b" by (auto simp: deps_ok_def)
    then obtain i j where ij: "j < length ?ids" "i < j" "?ids ! j = a" "?ids ! i = b"
      unfolding earlier_def by blast
    with pos [of j] pos [of i] have "?pos b < ?pos a" by simp
    with p show "p \<in> measure ?pos" by simp
  qed
  then have "wf ((set (deps s))\<inverse>)" by (rule wf_subset [OF wf_measure])
  then show ?thesis by (metis wf_acyclic acyclic_converse)
qed

theorem dependency_gate:
  assumes "task_reachable digest s"
  shows "acyclic (set (deps s)) \<and>
    (\<forall>t \<in> set (tasks s). \<forall>d. (tk_task_id t, d) \<in> set (deps s) \<longrightarrow>
       tk_status t \<in> {QUEUED, CLAIMED, RUNNING, SUCCEEDED, FAILED, TIMED_OUT, UNKNOWN_OUTCOME} \<longrightarrow>
       (\<exists>u. fetch_task s d = Some u \<and> tk_status u = SUCCEEDED))"
proof -
  note inv = store_invD [OF reachable_inv [OF assms]]
  have "\<exists>u. fetch_task s d = Some u \<and> tk_status u = SUCCEEDED"
    if "t \<in> set (tasks s)" "(tk_task_id t, d) \<in> set (deps s)" "entered (tk_status t)" for t d
  proof -
    from inv(4) that(1,3) have "deps_done s (tk_task_id t)" by (simp add: gate_ok_def)
    with that(2) have "succeeded s d" by (force simp: deps_done_def)
    then obtain u where "u \<in> set (tasks s)" "tk_task_id u = d" "tk_status u = SUCCEEDED"
      by (auto simp: succeeded_def)
    with fetch_task_iff [OF inv(1)] show ?thesis by blast
  qed
  with deps_ok_acyclic [OF inv(3,1)] show ?thesis unfolding entered_def by blast
qed

theorem dependency_gate_witness:
  "acyclic (set (deps demo4)) \<and> deps demo4 = [(''b'', ''a'')]"
proof -
  have "deps demo4 = [(''b'', ''a'')]" by code_simp
  with dependency_gate [OF demo_reachable(4)] show ?thesis by simp
qed

text \<open>A transition of a task in the expected status does not raise, and this is its effect.\<close>

lemma transition_locked_row:
  assumes "ids_ok s" "t \<in> set (tasks s)" "nxt \<in> set (allowed_transitions (tk_status t))"
  shows "\<exists>s'. transition_locked (tk_task_id t) (tk_status t) nxt reason now s = Inr s' \<and>
    deps s' = deps s \<and>
    tasks s' = update_where (\<lambda>q. tk_task_id q = tk_task_id t \<and> tk_status q = tk_status t)
      (transition_row nxt reason now) (tasks s)"
proof -
  have "row_count (\<lambda>q. tk_task_id q = tk_task_id t \<and> tk_status q = tk_status t) (tasks s) = 1"
    using row_count_key_1 [of tk_task_id "tasks s" t "tk_task_id t" "\<lambda>q. tk_status q = tk_status t"]
      assms by (simp add: ids_ok_def)
  with assms(3) show ?thesis
    by (simp add: transition_locked_def Let_def append_event_def update_tasks_def)
qed

lemma fetch_update_other:
  assumes "\<And>q. p q \<Longrightarrow> tk_task_id q = i" "\<And>q. tk_task_id (f q) = tk_task_id q" "j \<noteq> i"
  shows "find (\<lambda>t. tk_task_id t = j) (update_where p f ts) = find (\<lambda>t. tk_task_id t = j) ts"
  using assms by (subst find_update_where) (auto simp: option.map_ident_strong dest!: find_SomeD intro!: option.map_ident_strong)

lemma transition_fetch:
  assumes "ids_ok s" "fetch_task s i = Some t" "nxt \<in> set (allowed_transitions (tk_status t))"
    and "transition_locked i (tk_status t) nxt reason now s = Inr s'"
  shows "fetch_task s' i = Some (transition_row nxt reason now t)"
    "\<And>j. j \<noteq> i \<Longrightarrow> fetch_task s' j = fetch_task s j"
proof -
  have t: "t \<in> set (tasks s)" "tk_task_id t = i" using assms(1,2) fetch_task_iff by blast+
  from transition_locked_row [OF assms(1) t(1) assms(3), of reason now] t(2) assms(4)
  have ts: "tasks s' = update_where (\<lambda>q. tk_task_id q = i \<and> tk_status q = tk_status t)
      (transition_row nxt reason now) (tasks s)" by auto
  have f: "tk_task_id (transition_row nxt reason now q) = tk_task_id q" for q by (simp add: row_defs)
  show "fetch_task s' i = Some (transition_row nxt reason now t)"
    using assms(2) t unfolding fetch_task_def ts by (subst find_update_where) (auto simp: f)
  show "fetch_task s' j = fetch_task s j" if "j \<noteq> i" for j
    unfolding fetch_task_def ts by (rule fetch_update_other [OF _ f that]) simp
qed

section \<open>The refresh settles every decided task\<close>

definition decided :: "store \<Rightarrow> string \<Rightarrow> (task_status \<times> string) option" where
  "decided s i = dependency_verdict (dependency_statuses s i)"

lemma dependency_statuses_fetch:
  assumes "store_inv s"
  shows "dependency_statuses s i =
    map (\<lambda>d. tk_status (the (fetch_task s d))) (sort (map snd (filter (\<lambda>e. fst e = i) (deps s))))"
proof -
  have "map tk_status (filter (\<lambda>t. tk_task_id t = d) (tasks s)) = [tk_status (the (fetch_task s d))]"
    if "(i, d) \<in> set (deps s)" for d
  proof -
    have "earlier (map tk_task_id (tasks s)) i d"
      using assms that by (force simp: store_inv_def deps_ok_def)
    then have "d \<in> set (map tk_task_id (tasks s))" by (rule earlier_mem)
    then obtain u where u: "u \<in> set (tasks s)" "tk_task_id u = d" by auto
    with assms have f: "fetch_task s d = Some u" by (simp add: fetch_task_iff store_inv_def)
    have "length (filter (\<lambda>t. tk_task_id t = d \<and> True) (tasks s)) = 1"
      using row_count_key_1 [of tk_task_id "tasks s" u d "\<lambda>_. True"] assms u
      by (simp add: row_count_def store_inv_def ids_ok_def)
    then obtain x where x: "filter (\<lambda>t. tk_task_id t = d) (tasks s) = [x]"
      by (auto simp: length_Suc_conv)
    moreover have "u \<in> set (filter (\<lambda>t. tk_task_id t = d) (tasks s))" using u by simp
    ultimately have "x = u" by simp
    with x f show ?thesis by simp
  qed
  then have "map (\<lambda>d. map tk_status (filter (\<lambda>t. tk_task_id t = d) (tasks s)))
       (sort (map snd (filter (\<lambda>e. fst e = i) (deps s)))) =
      map (\<lambda>d. [tk_status (the (fetch_task s d))]) (sort (map snd (filter (\<lambda>e. fst e = i) (deps s))))"
    by (intro map_cong) auto
  moreover have "concat (map (\<lambda>d. [g d]) xs) = map g xs" for g :: "string \<Rightarrow> task_status" and xs
    by (induction xs) auto
  ultimately show ?thesis unfolding dependency_statuses_def by (simp only:)
qed

text \<open>A decision, once possible, stays: it depends on terminal rows only.\<close>

lemma decided_stable:
  assumes "store_inv s" "store_inv s'" "evolves s s'" "deps s' = deps s" "decided s i = Some v"
  shows "decided s' i = Some v"
proof -
  let ?ds = "sort (map snd (filter (\<lambda>e. fst e = i) (deps s)))"
  have keep: "tk_status (the (fetch_task s' d)) = tk_status (the (fetch_task s d))"
    if d: "d \<in> set ?ds" and fin: "is_terminal (tk_status (the (fetch_task s d)))" for d
  proof -
    from d have "(i, d) \<in> set (deps s)" by auto
    then have "earlier (map tk_task_id (tasks s)) i d"
      using assms(1) by (force simp: store_inv_def deps_ok_def)
    then have "d \<in> set (map tk_task_id (tasks s))" by (rule earlier_mem)
    then obtain t where t: "fetch_task s d = Some t"
      using fetch_task_None_iff [of s d] by (cases "fetch_task s d") auto
    from evolves_fetch [OF assms(1-3) t] obtain u where "fetch_task s' d = Some u" "row_steps t u" by blast
    with row_steps_terminal [of t u] t fin show ?thesis by simp
  qed
  note st = dependency_statuses_fetch [OF assms(1)] dependency_statuses_fetch [OF assms(2)]
  have succ: "is_terminal SUCCEEDED" by (simp add: terminal_statuses_def)
  have sts: "set (dependency_statuses s i) = (\<lambda>d. tk_status (the (fetch_task s d))) ` set ?ds"
    by (simp only: st set_map)
  have "(\<exists>d \<in> set ?ds. is_terminal (tk_status (the (fetch_task s d))) \<and>
        tk_status (the (fetch_task s d)) \<noteq> SUCCEEDED \<and> v = (BLOCKED, ''dependency_failed'')) \<or>
      (?ds \<noteq> [] \<and> (\<forall>d \<in> set ?ds. tk_status (the (fetch_task s d)) = SUCCEEDED) \<and>
        v = (QUEUED, ''dependencies_satisfied''))"
  proof (cases "\<exists>x \<in> set (dependency_statuses s i). is_terminal x \<and> x \<noteq> SUCCEEDED")
    case True
    with assms(5) have "v = (BLOCKED, ''dependency_failed'')"
      by (simp only: decided_def dependency_verdict_def if_True option.inject)
    with True show ?thesis unfolding sts by (simp only: bex_simps) blast
  next
    case False
    let ?ok = "dependency_statuses s i \<noteq> [] \<and> (\<forall>x \<in> set (dependency_statuses s i). x = SUCCEEDED)"
    from assms(5) False have "(if ?ok then Some (QUEUED, ''dependencies_satisfied'') else None) = Some v"
      by (simp only: decided_def dependency_verdict_def if_False)
    then have "?ok" "v = (QUEUED, ''dependencies_satisfied'')"
      by (rule if_SomeD [THEN conjunct1], rule if_SomeD [THEN conjunct2])
    then show ?thesis unfolding sts st by (auto simp del: set_sort)
  qed
  then consider
      d where "d \<in> set ?ds" "is_terminal (tk_status (the (fetch_task s d)))"
        "tk_status (the (fetch_task s d)) \<noteq> SUCCEEDED" "v = (BLOCKED, ''dependency_failed'')"
    | "?ds \<noteq> []" "\<forall>d \<in> set ?ds. tk_status (the (fetch_task s d)) = SUCCEEDED"
      "v = (QUEUED, ''dependencies_satisfied'')"
    by blast
  then show ?thesis
  proof cases
    case 1
    note k = keep [OF 1(1,2)]
    have "tk_status (the (fetch_task s' d)) \<in> set (dependency_statuses s' i)"
      using 1(1) unfolding st assms(4) set_map by (rule imageI)
    with 1 k have "\<exists>x \<in> set (dependency_statuses s' i). is_terminal x \<and> x \<noteq> SUCCEEDED"
      by metis
    with 1 show ?thesis by (simp add: decided_def dependency_verdict_def del: is_terminal.simps)
  next
    case 2
    have "tk_status (the (fetch_task s' d)) = SUCCEEDED" if "d \<in> set ?ds" for d
      using keep [OF that] 2(2) that succ by metis
    then have "\<forall>x \<in> set (dependency_statuses s' i). x = SUCCEEDED"
      unfolding st assms(4) set_map by blast
    moreover from 2 have "dependency_statuses s' i \<noteq> []" unfolding st assms(4) by simp
    ultimately show ?thesis using 2 by (auto simp: decided_def dependency_verdict_def)
  qed
qed

lemma decided_allowed:
  "decided s i = Some (nxt, reason) \<Longrightarrow> nxt \<in> set (allowed_transitions WAITING_DEPENDENCY)"
  by (auto simp: decided_def dependency_verdict_def split: if_splits)

lemma refresh_loop_settles:
  assumes "store_inv s" "distinct ids"
    "\<forall>i \<in> set ids. \<exists>t. fetch_task s i = Some t \<and> tk_status t = WAITING_DEPENDENCY"
  shows "\<exists>s' changed. refresh_loop now ids s = Inr (s', changed) \<and> deps s' = deps s \<and>
    (\<forall>j. j \<notin> set ids \<longrightarrow> fetch_task s' j = fetch_task s j) \<and>
    (\<forall>i \<in> set ids. \<forall>v. decided s i = Some v \<longrightarrow>
       i \<in> set changed \<and> (\<exists>u. fetch_task s' i = Some u \<and> tk_status u = fst v))"
  using assms
proof (induction now ids s rule: refresh_loop.induct)
  case (1 now s)
  then show ?case by simp
next
  case (2 now i rest s)
  from "2.prems"(3) obtain t where t: "fetch_task s i = Some t" "tk_status t = WAITING_DEPENDENCY" by auto
  show ?case
  proof (cases "decided s i")
    case None
    with "2.IH"(1) "2.prems" show ?thesis by (auto simp: decided_def)
  next
    case (Some nr)
    obtain nxt reason where nr: "nr = (nxt, reason)" by (cases nr)
    note dv = Some [unfolded decided_def nr]
    have ids: "ids_ok s" using "2.prems"(1) by (simp add: store_inv_def)
    have tin: "t \<in> set (tasks s)" "tk_task_id t = i" using t(1) fetch_task_iff [OF ids] by blast+
    have al: "nxt \<in> set (allowed_transitions (tk_status t))"
      using decided_allowed Some nr t(2) by simp
    from transition_locked_row [OF ids tin(1) al, of reason now] t(2) tin(2)
    obtain s1 where s1: "transition_locked i WAITING_DEPENDENCY nxt reason now s = Inr s1" "deps s1 = deps s"
      by auto
    note fs1 = transition_fetch [OF ids t(1) al s1(1) [folded t(2)]]
    have "nxt \<in> {CANCELLED, BLOCKED} \<or> nxt = QUEUED \<and> WAITING_DEPENDENCY = WAITING_DEPENDENCY \<and> deps_done s i"
      using dependency_verdict_Some [OF dv] dependency_statuses_succeeded [OF "2.prems"(1)] by blast
    from transition_ok [OF "2.prems"(1) s1(1) this]
    have inv1: "store_inv s1" and ev1: "evolves s s1" by auto
    have w: "\<forall>j \<in> set rest. \<exists>t. fetch_task s1 j = Some t \<and> tk_status t = WAITING_DEPENDENCY"
    proof
      fix j assume j: "j \<in> set rest"
      with "2.prems"(2) have "j \<noteq> i" by auto
      with j "2.prems"(3) fs1(2) [of j] show "\<exists>t. fetch_task s1 j = Some t \<and> tk_status t = WAITING_DEPENDENCY"
        by simp
    qed
    from "2.IH"(2) [OF dv refl s1(1) inv1 _ w] "2.prems"(2) obtain s' ch where
      r: "refresh_loop now rest s1 = Inr (s', ch)" "deps s' = deps s1"
        "\<forall>j. j \<notin> set rest \<longrightarrow> fetch_task s' j = fetch_task s1 j"
        "\<forall>j \<in> set rest. \<forall>v. decided s1 j = Some v \<longrightarrow>
           j \<in> set ch \<and> (\<exists>u. fetch_task s' j = Some u \<and> tk_status u = fst v)" by auto
    have "refresh_loop now (i # rest) s = Inr (s', i # ch)" using dv s1(1) r(1) by simp
    moreover have "tk_status (transition_row nxt reason now t) = nxt" by (simp add: row_defs)
    moreover have "decided s1 j = Some v" if "decided s j = Some v" for j v
      using decided_stable [OF "2.prems"(1) inv1 ev1 s1(2) that] .
    ultimately show ?thesis
      using r s1(2) fs1 Some nr "2.prems"(2) by (auto intro!: exI [of _ s'] exI [of _ "i # ch"])
  qed
qed

lemma waiting_ids_props:
  assumes "ids_ok s"
  shows "distinct (waiting_ids s)"
    "i \<in> set (waiting_ids s) \<longleftrightarrow> (\<exists>t. fetch_task s i = Some t \<and> tk_status t = WAITING_DEPENDENCY)"
proof -
  have "distinct (map tk_task_id (filter (\<lambda>t. tk_status t = WAITING_DEPENDENCY) (tasks s)))"
    using assms by (simp add: ids_ok_def distinct_map_filter)
  then show "distinct (waiting_ids s)" by (simp add: waiting_ids_def queue_order_def distinct_map)
  show "i \<in> set (waiting_ids s) \<longleftrightarrow> (\<exists>t. fetch_task s i = Some t \<and> tk_status t = WAITING_DEPENDENCY)"
    using fetch_task_iff [OF assms] by (auto simp: waiting_ids_def queue_order_def)
qed

lemma refresh_dependencies_total:
  assumes "task_reachable digest s"
  shows "\<exists>s' changed. refresh_dependencies s now = Inr (s', changed) \<and>
    (\<forall>t \<in> set (tasks s). tk_status t = WAITING_DEPENDENCY \<longrightarrow>
       ((\<forall>d. (tk_task_id t, d) \<in> set (deps s) \<longrightarrow> tk_status (the (fetch_task s d)) = SUCCEEDED)
          \<longrightarrow> (\<exists>u. fetch_task s' (tk_task_id t) = Some u \<and> tk_status u = QUEUED)) \<and>
       ((\<exists>d. (tk_task_id t, d) \<in> set (deps s) \<and> is_terminal (tk_status (the (fetch_task s d))) \<and>
             tk_status (the (fetch_task s d)) \<noteq> SUCCEEDED)
          \<longrightarrow> (\<exists>u. fetch_task s' (tk_task_id t) = Some u \<and> tk_status u = BLOCKED))) \<and>
    (\<forall>t \<in> set (tasks s). tk_status t \<noteq> WAITING_DEPENDENCY \<longrightarrow> fetch_task s' (tk_task_id t) = Some t)"
proof -
  have inv: "store_inv s" using assms by (rule reachable_inv)
  note si = store_invD [OF inv]
  from refresh_loop_settles [OF inv waiting_ids_props(1) [OF si(1)]] waiting_ids_props(2) [OF si(1)]
  obtain s' ch where r: "refresh_dependencies s now = Inr (s', ch)"
      "\<forall>j. j \<notin> set (waiting_ids s) \<longrightarrow> fetch_task s' j = fetch_task s j"
      "\<forall>i \<in> set (waiting_ids s). \<forall>v. decided s i = Some v \<longrightarrow>
         (\<exists>u. fetch_task s' i = Some u \<and> tk_status u = fst v)"
    unfolding refresh_dependencies_def by blast
  have f: "fetch_task s (tk_task_id t) = Some t" if "t \<in> set (tasks s)" for t
    using that fetch_task_iff [OF si(1)] by blast
  have w: "tk_task_id t \<in> set (waiting_ids s)" if "t \<in> set (tasks s)" "tk_status t = WAITING_DEPENDENCY" for t
    using that f waiting_ids_props(2) [OF si(1)] by blast
  have st: "set (dependency_statuses s i) = {tk_status (the (fetch_task s d)) | d. (i, d) \<in> set (deps s)}" for i
    unfolding dependency_statuses_fetch [OF inv] by force
  have q: "decided s (tk_task_id t) = Some (QUEUED, ''dependencies_satisfied'')"
    if "t \<in> set (tasks s)" "tk_status t = WAITING_DEPENDENCY"
      "\<forall>d. (tk_task_id t, d) \<in> set (deps s) \<longrightarrow> tk_status (the (fetch_task s d)) = SUCCEEDED" for t
  proof -
    from si(4) that obtain d where "(tk_task_id t, d) \<in> set (deps s)" by (force simp: gate_ok_def)
    then have "set (dependency_statuses s (tk_task_id t)) \<noteq> {}" unfolding st by blast
    then have "dependency_statuses s (tk_task_id t) \<noteq> []" by auto
    moreover have "\<forall>x \<in> set (dependency_statuses s (tk_task_id t)). x = SUCCEEDED"
      using that(3) unfolding st by blast
    ultimately show ?thesis by (auto simp: decided_def dependency_verdict_def)
  qed
  have b: "decided s (tk_task_id t) = Some (BLOCKED, ''dependency_failed'')"
    if "(tk_task_id t, d) \<in> set (deps s)" "is_terminal (tk_status (the (fetch_task s d)))"
      "tk_status (the (fetch_task s d)) \<noteq> SUCCEEDED" for t d
    using that unfolding decided_def dependency_verdict_def st by (auto simp del: is_terminal.simps)
  have "fetch_task s' (tk_task_id t) = Some t"
    if "t \<in> set (tasks s)" "tk_status t \<noteq> WAITING_DEPENDENCY" for t
    using r(2) f [OF that(1)] that(2) waiting_ids_props(2) [OF si(1), of "tk_task_id t"] by auto
  moreover have "\<exists>u. fetch_task s' (tk_task_id t) = Some u \<and> tk_status u = QUEUED"
    if "t \<in> set (tasks s)" "tk_status t = WAITING_DEPENDENCY"
      "\<forall>d. (tk_task_id t, d) \<in> set (deps s) \<longrightarrow> tk_status (the (fetch_task s d)) = SUCCEEDED" for t
    using r(3) w [OF that(1,2)] q [OF that] by force
  moreover have "\<exists>u. fetch_task s' (tk_task_id t) = Some u \<and> tk_status u = BLOCKED"
    if "t \<in> set (tasks s)" "tk_status t = WAITING_DEPENDENCY" "(tk_task_id t, d) \<in> set (deps s)"
      "is_terminal (tk_status (the (fetch_task s d)))"
      "tk_status (the (fetch_task s d)) \<noteq> SUCCEEDED" for t d
    using r(3) w [OF that(1,2)] b [OF that(3-5)] by force
  ultimately show ?thesis using r(1) by blast
qed

text \<open>
  The refresh never raises and never leaves a decided task behind. In a reachable store every
  waiting task whose dependencies have all succeeded is queued by one call, every waiting task
  with a failed, cancelled, timed out, blocked or unknown dependency is blocked, and no row of a
  task that was not waiting changes.
\<close>

theorem refresh_settles:
  assumes "task_reachable digest s"
  shows "\<exists>s' changed. refresh_dependencies s now = Inr (s', changed) \<and>
    (\<forall>t \<in> set (tasks s). tk_status t = WAITING_DEPENDENCY \<longrightarrow>
       ((\<forall>d. (tk_task_id t, d) \<in> set (deps s) \<longrightarrow> tk_status (the (fetch_task s d)) = SUCCEEDED)
          \<longrightarrow> (\<exists>u. fetch_task s' (tk_task_id t) = Some u \<and> tk_status u = QUEUED)) \<and>
       ((\<exists>d. (tk_task_id t, d) \<in> set (deps s) \<and> is_terminal (tk_status (the (fetch_task s d))) \<and>
             tk_status (the (fetch_task s d)) \<noteq> SUCCEEDED)
          \<longrightarrow> (\<exists>u. fetch_task s' (tk_task_id t) = Some u \<and> tk_status u = BLOCKED))) \<and>
    (\<forall>t \<in> set (tasks s). tk_status t \<noteq> WAITING_DEPENDENCY \<longrightarrow> fetch_task s' (tk_task_id t) = Some t)"
  using assms by (rule refresh_dependencies_total)

theorem refresh_settles_witness:
  "\<exists>s' ch. refresh_dependencies demo4 9 = Inr (s', ch) \<and>
     (\<exists>u. fetch_task s' ''a'' = Some u \<and> tk_status u = RUNNING)"
proof -
  have f: "fetch_task demo4 ''a'' \<noteq> None \<and> tk_status (the (fetch_task demo4 ''a'')) = RUNNING" by code_simp
  then obtain t where t: "fetch_task demo4 ''a'' = Some t" "tk_status t = RUNNING" by auto
  have "ids_ok demo4" using reachable_inv [OF demo_reachable(4)] by (simp add: store_inv_def)
  with t have "t \<in> set (tasks demo4)" "tk_task_id t = ''a''" using fetch_task_iff by blast+
  with refresh_settles [OF demo_reachable(4), of 9] t(2) show ?thesis by force
qed

section \<open>Claiming\<close>

lemma row_count_in_set:
  assumes "ids_ok s" "t \<in> set (tasks s)" "p t"
  shows "row_count (\<lambda>q. tk_task_id q = tk_task_id t \<and> p q) (tasks s) = 1"
  using row_count_key_1 [of tk_task_id "tasks s" t "tk_task_id t" p] assms by (simp add: ids_ok_def)

lemma claim_locked_head:
  assumes inv: "store_inv s" and c: "claimable s = row # rest"
  shows "\<exists>s' t. claim_locked s w l now = Inr (s', Some t) \<and>
    task_row.truncate t = claim_row w l now row \<and>
    fetch_task s' (tk_task_id row) = Some (claim_row w l now row) \<and>
    (\<forall>j. j \<noteq> tk_task_id row \<longrightarrow> fetch_task s' j = fetch_task s j)"
proof -
  note h = claimable_head [OF c] and ids = store_invD(1) [OF inv]
  have f: "fetch_task s (tk_task_id row) = Some row" using h(1) fetch_task_iff [OF ids] by blast
  let ?p = "\<lambda>t. tk_task_id t = tk_task_id row \<and> tk_status t = QUEUED \<and> tk_version t = tk_version row"
  have one: "row_count ?p (tasks s) = 1"
    using row_count_in_set [OF ids h(1), of "\<lambda>t. tk_status t = QUEUED \<and> tk_version t = tk_version row"] h(2)
    by simp
  have budget: "\<not> tk_max_attempts row \<le> int (tk_attempt row)"
    using queued_budget [OF inv h(1,2)] by simp
  define s' where "s' = append_event (tk_task_id row) ''task.claimed''
      (JObj [(''worker_id'', JStr w), (''attempt'', JInt (int (tk_attempt row) + 1))]) now
      (update_tasks ?p (claim_row w l now) s)"
  have ts: "tasks s' = update_where ?p (claim_row w l now) (tasks s)"
    by (simp add: s'_def append_event_def update_tasks_def)
  have id: "tk_task_id (claim_row w l now q) = tk_task_id q" for q by (simp add: row_defs)
  have f': "fetch_task s' (tk_task_id row) = Some (claim_row w l now row)"
    using f h(2) unfolding fetch_task_def ts by (subst find_update_where) (auto simp: id)
  moreover have "fetch_task s' j = fetch_task s j" if "j \<noteq> tk_task_id row" for j
    unfolding fetch_task_def ts by (rule fetch_update_other [OF _ id that]) simp
  moreover have "claim_locked s w l now = Inr (s', Some (row_to_task s' (claim_row w l now row)))"
    using c one budget f' unfolding claim_locked_def s'_def
    by (simp add: Let_def get_task_locked_def)
  ultimately show ?thesis by auto
qed

text \<open>
  A claim takes the oldest eligible task and nothing else. In a reachable store \<open>claim_next\<close>
  never raises for a valid worker; it returns no task exactly when no queued task without a cancel
  request is left after the refresh; otherwise it returns the one created first (ties broken by
  id), with the next attempt, which is within the budget, leased to the worker, and every other
  row is untouched.
\<close>

theorem claim_next_takes_oldest:
  assumes "task_reachable digest s" "text_identifier w ''worker_id'' = Inr worker" "0 < l"
  shows "\<exists>s1 changed s2 r. refresh_dependencies s now1 = Inr (s1, changed) \<and>
    claim_next s w l now1 now2 = (s2, Inr r) \<and>
    (r = None \<longleftrightarrow> (\<forall>t \<in> set (tasks s1). tk_status t = QUEUED \<longrightarrow> tk_cancel_requested t)) \<and>
    (\<forall>t. r = Some t \<longrightarrow> (\<exists>row \<in> set (tasks s1).
       tk_status row = QUEUED \<and> \<not> tk_cancel_requested row \<and>
       (\<forall>q \<in> set (tasks s1). tk_status q = QUEUED \<longrightarrow> \<not> tk_cancel_requested q \<longrightarrow>
          (tk_created_at row, tk_task_id row) \<le> (tk_created_at q, tk_task_id q)) \<and>
       task_row.truncate t = row\<lparr>tk_status := CLAIMED, tk_version := Suc (tk_version row),
         tk_attempt := Suc (tk_attempt row), tk_lease_owner := Some worker,
         tk_lease_expires_at := Some (now2 + l), tk_last_heartbeat_at := Some now2,
         tk_updated_at := now2\<rparr> \<and>
       int (Suc (tk_attempt row)) \<le> tk_max_attempts row \<and>
       fetch_task s2 (tk_task_id row) = Some (task_row.truncate t) \<and>
       (\<forall>j. j \<noteq> tk_task_id row \<longrightarrow> fetch_task s2 j = fetch_task s1 j)))"
proof -
  from refresh_dependencies_total [OF assms(1), of now1] obtain s1 ch where
    r: "refresh_dependencies s now1 = Inr (s1, ch)" by blast
  have inv: "store_inv s1" using refresh_dependencies_ok [OF reachable_inv [OF assms(1)] r] by blast
  have none: "claimable s1 = [] \<longleftrightarrow> (\<forall>t \<in> set (tasks s1). tk_status t = QUEUED \<longrightarrow> tk_cancel_requested t)"
  proof -
    have "claimable s1 = [] \<longleftrightarrow> set (claimable s1) = {}" by simp
    then show ?thesis by (auto simp: claimable_def queue_order_def)
  qed
  show ?thesis
  proof (cases "claimable s1")
    case Nil
    then have "claim_next s w l now1 now2 = (s1, Inr None)"
      using assms(2,3) r by (simp add: claim_next_def claim_locked_def)
    with r none Nil show ?thesis by auto
  next
    case (Cons row rest)
    note h = claimable_head [OF Cons]
    from claim_locked_head [OF inv Cons, of worker l now2] obtain s2 t where
      c: "claim_locked s1 worker l now2 = Inr (s2, Some t)"
        "task_row.truncate t = claim_row worker l now2 row"
        "fetch_task s2 (tk_task_id row) = Some (claim_row worker l now2 row)"
        "\<forall>j. j \<noteq> tk_task_id row \<longrightarrow> fetch_task s2 j = fetch_task s1 j" by blast
    have "claim_next s w l now1 now2 = (s2, Inr (Some t))"
      using assms(2,3) r c(1) by (simp add: claim_next_def)
    moreover have "int (Suc (tk_attempt row)) \<le> tk_max_attempts row"
      using queued_budget [OF inv h(1,2)] by simp
    ultimately show ?thesis
      using r none Cons h c(2-4) unfolding claim_row_def
      by (intro exI [of _ s1] exI [of _ ch] exI [of _ s2] exI [of _ "Some t"]) auto
  qed
qed

theorem claim_next_takes_oldest_witness:
  "\<exists>s2 t. claim_next demo2 ''w1'' 10 3 3 = (s2, Inr (Some t)) \<and> tk_task_id t = ''a''"
proof -
  have "text_identifier ''w1'' ''worker_id'' = Inr ''w1''" by code_simp
  from claim_next_takes_oldest [OF demo_reachable(2) this, of 10 3 3]
  obtain s2 r where c: "claim_next demo2 ''w1'' 10 3 3 = (s2, Inr r)" by auto
  have "(case claim_next demo2 ''w1'' 10 3 3 of (_, Inr (Some t)) \<Rightarrow> tk_task_id t = ''a'' | _ \<Rightarrow> False)"
    by code_simp
  with c show ?thesis by (auto split: option.splits)
qed

section \<open>Attempts and recovery\<close>

text \<open>
  The attempt budget. In every reachable store no task has used more attempts than its
  maximum and every queued task has one left; so the branch of \<open>claim_next\<close> for an exhausted
  budget is unreachable. It would not fail the task: the transition from QUEUED to FAILED it asks
  for is not in the table and raises.
\<close>

theorem attempt_budget:
  assumes "task_reachable digest s" "t \<in> set (tasks s)"
  shows "int (tk_attempt t) \<le> tk_max_attempts t \<and>
    (tk_status t = QUEUED \<longrightarrow> int (tk_attempt t) < tk_max_attempts t) \<and>
    (\<exists>m. transition_locked (tk_task_id t) QUEUED FAILED ''attempt_budget_exhausted'' now s
       = Inl (TaskTransitionError m))"
  using store_invD(2) [OF reachable_inv [OF assms(1)] assms(2)]
  by (auto simp: row_wf_def transition_locked_def)

theorem attempt_budget_witness:
  "\<exists>t \<in> set (tasks demo4). tk_attempt t = 1 \<and> int (tk_attempt t) \<le> tk_max_attempts t"
proof -
  have "tk_attempt (hd (tasks demo4)) = 1 \<and> tasks demo4 \<noteq> []" by code_simp
  with attempt_budget [OF demo_reachable(4), of "hd (tasks demo4)"] show ?thesis by auto
qed

definition recovered :: "timestamp \<Rightarrow> task_row \<Rightarrow> task_row" where
  "recovered now t = (if expired now t
     then recover_row (fst (recovery_verdict t)) (snd (recovery_verdict t)) now t else t)"

lemma recover_one_fetch:
  assumes "ids_ok s" "fetch_task s i = Some task"
  shows "fetch_task (recover_one now task s) i =
      Some (recover_row (fst (recovery_verdict task)) (snd (recovery_verdict task)) now task)"
    "\<And>j. j \<noteq> i \<Longrightarrow> fetch_task (recover_one now task s) j = fetch_task s j"
proof -
  have i: "tk_task_id task = i" using assms fetch_task_iff by blast
  let ?p = "\<lambda>t. tk_task_id t = i \<and> tk_version t = tk_version task"
  let ?f = "recover_row (fst (recovery_verdict task)) (snd (recovery_verdict task)) now"
  have ts: "tasks (recover_one now task s) = update_where ?p ?f (tasks s)"
    by (simp add: recover_one_def append_event_def update_tasks_def i split: prod.splits)
  have id: "tk_task_id (?f q) = tk_task_id q" for q by (simp add: row_defs)
  show "fetch_task (recover_one now task s) i = Some (?f task)"
    using assms(2) i unfolding fetch_task_def ts by (subst find_update_where) (auto simp: id)
  show "fetch_task (recover_one now task s) j = fetch_task s j" if "j \<noteq> i" for j
    unfolding fetch_task_def ts by (rule fetch_update_other [OF _ id that]) simp
qed

lemma recover_loop_fetch:
  assumes "store_inv s" "distinct (map tk_task_id rows)"
    "\<forall>t \<in> set rows. fetch_task s (tk_task_id t) = Some t \<and> expired now t"
  shows "\<exists>s' ts. recover_loop now rows s = Inr (s', ts) \<and>
    (\<forall>t \<in> set rows. fetch_task s' (tk_task_id t) = Some (recovered now t)) \<and>
    (\<forall>j. j \<notin> tk_task_id ` set rows \<longrightarrow> fetch_task s' j = fetch_task s j)"
  using assms
proof (induction now rows s rule: recover_loop.induct)
  case (1 now s)
  then show ?case by simp
next
  case (2 now task rest s)
  let ?s = "recover_one now task s"
  have ft: "fetch_task s (tk_task_id task) = Some task" "expired now task" using "2.prems"(3) by auto
  note ids = store_invD(1) [OF "2.prems"(1)]
  note one = recover_one_fetch [OF ids ft(1), where now = now]
  have inv: "store_inv ?s"
    using recover_one_ok [OF "2.prems"(1), of task now] ft fetch_task_iff [OF ids]
    by (auto simp: expired_def leased_def)
  have "\<forall>t \<in> set rest. fetch_task ?s (tk_task_id t) = Some t \<and> expired now t"
  proof
    fix t assume t: "t \<in> set rest"
    with "2.prems"(2) have "tk_task_id t \<noteq> tk_task_id task" by (auto simp: image_iff)
    with t one(2) "2.prems"(3) show "fetch_task ?s (tk_task_id t) = Some t \<and> expired now t" by simp
  qed
  moreover have g: "get_task_locked ?s (tk_task_id task) =
      Inr (row_to_task ?s (recover_row (fst (recovery_verdict task)) (snd (recovery_verdict task)) now task))"
    using one(1) by (simp add: get_task_locked_def)
  ultimately obtain s' ts where r: "recover_loop now rest ?s = Inr (s', ts)"
      "\<forall>t \<in> set rest. fetch_task s' (tk_task_id t) = Some (recovered now t)"
      "\<forall>j. j \<notin> tk_task_id ` set rest \<longrightarrow> fetch_task s' j = fetch_task ?s j"
    using "2.IH" [OF refl g inv] "2.prems"(2) by auto
  have "tk_task_id task \<notin> tk_task_id ` set rest" using "2.prems"(2) by simp
  with r(3) one(1) ft(2) have "fetch_task s' (tk_task_id task) = Some (recovered now task)"
    by (simp add: recovered_def)
  with r one(2) g show ?case by (auto simp: Let_def)
qed

text \<open>
  C4. Recovery of expired leases is total and exact. On a reachable store it never raises; every
  row whose lease has expired becomes queued again only if its recorded side effects are neither
  committed nor unknown and an attempt is left, UNKNOWN_OUTCOME if they are, FAILED otherwise;
  every other row, in particular one whose lease is still valid, is unchanged.
\<close>

theorem recovery_exact:
  assumes "task_reachable digest s"
  shows "\<exists>s' ts. recover_expired_leases s now = Inr (s', ts) \<and>
    (\<forall>t \<in> set (tasks s). \<exists>u. fetch_task s' (tk_task_id t) = Some u \<and>
       (if tk_status t \<in> {CLAIMED, RUNNING} \<and> the (tk_lease_expires_at t) \<le> now
        then tk_version u = Suc (tk_version t) \<and> tk_lease_owner u = None \<and>
          tk_status u = (if tk_side_effect_state t \<in> {''committed'', ''unknown''} then UNKNOWN_OUTCOME
             else if int (tk_attempt t) < tk_max_attempts t then QUEUED else FAILED)
        else u = t))"
proof -
  have inv: "store_inv s" using assms by (rule reachable_inv)
  note ids = store_invD(1) [OF inv]
  note er = expired_rows_props [OF ids, of now]
  have f: "fetch_task s (tk_task_id t) = Some t" if "t \<in> set (tasks s)" for t
    using that fetch_task_iff [OF ids] by blast
  have "\<forall>t \<in> set (expired_rows s now). fetch_task s (tk_task_id t) = Some t \<and> expired now t"
    using f er(1) by (auto simp: expired_rows_def)
  from recover_loop_fetch [OF inv er(3) this] obtain s' ts where
    r: "recover_expired_leases s now = Inr (s', ts)"
      "\<forall>t \<in> set (expired_rows s now). fetch_task s' (tk_task_id t) = Some (recovered now t)"
      "\<forall>j. j \<notin> tk_task_id ` set (expired_rows s now) \<longrightarrow> fetch_task s' j = fetch_task s j"
    unfolding recover_expired_leases_def by blast
  have mem: "t \<in> set (expired_rows s now) \<longleftrightarrow> expired now t" if "t \<in> set (tasks s)" for t
    using that by (simp add: expired_rows_def)
  have g: "fetch_task s' (tk_task_id t) = Some (recovered now t)" if t: "t \<in> set (tasks s)" for t
  proof (cases "expired now t")
    case True
    with r(2) mem [OF t] show ?thesis by blast
  next
    case False
    have "tk_task_id t \<notin> tk_task_id ` set (expired_rows s now)"
      using False mem t er(1) ids_okD [OF ids] by (auto simp: subset_iff)
    with r(3) f [OF t] False show ?thesis by (simp add: recovered_def)
  qed
  have e: "expired now t \<longleftrightarrow> tk_status t \<in> {CLAIMED, RUNNING} \<and> the (tk_lease_expires_at t) \<le> now"
    if "t \<in> set (tasks s)" for t
    using store_invD(2) [OF inv that] by (auto simp: expired_def row_wf_def leased_def split: option.splits)
  have "\<exists>u. fetch_task s' (tk_task_id t) = Some u \<and>
       (if tk_status t \<in> {CLAIMED, RUNNING} \<and> the (tk_lease_expires_at t) \<le> now
        then tk_version u = Suc (tk_version t) \<and> tk_lease_owner u = None \<and>
          tk_status u = (if tk_side_effect_state t \<in> {''committed'', ''unknown''} then UNKNOWN_OUTCOME
             else if int (tk_attempt t) < tk_max_attempts t then QUEUED else FAILED)
        else u = t)" if t: "t \<in> set (tasks s)" for t
    unfolding e [OF t, symmetric] using g [OF t]
    by (auto simp: recovered_def row_defs recovery_verdict_def)
  with r(1) show ?thesis by blast
qed

theorem recovery_exact_witness:
  "\<exists>s' ts u. recover_expired_leases demo4 100 = Inr (s', ts) \<and> fetch_task s' ''a'' = Some u \<and>
     tk_status u = QUEUED"
proof -
  have v: "tasks demo4 \<noteq> [] \<and> tk_task_id (hd (tasks demo4)) = ''a'' \<and> tk_status (hd (tasks demo4)) = RUNNING
      \<and> the (tk_lease_expires_at (hd (tasks demo4))) \<le> 100 \<and> tk_side_effect_state (hd (tasks demo4)) = ''none''
      \<and> int (tk_attempt (hd (tasks demo4))) < tk_max_attempts (hd (tasks demo4))" by code_simp
  from recovery_exact [OF demo_reachable(4), of 100] v show ?thesis
    by (auto dest!: bspec [of _ _ "hd (tasks demo4)"])
qed

section \<open>Idempotent creation\<close>

lemma created_idempotency_row:
  assumes "store_inv s" "create_task digest s spec now = Inr (s1, t, b)"
    and "validate_spec spec = Inr n" "sp_idempotency_key n = Some k"
  shows "\<exists>row \<in> set (idem s1). id_key row = k \<and> id_digest row = spec_digest digest n \<and>
    id_task_id row = tk_task_id t"
  using assms(2)
proof (cases rule: create_task_cases)
  case (1 n' k' row)
  with assms(3,4) have nk: "n' = n" "k' = k" by auto
  from 1 have "row \<in> set (idem s1)" "id_key row = k'" by (auto dest: find_SomeD)
  moreover from 1(5) have "tk_task_id t = id_task_id row" by (elim get_task_lockedE) simp
  ultimately show ?thesis using 1(4) nk by (intro bexI [of _ row]) auto
next
  case (2 n')
  with assms(3) have n': "n' = n" by simp
  have im: "idem (created_events n now x) = idem x" for x
    by (simp add: created_events_def append_event_def Let_def)
  from 2(6) have "tk_task_id t = sp_task_id n" unfolding n' by (elim get_task_lockedE) simp
  with 2(5) assms(4) n' im show ?thesis by (simp add: insert_task_def)
qed

text \<open>
  Creation is idempotent under its key, for ever. After a task was created with an idempotency
  key, and whatever operations ran since, creating it again returns the same task without changing
  the store, and a request under that key with another digest is refused.
\<close>

theorem create_task_idempotent:
  assumes "task_reachable digest s" "create_task digest s spec now = Inr (s1, t, b)"
    and "validate_spec spec = Inr n" "sp_idempotency_key n = Some k"
    and "(store_step digest)\<^sup>*\<^sup>* s1 s2"
  shows "(\<exists>t2. create_task digest s2 spec now2 = Inr (s2, t2, False) \<and> tk_task_id t2 = tk_task_id t) \<and>
    (\<forall>spec' n'. validate_spec spec' = Inr n' \<longrightarrow> sp_idempotency_key n' = Some k \<longrightarrow>
       spec_digest digest n' \<noteq> spec_digest digest n \<longrightarrow>
       (\<exists>m. create_task digest s2 spec' now2 = Inl (TaskConflictError m)))"
proof -
  have inv: "store_inv s" using assms(1) by (rule reachable_inv)
  have inv1: "store_inv s1" using create_task_ok [OF inv assms(2)] by blast
  from steps_evolve [OF assms(5) inv1] have inv2: "store_inv s2" and ev: "evolves s1 s2" by auto
  from created_idempotency_row [OF inv assms(2-4)] obtain row where
    row: "row \<in> set (idem s1)" "id_key row = k" "id_digest row = spec_digest digest n"
      "id_task_id row = tk_task_id t" by blast
  have mem: "row \<in> set (idem s2)"
    using row(1) ev by (auto simp: evolves_def prefix_def)
  have f: "find (\<lambda>r. id_key r = k) (idem s2) = Some row"
    using find_key_Some [OF _ mem, of id_key] inv2 row(2) by (simp add: store_inv_def idem_ok_def)
  from mem inv2 obtain q where "q \<in> set (tasks s2)" "tk_task_id q = id_task_id row"
    by (auto simp: store_inv_def idem_ok_def)
  then have "fetch_task s2 (id_task_id row) = Some q"
    using fetch_task_iff inv2 by (auto simp: store_inv_def)
  then have g: "get_task_locked s2 (id_task_id row) = Inr (row_to_task s2 q)" "tk_task_id q = tk_task_id t"
    using \<open>tk_task_id q = id_task_id row\<close> row(4) by (simp_all add: get_task_locked_def)
  have "create_task digest s2 spec now2 = Inr (s2, row_to_task s2 q, False)"
    using assms(3,4) f row(3) g(1) by (simp add: create_task_def Let_def)
  moreover have "\<exists>m. create_task digest s2 spec' now2 = Inl (TaskConflictError m)"
    if "validate_spec spec' = Inr n'" "sp_idempotency_key n' = Some k"
      "spec_digest digest n' \<noteq> spec_digest digest n" for spec' n'
    using that f row(3) by (auto simp: create_task_def Let_def)
  ultimately show ?thesis using g(2) by auto
qed

theorem create_task_idempotent_witness:
  "\<exists>t2. create_task demo_digest demo4 (demo_spec ''a'' []) 50 = Inr (demo4, t2, False)"
proof -
  have "\<not> isl (create_task demo_digest empty_store (demo_spec ''a'' []) 1)" by code_simp
  from store_of_Inr [OF this] obtain t b where
    c: "create_task demo_digest empty_store (demo_spec ''a'' []) 1 = Inr (demo1, t, b)"
    by (auto simp: demo1_def)
  have v: "validate_spec (demo_spec ''a'' []) = Inr (demo_spec ''a'' [])" by code_simp
  have k: "sp_idempotency_key (demo_spec ''a'' []) = Some ''ka''" by code_simp
  have "(store_step demo_digest)\<^sup>*\<^sup>* demo1 demo4"
    using demo2_steps demo3_steps demo4_steps by (auto intro: converse_rtranclp_into_rtranclp)
  from create_task_idempotent [OF task_reachable.empty c v k this, of 50] show ?thesis by blast
qed

section \<open>The event log\<close>

lemma filter_upt_greater: "filter (\<lambda>k. a < k) [Suc 0 ..< Suc n] = [Suc a ..< Suc n]"
proof (induction n)
  case 0
  show ?case by simp
next
  case (Suc n)
  then show ?case by (cases "a < Suc n") auto
qed

text \<open>
  Events are numbered without gaps and read in pages. In a reachable store the events of a
  task that \<open>list_events\<close> returns after a sequence are exactly the next ones, in order, up to the
  limit or the end of the log; and every entry of the log stays as it is in all later stores.
\<close>

theorem task_event_pages:
  assumes "task_reachable digest s" "list_events s i after limit = Inr es"
    and "(store_step digest)\<^sup>*\<^sup>* s s'"
  shows "(\<forall>e \<in> set es. ev_task_id e = i) \<and>
    map ev_sequence es = [Suc (nat after) ..< Suc (min (nat after + nat limit) (length (task_sequences s i)))] \<and>
    (\<forall>k < length (events s). events s' ! k = events s ! k)"
proof -
  have inv: "store_inv s" using assms(1) by (rule reachable_inv)
  let ?F = "filter (\<lambda>e. ev_task_id e = i \<and> after < int (ev_sequence e)) (events s)"
  from assms(2) have a: "0 \<le> after" and es: "es = take (nat limit) (sort_key ev_sequence ?F)"
    by (auto simp: list_events_def split: if_splits sum.splits)
  from inv obtain n where n: "task_sequences s i = [Suc 0 ..< Suc n]"
    by (auto simp: store_inv_def events_ok_def)
  have "map ev_sequence ?F = filter (\<lambda>k. nat after < k) (task_sequences s i)"
    using a by (auto simp: task_sequences_def filter_map o_def intro!: arg_cong [where f = "map ev_sequence"] filter_cong)
  also have "\<dots> = [Suc (nat after) ..< Suc n]" unfolding n by (rule filter_upt_greater)
  finally have m: "map ev_sequence ?F = [Suc (nat after) ..< Suc n]" .
  then have "sorted (map ev_sequence ?F)" by (simp only: sorted_upt)
  then have "sort_key ev_sequence ?F = ?F" by (rule sort_key_id_if_sorted)
  then have "map ev_sequence es = take (nat limit) [Suc (nat after) ..< Suc n]"
    unfolding es by (simp only: take_map [symmetric] m)
  also have "\<dots> = [Suc (nat after) ..< Suc (min (nat after + nat limit) n)]"
    by (cases "nat after + nat limit \<le> n") (simp_all add: take_upt min_def del: upt_Suc)
  finally have "map ev_sequence es = [Suc (nat after) ..< Suc (min (nat after + nat limit) n)]" .
  moreover have "length (task_sequences s i) = n" using n by simp
  moreover have "\<forall>e \<in> set es. ev_task_id e = i" unfolding es by (auto dest: in_set_takeD)
  ultimately show ?thesis using task_events.entry_stable [OF assms(3) inv] by auto
qed

theorem task_event_pages_witness:
  "\<exists>es. list_events demo4 ''a'' 1 2 = Inr es \<and> map ev_sequence es = [2, 3]"
proof -
  have v: "\<not> isl (list_events demo4 ''a'' 1 2) \<and> length (task_sequences demo4 ''a'') = 4" by code_simp
  then obtain es where es: "list_events demo4 ''a'' 1 2 = Inr es"
    by (cases "list_events demo4 ''a'' 1 2") simp_all
  have l: "length (task_sequences demo4 ''a'') = 4" using v by (rule conjunct2)
  have "map ev_sequence es = [Suc (nat 1) ..< Suc (min (nat 1 + nat 2) 4)]"
    by (rule task_event_pages [OF demo_reachable(4) es rtranclp.rtrancl_refl, THEN conjunct2,
          THEN conjunct1, unfolded l])
  also have "\<dots> = [2, 3]" by (simp add: numeral_eq_Suc)
  finally show ?thesis using es by (intro exI [of _ es] conjI)
qed

section \<open>Two behaviours the callers should know\<close>

definition demo5 :: store where
  "demo5 = store_of (request_cancel demo4 ''a'' ''stop'' 5)"

definition demo6 :: store where
  "demo6 = store_of (recover_expired_leases demo5 100)"

lemma demo6_reachable: "task_reachable demo_digest demo6"
proof -
  have "\<not> isl (request_cancel demo4 ''a'' ''stop'' 5)" by code_simp
  from store_of_Inr [OF this] obtain t where
    "request_cancel demo4 ''a'' ''stop'' 5 = Inr (demo5, t)" by (auto simp: demo5_def)
  then have s5: "task_reachable demo_digest demo5"
    using demo_reachable(4) by (blast intro: task_reachable.step store_step.cancel)
  have "\<not> isl (recover_expired_leases demo5 100)" by code_simp
  from store_of_Inr [OF this] obtain ts where
    "recover_expired_leases demo5 100 = Inr (demo6, ts)" by (auto simp: demo6_def)
  with s5 show ?thesis by (blast intro: task_reachable.step store_step.recover)
qed

text \<open>
  A cancel request outlives its worker but is never acted on by the queue. A queued task whose
  cancel flag is set (a running task that was asked to cancel, whose worker then died) is passed
  over by every claim, which leaves its row exactly as it is.
\<close>

theorem cancelled_queued_task_stays:
  assumes "task_reachable digest s" "t \<in> set (tasks s)" "tk_status t = QUEUED" "tk_cancel_requested t"
    and "claim_next s w l now1 now2 = (s', r)"
  shows "fetch_task s' (tk_task_id t) = Some t \<and>
    (\<forall>u. r = Inr (Some u) \<longrightarrow> tk_task_id u \<noteq> tk_task_id t)"
proof -
  have inv: "store_inv s" using assms(1) by (rule reachable_inv)
  note ids = store_invD(1) [OF inv]
  have f: "fetch_task s (tk_task_id t) = Some t" using assms(2) fetch_task_iff [OF ids] by blast
  from refresh_dependencies_total [OF assms(1), of now1] obtain s1 ch where
    r: "refresh_dependencies s now1 = Inr (s1, ch)" and f1: "fetch_task s1 (tk_task_id t) = Some t"
    using assms(2,3) by auto
  have inv1: "store_inv s1" using refresh_dependencies_ok [OF inv r] by blast
  note ids1 = store_invD(1) [OF inv1]
  have t1: "t \<in> set (tasks s1)" using f1 fetch_task_iff [OF ids1] by blast
  have "s' = s \<and> (\<exists>e. r = Inl e) \<or> (\<exists>w'. (case claim_locked s1 w' l now2 of
      Inl e \<Rightarrow> (s1, Inl e) | Inr (s2, r) \<Rightarrow> (s2, Inr r)) = (s', r))"
    using assms(5) r by (cases "text_identifier w ''worker_id''"; cases "l \<le> 0") (auto simp: claim_next_def)
  then consider (raise) "s' = s" "\<exists>e. r = Inl e"
    | (claim) w' where "(case claim_locked s1 w' l now2 of
        Inl e \<Rightarrow> (s1, Inl e) | Inr (s2, r) \<Rightarrow> (s2, Inr r)) = (s', r)"
    by blast
  then show ?thesis
  proof cases
    case raise
    with f show ?thesis by auto
  next
    case (claim w')
    show ?thesis
    proof (cases "claimable s1")
      case Nil
      with claim f1 show ?thesis by (auto simp: claim_locked_def)
    next
      case (Cons row rest)
      have "row \<noteq> t" using claimable_head(3) [OF Cons] assms(4) by blast
      then have ne: "tk_task_id t \<noteq> tk_task_id row"
        using ids_okD [OF ids1 t1 claimable_head(1) [OF Cons]] by blast
      from claim_locked_head [OF inv1 Cons, of w' l now2] obtain s2 u where
        c: "claim_locked s1 w' l now2 = Inr (s2, Some u)"
          "task_row.truncate u = claim_row w' l now2 row"
          "\<forall>j. j \<noteq> tk_task_id row \<longrightarrow> fetch_task s2 j = fetch_task s1 j" by blast
      have "tk_task_id u = tk_task_id (task_row.truncate u)" by (simp add: task_row.defs)
      also have "\<dots> = tk_task_id row" unfolding c(2) by (simp add: row_defs)
      finally show ?thesis using claim c(1,3) ne f1 by auto
    qed
  qed
qed

theorem cancelled_queued_task_stays_witness:
  "\<exists>t. fetch_task demo6 ''a'' = Some t \<and> tk_status t = QUEUED \<and>
     fetch_task (fst (claim_next demo6 ''w2'' 10 101 101)) ''a'' = Some t"
proof -
  have v: "tasks demo6 \<noteq> [] \<and> tk_task_id (hd (tasks demo6)) = ''a'' \<and> tk_status (hd (tasks demo6)) = QUEUED
    \<and> tk_cancel_requested (hd (tasks demo6))" by code_simp
  let ?t = "hd (tasks demo6)"
  have t: "?t \<in> set (tasks demo6)" using v by simp
  from cancelled_queued_task_stays [OF demo6_reachable t _ _ prod.collapse [symmetric], of "''w2''" 10 101 101] v
  have "fetch_task (fst (claim_next demo6 ''w2'' 10 101 101)) ''a'' = Some ?t" by simp
  moreover have "fetch_task demo6 ''a'' = Some ?t"
    using t v fetch_task_iff [of demo6 "''a''" ?t] reachable_inv [OF demo6_reachable] by (auto simp: store_inv_def)
  ultimately show ?thesis using v by blast
qed

text \<open>
  The ownership check and the update read the worker differently. The check strips the worker
  id, the \<open>UPDATE\<close> compares it as passed; so a heartbeat from the owner with surrounding white
  space passes the check, reports success, and extends nothing.
\<close>

theorem padded_heartbeat_no_effect:
  assumes "task_reachable digest s" "strip w \<noteq> w" "heartbeat s i w v l now now' = Inr (s', t)"
  shows "s' = s"
proof -
  have ids: "ids_ok s" using reachable_inv [OF assms(1)] by (simp add: store_inv_def)
  from assms(3) obtain task u where g: "get_task_locked s i = Inr task"
    and a: "assert_owner task w v now' = Inr u"
    and s': "s' = update_tasks (owned_row (tk_task_id task) w v) (heartbeat_row l now) s"
    by (auto simp: heartbeat_def Let_def split: sum.splits if_splits)
  from g obtain r where r: "r \<in> set (tasks s)" "tk_task_id r = i" "task = row_to_task s r"
    by (rule get_task_lockedE)
  have "\<not> owned_row (tk_task_id task) w v q" if "q \<in> set (tasks s)" for q
  proof
    assume o: "owned_row (tk_task_id task) w v q"
    with that r ids_okD [OF ids] have "q = r" by (auto simp: owned_row_def)
    with o assert_ownerD(2) [OF a] r(3) assms(2) show False by (simp add: owned_row_def)
  qed
  then show ?thesis unfolding s' update_tasks_def by (simp add: update_where_none)
qed

theorem padded_heartbeat_no_effect_witness:
  "\<exists>t. heartbeat demo4 ''a'' '' w1 '' 2 60 5 5 = Inr (demo4, t)"
proof -
  have "\<not> isl (heartbeat demo4 ''a'' '' w1 '' 2 60 5 5)" by code_simp
  from store_of_Inr [OF this] obtain t where
    h: "heartbeat demo4 ''a'' '' w1 '' 2 60 5 5 =
      Inr (store_of (heartbeat demo4 ''a'' '' w1 '' 2 60 5 5), t)" by blast
  have "strip '' w1 '' \<noteq> '' w1 ''" by code_simp
  from padded_heartbeat_no_effect [OF demo_reachable(4) this h] h show ?thesis by metis
qed

end
