(* ===== verification/Py_Value.thy ===== *)
theory Py_Value
  imports Prelude
begin

text \<open>
  Python values as the code tells them apart, shared by the components that take arbitrary
  mappings: \<open>PDict\<close> is any mapping (its items in order), \<open>PNonFinite\<close> a float that JSON has no form
  for, \<open>POther\<close> an object JSON cannot serialise (with the name of its type).
\<close>

datatype nonfinite = NaN | PosInf | NegInf

datatype pval =
    PNone
  | PBool bool
  | PInt int
  | PFloat rat
  | PNonFinite nonfinite
  | PStr string
  | PList "pval list"
  | PTuple "pval list"
  | PDict "(pval \<times> pval) list"
  | POther string

fun pstr :: "pval \<Rightarrow> string" where
  "pstr (PStr s) = s"
| "pstr _ = ''?''"

text \<open>\<open>str.lower\<close> on code points up to 255.\<close>

definition lower_char :: "char \<Rightarrow> char" where
  "lower_char c = (let n = (of_char c :: nat) in
     if (65 \<le> n \<and> n \<le> 90) \<or> (192 \<le> n \<and> n \<le> 222 \<and> n \<noteq> 215) then char_of (n + 32) else c)"

text \<open>The character tests on the bits of a code point, for evaluation.\<close>

lemma py_space_code [code]:
  "py_space (Char b0 b1 b2 b3 b4 b5 b6 b7) \<longleftrightarrow>
     (if b7 then \<not> b6 \<and> \<not> b4 \<and> \<not> b3 \<and> \<not> b1 \<and> (if b5 then \<not> b2 \<and> \<not> b0 else b2 \<and> b0)
      else \<not> b6 \<and> (if b5 then \<not> b4 \<and> \<not> b3 \<and> \<not> b2 \<and> \<not> b1 \<and> \<not> b0
        else b3 \<and> (if b4 then b2 else if b2 then \<not> b1 else b1 \<or> b0)))"
  by (cases b7; cases b6; cases b5; cases b4; cases b3; cases b2; cases b1; cases b0)
    (simp_all add: py_space_def Let_def)

lemma lower_char_code [code]:
  "lower_char (Char b0 b1 b2 b3 b4 b5 b6 b7) = Char b0 b1 b2 b3 b4
     (b5 \<or> (b6 \<and> (if b7 then \<not> (b4 \<and> b2 \<and> b1 \<and> b0)
        else if b4 then \<not> b3 \<or> (\<not> b2 \<and> \<not> (b1 \<and> b0)) else b3 \<or> b2 \<or> b1 \<or> b0))) b6 b7"
  by (cases b7; cases b6; cases b5; cases b4; cases b3; cases b2; cases b1; cases b0)
    (simp_all add: lower_char_def Let_def char_of_def bit_Suc_0_iff)

text \<open>\<open>str.replace\<close> of one character by another, and \<open>needle in text\<close>.\<close>

definition replace_char :: "char \<Rightarrow> char \<Rightarrow> string \<Rightarrow> string" where
  "replace_char a b s = map (\<lambda>c. if c = a then b else c) s"

fun contains :: "string \<Rightarrow> string \<Rightarrow> bool" where
  "contains needle [] = (needle = [])"
| "contains needle (c # cs) = (prefix needle (c # cs) \<or> contains needle cs)"

text \<open>\<open>str(value)\<close>, where \<open>str_of\<close> stands for \<open>str\<close> on values that are not strings.\<close>

definition py_str :: "(pval \<Rightarrow> string) \<Rightarrow> pval \<Rightarrow> string" where
  "py_str str_of v = (case v of PStr s \<Rightarrow> s | _ \<Rightarrow> str_of v)"

text \<open>\<open>bool(value)\<close>.\<close>

definition truthy :: "pval \<Rightarrow> bool" where
  "truthy v = (case v of PNone \<Rightarrow> False | PBool b \<Rightarrow> b | PInt i \<Rightarrow> i \<noteq> 0 | PFloat q \<Rightarrow> q \<noteq> 0
     | PStr s \<Rightarrow> s \<noteq> [] | PList vs \<Rightarrow> vs \<noteq> [] | PTuple vs \<Rightarrow> vs \<noteq> [] | PDict kvs \<Rightarrow> kvs \<noteq> [] | _ \<Rightarrow> True)"

text \<open>\<open>mapping.get(key)\<close>.\<close>

definition dict_get :: "(pval \<times> pval) list \<Rightarrow> string \<Rightarrow> pval" where
  "dict_get kvs k = (case map_of kvs (PStr k) of None \<Rightarrow> PNone | Some v \<Rightarrow> v)"

text \<open>\<open>d[key] = value\<close>: an existing key keeps its place.\<close>

fun dict_set :: "'k \<Rightarrow> 'v \<Rightarrow> ('k \<times> 'v) list \<Rightarrow> ('k \<times> 'v) list" where
  "dict_set k v [] = [(k, v)]"
| "dict_set k v ((k', v') # kvs) = (if k' = k then (k, v) # kvs else (k', v') # dict_set k v kvs)"

lemma map_of_dict_set [simp]: "map_of (dict_set k v kvs) = (map_of kvs)(k \<mapsto> v)"
  by (induction k v kvs rule: dict_set.induct) auto

lemma keys_dict_set: "map fst (dict_set k v kvs) = (if k \<in> fst ` set kvs then map fst kvs else map fst kvs @ [k])"
  by (induction k v kvs rule: dict_set.induct) auto

lemma distinct_dict_set: "distinct (map fst kvs) \<Longrightarrow> distinct (map fst (dict_set k v kvs))"
  by (auto simp: keys_dict_set)

lemma dict_set_new: "k \<notin> fst ` set kvs \<Longrightarrow> dict_set k v kvs = kvs @ [(k, v)]"
  by (induction k v kvs rule: dict_set.induct) auto

lemma set_dict_set: "x \<in> set (dict_set k v kvs) \<Longrightarrow> x = (k, v) \<or> x \<in> set kvs"
  by (induction k v kvs rule: dict_set.induct) (auto split: if_splits)

text \<open>A concrete encoder, for the examples that instantiate the JSON encoder.\<close>

fun demo_encode :: "pval \<Rightarrow> string" where
  "demo_encode (PDict kvs) = ''{'' @ concat (map (\<lambda>kv. demo_encode (fst kv) @ '':'' @ demo_encode (snd kv) @ '','') kvs) @ ''}''"
| "demo_encode (PList vs) = ''['' @ concat (map (\<lambda>v. demo_encode v @ '','') vs) @ '']''"
| "demo_encode (PStr s) = s"
| "demo_encode _ = ''-''"

text \<open>\<open>str\<close> of an integer.\<close>

fun nat_text :: "nat \<Rightarrow> string" where
  "nat_text n = (if n < 10 then [''0123456789'' ! n] else nat_text (n div 10) @ [''0123456789'' ! (n mod 10)])"

declare nat_text.simps [simp del]

definition int_text :: "int \<Rightarrow> string" where
  "int_text n = (if n < 0 then CHR ''-'' # nat_text (nat (- n)) else nat_text (nat n))"

end
