(* ===== verification/Message_Contracts.thy ===== *)
theory Message_Contracts
  imports Py_Value
begin

text \<open>
  \<open>message_bus/contracts.py\<close>: validated identifiers and topics, message drafts and envelopes, and
  the JSON values they carry.
\<close>

datatype bus_error =
    BusValueError string
  | MessageBusConflictError string
  | MessageBusCapacityError string
  | MessageBusAckError string
  | BusIntegrityError

section \<open>Identifiers\<close>

definition ident_char :: "char \<Rightarrow> bool" where
  "ident_char c = (let n = (of_char c :: nat) in
     (65 \<le> n \<and> n \<le> 90) \<or> (97 \<le> n \<and> n \<le> 122) \<or> (48 \<le> n \<and> n \<le> 57) \<or> c \<in> set ''_.:-'')"

lemma ident_char_code [code]:
  "ident_char (Char b0 b1 b2 b3 b4 b5 b6 b7) \<longleftrightarrow> \<not> b7 \<and>
     (if b6 then (if b4 then \<not> b3 \<or> (\<not> b2 \<and> \<not> (b1 \<and> b0)) \<or> (\<not> b5 \<and> b2 \<and> b1 \<and> b0) else b3 \<or> b2 \<or> b1 \<or> b0)
      else b5 \<and> (if b4 then \<not> b3 \<or> (\<not> b2 \<and> \<not> (b1 \<and> b0)) else b3 \<and> b2 \<and> (b1 \<noteq> b0)))"
  by (cases b7; cases b6; cases b5; cases b4; cases b3; cases b2; cases b1; cases b0)
    (simp_all add: ident_char_def Let_def)

definition ident_ok :: "string \<Rightarrow> bool" where
  "ident_ok v = (1 \<le> length v \<and> length v \<le> 200 \<and> list_all ident_char v)"

definition topic_ok :: "string \<Rightarrow> bool" where
  "topic_ok v = (1 \<le> length v \<and> length v \<le> 200 \<and> list_all (\<lambda>c. ident_char c \<or> c = CHR ''/'') v)"

definition bus_identifier :: "string \<Rightarrow> string \<Rightarrow> bus_error + string" where
  "bus_identifier value name =
     (if ident_ok value then Inr value
      else Inl (BusValueError (name @ '' must match ^[A-Za-z0-9_.:-]{1,200}$'')))"

definition bus_topic :: "string \<Rightarrow> bus_error + string" where
  "bus_topic value =
     (if topic_ok value then Inr value
      else Inl (BusValueError ''topic must match ^[A-Za-z0-9_.:/-]{1,200}$''))"

section \<open>JSON values\<close>

text \<open>\<open>thaw_json\<close>: mappings and tuples are converted, a list is returned as it is.\<close>

fun thaw_json :: "pval \<Rightarrow> pval" where
  "thaw_json (PDict kvs) = PDict (map (\<lambda>kv. (PStr (pstr (fst kv)), thaw_json (snd kv))) kvs)"
| "thaw_json (PTuple vs) = PList (map thaw_json vs)"
| "thaw_json v = v"

text \<open>
  \<open>json.loads(json.dumps(value, allow_nan=False))\<close> on a value whose keys are strings: \<open>None\<close> where
  \<open>dumps\<close> raises; tuples come back as lists.
\<close>

fun json_roundtrip :: "pval \<Rightarrow> pval option" where
  "json_roundtrip (PDict kvs) =
     (case those (map (\<lambda>kv. map_option (Pair (fst kv)) (json_roundtrip (snd kv))) kvs) of
        None \<Rightarrow> None | Some xs \<Rightarrow> Some (PDict xs))"
| "json_roundtrip (PList vs) = map_option PList (those (map json_roundtrip vs))"
| "json_roundtrip (PTuple vs) = map_option PList (those (map json_roundtrip vs))"
| "json_roundtrip (PNonFinite x) = None"
| "json_roundtrip (POther t) = None"
| "json_roundtrip v = Some v"

text \<open>\<open>_validate_string_keys\<close>: some mapping has a key that is not a string (the path in the message is not kept).\<close>

fun bad_keys :: "pval \<Rightarrow> bool" where
  "bad_keys (PDict kvs) = (\<exists>kv \<in> set kvs. (case fst kv of PStr _ \<Rightarrow> False | _ \<Rightarrow> True) \<or> bad_keys (snd kv))"
| "bad_keys (PList vs) = (\<exists>v \<in> set vs. bad_keys v)"
| "bad_keys (PTuple vs) = (\<exists>v \<in> set vs. bad_keys v)"
| "bad_keys v = False"

definition normalize_json_object :: "pval \<Rightarrow> string \<Rightarrow> bus_error + pval" where
  "normalize_json_object value name =
    (case value of
       PDict kvs \<Rightarrow>
         if bad_keys value then Inl (BusValueError (name @ '' keys must be strings''))
         else (case json_roundtrip (thaw_json value) of
             None \<Rightarrow> Inl (BusValueError (name @ '' must be JSON-serializable''))
           | Some decoded \<Rightarrow> Inr decoded)
     | _ \<Rightarrow> Inl (BusValueError (name @ '' must be a mapping'')))"

fun freeze_json :: "pval \<Rightarrow> bus_error + pval" where
  "freeze_json (PDict kvs) =
     (if \<exists>kv \<in> set kvs. isl (freeze_json (snd kv)) then Inl (BusValueError ''unsupported normalized JSON value'')
      else Inr (PDict (map (\<lambda>kv. (PStr (pstr (fst kv)), projr (freeze_json (snd kv)))) kvs)))"
| "freeze_json (PList vs) =
     (if \<exists>v \<in> set vs. isl (freeze_json v) then Inl (BusValueError ''unsupported normalized JSON value'')
      else Inr (PTuple (map (\<lambda>v. projr (freeze_json v)) vs)))"
| "freeze_json (PTuple vs) =
     (if \<exists>v \<in> set vs. isl (freeze_json v) then Inl (BusValueError ''unsupported normalized JSON value'')
      else Inr (PTuple (map (\<lambda>v. projr (freeze_json v)) vs)))"
| "freeze_json (POther t) = Inl (BusValueError ''unsupported normalized JSON value'')"
| "freeze_json v = Inr v"

section \<open>Credential-shaped fields\<close>

definition sensitive_field_names :: "string list" where
  "sensitive_field_names = [''api_key'', ''apikey'', ''token'', ''access_token'', ''refresh_token'',
     ''password'', ''secret'', ''authorization'', ''cookie'', ''client_secret'', ''private_key'']"

definition field_name :: "string \<Rightarrow> string" where
  "field_name key = map (\<lambda>c. if c = CHR ''-'' then CHR ''_'' else c) (map lower_char (strip key))"

definition sensitive_key :: "pval \<Rightarrow> bool" where
  "sensitive_key k = (field_name (pstr k) \<in> set sensitive_field_names)"

fun has_sensitive_field :: "pval \<Rightarrow> bool" where
  "has_sensitive_field (PDict kvs) =
     (\<exists>kv \<in> set kvs. sensitive_key (fst kv) \<or> has_sensitive_field (snd kv))"
| "has_sensitive_field (PList vs) = (\<exists>v \<in> set vs. has_sensitive_field v)"
| "has_sensitive_field (PTuple vs) = (\<exists>v \<in> set vs. has_sensitive_field v)"
| "has_sensitive_field v = False"

definition reject_sensitive_fields :: "pval \<Rightarrow> bus_error + unit" where
  "reject_sensitive_fields v =
     (if has_sensitive_field v
      then Inl (BusValueError ''message contains credential-shaped field'') else Inr ())"

section \<open>Drafts and envelopes\<close>

record draft =
  dr_topic :: string
  dr_sender_id :: string
  dr_idempotency_key :: string
  dr_payload :: pval
  dr_recipient_id :: "string option"
  dr_headers :: pval

record envelope =
  en_message_id :: string
  en_topic :: string
  en_sequence :: nat
  en_sender_id :: string
  en_idempotency_key :: string
  en_payload :: pval
  en_created_at :: timestamp
  en_recipient_id :: "string option"
  en_headers :: pval

definition optional_ok :: "string option \<Rightarrow> bool" where
  "optional_ok v = (case v of None \<Rightarrow> True | Some x \<Rightarrow> ident_ok x)"

text \<open>The treatment of payload and headers both constructors share.\<close>

definition sealed_json :: "pval \<Rightarrow> pval \<Rightarrow> bus_error + pval \<times> pval" where
  "sealed_json payload headers =
    (case normalize_json_object payload ''payload'' of Inl e \<Rightarrow> Inl e | Inr p \<Rightarrow>
     case normalize_json_object headers ''headers'' of Inl e \<Rightarrow> Inl e | Inr h \<Rightarrow>
     case reject_sensitive_fields p of Inl e \<Rightarrow> Inl e | Inr _ \<Rightarrow>
     case reject_sensitive_fields h of Inl e \<Rightarrow> Inl e | Inr _ \<Rightarrow>
     case freeze_json p of Inl e \<Rightarrow> Inl e | Inr fp \<Rightarrow>
     case freeze_json h of Inl e \<Rightarrow> Inl e | Inr fh \<Rightarrow> Inr (fp, fh))"

text \<open>\<open>MessageDraft(...)\<close> and \<open>MessageEnvelope(...)\<close> with their \<open>__post_init__\<close>.\<close>

definition make_draft :: "draft \<Rightarrow> bus_error + draft" where
  "make_draft d =
    (case bus_topic (dr_topic d) of Inl e \<Rightarrow> Inl e | Inr _ \<Rightarrow>
     case bus_identifier (dr_sender_id d) ''sender_id'' of Inl e \<Rightarrow> Inl e | Inr _ \<Rightarrow>
     case bus_identifier (dr_idempotency_key d) ''idempotency_key'' of Inl e \<Rightarrow> Inl e | Inr _ \<Rightarrow>
     if \<not> optional_ok (dr_recipient_id d) then Inl (BusValueError ''recipient_id must match'')
     else case sealed_json (dr_payload d) (dr_headers d) of
       Inl e \<Rightarrow> Inl e | Inr (p, h) \<Rightarrow> Inr (d\<lparr>dr_payload := p, dr_headers := h\<rparr>))"

definition make_envelope :: "envelope \<Rightarrow> bus_error + envelope" where
  "make_envelope m =
    (case bus_identifier (en_message_id m) ''message_id'' of Inl e \<Rightarrow> Inl e | Inr _ \<Rightarrow>
     case bus_topic (en_topic m) of Inl e \<Rightarrow> Inl e | Inr _ \<Rightarrow>
     if en_sequence m < 1 then Inl (BusValueError ''sequence must be a positive integer'')
     else case bus_identifier (en_sender_id m) ''sender_id'' of Inl e \<Rightarrow> Inl e | Inr _ \<Rightarrow>
     case bus_identifier (en_idempotency_key m) ''idempotency_key'' of Inl e \<Rightarrow> Inl e | Inr _ \<Rightarrow>
     if \<not> optional_ok (en_recipient_id m) then Inl (BusValueError ''recipient_id must match'')
     else case sealed_json (en_payload m) (en_headers m) of
       Inl e \<Rightarrow> Inl e | Inr (p, h) \<Rightarrow> Inr (m\<lparr>en_payload := p, en_headers := h\<rparr>))"

text \<open>\<open>MessageDraft.canonical_dict\<close>, the value that is digested.\<close>

definition optional_pval :: "string option \<Rightarrow> pval" where
  "optional_pval v = (case v of None \<Rightarrow> PNone | Some x \<Rightarrow> PStr x)"

definition canonical_dict :: "draft \<Rightarrow> pval" where
  "canonical_dict d = PDict
     [(PStr ''topic'', PStr (dr_topic d)), (PStr ''sender_id'', PStr (dr_sender_id d)),
      (PStr ''recipient_id'', optional_pval (dr_recipient_id d)),
      (PStr ''idempotency_key'', PStr (dr_idempotency_key d)),
      (PStr ''payload'', thaw_json (dr_payload d)), (PStr ''headers'', thaw_json (dr_headers d))]"

section \<open>Freezing and thawing\<close>

text \<open>JSON in normal form: string keys, lists only, nothing JSON cannot hold.\<close>

fun json_normal :: "pval \<Rightarrow> bool" where
  "json_normal (PDict kvs) = (\<forall>kv \<in> set kvs. (\<exists>k. fst kv = PStr k) \<and> json_normal (snd kv))"
| "json_normal (PList vs) = (\<forall>v \<in> set vs. json_normal v)"
| "json_normal (PTuple vs) = False"
| "json_normal (PNonFinite x) = False"
| "json_normal (POther t) = False"
| "json_normal v = True"

lemma those_mem: "those (map f xs) = Some ys \<Longrightarrow> y \<in> set ys \<Longrightarrow> \<exists>x \<in> set xs. f x = Some y"
  by (induction xs arbitrary: ys) (auto split: option.splits)

lemma those_all: "(\<And>x. x \<in> set xs \<Longrightarrow> f x = Some (g x)) \<Longrightarrow> those (map f xs) = Some (map g xs)"
  by (induction xs) auto

lemma bad_keys_thaw: "\<not> bad_keys v \<Longrightarrow> \<not> bad_keys (thaw_json v)"
proof (induction v rule: thaw_json.induct)
  case (1 kvs)
  have "\<not> bad_keys (thaw_json (snd kv))" if "kv \<in> set kvs" for kv
    using "1.IH" [OF that] "1.prems" that by simp
  then show ?case by simp
qed auto

lemma json_roundtrip_normal:
  "\<not> bad_keys v \<Longrightarrow> json_roundtrip v = Some w \<Longrightarrow> json_normal w"
proof (induction v arbitrary: w rule: json_roundtrip.induct)
  case (1 kvs)
  from "1.prems"(2) obtain xs where w: "w = PDict xs" and
    xs: "those (map (\<lambda>kv. map_option (Pair (fst kv)) (json_roundtrip (snd kv))) kvs) = Some xs"
    by (auto split: option.splits)
  have "(\<exists>k. fst x = PStr k) \<and> json_normal (snd x)" if "x \<in> set xs" for x
  proof -
    from those_mem [OF xs that] obtain kv u where kv: "kv \<in> set kvs"
      "json_roundtrip (snd kv) = Some u" "x = (fst kv, u)" by auto
    from "1.prems"(1) kv(1) have "\<exists>k. fst kv = PStr k" "\<not> bad_keys (snd kv)"
      by (auto split: pval.splits) (metis pval.exhaust)
    with "1.IH" [OF kv(1) _ kv(2)] kv(3) show ?thesis by simp
  qed
  then show ?case unfolding w by simp
next
  case (2 vs)
  then obtain xs where xs: "w = PList xs" "those (map json_roundtrip vs) = Some xs" by auto
  have "json_normal x" if "x \<in> set xs" for x
    using those_mem [OF xs(2) that] 2 by auto
  then show ?case unfolding xs(1) by simp
next
  case (3 vs)
  then obtain xs where xs: "w = PList xs" "those (map json_roundtrip vs) = Some xs" by auto
  have "json_normal x" if "x \<in> set xs" for x
    using those_mem [OF xs(2) that] 3 by auto
  then show ?case unfolding xs(1) by simp
qed auto

lemma json_normal_roundtrip: "json_normal v \<Longrightarrow> json_roundtrip v = Some v"
proof (induction v rule: json_roundtrip.induct)
  case (1 kvs)
  have "those (map (\<lambda>kv. map_option (Pair (fst kv)) (json_roundtrip (snd kv))) kvs) = Some (map (\<lambda>kv. kv) kvs)"
    by (rule those_all) (use 1 in auto)
  then show ?case by simp
next
  case (2 vs)
  have "those (map json_roundtrip vs) = Some (map (\<lambda>v. v) vs)" by (rule those_all) (use 2 in auto)
  then show ?case by simp
qed auto

lemma json_normal_not_bad: "json_normal v \<Longrightarrow> \<not> bad_keys v"
  by (induction v rule: bad_keys.induct) force+

text \<open>Thawing a frozen value gives the normal form back.\<close>

lemma freeze_thaw: "json_normal v \<Longrightarrow> \<exists>w. freeze_json v = Inr w \<and> thaw_json w = v \<and> \<not> bad_keys w \<and>
    has_sensitive_field w = has_sensitive_field v"
proof (induction v rule: json_normal.induct)
  case (1 kvs)
  let ?f = "\<lambda>kv. (PStr (pstr (fst kv)), projr (freeze_json (snd kv)))"
  have e: "\<not> isl (freeze_json (snd kv)) \<and> thaw_json (snd (?f kv)) = snd kv \<and> fst (?f kv) = fst kv \<and>
      \<not> bad_keys (snd (?f kv)) \<and> has_sensitive_field (snd (?f kv)) = has_sensitive_field (snd kv)"
    if "kv \<in> set kvs" for kv
    using "1.IH" [OF that] "1.prems" that by force
  then have m: "map (\<lambda>kv. (PStr (pstr (fst kv)), thaw_json (snd kv))) (map ?f kvs) = kvs"
    unfolding map_map by (intro map_idI) (auto simp: prod_eq_iff)
  have "freeze_json (PDict kvs) = Inr (PDict (map ?f kvs))"
  proof -
    have "\<not> (\<exists>kv \<in> set kvs. isl (freeze_json (snd kv)))" using e by blast
    then show ?thesis by (simp only: freeze_json.simps if_False)
  qed
  moreover have "thaw_json (PDict (map ?f kvs)) = PDict kvs" using m by (simp only: thaw_json.simps)
  moreover have "\<not> bad_keys (PDict (map ?f kvs))"
  proof -
    have "\<not> bad_keys (projr (freeze_json (snd kv)))" if "kv \<in> set kvs" for kv
      using e [OF that] by simp
    then show ?thesis by simp
  qed
  moreover have "has_sensitive_field (PDict (map ?f kvs)) = has_sensitive_field (PDict kvs)"
  proof -
    have "(sensitive_key (fst (?f kv)) \<or> has_sensitive_field (snd (?f kv))) =
        (sensitive_key (fst kv) \<or> has_sensitive_field (snd kv))" if "kv \<in> set kvs" for kv
      using e [OF that] by (simp only:)
    then show ?thesis by (auto simp del: fst_conv snd_conv)
  qed
  ultimately show ?case by blast
next
  case (2 vs)
  have e: "\<not> isl (freeze_json v) \<and> thaw_json (projr (freeze_json v)) = v \<and> \<not> bad_keys (projr (freeze_json v)) \<and>
      has_sensitive_field (projr (freeze_json v)) = has_sensitive_field v"
    if "v \<in> set vs" for v using "2.IH" [OF that] "2.prems" that by force
  then have "map thaw_json (map (\<lambda>v. projr (freeze_json v)) vs) = vs"
    unfolding map_map by (intro map_idI) auto
  with e show ?case by auto
qed auto

end
