(* ===== verification/Message_Bus.thy ===== *)
theory Message_Bus
  imports Message_Contracts
begin

text \<open>
  \<open>message_bus/store.py\<close>: the durable pull bus \<open>SQLiteMessageBusStore\<close>, and its facade
  \<open>message_bus/service.py\<close>. The state is the four tables. \<open>encode\<close> stands for the canonical JSON
  bytes (\<open>json.dumps(sort_keys, ...).encode\<close>) and \<open>sha\<close> for SHA-256; \<open>mid\<close> is the fresh
  \<open>msg-<uuid>\<close> a publication draws. Columns holding JSON are kept decoded, a mapping as the list of its
  items (the order in which \<open>sort_keys\<close> stores them is not kept).
\<close>

record bus_config =
  max_messages_per_topic :: nat
  max_payload_bytes :: nat
  max_headers_bytes :: nat
  max_draft_bytes :: nat

record topic_row =
  tp_topic :: string
  tp_last_sequence :: nat
  tp_updated_at :: timestamp

record message_row =
  ms_message_id :: string
  ms_topic :: string
  ms_sequence :: nat
  ms_sender_id :: string
  ms_recipient_id :: "string option"
  ms_idempotency_key :: string
  ms_request_digest :: string
  ms_payload :: pval
  ms_headers :: pval
  ms_created_at :: timestamp

record cursor_row =
  cu_consumer_id :: string
  cu_topic :: string
  cu_ack_sequence :: nat
  cu_updated_at :: "timestamp option"

record bus_event =
  be_event_id :: nat
  be_event_type :: string
  be_topic :: string
  be_sequence :: "nat option"
  be_message_id :: "string option"
  be_consumer_id :: "string option"
  be_metadata :: pval
  be_created_at :: timestamp

record bus =
  bus_topics :: "topic_row list"
  bus_messages :: "message_row list"
  bus_cursors :: "cursor_row list"
  bus_events :: "bus_event list"

definition empty_bus :: bus where
  "empty_bus = \<lparr>bus_topics = [], bus_messages = [], bus_cursors = [], bus_events = []\<rparr>"

text \<open>The checks of the constructor.\<close>

definition make_config :: "nat \<Rightarrow> nat \<Rightarrow> nat \<Rightarrow> nat \<Rightarrow> nat \<Rightarrow> bus_error + bus_config" where
  "make_config messages payload headers draft busy =
    (if messages < 1 then Inl (BusValueError ''max_messages_per_topic must be a positive integer'')
     else if payload < 1 then Inl (BusValueError ''max_payload_bytes must be a positive integer'')
     else if headers < 1 then Inl (BusValueError ''max_headers_bytes must be a positive integer'')
     else if draft < 1 then Inl (BusValueError ''max_draft_bytes must be a positive integer'')
     else if busy < 1 then Inl (BusValueError ''busy_timeout_ms must be a positive integer'')
     else if draft < payload
     then Inl (BusValueError ''max_draft_bytes must not be below max_payload_bytes'')
     else Inr \<lparr>max_messages_per_topic = messages, max_payload_bytes = payload,
               max_headers_bytes = headers, max_draft_bytes = draft\<rparr>)"

text \<open>\<open>_bounded_id\<close> and \<open>_bounded_topic\<close>, the checks on the reading side.\<close>

definition bounded_id :: "string \<Rightarrow> string \<Rightarrow> bus_error + string" where
  "bounded_id value name =
    (if value = [] \<or> 200 < length value
     then Inl (BusValueError (name @ '' must be a bounded non-empty string''))
     else if \<exists>c \<in> set value. \<not> ident_char c
     then Inl (BusValueError (name @ '' contains unsupported characters''))
     else Inr value)"

definition bounded_topic :: "string \<Rightarrow> bus_error + string" where
  "bounded_topic value =
    (if value = [] \<or> 200 < length value
     then Inl (BusValueError ''topic must be a bounded non-empty string'')
     else if \<exists>c \<in> set value. \<not> (ident_char c \<or> c = CHR ''/'')
     then Inl (BusValueError ''topic contains unsupported characters'')
     else Inr value)"

lemma bounded_id_Inr [simp]: "bounded_id v name = Inr w \<longleftrightarrow> ident_ok v \<and> w = v"
  by (cases v) (auto simp: bounded_id_def ident_ok_def list_all_iff)

lemma bounded_topic_Inr [simp]: "bounded_topic v = Inr w \<longleftrightarrow> topic_ok v \<and> w = v"
  by (cases v) (auto simp: bounded_topic_def topic_ok_def list_all_iff)

lemma bounded_ok [simp]: "ident_ok v \<Longrightarrow> bounded_id v name = Inr v" "topic_ok v \<Longrightarrow> bounded_topic v = Inr v"
  by simp_all

section \<open>Rows\<close>

definition message_from_row :: "message_row \<Rightarrow> bus_error + envelope" where
  "message_from_row r = make_envelope
     \<lparr>en_message_id = ms_message_id r, en_topic = ms_topic r, en_sequence = ms_sequence r,
      en_sender_id = ms_sender_id r, en_idempotency_key = ms_idempotency_key r,
      en_payload = ms_payload r, en_created_at = ms_created_at r,
      en_recipient_id = ms_recipient_id r, en_headers = ms_headers r\<rparr>"

fun messages_from_rows :: "message_row list \<Rightarrow> bus_error + envelope list" where
  "messages_from_rows [] = Inr []"
| "messages_from_rows (r # rs) = (case message_from_row r of Inl e \<Rightarrow> Inl e | Inr m \<Rightarrow>
     (case messages_from_rows rs of Inl e \<Rightarrow> Inl e | Inr ms \<Rightarrow> Inr (m # ms)))"

definition bus_append_event ::
  "string \<Rightarrow> string \<Rightarrow> nat option \<Rightarrow> string option \<Rightarrow> string option \<Rightarrow> pval \<Rightarrow> timestamp
     \<Rightarrow> bus \<Rightarrow> bus" where
  "bus_append_event event_type topic sequence message_id consumer_id metadata now s =
     s\<lparr>bus_events := bus_events s @
       [\<lparr>be_event_id = next_number (map be_event_id (bus_events s)), be_event_type = event_type,
         be_topic = topic, be_sequence = sequence, be_message_id = message_id,
         be_consumer_id = consumer_id, be_metadata = metadata, be_created_at = now\<rparr>]\<rparr>"

definition cursor_locked :: "bus \<Rightarrow> string \<Rightarrow> string \<Rightarrow> cursor_row" where
  "cursor_locked s consumer_id topic =
    (case find (\<lambda>c. cu_consumer_id c = consumer_id \<and> cu_topic c = topic) (bus_cursors s) of
       None \<Rightarrow> \<lparr>cu_consumer_id = consumer_id, cu_topic = topic, cu_ack_sequence = 0,
                cu_updated_at = None\<rparr>
     | Some c \<Rightarrow> c)"

definition topic_state :: "bus \<Rightarrow> string \<Rightarrow> topic_row option" where
  "topic_state s topic = find (\<lambda>t. tp_topic t = topic) (bus_topics s)"

definition topic_count :: "bus \<Rightarrow> string \<Rightarrow> nat" where
  "topic_count s topic = row_count (\<lambda>m. ms_topic m = topic) (bus_messages s)"

definition latest_sequence :: "bus \<Rightarrow> string \<Rightarrow> bus_error + nat" where
  "latest_sequence s topic = (case bounded_topic topic of Inl e \<Rightarrow> Inl e | Inr _ \<Rightarrow>
     Inr (case topic_state s topic of None \<Rightarrow> 0 | Some t \<Rightarrow> tp_last_sequence t))"

definition count_topic :: "bus \<Rightarrow> string \<Rightarrow> bus_error + nat" where
  "count_topic s topic =
     (case bounded_topic topic of Inl e \<Rightarrow> Inl e | Inr _ \<Rightarrow> Inr (topic_count s topic))"

section \<open>Publishing\<close>

definition validate_draft_size ::
  "bus_config \<Rightarrow> (pval \<Rightarrow> string) \<Rightarrow> draft \<Rightarrow> string \<Rightarrow> bus_error + unit" where
  "validate_draft_size cfg encode d encoded =
    (if length (encode (thaw_json (dr_payload d))) > max_payload_bytes cfg
     then Inl (MessageBusCapacityError ''message payload exceeds bytes'')
     else if length (encode (thaw_json (dr_headers d))) > max_headers_bytes cfg
     then Inl (MessageBusCapacityError ''message headers exceed bytes'')
     else if length encoded > max_draft_bytes cfg
     then Inl (MessageBusCapacityError ''message draft exceeds bytes'')
     else Inr ())"

text \<open>\<open>INSERT ... ON CONFLICT(topic) DO UPDATE\<close>.\<close>

definition upsert_topic :: "string \<Rightarrow> nat \<Rightarrow> timestamp \<Rightarrow> topic_row list \<Rightarrow> topic_row list" where
  "upsert_topic topic sequence now ts =
    (if \<exists>t \<in> set ts. tp_topic t = topic
     then update_where (\<lambda>t. tp_topic t = topic)
            (\<lambda>t. t\<lparr>tp_last_sequence := sequence, tp_updated_at := now\<rparr>) ts
     else ts @ [\<lparr>tp_topic = topic, tp_last_sequence = sequence, tp_updated_at = now\<rparr>])"

text \<open>The primary key and the two \<open>UNIQUE\<close> constraints of \<open>agent_bus_messages\<close>.\<close>

definition message_conflict :: "message_row \<Rightarrow> message_row \<Rightarrow> bool" where
  "message_conflict a b =
     (ms_message_id a = ms_message_id b \<or>
      (ms_topic a = ms_topic b \<and> ms_sequence a = ms_sequence b) \<or>
      (ms_topic a = ms_topic b \<and> ms_sender_id a = ms_sender_id b \<and>
       ms_idempotency_key a = ms_idempotency_key b))"

definition insert_message :: "message_row \<Rightarrow> bus \<Rightarrow> bus_error + bus" where
  "insert_message m s =
    (if \<exists>x \<in> set (bus_messages s). message_conflict x m then Inl BusIntegrityError
     else Inr (s\<lparr>bus_messages := bus_messages s @ [m]\<rparr>))"

definition new_message :: "draft \<Rightarrow> string \<Rightarrow> nat \<Rightarrow> string \<Rightarrow> timestamp \<Rightarrow> message_row" where
  "new_message d mid sequence dg now =
     \<lparr>ms_message_id = mid, ms_topic = dr_topic d, ms_sequence = sequence,
      ms_sender_id = dr_sender_id d, ms_recipient_id = dr_recipient_id d,
      ms_idempotency_key = dr_idempotency_key d, ms_request_digest = dg,
      ms_payload = thaw_json (dr_payload d), ms_headers = thaw_json (dr_headers d),
      ms_created_at = now\<rparr>"

definition existing_message :: "bus \<Rightarrow> draft \<Rightarrow> message_row option" where
  "existing_message s d = find (\<lambda>m. ms_topic m = dr_topic d \<and> ms_sender_id m = dr_sender_id d
     \<and> ms_idempotency_key m = dr_idempotency_key d) (bus_messages s)"

datatype publish_outcome =
    Published bus envelope bool
  | PublishFailed bus_error
  | TopicAtCapacity nat

text \<open>The transaction of \<open>publish\<close>; \<open>TopicAtCapacity\<close> is the exception that rolls it back.\<close>

definition publish_locked ::
  "bus_config \<Rightarrow> bus \<Rightarrow> draft \<Rightarrow> string \<Rightarrow> string \<Rightarrow> timestamp \<Rightarrow> publish_outcome" where
  "publish_locked cfg s d dg mid now =
    (case existing_message s d of
       Some row \<Rightarrow>
         if ms_request_digest row \<noteq> dg
         then PublishFailed (MessageBusConflictError
                ''idempotency key is already bound to a different message'')
         else (case message_from_row row of
             Inl e \<Rightarrow> PublishFailed e
           | Inr m \<Rightarrow> Published
               (bus_append_event ''message.publish_deduplicated'' (dr_topic d) (Some (en_sequence m))
                  (Some (en_message_id m)) None
                  (PDict [(PStr ''sender_id'', PStr (dr_sender_id d))]) now s) m False)
     | None \<Rightarrow>
        if topic_count s (dr_topic d) \<ge> max_messages_per_topic cfg
        then TopicAtCapacity (topic_count s (dr_topic d))
        else let sequence = (case topic_state s (dr_topic d) of
                   Some t \<Rightarrow> tp_last_sequence t + 1 | None \<Rightarrow> 1);
                 s1 = s\<lparr>bus_topics := upsert_topic (dr_topic d) sequence now (bus_topics s)\<rparr>;
                 row = new_message d mid sequence dg now in
          (case insert_message row s1 of
             Inl e \<Rightarrow> PublishFailed e
           | Inr s2 \<Rightarrow>
              let s3 = bus_append_event ''message.published'' (dr_topic d) (Some sequence) (Some mid)
                     None (PDict [(PStr ''sender_id'', PStr (dr_sender_id d)),
                                  (PStr ''recipient_id'', optional_pval (dr_recipient_id d))]) now s2 in
              (case message_from_row row of
                 Inl e \<Rightarrow> PublishFailed e | Inr m \<Rightarrow> Published s3 m True)))"

text \<open>
  The rejection at capacity is recorded in a transaction of its own, after the rollback.
\<close>

definition publish ::
  "bus_config \<Rightarrow> (pval \<Rightarrow> string) \<Rightarrow> (string \<Rightarrow> string) \<Rightarrow> bus \<Rightarrow> draft \<Rightarrow> string \<Rightarrow> timestamp
     \<Rightarrow> bus \<times> (bus_error + envelope \<times> bool)" where
  "publish cfg encode sha s d mid now =
    (let encoded = encode (canonical_dict d) in
     case validate_draft_size cfg encode d encoded of Inl e \<Rightarrow> (s, Inl e) | Inr _ \<Rightarrow>
     (case publish_locked cfg s d (sha encoded) mid now of
        Published s' m created \<Rightarrow> (s', Inr (m, created))
      | PublishFailed e \<Rightarrow> (s, Inl e)
      | TopicAtCapacity n \<Rightarrow>
          (bus_append_event ''message.publish_rejected_capacity'' (dr_topic d) None None None
             (PDict [(PStr ''retained_count'', PInt (int n))]) now s,
           Inl (MessageBusCapacityError ''topic retained-message capacity is exhausted''))))"

section \<open>Pulling and acknowledging\<close>

definition eligible :: "string \<Rightarrow> string \<Rightarrow> message_row \<Rightarrow> bool" where
  "eligible consumer_id topic m =
     (ms_topic m = topic \<and> (ms_recipient_id m = None \<or> ms_recipient_id m = Some consumer_id))"

definition pull_rows :: "bus \<Rightarrow> string \<Rightarrow> string \<Rightarrow> nat \<Rightarrow> message_row list" where
  "pull_rows s consumer_id topic limit =
     take limit (sort_key ms_sequence (filter (\<lambda>m. eligible consumer_id topic m \<and>
        cu_ack_sequence (cursor_locked s consumer_id topic) < ms_sequence m) (bus_messages s)))"

definition pull :: "bus \<Rightarrow> string \<Rightarrow> string \<Rightarrow> int \<Rightarrow> bus_error + envelope list" where
  "pull s consumer_id topic limit =
    (case bounded_id consumer_id ''consumer_id'' of Inl e \<Rightarrow> Inl e | Inr _ \<Rightarrow>
     case bounded_topic topic of Inl e \<Rightarrow> Inl e | Inr _ \<Rightarrow>
     if \<not> (1 \<le> limit \<and> limit \<le> 1000) then Inl (BusValueError ''limit must be in [1, 1000]'')
     else messages_from_rows (pull_rows s consumer_id topic (nat limit)))"

definition upsert_cursor ::
  "string \<Rightarrow> string \<Rightarrow> nat \<Rightarrow> timestamp \<Rightarrow> cursor_row list \<Rightarrow> cursor_row list" where
  "upsert_cursor consumer_id topic sequence now cs =
    (if \<exists>c \<in> set cs. cu_consumer_id c = consumer_id \<and> cu_topic c = topic
     then update_where (\<lambda>c. cu_consumer_id c = consumer_id \<and> cu_topic c = topic
              \<and> sequence > cu_ack_sequence c)
            (\<lambda>c. c\<lparr>cu_ack_sequence := sequence, cu_updated_at := Some now\<rparr>) cs
     else cs @ [\<lparr>cu_consumer_id = consumer_id, cu_topic = topic, cu_ack_sequence = sequence,
                 cu_updated_at = Some now\<rparr>])"

definition ack :: "bus \<Rightarrow> string \<Rightarrow> string \<Rightarrow> nat \<Rightarrow> timestamp \<Rightarrow> bus_error + bus \<times> cursor_row" where
  "ack s consumer_id topic sequence now =
    (case bounded_id consumer_id ''consumer_id'' of Inl e \<Rightarrow> Inl e | Inr _ \<Rightarrow>
     case bounded_topic topic of Inl e \<Rightarrow> Inl e | Inr _ \<Rightarrow>
     let current = cursor_locked s consumer_id topic in
     if sequence \<le> cu_ack_sequence current then Inr (s, current)
     else if \<not> (\<exists>m \<in> set (bus_messages s). ms_sequence m = sequence \<and> eligible consumer_id topic m)
     then Inl (MessageBusAckError ''ack sequence is not an eligible message for this consumer'')
     else let s1 = bus_append_event ''message.cursor_acknowledged'' topic (Some sequence) None
                (Some consumer_id) (PDict []) now
                (s\<lparr>bus_cursors := upsert_cursor consumer_id topic sequence now (bus_cursors s)\<rparr>) in
       Inr (s1, cursor_locked s1 consumer_id topic))"

definition get_cursor :: "bus \<Rightarrow> string \<Rightarrow> string \<Rightarrow> bus_error + cursor_row" where
  "get_cursor s consumer_id topic =
    (case bounded_id consumer_id ''consumer_id'' of Inl e \<Rightarrow> Inl e | Inr _ \<Rightarrow>
     case bounded_topic topic of Inl e \<Rightarrow> Inl e | Inr _ \<Rightarrow> Inr (cursor_locked s consumer_id topic))"

definition bus_list_events ::
  "bus \<Rightarrow> string option \<Rightarrow> int \<Rightarrow> int \<Rightarrow> bus_error + bus_event list" where
  "bus_list_events s topic after limit =
    (case (case topic of None \<Rightarrow> Inr [] | Some t \<Rightarrow> bounded_topic t) of Inl e \<Rightarrow> Inl e | Inr _ \<Rightarrow>
     if after < 0 \<or> \<not> (1 \<le> limit \<and> limit \<le> 5000)
     then Inl (BusValueError ''invalid event query bounds'')
     else Inr (take (nat limit) (sort_key be_event_id (filter
            (\<lambda>e. after < int (be_event_id e) \<and> (topic = None \<or> topic = Some (be_topic e)))
            (bus_events s)))))"

section \<open>The facade of the agents\<close>

definition send ::
  "bus_config \<Rightarrow> (pval \<Rightarrow> string) \<Rightarrow> (string \<Rightarrow> string) \<Rightarrow> bus \<Rightarrow> draft \<Rightarrow> string \<Rightarrow> timestamp
     \<Rightarrow> bus \<times> (bus_error + envelope \<times> bool)" where
  "send cfg encode sha s d mid now =
    (case make_draft d of Inl e \<Rightarrow> (s, Inl e) | Inr d' \<Rightarrow> publish cfg encode sha s d' mid now)"

definition receive :: "bus \<Rightarrow> string \<Rightarrow> string \<Rightarrow> int \<Rightarrow> bus_error + envelope list" where
  "receive s agent_id topic limit = pull s agent_id topic limit"

end
