(* ===== verification/Message_Bus_Inv.thy ===== *)
theory Message_Bus_Inv
  imports Message_Bus Interfaces
begin

text \<open>
  The invariant of the message bus and its preservation by publication and acknowledgement; the
  executions of the bus as \<open>bus_step\<close> and \<open>bus_reachable\<close>.
\<close>

section \<open>Rows the bus may hold\<close>

definition object_ok :: "pval \<Rightarrow> bool" where
  "object_ok v \<longleftrightarrow> (\<exists>kvs. v = PDict kvs) \<and> json_normal v \<and> \<not> has_sensitive_field v"

definition message_ok :: "message_row \<Rightarrow> bool" where
  "message_ok m \<longleftrightarrow> ident_ok (ms_message_id m) \<and> topic_ok (ms_topic m) \<and> 1 \<le> ms_sequence m \<and>
     ident_ok (ms_sender_id m) \<and> ident_ok (ms_idempotency_key m) \<and> optional_ok (ms_recipient_id m) \<and>
     object_ok (ms_payload m) \<and> object_ok (ms_headers m)"

lemma normalize_ok:
  assumes "normalize_json_object v name = Inr w"
  shows "(\<exists>kvs. w = PDict kvs) \<and> json_normal w"
proof -
  obtain kvs where v: "v = PDict kvs" "\<not> bad_keys v" "json_roundtrip (thaw_json v) = Some w"
    using assms unfolding normalize_json_object_def
    by (cases v) (simp_all del: bad_keys.simps thaw_json.simps json_roundtrip.simps
      split: if_splits option.splits)
  then have "json_normal w" using json_roundtrip_normal bad_keys_thaw by blast
  moreover from v(1,3) have "\<exists>kvs. w = PDict kvs" by (auto split: option.splits)
  ultimately show ?thesis by simp
qed

lemma thaw_normal: "json_normal v \<Longrightarrow> \<exists>kvs. v = PDict kvs \<Longrightarrow> \<exists>kvs. thaw_json v = PDict kvs"
  by auto

lemma normalize_frozen:
  assumes "object_ok v" "freeze_json v = Inr w"
  shows "thaw_json w = v" "normalize_json_object w name = Inr v" "has_sensitive_field w = has_sensitive_field v"
proof -
  from assms(1) have n: "json_normal v" by (simp add: object_ok_def)
  from freeze_thaw [OF n] assms(2) have t: "thaw_json w = v" "\<not> bad_keys w"
    and h: "has_sensitive_field w = has_sensitive_field v" by auto
  show "thaw_json w = v" "has_sensitive_field w = has_sensitive_field v" by (rule t(1), rule h)
  from assms have "\<exists>kvs. w = PDict kvs" by (auto simp: object_ok_def split: if_splits)
  then show "normalize_json_object w name = Inr v"
    using t json_normal_roundtrip [OF n] by (auto simp: normalize_json_object_def)
qed

lemma thaw_object: "object_ok v \<Longrightarrow> \<exists>w. freeze_json v = Inr w \<and> thaw_json w = v"
  using freeze_thaw by (auto simp: object_ok_def)

lemma sealed_jsonD:
  assumes "sealed_json p h = Inr (fp, fh)"
  shows "object_ok (thaw_json fp)" "object_ok (thaw_json fh)"
    "normalize_json_object p ''payload'' = Inr (thaw_json fp)"
    "normalize_json_object h ''headers'' = Inr (thaw_json fh)"
proof -
  from assms obtain np nh where n: "normalize_json_object p ''payload'' = Inr np"
      "normalize_json_object h ''headers'' = Inr nh" "\<not> has_sensitive_field np" "\<not> has_sensitive_field nh"
      "freeze_json np = Inr fp" "freeze_json nh = Inr fh"
    by (auto simp: sealed_json_def reject_sensitive_fields_def split: sum.splits if_splits)
  have o: "object_ok np" "object_ok nh" using normalize_ok n(1-4) by (auto simp: object_ok_def)
  have t: "thaw_json fp = np" "thaw_json fh = nh"
    using normalize_frozen(1) [OF o(1) n(5)] normalize_frozen(1) [OF o(2) n(6)] by simp_all
  show "object_ok (thaw_json fp)" "object_ok (thaw_json fh)"
    "normalize_json_object p ''payload'' = Inr (thaw_json fp)"
    "normalize_json_object h ''headers'' = Inr (thaw_json fh)" using o t n(1,2) by simp_all
qed

lemma thaw_normal_id: "json_normal v \<Longrightarrow> \<not> (\<exists>vs. v = PTuple vs) \<Longrightarrow> json_roundtrip (thaw_json v) = Some v"
proof (induction v rule: json_normal.induct)
  case (1 kvs)
  have "json_roundtrip (thaw_json (snd kv)) = Some (snd kv)" "PStr (pstr (fst kv)) = fst kv"
    if "kv \<in> set kvs" for kv
    using "1.IH" [OF that] "1.prems"(1) that by (cases "snd kv"; force)+
  then have "those (map (\<lambda>kv. map_option (Pair (fst kv)) (json_roundtrip (snd kv)))
      (map (\<lambda>kv. (PStr (pstr (fst kv)), thaw_json (snd kv))) kvs)) = Some (map (\<lambda>kv. kv) kvs)"
    unfolding map_map o_def by (intro those_all) auto
  then show ?case by simp
next
  case (2 vs)
  then show ?case using json_normal_roundtrip [of "PList vs"] by simp
qed auto

lemma sealed_object:
  assumes "object_ok p" "object_ok h"
  shows "\<exists>fp fh. sealed_json p h = Inr (fp, fh) \<and> thaw_json fp = p \<and> thaw_json fh = h"
proof -
  have "normalize_json_object v name = Inr v" if "object_ok v" for v name
    using that thaw_normal_id [of v] json_normal_not_bad [of v]
    by (auto simp: object_ok_def normalize_json_object_def)
  with assms thaw_object [OF assms(1)] thaw_object [OF assms(2)] show ?thesis
    by (auto simp: sealed_json_def reject_sensitive_fields_def object_ok_def)
qed

text \<open>Reading back a stored message never raises and gives the stored values.\<close>

lemma message_from_row_ok:
  assumes "message_ok m"
  shows "\<exists>e. message_from_row m = Inr e \<and> en_message_id e = ms_message_id m \<and> en_topic e = ms_topic m \<and>
    en_sequence e = ms_sequence m \<and> en_sender_id e = ms_sender_id m \<and>
    en_recipient_id e = ms_recipient_id m \<and> en_idempotency_key e = ms_idempotency_key m \<and>
    thaw_json (en_payload e) = ms_payload m \<and> thaw_json (en_headers e) = ms_headers m \<and>
    en_created_at e = ms_created_at m"
  using sealed_object [of "ms_payload m" "ms_headers m"] assms
  by (auto simp: message_from_row_def make_envelope_def message_ok_def bus_topic_def bus_identifier_def)

section \<open>The invariant\<close>

definition last_sequence :: "bus \<Rightarrow> string \<Rightarrow> nat" where
  "last_sequence s topic = (case topic_state s topic of None \<Rightarrow> 0 | Some t \<Rightarrow> tp_last_sequence t)"

definition topic_messages :: "bus \<Rightarrow> string \<Rightarrow> message_row list" where
  "topic_messages s topic = filter (\<lambda>m. ms_topic m = topic) (bus_messages s)"

definition message_key :: "message_row \<Rightarrow> string \<times> string \<times> string" where
  "message_key m = (ms_topic m, ms_sender_id m, ms_idempotency_key m)"

definition cursor_key :: "cursor_row \<Rightarrow> string \<times> string" where
  "cursor_key c = (cu_consumer_id c, cu_topic c)"

definition cursor_ok :: "bus \<Rightarrow> cursor_row \<Rightarrow> bool" where
  "cursor_ok s c \<longleftrightarrow> (\<exists>m \<in> set (bus_messages s).
     ms_sequence m = cu_ack_sequence c \<and> eligible (cu_consumer_id c) (cu_topic c) m)"

definition bus_inv :: "bus \<Rightarrow> bool" where
  "bus_inv s \<longleftrightarrow>
     (\<forall>m \<in> set (bus_messages s). message_ok m) \<and>
     distinct (map ms_message_id (bus_messages s)) \<and>
     distinct (map message_key (bus_messages s)) \<and>
     (\<forall>t. map ms_sequence (topic_messages s t) = [Suc 0 ..< Suc (last_sequence s t)]) \<and>
     distinct (map cursor_key (bus_cursors s)) \<and>
     (\<forall>c \<in> set (bus_cursors s). cursor_ok s c) \<and>
     map be_event_id (bus_events s) = [Suc 0 ..< Suc (length (bus_events s))]"

lemma bus_invD:
  assumes "bus_inv s"
  shows "\<And>m. m \<in> set (bus_messages s) \<Longrightarrow> message_ok m" "distinct (map ms_message_id (bus_messages s))"
    "distinct (map message_key (bus_messages s))"
    "\<And>t. map ms_sequence (topic_messages s t) = [Suc 0 ..< Suc (last_sequence s t)]"
    "distinct (map cursor_key (bus_cursors s))" "\<And>c. c \<in> set (bus_cursors s) \<Longrightarrow> cursor_ok s c"
    "map be_event_id (bus_events s) = [Suc 0 ..< Suc (length (bus_events s))]"
  using assms unfolding bus_inv_def by blast+

lemma bus_append_event_fields [simp]:
  "bus_topics (bus_append_event a b c d e f g s) = bus_topics s"
  "bus_messages (bus_append_event a b c d e f g s) = bus_messages s"
  "bus_cursors (bus_append_event a b c d e f g s) = bus_cursors s"
  "prefix (bus_events s) (bus_events (bus_append_event a b c d e f g s))"
  by (simp_all add: bus_append_event_def)

lemma bus_append_event_readings [simp]:
  "topic_messages (bus_append_event a b c d e f g s) = topic_messages s"
  "last_sequence (bus_append_event a b c d e f g s) = last_sequence s"
  "cursor_ok (bus_append_event a b c d e f g s) = cursor_ok s"
  "cursor_locked (bus_append_event a b c d e f g s) = cursor_locked s"
  "existing_message (bus_append_event a b c d e f g s) = existing_message s"
  "pull_rows (bus_append_event a b c d e f g s) = pull_rows s"
  "topic_count (bus_append_event a b c d e f g s) = topic_count s"
  by (simp_all add: fun_eq_iff topic_messages_def last_sequence_def topic_state_def cursor_ok_def
    cursor_locked_def existing_message_def pull_rows_def topic_count_def)

lemma bus_inv_append_event:
  assumes "bus_inv s"
  shows "bus_inv (bus_append_event a b c d e f g s)"
proof -
  let ?n = "length (bus_events s)"
  have "next_number (map be_event_id (bus_events s)) = Suc ?n"
    unfolding bus_invD(7) [OF assms] by (rule next_number_upt)
  then have "map be_event_id (bus_events (bus_append_event a b c d e f g s)) = [Suc 0 ..< Suc ?n] @ [Suc ?n]"
    using bus_invD(7) [OF assms] by (simp add: bus_append_event_def)
  then have "map be_event_id (bus_events (bus_append_event a b c d e f g s)) = [Suc 0 ..< Suc (Suc ?n)]"
    by simp
  moreover have "length (bus_events (bus_append_event a b c d e f g s)) = Suc ?n"
    by (simp add: bus_append_event_def)
  ultimately have ev: "map be_event_id (bus_events (bus_append_event a b c d e f g s)) =
      [Suc 0 ..< Suc (length (bus_events (bus_append_event a b c d e f g s)))]" by (simp only:)
  show ?thesis using bus_invD(1-6) [OF assms] ev unfolding bus_inv_def
    by (simp only: bus_append_event_fields bus_append_event_readings) simp
qed

lemma topic_state_upsert:
  "find (\<lambda>t. tp_topic t = x) (upsert_topic topic n now ts) =
     (if x = topic then Some (case find (\<lambda>t. tp_topic t = topic) ts of
          None \<Rightarrow> \<lparr>tp_topic = topic, tp_last_sequence = n, tp_updated_at = now\<rparr>
        | Some t \<Rightarrow> t\<lparr>tp_last_sequence := n, tp_updated_at := now\<rparr>)
      else find (\<lambda>t. tp_topic t = x) ts)"
proof (cases "\<exists>t \<in> set ts. tp_topic t = topic")
  case True
  have f: "find (\<lambda>t. tp_topic t = x) (update_where (\<lambda>t. tp_topic t = topic)
        (\<lambda>t. t\<lparr>tp_last_sequence := n, tp_updated_at := now\<rparr>) ts) =
      map_option (\<lambda>t. if tp_topic t = topic then t\<lparr>tp_last_sequence := n, tp_updated_at := now\<rparr> else t)
        (find (\<lambda>t. tp_topic t = x) ts)"
    by (rule find_update_where) simp
  have "find (\<lambda>t. tp_topic t = topic) ts \<noteq> None" using True by (auto simp: find_None_iff)
  then obtain r where r: "find (\<lambda>t. tp_topic t = topic) ts = Some r" by blast
  show ?thesis
  proof (cases "x = topic")
    case True
    with r f \<open>\<exists>t \<in> set ts. tp_topic t = topic\<close> find_SomeD [OF r] show ?thesis by (simp add: upsert_topic_def)
  next
    case False
    have "map_option (\<lambda>t. if tp_topic t = topic then t\<lparr>tp_last_sequence := n, tp_updated_at := now\<rparr> else t)
        (find (\<lambda>t. tp_topic t = x) ts) = find (\<lambda>t. tp_topic t = x) ts"
      using False by (cases "find (\<lambda>t. tp_topic t = x) ts") (auto dest!: find_SomeD)
    with False f \<open>\<exists>t \<in> set ts. tp_topic t = topic\<close> show ?thesis by (simp add: upsert_topic_def)
  qed
next
  case False
  then have "find (\<lambda>t. tp_topic t = topic) ts = None" by (auto simp: find_None_iff)
  with False show ?thesis by (auto simp: upsert_topic_def find_append split: option.splits)
qed

lemma sequence_of_message:
  assumes "bus_inv s" "m \<in> set (bus_messages s)"
  shows "1 \<le> ms_sequence m" "ms_sequence m \<le> last_sequence s (ms_topic m)"
proof -
  have "ms_sequence m \<in> set (map ms_sequence (topic_messages s (ms_topic m)))"
    using assms(2) by (simp add: topic_messages_def)
  then have "ms_sequence m \<in> {Suc 0 ..< Suc (last_sequence s (ms_topic m))}"
    unfolding bus_invD(4) [OF assms(1)] by (simp only: set_upt)
  then show "1 \<le> ms_sequence m" "ms_sequence m \<le> last_sequence s (ms_topic m)" by auto
qed

section \<open>Publication\<close>

definition draft_ok :: "draft \<Rightarrow> bool" where
  "draft_ok d \<longleftrightarrow> topic_ok (dr_topic d) \<and> ident_ok (dr_sender_id d) \<and> ident_ok (dr_idempotency_key d) \<and>
     optional_ok (dr_recipient_id d) \<and> object_ok (thaw_json (dr_payload d)) \<and> object_ok (thaw_json (dr_headers d))"

lemma make_draftD:
  assumes "make_draft d = Inr d'"
  shows "draft_ok d'" "dr_topic d' = dr_topic d" "dr_sender_id d' = dr_sender_id d"
    "dr_idempotency_key d' = dr_idempotency_key d" "dr_recipient_id d' = dr_recipient_id d"
    "normalize_json_object (dr_payload d) ''payload'' = Inr (thaw_json (dr_payload d'))"
    "normalize_json_object (dr_headers d) ''headers'' = Inr (thaw_json (dr_headers d'))"
proof -
  from assms obtain p h where d: "topic_ok (dr_topic d)" "ident_ok (dr_sender_id d)"
      "ident_ok (dr_idempotency_key d)" "optional_ok (dr_recipient_id d)"
      "sealed_json (dr_payload d) (dr_headers d) = Inr (p, h)" "d' = d\<lparr>dr_payload := p, dr_headers := h\<rparr>"
    by (auto simp: make_draft_def bus_topic_def bus_identifier_def split: sum.splits if_splits prod.splits)
  show "draft_ok d'" "dr_topic d' = dr_topic d" "dr_sender_id d' = dr_sender_id d"
    "dr_idempotency_key d' = dr_idempotency_key d" "dr_recipient_id d' = dr_recipient_id d"
    "normalize_json_object (dr_payload d) ''payload'' = Inr (thaw_json (dr_payload d'))"
    "normalize_json_object (dr_headers d) ''headers'' = Inr (thaw_json (dr_headers d'))"
    using d(1-4) sealed_jsonD [OF d(5)] unfolding d(6) draft_ok_def by simp_all
qed

lemma new_message_ok:
  "draft_ok d \<Longrightarrow> ident_ok mid \<Longrightarrow> 1 \<le> n \<Longrightarrow> message_ok (new_message d mid n dg now)"
  by (simp add: draft_ok_def message_ok_def new_message_def)

text \<open>The number the next message of a topic gets, and the two ways a publication ends well.\<close>

definition next_sequence :: "bus \<Rightarrow> string \<Rightarrow> nat" where
  "next_sequence s topic = (case topic_state s topic of Some t \<Rightarrow> tp_last_sequence t + 1 | None \<Rightarrow> 1)"

lemma next_sequence_last: "next_sequence s topic = Suc (last_sequence s topic)"
  by (simp add: next_sequence_def last_sequence_def split: option.splits)

definition add_message :: "bus \<Rightarrow> draft \<Rightarrow> string \<Rightarrow> string \<Rightarrow> timestamp \<Rightarrow> bus" where
  "add_message s d dg mid now = (let n = next_sequence s (dr_topic d) in
     s\<lparr>bus_topics := upsert_topic (dr_topic d) n now (bus_topics s),
       bus_messages := bus_messages s @ [new_message d mid n dg now]\<rparr>)"

lemma publish_lockedD:
  assumes "publish_locked cfg s d dg mid now = Published s' e created"
  shows "(\<exists>row ev. existing_message s d = Some row \<and> ms_request_digest row = dg \<and> message_from_row row = Inr e \<and>
            \<not> created \<and> s' = bus_append_event ''message.publish_deduplicated'' (dr_topic d)
              (Some (en_sequence e)) (Some (en_message_id e)) None ev now s) \<or>
     (\<exists>ev. existing_message s d = None \<and> topic_count s (dr_topic d) < max_messages_per_topic cfg \<and> created \<and>
        \<not> (\<exists>x \<in> set (bus_messages s). message_conflict x (new_message d mid (next_sequence s (dr_topic d)) dg now)) \<and>
        message_from_row (new_message d mid (next_sequence s (dr_topic d)) dg now) = Inr e \<and>
        s' = bus_append_event ''message.published'' (dr_topic d) (Some (next_sequence s (dr_topic d)))
               (Some mid) None ev now (add_message s d dg mid now))"
  using assms unfolding publish_locked_def next_sequence_def [symmetric]
  by (auto simp: Let_def insert_message_def add_message_def split: option.splits if_splits sum.splits)

lemma topic_messages_add:
  "topic_messages (add_message s d dg mid now) t = topic_messages s t @
     (if t = dr_topic d then [new_message d mid (next_sequence s t) dg now] else [])"
  by (simp add: topic_messages_def add_message_def Let_def new_message_def)

lemma last_sequence_add:
  "last_sequence (add_message s d dg mid now) t =
     (if t = dr_topic d then next_sequence s t else last_sequence s t)"
  by (simp add: last_sequence_def topic_state_def add_message_def Let_def topic_state_upsert split: option.splits)

lemma cursor_ok_mono:
  "set (bus_messages s) \<subseteq> set (bus_messages s') \<Longrightarrow> cursor_ok s c \<Longrightarrow> cursor_ok s' c"
  by (auto simp: cursor_ok_def)

lemma existing_message_None:
  "existing_message s d = None \<longleftrightarrow> (dr_topic d, dr_sender_id d, dr_idempotency_key d) \<notin> message_key ` set (bus_messages s)"
  by (force simp: existing_message_def find_None_iff message_key_def image_iff)

lemma bus_inv_add_message:
  assumes inv: "bus_inv s" and d: "draft_ok d" "ident_ok mid" and new: "existing_message s d = None"
    and fresh: "mid \<notin> ms_message_id ` set (bus_messages s)"
  shows "bus_inv (add_message s d dg mid now)"
proof -
  let ?s = "add_message s d dg mid now"
  let ?m = "new_message d mid (next_sequence s (dr_topic d)) dg now"
  have ms: "bus_messages ?s = bus_messages s @ [?m]" "bus_cursors ?s = bus_cursors s" "bus_events ?s = bus_events s"
    by (simp_all add: add_message_def Let_def)
  have key: "message_key ?m = (dr_topic d, dr_sender_id d, dr_idempotency_key d)" "ms_message_id ?m = mid"
    "ms_sequence ?m = Suc (last_sequence s (dr_topic d))"
    by (simp_all add: message_key_def new_message_def next_sequence_last)
  have "message_ok ?m" by (rule new_message_ok [OF d]) (simp add: next_sequence_last)
  moreover have "map ms_sequence (topic_messages ?s t) = [Suc 0 ..< Suc (last_sequence ?s t)]" for t
    using bus_invD(4) [OF inv, of t] key(3)
    by (simp add: topic_messages_add last_sequence_add next_sequence_last)
  moreover have "cursor_ok ?s c" if "c \<in> set (bus_cursors s)" for c
    by (rule cursor_ok_mono [OF _ bus_invD(6) [OF inv that]]) (auto simp: ms)
  ultimately show ?thesis
    using bus_invD(1,2,3,5,7) [OF inv] new fresh key(1,2) unfolding bus_inv_def ms existing_message_None
    by auto
qed

lemma bus_inv_publish_locked:
  assumes "bus_inv s" "draft_ok d" "ident_ok mid" "publish_locked cfg s d dg mid now = Published s' e created"
  shows "bus_inv s'"
  using publish_lockedD [OF assms(4)]
proof (elim disjE exE conjE)
  fix ev
  assume n: "existing_message s d = None"
    and c: "\<not> (\<exists>x \<in> set (bus_messages s). message_conflict x (new_message d mid (next_sequence s (dr_topic d)) dg now))"
    and s': "s' = bus_append_event ''message.published'' (dr_topic d) (Some (next_sequence s (dr_topic d)))
      (Some mid) None ev now (add_message s d dg mid now)"
  have "mid \<notin> ms_message_id ` set (bus_messages s)"
    using c by (auto simp: message_conflict_def new_message_def)
  then show ?thesis unfolding s' by (intro bus_inv_append_event bus_inv_add_message assms n)
qed (simp add: bus_inv_append_event assms)

lemma publish_cases:
  assumes "publish cfg encode sha s d mid now = (s', r)"
  obtains e where "s' = s" "r = Inl e"
    | e created where "publish_locked cfg s d (sha (encode (canonical_dict d))) mid now = Published s' e created"
        "r = Inr (e, created)"
    | ev where "existing_message s d = None" "max_messages_per_topic cfg \<le> topic_count s (dr_topic d)"
        "s' = bus_append_event ''message.publish_rejected_capacity'' (dr_topic d) None None None ev now s"
        "r = Inl (MessageBusCapacityError ''topic retained-message capacity is exhausted'')"
proof (cases "publish_locked cfg s d (sha (encode (canonical_dict d))) mid now")
  case (TopicAtCapacity n)
  then have "existing_message s d = None" "max_messages_per_topic cfg \<le> n" "n = topic_count s (dr_topic d)"
    by (simp_all add: publish_locked_def Let_def split: option.splits if_splits sum.splits)
  note full = this
  show ?thesis
  proof (cases "validate_draft_size cfg encode d (encode (canonical_dict d))")
    case (Inl e)
    show ?thesis by (rule that(1) [of e]) (use assms Inl in \<open>simp_all add: publish_def\<close>)
  next
    case (Inr u)
    show ?thesis by (rule that(3) [of "PDict [(PStr ''retained_count'', PInt (int n))]"]) (use assms Inr full TopicAtCapacity in \<open>auto simp: publish_def Let_def\<close>)
  qed
next
  case locked: (Published s1 e created)
  show ?thesis
  proof (cases "validate_draft_size cfg encode d (encode (canonical_dict d))")
    case (Inl e)
    show ?thesis by (rule that(1) [of e]) (use assms Inl in \<open>simp_all add: publish_def\<close>)
  next
    case (Inr u)
    show ?thesis by (rule that(2) [of e created]) (use assms Inr locked in \<open>simp_all add: publish_def Let_def\<close>)
  qed
next
  case (PublishFailed e)
  with assms have "s' = s \<and> (\<exists>e. r = Inl e)"
    by (cases "validate_draft_size cfg encode d (encode (canonical_dict d))") (auto simp: publish_def Let_def)
  then show ?thesis using that(1) by blast
qed

lemma bus_inv_publish:
  assumes "bus_inv s" "draft_ok d" "ident_ok mid" "publish cfg encode sha s d mid now = (s', r)"
  shows "bus_inv s'"
  using assms(4)
  by (rule publish_cases) (use assms(1-3) bus_inv_publish_locked bus_inv_append_event in blast)+

lemma bus_inv_send:
  assumes "bus_inv s" "ident_ok mid" "send cfg encode sha s d mid now = (s', r)"
  shows "bus_inv s'"
proof (cases "make_draft d")
  case (Inr d')
  with assms(3) have "publish cfg encode sha s d' mid now = (s', r)" by (simp add: send_def)
  then show ?thesis by (rule bus_inv_publish [OF assms(1) make_draftD(1) [OF Inr] assms(2)])
qed (use assms in \<open>simp add: send_def\<close>)

section \<open>Acknowledgement\<close>

text \<open>What a consumer has acknowledged, and what it still has to see, in order.\<close>

definition acked :: "bus \<Rightarrow> string \<Rightarrow> string \<Rightarrow> nat" where
  "acked s c t = cu_ack_sequence (cursor_locked s c t)"

definition pending :: "string \<Rightarrow> string \<Rightarrow> bus \<Rightarrow> message_row list" where
  "pending c t s = filter (\<lambda>m. eligible c t m \<and> acked s c t < ms_sequence m) (bus_messages s)"

lemma find_upsert_cursor:
  "find (\<lambda>x. cu_consumer_id x = c' \<and> cu_topic x = t') (upsert_cursor c t n now cs) =
    (if c' = c \<and> t' = t
     then Some (case find (\<lambda>x. cu_consumer_id x = c \<and> cu_topic x = t) cs of
        None \<Rightarrow> \<lparr>cu_consumer_id = c, cu_topic = t, cu_ack_sequence = n, cu_updated_at = Some now\<rparr>
      | Some x \<Rightarrow> if cu_ack_sequence x < n then x\<lparr>cu_ack_sequence := n, cu_updated_at := Some now\<rparr> else x)
     else find (\<lambda>x. cu_consumer_id x = c' \<and> cu_topic x = t') cs)"
proof (cases "\<exists>x \<in> set cs. cu_consumer_id x = c \<and> cu_topic x = t")
  case True
  let ?f = "\<lambda>x. if cu_consumer_id x = c \<and> cu_topic x = t \<and> cu_ack_sequence x < n
    then x\<lparr>cu_ack_sequence := n, cu_updated_at := Some now\<rparr> else x"
  have f: "find (\<lambda>x. cu_consumer_id x = c' \<and> cu_topic x = t') (upsert_cursor c t n now cs) =
      map_option ?f (find (\<lambda>x. cu_consumer_id x = c' \<and> cu_topic x = t') cs)"
    using True unfolding upsert_cursor_def by (simp add: find_update_where)
  show ?thesis
  proof (cases "c' = c \<and> t' = t")
    case same: True
    obtain x where x: "find (\<lambda>x. cu_consumer_id x = c \<and> cu_topic x = t) cs = Some x"
      using True by (cases "find (\<lambda>x. cu_consumer_id x = c \<and> cu_topic x = t) cs") (auto simp: find_None_iff)
    with same f find_SomeD [OF x] show ?thesis by simp
  next
    case False
    have "map_option ?f (find (\<lambda>x. cu_consumer_id x = c' \<and> cu_topic x = t') cs) =
        find (\<lambda>x. cu_consumer_id x = c' \<and> cu_topic x = t') cs"
      using False by (cases "find (\<lambda>x. cu_consumer_id x = c' \<and> cu_topic x = t') cs") (auto dest!: find_SomeD)
    with False f show ?thesis by (simp only: if_False)
  qed
next
  case False
  then have "find (\<lambda>x. cu_consumer_id x = c \<and> cu_topic x = t) cs = None" by (auto simp: find_None_iff)
  with False show ?thesis by (auto simp: upsert_cursor_def find_append split: option.splits)
qed

definition move_cursor :: "bus \<Rightarrow> string \<Rightarrow> string \<Rightarrow> nat \<Rightarrow> timestamp \<Rightarrow> bus" where
  "move_cursor s c t n now = s\<lparr>bus_cursors := upsert_cursor c t n now (bus_cursors s)\<rparr>"

lemma move_cursor_fields [simp]:
  "bus_messages (move_cursor s c t n now) = bus_messages s" "bus_events (move_cursor s c t n now) = bus_events s"
  "bus_topics (move_cursor s c t n now) = bus_topics s"
  by (simp_all add: move_cursor_def)

lemma bus_append_event_events:
  "\<exists>v. bus_events (bus_append_event a b c d e f g s) = bus_events s @ [v] \<and> be_event_type v = a"
  "prefix xs (bus_events (bus_append_event a b c d e f g s)) \<longleftrightarrow>
     xs = bus_events (bus_append_event a b c d e f g s) \<or> prefix xs (bus_events s)"
  by (simp_all add: bus_append_event_def)

lemma acked_append_event [simp]: "acked (bus_append_event a b c' d e f g s) c t = acked s c t"
  by (simp add: acked_def)

lemma acked_move_cursor:
  "acked (move_cursor s c t n now) c' t' = (if c' = c \<and> t' = t then max (acked s c t) n else acked s c' t')"
  by (auto simp: acked_def cursor_locked_def move_cursor_def find_upsert_cursor split: option.splits)

lemma cursor_locked_key:
  "cu_consumer_id (cursor_locked s c t) = c" "cu_topic (cursor_locked s c t) = t"
  by (auto simp: cursor_locked_def split: option.splits dest!: find_SomeD)

text \<open>The two ways an acknowledgement ends well.\<close>

lemma ackD:
  assumes "ack s c t n now = Inr (s', r)"
  shows "ident_ok c \<and> topic_ok t \<and> r = cursor_locked s' c t \<and>
    (n \<le> acked s c t \<and> s' = s \<or>
     acked s c t < n \<and> (\<exists>m \<in> set (bus_messages s). ms_sequence m = n \<and> eligible c t m) \<and>
     s' = bus_append_event ''message.cursor_acknowledged'' t (Some n) None (Some c) (PDict []) now
            (move_cursor s c t n now))"
  using assms
  by (auto simp: ack_def Let_def bus_identifier_def bus_topic_def acked_def move_cursor_def
      split: sum.splits if_splits)

lemma ack_eligible:
  assumes "ident_ok c" "topic_ok t" "acked s c t < n" "m \<in> set (bus_messages s)" "ms_sequence m = n" "eligible c t m"
  shows "ack s c t n now = Inr (bus_append_event ''message.cursor_acknowledged'' t (Some n) None (Some c)
      (PDict []) now (move_cursor s c t n now), cursor_locked (move_cursor s c t n now) c t)"
  using assms by (auto simp: ack_def Let_def bus_identifier_def bus_topic_def acked_def move_cursor_def)

lemma set_upsert_cursor:
  "x \<in> set (upsert_cursor c t n now cs) \<Longrightarrow> x \<in> set cs \<or>
     (cu_consumer_id x = c \<and> cu_topic x = t \<and> cu_ack_sequence x = n)"
  by (auto simp: upsert_cursor_def set_update_where split: if_splits)

lemma bus_inv_move_cursor:
  assumes inv: "bus_inv s" and m: "m \<in> set (bus_messages s)" "ms_sequence m = n" "eligible c t m"
  shows "bus_inv (move_cursor s c t n now)"
proof -
  let ?s = "move_cursor s c t n now"
  have same: "bus_messages ?s = bus_messages s" "bus_events ?s = bus_events s"
    "topic_messages ?s = topic_messages s" "last_sequence ?s = last_sequence s" "cursor_ok ?s = cursor_ok s"
    by (simp_all add: move_cursor_def fun_eq_iff topic_messages_def last_sequence_def topic_state_def cursor_ok_def)
  have "distinct (map cursor_key (bus_cursors ?s))"
  proof (cases "\<exists>x \<in> set (bus_cursors s). cu_consumer_id x = c \<and> cu_topic x = t")
    case True
    have "map cursor_key (bus_cursors ?s) = map cursor_key (bus_cursors s)"
      using True by (auto simp: move_cursor_def upsert_cursor_def cursor_key_def update_where_def)
    with bus_invD(5) [OF inv] show ?thesis by simp
  next
    case False
    then have "(c, t) \<notin> cursor_key ` set (bus_cursors s)" by (auto simp: cursor_key_def)
    moreover from False have "bus_cursors ?s = bus_cursors s @
        [\<lparr>cu_consumer_id = c, cu_topic = t, cu_ack_sequence = n, cu_updated_at = Some now\<rparr>]"
      by (auto simp: move_cursor_def upsert_cursor_def)
    ultimately show ?thesis using bus_invD(5) [OF inv] by (simp add: cursor_key_def)
  qed
  moreover have "cursor_ok s x" if "x \<in> set (bus_cursors ?s)" for x
    using set_upsert_cursor [OF that [unfolded move_cursor_def, simplified]] bus_invD(6) [OF inv] m
    by (auto simp: cursor_ok_def)
  ultimately show ?thesis
    using bus_invD(1-4,7) [OF inv] unfolding bus_inv_def same by blast
qed

lemma bus_inv_ack:
  assumes "bus_inv s" "ack s c t n now = Inr (s', r)"
  shows "bus_inv s'"
  using ackD [OF assms(2)] assms(1) by (auto intro!: bus_inv_append_event bus_inv_move_cursor)

section \<open>Executions\<close>

inductive bus_step :: "bus_config \<Rightarrow> (pval \<Rightarrow> string) \<Rightarrow> (string \<Rightarrow> string) \<Rightarrow> bus \<Rightarrow> bus \<Rightarrow> bool"
  for cfg encode sha where
  step_send: "ident_ok mid \<Longrightarrow> send cfg encode sha s d mid now = (s', r) \<Longrightarrow> bus_step cfg encode sha s s'"
| step_ack: "ack s c t n now = Inr (s', r) \<Longrightarrow> bus_step cfg encode sha s s'"

abbreviation bus_run :: "bus_config \<Rightarrow> (pval \<Rightarrow> string) \<Rightarrow> (string \<Rightarrow> string) \<Rightarrow> bus \<Rightarrow> bus \<Rightarrow> bool" where
  "bus_run cfg encode sha \<equiv> (bus_step cfg encode sha)\<^sup>*\<^sup>*"

inductive_cases bus_stepE: "bus_step cfg encode sha s s'"

lemma bus_inv_empty: "bus_inv empty_bus"
  by (simp add: bus_inv_def empty_bus_def topic_messages_def last_sequence_def topic_state_def)

lemma bus_inv_step: "bus_inv s \<Longrightarrow> bus_step cfg encode sha s s' \<Longrightarrow> bus_inv s'"
  by (erule bus_stepE) (blast intro: bus_inv_send bus_inv_ack)+

text \<open>One step keeps every stored message, keeps or advances every cursor and only appends events.\<close>

lemma acked_add_message [simp]: "acked (add_message s d dg mid now) = acked s"
  by (simp add: fun_eq_iff acked_def cursor_locked_def add_message_def Let_def)

lemma publish_evolve:
  assumes "publish cfg encode sha s d mid now = (s', r)"
  shows "prefix (bus_messages s) (bus_messages s')" "acked s' = acked s" "prefix (bus_events s) (bus_events s')"
proof -
  have "prefix (bus_messages s) (bus_messages s') \<and> acked s' = acked s \<and> prefix (bus_events s) (bus_events s')"
    using assms
  proof (cases rule: publish_cases)
    case (2 e created)
    from publish_lockedD [OF 2(1)] show ?thesis
      by (elim disjE exE conjE) (simp_all add: fun_eq_iff acked_def cursor_locked_def add_message_def Let_def bus_append_event_def)
  qed (simp_all add: fun_eq_iff)
  then show "prefix (bus_messages s) (bus_messages s')" "acked s' = acked s" "prefix (bus_events s) (bus_events s')"
    by blast+
qed

lemma step_evolve:
  assumes "bus_step cfg encode sha s s'"
  shows "prefix (bus_messages s) (bus_messages s')" "acked s c t \<le> acked s' c t" "prefix (bus_events s) (bus_events s')"
proof -
  have "prefix (bus_messages s) (bus_messages s') \<and> acked s c t \<le> acked s' c t \<and> prefix (bus_events s) (bus_events s')"
    using assms
  proof (rule bus_stepE)
    fix mid d r now
    assume send: "send cfg encode sha s d mid now = (s', r)"
    show ?thesis
    proof (cases "make_draft d")
      case (Inr d')
      with send have "publish cfg encode sha s d' mid now = (s', r)" by (simp add: send_def)
      from publish_evolve [OF this] show ?thesis by (simp add: fun_eq_iff)
    qed (use send in \<open>simp add: send_def\<close>)
  next
    fix c' t' n now r
    assume "ack s c' t' n now = Inr (s', r)"
    from ackD [OF this] show ?thesis
      by (elim conjE disjE) (simp_all add: acked_move_cursor bus_append_event_events)
  qed
  then show "prefix (bus_messages s) (bus_messages s')" "acked s c t \<le> acked s' c t" "prefix (bus_events s) (bus_events s')"
    by blast+
qed

end
