(* ===== verification/Message_Bus_Props.thy ===== *)
theory Message_Bus_Props
  imports Message_Bus_Inv
begin

text \<open>
  The contracts the message bus provides, as interpretations of the shared interfaces, and the
  properties of \<open>message_bus/store.py\<close> and \<open>message_bus/service.py\<close>.
\<close>

section \<open>The bus as a preserving system, a monotone reading and a log\<close>

interpretation bus_log: append_only bus_inv "bus_step cfg encode sha" bus_messages for cfg encode sha
  by unfold_locales (blast intro: bus_inv_step step_evolve(1))+

interpretation bus_cursor: monotone_reading bus_inv "bus_step cfg encode sha" "\<lambda>s (c, t). Some (acked s c t)"
  for cfg encode sha
  by unfold_locales (auto dest: step_evolve(2) split: prod.splits)

interpretation bus_audit: append_only bus_inv "bus_step cfg encode sha" bus_events for cfg encode sha
  by unfold_locales (blast intro: step_evolve(3))

lemma bus_reachable_inv: "bus_run cfg encode sha empty_bus s \<Longrightarrow> bus_inv s"
  by (erule bus_log.inv_steps) (rule bus_inv_empty)

section \<open>Reading a consumer's queue\<close>

definition the_envelope :: "message_row \<Rightarrow> envelope" where
  "the_envelope m = projr (message_from_row m)"

lemma message_from_row_the: "message_ok m \<Longrightarrow> message_from_row m = Inr (the_envelope m)"
  using message_from_row_ok [of m] by (auto simp: the_envelope_def)

lemma the_envelope_fields:
  assumes "message_ok m"
  shows "en_message_id (the_envelope m) = ms_message_id m" "en_topic (the_envelope m) = ms_topic m"
    "en_sequence (the_envelope m) = ms_sequence m" "en_sender_id (the_envelope m) = ms_sender_id m"
    "en_recipient_id (the_envelope m) = ms_recipient_id m"
    "thaw_json (en_payload (the_envelope m)) = ms_payload m" "thaw_json (en_headers (the_envelope m)) = ms_headers m"
  using message_from_row_ok [OF assms] by (auto simp: the_envelope_def)

lemma messages_from_rows_ok:
  "(\<And>m. m \<in> set ms \<Longrightarrow> message_ok m) \<Longrightarrow> messages_from_rows ms = Inr (map the_envelope ms)"
  by (induction ms) (simp_all add: message_from_row_the)

lemma pending_topic:
  "pending c t s = filter (\<lambda>m. eligible c t m \<and> acked s c t < ms_sequence m) (topic_messages s t)"
  by (auto simp: pending_def topic_messages_def eligible_def intro: filter_cong)

lemma pending_increasing:
  assumes "bus_inv s"
  shows "sorted_wrt (\<lambda>a b. ms_sequence a < ms_sequence b) (pending c t s)"
proof -
  have "sorted_wrt (<) (map ms_sequence (topic_messages s t))"
    unfolding bus_invD(4) [OF assms] by (simp only: sorted_wrt_upt)
  then show ?thesis unfolding pending_topic sorted_wrt_map by (rule sorted_wrt_filter)
qed

lemma pull_rows_pending:
  assumes "bus_inv s"
  shows "pull_rows s c t n = take n (pending c t s)"
proof -
  have "sorted (map ms_sequence (pending c t s))"
    using pending_increasing [OF assms, of c t] unfolding sorted_map by (rule sorted_wrt_mono_rel [rotated]) simp
  then have "sort_key ms_sequence (pending c t s) = pending c t s" by (rule sort_key_id_if_sorted)
  then show ?thesis by (simp add: pull_rows_def pending_def acked_def)
qed

lemma pull_total:
  assumes "bus_inv s" "ident_ok c" "topic_ok t" "1 \<le> n" "n \<le> 1000"
  shows "pull s c t n = Inr (map the_envelope (take (nat n) (pending c t s)))"
proof -
  have "message_ok m" if "m \<in> set (take (nat n) (pending c t s))" for m
    using in_set_takeD [OF that] bus_invD(1) [OF assms(1)] by (auto simp: pending_def)
  with assms show ?thesis
    by (simp add: pull_def bus_identifier_def bus_topic_def pull_rows_pending messages_from_rows_ok)
qed

text \<open>A consumer's loop: pull a page, then acknowledge the last message of it.\<close>

definition fetch_page :: "string \<Rightarrow> string \<Rightarrow> int \<Rightarrow> bus \<Rightarrow> envelope list" where
  "fetch_page c t n s = (case receive s c t n of Inl e \<Rightarrow> [] | Inr ms \<Rightarrow> ms)"

definition confirm_page :: "string \<Rightarrow> string \<Rightarrow> timestamp \<Rightarrow> bus \<Rightarrow> envelope \<Rightarrow> bus" where
  "confirm_page c t now s m = (case ack s c t (en_sequence m) now of Inl e \<Rightarrow> s | Inr (s', _) \<Rightarrow> s')"

definition queued :: "string \<Rightarrow> string \<Rightarrow> bus \<Rightarrow> envelope list" where
  "queued c t s = map the_envelope (pending c t s)"

lemma confirm_moves:
  assumes "bus_inv s" "ident_ok c" "topic_ok t" "m \<in> set (pending c t s)"
  shows "bus_inv (confirm_page c t now s (the_envelope m))"
    "pending c t (confirm_page c t now s (the_envelope m)) =
       filter (\<lambda>x. ms_sequence m < ms_sequence x) (pending c t s)"
proof -
  from assms(4) have m: "m \<in> set (bus_messages s)" "eligible c t m" "acked s c t < ms_sequence m"
    by (auto simp: pending_def)
  have "en_sequence (the_envelope m) = ms_sequence m"
    by (rule the_envelope_fields(3) [OF bus_invD(1) [OF assms(1) m(1)]])
  with ack_eligible [OF assms(2,3) m(3,1) refl m(2), of now]
  have c: "confirm_page c t now s (the_envelope m) = bus_append_event ''message.cursor_acknowledged'' t
      (Some (ms_sequence m)) None (Some c) (PDict []) now (move_cursor s c t (ms_sequence m) now)"
    by (simp add: confirm_page_def)
  show "bus_inv (confirm_page c t now s (the_envelope m))"
    unfolding c by (intro bus_inv_append_event bus_inv_move_cursor [OF assms(1) m(1) refl m(2)])
  show "pending c t (confirm_page c t now s (the_envelope m)) =
       filter (\<lambda>x. ms_sequence m < ms_sequence x) (pending c t s)"
    unfolding c using m(3) by (auto simp: pending_def acked_move_cursor intro: filter_cong)
qed

lemma filter_after:
  assumes "sorted_wrt (\<lambda>a b. f a < (f b :: nat)) (xs @ m # ys)"
  shows "filter (\<lambda>x. f m < f x) (xs @ m # ys) = ys"
  using assms by (auto simp: sorted_wrt_append filter_empty_conv filter_id_conv)

interpretation bus_queue: pull_queue
  "\<lambda>s. bus_inv s \<and> ident_ok c \<and> topic_ok t \<and> 1 \<le> n \<and> n \<le> 1000" "queued c t" "fetch_page c t n" "confirm_page c t now"
  for c t n now
proof unfold_locales
  fix s
  assume inv: "bus_inv s \<and> ident_ok c \<and> topic_ok t \<and> 1 \<le> n \<and> n \<le> 1000"
  then have "fetch_page c t n s = take (nat n) (queued c t s)"
    by (simp add: fetch_page_def receive_def pull_total queued_def take_map)
  with inv show "\<exists>k > 0. fetch_page c t n s = take k (queued c t s)" by (intro exI [of _ "nat n"]) simp
next
  fix s m
  assume "bus_inv s \<and> ident_ok c \<and> topic_ok t \<and> 1 \<le> n \<and> n \<le> 1000" "m \<in> set (queued c t s)"
  then show "bus_inv (confirm_page c t now s m) \<and> ident_ok c \<and> topic_ok t \<and> 1 \<le> n \<and> n \<le> 1000"
    by (auto simp: queued_def confirm_moves(1))
next
  fix s m xs ys
  assume inv: "bus_inv s \<and> ident_ok c \<and> topic_ok t \<and> 1 \<le> n \<and> n \<le> 1000" and q: "queued c t s = xs @ m # ys"
  then obtain as r bs where p: "pending c t s = as @ r # bs" "m = the_envelope r" "ys = map the_envelope bs"
    by (auto simp: queued_def map_eq_append_conv)
  have "pending c t (confirm_page c t now s m) = bs"
    using confirm_moves(2) [of s c t r now] inv filter_after [of ms_sequence as r bs] pending_increasing [of s c t]
    by (simp add: p)
  then show "queued c t (confirm_page c t now s m) = ys" by (simp add: queued_def p)
qed

section \<open>A concrete bus\<close>

definition demo_cfg :: bus_config where
  "demo_cfg = \<lparr>max_messages_per_topic = 2, max_payload_bytes = 100, max_headers_bytes = 100, max_draft_bytes = 300\<rparr>"

definition demo_draft :: "string \<Rightarrow> string option \<Rightarrow> string \<Rightarrow> draft" where
  "demo_draft key recipient body = \<lparr>dr_topic = ''t'', dr_sender_id = ''a'', dr_idempotency_key = key,
     dr_payload = PDict [(PStr ''body'', PStr body)], dr_recipient_id = recipient, dr_headers = PDict []\<rparr>"

definition demo_send :: "draft \<Rightarrow> string \<Rightarrow> bus \<Rightarrow> bus \<times> (bus_error + envelope \<times> bool)" where
  "demo_send d mid s = send demo_cfg demo_encode (\<lambda>b. b) s d mid 5"

definition bus1 :: bus where
  "bus1 = fst (demo_send (demo_draft ''k1'' None ''hi'') ''m1'' empty_bus)"

definition bus2 :: bus where
  "bus2 = fst (demo_send (demo_draft ''k2'' (Some ''b'') ''yo'') ''m2'' bus1)"

definition bus3 :: bus where
  "bus3 = confirm_page ''b'' ''t'' 6 bus2 (the_envelope (bus_messages bus2 ! 0))"

lemma bus1_step: "bus_step demo_cfg demo_encode (\<lambda>b. b) empty_bus bus1"
proof -
  have "demo_send (demo_draft ''k1'' None ''hi'') ''m1'' empty_bus = (bus1, snd (demo_send (demo_draft ''k1'' None ''hi'') ''m1'' empty_bus))"
    by (simp add: bus1_def)
  moreover have "ident_ok ''m1''" by code_simp
  ultimately show ?thesis unfolding demo_send_def by (intro step_send)
qed

lemma bus2_step: "bus_step demo_cfg demo_encode (\<lambda>b. b) bus1 bus2"
proof -
  have "demo_send (demo_draft ''k2'' (Some ''b'') ''yo'') ''m2'' bus1 = (bus2, snd (demo_send (demo_draft ''k2'' (Some ''b'') ''yo'') ''m2'' bus1))"
    by (simp add: bus2_def)
  moreover have "ident_ok ''m2''" by code_simp
  ultimately show ?thesis unfolding demo_send_def by (intro step_send)
qed

lemma bus2_run: "bus_run demo_cfg demo_encode (\<lambda>b. b) empty_bus bus2"
  using bus1_step bus2_step by (meson converse_rtranclp_into_rtranclp rtranclp.rtrancl_refl)

lemma bus3_step: "bus_step demo_cfg demo_encode (\<lambda>b. b) bus2 bus3"
proof -
  have "isl (ack bus2 ''b'' ''t'' 1 6) = False" by code_simp
  then obtain s' r where a: "ack bus2 ''b'' ''t'' 1 6 = Inr (s', r)" by (cases "ack bus2 ''b'' ''t'' 1 6") auto
  have "en_sequence (the_envelope (bus_messages bus2 ! 0)) = 1" by code_simp
  with a have "s' = bus3" by (simp add: bus3_def confirm_page_def)
  with a show ?thesis by (auto intro: step_ack)
qed

section \<open>Properties\<close>

lemma topic_count_last:
  assumes "bus_inv s"
  shows "topic_count s t = last_sequence s t"
proof -
  have "topic_count s t = length (map ms_sequence (topic_messages s t))"
    by (simp add: topic_count_def row_count_def topic_messages_def)
  then show ?thesis unfolding bus_invD(4) [OF assms] by simp
qed

lemma latest_sequence_last: "topic_ok t \<Longrightarrow> latest_sequence s t = Inr (last_sequence s t)"
  by (simp add: latest_sequence_def last_sequence_def bus_topic_def)

text \<open>
  After any run of sends and acknowledgements from the empty bus the messages of every topic,
  in table order, carry the sequence numbers 1, 2, ..., n without a gap or a repetition, where n is
  both what \<open>latest_sequence\<close> and what \<open>count\<close> report; every message that was stored is still there.
\<close>

theorem bus_sequences_contiguous:
  assumes "bus_run cfg encode sha empty_bus s" "topic_ok t"
  shows "\<exists>n. latest_sequence s t = Inr n \<and> count_topic s t = Inr n \<and>
    map ms_sequence (filter (\<lambda>m. ms_topic m = t) (bus_messages s)) = [Suc 0 ..< Suc n]"
proof -
  have inv: "bus_inv s" by (rule bus_reachable_inv [OF assms(1)])
  show ?thesis
    using latest_sequence_last [OF assms(2)] topic_count_last [OF inv] bus_invD(4) [OF inv, of t] assms(2)
    by (intro exI [of _ "last_sequence s t"]) (simp add: count_topic_def bus_topic_def topic_messages_def)
qed

theorem bus_sequences_contiguous_witness:
  "\<exists>n. latest_sequence bus2 ''t'' = Inr n \<and> count_topic bus2 ''t'' = Inr n \<and>
    map ms_sequence (filter (\<lambda>m. ms_topic m = ''t'') (bus_messages bus2)) = [Suc 0 ..< Suc n]"
  by (rule bus_sequences_contiguous [OF bus2_run]) code_simp

lemma publish_created:
  assumes "publish cfg encode sha s d mid now = (s1, Inr (e, True))"
  shows "validate_draft_size cfg encode d (encode (canonical_dict d)) = Inr ()"
    "publish_locked cfg s d (sha (encode (canonical_dict d))) mid now = Published s1 e True"
  using assms by (auto simp: publish_def Let_def split: sum.splits publish_outcome.splits)

lemma stored_message:
  assumes "publish_locked cfg s d dg mid now = Published s1 e True"
  shows "\<exists>row \<in> set (bus_messages s1). message_from_row row = Inr e \<and> ms_request_digest row = dg \<and>
    message_key row = (dr_topic d, dr_sender_id d, dr_idempotency_key d)"
  using publish_lockedD [OF assms]
  by (auto simp: add_message_def Let_def new_message_def message_key_def)

lemma existing_found:
  assumes "bus_inv s" "row \<in> set (bus_messages s)"
    "message_key row = (dr_topic d, dr_sender_id d, dr_idempotency_key d)"
  shows "existing_message s d = Some row"
proof -
  have "find (\<lambda>m. message_key m = message_key row) (bus_messages s) = Some row"
    by (rule find_key_Some [OF bus_invD(3) [OF assms(1)] assms(2)])
  then show ?thesis unfolding assms(3) existing_message_def by (simp add: message_key_def)
qed

lemma bus_send_idempotent_facts:
  assumes "bus_run cfg encode sha empty_bus s" "ident_ok mid"
    "send cfg encode sha s d mid now = (s1, Inr (e, True))" "bus_run cfg encode sha s1 s2"
  shows "\<exists>s3. send cfg encode sha s2 d mid' now' = (s3, Inr (e, False)) \<and> bus_topics s3 = bus_topics s2 \<and>
      bus_messages s3 = bus_messages s2 \<and> bus_cursors s3 = bus_cursors s2"
    "make_draft d2 = Inr d2' \<Longrightarrow> validate_draft_size cfg encode d2' (encode (canonical_dict d2')) = Inr () \<Longrightarrow>
      (dr_topic d2, dr_sender_id d2, dr_idempotency_key d2) = (dr_topic d, dr_sender_id d, dr_idempotency_key d) \<Longrightarrow>
      make_draft d = Inr d1 \<Longrightarrow> sha (encode (canonical_dict d2')) \<noteq> sha (encode (canonical_dict d1)) \<Longrightarrow>
      send cfg encode sha s2 d2 mid' now' =
        (s2, Inl (MessageBusConflictError ''idempotency key is already bound to a different message''))"
proof -
  obtain d' where d': "make_draft d = Inr d'" "publish cfg encode sha s d' mid now = (s1, Inr (e, True))"
    using assms(3) by (auto simp: send_def split: sum.splits)
  note p = publish_created [OF d'(2)]
  obtain row where row: "row \<in> set (bus_messages s1)" "message_from_row row = Inr e"
      "ms_request_digest row = sha (encode (canonical_dict d'))"
      "message_key row = (dr_topic d', dr_sender_id d', dr_idempotency_key d')"
    using stored_message [OF p(2)] by blast
  have i1: "bus_inv s1" by (rule bus_inv_send [OF bus_reachable_inv [OF assms(1)] assms(2,3)])
  have i2: "bus_inv s2" by (rule bus_log.inv_steps [OF assms(4) i1])
  have mem: "row \<in> set (bus_messages s2)"
    using set_mono_prefix [OF bus_log.log_steps [OF assms(4) i1]] row(1) by blast
  have found: "existing_message s2 d' = Some row" by (rule existing_found [OF i2 mem row(4)])
  show "\<exists>s3. send cfg encode sha s2 d mid' now' = (s3, Inr (e, False)) \<and> bus_topics s3 = bus_topics s2 \<and>
      bus_messages s3 = bus_messages s2 \<and> bus_cursors s3 = bus_cursors s2"
    by (simp add: send_def d'(1) publish_def p(1) publish_locked_def found row(2,3))
  assume d2: "make_draft d2 = Inr d2'" "validate_draft_size cfg encode d2' (encode (canonical_dict d2')) = Inr ()"
    "(dr_topic d2, dr_sender_id d2, dr_idempotency_key d2) = (dr_topic d, dr_sender_id d, dr_idempotency_key d)"
    "make_draft d = Inr d1" "sha (encode (canonical_dict d2')) \<noteq> sha (encode (canonical_dict d1))"
  have "message_key row = (dr_topic d2', dr_sender_id d2', dr_idempotency_key d2')"
    using row(4) d2(3) make_draftD(2-4) [OF d2(1)] make_draftD(2-4) [OF d'(1)] by simp
  then have "existing_message s2 d2' = Some row" by (rule existing_found [OF i2 mem])
  then show "send cfg encode sha s2 d2 mid' now' =
        (s2, Inl (MessageBusConflictError ''idempotency key is already bound to a different message''))"
    using d2(2,4,5) d'(1) row(3) by (simp add: send_def d2(1) publish_def publish_locked_def)
qed

text \<open>
  Sending is idempotent. Once a draft has been accepted, sending the same draft again, after any
  further traffic, under any fresh id and at any time, returns the message created the first time
  with the flag \<open>False\<close>, and leaves topics, messages and cursors as they are. Another draft of the same
  topic, sender and idempotency key that passes the size checks but whose digest differs is refused
  with \<open>MessageBusConflictError\<close> and changes nothing.
\<close>

theorem bus_send_idempotent:
  assumes "bus_run cfg encode sha empty_bus s" "ident_ok mid"
    "send cfg encode sha s d mid now = (s1, Inr (e, True))" "bus_run cfg encode sha s1 s2"
  shows "(\<exists>s3. send cfg encode sha s2 d mid' now' = (s3, Inr (e, False)) \<and> bus_topics s3 = bus_topics s2 \<and>
      bus_messages s3 = bus_messages s2 \<and> bus_cursors s3 = bus_cursors s2) \<and>
    (\<forall>d2 d1' d2'. make_draft d = Inr d1' \<and> make_draft d2 = Inr d2' \<and>
      validate_draft_size cfg encode d2' (encode (canonical_dict d2')) = Inr () \<and>
      (dr_topic d2, dr_sender_id d2, dr_idempotency_key d2) = (dr_topic d, dr_sender_id d, dr_idempotency_key d) \<and>
      sha (encode (canonical_dict d2')) \<noteq> sha (encode (canonical_dict d1')) \<longrightarrow>
      send cfg encode sha s2 d2 mid' now' =
        (s2, Inl (MessageBusConflictError ''idempotency key is already bound to a different message'')))"
  using bus_send_idempotent_facts [OF assms] by blast

theorem bus_send_idempotent_witness:
  "\<exists>e s3. demo_send (demo_draft ''k1'' None ''hi'') ''m1'' empty_bus = (bus1, Inr (e, True)) \<and>
     demo_send (demo_draft ''k1'' None ''hi'') ''m9'' bus2 = (s3, Inr (e, False)) \<and>
     demo_send (demo_draft ''k1'' None ''other'') ''m9'' bus2 =
       (bus2, Inl (MessageBusConflictError ''idempotency key is already bound to a different message''))"
proof -
  have ok: "ident_ok ''m1''" by code_simp
  have "case snd (demo_send (demo_draft ''k1'' None ''hi'') ''m1'' empty_bus) of Inl x \<Rightarrow> False | Inr x \<Rightarrow> snd x"
    by code_simp
  then obtain e where "demo_send (demo_draft ''k1'' None ''hi'') ''m1'' empty_bus = (bus1, Inr (e, True))"
    by (cases "demo_send (demo_draft ''k1'' None ''hi'') ''m1'' empty_bus") (auto simp: bus1_def split: sum.splits)
  note first = this
  have run: "bus_run demo_cfg demo_encode (\<lambda>b. b) bus1 bus2" using bus2_step by blast
  have f: "case make_draft (demo_draft ''k1'' None ''other'') of Inl x \<Rightarrow> False | Inr d2 \<Rightarrow>
     (case make_draft (demo_draft ''k1'' None ''hi'') of Inl x \<Rightarrow> False | Inr d1 \<Rightarrow>
      validate_draft_size demo_cfg demo_encode d2 (demo_encode (canonical_dict d2)) = Inr () \<and>
      demo_encode (canonical_dict d2) \<noteq> demo_encode (canonical_dict d1))" by code_simp
  then obtain d1 d2 where d: "make_draft (demo_draft ''k1'' None ''other'') = Inr d2"
      "make_draft (demo_draft ''k1'' None ''hi'') = Inr d1"
      "validate_draft_size demo_cfg demo_encode d2 (demo_encode (canonical_dict d2)) = Inr ()"
      "demo_encode (canonical_dict d2) \<noteq> demo_encode (canonical_dict d1)"
    by (auto split: sum.splits)
  have key: "(dr_topic (demo_draft ''k1'' None ''other''), dr_sender_id (demo_draft ''k1'' None ''other''),
      dr_idempotency_key (demo_draft ''k1'' None ''other'')) =
     (dr_topic (demo_draft ''k1'' None ''hi''), dr_sender_id (demo_draft ''k1'' None ''hi''),
      dr_idempotency_key (demo_draft ''k1'' None ''hi''))" by (simp add: demo_draft_def)
  note w = bus_send_idempotent [OF rtranclp.rtrancl_refl ok first [unfolded demo_send_def] run, of "''m9''" 5]
  have "send demo_cfg demo_encode (\<lambda>b. b) bus2 (demo_draft ''k1'' None ''other'') ''m9'' 5 =
      (bus2, Inl (MessageBusConflictError ''idempotency key is already bound to a different message''))"
    using w [THEN conjunct2] d key by blast
  with first w [THEN conjunct1] show ?thesis unfolding demo_send_def by blast
qed

lemma bus_drain_exactly_once_facts:
  assumes "bus_run cfg encode sha empty_bus s" "ident_ok c" "topic_ok t" "1 \<le> n" "n \<le> 1000"
    and "length (bus_messages s) < fuel"
  shows "fst (drain (fetch_page c t n) (confirm_page c t now) fuel s) =
      map the_envelope (filter (\<lambda>m. eligible c t m \<and>
        cu_ack_sequence (cursor_locked s c t) < ms_sequence m) (bus_messages s))"
    "sorted_wrt (<) (map en_sequence (fst (drain (fetch_page c t n) (confirm_page c t now) fuel s)))"
    "receive (snd (drain (fetch_page c t n) (confirm_page c t now) fuel s)) c t n = Inr []"
proof -
  have inv: "bus_inv s" by (rule bus_reachable_inv [OF assms(1)])
  have "length (queued c t s) \<le> length (bus_messages s)" by (simp add: queued_def pending_def)
  then have "length (queued c t s) < fuel" using assms(6) by simp
  note d = bus_queue.drain_delivers [OF conjI [OF inv conjI [OF assms(2) conjI [OF assms(3) conjI [OF assms(4,5)]]]] this, of now]
  have out: "fst (drain (fetch_page c t n) (confirm_page c t now) fuel s) = map the_envelope (pending c t s)"
    using d by (simp add: queued_def)
  then show "fst (drain (fetch_page c t n) (confirm_page c t now) fuel s) =
      map the_envelope (filter (\<lambda>m. eligible c t m \<and>
        cu_ack_sequence (cursor_locked s c t) < ms_sequence m) (bus_messages s))"
    by (simp add: pending_def acked_def)
  have "map en_sequence (map the_envelope (pending c t s)) = map ms_sequence (pending c t s)"
    using bus_invD(1) [OF inv] by (auto simp: pending_def the_envelope_fields)
  with out pending_increasing [OF inv, of c t]
  show "sorted_wrt (<) (map en_sequence (fst (drain (fetch_page c t n) (confirm_page c t now) fuel s)))"
    by (simp only: sorted_wrt_map)
  from d show "receive (snd (drain (fetch_page c t n) (confirm_page c t now) fuel s)) c t n = Inr []"
    using assms(2-5) by (simp add: receive_def pull_total queued_def)
qed

text \<open>
  C5. A consumer that keeps pulling pages of \<open>n\<close> messages and acknowledging the last message of each
  receives, with as many rounds as there are messages left, exactly the messages that are addressed to
  it and lie beyond its cursor, each once, in sequence order, and then finds nothing more to pull.
\<close>

theorem bus_drain_exactly_once:
  assumes "bus_run cfg encode sha empty_bus s" "ident_ok c" "topic_ok t" "1 \<le> n" "n \<le> 1000"
    and "length (bus_messages s) < fuel"
  shows "\<exists>received s'. drain (fetch_page c t n) (confirm_page c t now) fuel s = (received, s') \<and>
      received = map the_envelope (filter (\<lambda>m. eligible c t m \<and>
        cu_ack_sequence (cursor_locked s c t) < ms_sequence m) (bus_messages s)) \<and>
      sorted_wrt (<) (map en_sequence received) \<and> receive s' c t n = Inr []"
  using bus_drain_exactly_once_facts [OF assms, of now] by (metis prod.collapse)

theorem bus_drain_exactly_once_witness:
  "\<exists>received s'. drain (fetch_page ''b'' ''t'' 1) (confirm_page ''b'' ''t'' 7) 3 bus2 = (received, s') \<and>
     map en_message_id received = [''m1'', ''m2''] \<and> receive s' ''b'' ''t'' 1 = Inr []"
proof -
  have c: "ident_ok ''b''" "topic_ok ''t''" "length (bus_messages bus2) < 3" by code_simp+
  have b: "(1 :: int) \<le> 1" "(1 :: int) \<le> 1000" by simp_all
  have v: "map en_message_id (map the_envelope (filter (\<lambda>m. eligible ''b'' ''t'' m \<and>
        cu_ack_sequence (cursor_locked bus2 ''b'' ''t'') < ms_sequence m) (bus_messages bus2))) = [''m1'', ''m2'']"
    by code_simp
  from bus_drain_exactly_once [OF bus2_run c(1,2) b c(3), of 7] v show ?thesis by (metis (no_types, lifting))
qed

lemma acked_eligible:
  assumes "bus_inv s" "acked s c t \<noteq> 0"
  shows "\<exists>m \<in> set (bus_messages s). ms_sequence m = acked s c t \<and> eligible c t m"
proof -
  obtain x where x: "find (\<lambda>x. cu_consumer_id x = c \<and> cu_topic x = t) (bus_cursors s) = Some x"
    using assms(2) by (auto simp: acked_def cursor_locked_def split: option.splits)
  from find_SomeD [OF x] have "x \<in> set (bus_cursors s)" "cu_consumer_id x = c" "cu_topic x = t" by blast+
  with bus_invD(6) [OF assms(1)] x show ?thesis by (auto simp: acked_def cursor_locked_def cursor_ok_def)
qed

lemma bus_cursor_monotone_facts:
  assumes "bus_run cfg encode sha empty_bus s" "bus_run cfg encode sha s s'" "ident_ok c" "topic_ok t"
  shows "\<exists>a a'. get_cursor s c t = Inr a \<and> get_cursor s' c t = Inr a' \<and> cu_ack_sequence a \<le> cu_ack_sequence a' \<and>
      (cu_ack_sequence a = 0 \<or> (\<exists>m \<in> set (bus_messages s). ms_sequence m = cu_ack_sequence a \<and> eligible c t m)) \<and>
      (\<forall>n now. ack s c t n now =
         Inl (MessageBusAckError ''ack sequence is not an eligible message for this consumer'') \<longleftrightarrow>
         cu_ack_sequence a < n \<and> \<not> (\<exists>m \<in> set (bus_messages s). ms_sequence m = n \<and> eligible c t m))"
    "ack s c t n now = Inr (s1, r) \<Longrightarrow>
      cu_ack_sequence (cursor_locked s1 c' t') =
        (if c' = c \<and> t' = t then max (cu_ack_sequence (cursor_locked s c t)) n
         else cu_ack_sequence (cursor_locked s c' t'))"
proof -
  have inv: "bus_inv s" by (rule bus_reachable_inv [OF assms(1)])
  have "acked s c t \<le> acked s' c t"
    using bus_cursor.reading_steps [OF assms(2) inv, of "(c, t)"] by simp
  then show "\<exists>a a'. get_cursor s c t = Inr a \<and> get_cursor s' c t = Inr a' \<and> cu_ack_sequence a \<le> cu_ack_sequence a' \<and>
      (cu_ack_sequence a = 0 \<or> (\<exists>m \<in> set (bus_messages s). ms_sequence m = cu_ack_sequence a \<and> eligible c t m)) \<and>
      (\<forall>n now. ack s c t n now =
         Inl (MessageBusAckError ''ack sequence is not an eligible message for this consumer'') \<longleftrightarrow>
         cu_ack_sequence a < n \<and> \<not> (\<exists>m \<in> set (bus_messages s). ms_sequence m = n \<and> eligible c t m))"
    using acked_eligible [OF inv, of c t] assms(3,4)
    by (auto simp: get_cursor_def bus_identifier_def bus_topic_def acked_def ack_def Let_def)
  assume "ack s c t n now = Inr (s1, r)"
  from ackD [OF this] show "cu_ack_sequence (cursor_locked s1 c' t') =
        (if c' = c \<and> t' = t then max (cu_ack_sequence (cursor_locked s c t)) n
         else cu_ack_sequence (cursor_locked s c' t'))"
    unfolding acked_def [symmetric] by (auto simp: acked_move_cursor)
qed

text \<open>
  A consumer's cursor never moves back, whatever is sent and acknowledged; it is either 0 or the
  sequence of a message that exists and is addressed to that consumer; acknowledging a sequence that
  is beyond the cursor and not such a message raises \<open>MessageBusAckError\<close>; and a successful
  acknowledgement sets the cursor to the larger of the two and leaves every other cursor alone.
\<close>

theorem bus_cursor_monotone:
  assumes "bus_run cfg encode sha empty_bus s" "bus_run cfg encode sha s s'" "ident_ok c" "topic_ok t"
  shows "(\<exists>a a'. get_cursor s c t = Inr a \<and> get_cursor s' c t = Inr a' \<and> cu_ack_sequence a \<le> cu_ack_sequence a' \<and>
      (cu_ack_sequence a = 0 \<or> (\<exists>m \<in> set (bus_messages s). ms_sequence m = cu_ack_sequence a \<and> eligible c t m)) \<and>
      (\<forall>n now. ack s c t n now =
         Inl (MessageBusAckError ''ack sequence is not an eligible message for this consumer'') \<longleftrightarrow>
         cu_ack_sequence a < n \<and> \<not> (\<exists>m \<in> set (bus_messages s). ms_sequence m = n \<and> eligible c t m))) \<and>
    (\<forall>n now s1 r. ack s c t n now = Inr (s1, r) \<longrightarrow> (\<forall>c' t'.
      cu_ack_sequence (cursor_locked s1 c' t') =
        (if c' = c \<and> t' = t then max (cu_ack_sequence (cursor_locked s c t)) n
         else cu_ack_sequence (cursor_locked s c' t'))))"
  by (intro conjI allI impI) (rule bus_cursor_monotone_facts(1) [OF assms], erule bus_cursor_monotone_facts(2) [OF assms])

theorem bus_cursor_monotone_witness:
  "\<exists>a a'. get_cursor bus2 ''b'' ''t'' = Inr a \<and> get_cursor bus3 ''b'' ''t'' = Inr a' \<and>
     cu_ack_sequence a \<le> cu_ack_sequence a' \<and> cu_ack_sequence a = 0 \<and> cu_ack_sequence a' = 1 \<and>
     cu_ack_sequence (cursor_locked bus3 ''b'' ''t'') = max (cu_ack_sequence (cursor_locked bus2 ''b'' ''t'')) 1"
proof -
  have c: "ident_ok ''b''" "topic_ok ''t''" by code_simp+
  have r: "bus_run demo_cfg demo_encode (\<lambda>b. b) bus2 bus3" using bus3_step by blast
  have "\<not> isl (ack bus2 ''b'' ''t'' 1 6)" by code_simp
  then obtain s' r' where a: "ack bus2 ''b'' ''t'' 1 6 = Inr (s', r')" by (cases "ack bus2 ''b'' ''t'' 1 6") auto
  have "en_sequence (the_envelope (bus_messages bus2 ! 0)) = 1" by code_simp
  with a have s': "s' = bus3" by (simp add: bus3_def confirm_page_def)
  have v: "case get_cursor bus2 ''b'' ''t'' of Inl x \<Rightarrow> False | Inr a \<Rightarrow> cu_ack_sequence a = 0" by code_simp
  have v': "case get_cursor bus3 ''b'' ''t'' of Inl x \<Rightarrow> False | Inr a \<Rightarrow> cu_ack_sequence a = 1" by code_simp
  show ?thesis
    using bus_cursor_monotone [OF bus2_run r c, THEN conjunct1] v v' s' a
      bus_cursor_monotone [OF bus2_run r c, THEN conjunct2, rule_format, OF a, of "''b''" "''t''"]
    by auto
qed

lemma bus_pull_never_raises_facts:
  assumes "bus_run cfg encode sha empty_bus s" "ident_ok c" "topic_ok t" "1 \<le> n" "n \<le> 1000"
  shows "\<exists>ms. pull s c t n = Inr ms \<and> length ms \<le> nat n \<and>
      (\<forall>e \<in> set ms. en_topic e = t \<and> en_recipient_id e \<in> {None, Some c} \<and>
         cu_ack_sequence (cursor_locked s c t) < en_sequence e \<and>
         \<not> has_sensitive_field (thaw_json (en_payload e)) \<and> \<not> has_sensitive_field (thaw_json (en_headers e)))"
    "ident_ok mid \<Longrightarrow> send cfg encode sha s d mid now = (s1, Inr (e, True)) \<Longrightarrow>
      normalize_json_object (dr_payload d) ''payload'' = Inr (thaw_json (en_payload e)) \<and>
      normalize_json_object (dr_headers d) ''headers'' = Inr (thaw_json (en_headers e))"
proof -
  have inv: "bus_inv s" by (rule bus_reachable_inv [OF assms(1)])
  have ok: "message_ok m \<and> eligible c t m \<and> acked s c t < ms_sequence m"
    if "m \<in> set (take (nat n) (pending c t s))" for m
    using in_set_takeD [OF that] bus_invD(1) [OF inv] by (auto simp: pending_def)
  have "en_topic e = t \<and> en_recipient_id e \<in> {None, Some c} \<and> cu_ack_sequence (cursor_locked s c t) < en_sequence e \<and>
      \<not> has_sensitive_field (thaw_json (en_payload e)) \<and> \<not> has_sensitive_field (thaw_json (en_headers e))"
    if "e \<in> the_envelope ` set (take (nat n) (pending c t s))" for e
  proof -
    from that obtain m where m: "m \<in> set (take (nat n) (pending c t s))" "e = the_envelope m" by blast
    from ok [OF m(1)] have o: "message_ok m" "eligible c t m" "acked s c t < ms_sequence m" by blast+
    then have "\<not> has_sensitive_field (ms_payload m)" "\<not> has_sensitive_field (ms_headers m)"
      by (simp_all add: message_ok_def object_ok_def)
    with o m(2) show ?thesis by (auto simp: the_envelope_fields eligible_def acked_def)
  qed
  with pull_total [OF inv assms(2-5)]
  show "\<exists>ms. pull s c t n = Inr ms \<and> length ms \<le> nat n \<and>
      (\<forall>e \<in> set ms. en_topic e = t \<and> en_recipient_id e \<in> {None, Some c} \<and>
         cu_ack_sequence (cursor_locked s c t) < en_sequence e \<and>
         \<not> has_sensitive_field (thaw_json (en_payload e)) \<and> \<not> has_sensitive_field (thaw_json (en_headers e)))"
    by simp
  assume mid: "ident_ok mid" and send: "send cfg encode sha s d mid now = (s1, Inr (e, True))"
  then obtain d' where d': "make_draft d = Inr d'" "publish cfg encode sha s d' mid now = (s1, Inr (e, True))"
    by (auto simp: send_def split: sum.splits)
  obtain k dg where row: "message_from_row (new_message d' mid k dg now) = Inr e" "1 \<le> k"
    using publish_lockedD [OF publish_created(2) [OF d'(2)]] by (auto simp: next_sequence_last)
  have m: "message_ok (new_message d' mid k dg now)" by (rule new_message_ok [OF make_draftD(1) [OF d'(1)] mid row(2)])
  then have "e = the_envelope (new_message d' mid k dg now)" using row(1) by (simp add: the_envelope_def)
  with the_envelope_fields(6,7) [OF m] make_draftD(6,7) [OF d'(1)]
  show "normalize_json_object (dr_payload d) ''payload'' = Inr (thaw_json (en_payload e)) \<and>
      normalize_json_object (dr_headers d) ''headers'' = Inr (thaw_json (en_headers e))"
    by (simp add: new_message_def)
qed

text \<open>
  A pull with valid arguments never raises, however the messages came in; every envelope it
  returns is addressed to the consumer, lies beyond its cursor, and carries JSON objects without a
  credential-shaped key at any depth. What a consumer reads is what the sender put in: the thawed
  payload of the envelope that \<open>send\<close> returns is the normalised payload of the draft.
\<close>

theorem bus_pull_never_raises:
  assumes "bus_run cfg encode sha empty_bus s" "ident_ok c" "topic_ok t" "1 \<le> n" "n \<le> 1000"
  shows "(\<exists>ms. pull s c t n = Inr ms \<and> length ms \<le> nat n \<and>
      (\<forall>e \<in> set ms. en_topic e = t \<and> en_recipient_id e \<in> {None, Some c} \<and>
         cu_ack_sequence (cursor_locked s c t) < en_sequence e \<and>
         \<not> has_sensitive_field (thaw_json (en_payload e)) \<and> \<not> has_sensitive_field (thaw_json (en_headers e)))) \<and>
    (\<forall>mid d now s1 e. ident_ok mid \<and> send cfg encode sha s d mid now = (s1, Inr (e, True)) \<longrightarrow>
      normalize_json_object (dr_payload d) ''payload'' = Inr (thaw_json (en_payload e)) \<and>
      normalize_json_object (dr_headers d) ''headers'' = Inr (thaw_json (en_headers e)))"
  using bus_pull_never_raises_facts [OF assms] by blast

theorem bus_pull_never_raises_witness:
  "\<exists>ms. pull bus3 ''b'' ''t'' 10 = Inr ms \<and> map en_message_id ms = [''m2''] \<and>
     (\<forall>e \<in> set ms. \<not> has_sensitive_field (thaw_json (en_payload e)))"
proof -
  have c: "ident_ok ''b''" "topic_ok ''t''" by code_simp+
  have r: "bus_run demo_cfg demo_encode (\<lambda>b. b) empty_bus bus3" using bus2_run bus3_step by simp
  have v: "case pull bus3 ''b'' ''t'' 10 of Inl x \<Rightarrow> False | Inr ms \<Rightarrow> map en_message_id ms = [''m2'']" by code_simp
  have b: "(1 :: int) \<le> 10" "(10 :: int) \<le> 1000" by simp_all
  from bus_pull_never_raises [OF r c b, THEN conjunct1] obtain ms where ms: "pull bus3 ''b'' ''t'' 10 = Inr ms"
    "\<forall>e \<in> set ms. \<not> has_sensitive_field (thaw_json (en_payload e))" by blast
  with v show ?thesis by (intro exI [of _ ms]) simp
qed

lemma count_bound_step:
  assumes "bus_step cfg encode sha s s'" "bus_inv s" "topic_count s t \<le> max_messages_per_topic cfg"
  shows "topic_count s' t \<le> max_messages_per_topic cfg"
  using assms(1)
proof (rule bus_stepE)
  fix mid d r now
  assume send: "send cfg encode sha s d mid now = (s', r)"
  show ?thesis
  proof (cases "make_draft d")
    case (Inr d')
    with send have p: "publish cfg encode sha s d' mid now = (s', r)" by (simp add: send_def)
    from p show ?thesis
    proof (cases rule: publish_cases)
      case (2 e created)
      from publish_lockedD [OF 2(1)] assms(3) show ?thesis
        by (elim disjE exE conjE) (auto simp: topic_count_def row_count_def add_message_def Let_def new_message_def)
    qed (use assms(3) in simp_all)
  qed (use send assms(3) in \<open>simp add: send_def\<close>)
next
  fix c t' n now r
  assume "ack s c t' n now = Inr (s', r)"
  from ackD [OF this] assms(3) show ?thesis by (auto simp: topic_count_def)
qed

lemma count_bound:
  "bus_run cfg encode sha empty_bus s \<Longrightarrow> topic_count s t \<le> max_messages_per_topic cfg"
proof (induction rule: rtranclp_induct)
  case base
  show ?case by (simp add: topic_count_def row_count_def empty_bus_def)
next
  case (step s s')
  show ?case by (rule count_bound_step [OF step(2) bus_reachable_inv [OF step(1)] step(3)])
qed

lemma bus_capacity_facts:
  assumes "bus_run cfg encode sha empty_bus s" "topic_ok t"
  shows "\<exists>n. count_topic s t = Inr n \<and> n \<le> max_messages_per_topic cfg"
    "make_draft d = Inr d' \<Longrightarrow> validate_draft_size cfg encode d' (encode (canonical_dict d')) = Inr () \<Longrightarrow>
      (\<And>m. m \<in> set (bus_messages s) \<Longrightarrow> ms_topic m = dr_topic d \<Longrightarrow>
         (ms_sender_id m, ms_idempotency_key m) \<noteq> (dr_sender_id d, dr_idempotency_key d)) \<Longrightarrow>
      count_topic s (dr_topic d) = Inr (max_messages_per_topic cfg) \<Longrightarrow>
      \<exists>s' ev. send cfg encode sha s d mid now =
          (s', Inl (MessageBusCapacityError ''topic retained-message capacity is exhausted'')) \<and>
        bus_topics s' = bus_topics s \<and> bus_messages s' = bus_messages s \<and> bus_cursors s' = bus_cursors s \<and>
        bus_events s' = bus_events s @ [ev] \<and> be_event_type ev = ''message.publish_rejected_capacity''"
proof -
  show "\<exists>n. count_topic s t = Inr n \<and> n \<le> max_messages_per_topic cfg"
    using count_bound [OF assms(1), of t] assms(2) by (simp add: count_topic_def bus_topic_def)
  assume d: "make_draft d = Inr d'" "validate_draft_size cfg encode d' (encode (canonical_dict d')) = Inr ()"
    and new: "\<And>m. m \<in> set (bus_messages s) \<Longrightarrow> ms_topic m = dr_topic d \<Longrightarrow>
         (ms_sender_id m, ms_idempotency_key m) \<noteq> (dr_sender_id d, dr_idempotency_key d)"
    and full: "count_topic s (dr_topic d) = Inr (max_messages_per_topic cfg)"
  note same = make_draftD(2-4) [OF d(1)]
  have "existing_message s d' = None" using new by (auto simp: existing_message_def find_None_iff same)
  moreover have "topic_count s (dr_topic d') = max_messages_per_topic cfg"
    using full by (simp add: count_topic_def same split: sum.splits)
  ultimately show "\<exists>s' ev. send cfg encode sha s d mid now =
          (s', Inl (MessageBusCapacityError ''topic retained-message capacity is exhausted'')) \<and>
        bus_topics s' = bus_topics s \<and> bus_messages s' = bus_messages s \<and> bus_cursors s' = bus_cursors s \<and>
        bus_events s' = bus_events s @ [ev] \<and> be_event_type ev = ''message.publish_rejected_capacity''"
    by (simp add: send_def d publish_def publish_locked_def) (simp add: bus_append_event_def)
qed

text \<open>
  A topic never holds more messages than the configured capacity. A send with a new key that
  passes the size checks when the topic is full is refused with \<open>MessageBusCapacityError\<close> and stores
  nothing, but the refusal is on record: after the rollback a second transaction appends one
  \<open>message.publish_rejected_capacity\<close> event.
\<close>

theorem bus_capacity:
  assumes "bus_run cfg encode sha empty_bus s" "topic_ok t"
  shows "(\<exists>n. count_topic s t = Inr n \<and> n \<le> max_messages_per_topic cfg) \<and>
    (\<forall>d d' mid now. make_draft d = Inr d' \<and>
      validate_draft_size cfg encode d' (encode (canonical_dict d')) = Inr () \<and>
      (\<forall>m \<in> set (bus_messages s). ms_topic m = dr_topic d \<longrightarrow>
         (ms_sender_id m, ms_idempotency_key m) \<noteq> (dr_sender_id d, dr_idempotency_key d)) \<and>
      count_topic s (dr_topic d) = Inr (max_messages_per_topic cfg) \<longrightarrow>
      (\<exists>s' ev. send cfg encode sha s d mid now =
          (s', Inl (MessageBusCapacityError ''topic retained-message capacity is exhausted'')) \<and>
        bus_topics s' = bus_topics s \<and> bus_messages s' = bus_messages s \<and> bus_cursors s' = bus_cursors s \<and>
        bus_events s' = bus_events s @ [ev] \<and> be_event_type ev = ''message.publish_rejected_capacity''))"
  using bus_capacity_facts [OF assms] by (intro conjI allI impI) blast+

theorem bus_capacity_witness:
  "(\<exists>n. count_topic bus2 ''t'' = Inr n \<and> n \<le> max_messages_per_topic demo_cfg) \<and>
   (\<exists>s' ev. demo_send (demo_draft ''k3'' None ''no'') ''m3'' bus2 =
      (s', Inl (MessageBusCapacityError ''topic retained-message capacity is exhausted'')) \<and>
    bus_events s' = bus_events bus2 @ [ev] \<and> be_event_type ev = ''message.publish_rejected_capacity'')"
proof -
  have t: "topic_ok ''t''" by code_simp
  have "case make_draft (demo_draft ''k3'' None ''no'') of Inl x \<Rightarrow> False | Inr d \<Rightarrow>
      validate_draft_size demo_cfg demo_encode d (demo_encode (canonical_dict d)) = Inr ()" by code_simp
  then obtain d' where d: "make_draft (demo_draft ''k3'' None ''no'') = Inr d'"
      "validate_draft_size demo_cfg demo_encode d' (demo_encode (canonical_dict d')) = Inr ()"
    by (auto split: sum.splits)
  have new: "list_all (\<lambda>m. (ms_sender_id m, ms_idempotency_key m) \<noteq>
      (dr_sender_id (demo_draft ''k3'' None ''no''), dr_idempotency_key (demo_draft ''k3'' None ''no''))) (bus_messages bus2)"
    by code_simp
  have full: "count_topic bus2 (dr_topic (demo_draft ''k3'' None ''no'')) = Inr (max_messages_per_topic demo_cfg)"
    by code_simp
  have new': "\<forall>m \<in> set (bus_messages bus2). ms_topic m = dr_topic (demo_draft ''k3'' None ''no'') \<longrightarrow>
      (ms_sender_id m, ms_idempotency_key m) \<noteq>
      (dr_sender_id (demo_draft ''k3'' None ''no''), dr_idempotency_key (demo_draft ''k3'' None ''no''))"
    using new by (simp add: list_all_iff)
  note w = bus_capacity [OF bus2_run t]
  show ?thesis
    unfolding demo_send_def
    using w [THEN conjunct1] w [THEN conjunct2, rule_format, of "demo_draft ''k3'' None ''no''" d' "''m3''" 5] d new' full
    by blast
qed

end
