(* ===== verification/Durable_Runs.thy ===== *)
theory Durable_Runs
  imports Py_Value
begin

text \<open>
  \<open>durability/core.py\<close>: the durable run store \<open>SQLiteDurableRunStore\<close> (optimistic transitions,
  worker leases, action receipts), the recovery coordinator and the idempotent action executor.
  The state is the five tables. Run states are strings, as in the code. \<open>encode\<close> stands for the
  canonical JSON bytes, \<open>sha\<close> for SHA-256, \<open>str_of\<close> for \<open>str(...)\<close> of a value that is not a string;
  columns holding JSON are kept decoded, a mapping as the list of its items.
\<close>

datatype durable_error =
    DurValueError string
  | RunAlreadyExistsError string
  | DurableRunNotFoundError string
  | IdempotencyRecordConflictError string
  | CompareAndSwapError string
  | InvalidTransitionError string
  | LeaseConflictError string
  | DurabilityError string
  | ActionInProgressError string
  | ActionError string string   \<comment> \<open>what the callback raised: its type and its message\<close>

section \<open>States\<close>

definition terminal_states :: "string list" where
  "terminal_states = [''completed'', ''failed'', ''blocked'', ''stopped'', ''budget_exhausted'',
     ''recovery_required'']"

definition run_transitions_table :: "(string \<times> string list) list" where
  "run_transitions_table =
    [(''queued'', [''running'', ''failed'', ''stopped'', ''recovery_required'']),
     (''running'', [''queued'', ''cancelling'', ''completed'', ''failed'', ''blocked'', ''stopped'',
        ''budget_exhausted'', ''recovery_required'']),
     (''cancelling'', [''stopped'', ''failed'', ''recovery_required'']),
     (''completed'', []), (''failed'', []), (''blocked'', []), (''stopped'', []),
     (''budget_exhausted'', []), (''recovery_required'', [])]"

definition next_states :: "string \<Rightarrow> string list" where
  "next_states state = (case map_of run_transitions_table state of None \<Rightarrow> [] | Some xs \<Rightarrow> xs)"

section \<open>Rows\<close>

record run_row =
  rn_run_id :: string
  rn_request_digest :: string
  rn_state :: string
  rn_version :: nat
  rn_recovery_attempts :: nat
  rn_created_at :: timestamp
  rn_updated_at :: timestamp
  rn_terminal_reason :: "string option"
  rn_metadata :: pval

definition run_terminal :: "run_row \<Rightarrow> bool" where
  "run_terminal r = (rn_state r \<in> set terminal_states)"

record run_transition =
  tr_run_id :: string
  tr_from_state :: "string option"
  tr_to_state :: string
  tr_version :: nat
  tr_reason :: string
  tr_actor :: string
  tr_timestamp :: timestamp
  tr_metadata :: pval

record run_lease =
  rl_run_id :: string
  rl_worker_id :: string
  rl_expires_at :: timestamp
  rl_run_version :: nat

record run_key =
  rk_key :: string
  rk_request_digest :: string
  rk_run_id :: string
  rk_created_at :: timestamp

record receipt =
  rc_action_key :: string
  rc_run_id :: string
  rc_logical_step_id :: string
  rc_tool_name :: string
  rc_arguments_digest :: string
  rc_status :: string
  rc_outcome :: "pval option"
  rc_created_at :: timestamp
  rc_updated_at :: timestamp

record reservation =
  rv_action_key :: string
  rv_created :: bool
  rv_status :: string
  rv_outcome :: "pval option"

record durable =
  runs :: "run_row list"
  history :: "run_transition list"
  leases :: "run_lease list"
  run_keys :: "run_key list"
  receipts :: "receipt list"

definition empty_durable :: durable where
  "empty_durable = \<lparr>runs = [], history = [], leases = [], run_keys = [], receipts = []\<rparr>"

section \<open>Text and metadata\<close>

definition dur_required_text :: "string \<Rightarrow> string \<Rightarrow> durable_error + string" where
  "dur_required_text value name = (let normalized = strip value in
     if normalized = [] then Inl (DurValueError (name @ '' must not be empty'')) else Inr normalized)"

definition dur_identifier :: "string \<Rightarrow> string \<Rightarrow> durable_error + string" where
  "dur_identifier value name = (case dur_required_text value name of Inl e \<Rightarrow> Inl e | Inr normalized \<Rightarrow>
     if length normalized > 200 \<or> (\<exists>c \<in> set normalized. py_space c)
     then Inl (DurValueError (name @ '' must be a compact identifier'')) else Inr normalized)"

definition dur_optional_identifier :: "string option \<Rightarrow> string \<Rightarrow> durable_error + string option" where
  "dur_optional_identifier value name = (case value of None \<Rightarrow> Inr None
   | Some v \<Rightarrow> (case dur_identifier v name of Inl e \<Rightarrow> Inl e | Inr n \<Rightarrow> Inr (Some n)))"

definition secret_markers :: "string list" where
  "secret_markers = [''api_key'', ''authorization'', ''password'', ''secret'', ''credential'']"

definition secret_key :: "string \<Rightarrow> bool" where
  "secret_key key = (let normalized = replace_char (CHR ''-'') (CHR ''_'') (map lower_char key) in
     \<exists>marker \<in> set secret_markers. contains marker normalized)"

definition key_text :: "(pval \<Rightarrow> string) \<Rightarrow> pval \<Rightarrow> string" where
  "key_text str_of k = take 100 (case k of PStr s \<Rightarrow> s | _ \<Rightarrow> str_of k)"

text \<open>\<open>_sanitize_metadata\<close>; \<open>output[key] = ...\<close> is \<open>dict_set\<close>.\<close>

function sanitize :: "(pval \<Rightarrow> string) \<Rightarrow> nat \<Rightarrow> pval \<Rightarrow> pval" where
  "sanitize str_of depth v =
    (if depth > 6 then PStr ''<max-depth>''
     else case v of
       PNone \<Rightarrow> v | PBool _ \<Rightarrow> v | PInt _ \<Rightarrow> v | PFloat _ \<Rightarrow> v | PNonFinite _ \<Rightarrow> v
     | PStr s \<Rightarrow> PStr (take 4000 s)
     | PDict kvs \<Rightarrow> PDict (fold (\<lambda>kv output.
           if secret_key (key_text str_of (fst kv)) then output
           else dict_set (PStr (key_text str_of (fst kv))) (sanitize str_of (depth + 1) (snd kv)) output)
         (take 100 kvs) [])
     | PList vs \<Rightarrow> PList (map (sanitize str_of (depth + 1)) (take 100 vs))
     | PTuple vs \<Rightarrow> PList (map (sanitize str_of (depth + 1)) (take 100 vs))
     | POther t \<Rightarrow> PStr (take 4000 (str_of v)))"
  by pat_completeness auto
termination by (relation "measure (\<lambda>(_, d, _). 7 - d)") auto

declare sanitize.simps [simp del]

definition stored_json :: "(pval \<Rightarrow> string) \<Rightarrow> pval \<Rightarrow> pval" where
  "stored_json str_of v = sanitize str_of 0 v"

section \<open>Creating and reading runs\<close>

definition fetch_run :: "durable \<Rightarrow> string \<Rightarrow> run_row option" where
  "fetch_run s run_id = find (\<lambda>r. rn_run_id r = run_id) (runs s)"

definition get_run :: "durable \<Rightarrow> string \<Rightarrow> durable_error + run_row" where
  "get_run s run_id = (case fetch_run s run_id of
     None \<Rightarrow> Inl (DurableRunNotFoundError (''unknown durable run: '' @ run_id)) | Some r \<Rightarrow> Inr r)"

definition add_history :: "run_transition \<Rightarrow> durable \<Rightarrow> durable" where
  "add_history t s = s\<lparr>history := history s @ [t]\<rparr>"

text \<open>\<open>metadata or {}\<close> is done by the caller: the argument is the mapping that is stored.\<close>

definition create_run ::
  "(pval \<Rightarrow> string) \<Rightarrow> durable \<Rightarrow> string \<Rightarrow> string \<Rightarrow> string option \<Rightarrow> pval \<Rightarrow> timestamp
     \<Rightarrow> durable_error + durable \<times> run_row \<times> bool" where
  "create_run str_of s run_id request_digest idempotency_key metadata now =
    (case dur_identifier run_id ''run_id'' of Inl e \<Rightarrow> Inl e | Inr _ \<Rightarrow>
     let dg = strip request_digest in
     if dg = [] then Inl (DurValueError ''request_digest must not be empty'')
     else case dur_optional_identifier idempotency_key ''idempotency_key'' of Inl e \<Rightarrow> Inl e | Inr key \<Rightarrow>
     let insert =
       (if fetch_run s run_id \<noteq> None then Inl (RunAlreadyExistsError (''run already exists: '' @ run_id))
        else let row = \<lparr>rn_run_id = run_id, rn_request_digest = dg, rn_state = ''queued'', rn_version = 0,
                 rn_recovery_attempts = 0, rn_created_at = now, rn_updated_at = now,
                 rn_terminal_reason = None, rn_metadata = stored_json str_of metadata\<rparr>;
               s1 = add_history \<lparr>tr_run_id = run_id, tr_from_state = None, tr_to_state = ''queued'',
                 tr_version = 0, tr_reason = ''created'', tr_actor = ''service'', tr_timestamp = now,
                 tr_metadata = PDict []\<rparr> (s\<lparr>runs := runs s @ [row]\<rparr>) in
          Inr ((case key of None \<Rightarrow> s1
                | Some k \<Rightarrow> s1\<lparr>run_keys := run_keys s1 @ [\<lparr>rk_key = k, rk_request_digest = dg,
                     rk_run_id = run_id, rk_created_at = now\<rparr>]\<rparr>), row, True)) in
     case key of
       None \<Rightarrow> insert
     | Some k \<Rightarrow> (case find (\<lambda>x. rk_key x = k) (run_keys s) of
         None \<Rightarrow> insert
       | Some x \<Rightarrow>
           if rk_request_digest x \<noteq> dg
           then Inl (IdempotencyRecordConflictError ''idempotency key belongs to another request'')
           else (case get_run s (rk_run_id x) of Inl e \<Rightarrow> Inl e | Inr r \<Rightarrow> Inr (s, r, False))))"

section \<open>Transitions\<close>

definition update_runs :: "(run_row \<Rightarrow> bool) \<Rightarrow> (run_row \<Rightarrow> run_row) \<Rightarrow> durable \<Rightarrow> durable" where
  "update_runs p f s = s\<lparr>runs := update_where p f (runs s)\<rparr>"

definition delete_leases :: "(run_lease \<Rightarrow> bool) \<Rightarrow> durable \<Rightarrow> durable" where
  "delete_leases p s = s\<lparr>leases := filter (\<lambda>l. \<not> p l) (leases s)\<rparr>"

text \<open>The writes of a successful transition: the run, the log, and the lease of a run that leaves its worker.\<close>

definition write_transition ::
  "(pval \<Rightarrow> string) \<Rightarrow> (run_row \<Rightarrow> bool) \<Rightarrow> string \<Rightarrow> string \<Rightarrow> nat \<Rightarrow> string \<Rightarrow> string \<Rightarrow> string \<Rightarrow> pval
     \<Rightarrow> bool \<Rightarrow> timestamp \<Rightarrow> durable \<Rightarrow> durable" where
  "write_transition str_of hit run_id expected_state expected_version next_state rsn act metadata
       increment now s =
    (let s1 = update_runs hit (\<lambda>r. r\<lparr>rn_state := next_state, rn_version := rn_version r + 1,
           rn_recovery_attempts := rn_recovery_attempts r + (if increment then 1 else 0),
           rn_updated_at := now,
           rn_terminal_reason := (if next_state \<in> set terminal_states then Some rsn else None)\<rparr>) s;
         s2 = add_history \<lparr>tr_run_id = run_id, tr_from_state = Some expected_state,
           tr_to_state = next_state, tr_version = expected_version + 1, tr_reason = rsn,
           tr_actor = act, tr_timestamp = now, tr_metadata = stored_json str_of metadata\<rparr> s1 in
     if next_state \<in> set terminal_states \<or> next_state = ''queued''
     then delete_leases (\<lambda>l. rl_run_id l = run_id) s2 else s2)"

definition run_transition ::
  "(pval \<Rightarrow> string) \<Rightarrow> durable \<Rightarrow> string \<Rightarrow> string \<Rightarrow> nat \<Rightarrow> string \<Rightarrow> string \<Rightarrow> string \<Rightarrow> pval \<Rightarrow> bool
     \<Rightarrow> timestamp \<Rightarrow> durable_error + durable \<times> run_row" where
  "run_transition str_of s run_id expected_state expected_version next_state reason actor metadata
       increment now =
    (if next_state \<notin> set (next_states expected_state)
     then Inl (InvalidTransitionError (''transition not allowed: '' @ expected_state @ '' -> '' @ next_state))
     else case dur_required_text reason ''reason'' of Inl e \<Rightarrow> Inl e | Inr rsn \<Rightarrow>
     case dur_required_text actor ''actor'' of Inl e \<Rightarrow> Inl e | Inr act \<Rightarrow>
     let hit = (\<lambda>r. rn_run_id r = run_id \<and> rn_state r = expected_state \<and> rn_version r = expected_version) in
     if row_count hit (runs s) \<noteq> 1
     then Inl (CompareAndSwapError (''state/version mismatch for run '' @ run_id))
     else let s' = write_transition str_of hit run_id expected_state expected_version next_state rsn act
                metadata increment now s in
       (case get_run s' run_id of Inl e \<Rightarrow> Inl e | Inr r \<Rightarrow> Inr (s', r)))"

section \<open>Worker leases\<close>

text \<open>\<open>INSERT ... ON CONFLICT(run_id) DO UPDATE\<close>.\<close>

definition upsert_lease :: "run_lease \<Rightarrow> run_lease list \<Rightarrow> run_lease list" where
  "upsert_lease l ls =
    (if \<exists>x \<in> set ls. rl_run_id x = rl_run_id l
     then update_where (\<lambda>x. rl_run_id x = rl_run_id l) (\<lambda>x. l) ls else ls @ [l])"

definition queued_runs :: "durable \<Rightarrow> run_row list" where
  "queued_runs s = sort_key (\<lambda>r. (rn_created_at r, rn_run_id r)) (filter (\<lambda>r. rn_state r = ''queued'') (runs s))"

definition write_claim :: "(run_row \<Rightarrow> bool) \<Rightarrow> run_row \<Rightarrow> string \<Rightarrow> timestamp \<Rightarrow> timestamp \<Rightarrow> durable \<Rightarrow> durable" where
  "write_claim hit row worker lease_seconds now s =
    (let s1 = update_runs hit (\<lambda>r. r\<lparr>rn_state := ''running'', rn_version := rn_version r + 1,
           rn_updated_at := now\<rparr>) s;
         s2 = s1\<lparr>leases := upsert_lease \<lparr>rl_run_id = rn_run_id row, rl_worker_id = worker,
           rl_expires_at = now + lease_seconds, rl_run_version = rn_version row + 1\<rparr> (leases s1)\<rparr> in
     add_history \<lparr>tr_run_id = rn_run_id row, tr_from_state = Some ''queued'',
       tr_to_state = ''running'', tr_version = rn_version row + 1, tr_reason = ''worker_claimed'',
       tr_actor = worker, tr_timestamp = now, tr_metadata = PDict []\<rparr> s2)"

definition run_claim_next ::
  "durable \<Rightarrow> string \<Rightarrow> timestamp \<Rightarrow> timestamp \<Rightarrow> durable_error + durable \<times> run_row option" where
  "run_claim_next s worker_id lease_seconds now =
    (case dur_required_text worker_id ''worker_id'' of Inl e \<Rightarrow> Inl e | Inr worker \<Rightarrow>
     if lease_seconds \<le> 0 then Inl (DurValueError ''lease_seconds must be positive'')
     else case queued_runs s of
       [] \<Rightarrow> Inr (s, None)
     | row # _ \<Rightarrow>
       let hit = (\<lambda>r. rn_run_id r = rn_run_id row \<and> rn_state r = ''queued'' \<and> rn_version r = rn_version row) in
       if row_count hit (runs s) \<noteq> 1 then Inl (CompareAndSwapError ''queued run changed during claim'')
       else let s' = write_claim hit row worker lease_seconds now s in
         (case get_run s' (rn_run_id row) of Inl e \<Rightarrow> Inl e | Inr r \<Rightarrow> Inr (s', Some r)))"

definition renew_lease ::
  "durable \<Rightarrow> string \<Rightarrow> string \<Rightarrow> nat \<Rightarrow> timestamp \<Rightarrow> timestamp \<Rightarrow> durable_error + durable \<times> timestamp" where
  "renew_lease s run_id worker_id expected_run_version lease_seconds now =
    (case dur_required_text worker_id ''worker_id'' of Inl e \<Rightarrow> Inl e | Inr worker \<Rightarrow>
     if lease_seconds \<le> 0 then Inl (DurValueError ''lease_seconds must be positive'')
     else case get_run s run_id of Inl e \<Rightarrow> Inl e | Inr run \<Rightarrow>
     if rn_version run \<noteq> expected_run_version \<or> rn_state run \<notin> {''running'', ''cancelling''}
     then Inl (LeaseConflictError ''run is not owned at expected version'')
     else let hit = (\<lambda>l. rl_run_id l = run_id \<and> rl_worker_id l = worker) in
       if row_count hit (leases s) \<noteq> 1 then Inl (LeaseConflictError ''worker does not own lease'')
       else Inr (s\<lparr>leases := update_where hit (\<lambda>l. l\<lparr>rl_expires_at := now + lease_seconds,
              rl_run_version := expected_run_version\<rparr>) (leases s)\<rparr>, now + lease_seconds))"

definition release_lease :: "durable \<Rightarrow> string \<Rightarrow> string \<Rightarrow> durable_error + durable \<times> bool" where
  "release_lease s run_id worker_id =
    (case dur_required_text worker_id ''worker_id'' of Inl e \<Rightarrow> Inl e | Inr worker \<Rightarrow>
     let hit = (\<lambda>l. rl_run_id l = run_id \<and> rl_worker_id l = worker) in
     Inr (delete_leases hit s, row_count hit (leases s) = 1))"

definition lease_of :: "durable \<Rightarrow> string \<Rightarrow> run_lease option" where
  "lease_of s run_id = find (\<lambda>l. rl_run_id l = run_id) (leases s)"

text \<open>The left join has one row per run: \<open>run_id\<close> is the primary key of the leases.\<close>

definition recovery_candidate :: "durable \<Rightarrow> timestamp \<Rightarrow> run_row \<Rightarrow> bool" where
  "recovery_candidate s now r = (rn_state r \<in> {''running'', ''cancelling''} \<and>
     (case lease_of s (rn_run_id r) of None \<Rightarrow> True | Some l \<Rightarrow> rl_expires_at l \<le> now))"

definition list_recovery_candidates :: "durable \<Rightarrow> timestamp \<Rightarrow> run_row list" where
  "list_recovery_candidates s now =
     sort_key (\<lambda>r. (rn_updated_at r, rn_run_id r)) (filter (recovery_candidate s now) (runs s))"

section \<open>Action receipts\<close>

definition make_action_key ::
  "(pval \<Rightarrow> string) \<Rightarrow> (string \<Rightarrow> string) \<Rightarrow> string \<Rightarrow> string \<Rightarrow> string \<Rightarrow> string \<Rightarrow> durable_error + string" where
  "make_action_key encode sha run_id logical_step_id tool_name arguments_digest =
    (case dur_required_text run_id ''run_id'' of Inl e \<Rightarrow> Inl e | Inr r \<Rightarrow>
     case dur_required_text logical_step_id ''logical_step_id'' of Inl e \<Rightarrow> Inl e | Inr l \<Rightarrow>
     case dur_required_text tool_name ''tool_name'' of Inl e \<Rightarrow> Inl e | Inr t \<Rightarrow>
     Inr (''act-'' @ sha (encode (PDict [(PStr ''run_id'', PStr r), (PStr ''logical_step_id'', PStr l),
            (PStr ''tool_name'', PStr t), (PStr ''arguments_digest'', PStr arguments_digest)]))))"

definition arguments_digest :: "(pval \<Rightarrow> string) \<Rightarrow> (pval \<Rightarrow> string) \<Rightarrow> (string \<Rightarrow> string) \<Rightarrow> pval \<Rightarrow> string" where
  "arguments_digest str_of encode sha arguments = sha (encode (stored_json str_of arguments))"

definition fetch_receipt :: "durable \<Rightarrow> string \<Rightarrow> receipt option" where
  "fetch_receipt s key = find (\<lambda>x. rc_action_key x = key) (receipts s)"

text \<open>
  The insertion fails with an integrity error exactly when the primary key is taken: the run exists,
  by the read before it, and runs are never deleted.
\<close>

definition reserve_action ::
  "(pval \<Rightarrow> string) \<Rightarrow> (pval \<Rightarrow> string) \<Rightarrow> (string \<Rightarrow> string) \<Rightarrow> durable \<Rightarrow> string \<Rightarrow> string \<Rightarrow> string \<Rightarrow> pval
     \<Rightarrow> timestamp \<Rightarrow> durable_error + durable \<times> reservation" where
  "reserve_action str_of encode sha s run_id logical_step_id tool_name arguments now =
    (case get_run s run_id of Inl e \<Rightarrow> Inl e | Inr _ \<Rightarrow>
     let dg = arguments_digest str_of encode sha arguments in
     case make_action_key encode sha run_id logical_step_id tool_name dg of Inl e \<Rightarrow> Inl e | Inr key \<Rightarrow>
     case dur_required_text logical_step_id ''logical_step_id'' of Inl e \<Rightarrow> Inl e | Inr step \<Rightarrow>
     case dur_required_text tool_name ''tool_name'' of Inl e \<Rightarrow> Inl e | Inr tool \<Rightarrow>
     case fetch_receipt s key of
       None \<Rightarrow> Inr (s\<lparr>receipts := receipts s @ [\<lparr>rc_action_key = key, rc_run_id = run_id,
           rc_logical_step_id = step, rc_tool_name = tool, rc_arguments_digest = dg,
           rc_status = ''pending'', rc_outcome = None, rc_created_at = now, rc_updated_at = now\<rparr>]\<rparr>,
         \<lparr>rv_action_key = key, rv_created = True, rv_status = ''pending'', rv_outcome = None\<rparr>)
     | Some x \<Rightarrow> Inr (s, \<lparr>rv_action_key = key, rv_created = False, rv_status = rc_status x,
         rv_outcome = rc_outcome x\<rparr>))"

definition settle_receipt :: "string \<Rightarrow> string \<Rightarrow> pval \<Rightarrow> timestamp \<Rightarrow> durable \<Rightarrow> durable" where
  "settle_receipt key status outcome now s =
     s\<lparr>receipts := update_where (\<lambda>x. rc_action_key x = key \<and> rc_status x = ''pending'')
        (\<lambda>x. x\<lparr>rc_status := status, rc_outcome := Some outcome, rc_updated_at := now\<rparr>) (receipts s)\<rparr>"

definition complete_action ::
  "(pval \<Rightarrow> string) \<Rightarrow> durable \<Rightarrow> string \<Rightarrow> pval \<Rightarrow> timestamp \<Rightarrow> durable_error + durable \<times> reservation" where
  "complete_action str_of s key outcome now =
    (case fetch_receipt s key of
       None \<Rightarrow> Inl (DurabilityError (''unknown action receipt: '' @ key))
     | Some x \<Rightarrow>
         if rc_status x = ''completed''
         then Inr (s, \<lparr>rv_action_key = key, rv_created = False, rv_status = ''completed'', rv_outcome = rc_outcome x\<rparr>)
         else if rc_status x \<noteq> ''pending'' then Inl (DurabilityError ''action receipt is not pending'')
         else Inr (settle_receipt key ''completed'' (stored_json str_of outcome) now s,
                \<lparr>rv_action_key = key, rv_created = False, rv_status = ''completed'',
                 rv_outcome = Some (stored_json str_of outcome)\<rparr>))"

definition fail_action ::
  "(pval \<Rightarrow> string) \<Rightarrow> durable \<Rightarrow> string \<Rightarrow> string \<Rightarrow> string \<Rightarrow> timestamp \<Rightarrow> durable_error + durable \<times> reservation" where
  "fail_action str_of s key error_type msg now =
    (case dur_required_text error_type ''error_type'' of Inl e \<Rightarrow> Inl e | Inr ty \<Rightarrow>
     case dur_required_text msg ''message'' of Inl e \<Rightarrow> Inl e | Inr m \<Rightarrow>
     let outcome = PDict [(PStr ''error_type'', PStr (take 120 ty)), (PStr ''message'', PStr (take 500 m))] in
     if row_count (\<lambda>x. rc_action_key x = key \<and> rc_status x = ''pending'') (receipts s) \<noteq> 1
     then Inl (DurabilityError ''action receipt is not pending'')
     else Inr (settle_receipt key ''failed'' (stored_json str_of outcome) now s,
            \<lparr>rv_action_key = key, rv_created = False, rv_status = ''failed'', rv_outcome = Some outcome\<rparr>))"

definition action_receipt_count :: "durable \<Rightarrow> string \<Rightarrow> nat" where
  "action_receipt_count s run_id = row_count (\<lambda>x. rc_run_id x = run_id) (receipts s)"

definition run_history :: "durable \<Rightarrow> string \<Rightarrow> run_transition list" where
  "run_history s run_id = filter (\<lambda>t. tr_run_id t = run_id) (history s)"

section \<open>Recovery\<close>

record recovery_decision =
  rd_action :: string
  rd_reason :: string
  rd_policy_id :: string

record reconciliation =
  ri_run_id :: string
  ri_previous_state :: string
  ri_next_state :: string
  ri_reason :: string
  ri_policy_id :: string
  ri_applied :: bool

definition decision :: "string \<Rightarrow> string \<Rightarrow> string \<Rightarrow> recovery_decision" where
  "decision action reason policy_id = \<lparr>rd_action = action, rd_reason = reason, rd_policy_id = policy_id\<rparr>"

definition default_policy :: "run_row \<Rightarrow> nat \<Rightarrow> recovery_decision" where
  "default_policy run receipt_count =
    (if run_terminal run then decision ''none'' ''already_terminal'' ''default-v1''
     else if rn_state run = ''running'' then
       (if receipt_count \<noteq> 0 then decision ''manual'' ''external_action_receipt_present'' ''default-v1''
        else if rn_recovery_attempts run = 0
        then decision ''requeue'' ''no_external_action_and_first_recovery'' ''default-v1''
        else decision ''manual'' ''automatic_recovery_budget_exhausted'' ''default-v1'')
     else if rn_state run = ''cancelling''
     then decision ''manual'' ''cancellation_outcome_uncertain'' ''default-v1''
     else decision ''none'' ''state_not_reconciled'' ''default-v1'')"

text \<open>
  One round of the loop of \<open>reconcile\<close>. A policy is a function of the run and its receipt count whose
  exceptions are the left results (the name of their type); an error of \<open>transition\<close> other than a lost
  compare-and-swap ends the loop. \<open>now\<close> is the clock reading of the transition.
\<close>

definition reconcile_one ::
  "(pval \<Rightarrow> string) \<Rightarrow> string \<Rightarrow> (run_row \<Rightarrow> nat \<Rightarrow> string + recovery_decision) \<Rightarrow> durable \<Rightarrow> run_row \<Rightarrow> timestamp
     \<Rightarrow> durable_error + durable \<times> reconciliation" where
  "reconcile_one str_of policy_id policy s run now =
    (let d = (case policy run (action_receipt_count s (rn_run_id run)) of
         Inl ty \<Rightarrow> decision ''manual'' (''policy_error:'' @ ty) policy_id | Inr d \<Rightarrow> d);
         item = (\<lambda>next reason applied. \<lparr>ri_run_id = rn_run_id run, ri_previous_state = rn_state run,
            ri_next_state = next, ri_reason = reason, ri_policy_id = rd_policy_id d, ri_applied = applied\<rparr>) in
     if rd_action d = ''none'' then Inr (s, item (rn_state run) (rd_reason d) False)
     else let next = (if rd_action d = ''requeue'' then ''queued'' else ''recovery_required'') in
       (case run_transition str_of s (rn_run_id run) (rn_state run) (rn_version run) next (rd_reason d)
               (''recovery:'' @ rd_policy_id d) (PDict [(PStr ''policy_id'', PStr (rd_policy_id d))])
               (rd_action d = ''requeue'') now of
          Inl (CompareAndSwapError m) \<Rightarrow> Inr (s, item (rn_state run) ''concurrent_reconciliation'' False)
        | Inl e \<Rightarrow> Inl e
        | Inr (s', _) \<Rightarrow> Inr (s', item next (rd_reason d) True)))"

fun reconcile_loop ::
  "(pval \<Rightarrow> string) \<Rightarrow> string \<Rightarrow> (run_row \<Rightarrow> nat \<Rightarrow> string + recovery_decision) \<Rightarrow> (string \<Rightarrow> timestamp) \<Rightarrow> durable
     \<Rightarrow> run_row list \<Rightarrow> durable \<times> (durable_error + reconciliation list)" where
  "reconcile_loop str_of policy_id policy clk s [] = (s, Inr [])"
| "reconcile_loop str_of policy_id policy clk s (run # rest) =
    (case reconcile_one str_of policy_id policy s run (clk (rn_run_id run)) of
       Inl e \<Rightarrow> (s, Inl e)
     | Inr (s', item) \<Rightarrow> (case reconcile_loop str_of policy_id policy clk s' rest of
         (s'', Inl e) \<Rightarrow> (s'', Inl e) | (s'', Inr items) \<Rightarrow> (s'', Inr (item # items))))"

definition reconcile ::
  "(pval \<Rightarrow> string) \<Rightarrow> string \<Rightarrow> (run_row \<Rightarrow> nat \<Rightarrow> string + recovery_decision) \<Rightarrow> (string \<Rightarrow> timestamp) \<Rightarrow> durable
     \<Rightarrow> timestamp \<Rightarrow> durable \<times> (durable_error + reconciliation list)" where
  "reconcile str_of policy_id policy clk s now =
     reconcile_loop str_of policy_id policy clk s (list_recovery_candidates s now)"

section \<open>The idempotent executor\<close>

text \<open>What the side-effecting callback does, and the two halves of \<open>execute\<close> around the call of it.\<close>

datatype action_result = ActionReturns pval | ActionRaises string string

datatype begun = Cached pval | Call string | Refused durable_error

definition execute_begin ::
  "(pval \<Rightarrow> string) \<Rightarrow> (pval \<Rightarrow> string) \<Rightarrow> (string \<Rightarrow> string) \<Rightarrow> durable \<Rightarrow> string \<Rightarrow> string \<Rightarrow> string \<Rightarrow> pval
     \<Rightarrow> timestamp \<Rightarrow> durable \<times> begun" where
  "execute_begin str_of encode sha s run_id logical_step_id tool_name arguments now =
    (case reserve_action str_of encode sha s run_id logical_step_id tool_name arguments now of
       Inl e \<Rightarrow> (s, Refused e)
     | Inr (s', rv) \<Rightarrow>
         if \<not> rv_created rv then
           (case rv_outcome rv of
              Some outcome \<Rightarrow> if rv_status rv = ''completed'' then (s', Cached outcome)
                else (s', Refused (ActionInProgressError (''action already reserved with status='' @ rv_status rv)))
            | None \<Rightarrow> (s', Refused (ActionInProgressError (''action already reserved with status='' @ rv_status rv))))
         else (s', Call (rv_action_key rv)))"

definition execute_end ::
  "(pval \<Rightarrow> string) \<Rightarrow> durable \<Rightarrow> string \<Rightarrow> action_result \<Rightarrow> timestamp \<Rightarrow> durable \<times> (durable_error + pval)" where
  "execute_end str_of s key result now =
    (case result of
       ActionRaises ty msg \<Rightarrow> (case fail_action str_of s key ty msg now of
           Inl e \<Rightarrow> (s, Inl e) | Inr (s', _) \<Rightarrow> (s', Inl (ActionError ty msg)))
     | ActionReturns outcome \<Rightarrow> (case complete_action str_of s key outcome now of
           Inl e \<Rightarrow> (s, Inl e)
         | Inr (s', rv) \<Rightarrow> (s', Inr (case rv_outcome rv of None \<Rightarrow> PDict [] | Some v \<Rightarrow> v))))"

definition execute ::
  "(pval \<Rightarrow> string) \<Rightarrow> (pval \<Rightarrow> string) \<Rightarrow> (string \<Rightarrow> string) \<Rightarrow> durable \<Rightarrow> string \<Rightarrow> string \<Rightarrow> string \<Rightarrow> pval
     \<Rightarrow> action_result \<Rightarrow> timestamp \<Rightarrow> timestamp \<Rightarrow> durable \<times> (durable_error + pval)" where
  "execute str_of encode sha s run_id logical_step_id tool_name arguments action now now' =
    (case execute_begin str_of encode sha s run_id logical_step_id tool_name arguments now of
       (s', Cached outcome) \<Rightarrow> (s', Inr outcome)
     | (s', Refused e) \<Rightarrow> (s', Inl e)
     | (s', Call key) \<Rightarrow> execute_end str_of s' key action now')"

end
