(* ===== verification/Durable_Inv.thy ===== *)
theory Durable_Inv
  imports Durable_Runs Interfaces
begin

text \<open>
  The invariant of the durable run store: the transition log replays to the current state of every
  run, leases belong to live runs, receipts are pending exactly until they have an outcome. Every
  operation preserves it; \<open>durable_step\<close> collects the transactions.
\<close>

section \<open>The invariant\<close>

fun follows :: "string option \<Rightarrow> run_transition list \<Rightarrow> bool" where
  "follows prev [] = True"
| "follows prev (t # ts) = (tr_from_state t = prev \<and>
     (case prev of None \<Rightarrow> tr_to_state t = ''queued'' | Some p \<Rightarrow> tr_to_state t \<in> set (next_states p)) \<and>
     follows (Some (tr_to_state t)) ts)"

lemma follows_append:
  "follows prev (ts @ [t]) \<longleftrightarrow> follows prev ts \<and>
     follows (if ts = [] then prev else Some (tr_to_state (last ts))) [t]"
  by (induction prev ts rule: follows.induct) auto

definition history_ok :: "durable \<Rightarrow> run_row \<Rightarrow> bool" where
  "history_ok s r \<longleftrightarrow> follows None (run_history s (rn_run_id r)) \<and>
     map tr_version (run_history s (rn_run_id r)) = [0 ..< Suc (rn_version r)] \<and>
     tr_to_state (last (run_history s (rn_run_id r))) = rn_state r"

definition receipt_ok :: "receipt \<Rightarrow> bool" where
  "receipt_ok x \<longleftrightarrow> rc_status x \<in> {''pending'', ''completed'', ''failed''} \<and>
     (rc_outcome x = None \<longleftrightarrow> rc_status x = ''pending'')"

definition live_states :: "string set" where
  "live_states = {''running'', ''cancelling''}"

definition durable_inv :: "durable \<Rightarrow> bool" where
  "durable_inv s \<longleftrightarrow>
     distinct (map rn_run_id (runs s)) \<and>
     (\<forall>r \<in> set (runs s). history_ok s r \<and> (rn_terminal_reason r \<noteq> None) = run_terminal r) \<and>
     (\<forall>t \<in> set (history s). tr_run_id t \<in> rn_run_id ` set (runs s)) \<and>
     distinct (map rl_run_id (leases s)) \<and>
     (\<forall>l \<in> set (leases s). \<exists>r \<in> set (runs s). rn_run_id r = rl_run_id l \<and> rn_state r \<in> live_states) \<and>
     distinct (map rk_key (run_keys s)) \<and>
     (\<forall>k \<in> set (run_keys s). \<exists>r \<in> set (runs s). rn_run_id r = rk_run_id k \<and> rn_request_digest r = rk_request_digest k) \<and>
     distinct (map rc_action_key (receipts s)) \<and>
     (\<forall>x \<in> set (receipts s). receipt_ok x \<and> rc_run_id x \<in> rn_run_id ` set (runs s))"

lemma durable_invD:
  assumes "durable_inv s"
  shows "distinct (map rn_run_id (runs s))" "\<And>r. r \<in> set (runs s) \<Longrightarrow> history_ok s r"
    "\<And>r. r \<in> set (runs s) \<Longrightarrow> (rn_terminal_reason r \<noteq> None) = run_terminal r"
    "\<And>t. t \<in> set (history s) \<Longrightarrow> tr_run_id t \<in> rn_run_id ` set (runs s)"
    "distinct (map rl_run_id (leases s))"
    "\<And>l. l \<in> set (leases s) \<Longrightarrow> \<exists>r \<in> set (runs s). rn_run_id r = rl_run_id l \<and> rn_state r \<in> live_states"
    "distinct (map rk_key (run_keys s))"
    "\<And>k. k \<in> set (run_keys s) \<Longrightarrow>
       \<exists>r \<in> set (runs s). rn_run_id r = rk_run_id k \<and> rn_request_digest r = rk_request_digest k"
    "distinct (map rc_action_key (receipts s))" "\<And>x. x \<in> set (receipts s) \<Longrightarrow> receipt_ok x"
    "\<And>x. x \<in> set (receipts s) \<Longrightarrow> rc_run_id x \<in> rn_run_id ` set (runs s)"
  using assms unfolding durable_inv_def by blast+

lemma fetch_run_iff:
  assumes "durable_inv s"
  shows "fetch_run s i = Some r \<longleftrightarrow> r \<in> set (runs s) \<and> rn_run_id r = i"
proof
  show "r \<in> set (runs s) \<and> rn_run_id r = i" if "fetch_run s i = Some r"
    using find_SomeD [OF that [unfolded fetch_run_def]] .
  show "fetch_run s i = Some r" if r: "r \<in> set (runs s) \<and> rn_run_id r = i"
    using find_key_Some [OF durable_invD(1) [OF assms], of r] r by (auto simp: fetch_run_def)
qed

lemma fetch_run_None: "fetch_run s i = None \<longleftrightarrow> i \<notin> rn_run_id ` set (runs s)"
  by (auto simp: fetch_run_def find_None_iff)

lemma lease_of_iff:
  assumes "durable_inv s"
  shows "lease_of s i = Some l \<longleftrightarrow> l \<in> set (leases s) \<and> rl_run_id l = i"
proof
  show "l \<in> set (leases s) \<and> rl_run_id l = i" if "lease_of s i = Some l"
    using find_SomeD [OF that [unfolded lease_of_def]] .
  show "lease_of s i = Some l" if r: "l \<in> set (leases s) \<and> rl_run_id l = i"
    using find_key_Some [OF durable_invD(5) [OF assms], of l] r by (auto simp: lease_of_def)
qed

lemma fetch_receipt_iff:
  assumes "durable_inv s"
  shows "fetch_receipt s k = Some x \<longleftrightarrow> x \<in> set (receipts s) \<and> rc_action_key x = k"
proof
  show "x \<in> set (receipts s) \<and> rc_action_key x = k" if "fetch_receipt s k = Some x"
    using find_SomeD [OF that [unfolded fetch_receipt_def]] .
  show "fetch_receipt s k = Some x" if r: "x \<in> set (receipts s) \<and> rc_action_key x = k"
    using find_key_Some [OF durable_invD(9) [OF assms], of x] r by (auto simp: fetch_receipt_def)
qed

lemma fetch_receipt_None: "fetch_receipt s k = None \<longleftrightarrow> k \<notin> rc_action_key ` set (receipts s)"
  by (auto simp: fetch_receipt_def find_None_iff)

lemma durable_inv_empty: "durable_inv empty_durable"
  by (simp add: durable_inv_def empty_durable_def)

section \<open>Moving one run\<close>

text \<open>The common effect of \<open>transition\<close> and \<open>claim_next\<close> on the rows of runs and the log.\<close>

definition move_run :: "run_row \<Rightarrow> run_transition \<Rightarrow> durable \<Rightarrow> durable" where
  "move_run r' t s = s\<lparr>runs := update_where (\<lambda>x. rn_run_id x = rn_run_id r') (\<lambda>x. r') (runs s),
     history := history s @ [t]\<rparr>"

lemma move_run_fields [simp]:
  "leases (move_run r' t s) = leases s" "run_keys (move_run r' t s) = run_keys s"
  "receipts (move_run r' t s) = receipts s" "history (move_run r' t s) = history s @ [t]"
  "map rn_run_id (runs (move_run r' t s)) = map rn_run_id (runs s)"
  by (auto simp: move_run_def update_where_def)

lemma move_run_ids: "rn_run_id ` set (runs (move_run r' t s)) = rn_run_id ` set (runs s)"
  using move_run_fields(5) [of r' t s] by (metis list.set_map)

lemma move_run_mem:
  "x \<in> set (runs (move_run r' t s)) \<longleftrightarrow>
     (x = r' \<and> rn_run_id r' \<in> rn_run_id ` set (runs s)) \<or> (x \<in> set (runs s) \<and> rn_run_id x \<noteq> rn_run_id r')"
proof -
  have "rn_run_id r' \<in> rn_run_id ` set (runs s)" if "q \<in> set (runs s)" "rn_run_id q = rn_run_id r'" for q
    using that by (metis imageI)
  then show ?thesis by (auto simp: move_run_def set_update_where)
qed

definition moves :: "run_row \<Rightarrow> run_row \<Rightarrow> run_transition \<Rightarrow> bool" where
  "moves r r' t \<longleftrightarrow> rn_run_id r' = rn_run_id r \<and> rn_request_digest r' = rn_request_digest r \<and>
     rn_state r' \<in> set (next_states (rn_state r)) \<and> rn_version r' = Suc (rn_version r) \<and>
     (rn_terminal_reason r' \<noteq> None) = run_terminal r' \<and>
     tr_run_id t = rn_run_id r \<and> tr_from_state t = Some (rn_state r) \<and> tr_to_state t = rn_state r' \<and>
     tr_version t = rn_version r'"

lemma run_history_append: "run_history (s\<lparr>history := history s @ [t]\<rparr>) i =
    run_history s i @ (if tr_run_id t = i then [t] else [])"
  by (simp add: run_history_def)

lemma run_history_move: "run_history (move_run r' t s) i =
    run_history s i @ (if tr_run_id t = i then [t] else [])"
  by (simp add: run_history_def)

lemma history_nonempty: "history_ok s r \<Longrightarrow> run_history s (rn_run_id r) \<noteq> []"
  by (auto simp: history_ok_def)

lemma history_ok_move:
  assumes inv: "durable_inv s" and r: "r \<in> set (runs s)" and m: "moves r r' t"
    and x: "x \<in> set (runs (move_run r' t s))"
  shows "history_ok (move_run r' t s) x"
proof (cases "rn_run_id x = rn_run_id r'")
  case True
  with x have x: "x = r'" by (auto simp: move_run_mem)
  note h = durable_invD(2) [OF inv r]
  have ids: "rn_run_id r' = rn_run_id r" "tr_run_id t = rn_run_id r" using m by (simp_all add: moves_def)
  have "run_history (move_run r' t s) (rn_run_id x) = run_history s (rn_run_id r) @ [t]"
    unfolding x by (simp add: run_history_move ids)
  then show ?thesis
    using h history_nonempty [OF h] m unfolding x
    by (simp add: history_ok_def follows_append moves_def)
next
  case False
  with x have "x \<in> set (runs s)" by (auto simp: move_run_mem)
  then have "history_ok s x" by (rule durable_invD(2) [OF inv])
  moreover have "tr_run_id t \<noteq> rn_run_id x" using False m by (auto simp: moves_def)
  ultimately show ?thesis by (simp add: history_ok_def run_history_move)
qed

text \<open>A move keeps the invariant for any leases that belong to runs that are still live.\<close>

lemma inv_move:
  assumes inv: "durable_inv s" and r: "r \<in> set (runs s)" and m: "moves r r' t"
    and ls: "distinct (map rl_run_id ls)"
      "\<And>l. l \<in> set ls \<Longrightarrow> (rl_run_id l = rn_run_id r \<and> rn_state r' \<in> live_states) \<or>
         (rl_run_id l \<noteq> rn_run_id r \<and> l \<in> set (leases s))"
  shows "durable_inv ((move_run r' t s)\<lparr>leases := ls\<rparr>)"
proof -
  let ?s = "move_run r' t s"
  have id: "rn_run_id r' = rn_run_id r" "rn_request_digest r' = rn_request_digest r" "tr_run_id t = rn_run_id r"
    using m by (simp_all add: moves_def)
  have r': "r' \<in> set (runs ?s)" using r id by (auto simp: move_run_mem)
  have "history_ok ?s x \<and> (rn_terminal_reason x \<noteq> None) = run_terminal x" if "x \<in> set (runs ?s)" for x
    using history_ok_move [OF inv r m that] that durable_invD(3) [OF inv] m by (auto simp: move_run_mem moves_def)
  moreover have "history_ok (?s\<lparr>leases := ls\<rparr>) = history_ok ?s"
    by (simp add: fun_eq_iff history_ok_def run_history_def)
  moreover have "\<exists>x \<in> set (runs ?s). rn_run_id x = rl_run_id l \<and> rn_state x \<in> live_states" if "l \<in> set ls" for l
    using ls(2) [OF that]
  proof (elim disjE conjE)
    assume "rl_run_id l = rn_run_id r" "rn_state r' \<in> live_states"
    then show ?thesis using r' id by auto
  next
    assume l: "rl_run_id l \<noteq> rn_run_id r" "l \<in> set (leases s)"
    from durable_invD(6) [OF inv l(2)] obtain x where "x \<in> set (runs s)" "rn_run_id x = rl_run_id l" "rn_state x \<in> live_states"
      by blast
    with l(1) id have "x \<in> set (runs ?s)" by (auto simp: move_run_mem)
    with \<open>rn_run_id x = rl_run_id l\<close> \<open>rn_state x \<in> live_states\<close> show ?thesis by blast
  qed
  moreover have "\<exists>x \<in> set (runs ?s). rn_run_id x = rk_run_id k \<and> rn_request_digest x = rk_request_digest k"
    if "k \<in> set (run_keys s)" for k
  proof -
    from durable_invD(8) [OF inv that] obtain x where x: "x \<in> set (runs s)" "rn_run_id x = rk_run_id k"
      "rn_request_digest x = rk_request_digest k" by blast
    show ?thesis
    proof (cases "rn_run_id x = rn_run_id r")
      case True
      then have "x = r" by (rule distinct_map_eqD [OF durable_invD(1) [OF inv] x(1) r])
      with x id r' show ?thesis by auto
    next
      case False
      with x id show ?thesis by (auto simp: move_run_mem)
    qed
  qed
  moreover have "tr_run_id u \<in> rn_run_id ` set (runs s)" if "u \<in> set (history s @ [t])" for u
    using that durable_invD(4) [OF inv] r id(3) by auto
  ultimately show ?thesis
    using durable_invD(1,7,9,10,11) [OF inv] ls(1) move_run_ids [of r' t s]
    unfolding durable_inv_def by (simp del: list.map)
qed

section \<open>Transitions and claims\<close>

lemma terminal_states_next: "t \<in> set terminal_states \<Longrightarrow> next_states t = []"
  by (auto simp: terminal_states_def next_states_def run_transitions_table_def)

lemma next_states_cases:
  assumes "b \<in> set (next_states a)"
  shows "b \<in> set terminal_states \<or> b = ''queued'' \<or> b \<in> live_states"
proof -
  have "list_all (\<lambda>(a, bs). list_all (\<lambda>b. b \<in> set terminal_states \<or> b = ''queued'' \<or> b = ''running'' \<or> b = ''cancelling'') bs)
      run_transitions_table" by code_simp
  moreover from assms obtain bs where "map_of run_transitions_table a = Some bs" "b \<in> set bs"
    by (cases "map_of run_transitions_table a") (auto simp: next_states_def)
  ultimately show ?thesis by (auto dest!: map_of_SomeD simp: list_all_iff live_states_def)
qed

lemma required_textD: "dur_required_text v name = Inr w \<Longrightarrow> w = strip v \<and> w \<noteq> []"
  by (auto simp: dur_required_text_def Let_def split: if_splits)

lemma required_text_error: "dur_required_text v name = Inl e \<Longrightarrow> e = DurValueError (name @ '' must not be empty'')"
  by (auto simp: dur_required_text_def Let_def split: if_splits)

definition transition_result :: "(pval \<Rightarrow> string) \<Rightarrow> run_row \<Rightarrow> string \<Rightarrow> string \<Rightarrow> string \<Rightarrow> pval \<Rightarrow> bool \<Rightarrow> timestamp
    \<Rightarrow> run_row \<times> run_transition" where
  "transition_result str_of r next rsn act metadata increment now =
    (r\<lparr>rn_state := next, rn_version := rn_version r + 1,
        rn_recovery_attempts := rn_recovery_attempts r + (if increment then 1 else 0), rn_updated_at := now,
        rn_terminal_reason := (if next \<in> set terminal_states then Some rsn else None)\<rparr>,
     \<lparr>tr_run_id = rn_run_id r, tr_from_state = Some (rn_state r), tr_to_state = next,
      tr_version = rn_version r + 1, tr_reason = rsn, tr_actor = act, tr_timestamp = now,
      tr_metadata = stored_json str_of metadata\<rparr>)"

definition after_transition :: "string \<Rightarrow> run_row \<Rightarrow> run_transition \<Rightarrow> durable \<Rightarrow> durable" where
  "after_transition next r' t s = (if next \<in> set terminal_states \<or> next = ''queued''
     then delete_leases (\<lambda>l. rl_run_id l = rn_run_id r') (move_run r' t s) else move_run r' t s)"

lemma transition_moves:
  "next \<in> set (next_states (rn_state r)) \<Longrightarrow>
   moves r (fst (transition_result str_of r next rsn act md inc now)) (snd (transition_result str_of r next rsn act md inc now))"
  by (simp add: moves_def transition_result_def run_terminal_def)

lemma fetch_run_move:
  assumes "durable_inv s" "r \<in> set (runs s)" "moves r r' t"
  shows "fetch_run (move_run r' t s) i = (if i = rn_run_id r then Some r' else fetch_run s i)"
proof -
  have id: "rn_run_id r' = rn_run_id r" using assms(3) by (simp add: moves_def)
  have f: "find (\<lambda>x. rn_run_id x = i) (runs (move_run r' t s)) =
      map_option (\<lambda>x. if rn_run_id x = rn_run_id r then r' else x) (find (\<lambda>x. rn_run_id x = i) (runs s))"
  proof (induction "runs s" arbitrary: s)
    case Nil
    then show ?case by (simp add: move_run_def update_where_def)
  next
    case (Cons a as)
    have "find (\<lambda>x. rn_run_id x = i) (update_where (\<lambda>x. rn_run_id x = rn_run_id r') (\<lambda>x. r') as) =
       map_option (\<lambda>x. if rn_run_id x = rn_run_id r then r' else x) (find (\<lambda>x. rn_run_id x = i) as)"
      using Cons(1) [of "s\<lparr>runs := as\<rparr>"] by (simp add: move_run_def)
    with Cons(2) [symmetric] id show ?case by (auto simp: move_run_def update_where_def)
  qed
  show ?thesis
  proof (cases "i = rn_run_id r")
    case True
    with assms(1,2) have "find (\<lambda>x. rn_run_id x = i) (runs s) = Some r"
      using fetch_run_iff [OF assms(1), of i r] by (simp add: fetch_run_def)
    with f True show ?thesis by (simp add: fetch_run_def)
  next
    case False
    then have "map_option (\<lambda>x. if rn_run_id x = rn_run_id r then r' else x) (find (\<lambda>x. rn_run_id x = i) (runs s)) =
        find (\<lambda>x. rn_run_id x = i) (runs s)"
      by (cases "find (\<lambda>x. rn_run_id x = i) (runs s)") (auto dest!: find_SomeD)
    with f False show ?thesis by (simp add: fetch_run_def)
  qed
qed

text \<open>The exact behaviour of \<open>transition\<close> in a store that satisfies the invariant.\<close>

lemma run_transition_eq:
  assumes inv: "durable_inv s"
  shows "run_transition str_of s i expected v next reason actor md inc now =
    (if next \<notin> set (next_states expected)
     then Inl (InvalidTransitionError (''transition not allowed: '' @ expected @ '' -> '' @ next))
     else if strip reason = [] then Inl (DurValueError (''reason'' @ '' must not be empty''))
     else if strip actor = [] then Inl (DurValueError (''actor'' @ '' must not be empty''))
     else (case fetch_run s i of
        None \<Rightarrow> Inl (CompareAndSwapError (''state/version mismatch for run '' @ i))
      | Some r \<Rightarrow>
         if rn_state r = expected \<and> rn_version r = v
         then Inr (after_transition next (fst (transition_result str_of r next (strip reason) (strip actor) md inc now))
             (snd (transition_result str_of r next (strip reason) (strip actor) md inc now)) s,
             fst (transition_result str_of r next (strip reason) (strip actor) md inc now))
         else Inl (CompareAndSwapError (''state/version mismatch for run '' @ i))))"
proof (cases "next \<notin> set (next_states expected) \<or> strip reason = [] \<or> strip actor = []")
  case True
  then show ?thesis by (auto simp: run_transition_def dur_required_text_def Let_def)
next
  case ok: False
  let ?hit = "\<lambda>r. rn_run_id r = i \<and> rn_state r = expected \<and> rn_version r = v"
  let ?R = "\<lambda>r. transition_result str_of r next (strip reason) (strip actor) md inc now"
  have req: "dur_required_text reason ''reason'' = Inr (strip reason)" "dur_required_text actor ''actor'' = Inr (strip actor)"
    using ok by (simp_all add: dur_required_text_def Let_def)
  show ?thesis
  proof (cases "\<exists>r \<in> set (runs s). ?hit r")
    case False
    then have "filter ?hit (runs s) = []" by (auto simp: filter_empty_conv)
    then have z: "row_count ?hit (runs s) = 0" by (simp only: row_count_def list.size)
    have "(case fetch_run s i of None \<Rightarrow> True | Some r \<Rightarrow> \<not> (rn_state r = expected \<and> rn_version r = v))"
      using False fetch_run_iff [OF inv] by (auto split: option.splits)
    with ok z req show ?thesis by (auto simp: run_transition_def Let_def split: option.splits)
  next
    case True
    then obtain r where r: "r \<in> set (runs s)" "?hit r" by blast
    have f: "fetch_run s i = Some r" using r fetch_run_iff [OF inv] by blast
    have n: "row_count ?hit (runs s) = 1"
      using row_count_key_1 [OF durable_invD(1) [OF inv] r(1), of i "\<lambda>r. rn_state r = expected \<and> rn_version r = v"] r(2) by simp
    have mv: "moves r (fst (?R r)) (snd (?R r))" using ok r(2) by (intro transition_moves) auto
    have u: "update_where ?hit f (runs s) = update_where (\<lambda>x. rn_run_id x = rn_run_id r) (\<lambda>_. f r) (runs s)" for f
      by (rule update_where_key [OF durable_invD(1) [OF inv] r(1)]) (use r(2) in simp_all)
    have g: "get_run (after_transition next (fst (?R r)) (snd (?R r)) s) i = Inr (fst (?R r))"
      using fetch_run_move [OF inv r(1) mv, of i] r(2)
      by (simp add: get_run_def fetch_run_def after_transition_def delete_leases_def)
    have s': "write_transition str_of ?hit i expected v next (strip reason) (strip actor) md inc now s =
       after_transition next (fst (?R r)) (snd (?R r)) s"
      using r(2) unfolding write_transition_def after_transition_def move_run_def add_history_def update_runs_def u
      by (simp add: transition_result_def Let_def)
    have ok': "next \<in> set (next_states expected)" "strip reason \<noteq> []" "strip actor \<noteq> []" using ok by blast+
    from ok req n r(2) show ?thesis
      by (simp only: run_transition_def s' g f Let_def sum.case option.case if_True if_False not_not simp_thms)
        (use ok' in simp)
  qed
qed

lemma inv_after_transition:
  assumes "durable_inv s" "r \<in> set (runs s)" "moves r r' t"
  shows "durable_inv (after_transition (rn_state r') r' t s)"
proof -
  let ?s = "move_run r' t s"
  let ?ls = "filter (\<lambda>l. rl_run_id l \<noteq> rn_run_id r') (leases s)"
  have id: "rn_run_id r' = rn_run_id r" using assms(3) by (simp add: moves_def)
  show ?thesis
  proof (cases "rn_state r' \<in> set terminal_states \<or> rn_state r' = ''queued''")
    case True
    have "durable_inv (?s\<lparr>leases := ?ls\<rparr>)"
      by (rule inv_move [OF assms]) (use durable_invD(5) [OF assms(1)] id in \<open>auto intro: distinct_map_filter\<close>)
    with True show ?thesis by (simp add: after_transition_def delete_leases_def)
  next
    case False
    have live: "rn_state r' \<in> live_states"
      using assms(3) False next_states_cases by (auto simp: moves_def)
    have "durable_inv (?s\<lparr>leases := leases s\<rparr>)"
      by (rule inv_move [OF assms]) (use durable_invD(5) [OF assms(1)] live in auto)
    moreover have "?s\<lparr>leases := leases s\<rparr> = ?s" by (simp add: move_run_def)
    ultimately show ?thesis using False by (simp add: after_transition_def)
  qed
qed

text \<open>A successful transition is a move.\<close>

lemma run_transitionD:
  assumes "durable_inv s" "run_transition str_of s i expected v next reason actor md inc now = Inr (s', r')"
  obtains r t where "r \<in> set (runs s)" "rn_run_id r = i" "rn_state r = expected" "rn_version r = v"
    "rn_state r' = next" "moves r r' t" "s' = after_transition next r' t s"
    "r' = fst (transition_result str_of r next (strip reason) (strip actor) md inc now)"
    "t = snd (transition_result str_of r next (strip reason) (strip actor) md inc now)"
proof -
  obtain r where f: "fetch_run s i = Some r"
    using assms(2) by (auto simp: run_transition_eq [OF assms(1)] split: if_splits option.splits)
  have c: "next \<in> set (next_states expected) \<and> rn_state r = expected \<and> rn_version r = v \<and>
     s' = after_transition next (fst (transition_result str_of r next (strip reason) (strip actor) md inc now))
       (snd (transition_result str_of r next (strip reason) (strip actor) md inc now)) s \<and>
     r' = fst (transition_result str_of r next (strip reason) (strip actor) md inc now)"
    using assms(2) f by (auto simp: run_transition_eq [OF assms(1)] split: if_splits)
  have m: "moves r r' (snd (transition_result str_of r next (strip reason) (strip actor) md inc now))"
    using c transition_moves [of "next" r] by simp
  have st: "rn_state r' = next" using c by (simp add: transition_result_def)
  from f have r: "r \<in> set (runs s)" "rn_run_id r = i" using fetch_run_iff [OF assms(1)] by blast+
  from c r st m show thesis by (intro that [OF r _ _ st m _ _ refl]) simp_all
qed

lemma inv_run_transition:
  assumes "durable_inv s" "run_transition str_of s i expected v next reason actor md inc now = Inr (s', r')"
  shows "durable_inv s'"
  by (rule run_transitionD [OF assms]) (use inv_after_transition [OF assms(1)] in blast)

lemma distinct_upsert_lease:
  "distinct (map rl_run_id ls) \<Longrightarrow> distinct (map rl_run_id (upsert_lease l ls))"
proof (cases "\<exists>x \<in> set ls. rl_run_id x = rl_run_id l")
  case True
  then have "map rl_run_id (upsert_lease l ls) = map rl_run_id ls"
    by (auto simp: upsert_lease_def update_where_def)
  then show "distinct (map rl_run_id ls) \<Longrightarrow> ?thesis" by simp
qed (auto simp: upsert_lease_def)

lemma set_upsert_lease:
  "x \<in> set (upsert_lease l ls) \<Longrightarrow> x = l \<or> (x \<in> set ls \<and> rl_run_id x \<noteq> rl_run_id l)"
  by (auto simp: upsert_lease_def set_update_where split: if_splits)

lemma upsert_lease_mem: "l \<in> set (upsert_lease l ls)"
  by (auto simp: upsert_lease_def set_update_where)

definition claim_result :: "run_row \<Rightarrow> string \<Rightarrow> timestamp \<Rightarrow> run_row \<times> run_transition" where
  "claim_result r worker now =
    (r\<lparr>rn_state := ''running'', rn_version := rn_version r + 1, rn_updated_at := now\<rparr>,
     \<lparr>tr_run_id = rn_run_id r, tr_from_state = Some ''queued'', tr_to_state = ''running'',
      tr_version = rn_version r + 1, tr_reason = ''worker_claimed'', tr_actor = worker, tr_timestamp = now,
      tr_metadata = PDict []\<rparr>)"

definition claim_lease :: "run_row \<Rightarrow> string \<Rightarrow> timestamp \<Rightarrow> timestamp \<Rightarrow> run_lease" where
  "claim_lease r worker lease_seconds now = \<lparr>rl_run_id = rn_run_id r, rl_worker_id = worker,
     rl_expires_at = now + lease_seconds, rl_run_version = rn_version r + 1\<rparr>"

lemma claim_moves:
  assumes "durable_inv s" "r \<in> set (runs s)" "rn_state r = ''queued''"
  shows "moves r (fst (claim_result r worker now)) (snd (claim_result r worker now))"
proof -
  have "rn_terminal_reason r = None"
    using durable_invD(3) [OF assms(1,2)] assms(3) by (auto simp: run_terminal_def terminal_states_def)
  then show ?thesis using assms(3)
    by (simp add: moves_def claim_result_def run_terminal_def terminal_states_def next_states_def run_transitions_table_def)
qed

lemma queued_runs_mem: "r \<in> set (queued_runs s) \<longleftrightarrow> r \<in> set (runs s) \<and> rn_state r = ''queued''"
  by (auto simp: queued_runs_def)

text \<open>The exact behaviour of \<open>claim_next\<close>.\<close>

lemma run_claim_next_eq:
  assumes inv: "durable_inv s"
  shows "run_claim_next s worker_id lease_seconds now =
    (if strip worker_id = [] then Inl (DurValueError (''worker_id'' @ '' must not be empty''))
     else if lease_seconds \<le> 0 then Inl (DurValueError ''lease_seconds must be positive'')
     else case queued_runs s of
       [] \<Rightarrow> Inr (s, None)
     | r # _ \<Rightarrow> Inr ((move_run (fst (claim_result r (strip worker_id) now)) (snd (claim_result r (strip worker_id) now)) s)
          \<lparr>leases := upsert_lease (claim_lease r (strip worker_id) lease_seconds now) (leases s)\<rparr>,
          Some (fst (claim_result r (strip worker_id) now))))"
proof (cases "strip worker_id = [] \<or> lease_seconds \<le> 0 \<or> queued_runs s = []")
  case True
  then show ?thesis by (auto simp: run_claim_next_def dur_required_text_def Let_def split: list.splits)
next
  case False
  then obtain r rs where q: "queued_runs s = r # rs" by (cases "queued_runs s") auto
  then have r: "r \<in> set (runs s)" "rn_state r = ''queued''" using queued_runs_mem [of r s] by auto
  let ?hit = "\<lambda>x. rn_run_id x = rn_run_id r \<and> rn_state x = ''queued'' \<and> rn_version x = rn_version r"
  let ?C = "claim_result r (strip worker_id) now"
  let ?s = "(move_run (fst ?C) (snd ?C) s)\<lparr>leases := upsert_lease (claim_lease r (strip worker_id) lease_seconds now) (leases s)\<rparr>"
  have req: "dur_required_text worker_id ''worker_id'' = Inr (strip worker_id)"
    using False by (simp add: dur_required_text_def Let_def)
  have n: "row_count ?hit (runs s) = 1"
    using row_count_key_1 [OF durable_invD(1) [OF inv] r(1) refl, of "\<lambda>x. rn_state x = ''queued'' \<and> rn_version x = rn_version r"] r(2)
    by simp
  have u: "update_where ?hit f (runs s) = update_where (\<lambda>x. rn_run_id x = rn_run_id r) (\<lambda>_. f r) (runs s)" for f
    by (rule update_where_key [OF durable_invD(1) [OF inv] r(1)]) (use r(2) in simp_all)
  have w: "write_claim ?hit r (strip worker_id) lease_seconds now s = ?s"
    unfolding write_claim_def move_run_def add_history_def update_runs_def u
    by (simp add: claim_result_def claim_lease_def Let_def)
  have g: "get_run ?s (rn_run_id r) = Inr (fst ?C)"
    using fetch_run_move [OF inv r(1) claim_moves [OF inv r, of "strip worker_id" now], of "rn_run_id r"]
    by (simp add: get_run_def fetch_run_def)
  have ok: "\<not> lease_seconds \<le> 0" "strip worker_id \<noteq> []" using False by blast+
  have t: "(row_count ?hit (runs s) \<noteq> 1) = False" using n by simp
  show ?thesis
    unfolding run_claim_next_def req q
    by (simp only: sum.case list.case Let_def t w g ok if_False)
qed

lemma inv_run_claim_next:
  assumes inv: "durable_inv s" and c: "run_claim_next s worker_id lease_seconds now = Inr (s', out)"
  shows "durable_inv s'"
proof (cases "queued_runs s")
  case Nil
  with c inv show ?thesis by (simp add: run_claim_next_eq [OF inv] split: if_splits)
next
  case (Cons r rs)
  then have r: "r \<in> set (runs s)" "rn_state r = ''queued''" using queued_runs_mem [of r s] by auto
  let ?l = "claim_lease r (strip worker_id) lease_seconds now"
  have "durable_inv ((move_run (fst (claim_result r (strip worker_id) now)) (snd (claim_result r (strip worker_id) now)) s)
      \<lparr>leases := upsert_lease ?l (leases s)\<rparr>)"
  proof (rule inv_move [OF inv r(1) claim_moves [OF inv r]])
    show "distinct (map rl_run_id (upsert_lease ?l (leases s)))"
      by (rule distinct_upsert_lease [OF durable_invD(5) [OF inv]])
    show "(rl_run_id l = rn_run_id r \<and> rn_state (fst (claim_result r (strip worker_id) now)) \<in> live_states) \<or>
        (rl_run_id l \<noteq> rn_run_id r \<and> l \<in> set (leases s))" if "l \<in> set (upsert_lease ?l (leases s))" for l
      using set_upsert_lease [OF that] by (auto simp: claim_lease_def claim_result_def live_states_def)
  qed
  with c Cons show ?thesis by (simp add: run_claim_next_eq [OF inv] split: if_splits)
qed

section \<open>The other operations\<close>

definition new_run :: "(pval \<Rightarrow> string) \<Rightarrow> string \<Rightarrow> string \<Rightarrow> pval \<Rightarrow> timestamp \<Rightarrow> run_row" where
  "new_run str_of run_id dg metadata now = \<lparr>rn_run_id = run_id, rn_request_digest = dg, rn_state = ''queued'',
     rn_version = 0, rn_recovery_attempts = 0, rn_created_at = now, rn_updated_at = now,
     rn_terminal_reason = None, rn_metadata = stored_json str_of metadata\<rparr>"

definition add_run :: "run_row \<Rightarrow> string option \<Rightarrow> timestamp \<Rightarrow> durable \<Rightarrow> durable" where
  "add_run r key now s = s\<lparr>runs := runs s @ [r],
     history := history s @ [\<lparr>tr_run_id = rn_run_id r, tr_from_state = None, tr_to_state = ''queued'',
       tr_version = 0, tr_reason = ''created'', tr_actor = ''service'', tr_timestamp = now, tr_metadata = PDict []\<rparr>],
     run_keys := run_keys s @ (case key of None \<Rightarrow> [] | Some k \<Rightarrow> [\<lparr>rk_key = k,
       rk_request_digest = rn_request_digest r, rk_run_id = rn_run_id r, rk_created_at = now\<rparr>])\<rparr>"

lemma create_runD:
  assumes "create_run str_of s run_id request_digest idempotency_key metadata now = Inr (s', r, created)"
  shows "(\<not> created \<and> s' = s \<and> (\<exists>k x. dur_optional_identifier idempotency_key ''idempotency_key'' = Inr (Some k) \<and>
            find (\<lambda>x. rk_key x = k) (run_keys s) = Some x \<and> rk_request_digest x = strip request_digest \<and>
            fetch_run s (rk_run_id x) = Some r)) \<or>
     (created \<and> fetch_run s run_id = None \<and> r = new_run str_of run_id (strip request_digest) metadata now \<and>
        strip request_digest \<noteq> [] \<and> (\<exists>n. dur_identifier run_id ''run_id'' = Inr n) \<and>
        (\<exists>key. dur_optional_identifier idempotency_key ''idempotency_key'' = Inr key \<and>
           (\<forall>k. key = Some k \<longrightarrow> k \<notin> rk_key ` set (run_keys s)) \<and> s' = add_run r key now s))"
proof -
  from assms obtain n key where k: "dur_identifier run_id ''run_id'' = Inr n" "strip request_digest \<noteq> []"
      "dur_optional_identifier idempotency_key ''idempotency_key'' = Inr key"
    by (auto simp: create_run_def Let_def split: sum.splits if_splits)
  show ?thesis
  proof (cases key)
    case None
    with k assms show ?thesis
      by (auto simp: create_run_def Let_def new_run_def add_run_def add_history_def split: if_splits)
  next
    case (Some kk)
    show ?thesis
    proof (cases "find (\<lambda>x. rk_key x = kk) (run_keys s)")
      case None
      then have "kk \<notin> rk_key ` set (run_keys s)" by (auto simp: find_None_iff)
      with None k Some assms show ?thesis
        by (auto simp: create_run_def Let_def new_run_def add_run_def add_history_def split: if_splits)
    next
      case (Some x)
      with k \<open>key = Some kk\<close> assms show ?thesis
        by (auto simp: create_run_def Let_def get_run_def split: if_splits option.splits)
    qed
  qed
qed

lemma add_run_fields [simp]:
  "runs (add_run r key now s) = runs s @ [r]" "leases (add_run r key now s) = leases s"
  "receipts (add_run r key now s) = receipts s"
  by (simp_all add: add_run_def)

lemma inv_add_run:
  assumes inv: "durable_inv s" and new: "fetch_run s run_id = None"
    and key: "\<And>k. key = Some k \<Longrightarrow> k \<notin> rk_key ` set (run_keys s)"
  shows "durable_inv (add_run (new_run str_of run_id dg metadata now) key now s)"
proof -
  let ?r = "new_run str_of run_id dg metadata now"
  let ?s = "add_run ?r key now s"
  have fresh: "run_id \<notin> rn_run_id ` set (runs s)" using new by (simp add: fetch_run_None)
  have id: "rn_run_id ?r = run_id" "rn_request_digest ?r = dg" "rn_state ?r = ''queued''" "rn_version ?r = 0"
    "rn_terminal_reason ?r = None" by (simp_all add: new_run_def)
  have "run_history s run_id = []"
    using fresh durable_invD(4) [OF inv] by (auto simp: run_history_def filter_empty_conv)
  then have "history_ok ?s ?r"
    by (simp add: history_ok_def run_history_def add_run_def id)
  moreover have "history_ok ?s x" if "x \<in> set (runs s)" for x
  proof -
    have "rn_run_id x \<noteq> run_id" using fresh that by auto
    then have "run_history ?s (rn_run_id x) = run_history s (rn_run_id x)"
      by (simp add: run_history_def add_run_def id)
    then show ?thesis using durable_invD(2) [OF inv that] by (simp add: history_ok_def)
  qed
  moreover have "\<not> run_terminal ?r" by (simp add: run_terminal_def id terminal_states_def)
  moreover have "distinct (map rk_key (run_keys ?s))"
    using durable_invD(7) [OF inv] key by (auto simp: add_run_def split: option.splits)
  moreover have "\<exists>x \<in> set (runs ?s). rn_run_id x = rk_run_id k \<and> rn_request_digest x = rk_request_digest k"
    if "k \<in> set (run_keys ?s)" for k
    using that durable_invD(8) [OF inv, of k] by (auto simp: add_run_def id split: option.splits)
  moreover have "\<exists>x \<in> set (runs ?s). rn_run_id x = rl_run_id l \<and> rn_state x \<in> live_states" if "l \<in> set (leases s)" for l
    using durable_invD(6) [OF inv that] by auto
  moreover have "tr_run_id t \<in> rn_run_id ` set (runs ?s)" if "t \<in> set (history ?s)" for t
    using that durable_invD(4) [OF inv, of t] by (auto simp: add_run_def id)
  ultimately show ?thesis
    using durable_invD(1,3,5,9,10,11) [OF inv] fresh id unfolding durable_inv_def
    by (simp add: image_iff)
qed

lemma inv_create_run:
  assumes "durable_inv s" "create_run str_of s run_id dg key metadata now = Inr (s', r, created)"
  shows "durable_inv s'"
  using create_runD [OF assms(2)] assms(1) inv_add_run [OF assms(1)] by auto

lemma history_ok_cong: "history s' = history s \<Longrightarrow> history_ok s' r = history_ok s r"
  by (simp add: history_ok_def run_history_def)

text \<open>Changes that touch only the leases or only the receipts.\<close>

lemma inv_leases:
  assumes "durable_inv s" "distinct (map rl_run_id ls)" "rl_run_id ` set ls \<subseteq> rl_run_id ` set (leases s)"
  shows "durable_inv (s\<lparr>leases := ls\<rparr>)"
proof -
  have "\<exists>r \<in> set (runs s). rn_run_id r = rl_run_id l \<and> rn_state r \<in> live_states" if "l \<in> set ls" for l
  proof -
    from that assms(3) obtain l' where "l' \<in> set (leases s)" "rl_run_id l' = rl_run_id l"
      by (metis imageE imageI subsetD)
    with durable_invD(6) [OF assms(1), of l'] show ?thesis by simp
  qed
  with assms(1,2) history_ok_cong [of "s\<lparr>leases := ls\<rparr>" s] show ?thesis
    unfolding durable_inv_def by (simp del: list.map)
qed

lemma inv_receipts:
  assumes "durable_inv s" "distinct (map rc_action_key xs)"
    "\<And>x. x \<in> set xs \<Longrightarrow> receipt_ok x \<and> rc_run_id x \<in> rn_run_id ` set (runs s)"
  shows "durable_inv (s\<lparr>receipts := xs\<rparr>)"
  using assms history_ok_cong [of "s\<lparr>receipts := xs\<rparr>" s] unfolding durable_inv_def by (simp del: list.map)

lemma inv_renew_lease:
  assumes "durable_inv s" "renew_lease s i w v secs now = Inr (s', e)"
  shows "durable_inv s'"
proof -
  from assms(2) obtain p f where s': "s' = s\<lparr>leases := update_where p f (leases s)\<rparr>" and f: "\<And>l. rl_run_id (f l) = rl_run_id l"
    by (auto simp: renew_lease_def Let_def split: sum.splits if_splits)
  have "map rl_run_id (update_where p f (leases s)) = map rl_run_id (leases s)" by (rule map_update_where) (rule f)
  then show ?thesis unfolding s'
    by (intro inv_leases assms(1)) (use durable_invD(5) [OF assms(1)] in \<open>metis list.set_map order_refl\<close>)+
qed

lemma inv_release_lease:
  assumes "durable_inv s" "release_lease s i w = Inr (s', b)"
  shows "durable_inv s'"
proof -
  from assms(2) obtain p where s': "s' = s\<lparr>leases := filter p (leases s)\<rparr>"
    by (auto simp: release_lease_def delete_leases_def Let_def split: sum.splits)
  show ?thesis unfolding s'
    by (rule inv_leases [OF assms(1)]) (use durable_invD(5) [OF assms(1)] in \<open>auto intro: distinct_map_filter\<close>)
qed

lemma inv_settle_receipt:
  assumes "durable_inv s" "status = ''completed'' \<or> status = ''failed''"
  shows "durable_inv (settle_receipt key status outcome now s)"
  unfolding settle_receipt_def
proof (rule inv_receipts [OF assms(1)])
  show "distinct (map rc_action_key (update_where (\<lambda>x. rc_action_key x = key \<and> rc_status x = ''pending'')
      (\<lambda>x. x\<lparr>rc_status := status, rc_outcome := Some outcome, rc_updated_at := now\<rparr>) (receipts s)))"
    using durable_invD(9) [OF assms(1)] by (simp add: map_update_where)
next
  fix x
  assume "x \<in> set (update_where (\<lambda>x. rc_action_key x = key \<and> rc_status x = ''pending'')
      (\<lambda>x. x\<lparr>rc_status := status, rc_outcome := Some outcome, rc_updated_at := now\<rparr>) (receipts s))"
  then obtain q where q: "q \<in> set (receipts s)" "x = q \<or> x = q\<lparr>rc_status := status, rc_outcome := Some outcome, rc_updated_at := now\<rparr>"
    by (auto simp: set_update_where)
  from assms(2) have "receipt_ok (q\<lparr>rc_status := status, rc_outcome := Some outcome, rc_updated_at := now\<rparr>)"
    by (auto simp: receipt_ok_def)
  with q durable_invD(10,11) [OF assms(1) q(1)] show "receipt_ok x \<and> rc_run_id x \<in> rn_run_id ` set (runs s)" by auto
qed

definition new_receipt :: "string \<Rightarrow> string \<Rightarrow> string \<Rightarrow> string \<Rightarrow> string \<Rightarrow> timestamp \<Rightarrow> receipt" where
  "new_receipt key i step tool dg now = \<lparr>rc_action_key = key, rc_run_id = i, rc_logical_step_id = strip step,
     rc_tool_name = strip tool, rc_arguments_digest = dg, rc_status = ''pending'', rc_outcome = None,
     rc_created_at = now, rc_updated_at = now\<rparr>"

lemma make_action_keyD:
  assumes "make_action_key encode sha i step tool dg = Inr key"
  shows "dur_required_text step n = Inr (strip step)" "dur_required_text tool n = Inr (strip tool)"
  using assms by (auto simp: make_action_key_def dur_required_text_def Let_def split: if_splits)

lemma reserve_action_eq:
  assumes "make_action_key encode sha i step tool (arguments_digest str_of encode sha args) = Inr key"
    "fetch_run s i \<noteq> None"
  shows "reserve_action str_of encode sha s i step tool args now = Inr (case fetch_receipt s key of
       None \<Rightarrow> (s\<lparr>receipts := receipts s @ [new_receipt key i step tool (arguments_digest str_of encode sha args) now]\<rparr>,
         \<lparr>rv_action_key = key, rv_created = True, rv_status = ''pending'', rv_outcome = None\<rparr>)
     | Some x \<Rightarrow> (s, \<lparr>rv_action_key = key, rv_created = False, rv_status = rc_status x, rv_outcome = rc_outcome x\<rparr>))"
  using assms(2) make_action_keyD [OF assms(1)] assms(1)
  by (auto simp: reserve_action_def get_run_def Let_def new_receipt_def split: option.splits)

lemma reserve_actionD:
  assumes "reserve_action str_of encode sha s i step tool args now = Inr (s', rv)"
  shows "make_action_key encode sha i step tool (arguments_digest str_of encode sha args) = Inr (rv_action_key rv) \<and>
    fetch_run s i \<noteq> None \<and>
    (rv_created rv \<and> fetch_receipt s (rv_action_key rv) = None \<and>
       s' = s\<lparr>receipts := receipts s @
         [new_receipt (rv_action_key rv) i step tool (arguments_digest str_of encode sha args) now]\<rparr> \<or>
     \<not> rv_created rv \<and> s' = s \<and> (\<exists>x. fetch_receipt s (rv_action_key rv) = Some x \<and> rv_status rv = rc_status x \<and>
       rv_outcome rv = rc_outcome x))"
proof -
  from assms have "fetch_run s i \<noteq> None"
    by (auto simp: reserve_action_def get_run_def split: option.splits)
  moreover from assms obtain key
    where "make_action_key encode sha i step tool (arguments_digest str_of encode sha args) = Inr key"
    by (auto simp: reserve_action_def Let_def split: sum.splits)
  ultimately show ?thesis using assms reserve_action_eq [of encode sha i step tool str_of args key s now]
    by (auto split: option.splits)
qed

lemma inv_reserve_action:
  assumes inv: "durable_inv s" and r: "reserve_action str_of encode sha s i step tool args now = Inr (s', rv)"
  shows "durable_inv s'"
proof (cases "rv_created rv")
  case True
  with reserve_actionD [OF r] have f: "fetch_run s i \<noteq> None" "fetch_receipt s (rv_action_key rv) = None"
    and s': "s' = s\<lparr>receipts := receipts s @
      [new_receipt (rv_action_key rv) i step tool (arguments_digest str_of encode sha args) now]\<rparr>" by blast+
  show ?thesis unfolding s'
    by (rule inv_receipts [OF inv])
      (use f durable_invD(9,10,11) [OF inv] in \<open>auto simp: fetch_receipt_None fetch_run_None receipt_ok_def new_receipt_def\<close>)
qed (use reserve_actionD [OF r] inv in blast)

lemma complete_actionD:
  assumes "complete_action str_of s key v now = Inr (s', rv)"
  shows "(s' = s \<and> (\<exists>x. fetch_receipt s key = Some x \<and> rc_status x = ''completed'' \<and> rv_outcome rv = rc_outcome x)) \<or>
    (s' = settle_receipt key ''completed'' (stored_json str_of v) now s \<and> rv_outcome rv = Some (stored_json str_of v) \<and>
     (\<exists>x. fetch_receipt s key = Some x \<and> rc_status x = ''pending''))"
  using assms by (auto simp: complete_action_def split: option.splits if_splits)

lemma inv_complete_action:
  assumes "durable_inv s" "complete_action str_of s key v now = Inr (s', rv)"
  shows "durable_inv s'"
  using complete_actionD [OF assms(2)] assms(1) inv_settle_receipt by auto

lemma inv_fail_action:
  assumes "durable_inv s" "fail_action str_of s key ty msg now = Inr (s', rv)"
  shows "durable_inv s'"
  using assms inv_settle_receipt [OF assms(1)] by (auto simp: fail_action_def Let_def split: sum.splits if_splits)

section \<open>Executions\<close>

inductive durable_step :: "(pval \<Rightarrow> string) \<Rightarrow> (pval \<Rightarrow> string) \<Rightarrow> (string \<Rightarrow> string) \<Rightarrow> durable \<Rightarrow> durable \<Rightarrow> bool"
  for str_of encode sha where
  step_create: "create_run str_of s i dg key md now = Inr (s', r, created) \<Longrightarrow> durable_step str_of encode sha s s'"
| step_transition: "run_transition str_of s i st v next reason actor md inc now = Inr (s', r) \<Longrightarrow>
    durable_step str_of encode sha s s'"
| step_claim: "run_claim_next s w secs now = Inr (s', out) \<Longrightarrow> durable_step str_of encode sha s s'"
| step_renew: "renew_lease s i w v secs now = Inr (s', e) \<Longrightarrow> durable_step str_of encode sha s s'"
| step_release: "release_lease s i w = Inr (s', b) \<Longrightarrow> durable_step str_of encode sha s s'"
| step_reserve: "reserve_action str_of encode sha s i step tool args now = Inr (s', rv) \<Longrightarrow>
    durable_step str_of encode sha s s'"
| step_complete: "complete_action str_of s key v now = Inr (s', rv) \<Longrightarrow> durable_step str_of encode sha s s'"
| step_fail: "fail_action str_of s key ty msg now = Inr (s', rv) \<Longrightarrow> durable_step str_of encode sha s s'"

inductive_cases durable_stepE: "durable_step str_of encode sha s s'"

abbreviation durable_run ::
  "(pval \<Rightarrow> string) \<Rightarrow> (pval \<Rightarrow> string) \<Rightarrow> (string \<Rightarrow> string) \<Rightarrow> durable \<Rightarrow> durable \<Rightarrow> bool" where
  "durable_run str_of encode sha \<equiv> (durable_step str_of encode sha)\<^sup>*\<^sup>*"

lemma durable_inv_step: "durable_inv s \<Longrightarrow> durable_step str_of encode sha s s' \<Longrightarrow> durable_inv s'"
  by (erule durable_stepE)
    (blast intro: inv_create_run inv_run_transition inv_run_claim_next inv_renew_lease inv_release_lease
      inv_reserve_action inv_complete_action inv_fail_action)+

end
