(* ===== verification/Durable_Props.thy ===== *)
theory Durable_Props
  imports Durable_Inv
begin

text \<open>
  How one transaction of the durable run store changes what a caller can see, the contracts it
  provides as interpretations of the shared interfaces, and the properties of \<open>durability/core.py\<close>.
\<close>

section \<open>One step\<close>

definition run_evolves :: "run_row \<Rightarrow> run_row \<Rightarrow> bool" where
  "run_evolves r r' \<longleftrightarrow> rn_run_id r' = rn_run_id r \<and> rn_request_digest r' = rn_request_digest r \<and>
     rn_version r \<le> rn_version r' \<and> (rn_version r' = rn_version r \<longrightarrow> r' = r) \<and> (run_terminal r \<longrightarrow> r' = r)"

definition receipt_evolves :: "receipt \<Rightarrow> receipt \<Rightarrow> bool" where
  "receipt_evolves x x' \<longleftrightarrow> rc_action_key x' = rc_action_key x \<and> rc_run_id x' = rc_run_id x \<and>
     (rc_status x \<noteq> ''pending'' \<longrightarrow> x' = x)"

definition durable_evolves :: "durable \<Rightarrow> durable \<Rightarrow> bool" where
  "durable_evolves s s' \<longleftrightarrow>
     (\<forall>i r. fetch_run s i = Some r \<longrightarrow> (\<exists>r'. fetch_run s' i = Some r' \<and> run_evolves r r')) \<and>
     (\<forall>k x. fetch_receipt s k = Some x \<longrightarrow> (\<exists>x'. fetch_receipt s' k = Some x' \<and> receipt_evolves x x')) \<and>
     prefix (history s) (history s') \<and> prefix (run_keys s) (run_keys s')"

lemma run_evolves_refl [simp]: "run_evolves r r"
  by (simp add: run_evolves_def)

lemma run_evolves_trans: "run_evolves r u \<Longrightarrow> run_evolves u v \<Longrightarrow> run_evolves r v"
  unfolding run_evolves_def by (metis le_antisym le_trans)

lemma receipt_evolves_refl [simp]: "receipt_evolves x x"
  by (simp add: receipt_evolves_def)

lemma receipt_evolves_trans: "receipt_evolves x y \<Longrightarrow> receipt_evolves y z \<Longrightarrow> receipt_evolves x z"
  by (auto simp: receipt_evolves_def)

lemma durable_evolves_refl [simp]: "durable_evolves s s"
  by (auto simp: durable_evolves_def)

lemma durable_evolves_trans:
  assumes "durable_evolves s u" "durable_evolves u v"
  shows "durable_evolves s v"
proof -
  have "\<exists>r'. fetch_run v i = Some r' \<and> run_evolves r r'" if "fetch_run s i = Some r" for i r
    using assms that unfolding durable_evolves_def by (meson run_evolves_trans)
  moreover have "\<exists>x'. fetch_receipt v k = Some x' \<and> receipt_evolves x x'" if "fetch_receipt s k = Some x" for k x
    using assms that unfolding durable_evolves_def by (meson receipt_evolves_trans)
  ultimately show ?thesis
    using assms unfolding durable_evolves_def by (meson prefix_order.trans)
qed

lemma durable_evolves_run:
  "durable_evolves s s' \<Longrightarrow> fetch_run s i = Some r \<Longrightarrow> \<exists>r'. fetch_run s' i = Some r' \<and> run_evolves r r'"
  unfolding durable_evolves_def by blast

lemma durable_evolves_receipt:
  "durable_evolves s s' \<Longrightarrow> fetch_receipt s k = Some x \<Longrightarrow> \<exists>x'. fetch_receipt s' k = Some x' \<and> receipt_evolves x x'"
  unfolding durable_evolves_def by blast

lemma moves_evolves: "moves r r' t \<Longrightarrow> run_evolves r r'"
  using terminal_states_next by (auto simp: moves_def run_evolves_def run_terminal_def)

lemma evolves_move:
  assumes "durable_inv s" "r \<in> set (runs s)" "moves r r' t"
  shows "durable_evolves s ((move_run r' t s)\<lparr>leases := ls\<rparr>)"
proof -
  have r: "fetch_run s (rn_run_id r) = Some r" using fetch_run_iff [OF assms(1)] assms(2) by blast
  have "fetch_run ((move_run r' t s)\<lparr>leases := ls\<rparr>) i = fetch_run (move_run r' t s) i" for i
    by (simp add: fetch_run_def)
  moreover have "fetch_receipt ((move_run r' t s)\<lparr>leases := ls\<rparr>) = fetch_receipt s"
    by (simp add: fun_eq_iff fetch_receipt_def)
  ultimately show ?thesis
    using r moves_evolves [OF assms(3)] by (auto simp: durable_evolves_def fetch_run_move [OF assms])
qed

lemma evolves_same_runs:
  assumes "runs s' = runs s" "history s' = history s" "run_keys s' = run_keys s"
    "\<And>k x. fetch_receipt s k = Some x \<Longrightarrow> \<exists>x'. fetch_receipt s' k = Some x' \<and> receipt_evolves x x'"
  shows "durable_evolves s s'"
  using assms by (auto simp: durable_evolves_def fetch_run_def)

lemma fetch_receipt_settle:
  "fetch_receipt (settle_receipt key status v now s) k =
     map_option (\<lambda>x. if rc_action_key x = key \<and> rc_status x = ''pending''
        then x\<lparr>rc_status := status, rc_outcome := Some v, rc_updated_at := now\<rparr> else x) (fetch_receipt s k)"
  unfolding fetch_receipt_def settle_receipt_def by (simp add: find_update_where)

lemma evolves_settle: "durable_evolves s (settle_receipt key status v now s)"
proof (rule evolves_same_runs)
  show "\<exists>x'. fetch_receipt (settle_receipt key status v now s) k = Some x' \<and> receipt_evolves x x'"
    if "fetch_receipt s k = Some x" for k x
    using that by (auto simp: fetch_receipt_settle receipt_evolves_def)
qed (simp_all add: settle_receipt_def)

lemma durable_evolves_step:
  assumes inv: "durable_inv s" and step: "durable_step str_of encode sha s s'"
  shows "durable_evolves s s'"
proof (rule durable_stepE [OF step])
  fix i dg key md now r created
  assume 1: "create_run str_of s i dg key md now = Inr (s', r, created)"
  from create_runD [OF 1] show ?thesis
    by (auto simp: durable_evolves_def fetch_run_def fetch_receipt_def find_append add_run_def)
next
  fix i st v nxt reason actor md inc now r
  assume "run_transition str_of s i st v nxt reason actor md inc now = Inr (s', r)"
  then obtain r0 t where m: "r0 \<in> set (runs s)" "moves r0 r t" "s' = after_transition nxt r t s"
    by (rule run_transitionD [OF inv])
  have "(move_run r t s)\<lparr>leases := leases s\<rparr> = move_run r t s" by (simp add: move_run_def)
  with evolves_move [OF inv m(1,2), of "leases s"] have "durable_evolves s (move_run r t s)" by simp
  with evolves_move [OF inv m(1,2)] show ?thesis
    unfolding m(3) after_transition_def delete_leases_def by (cases "nxt \<in> set terminal_states \<or> nxt = ''queued''") simp_all
next
  fix w secs now out
  assume 3: "run_claim_next s w secs now = Inr (s', out)"
  show ?thesis
  proof (cases "queued_runs s")
    case Nil
    with 3 show ?thesis by (simp add: run_claim_next_eq [OF inv] split: if_splits)
  next
    case (Cons r rs)
    then have r: "r \<in> set (runs s)" "rn_state r = ''queued''" using queued_runs_mem [of r s] by auto
    from 3 Cons evolves_move [OF inv r(1) claim_moves [OF inv r]] show ?thesis
      by (auto simp: run_claim_next_eq [OF inv] split: if_splits)
  qed
next
  fix i w v secs now e
  assume "renew_lease s i w v secs now = Inr (s', e)"
  then show ?thesis
    by (auto simp: renew_lease_def Let_def fetch_receipt_def intro!: evolves_same_runs split: sum.splits if_splits)
next
  fix i w b
  assume "release_lease s i w = Inr (s', b)"
  then show ?thesis
    by (auto simp: release_lease_def delete_leases_def Let_def fetch_receipt_def intro!: evolves_same_runs split: sum.splits)
next
  fix i st tool args now rv
  assume 6: "reserve_action str_of encode sha s i st tool args now = Inr (s', rv)"
  from reserve_actionD [OF 6] show ?thesis
    by (auto simp: fetch_receipt_def find_append intro!: evolves_same_runs)
next
  fix key v now rv
  assume 7: "complete_action str_of s key v now = Inr (s', rv)"
  from complete_actionD [OF 7] evolves_settle show ?thesis by auto
next
  fix key ty msg now rv
  assume "fail_action str_of s key ty msg now = Inr (s', rv)"
  then show ?thesis using evolves_settle by (auto simp: fail_action_def Let_def split: sum.splits if_splits)
qed

section \<open>The store as a preserving system, a versioned store and a log\<close>

interpretation durable: append_only durable_inv "durable_step str_of encode sha" history for str_of encode sha
proof unfold_locales
  show "durable_inv s'" if "durable_inv s" "durable_step str_of encode sha s s'" for s s'
    using durable_inv_step that by blast
  show "prefix (history s) (history s')" if "durable_inv s" "durable_step str_of encode sha s s'" for s s'
    using durable_evolves_step [OF that] by (simp add: durable_evolves_def)
qed

interpretation run_versions: monotone_reading durable_inv "durable_step str_of encode sha"
    "\<lambda>s i. map_option rn_version (fetch_run s i)" for str_of encode sha
proof unfold_locales
  show "\<exists>v'. map_option rn_version (fetch_run s' i) = Some v' \<and> v \<le> v'"
    if "durable_inv s" "durable_step str_of encode sha s s'" "map_option rn_version (fetch_run s i) = Some v" for s s' i v
  proof -
    from that(3) obtain r where "fetch_run s i = Some r" "rn_version r = v" by auto
    with durable_evolves_step [OF that(1,2)] show ?thesis
      unfolding durable_evolves_def run_evolves_def by fastforce
  qed
qed

lemma durable_reachable_inv: "durable_run str_of encode sha empty_durable s \<Longrightarrow> durable_inv s"
  by (erule durable.inv_steps) (rule durable_inv_empty)

lemma durable_evolves_steps: "durable_run str_of encode sha s s' \<Longrightarrow> durable_inv s \<Longrightarrow> durable_evolves s s'"
  by (erule durable.lift_steps) (auto intro: durable_evolves_trans durable_evolves_step)

section \<open>A concrete store\<close>

definition demo_str :: "pval \<Rightarrow> string" where
  "demo_str v = ''?''"

abbreviation demo_run :: "durable \<Rightarrow> durable \<Rightarrow> bool" where
  "demo_run \<equiv> durable_run demo_str demo_encode (\<lambda>b. b)"

definition dur1 :: durable where
  "dur1 = fst (projr (create_run demo_str empty_durable ''r1'' '' d1 '' (Some ''k1'') (PDict []) 1))"

definition dur2 :: durable where
  "dur2 = fst (projr (run_claim_next dur1 ''w1'' 30 2))"

definition dur3 :: durable where
  "dur3 = fst (projr (run_transition demo_str dur2 ''r1'' ''running'' 1 ''completed'' ''ok'' ''w1'' (PDict []) False 3))"

lemma projr_step: "\<not> isl x \<Longrightarrow> x = Inr (fst (projr x), snd (projr x))"
  by (cases x) auto

lemma demo_steps: "demo_run empty_durable dur1" "demo_run dur1 dur2" "demo_run dur2 dur3"
proof -
  have "\<not> isl (create_run demo_str empty_durable ''r1'' '' d1 '' (Some ''k1'') (PDict []) 1)" by code_simp
  from projr_step [OF this] show "demo_run empty_durable dur1"
    unfolding dur1_def by (metis prod.collapse r_into_rtranclp step_create)
  have "\<not> isl (run_claim_next dur1 ''w1'' 30 2)" by code_simp
  from projr_step [OF this] show "demo_run dur1 dur2" unfolding dur2_def by (metis r_into_rtranclp step_claim)
  have "\<not> isl (run_transition demo_str dur2 ''r1'' ''running'' 1 ''completed'' ''ok'' ''w1'' (PDict []) False 3)" by code_simp
  from projr_step [OF this] show "demo_run dur2 dur3" unfolding dur3_def by (metis r_into_rtranclp step_transition)
qed

section \<open>Properties\<close>

text \<open>
  The log of a run replays to its state. In every reachable store the log entries of a run carry
  the versions 0 to the current version without a gap, begin with the creation of a queued run, follow
  the transition table edge by edge, and end in the state the row shows. Later the run is still there
  with the same request digest, at least the same version and a log that extends this one; a run in a
  terminal state never changes again, and a terminal reason is set exactly in terminal states.
\<close>

theorem durable_history_replays:
  assumes "durable_run str_of encode sha empty_durable s" "durable_run str_of encode sha s s'" "get_run s i = Inr r"
  shows "follows None (run_history s i) \<and> map tr_version (run_history s i) = [0 ..< Suc (rn_version r)] \<and>
    tr_to_state (last (run_history s i)) = rn_state r \<and> (rn_terminal_reason r \<noteq> None) = run_terminal r \<and>
    (\<exists>r'. get_run s' i = Inr r' \<and> rn_request_digest r' = rn_request_digest r \<and> rn_version r \<le> rn_version r' \<and>
       (run_terminal r \<longrightarrow> r' = r)) \<and> prefix (run_history s i) (run_history s' i)"
proof -
  have inv: "durable_inv s" by (rule durable_reachable_inv [OF assms(1)])
  have f: "fetch_run s i = Some r" using assms(3) by (auto simp: get_run_def split: option.splits)
  then have r: "r \<in> set (runs s)" "rn_run_id r = i" using fetch_run_iff [OF inv] by blast+
  have ev: "durable_evolves s s'" by (rule durable_evolves_steps [OF assms(2) inv])
  then obtain r' where "fetch_run s' i = Some r'" "run_evolves r r'" using f durable_evolves_run by blast
  then have "\<exists>r'. get_run s' i = Inr r' \<and> rn_request_digest r' = rn_request_digest r \<and> rn_version r \<le> rn_version r' \<and>
       (run_terminal r \<longrightarrow> r' = r)" by (simp add: get_run_def run_evolves_def)
  moreover have "prefix (run_history s i) (run_history s' i)"
    using ev by (auto simp: durable_evolves_def run_history_def prefix_def)
  ultimately show ?thesis
    using durable_invD(2) [OF inv r(1)] durable_invD(3) [OF inv r(1)] r(2) by (simp only: history_ok_def simp_thms)
qed

theorem durable_history_replays_witness:
  "\<exists>r. get_run dur2 ''r1'' = Inr r \<and> rn_state r = ''running'' \<and>
    map tr_version (run_history dur2 ''r1'') = [0 ..< Suc (rn_version r)] \<and>
    prefix (run_history dur2 ''r1'') (run_history dur3 ''r1'')"
proof -
  have "case get_run dur2 ''r1'' of Inl e \<Rightarrow> False | Inr r \<Rightarrow> rn_state r = ''running''" by code_simp
  then obtain r where r: "get_run dur2 ''r1'' = Inr r" "rn_state r = ''running''" by (auto split: sum.splits)
  have "demo_run empty_durable dur2" using demo_steps(1,2) by simp
  from durable_history_replays [OF this demo_steps(3) r(1)] r show ?thesis by blast
qed

text \<open>
  Transitions are fenced by the version. In a reachable store a transition along an edge of the
  table, with a reason and an actor that are not blank, succeeds exactly when the run is in the expected
  state at the expected version; it then moves to the next state at the next version. After that, no
  transition of that run expecting the old version succeeds at any later time: it raises
  \<open>CompareAndSwapError\<close>.
\<close>

theorem transition_fenced:
  assumes "durable_run str_of encode sha empty_durable s" "b \<in> set (next_states a)"
    "strip reason \<noteq> []" "strip actor \<noteq> []"
  shows "(\<exists>s1 r1. run_transition str_of s i a v b reason actor md inc now = Inr (s1, r1) \<and>
        get_run s1 i = Inr r1 \<and> rn_state r1 = b \<and> rn_version r1 = Suc v \<and>
        (\<forall>s2 a' b' reason' actor' md' inc' now'. durable_run str_of encode sha s1 s2 \<and> b' \<in> set (next_states a') \<and>
           strip reason' \<noteq> [] \<and> strip actor' \<noteq> [] \<longrightarrow>
           run_transition str_of s2 i a' v b' reason' actor' md' inc' now' =
             Inl (CompareAndSwapError (''state/version mismatch for run '' @ i)))) \<longleftrightarrow>
      (\<exists>r. get_run s i = Inr r \<and> rn_state r = a \<and> rn_version r = v)" (is "?L \<longleftrightarrow> ?R")
proof
  have inv: "durable_inv s" by (rule durable_reachable_inv [OF assms(1)])
  assume ?L
  then obtain s1 r1 where "run_transition str_of s i a v b reason actor md inc now = Inr (s1, r1)" by blast
  then show ?R by (auto simp: run_transition_eq [OF inv] get_run_def split: option.splits if_splits)
next
  have inv: "durable_inv s" by (rule durable_reachable_inv [OF assms(1)])
  assume ?R
  then obtain r where r: "fetch_run s i = Some r" "rn_state r = a" "rn_version r = v"
    by (auto simp: get_run_def split: option.splits)
  obtain s1 r1 where tr: "run_transition str_of s i a v b reason actor md inc now = Inr (s1, r1)"
    using assms(2-4) r by (simp add: run_transition_eq [OF inv])
  have inv1: "durable_inv s1" by (rule inv_run_transition [OF inv tr])
  from tr r assms(2-4) have r1: "r1 = fst (transition_result str_of r b (strip reason) (strip actor) md inc now)"
    by (auto simp: run_transition_eq [OF inv])
  obtain r0 t where m: "r0 \<in> set (runs s)" "rn_run_id r0 = i" "moves r0 r1 t" "s1 = after_transition b r1 t s"
    by (rule run_transitionD [OF inv tr]) blast
  have f1: "fetch_run s1 i = Some r1"
    using fetch_run_move [OF inv m(1,3), of i] m(2) unfolding m(4)
    by (simp add: after_transition_def delete_leases_def fetch_run_def)
  have v1: "rn_version r1 = Suc v" "rn_state r1 = b" using r by (simp_all add: r1 transition_result_def)
  have "run_transition str_of s2 i a' v b' reason' actor' md' inc' now' =
      Inl (CompareAndSwapError (''state/version mismatch for run '' @ i))"
    if "durable_run str_of encode sha s1 s2" "b' \<in> set (next_states a')" "strip reason' \<noteq> []" "strip actor' \<noteq> []"
    for s2 a' b' reason' actor' md' inc' now'
  proof -
    have inv2: "durable_inv s2" by (rule durable.inv_steps [OF that(1) inv1])
    have "map_option rn_version (fetch_run s2 i) \<noteq> Some v"
      by (rule run_versions.never_returns [OF inv1 _ lessI that(1)]) (use f1 v1 in simp)
    with that(2-4) show ?thesis by (auto simp: run_transition_eq [OF inv2] split: option.splits)
  qed
  with tr f1 v1 show ?L by (auto simp: get_run_def)
qed

theorem transition_fenced_witness:
  "run_transition demo_str dur3 ''r1'' ''running'' 1 ''failed'' ''late'' ''w1'' (PDict []) False 9 =
     Inl (CompareAndSwapError (''state/version mismatch for run '' @ ''r1''))"
proof -
  have e: "''completed'' \<in> set (next_states ''running'')" "''failed'' \<in> set (next_states ''running'')"
    "strip ''ok'' \<noteq> []" "strip ''w1'' \<noteq> []" "strip ''late'' \<noteq> []" by code_simp+
  have "demo_run empty_durable dur2" using demo_steps(1,2) by simp
  note t = transition_fenced [OF this e(1,3,4), of "''r1''" 1 "PDict []" False 3]
  have "case get_run dur2 ''r1'' of Inl e \<Rightarrow> False | Inr r \<Rightarrow> rn_state r = ''running'' \<and> rn_version r = 1" by code_simp
  then have "\<exists>r. get_run dur2 ''r1'' = Inr r \<and> rn_state r = ''running'' \<and> rn_version r = 1" by (auto split: sum.splits)
  from t [THEN iffD2, OF this] obtain s1 r1 where
    s1: "run_transition demo_str dur2 ''r1'' ''running'' 1 ''completed'' ''ok'' ''w1'' (PDict []) False 3 = Inr (s1, r1)"
    "\<forall>s2 a' b' reason' actor' md' inc' now'. demo_run s1 s2 \<and> b' \<in> set (next_states a') \<and>
           strip reason' \<noteq> [] \<and> strip actor' \<noteq> [] \<longrightarrow>
           run_transition demo_str s2 ''r1'' a' 1 b' reason' actor' md' inc' now' =
             Inl (CompareAndSwapError (''state/version mismatch for run '' @ ''r1''))" by blast
  have "dur3 = s1" unfolding dur3_def s1(1) by simp
  with s1(2) e show ?thesis by blast
qed

text \<open>
  \<open>claim_next\<close> is fair and exclusive. It hands out the oldest queued run (by creation time, then id)
  and gives the worker a lease on it for the time asked. The same run is handed out again, to whichever
  worker, only after some transition in between has put it back into the queue; a lease that merely
  expires never does that.
\<close>

theorem run_claim_exclusive:
  assumes "durable_run str_of encode sha empty_durable s" "run_claim_next s w secs now = Inr (s1, Some r)"
  shows "(\<exists>r0 \<in> set (runs s). rn_run_id r0 = rn_run_id r \<and> rn_state r0 = ''queued'' \<and>
        (\<forall>q \<in> set (runs s). rn_state q = ''queued'' \<longrightarrow>
           (rn_created_at r0, rn_run_id r0) \<le> (rn_created_at q, rn_run_id q))) \<and>
    lease_of s1 (rn_run_id r) = Some \<lparr>rl_run_id = rn_run_id r, rl_worker_id = strip w,
      rl_expires_at = now + secs, rl_run_version = rn_version r\<rparr> \<and>
    (\<forall>s2 w2 secs2 now2 s3 r2. durable_run str_of encode sha s1 s2 \<and>
       run_claim_next s2 w2 secs2 now2 = Inr (s3, Some r2) \<and> rn_run_id r2 = rn_run_id r \<longrightarrow>
       (\<exists>t \<in> set (drop (length (history s1)) (history s2)). tr_run_id t = rn_run_id r \<and> tr_to_state t = ''queued''))"
proof -
  have inv: "durable_inv s" by (rule durable_reachable_inv [OF assms(1)])
  have inv1: "durable_inv s1" by (rule inv_run_claim_next [OF inv assms(2)])
  obtain r0 rs where q: "queued_runs s = r0 # rs"
    using assms(2) by (cases "queued_runs s") (auto simp: run_claim_next_eq [OF inv] split: if_splits)
  have r: "r = fst (claim_result r0 (strip w) now)" and
    s1: "s1 = (move_run r (snd (claim_result r0 (strip w) now)) s)\<lparr>leases := upsert_lease (claim_lease r0 (strip w) secs now) (leases s)\<rparr>"
    using assms(2) q by (auto simp: run_claim_next_eq [OF inv] split: if_splits)
  have r0: "r0 \<in> set (runs s)" "rn_state r0 = ''queued''" using queued_runs_mem [of r0 s] q by auto
  have id: "rn_run_id r = rn_run_id r0" "rn_version r = Suc (rn_version r0)" "rn_state r = ''running''"
    by (simp_all add: r claim_result_def)
  have "sorted (map (\<lambda>r. (rn_created_at r, rn_run_id r)) (queued_runs s))" by (simp add: queued_runs_def)
  then have "\<forall>q \<in> set (queued_runs s). (rn_created_at r0, rn_run_id r0) \<le> (rn_created_at q, rn_run_id q)"
    unfolding q by auto
  then have oldest: "\<forall>q \<in> set (runs s). rn_state q = ''queued'' \<longrightarrow>
      (rn_created_at r0, rn_run_id r0) \<le> (rn_created_at q, rn_run_id q)" using queued_runs_mem by blast
  have lease: "lease_of s1 (rn_run_id r) = Some (claim_lease r0 (strip w) secs now)"
    using lease_of_iff [OF inv1, of "rn_run_id r" "claim_lease r0 (strip w) secs now"] upsert_lease_mem [of "claim_lease r0 (strip w) secs now" "leases s"]
    by (simp add: s1) (simp add: claim_lease_def id)
  have last1: "\<exists>xs t. run_history s1 (rn_run_id r) = xs @ [t] \<and> tr_to_state t = ''running''"
    by (simp add: s1 run_history_def r claim_result_def)
  have "\<exists>t \<in> set (drop (length (history s1)) (history s2)). tr_run_id t = rn_run_id r \<and> tr_to_state t = ''queued''"
    if again: "durable_run str_of encode sha s1 s2" "run_claim_next s2 w2 secs2 now2 = Inr (s3, Some r2)"
      "rn_run_id r2 = rn_run_id r" for s2 w2 secs2 now2 s3 r2
  proof -
    have inv2: "durable_inv s2" by (rule durable.inv_steps [OF again(1) inv1])
    obtain q2 qs where q2: "queued_runs s2 = q2 # qs"
      using again(2) by (cases "queued_runs s2") (auto simp: run_claim_next_eq [OF inv2] split: if_splits)
    then have m: "q2 \<in> set (runs s2)" "rn_state q2 = ''queued''" using queued_runs_mem [of q2 s2] by auto
    have "rn_run_id q2 = rn_run_id r"
      using again(2,3) q2 by (auto simp: run_claim_next_eq [OF inv2] claim_result_def split: if_splits)
    then have last2: "tr_to_state (last (run_history s2 (rn_run_id r))) = ''queued''"
      using durable_invD(2) [OF inv2 m(1)] m(2) by (simp add: history_ok_def)
    obtain zs where zs: "history s2 = history s1 @ zs"
      using durable.log_steps [OF again(1) inv1] by (auto simp: prefix_def)
    let ?f = "filter (\<lambda>t. tr_run_id t = rn_run_id r) zs"
    have h: "run_history s2 (rn_run_id r) = run_history s1 (rn_run_id r) @ ?f"
      by (simp add: run_history_def zs)
    have "?f \<noteq> []" using last1 last2 h by auto
    moreover from this have "tr_to_state (last ?f) = ''queued''" using last2 h by simp
    ultimately have "last ?f \<in> set ?f" "tr_to_state (last ?f) = ''queued''" by (simp_all only: last_in_set not_False_eq_True)
    then show ?thesis by (auto simp: zs)
  qed
  with r0 id oldest lease show ?thesis by (auto simp: claim_lease_def)
qed

definition dur_back :: durable where
  "dur_back = fst (projr (run_transition demo_str dur2 ''r1'' ''running'' 1 ''queued'' ''retry'' ''ops'' (PDict []) False 4))"

theorem run_claim_exclusive_witness:
  "\<exists>r. run_claim_next dur1 ''w1'' 30 2 = Inr (dur2, Some r) \<and>
    (\<exists>t \<in> set (drop (length (history dur2)) (history dur_back)). tr_run_id t = ''r1'' \<and> tr_to_state t = ''queued'')"
proof -
  have "case run_claim_next dur1 ''w1'' 30 2 of Inl e \<Rightarrow> False | Inr (s, x) \<Rightarrow> (case x of None \<Rightarrow> False | Some r \<Rightarrow> rn_run_id r = ''r1'')"
    by code_simp
  then obtain r where r: "run_claim_next dur1 ''w1'' 30 2 = Inr (dur2, Some r)" "rn_run_id r = ''r1''"
    unfolding dur2_def by (auto split: sum.splits option.splits)
  have "\<not> isl (run_transition demo_str dur2 ''r1'' ''running'' 1 ''queued'' ''retry'' ''ops'' (PDict []) False 4)" by code_simp
  from projr_step [OF this] have run: "demo_run dur2 dur_back"
    unfolding dur_back_def by (metis r_into_rtranclp step_transition)
  have "case run_claim_next dur_back ''w2'' 30 5 of Inl e \<Rightarrow> False | Inr (s, x) \<Rightarrow> (case x of None \<Rightarrow> False | Some r \<Rightarrow> rn_run_id r = ''r1'')"
    by code_simp
  then obtain s3 r2 where r2: "run_claim_next dur_back ''w2'' 30 5 = Inr (s3, Some r2)" "rn_run_id r2 = ''r1''"
    by (auto split: sum.splits option.splits)
  from run_claim_exclusive [OF demo_steps(1) r(1)] run r r2 show ?thesis by metis
qed

text \<open>
  Creating a run is idempotent per key. After a creation under an idempotency key succeeded, the same
  key with the same request digest (up to surrounding white space) returns the run of that first
  creation, whatever run id it asks for and whatever happened to the run since, and changes nothing;
  with another digest it is refused.
\<close>

lemma create_existing:
  assumes "dur_identifier i ''run_id'' = Inr n" "strip dg \<noteq> []"
    "dur_optional_identifier key ''idempotency_key'' = Inr (Some k)" "find (\<lambda>x. rk_key x = k) (run_keys s) = Some x"
    "fetch_run s (rk_run_id x) = Some r"
  shows "create_run str_of s i dg key md now = (if rk_request_digest x \<noteq> strip dg
     then Inl (IdempotencyRecordConflictError ''idempotency key belongs to another request'') else Inr (s, r, False))"
  using assms by (simp add: create_run_def Let_def get_run_def)

lemma find_prefix: "prefix xs ys \<Longrightarrow> find p xs = Some x \<Longrightarrow> find p ys = Some x"
  by (auto simp: prefix_def find_append)

theorem create_run_idempotent:
  assumes "durable_run str_of encode sha empty_durable s" "create_run str_of s i dg (Some key) md now = Inr (s1, r, created)"
    "durable_run str_of encode sha s1 s2" "dur_identifier j ''run_id'' = Inr n" "strip dg2 \<noteq> []"
  shows "\<exists>r2. get_run s2 (rn_run_id r) = Inr r2 \<and> rn_request_digest r2 = strip dg \<and>
    create_run str_of s2 j dg2 (Some key) md2 now2 = (if strip dg2 = strip dg then Inr (s2, r2, False)
      else Inl (IdempotencyRecordConflictError ''idempotency key belongs to another request''))"
proof -
  have inv: "durable_inv s" by (rule durable_reachable_inv [OF assms(1)])
  have inv1: "durable_inv s1" by (rule inv_create_run [OF inv assms(2)])
  have inv2: "durable_inv s2" by (rule durable.inv_steps [OF assms(3) inv1])
  have ev: "durable_evolves s1 s2" by (rule durable_evolves_steps [OF assms(3) inv1])
  obtain k x where k: "dur_optional_identifier (Some key) ''idempotency_key'' = Inr (Some k)"
      "find (\<lambda>x. rk_key x = k) (run_keys s1) = Some x" "rk_request_digest x = strip dg" "rk_run_id x = rn_run_id r"
    using create_runD [OF assms(2)]
  proof (elim disjE conjE exE)
    fix kk
    assume c: "fetch_run s i = None" "dur_optional_identifier (Some key) ''idempotency_key'' = Inr kk"
      "\<forall>k. kk = Some k \<longrightarrow> k \<notin> rk_key ` set (run_keys s)" "s1 = add_run r kk now s"
      "r = new_run str_of i (strip dg) md now"
    then obtain k where kk: "kk = Some k" by (auto simp: dur_optional_identifier_def split: sum.splits)
    with c have "find (\<lambda>x. rk_key x = k) (run_keys s) = None" by (auto simp: find_None_iff)
    with c kk that show ?thesis by (auto simp: add_run_def find_append new_run_def)
  next
    fix k x
    assume "s1 = s" "dur_optional_identifier (Some key) ''idempotency_key'' = Inr (Some k)"
      "find (\<lambda>x. rk_key x = k) (run_keys s) = Some x" "rk_request_digest x = strip dg" "fetch_run s (rk_run_id x) = Some r"
    with that fetch_run_iff [OF inv] show ?thesis by metis
  qed
  have k2: "find (\<lambda>x. rk_key x = k) (run_keys s2) = Some x"
    using ev k(2) by (auto simp: durable_evolves_def intro: find_prefix)
  from durable_invD(8) [OF inv2, of x] find_SomeD [OF k2] obtain r2 where
    r2: "r2 \<in> set (runs s2)" "rn_run_id r2 = rk_run_id x" "rn_request_digest r2 = rk_request_digest x" by blast
  then have f: "fetch_run s2 (rk_run_id x) = Some r2" using fetch_run_iff [OF inv2] by blast
  with create_existing [OF assms(4,5) k(1) k2 f] r2 k(3,4) show ?thesis by (auto simp: get_run_def)
qed

theorem create_run_idempotent_witness:
  "create_run demo_str dur3 ''other'' ''d2'' (Some ''k1'') (PDict []) 9 =
     Inl (IdempotencyRecordConflictError ''idempotency key belongs to another request'') \<and>
   (\<exists>r2. create_run demo_str dur3 ''other'' ''d1'' (Some ''k1'') (PDict []) 9 = Inr (dur3, r2, False) \<and> rn_request_digest r2 = ''d1'')"
proof -
  let ?c = "create_run demo_str empty_durable ''r1'' '' d1 '' (Some ''k1'') (PDict []) 1"
  have "\<not> isl ?c" by code_simp
  from projr_step [OF this] obtain r c where c: "?c = Inr (dur1, r, c)" unfolding dur1_def by (metis prod.collapse)
  have run: "demo_run dur1 dur3" using demo_steps(2,3) by simp
  have "\<not> isl (dur_identifier ''other'' ''run_id'')" by code_simp
  then obtain n where n: "dur_identifier ''other'' ''run_id'' = Inr n" by (cases "dur_identifier ''other'' ''run_id''") auto
  have d: "strip ''d2'' \<noteq> []" "strip ''d1'' \<noteq> []" "strip '' d1 '' = ''d1''" "strip ''d2'' = ''d2''" "strip ''d1'' = ''d1''"
    by code_simp+
  note i = create_run_idempotent [OF rtranclp.rtrancl_refl c run n]
  show ?thesis
    using i [OF d(1), of "PDict []" 9] i [OF d(2), of "PDict []" 9] d by auto
qed

end
