(* ===== verification/Durable_Actions.thy ===== *)
theory Durable_Actions
  imports Durable_Props
begin

text \<open>
  The idempotent action executor and the recovery coordinator of \<open>durability/core.py\<close>: at most one
  call per action key in every interleaving, replay of outcomes, and the exact effect of a
  reconciliation with the default policy.
\<close>

section \<open>Calls of the side-effecting callback\<close>

text \<open>
  A system state is the store together with the keys the executor has called the callback for, in
  order. Any operation of any process may run between the two halves of \<open>execute\<close>; the second half is
  \<open>complete_action\<close> or \<open>fail_action\<close>, an operation like the others.
\<close>

inductive call_step :: "(pval \<Rightarrow> string) \<Rightarrow> (pval \<Rightarrow> string) \<Rightarrow> (string \<Rightarrow> string)
    \<Rightarrow> durable \<times> string list \<Rightarrow> durable \<times> string list \<Rightarrow> bool"
  for str_of encode sha where
  call_plain: "durable_step str_of encode sha s s' \<Longrightarrow> call_step str_of encode sha (s, cs) (s', cs)"
| call_begin: "execute_begin str_of encode sha s i step tool args now = (s', Call key) \<Longrightarrow>
    call_step str_of encode sha (s, cs) (s', cs @ [key])"

lemma execute_begin_Call:
  assumes "execute_begin str_of encode sha s i step tool args now = (s', Call key)"
  shows "fetch_receipt s key = None" "fetch_receipt s' key \<noteq> None" "durable_step str_of encode sha s s'"
    "make_action_key encode sha i step tool (arguments_digest str_of encode sha args) = Inr key"
    "s' = s\<lparr>receipts := receipts s @ [new_receipt key i step tool (arguments_digest str_of encode sha args) now]\<rparr>"
proof -
  obtain rv where rv: "reserve_action str_of encode sha s i step tool args now = Inr (s', rv)" "rv_created rv" "rv_action_key rv = key"
    using assms by (auto simp: execute_begin_def split: sum.splits if_splits option.splits)
  from reserve_actionD [OF rv(1)] rv(2,3) show n: "fetch_receipt s key = None"
    "make_action_key encode sha i step tool (arguments_digest str_of encode sha args) = Inr key" and
    s': "s' = s\<lparr>receipts := receipts s @ [new_receipt key i step tool (arguments_digest str_of encode sha args) now]\<rparr>"
    by auto
  show "fetch_receipt s' key \<noteq> None"
    using n(1) unfolding s' by (simp add: fetch_receipt_def find_append new_receipt_def)
  show "durable_step str_of encode sha s s'" by (rule step_reserve [OF rv(1)])
qed

definition call_inv :: "durable \<times> string list \<Rightarrow> bool" where
  "call_inv c \<longleftrightarrow> durable_inv (fst c) \<and> distinct (snd c) \<and> (\<forall>k \<in> set (snd c). fetch_receipt (fst c) k \<noteq> None)"

lemma receipt_kept:
  assumes "durable_inv s" "durable_step str_of encode sha s s'" "fetch_receipt s k \<noteq> None"
  shows "fetch_receipt s' k \<noteq> None"
  using durable_evolves_receipt [OF durable_evolves_step [OF assms(1,2)]] assms(3) by fastforce

interpretation calls: preserving call_inv "call_step str_of encode sha" for str_of encode sha
proof unfold_locales
  fix c c'
  assume inv: "call_inv c" and step: "call_step str_of encode sha c c'"
  from step show "call_inv c'"
  proof cases
    case (call_plain s s' cs)
    with inv durable_inv_step receipt_kept show ?thesis by (auto simp: call_inv_def)
  next
    case (call_begin s i st tool args now s' key cs)
    note b = execute_begin_Call [OF call_begin(3)]
    from inv call_begin have s: "durable_inv s" "distinct cs" "\<forall>k \<in> set cs. fetch_receipt s k \<noteq> None"
      by (simp_all add: call_inv_def)
    have "\<forall>k \<in> set cs. fetch_receipt s' k \<noteq> None" using receipt_kept [OF s(1) b(3)] s(3) by blast
    with s b durable_inv_step [OF s(1) b(3)] call_begin show ?thesis by (auto simp: call_inv_def)
  qed
qed

lemma call_inv_empty: "call_inv (empty_durable, [])"
  by (simp add: call_inv_def durable_inv_empty)

lemma execute_begin_key:
  assumes "make_action_key encode sha i step tool (arguments_digest str_of encode sha args) = Inr key" "fetch_run s i \<noteq> None"
  shows "execute_begin str_of encode sha s i step tool args now = (case fetch_receipt s key of
     None \<Rightarrow> (s\<lparr>receipts := receipts s @ [new_receipt key i step tool (arguments_digest str_of encode sha args) now]\<rparr>, Call key)
   | Some x \<Rightarrow> (s, (if rc_status x = ''completed'' \<and> rc_outcome x \<noteq> None then Cached (the (rc_outcome x))
        else Refused (ActionInProgressError (''action already reserved with status='' @ rc_status x)))))"
  using reserve_action_eq [OF assms, of now]
  by (auto simp: execute_begin_def split: option.splits)

text \<open>
  C6. The executor calls a side effect at most once per action key. However executions and all other
  operations of all processes interleave from the empty store, no key occurs twice among the calls of
  the callback, and an execution whose key was called before is answered from the receipt: with the
  stored outcome if the action completed, with \<open>ActionInProgressError\<close> otherwise, the store unchanged.
\<close>

theorem action_at_most_once:
  assumes "(call_step str_of encode sha)\<^sup>*\<^sup>* (empty_durable, []) (s, cs)"
  shows "distinct cs \<and>
    (\<forall>i step tool args now key. make_action_key encode sha i step tool (arguments_digest str_of encode sha args) = Inr key \<and>
       fetch_run s i \<noteq> None \<and> key \<in> set cs \<longrightarrow>
       (\<exists>x \<in> set (receipts s). rc_action_key x = key \<and>
          execute_begin str_of encode sha s i step tool args now =
            (s, (if rc_status x = ''completed'' then Cached (the (rc_outcome x))
                 else Refused (ActionInProgressError (''action already reserved with status='' @ rc_status x))))))"
proof -
  have inv: "call_inv (s, cs)" by (rule calls.inv_steps [OF assms call_inv_empty])
  then have d: "durable_inv s" by (simp add: call_inv_def)
  have "\<exists>x \<in> set (receipts s). rc_action_key x = key \<and>
          execute_begin str_of encode sha s i step tool args now =
            (s, (if rc_status x = ''completed'' then Cached (the (rc_outcome x))
                 else Refused (ActionInProgressError (''action already reserved with status='' @ rc_status x))))"
    if k: "make_action_key encode sha i step tool (arguments_digest str_of encode sha args) = Inr key"
      "fetch_run s i \<noteq> None" "key \<in> set cs" for i step tool args now key
  proof -
    obtain x where x: "fetch_receipt s key = Some x" using inv k(3) by (auto simp: call_inv_def)
    then have m: "x \<in> set (receipts s)" "rc_action_key x = key" using fetch_receipt_iff [OF d] by blast+
    have "rc_status x = ''completed'' \<Longrightarrow> rc_outcome x \<noteq> None"
      using durable_invD(10) [OF d m(1)] by (auto simp: receipt_ok_def)
    with m x execute_begin_key [OF k(1,2), of now] show ?thesis by (intro bexI [of _ x]) auto
  qed
  with inv show ?thesis by (auto simp: call_inv_def)
qed

definition demo_key :: string where
  "demo_key = projr (make_action_key demo_encode (\<lambda>b. b) ''r1'' ''s'' ''t'' (arguments_digest demo_str demo_encode (\<lambda>b. b) (PDict [])))"

definition dur_called :: durable where
  "dur_called = fst (execute_begin demo_str demo_encode (\<lambda>b. b) dur2 ''r1'' ''s'' ''t'' (PDict []) 5)"

lemma demo_key_eq:
  "make_action_key demo_encode (\<lambda>b. b) ''r1'' ''s'' ''t'' (arguments_digest demo_str demo_encode (\<lambda>b. b) (PDict [])) = Inr demo_key"
proof -
  have "\<not> isl (make_action_key demo_encode (\<lambda>b. b) ''r1'' ''s'' ''t'' (arguments_digest demo_str demo_encode (\<lambda>b. b) (PDict [])))"
    by code_simp
  then show ?thesis unfolding demo_key_def by (metis sum.collapse(2))
qed

lemma dur2_has_run: "fetch_run dur2 ''r1'' \<noteq> None"
proof -
  have "case fetch_run dur2 ''r1'' of None \<Rightarrow> False | Some r \<Rightarrow> True" by code_simp
  then show ?thesis by (auto split: option.splits)
qed

lemma dur_called_begin:
  "execute_begin demo_str demo_encode (\<lambda>b. b) dur2 ''r1'' ''s'' ''t'' (PDict []) 5 = (dur_called, Call demo_key)"
proof -
  have "receipts dur2 = []" by code_simp
  then have "fetch_receipt dur2 demo_key = None" by (simp add: fetch_receipt_def)
  with execute_begin_key [OF demo_key_eq dur2_has_run, of 5] show ?thesis by (simp add: dur_called_def)
qed

lemma dur_called_run: "fetch_run dur_called ''r1'' \<noteq> None"
proof -
  have "runs dur_called = runs dur2" by (subst execute_begin_Call(5) [OF dur_called_begin]) simp
  with dur2_has_run show ?thesis by (simp add: fetch_run_def)
qed

lemma plain_calls: "durable_run str_of encode sha s s' \<Longrightarrow> (call_step str_of encode sha)\<^sup>*\<^sup>* (s, cs) (s', cs)"
  by (induction rule: rtranclp_induct) (auto intro: rtranclp.rtrancl_into_rtrancl call_plain)

theorem action_at_most_once_witness:
  "distinct [demo_key] \<and> fst (execute_begin demo_str demo_encode (\<lambda>b. b) dur_called ''r1'' ''s'' ''t'' (PDict []) 6) = dur_called"
proof -
  have "demo_run empty_durable dur2" using demo_steps(1,2) by simp
  then have r: "(call_step demo_str demo_encode (\<lambda>b. b))\<^sup>*\<^sup>* (empty_durable, []) (dur_called, [demo_key])"
    using call_begin [OF dur_called_begin, of "[]"] by (auto intro: rtranclp.rtrancl_into_rtrancl plain_calls)
  from action_at_most_once [OF r] demo_key_eq dur_called_run show ?thesis by (metis fst_conv list.set_intros(1))
qed

section \<open>Replay of outcomes\<close>

lemma execute_ok:
  assumes inv: "durable_inv s" and ex: "execute str_of encode sha s i step tool args (ActionReturns out) now now' = (s1, Inr v)"
  obtains key x where "make_action_key encode sha i step tool (arguments_digest str_of encode sha args) = Inr key"
    "fetch_run s i \<noteq> None" "fetch_receipt s1 key = Some x" "rc_status x = ''completed''" "rc_outcome x = Some v"
    "durable_run str_of encode sha s s1" "fetch_receipt s key = None \<Longrightarrow> v = stored_json str_of out"
proof -
  have rv: "fetch_run s i \<noteq> None"
    using ex by (auto simp: execute_def execute_begin_def reserve_action_def get_run_def split: option.splits)
  obtain key where key: "make_action_key encode sha i step tool (arguments_digest str_of encode sha args) = Inr key"
    using ex rv by (cases "make_action_key encode sha i step tool (arguments_digest str_of encode sha args)")
      (auto simp: execute_def execute_begin_def reserve_action_def get_run_def Let_def)
  note b = execute_begin_key [OF key rv, of now]
  show thesis
  proof (cases "fetch_receipt s key")
    case (Some x)
    with ex b have "s1 = s" "rc_status x = ''completed''" "rc_outcome x = Some v"
      by (auto simp: execute_def split: if_splits)
    with Some key rv that show thesis by auto
  next
    case None
    let ?s = "s\<lparr>receipts := receipts s @ [new_receipt key i step tool (arguments_digest str_of encode sha args) now]\<rparr>"
    have beg: "execute_begin str_of encode sha s i step tool args now = (?s, Call key)" using None b by simp
    have f: "fetch_receipt ?s key = Some (new_receipt key i step tool (arguments_digest str_of encode sha args) now)"
      using None by (simp add: fetch_receipt_def find_append new_receipt_def)
    have c: "complete_action str_of ?s key out now' = Inr (settle_receipt key ''completed'' (stored_json str_of out) now' ?s,
        \<lparr>rv_action_key = key, rv_created = False, rv_status = ''completed'', rv_outcome = Some (stored_json str_of out)\<rparr>)"
      by (simp add: complete_action_def f) (simp add: new_receipt_def)
    from ex beg c have "s1 = settle_receipt key ''completed'' (stored_json str_of out) now' ?s \<and> v = stored_json str_of out"
      by (auto simp: execute_def execute_end_def)
    then have s1: "s1 = settle_receipt key ''completed'' (stored_json str_of out) now' ?s" "v = stored_json str_of out"
      by blast+
    have "fetch_receipt s1 key = Some ((new_receipt key i step tool (arguments_digest str_of encode sha args) now)
        \<lparr>rc_status := ''completed'', rc_outcome := Some v, rc_updated_at := now'\<rparr>)"
      using f unfolding s1 by (simp add: fetch_receipt_settle) (simp add: new_receipt_def)
    moreover have "durable_run str_of encode sha s s1"
      using execute_begin_Call(3) [OF beg] step_complete [OF c] unfolding s1(1) by (meson r_into_rtranclp rtranclp.rtrancl_into_rtrancl)
    ultimately show thesis using key rv s1(2) that by auto
  qed
qed

lemma make_action_key_strip:
  "strip j = strip i \<Longrightarrow> make_action_key encode sha j step tool dg = make_action_key encode sha i step tool dg"
  by (simp add: make_action_key_def dur_required_text_def)

lemma outcome_replayed:
  assumes "durable_run str_of encode sha empty_durable s"
    "execute str_of encode sha s i step tool args (ActionReturns out) now now' = (s1, Inr v)"
    "durable_run str_of encode sha s1 s2" "fetch_run s2 j \<noteq> None" "strip j = strip i"
  shows "execute str_of encode sha s2 j step tool args action t t' = (s2, Inr v)"
proof -
  have inv: "durable_inv s" by (rule durable_reachable_inv [OF assms(1)])
  obtain key x where k: "make_action_key encode sha i step tool (arguments_digest str_of encode sha args) = Inr key"
    "fetch_receipt s1 key = Some x" "rc_status x = ''completed''" "rc_outcome x = Some v"
    "durable_run str_of encode sha s s1" by (rule execute_ok [OF inv assms(2)]) blast
  have inv1: "durable_inv s1" by (rule durable.inv_steps [OF k(5) inv])
  have "\<exists>x'. fetch_receipt s2 key = Some x' \<and> receipt_evolves x x'"
    using durable_evolves_receipt [OF durable_evolves_steps [OF assms(3) inv1] k(2)] .
  then have "fetch_receipt s2 key = Some x" using k(3) by (auto simp: receipt_evolves_def)
  moreover have "make_action_key encode sha j step tool (arguments_digest str_of encode sha args) = Inr key"
    using k(1) make_action_key_strip [OF assms(5)] by simp
  ultimately show ?thesis using k(3,4) execute_begin_key [OF _ assms(4), of encode sha step tool str_of args key t]
    by (simp add: execute_def)
qed

lemma run_kept:
  assumes "durable_run str_of encode sha empty_durable s"
    "execute str_of encode sha s i step tool args (ActionReturns out) now now' = (s1, Inr v)"
    "durable_run str_of encode sha s1 s2"
  shows "fetch_run s2 i \<noteq> None"
proof -
  have inv: "durable_inv s" by (rule durable_reachable_inv [OF assms(1)])
  have "durable_run str_of encode sha s s1" "fetch_run s i \<noteq> None" by (rule execute_ok [OF inv assms(2)], blast)+
  with assms(3) have "durable_evolves s s2" by (meson durable_evolves_steps inv rtranclp_trans)
  from durable_evolves_run [OF this] \<open>fetch_run s i \<noteq> None\<close> show ?thesis by fastforce
qed

text \<open>
  A completed action is replayed, not repeated. After an execution returned a value, executing the
  same step of the same run with the same tool and arguments at any later time returns that value,
  whatever the callback would do, and leaves the store as it is.
\<close>

theorem action_outcome_replayed:
  assumes "durable_run str_of encode sha empty_durable s"
    "execute str_of encode sha s i step tool args (ActionReturns out) now now' = (s1, Inr v)"
    "durable_run str_of encode sha s1 s2"
  shows "execute str_of encode sha s2 i step tool args action t t' = (s2, Inr v)"
  by (rule outcome_replayed [OF assms run_kept [OF assms] refl])

definition demo_out :: pval where
  "demo_out = PDict [(PStr ''id'', PInt 7), (PStr ''api_key'', PStr ''x'')]"

theorem action_outcome_replayed_witness:
  "\<exists>s1. execute demo_str demo_encode (\<lambda>b. b) dur2 ''r1'' ''s'' ''t'' (PDict []) (ActionReturns demo_out) 5 6 =
      (s1, Inr (PDict [(PStr ''id'', PInt 7)])) \<and>
    execute demo_str demo_encode (\<lambda>b. b) s1 ''r1'' '' s'' ''t '' (PDict []) (ActionRaises ''E'' ''boom'') 7 8 =
      (s1, Inr (PDict [(PStr ''id'', PInt 7)])) \<and>
    execute demo_str demo_encode (\<lambda>b. b) s1 ''r1'' ''s'' ''t'' (PDict []) (ActionRaises ''E'' ''boom'') 7 8 =
      (s1, Inr (PDict [(PStr ''id'', PInt 7)]))"
proof -
  have run: "demo_run empty_durable dur2" using demo_steps(1,2) by simp
  let ?x = "execute demo_str demo_encode (\<lambda>b. b) dur2 ''r1'' ''s'' ''t'' (PDict []) (ActionReturns demo_out) 5 6"
  have "snd ?x = Inr (PDict [(PStr ''id'', PInt 7)])" by code_simp
  then have x: "?x = (fst ?x, Inr (PDict [(PStr ''id'', PInt 7)]))" by (metis prod.collapse)
  have p: "execute demo_str demo_encode (\<lambda>b. b) (fst ?x) ''r1'' '' s'' ''t '' (PDict []) (ActionRaises ''E'' ''boom'') 7 8 =
      (fst ?x, Inr (PDict [(PStr ''id'', PInt 7)]))" by code_simp
  show ?thesis
    using x p action_outcome_replayed [OF run x rtranclp.rtrancl_refl, of "ActionRaises ''E'' ''boom''" 7 8] by blast
qed

text \<open>
  Run ids that differ only in surrounding white space share their receipts. \<open>create_run\<close> keeps an id
  as it is passed, but the action key is built from the stripped id: once the step of one run has
  completed, the same step of another run with such an id is answered with the first run's outcome and
  its own callback is never called.
\<close>

theorem padded_run_shares_receipts:
  assumes "durable_run str_of encode sha empty_durable s"
    "execute str_of encode sha s i step tool args (ActionReturns out) now now' = (s1, Inr v)"
    "durable_run str_of encode sha s1 s2" "get_run s2 j = Inr r" "strip j = strip i"
  shows "execute str_of encode sha s2 j step tool args action t t' = (s2, Inr v)"
  by (rule outcome_replayed [OF assms(1-3) _ assms(5)]) (use assms(4) in \<open>simp add: get_run_def split: option.splits\<close>)

definition dur_done :: durable where
  "dur_done = fst (execute demo_str demo_encode (\<lambda>b. b) dur2 ''r1'' ''s'' ''t'' (PDict []) (ActionReturns demo_out) 5 6)"

definition dur_twin :: durable where
  "dur_twin = fst (projr (create_run demo_str dur_done '' r1'' ''d2'' None (PDict []) 7))"

theorem padded_run_shares_receipts_witness:
  "fetch_run dur_done '' r1'' = None \<and> (\<exists>r. get_run dur_twin '' r1'' = Inr r \<and> rn_run_id r = '' r1'') \<and>
   execute demo_str demo_encode (\<lambda>b. b) dur_twin '' r1'' ''s'' ''t'' (PDict []) (ActionReturns PNone) 8 9 =
     (dur_twin, Inr (PDict [(PStr ''id'', PInt 7)])) \<and> action_receipt_count dur_twin '' r1'' = 0"
proof -
  have run: "demo_run empty_durable dur2" using demo_steps(1,2) by simp
  have "snd (execute demo_str demo_encode (\<lambda>b. b) dur2 ''r1'' ''s'' ''t'' (PDict []) (ActionReturns demo_out) 5 6) =
      Inr (PDict [(PStr ''id'', PInt 7)])" by code_simp
  then have x: "execute demo_str demo_encode (\<lambda>b. b) dur2 ''r1'' ''s'' ''t'' (PDict []) (ActionReturns demo_out) 5 6 =
      (dur_done, Inr (PDict [(PStr ''id'', PInt 7)]))" unfolding dur_done_def by (metis prod.collapse)
  have "\<not> isl (create_run demo_str dur_done '' r1'' ''d2'' None (PDict []) 7)" by code_simp
  from projr_step [OF this] have twin: "demo_run dur_done dur_twin"
    unfolding dur_twin_def by (metis prod.collapse r_into_rtranclp step_create)
  have "case get_run dur_twin '' r1'' of Inl e \<Rightarrow> False | Inr r \<Rightarrow> rn_run_id r = '' r1''" by code_simp
  then obtain r where r: "get_run dur_twin '' r1'' = Inr r" "rn_run_id r = '' r1''" by (auto split: sum.splits)
  have strip_eq: "strip '' r1'' = strip ''r1''" by code_simp
  have none: "fetch_run dur_done '' r1'' = None" "action_receipt_count dur_twin '' r1'' = 0" by code_simp+
  show ?thesis
    using padded_run_shares_receipts [OF run x twin r(1) strip_eq, of "ActionReturns PNone" 8 9] r none by blast
qed

text \<open>
  What the executor records when the callback raises. With a message that is not blank the receipt
  becomes \<open>failed\<close> and the exception reaches the caller. With a blank message (\<open>str(exc)\<close> of an exception
  without arguments) \<open>fail_action\<close> itself raises: the caller sees a \<open>ValueError\<close> in place of the exception,
  the receipt stays \<open>pending\<close>, and the step is refused as in progress from then on.
\<close>

theorem action_failure_recorded:
  assumes "durable_run str_of encode sha empty_durable s"
    "execute_begin str_of encode sha s i step tool args now = (s1, Call key)" "strip ty \<noteq> []"
  shows "(strip msg \<noteq> [] \<longrightarrow> (\<exists>s2 x. execute str_of encode sha s i step tool args (ActionRaises ty msg) now now' =
        (s2, Inl (ActionError ty msg)) \<and> fetch_receipt s2 key = Some x \<and> rc_status x = ''failed'')) \<and>
    (strip msg = [] \<longrightarrow> execute str_of encode sha s i step tool args (ActionRaises ty msg) now now' =
        (s1, Inl (DurValueError (''message'' @ '' must not be empty''))) \<and>
      (\<forall>action t t'. execute str_of encode sha s1 i step tool args action t t' =
        (s1, Inl (ActionInProgressError (''action already reserved with status='' @ ''pending'')))))"
proof -
  have inv: "durable_inv s" by (rule durable_reachable_inv [OF assms(1)])
  note b = execute_begin_Call [OF assms(2)]
  have inv1: "durable_inv s1" by (rule durable_inv_step [OF inv b(3)])
  let ?x = "new_receipt key i step tool (arguments_digest str_of encode sha args) now"
  have f: "fetch_receipt s1 key = Some ?x"
    using b(1) unfolding b(5) by (simp add: fetch_receipt_def find_append new_receipt_def)
  then have m: "?x \<in> set (receipts s1)" "rc_action_key ?x = key" using fetch_receipt_iff [OF inv1] by blast+
  have n: "row_count (\<lambda>x. rc_action_key x = key \<and> rc_status x = ''pending'') (receipts s1) = 1"
    using row_count_key_1 [OF durable_invD(9) [OF inv1] m, of "\<lambda>x. rc_status x = ''pending''"]
    by (simp add: new_receipt_def)
  have req: "dur_required_text ty ''error_type'' = Inr (strip ty)" using assms(3) by (simp add: dur_required_text_def)
  show ?thesis
  proof (intro conjI impI allI)
    assume "strip msg \<noteq> []"
    then have "dur_required_text msg ''message'' = Inr (strip msg)" by (simp add: dur_required_text_def)
    then have "\<exists>v. execute str_of encode sha s i step tool args (ActionRaises ty msg) now now' =
        (settle_receipt key ''failed'' v now' s1, Inl (ActionError ty msg))"
      using assms(2) req n by (simp add: execute_def execute_end_def fail_action_def Let_def) (rule exI, rule refl)
    then obtain v where "execute str_of encode sha s i step tool args (ActionRaises ty msg) now now' =
        (settle_receipt key ''failed'' v now' s1, Inl (ActionError ty msg))" by blast
    moreover have "\<exists>x. fetch_receipt (settle_receipt key ''failed'' v now' s1) key = Some x \<and> rc_status x = ''failed''"
      using f by (simp add: fetch_receipt_settle) (simp add: new_receipt_def)
    ultimately show "\<exists>s2 x. execute str_of encode sha s i step tool args (ActionRaises ty msg) now now' =
        (s2, Inl (ActionError ty msg)) \<and> fetch_receipt s2 key = Some x \<and> rc_status x = ''failed''" by blast
  next
    assume "strip msg = []"
    then have "dur_required_text msg ''message'' = Inl (DurValueError (''message'' @ '' must not be empty''))"
      by (simp add: dur_required_text_def)
    then show "execute str_of encode sha s i step tool args (ActionRaises ty msg) now now' =
        (s1, Inl (DurValueError (''message'' @ '' must not be empty'')))"
      using assms(2) req by (simp add: execute_def execute_end_def fail_action_def)
  next
    fix action t t'
    have "fetch_run s1 i \<noteq> None"
    proof -
      have "fetch_run s i \<noteq> None" using assms(2)
        by (auto simp: execute_begin_def reserve_action_def get_run_def split: option.splits)
      then show ?thesis unfolding b(5) by (simp add: fetch_run_def)
    qed
    from execute_begin_key [OF b(4) this, of t] f
    show "execute str_of encode sha s1 i step tool args action t t' =
        (s1, Inl (ActionInProgressError (''action already reserved with status='' @ ''pending'')))"
      by (simp add: execute_def new_receipt_def)
  qed
qed

theorem action_failure_recorded_witness:
  "execute demo_str demo_encode (\<lambda>b. b) dur2 ''r1'' ''s'' ''t'' (PDict []) (ActionRaises ''RuntimeError'' []) 5 6 =
     (dur_called, Inl (DurValueError (''message'' @ '' must not be empty'')))"
proof -
  have run: "demo_run empty_durable dur2" using demo_steps(1,2) by simp
  have s: "strip ''RuntimeError'' \<noteq> []" "strip [] = []" by code_simp+
  from action_failure_recorded [OF run dur_called_begin s(1), of "[]" 6] s(2) show ?thesis by blast
qed

end
