(* ===== verification/Durable_Recovery.thy ===== *)
theory Durable_Recovery
  imports Durable_Actions
begin

text \<open>
  \<open>RecoveryCoordinator.reconcile\<close> with the default policy, and the metadata filter
  \<open>_sanitize_metadata\<close> of \<open>durability/core.py\<close>.
\<close>

section \<open>Reconciliation\<close>

definition recovery_state :: "durable \<Rightarrow> run_row \<Rightarrow> string" where
  "recovery_state s r = (if rn_state r = ''running'' \<and> action_receipt_count s (rn_run_id r) = 0 \<and>
     rn_recovery_attempts r = 0 then ''queued'' else ''recovery_required'')"

definition recovered :: "durable \<Rightarrow> run_row \<Rightarrow> run_row \<Rightarrow> bool" where
  "recovered s r r' \<longleftrightarrow> rn_run_id r' = rn_run_id r \<and> rn_state r' = recovery_state s r \<and>
     rn_version r' = Suc (rn_version r) \<and>
     rn_recovery_attempts r' = rn_recovery_attempts r + (if recovery_state s r = ''queued'' then 1 else 0)"

abbreviation default_reconcile_one :: "(pval \<Rightarrow> string) \<Rightarrow> durable \<Rightarrow> run_row \<Rightarrow> timestamp
    \<Rightarrow> durable_error + durable \<times> reconciliation" where
  "default_reconcile_one str_of \<equiv> reconcile_one str_of ''default-v1'' (\<lambda>r n. Inr (default_policy r n))"

abbreviation default_reconcile_loop :: "(pval \<Rightarrow> string) \<Rightarrow> (string \<Rightarrow> timestamp) \<Rightarrow> durable \<Rightarrow> run_row list
    \<Rightarrow> durable \<times> (durable_error + reconciliation list)" where
  "default_reconcile_loop str_of \<equiv> reconcile_loop str_of ''default-v1'' (\<lambda>r n. Inr (default_policy r n))"

abbreviation default_reconcile :: "(pval \<Rightarrow> string) \<Rightarrow> (string \<Rightarrow> timestamp) \<Rightarrow> durable \<Rightarrow> timestamp
    \<Rightarrow> durable \<times> (durable_error + reconciliation list)" where
  "default_reconcile str_of \<equiv> reconcile str_of ''default-v1'' (\<lambda>r n. Inr (default_policy r n))"

lemma default_policy_live:
  assumes "rn_state r \<in> live_states"
  shows "\<exists>reason. strip reason \<noteq> [] \<and> default_policy r (action_receipt_count s (rn_run_id r)) =
    decision (if recovery_state s r = ''queued'' then ''requeue'' else ''manual'') reason ''default-v1''"
proof -
  have n: "strip ''external_action_receipt_present'' \<noteq> []" "strip ''no_external_action_and_first_recovery'' \<noteq> []"
    "strip ''automatic_recovery_budget_exhausted'' \<noteq> []" "strip ''cancellation_outcome_uncertain'' \<noteq> []" by code_simp+
  have t: "\<not> run_terminal r" using assms by (auto simp: live_states_def run_terminal_def terminal_states_def)
  consider "rn_state r = ''running''" | "rn_state r = ''cancelling''" using assms by (auto simp: live_states_def)
  then show ?thesis
  proof cases
    case 1
    with t n(1-3) show ?thesis by (auto simp: default_policy_def recovery_state_def)
  next
    case 2
    with t n(4) show ?thesis by (auto simp: default_policy_def recovery_state_def)
  qed
qed

lemma find_filter_other:
  "find (\<lambda>l. k l = i) (filter (\<lambda>l. k l \<noteq> j) ls) = (if i = j then None else find (\<lambda>l. k l = i) ls)"
  by (induction ls) auto

lemma lease_of_after:
  "lease_of (after_transition nxt r' t s) i =
     (if (nxt \<in> set terminal_states \<or> nxt = ''queued'') \<and> i = rn_run_id r' then None else lease_of s i)"
  by (simp add: lease_of_def after_transition_def delete_leases_def find_filter_other)

lemma after_transition_receipts [simp]: "receipts (after_transition nxt r' t s) = receipts s"
  by (simp add: after_transition_def delete_leases_def)

lemma fetch_run_after:
  assumes "durable_inv s" "r \<in> set (runs s)" "moves r r' t"
  shows "fetch_run (after_transition nxt r' t s) i = (if i = rn_run_id r then Some r' else fetch_run s i)"
  using fetch_run_move [OF assms] by (simp add: fetch_run_def after_transition_def delete_leases_def)

lemma reconcile_one_default:
  assumes inv: "durable_inv s" and f: "fetch_run s (rn_run_id r) = Some r" and live: "rn_state r \<in> live_states"
  shows "\<exists>s' item r'. default_reconcile_one str_of s r now = Inr (s', item) \<and> durable_inv s' \<and>
    ri_run_id item = rn_run_id r \<and> ri_applied item \<and> ri_next_state item = recovery_state s r \<and> recovered s r r' \<and>
    (\<forall>i. fetch_run s' i = (if i = rn_run_id r then Some r' else fetch_run s i)) \<and>
    (\<forall>i. lease_of s' i = (if i = rn_run_id r then None else lease_of s i)) \<and> receipts s' = receipts s"
proof -
  let ?n = "recovery_state s r"
  obtain reason where d: "strip reason \<noteq> []" "default_policy r (action_receipt_count s (rn_run_id r)) =
    decision (if ?n = ''queued'' then ''requeue'' else ''manual'') reason ''default-v1''"
    using default_policy_live [OF live] by blast
  have actor: "strip (''recovery:'' @ ''default-v1'') \<noteq> []" by code_simp
  have edge: "?n \<in> set (next_states (rn_state r))" and gone: "?n \<in> set terminal_states \<or> ?n = ''queued''"
    using live by (auto simp: recovery_state_def live_states_def next_states_def run_transitions_table_def terminal_states_def)
  have r: "r \<in> set (runs s)" using f fetch_run_iff [OF inv] by blast
  let ?md = "PDict [(PStr ''policy_id'', PStr ''default-v1'')]"
  obtain s' r' where tr: "run_transition str_of s (rn_run_id r) (rn_state r) (rn_version r) ?n reason
      (''recovery:'' @ ''default-v1'') ?md (?n = ''queued'') now = Inr (s', r')"
    using edge d(1) actor f by (simp add: run_transition_eq [OF inv])
  have one: "default_reconcile_one str_of s r now = Inr (s', \<lparr>ri_run_id = rn_run_id r, ri_previous_state = rn_state r,
      ri_next_state = ?n, ri_reason = reason, ri_policy_id = ''default-v1'', ri_applied = True\<rparr>)"
  proof (cases "?n = ''queued''")
    case True
    then show ?thesis using tr d(2) by (simp add: reconcile_one_def decision_def Let_def)
  next
    case False
    then have "?n = ''recovery_required''" by (simp add: recovery_state_def split: if_splits)
    then show ?thesis using tr d(2) by (simp add: reconcile_one_def decision_def Let_def)
  qed
  obtain r0 t where m: "r0 \<in> set (runs s)" "rn_run_id r0 = rn_run_id r" "rn_version r0 = rn_version r" "moves r0 r' t"
    "s' = after_transition ?n r' t s" "rn_state r' = ?n"
    "r' = fst (transition_result str_of r0 ?n (strip reason) (strip (''recovery:'' @ ''default-v1'')) ?md (?n = ''queued'') now)"
    by (rule run_transitionD [OF inv tr]) blast
  have "r0 = r" using m(1,2) fetch_run_iff [OF inv] f by (metis option.inject)
  with m(4) have mv: "moves r r' t" by simp
  have "rn_recovery_attempts r' = rn_recovery_attempts r + (if ?n = ''queued'' then 1 else 0)"
    using m(7) \<open>r0 = r\<close> by (simp add: transition_result_def)
  then have rec: "recovered s r r'" using mv m(6) by (simp add: recovered_def moves_def)
  have fr: "fetch_run s' i = (if i = rn_run_id r then Some r' else fetch_run s i)" for i
    unfolding m(5) by (rule fetch_run_after [OF inv r mv])
  have id: "rn_run_id r' = rn_run_id r" using mv by (simp add: moves_def)
  have lo: "lease_of s' i = (if i = rn_run_id r then None else lease_of s i)" for i
    unfolding m(5) lease_of_after id using gone by simp
  show ?thesis
    using one inv_run_transition [OF inv tr] rec fr lo m(5) by auto
qed

lemma recovery_state_cong:
  "receipts s' = receipts s \<Longrightarrow> recovery_state s' r = recovery_state s r"
  by (simp add: recovery_state_def action_receipt_count_def)

lemma reconcile_loop_default:
  assumes "durable_inv s" "\<And>r. r \<in> set rs \<Longrightarrow> fetch_run s (rn_run_id r) = Some r \<and> rn_state r \<in> live_states"
    "distinct (map rn_run_id rs)"
  shows "\<exists>s' items. default_reconcile_loop str_of clk s rs = (s', Inr items) \<and> durable_inv s' \<and>
    map ri_run_id items = map rn_run_id rs \<and> (\<forall>x \<in> set items. ri_applied x) \<and> receipts s' = receipts s \<and>
    (\<forall>r \<in> set rs. \<exists>r'. fetch_run s' (rn_run_id r) = Some r' \<and> recovered s r r' \<and> lease_of s' (rn_run_id r) = None) \<and>
    (\<forall>i. i \<notin> rn_run_id ` set rs \<longrightarrow> fetch_run s' i = fetch_run s i \<and> lease_of s' i = lease_of s i)"
  using assms
proof (induction rs arbitrary: s)
  case Nil
  then show ?case by simp
next
  case (Cons r rs)
  obtain s1 item r1 where one: "default_reconcile_one str_of s r (clk (rn_run_id r)) = Inr (s1, item)" "durable_inv s1"
    "ri_run_id item = rn_run_id r" "ri_applied item" "recovered s r r1"
    "\<forall>i. fetch_run s1 i = (if i = rn_run_id r then Some r1 else fetch_run s i)"
    "\<forall>i. lease_of s1 i = (if i = rn_run_id r then None else lease_of s i)" "receipts s1 = receipts s"
    using reconcile_one_default [OF Cons.prems(1), of r str_of "clk (rn_run_id r)"] Cons.prems(2) [of r] by auto
  have nr: "rn_run_id r \<notin> rn_run_id ` set rs" using Cons.prems(3) by simp
  have pre: "fetch_run s1 (rn_run_id q) = Some q \<and> rn_state q \<in> live_states" if "q \<in> set rs" for q
  proof -
    have "rn_run_id q \<noteq> rn_run_id r" using that nr by (metis imageI)
    with that Cons.prems(2) [of q] one(6) show ?thesis by simp
  qed
  from Cons.IH [OF one(2) pre] Cons.prems(3) obtain s2 items where rest:
    "default_reconcile_loop str_of clk s1 rs = (s2, Inr items)" "durable_inv s2"
    "map ri_run_id items = map rn_run_id rs" "\<forall>x \<in> set items. ri_applied x" "receipts s2 = receipts s1"
    "\<forall>r \<in> set rs. \<exists>r'. fetch_run s2 (rn_run_id r) = Some r' \<and> recovered s1 r r' \<and> lease_of s2 (rn_run_id r) = None"
    "\<forall>i. i \<notin> rn_run_id ` set rs \<longrightarrow> fetch_run s2 i = fetch_run s1 i \<and> lease_of s2 i = lease_of s1 i"
    by auto
  have "recovered s1 = recovered s"
    using recovery_state_cong [OF one(8)] by (simp add: fun_eq_iff recovered_def)
  with rest(6) have "\<forall>q \<in> set (r # rs). \<exists>r'. fetch_run s2 (rn_run_id q) = Some r' \<and> recovered s q r' \<and>
      lease_of s2 (rn_run_id q) = None"
    using rest(7) nr one(5,6,7) by auto
  moreover have "\<forall>i. i \<notin> rn_run_id ` set (r # rs) \<longrightarrow> fetch_run s2 i = fetch_run s i \<and> lease_of s2 i = lease_of s i"
    using rest(7) one(6,7) by auto
  ultimately show ?case
    using one(1,3,4,8) rest(1-5) by (intro exI [of _ s2] exI [of _ "item # items"]) simp
qed

text \<open>
  C7. Reconciliation with the default policy is total and exact. It reports every run that is running or
  cancelling without a live lease, once, as applied; each of them loses its lease and moves to the next
  version, back to \<open>queued\<close> (counting one recovery) when it was running, has no action receipt and was
  never recovered before, and to \<open>recovery_required\<close> otherwise; every other run and lease stays as it
  is, and no candidate is left.
\<close>

theorem reconcile_exact:
  assumes "durable_run str_of encode sha empty_durable s"
  shows "\<exists>s' items. reconcile str_of ''default-v1'' (\<lambda>r n. Inr (default_policy r n)) clk s now = (s', Inr items) \<and>
    map ri_run_id items = map rn_run_id (list_recovery_candidates s now) \<and> (\<forall>x \<in> set items. ri_applied x) \<and>
    (\<forall>r \<in> set (runs s).
       if recovery_candidate s now r
       then \<exists>r'. get_run s' (rn_run_id r) = Inr r' \<and> rn_version r' = Suc (rn_version r) \<and>
         lease_of s' (rn_run_id r) = None \<and>
         (if rn_state r = ''running'' \<and> action_receipt_count s (rn_run_id r) = 0 \<and> rn_recovery_attempts r = 0
          then rn_state r' = ''queued'' \<and> rn_recovery_attempts r' = 1
          else rn_state r' = ''recovery_required'' \<and> rn_recovery_attempts r' = rn_recovery_attempts r)
       else get_run s' (rn_run_id r) = Inr r \<and> lease_of s' (rn_run_id r) = lease_of s (rn_run_id r)) \<and>
    list_recovery_candidates s' now = []"
proof -
  have inv: "durable_inv s" by (rule durable_reachable_inv [OF assms])
  let ?rs = "list_recovery_candidates s now"
  have mem: "r \<in> set ?rs \<longleftrightarrow> r \<in> set (runs s) \<and> recovery_candidate s now r" for r
    by (auto simp: list_recovery_candidates_def)
  have pre: "fetch_run s (rn_run_id r) = Some r \<and> rn_state r \<in> live_states" if "r \<in> set ?rs" for r
    using that mem fetch_run_iff [OF inv] by (auto simp: recovery_candidate_def live_states_def)
  have "distinct (map rn_run_id (filter (recovery_candidate s now) (runs s)))"
    by (rule distinct_map_filter [OF durable_invD(1) [OF inv]])
  then have dis: "distinct (map rn_run_id ?rs)"
    by (simp add: list_recovery_candidates_def distinct_map)
  obtain s' items where l: "default_reconcile_loop str_of clk s ?rs = (s', Inr items)" "durable_inv s'"
    "map ri_run_id items = map rn_run_id ?rs" "\<forall>x \<in> set items. ri_applied x"
    "\<forall>r \<in> set ?rs. \<exists>r'. fetch_run s' (rn_run_id r) = Some r' \<and> recovered s r r' \<and> lease_of s' (rn_run_id r) = None"
    "\<forall>i. i \<notin> rn_run_id ` set ?rs \<longrightarrow> fetch_run s' i = fetch_run s i \<and> lease_of s' i = lease_of s i"
    using reconcile_loop_default [OF inv pre dis, of str_of clk] by blast
  have out: "rn_run_id r \<notin> rn_run_id ` set ?rs" if r: "r \<in> set (runs s)" "\<not> recovery_candidate s now r" for r
  proof
    assume "rn_run_id r \<in> rn_run_id ` set ?rs"
    then obtain q where q: "q \<in> set (runs s)" "recovery_candidate s now q" "rn_run_id q = rn_run_id r" using mem by auto
    have "q = r" by (rule distinct_map_eqD [OF durable_invD(1) [OF inv] q(1) r(1) q(3)])
    with q(2) r(2) show False by simp
  qed
  have cases: "if recovery_candidate s now r
       then \<exists>r'. get_run s' (rn_run_id r) = Inr r' \<and> rn_version r' = Suc (rn_version r) \<and>
         lease_of s' (rn_run_id r) = None \<and>
         (if rn_state r = ''running'' \<and> action_receipt_count s (rn_run_id r) = 0 \<and> rn_recovery_attempts r = 0
          then rn_state r' = ''queued'' \<and> rn_recovery_attempts r' = 1
          else rn_state r' = ''recovery_required'' \<and> rn_recovery_attempts r' = rn_recovery_attempts r)
       else get_run s' (rn_run_id r) = Inr r \<and> lease_of s' (rn_run_id r) = lease_of s (rn_run_id r)"
    if r: "r \<in> set (runs s)" for r
  proof (cases "recovery_candidate s now r")
    case True
    with r mem have "r \<in> set ?rs" by blast
    with l(5) obtain r' where "fetch_run s' (rn_run_id r) = Some r'" "recovered s r r'" "lease_of s' (rn_run_id r) = None"
      by blast
    with True show ?thesis by (auto simp: get_run_def recovered_def recovery_state_def)
  next
    case False
    have "fetch_run s (rn_run_id r) = Some r" using fetch_run_iff [OF inv] r by blast
    with False l(6) out [OF r False] show ?thesis by (simp add: get_run_def)
  qed
  have "\<not> recovery_candidate s' now q" if q: "q \<in> set (runs s')" for q
  proof (cases "rn_run_id q \<in> rn_run_id ` set ?rs")
    case True
    then obtain r r' where "r \<in> set ?rs" "rn_run_id r = rn_run_id q" "fetch_run s' (rn_run_id q) = Some r'" "recovered s r r'"
      using l(5) by (metis imageE)
    moreover have "fetch_run s' (rn_run_id q) = Some q" using q fetch_run_iff [OF l(2)] by blast
    ultimately have "recovered s r q" by simp
    then show ?thesis by (auto simp: recovered_def recovery_state_def recovery_candidate_def split: if_splits)
  next
    case False
    have "fetch_run s' (rn_run_id q) = Some q" using q fetch_run_iff [OF l(2)] by blast
    with l(6) False have same: "fetch_run s (rn_run_id q) = Some q" "lease_of s' (rn_run_id q) = lease_of s (rn_run_id q)" by auto
    then have "q \<in> set (runs s)" using fetch_run_iff [OF inv] by blast
    with False mem have "\<not> recovery_candidate s now q" by blast
    with same(2) show ?thesis by (simp add: recovery_candidate_def)
  qed
  then have "list_recovery_candidates s' now = []" by (simp add: list_recovery_candidates_def filter_empty_conv)
  with l(1,3,4) cases show ?thesis by (simp add: reconcile_def)
qed

theorem reconcile_exact_witness:
  "\<exists>s' items. reconcile demo_str ''default-v1'' (\<lambda>r n. Inr (default_policy r n)) (\<lambda>i. 101) dur2 100 = (s', Inr items) \<and>
     map ri_run_id items = [''r1''] \<and> list_recovery_candidates s' 100 = []"
proof -
  have run: "demo_run empty_durable dur2" using demo_steps(1,2) by simp
  have "map rn_run_id (list_recovery_candidates dur2 100) = [''r1'']" by code_simp
  with reconcile_exact [OF run, of "\<lambda>i. 101" 100] show ?thesis by metis
qed

section \<open>The metadata filter\<close>

text \<open>
  A value the filter returns \<open>n\<close> levels above the cut: mappings and lists of at most 100 items, string
  keys of at most 100 characters without a secret marker, strings of at most 4000 characters.
\<close>

fun clean_metadata :: "nat \<Rightarrow> pval \<Rightarrow> bool" where
  "clean_metadata 0 v = (v = PStr ''<max-depth>'')"
| "clean_metadata (Suc n) (PDict kvs) = (length kvs \<le> 100 \<and> distinct (map fst kvs) \<and>
     (\<forall>kv \<in> set kvs. (\<exists>k. fst kv = PStr k \<and> length k \<le> 100 \<and> \<not> secret_key k) \<and> clean_metadata n (snd kv)))"
| "clean_metadata (Suc n) (PList vs) = (length vs \<le> 100 \<and> (\<forall>v \<in> set vs. clean_metadata n v))"
| "clean_metadata (Suc n) (PTuple vs) = False"
| "clean_metadata (Suc n) (POther t) = False"
| "clean_metadata (Suc n) (PStr s) = (length s \<le> 4000)"
| "clean_metadata (Suc n) v = True"

text \<open>The mapping case of the filter as a fold, with the invariant of the fold.\<close>

definition filter_item :: "(pval \<Rightarrow> string) \<Rightarrow> nat \<Rightarrow> pval \<times> pval \<Rightarrow> (pval \<times> pval) list \<Rightarrow> (pval \<times> pval) list" where
  "filter_item str_of depth kv output = (if secret_key (key_text str_of (fst kv)) then output
     else dict_set (PStr (key_text str_of (fst kv))) (sanitize str_of (depth + 1) (snd kv)) output)"

definition item_ok :: "nat \<Rightarrow> pval \<times> pval \<Rightarrow> bool" where
  "item_ok n kv \<longleftrightarrow> (\<exists>k. fst kv = PStr k \<and> length k \<le> 100 \<and> \<not> secret_key k) \<and> clean_metadata n (snd kv)"

lemma length_dict_set: "length (dict_set k v kvs) \<le> Suc (length kvs)"
  by (induction k v kvs rule: dict_set.induct) auto

lemma key_text_length [simp]: "length (key_text str_of k) \<le> 100"
  by (simp add: key_text_def)

lemma filter_fold_ok:
  assumes "\<And>kv. kv \<in> set kvs \<Longrightarrow> \<not> secret_key (key_text str_of (fst kv)) \<Longrightarrow>
      clean_metadata n (sanitize str_of (depth + 1) (snd kv))"
    "distinct (map fst acc)" "\<And>kv. kv \<in> set acc \<Longrightarrow> item_ok n kv"
  shows "distinct (map fst (fold (filter_item str_of depth) kvs acc)) \<and>
    (\<forall>kv \<in> set (fold (filter_item str_of depth) kvs acc). item_ok n kv) \<and>
    length (fold (filter_item str_of depth) kvs acc) \<le> length kvs + length acc"
  using assms
proof (induction kvs arbitrary: acc)
  case Nil
  then show ?case by simp
next
  case (Cons kv kvs)
  let ?acc = "filter_item str_of depth kv acc"
  have d: "distinct (map fst ?acc)" using Cons.prems(2) by (simp add: filter_item_def distinct_dict_set)
  have i: "item_ok n x" if "x \<in> set ?acc" for x
  proof (cases "x \<in> set acc")
    case True
    then show ?thesis by (rule Cons.prems(3))
  next
    case False
    with that have "\<not> secret_key (key_text str_of (fst kv))"
      "x = (PStr (key_text str_of (fst kv)), sanitize str_of (depth + 1) (snd kv))"
      by (auto simp: filter_item_def dest!: set_dict_set split: if_splits)
    with Cons.prems(1) [of kv] show ?thesis by (simp add: item_ok_def)
  qed
  have "length ?acc \<le> Suc (length acc)" by (simp add: filter_item_def length_dict_set)
  with Cons.IH [OF _ d i] Cons.prems(1) show ?case by fastforce
qed

lemma sanitize_simps:
  "depth \<le> 6 \<Longrightarrow> sanitize str_of depth (PDict kvs) = PDict (fold (filter_item str_of depth) (take 100 kvs) [])"
  "depth \<le> 6 \<Longrightarrow> sanitize str_of depth (PList vs) = PList (map (sanitize str_of (depth + 1)) (take 100 vs))"
  "depth \<le> 6 \<Longrightarrow> sanitize str_of depth (PTuple vs) = PList (map (sanitize str_of (depth + 1)) (take 100 vs))"
  "depth \<le> 6 \<Longrightarrow> sanitize str_of depth (PStr s) = PStr (take 4000 s)"
  "depth \<le> 6 \<Longrightarrow> sanitize str_of depth (POther t) = PStr (take 4000 (str_of (POther t)))"
  "depth \<le> 6 \<Longrightarrow> sanitize str_of depth PNone = PNone"
  "depth \<le> 6 \<Longrightarrow> sanitize str_of depth (PBool b) = PBool b"
  "depth \<le> 6 \<Longrightarrow> sanitize str_of depth (PInt i) = PInt i"
  "depth \<le> 6 \<Longrightarrow> sanitize str_of depth (PFloat q) = PFloat q"
  "depth \<le> 6 \<Longrightarrow> sanitize str_of depth (PNonFinite x) = PNonFinite x"
  by (subst sanitize.simps, simp add: filter_item_def [abs_def])+

lemma sanitize_cut: "sanitize str_of 7 v = PStr ''<max-depth>''"
  by (subst sanitize.simps) simp

lemma sanitize_clean: "n \<le> 7 \<Longrightarrow> clean_metadata n (sanitize str_of (7 - n) v)"
proof (induction n arbitrary: v)
  case 0
  show ?case by (simp add: sanitize_cut)
next
  case (Suc n)
  have d: "7 - Suc n \<le> 6" "7 - Suc n + 1 = 7 - n" "n \<le> 7" using Suc.prems by simp_all
  have ih: "clean_metadata n (sanitize str_of (7 - Suc n + 1) x)" for x unfolding d(2) by (rule Suc.IH [OF d(3)])
  show ?case
  proof (cases v)
    case (PDict kvs)
    have "distinct (map fst (fold (filter_item str_of (7 - Suc n)) (take 100 kvs) []))"
      "\<forall>kv \<in> set (fold (filter_item str_of (7 - Suc n)) (take 100 kvs) []). item_ok n kv"
      "length (fold (filter_item str_of (7 - Suc n)) (take 100 kvs) []) \<le> 100"
      using filter_fold_ok [where kvs = "take 100 kvs" and n = n and str_of = str_of and depth = "7 - Suc n" and acc = "[]"] ih
      by auto
    with PDict d(1) show ?thesis by (simp add: sanitize_simps item_ok_def del: diff_Suc_Suc)
  qed (use d(1) ih in \<open>auto simp: sanitize_simps simp del: diff_Suc_Suc\<close>)
qed

lemma fold_filter_clean:
  assumes "\<And>kv. kv \<in> set kvs \<Longrightarrow> item_ok n kv \<and> sanitize str_of (depth + 1) (snd kv) = snd kv"
    "distinct (map fst (acc @ kvs))"
  shows "fold (filter_item str_of depth) kvs acc = acc @ kvs"
  using assms
proof (induction kvs arbitrary: acc)
  case Nil
  then show ?case by simp
next
  case (Cons kv kvs)
  from Cons.prems(1) [of kv] obtain k where k: "fst kv = PStr k" "length k \<le> 100" "\<not> secret_key k"
    "sanitize str_of (depth + 1) (snd kv) = snd kv" by (auto simp: item_ok_def)
  have "PStr k \<notin> fst ` set acc" using Cons.prems(2) k(1) by auto
  then have "filter_item str_of depth kv acc = acc @ [kv]"
    using k by (cases kv) (simp add: filter_item_def key_text_def dict_set_new)
  with Cons.IH [of "acc @ [kv]"] Cons.prems show ?case by simp
qed

lemma sanitize_fixed: "n \<le> 7 \<Longrightarrow> clean_metadata n v \<Longrightarrow> sanitize str_of (7 - n) v = v"
proof (induction n arbitrary: v)
  case 0
  then show ?case by (simp add: sanitize_cut)
next
  case (Suc n)
  have d: "7 - Suc n \<le> 6" "7 - Suc n + 1 = 7 - n" "n \<le> 7" using Suc.prems by simp_all
  have ih: "sanitize str_of (7 - Suc n + 1) x = x" if "clean_metadata n x" for x
    unfolding d(2) by (rule Suc.IH [OF d(3) that])
  show ?case
  proof (cases v)
    case (PDict kvs)
    have "fold (filter_item str_of (7 - Suc n)) kvs [] = [] @ kvs"
      by (rule fold_filter_clean [where n = n]) (use Suc.prems(2) PDict ih in \<open>auto simp: item_ok_def\<close>)
    with PDict d(1) Suc.prems(2) show ?thesis by (simp add: sanitize_simps del: diff_Suc_Suc)
  next
    case (PList vs)
    have "map (sanitize str_of (7 - Suc n + 1)) vs = vs"
      by (rule map_idI) (use Suc.prems(2) PList ih in auto)
    with PList d(1) Suc.prems(2) show ?thesis by (simp add: sanitize_simps del: diff_Suc_Suc)
  qed (use d(1) Suc.prems(2) in \<open>auto simp: sanitize_simps simp del: diff_Suc_Suc\<close>)
qed

text \<open>
  Metadata and outcomes are filtered before they are stored: the stored value nests at most seven
  levels, its mappings and lists have at most 100 entries, strings are cut at 4000 characters and keys at
  100, and no key at any depth contains a secret marker (in any case, with hyphens read as underscores).
  Filtering a stored value again changes nothing.
\<close>

theorem metadata_filtered:
  "clean_metadata 7 (stored_json str_of v) \<and> stored_json str_of (stored_json str_of v) = stored_json str_of v"
  using sanitize_clean [of 7 str_of v] sanitize_fixed [of 7 "stored_json str_of v" str_of]
  by (simp add: stored_json_def)

end
