(* ===== verification/Py_Path.thy ===== *)
theory Py_Path
  imports Prelude
begin

text \<open>
  \<open>pathlib\<close> on POSIX: parsing of a path into its root and parts, its name and text, joining, and the
  test behind \<open>relative_to\<close>. What depends on the file system (\<open>resolve\<close>, links) is a parameter of the
  definitions that use it.
\<close>

fun split_char :: "char \<Rightarrow> string \<Rightarrow> string list" where
  "split_char c [] = [[]]"
| "split_char c (x # xs) = (if x = c then [] # split_char c xs
     else (case split_char c xs of [] \<Rightarrow> [[x]] | y # ys \<Rightarrow> (x # y) # ys))"

fun join_with :: "string \<Rightarrow> string list \<Rightarrow> string" where
  "join_with sep [] = []"
| "join_with sep [x] = x"
| "join_with sep (x # y # ys) = x @ sep @ join_with sep (y # ys)"

record posix_path =
  pp_root :: string
  pp_parts :: "string list"

text \<open>A leading slash is the root; exactly two leading slashes are kept, as POSIX asks.\<close>

definition path_of :: "string \<Rightarrow> posix_path" where
  "path_of raw = \<lparr>pp_root = (if take 1 raw \<noteq> ''/'' then []
       else if take 2 raw = ''//'' \<and> take 3 raw \<noteq> ''///'' then ''//'' else ''/''),
     pp_parts = filter (\<lambda>p. p \<noteq> [] \<and> p \<noteq> ''.'') (split_char (CHR ''/'') raw)\<rparr>"

definition path_text :: "posix_path \<Rightarrow> string" where
  "path_text p = (if pp_root p = [] \<and> pp_parts p = [] then ''.'' else pp_root p @ join_with ''/'' (pp_parts p))"

definition path_name :: "posix_path \<Rightarrow> string" where
  "path_name p = (if pp_parts p = [] then [] else last (pp_parts p))"

definition path_absolute :: "posix_path \<Rightarrow> bool" where
  "path_absolute p = (pp_root p \<noteq> [])"

definition path_join :: "posix_path \<Rightarrow> posix_path \<Rightarrow> posix_path" where
  "path_join a b = (if pp_root b \<noteq> [] then b else a\<lparr>pp_parts := pp_parts a @ pp_parts b\<rparr>)"

text \<open>\<open>p.relative_to(base)\<close> does not raise.\<close>

definition relative_to :: "posix_path \<Rightarrow> posix_path \<Rightarrow> bool" where
  "relative_to p base = (pp_root p = pp_root base \<and> prefix (pp_parts base) (pp_parts p))"

lemma relative_to_refl [simp]: "relative_to p p"
  by (simp add: relative_to_def)

lemma relative_to_trans: "relative_to a b \<Longrightarrow> relative_to b c \<Longrightarrow> relative_to a c"
  by (auto simp: relative_to_def intro: prefix_order.trans)

lemma relative_to_join: "pp_root b = [] \<Longrightarrow> relative_to (path_join a b) a"
  by (simp add: relative_to_def path_join_def)

end
