(* ===== verification/Team_Dag.thy ===== *)
theory Team_Dag
  imports Py_Value Py_Path
begin

text \<open>
  \<open>multiagent/dag.py\<close>: validation of the task graph of a team run (duplicate ids, unknown
  dependencies, Kahn's algorithm, per-task sanity, write conflicts, terminal task) and the status of
  its tasks, with the task contract of \<open>multiagent/contracts.py\<close>. Dictionaries are association lists in
  insertion order, the sets of paths lists.
\<close>

datatype team_status = TeamPending | TeamReady | TeamRunning | TeamCompleted | TeamFailed | TeamBlocked | TeamCancelled

record agent_task =
  ag_task_id :: string
  ag_title :: string
  ag_objective :: string
  ag_acceptance_criteria :: "string list"
  ag_allowed_paths :: "string list"
  ag_writable_paths :: "string list"
  ag_allowed_tools :: "string list"
  ag_dependencies :: "string list"
  ag_parent_task_id :: "string option"
  ag_input_artifact_ids :: "string list"
  ag_expected_artifacts :: "string list"
  ag_max_steps :: int
  ag_timeout_seconds :: int
  ag_priority :: int

record dag_validation =
  dv_valid :: bool
  dv_errors :: "string list"
  dv_topological_order :: "string list option"

section \<open>Graph building\<close>

text \<open>\<open>d[k] = f(d[k])\<close> on a key of the dictionary.\<close>

definition adjust :: "'k \<Rightarrow> ('v \<Rightarrow> 'v) \<Rightarrow> ('k \<times> 'v) list \<Rightarrow> ('k \<times> 'v) list" where
  "adjust k f kvs = map (\<lambda>kv. if fst kv = k then (fst kv, f (snd kv)) else kv) kvs"

definition lookup_list :: "('k \<times> 'v list) list \<Rightarrow> 'k \<Rightarrow> 'v list" where
  "lookup_list g k = (case map_of g k of None \<Rightarrow> [] | Some vs \<Rightarrow> vs)"

type_synonym dependents = "(string \<times> string list) list"
type_synonym degrees = "(string \<times> int) list"

definition add_edge :: "string \<Rightarrow> string \<Rightarrow> dependents \<times> degrees \<Rightarrow> dependents \<times> degrees" where
  "add_edge task_id dep g = (if dep \<in> fst ` set (fst g)
     then (adjust dep (\<lambda>xs. xs @ [task_id]) (fst g), adjust task_id (\<lambda>d. d + 1) (snd g)) else g)"

definition empty_graph :: "agent_task list \<Rightarrow> dependents \<times> degrees" where
  "empty_graph tasks = (fold (\<lambda>t. dict_set (ag_task_id t) []) tasks [],
     fold (\<lambda>t. dict_set (ag_task_id t) 0) tasks [])"

definition build_graph :: "agent_task list \<Rightarrow> dependents \<times> degrees" where
  "build_graph tasks = fold (\<lambda>t g. fold (add_edge (ag_task_id t)) (ag_dependencies t) g) tasks (empty_graph tasks)"

section \<open>Kahn's algorithm\<close>

definition release_task :: "string \<Rightarrow> string list \<times> degrees \<Rightarrow> string list \<times> degrees" where
  "release_task d st = (let deg = adjust d (\<lambda>x. x - 1) (snd st) in
     if map_of deg d = Some 0 then (fst st @ [d], deg) else (fst st, deg))"

definition positives :: "degrees \<Rightarrow> nat" where
  "positives deg = length (filter (\<lambda>kv. 0 < snd kv) deg)"

lemma positives_adjust: "positives (adjust d (\<lambda>x. x - 1) deg) \<le> positives deg"
  by (induction deg) (auto simp: positives_def adjust_def)

lemma positives_release:
  "map_of (adjust d (\<lambda>x. x - 1) deg) d = Some 0 \<Longrightarrow> Suc (positives (adjust d (\<lambda>x. x - 1) deg)) \<le> positives deg"
proof (induction deg)
  case Nil
  then show ?case by (simp add: adjust_def)
next
  case (Cons kv deg)
  show ?case
  proof (cases "fst kv = d")
    case True
    with Cons.prems have "snd kv = 1" by (simp add: adjust_def)
    with True positives_adjust [of d deg] show ?thesis by (simp add: positives_def adjust_def)
  next
    case False
    with Cons show ?thesis by (auto simp: positives_def adjust_def)
  qed
qed

lemma release_measure:
  "length (fst (release_task d st)) + positives (snd (release_task d st)) \<le> length (fst st) + positives (snd st)"
  using positives_adjust [of d "snd st"] positives_release [of d "snd st"]
  by (auto simp: release_task_def Let_def)

lemma release_fold_measure:
  "length (fst (fold release_task ds st)) + positives (snd (fold release_task ds st)) \<le> length (fst st) + positives (snd st)"
proof (induction ds arbitrary: st)
  case Nil
  show ?case by simp
next
  case (Cons d ds)
  show ?case using Cons [of "release_task d st"] release_measure [of d st] by simp
qed

function kahn :: "dependents \<Rightarrow> string list \<Rightarrow> degrees \<Rightarrow> string list \<Rightarrow> string list \<times> degrees" where
  "kahn g [] deg topo = (topo, deg)"
| "kahn g (current # queue) deg topo =
    (let st = fold release_task (lookup_list g current) (queue, deg) in kahn g (fst st) (snd st) (topo @ [current]))"
  by pat_completeness auto
termination
  by (relation "measure (\<lambda>(g, queue, deg, topo). length queue + positives deg)")
    (use release_fold_measure in \<open>auto simp: less_Suc_eq_le\<close>)

section \<open>Reachability\<close>

text \<open>\<open>_reachable\<close>; the head of the list is the top of the stack, so \<open>extend\<close> puts the children in front, last first.\<close>

function reach :: "dependents \<Rightarrow> string \<Rightarrow> string list \<Rightarrow> string list \<Rightarrow> bool" where
  "reach g target visited [] = False"
| "reach g target visited (current # stack) =
    (if current = target then True
     else if current \<in> set visited then reach g target visited stack
     else reach g target (current # visited) (rev (lookup_list g current) @ stack))"
  by pat_completeness auto
termination
proof (relation "measures [\<lambda>(g, target, visited, stack). length (filter (\<lambda>kv. fst kv \<notin> set visited) g),
      \<lambda>(g, target, visited, stack). length stack]", goal_cases)
  case (3 g target visited current stack)
  have le: "length (filter (\<lambda>kv. fst kv \<notin> set (current # visited)) g) \<le> length (filter (\<lambda>kv. fst kv \<notin> set visited) g)"
    by (induction g) auto
  show ?case
  proof (cases "map_of g current")
    case None
    with le show ?thesis by (auto simp: lookup_list_def)
  next
    case (Some vs)
    have "length (filter (\<lambda>kv. fst kv \<notin> set (current # visited)) g) < length (filter (\<lambda>kv. fst kv \<notin> set visited) g)"
      if "current \<in> fst ` set g" "current \<notin> set visited" for g :: dependents
      using that
    proof (induction g)
      case Nil
      then show ?case by simp
    next
      case (Cons kv g)
      have "length (filter (\<lambda>kv. fst kv \<notin> set (current # visited)) g) \<le> length (filter (\<lambda>kv. fst kv \<notin> set visited) g)"
        by (induction g) auto
      with Cons show ?case by auto
    qed
    moreover have "current \<in> fst ` set g" using Some by (metis map_of_eq_None_iff option.distinct(1))
    ultimately show ?thesis using 3 by simp
  qed
qed auto

definition reachable_from :: "string \<Rightarrow> string \<Rightarrow> dependents \<Rightarrow> bool" where
  "reachable_from start target g = reach g target [] [start]"

section \<open>Validation\<close>

definition concrete_writable_paths :: "agent_task \<Rightarrow> string list" where
  "concrete_writable_paths task = dedup (map (\<lambda>p. path_text (path_of p))
      (filter (\<lambda>p. contains ''.'' (path_name (path_of p))) (ag_writable_paths task)) @ ag_expected_artifacts task)"

text \<open>\<open>writable_sets\<close> is a dictionary by id: of two tasks with one id the later one counts.\<close>

definition writable_sets :: "agent_task list \<Rightarrow> (string \<times> string list) list" where
  "writable_sets tasks = fold (\<lambda>t. dict_set (ag_task_id t) (concrete_writable_paths t)) tasks []"

fun later_pairs :: "'a list \<Rightarrow> ('a \<times> 'a) list" where
  "later_pairs [] = []"
| "later_pairs (x # xs) = map (Pair x) xs @ later_pairs xs"

fun duplicate_errors :: "string list \<Rightarrow> agent_task list \<Rightarrow> string list" where
  "duplicate_errors seen [] = []"
| "duplicate_errors seen (t # ts) = (if ag_task_id t \<in> set seen then [''duplicate task_id: '' @ ag_task_id t] else [])
     @ duplicate_errors (ag_task_id t # seen) ts"

definition unknown_errors :: "agent_task list \<Rightarrow> string list" where
  "unknown_errors tasks = concat (map (\<lambda>t. map (\<lambda>dep. ''task '' @ ag_task_id t @ '' depends on unknown task '' @ dep)
     (filter (\<lambda>dep. dep \<notin> ag_task_id ` set tasks) (ag_dependencies t))) tasks)"

definition cycle_errors :: "agent_task list \<Rightarrow> string list \<times> degrees \<Rightarrow> string list" where
  "cycle_errors tasks r = (if length (fst r) \<noteq> length tasks
     then [''cycle detected involving tasks: '' @ join_with '', '' (sort (map fst (filter (\<lambda>kv. 0 < snd kv) (snd r))))]
     else [])"

definition sanity_errors :: "agent_task list \<Rightarrow> string list" where
  "sanity_errors tasks = concat (map (\<lambda>t.
     (if ag_acceptance_criteria t = [] then [''task '' @ ag_task_id t @ '' has no acceptance criteria''] else []) @
     (if ag_max_steps t < 1 then [''task '' @ ag_task_id t @ '' max_steps must be positive''] else []) @
     (if ag_timeout_seconds t < 1 then [''task '' @ ag_task_id t @ '' timeout_seconds must be positive''] else []))
     tasks)"

definition path_overlap :: "agent_task list \<Rightarrow> agent_task \<Rightarrow> agent_task \<Rightarrow> string list" where
  "path_overlap tasks a b = filter (\<lambda>p. p \<in> set (lookup_list (writable_sets tasks) (ag_task_id b)))
     (lookup_list (writable_sets tasks) (ag_task_id a))"

definition conflict_errors :: "agent_task list \<Rightarrow> dependents \<Rightarrow> string list" where
  "conflict_errors tasks g = concat (map (\<lambda>(a, b).
     if path_overlap tasks a b = [] then []
     else if \<not> reachable_from (ag_task_id a) (ag_task_id b) g \<and> \<not> reachable_from (ag_task_id b) (ag_task_id a) g
     then [''writable path conflict between '' @ ag_task_id a @ '' and '' @ ag_task_id b @ '': '' @
             join_with '', '' (sort (path_overlap tasks a b))]
     else []) (later_pairs tasks))"

definition terminal_errors :: "agent_task list \<Rightarrow> dependents \<Rightarrow> string list" where
  "terminal_errors tasks g =
     (if (\<forall>t \<in> set tasks. lookup_list g (ag_task_id t) \<noteq> []) \<and> tasks \<noteq> [] then [''DAG has no terminal task''] else [])"

definition sort_tasks :: "agent_task list \<Rightarrow> string list \<times> degrees" where
  "sort_tasks tasks = (let g = build_graph tasks in
     kahn (fst g) (map fst (filter (\<lambda>kv. snd kv = 0) (snd g))) (snd g) [])"

definition validate_task_dag :: "agent_task list \<Rightarrow> dag_validation" where
  "validate_task_dag tasks =
    (let g = fst (build_graph tasks); r = sort_tasks tasks;
         errors = duplicate_errors [] tasks @ unknown_errors tasks @ cycle_errors tasks r @ sanity_errors tasks @
           conflict_errors tasks g @ terminal_errors tasks g in
     if errors \<noteq> [] then \<lparr>dv_valid = False, dv_errors = errors, dv_topological_order = None\<rparr>
     else \<lparr>dv_valid = True, dv_errors = [], dv_topological_order = Some (fst r)\<rparr>)"

section \<open>Task status\<close>

definition next_status :: "string list \<Rightarrow> (string \<times> team_status) list \<Rightarrow> agent_task \<Rightarrow> team_status" where
  "next_status results status t =
    (if ag_task_id t \<in> set results then TeamCompleted
     else if \<forall>dep \<in> set (ag_dependencies t). map_of status dep = Some TeamCompleted then TeamReady
     else TeamPending)"

definition compute_task_status :: "agent_task list \<Rightarrow> string list \<Rightarrow> (string \<times> team_status) list" where
  "compute_task_status tasks results =
     fold (\<lambda>t status. dict_set (ag_task_id t) (next_status results status t) status) tasks []"

end
