(* ===== verification/Team_Dag_Graph.thy ===== *)
theory Team_Dag_Graph
  imports Team_Dag
begin

text \<open>
  Correctness of the graph algorithms of \<open>multiagent/dag.py\<close>: what \<open>build_graph\<close> computes, Kahn's loop
  against acyclicity of the dependency relation, and the search against its reflexive transitive closure.
\<close>

section \<open>Dictionaries\<close>

lemma fst_adjust [simp]: "map fst (adjust k f kvs) = map fst kvs"
  by (simp add: adjust_def)

lemma keys_adjust [simp]: "fst ` set (adjust k f kvs) = fst ` set kvs"
  using fst_adjust [of k f kvs] by (metis list.set_map)

lemma map_of_adjust: "map_of (adjust k f kvs) x = (if x = k then map_option f (map_of kvs x) else map_of kvs x)"
  by (induction kvs) (auto simp: adjust_def)

lemma fold_dict_set:
  assumes "distinct (map k ts)" "\<And>t. t \<in> set ts \<Longrightarrow> k t \<notin> fst ` set acc"
  shows "fold (\<lambda>t. dict_set (k t) (v t)) ts acc = acc @ map (\<lambda>t. (k t, v t)) ts"
  using assms
proof (induction ts arbitrary: acc)
  case Nil
  then show ?case by simp
next
  case (Cons t ts)
  have "dict_set (k t) (v t) acc = acc @ [(k t, v t)]" by (rule dict_set_new) (use Cons.prems in simp)
  moreover have "k u \<notin> fst ` set (acc @ [(k t, v t)])" if "u \<in> set ts" for u
    using Cons.prems that by (auto simp: image_iff)
  ultimately show ?case using Cons.IH [of "acc @ [(k t, v t)]"] Cons.prems(1) by simp
qed

lemma map_of_const: "t \<in> set ts \<Longrightarrow> map_of (map (\<lambda>t. (k t, v)) ts) (k t) = Some v"
  by (induction ts) auto

section \<open>The graph of the tasks\<close>

text \<open>Tasks with distinct ids whose dependencies are tasks: the inputs the two first checks let through.\<close>

definition well_named :: "agent_task list \<Rightarrow> bool" where
  "well_named tasks \<longleftrightarrow> distinct (map ag_task_id tasks) \<and>
     (\<forall>t \<in> set tasks. set (ag_dependencies t) \<subseteq> ag_task_id ` set tasks)"

definition deps_of :: "agent_task list \<Rightarrow> string \<Rightarrow> string list" where
  "deps_of tasks x = (case find (\<lambda>t. ag_task_id t = x) tasks of None \<Rightarrow> [] | Some t \<Rightarrow> ag_dependencies t)"

definition dep_edges :: "agent_task list \<Rightarrow> (string \<times> string) set" where
  "dep_edges tasks = {(d, ag_task_id t) | d t. t \<in> set tasks \<and> d \<in> set (ag_dependencies t)}"

lemma deps_of_task:
  "distinct (map ag_task_id tasks) \<Longrightarrow> t \<in> set tasks \<Longrightarrow> deps_of tasks (ag_task_id t) = ag_dependencies t"
  by (simp add: deps_of_def find_key_Some)

lemma dep_edges_deps_of:
  assumes "distinct (map ag_task_id tasks)"
  shows "(d, x) \<in> dep_edges tasks \<longleftrightarrow> x \<in> ag_task_id ` set tasks \<and> d \<in> set (deps_of tasks x)"
  using deps_of_task [OF assms] by (auto simp: dep_edges_def)

definition users_in :: "agent_task list \<Rightarrow> string \<Rightarrow> string list" where
  "users_in ts x = concat (map (\<lambda>t. map (\<lambda>_. ag_task_id t) (filter (\<lambda>d. d = x) (ag_dependencies t))) ts)"

lemma add_edges_one:
  assumes "\<And>d. d \<in> set ds \<Longrightarrow> d \<in> fst ` set (fst g)"
  shows "map fst (fst (fold (add_edge i) ds g)) = map fst (fst g)" "map fst (snd (fold (add_edge i) ds g)) = map fst (snd g)"
    "map_of (fst (fold (add_edge i) ds g)) x = map_option (\<lambda>xs. xs @ map (\<lambda>_. i) (filter (\<lambda>d. d = x) ds)) (map_of (fst g) x)"
    "map_of (snd (fold (add_edge i) ds g)) x = map_option (\<lambda>n. n + (if x = i then int (length ds) else 0)) (map_of (snd g) x)"
proof -
  have "map fst (fst (fold (add_edge i) ds g)) = map fst (fst g) \<and> map fst (snd (fold (add_edge i) ds g)) = map fst (snd g) \<and>
    map_of (fst (fold (add_edge i) ds g)) x = map_option (\<lambda>xs. xs @ map (\<lambda>_. i) (filter (\<lambda>d. d = x) ds)) (map_of (fst g) x) \<and>
    map_of (snd (fold (add_edge i) ds g)) x = map_option (\<lambda>n. n + (if x = i then int (length ds) else 0)) (map_of (snd g) x)"
    using assms
  proof (induction ds arbitrary: g)
    case Nil
    show ?case by (simp add: map_option.id [unfolded id_def])
  next
    case (Cons d ds)
    have d: "d \<in> fst ` set (fst g)" using Cons.prems by simp
    then have k: "fst ` set (fst (add_edge i d g)) = fst ` set (fst g)"
      by (simp add: add_edge_def)
    from Cons.IH [of "add_edge i d g"] Cons.prems k d show ?case
      by (auto simp: add_edge_def map_of_adjust map_option.compositionality o_def add.assoc)
  qed
  then show "map fst (fst (fold (add_edge i) ds g)) = map fst (fst g)" "map fst (snd (fold (add_edge i) ds g)) = map fst (snd g)"
    "map_of (fst (fold (add_edge i) ds g)) x = map_option (\<lambda>xs. xs @ map (\<lambda>_. i) (filter (\<lambda>d. d = x) ds)) (map_of (fst g) x)"
    "map_of (snd (fold (add_edge i) ds g)) x = map_option (\<lambda>n. n + (if x = i then int (length ds) else 0)) (map_of (snd g) x)"
    by blast+
qed

definition dep_total :: "agent_task list \<Rightarrow> string \<Rightarrow> nat" where
  "dep_total ts x = sum_list (map (\<lambda>t. if ag_task_id t = x then length (ag_dependencies t) else 0) ts)"

lemma add_edges_all:
  assumes "\<And>t. t \<in> set ts \<Longrightarrow> set (ag_dependencies t) \<subseteq> fst ` set (fst g)"
  shows "map fst (fst (fold (\<lambda>t g. fold (add_edge (ag_task_id t)) (ag_dependencies t) g) ts g)) = map fst (fst g) \<and>
    map fst (snd (fold (\<lambda>t g. fold (add_edge (ag_task_id t)) (ag_dependencies t) g) ts g)) = map fst (snd g) \<and>
    map_of (fst (fold (\<lambda>t g. fold (add_edge (ag_task_id t)) (ag_dependencies t) g) ts g)) x =
      map_option (\<lambda>xs. xs @ users_in ts x) (map_of (fst g) x) \<and>
    map_of (snd (fold (\<lambda>t g. fold (add_edge (ag_task_id t)) (ag_dependencies t) g) ts g)) x =
      map_option (\<lambda>n. n + int (dep_total ts x)) (map_of (snd g) x)"
  using assms
proof (induction ts arbitrary: g)
  case Nil
  show ?case by (simp add: users_in_def dep_total_def map_option.id [unfolded id_def])
next
  case (Cons t ts)
  have pre: "d \<in> fst ` set (fst g)" if "d \<in> set (ag_dependencies t)" for d using Cons.prems that by auto
  note one = add_edges_one [of "ag_dependencies t" g "ag_task_id t", OF pre]
  have k: "fst ` set (fst (fold (add_edge (ag_task_id t)) (ag_dependencies t) g)) = fst ` set (fst g)"
    using one(1) by (metis list.set_map)
  from Cons.IH [of "fold (add_edge (ag_task_id t)) (ag_dependencies t) g"] Cons.prems k one show ?case
    by (auto simp: users_in_def dep_total_def map_option.compositionality o_def add.assoc)
qed

lemma dep_total_task:
  "distinct (map ag_task_id ts) \<Longrightarrow> t \<in> set ts \<Longrightarrow> dep_total ts (ag_task_id t) = length (ag_dependencies t)"
proof (induction ts)
  case Nil
  then show ?case by simp
next
  case (Cons u ts)
  have z: "dep_total ts x = 0" if "x \<notin> ag_task_id ` set ts" for x
    using that by (induction ts) (auto simp: dep_total_def)
  show ?case
  proof (cases "u = t")
    case True
    with Cons.prems z [of "ag_task_id t"] show ?thesis by (simp add: dep_total_def)
  next
    case False
    with Cons have "ag_task_id u \<noteq> ag_task_id t" "dep_total ts (ag_task_id t) = length (ag_dependencies t)"
      by (auto simp: image_iff)
    then show ?thesis by (simp add: dep_total_def)
  qed
qed

lemma build_graph_spec:
  assumes "well_named tasks"
  shows "map fst (fst (build_graph tasks)) = map ag_task_id tasks" "map fst (snd (build_graph tasks)) = map ag_task_id tasks"
    "x \<in> ag_task_id ` set tasks \<Longrightarrow> map_of (fst (build_graph tasks)) x = Some (users_in tasks x)"
    "x \<in> ag_task_id ` set tasks \<Longrightarrow> map_of (snd (build_graph tasks)) x = Some (int (length (deps_of tasks x)))"
proof -
  have dis: "distinct (map ag_task_id tasks)" using assms by (simp add: well_named_def)
  let ?e = "(map (\<lambda>t. (ag_task_id t, [])) tasks, map (\<lambda>t. (ag_task_id t, 0)) tasks) :: dependents \<times> degrees"
  have e: "empty_graph tasks = ?e" unfolding empty_graph_def by (simp add: fold_dict_set [OF dis])
  have fs: "map fst (fst ?e) = map ag_task_id tasks" "map fst (snd ?e) = map ag_task_id tasks" by (simp_all add: o_def)
  have all: "map fst (fst (build_graph tasks)) = map fst (fst ?e) \<and> map fst (snd (build_graph tasks)) = map fst (snd ?e) \<and>
    map_of (fst (build_graph tasks)) x = map_option (\<lambda>xs. xs @ users_in tasks x) (map_of (fst ?e) x) \<and>
    map_of (snd (build_graph tasks)) x = map_option (\<lambda>n. n + int (dep_total tasks x)) (map_of (snd ?e) x)"
    unfolding build_graph_def e
  proof (rule add_edges_all)
    show "set (ag_dependencies t) \<subseteq> fst ` set (fst ?e)" if "t \<in> set tasks" for t
      using that assms by (auto simp: well_named_def image_image)
  qed
  with fs show "map fst (fst (build_graph tasks)) = map ag_task_id tasks"
    "map fst (snd (build_graph tasks)) = map ag_task_id tasks" by simp_all
  assume "x \<in> ag_task_id ` set tasks"
  then obtain t where t: "t \<in> set tasks" "x = ag_task_id t" by blast
  note m = map_of_const [OF t(1), where k = ag_task_id, folded t(2)]
  show "map_of (fst (build_graph tasks)) x = Some (users_in tasks x)" using all m by simp
  have "dep_total tasks x = length (deps_of tasks x)" using dep_total_task [OF dis t(1)] deps_of_task [OF dis t(1)] t(2) by simp
  with all m show "map_of (snd (build_graph tasks)) x = Some (int (length (deps_of tasks x)))" by simp
qed

lemma set_users_in:
  assumes "distinct (map ag_task_id tasks)"
  shows "y \<in> set (users_in tasks x) \<longleftrightarrow> (x, y) \<in> dep_edges tasks"
  by (auto simp: users_in_def dep_edges_def)

lemma count_users_in:
  assumes "distinct (map ag_task_id tasks)" "t \<in> set tasks"
  shows "count_list (users_in tasks x) (ag_task_id t) = count_list (ag_dependencies t) x"
proof -
  have c: "count_list (map (\<lambda>_. i) (filter (\<lambda>d. d = x) ds)) j = (if i = j then count_list ds x else 0)" for i j :: string and ds
    by (induction ds) auto
  have "count_list (users_in ts x) (ag_task_id t) = (if t \<in> set ts then count_list (ag_dependencies t) x else 0)"
    if "distinct (map ag_task_id ts)" "set ts \<subseteq> set tasks" for ts
    using that
  proof (induction ts)
    case Nil
    then show ?case by (simp add: users_in_def)
  next
    case (Cons u ts)
    have e: "ag_task_id u = ag_task_id t \<longleftrightarrow> u = t"
      using distinct_map_eqD [OF assms(1) _ assms(2), of u] Cons.prems(2) by auto
    have "users_in (u # ts) x = map (\<lambda>_. ag_task_id u) (filter (\<lambda>d. d = x) (ag_dependencies u)) @ users_in ts x"
      by (simp add: users_in_def)
    moreover have "t \<notin> set ts" if "u = t" using Cons.prems(1) that by auto
    ultimately show ?case using Cons by (auto simp: c e)
  qed
  from this [OF assms(1) order_refl] assms(2) show ?thesis by simp
qed

section \<open>The search\<close>

definition graph_edges :: "dependents \<Rightarrow> (string \<times> string) set" where
  "graph_edges g = {(a, b). b \<in> set (lookup_list g a)}"

lemma escape_closed:
  assumes "(v, t) \<in> (graph_edges g)\<^sup>*" "v \<in> V" "t \<notin> V" "\<And>a b. a \<in> V \<Longrightarrow> (a, b) \<in> graph_edges g \<Longrightarrow> b \<in> V \<union> S"
  shows "\<exists>s \<in> S. (s, t) \<in> (graph_edges g)\<^sup>*"
  using assms(1,2)
proof (induction rule: converse_rtrancl_induct)
  case base
  with assms(3) show ?case by simp
next
  case (step y z)
  from assms(4) [OF step(4) step(1)] step(2,3) show ?case by auto
qed

lemma rtrancl_first: "a \<noteq> t \<Longrightarrow> (a, t) \<in> E\<^sup>* \<longleftrightarrow> (\<exists>b. (a, b) \<in> E \<and> (b, t) \<in> E\<^sup>*)"
  by (meson converse_rtranclE converse_rtrancl_into_rtrancl)

lemma reach_iff:
  assumes "target \<notin> set visited" "\<And>a b. a \<in> set visited \<Longrightarrow> (a, b) \<in> graph_edges g \<Longrightarrow> b \<in> set visited \<union> set stack"
  shows "reach g target visited stack \<longleftrightarrow> (\<exists>s \<in> set stack. (s, target) \<in> (graph_edges g)\<^sup>*)"
  using assms
proof (induction g target visited stack rule: reach.induct)
  case (1 g target visited)
  then show ?case by simp
next
  case (2 g target visited current stack)
  show ?case
  proof (cases "current = target")
    case True
    then show ?thesis by auto
  next
    case False
    show ?thesis
    proof (cases "current \<in> set visited")
      case True
      have closed: "b \<in> set visited \<union> set stack" if "a \<in> set visited" "(a, b) \<in> graph_edges g" for a b
        using "2.prems"(2) [OF that] True by auto
      have e: "(\<exists>s \<in> set stack. (s, target) \<in> (graph_edges g)\<^sup>*) = (\<exists>s \<in> set (current # stack). (s, target) \<in> (graph_edges g)\<^sup>*)"
        using escape_closed [OF _ True "2.prems"(1) closed] by auto
      have r: "reach g target visited (current # stack) = reach g target visited stack"
        unfolding reach.simps(2) [of g target visited current stack] using False True by (simp only: if_False if_True)
      show ?thesis by (rule trans [OF r trans [OF "2.IH"(1) [OF False True "2.prems"(1) closed] e]])
    next
      case new: False
      let ?st = "rev (lookup_list g current) @ stack"
      have closed: "b \<in> set (current # visited) \<union> set ?st" if "a \<in> set (current # visited)" "(a, b) \<in> graph_edges g" for a b
        using that "2.prems"(2) [of a b] by (auto simp: graph_edges_def)
      have e: "(\<exists>s \<in> set ?st. (s, target) \<in> (graph_edges g)\<^sup>*) = (\<exists>s \<in> set (current # stack). (s, target) \<in> (graph_edges g)\<^sup>*)"
      proof -
        have "(current, target) \<in> (graph_edges g)\<^sup>* \<longleftrightarrow> (\<exists>s \<in> set (lookup_list g current). (s, target) \<in> (graph_edges g)\<^sup>*)"
          unfolding rtrancl_first [OF False] Bex_def by (simp add: graph_edges_def)
        then show ?thesis by auto
      qed
      have r: "reach g target visited (current # stack) = reach g target (current # visited) ?st"
        unfolding reach.simps(2) [of g target visited current stack] using False new by (simp only: if_False)
      have n: "target \<notin> set (current # visited)" using False "2.prems"(1) by auto
      show ?thesis by (rule trans [OF r trans [OF "2.IH"(2) [OF False new n closed] e]])
    qed
  qed
qed

lemma reachable_from_iff: "reachable_from a b g \<longleftrightarrow> (a, b) \<in> (graph_edges g)\<^sup>*"
  unfolding reachable_from_def by (subst reach_iff) auto

section \<open>Kahn's loop\<close>

text \<open>Releasing the users of one task: every degree drops by its count, and a task is queued when it reaches 0.\<close>

lemma release_fold:
  assumes "\<And>x. x \<in> X \<Longrightarrow> map_of deg x = Some (int (d x))" "set ds \<subseteq> X" "\<And>x. x \<in> X \<Longrightarrow> count_list ds x \<le> d x"
  shows "\<exists>ps deg'. fold release_task ds (q, deg) = (q @ ps, deg') \<and>
    (\<forall>x \<in> X. map_of deg' x = Some (int (d x - count_list ds x))) \<and> distinct ps \<and>
    set ps = {x \<in> set ds. d x = count_list ds x} \<and> map fst deg' = map fst deg"
  using assms
proof (induction ds arbitrary: q deg d)
  case Nil
  then show ?case by simp
next
  case (Cons a ds)
  let ?deg = "adjust a (\<lambda>x. x - 1) deg"
  let ?d = "d(a := d a - 1)"
  have a: "a \<in> X" "0 < d a" using Cons.prems(2) Cons.prems(3) [of a] by auto
  have m: "map_of ?deg x = Some (int (?d x))" if "x \<in> X" for x
    using Cons.prems(1) [OF that] a by (auto simp: map_of_adjust)
  have c: "count_list ds x \<le> ?d x" if "x \<in> X" for x
    using Cons.prems(3) [OF that] by (auto split: if_splits)
  have r: "release_task a (q, deg) = (if d a = 1 then q @ [a] else q, ?deg)"
    using m [OF a(1)] a(2) by (auto simp: release_task_def Let_def)
  obtain ps deg' where ih: "fold release_task ds (if d a = 1 then q @ [a] else q, ?deg) = ((if d a = 1 then q @ [a] else q) @ ps, deg')"
    "\<forall>x \<in> X. map_of deg' x = Some (int (?d x - count_list ds x))" "distinct ps"
    "set ps = {x \<in> set ds. ?d x = count_list ds x}" "map fst deg' = map fst ?deg"
    using Cons.IH [of ?deg ?d "if d a = 1 then q @ [a] else q", OF m _ c] Cons.prems(2) by auto
  have n0: "a \<notin> set ds" if "d a = 1" using c [OF a(1)] that by (simp add: count_list_0_iff)
  let ?ps = "if d a = 1 then a # ps else ps"
  have "fold release_task (a # ds) (q, deg) = (q @ ?ps, deg')" using r ih(1) by simp
  moreover have "map_of deg' x = Some (int (d x - count_list (a # ds) x))" if "x \<in> X" for x
    using ih(2) that by auto
  moreover have "distinct ?ps" using ih(3,4) n0 by auto
  moreover have "set ?ps = {x \<in> set (a # ds). d x = count_list (a # ds) x}"
  proof (rule set_eqI)
    fix x
    have mem: "x \<in> set ps \<longleftrightarrow> x \<in> set ds \<and> ?d x = count_list ds x" by (simp only: ih(4) mem_Collect_eq)
    show "x \<in> set ?ps \<longleftrightarrow> x \<in> {x \<in> set (a # ds). d x = count_list (a # ds) x}"
    proof (cases "x = a")
      case False
      then show ?thesis using mem by simp
    next
      case True
      have "count_list ds a = 0 \<longleftrightarrow> a \<notin> set ds" by (rule count_list_0_iff)
      then show ?thesis using True mem n0 a(2) by (cases "d a = 1") (simp, simp, linarith)
    qed
  qed
  moreover have "map fst deg' = map fst deg" using ih(5) by simp
  ultimately show ?case by blast
qed

text \<open>The dependencies of a task that have not been emitted yet, and the invariant of the loop.\<close>

definition missing :: "agent_task list \<Rightarrow> string list \<Rightarrow> string \<Rightarrow> nat" where
  "missing tasks topo x = length (filter (\<lambda>d. d \<notin> set topo) (deps_of tasks x))"

definition dep_closed :: "agent_task list \<Rightarrow> string list \<Rightarrow> bool" where
  "dep_closed tasks topo \<longleftrightarrow> (\<forall>i < length topo. set (deps_of tasks (topo ! i)) \<subseteq> set (take i topo))"

definition kahn_inv :: "agent_task list \<Rightarrow> string list \<Rightarrow> degrees \<Rightarrow> string list \<Rightarrow> bool" where
  "kahn_inv tasks queue deg topo \<longleftrightarrow> distinct (topo @ queue) \<and> set (topo @ queue) \<subseteq> ag_task_id ` set tasks \<and>
     (\<forall>x \<in> ag_task_id ` set tasks. map_of deg x = Some (int (missing tasks topo x)) \<and>
        (x \<in> set (topo @ queue) \<longleftrightarrow> missing tasks topo x = 0)) \<and> dep_closed tasks topo"

lemma missing_snoc:
  assumes "c \<notin> set topo"
  shows "missing tasks (topo @ [c]) x = missing tasks topo x - count_list (deps_of tasks x) c"
    "count_list (deps_of tasks x) c \<le> missing tasks topo x"
proof -
  have "length (filter (\<lambda>d. d \<notin> set (topo @ [c])) ds) + count_list ds c = length (filter (\<lambda>d. d \<notin> set topo) ds)" for ds
    using assms by (induction ds) auto
  from this [of "deps_of tasks x"]
  show "missing tasks (topo @ [c]) x = missing tasks topo x - count_list (deps_of tasks x) c"
    "count_list (deps_of tasks x) c \<le> missing tasks topo x" by (auto simp: missing_def)
qed

lemma dep_closed_snoc:
  "dep_closed tasks topo \<Longrightarrow> set (deps_of tasks c) \<subseteq> set topo \<Longrightarrow> dep_closed tasks (topo @ [c])"
  by (auto simp: dep_closed_def nth_append less_Suc_eq)

lemma kahn_step:
  assumes named: "well_named tasks" and inv: "kahn_inv tasks (c # queue) deg topo"
  shows "\<exists>queue' deg'. fold release_task (lookup_list (fst (build_graph tasks)) c) (queue, deg) = (queue', deg') \<and>
    kahn_inv tasks queue' deg' (topo @ [c])"
proof -
  let ?X = "ag_task_id ` set tasks"
  have dis: "distinct (map ag_task_id tasks)" using named by (simp add: well_named_def)
  have c: "c \<in> ?X" "c \<notin> set topo" "missing tasks topo c = 0" "distinct (topo @ c # queue)"
    using inv by (auto simp: kahn_inv_def)
  have L: "lookup_list (fst (build_graph tasks)) c = users_in tasks c"
    using build_graph_spec(3) [OF named c(1)] by (simp add: lookup_list_def)
  have count: "count_list (users_in tasks c) x = count_list (deps_of tasks x) c" if "x \<in> ?X" for x
    using that count_users_in [OF dis] deps_of_task [OF dis] by auto
  have sub: "set (users_in tasks c) \<subseteq> ?X" by (auto simp: users_in_def)
  have deg: "map_of deg x = Some (int (missing tasks topo x))" if "x \<in> ?X" for x
    using inv that unfolding kahn_inv_def by blast
  have le: "count_list (users_in tasks c) x \<le> missing tasks topo x" if "x \<in> ?X" for x
    using count [OF that] missing_snoc(2) [OF c(2)] by simp
  obtain ps deg' where f: "fold release_task (users_in tasks c) (queue, deg) = (queue @ ps, deg')"
    "\<forall>x \<in> ?X. map_of deg' x = Some (int (missing tasks topo x - count_list (users_in tasks c) x))" "distinct ps"
    "set ps = {x \<in> set (users_in tasks c). missing tasks topo x = count_list (users_in tasks c) x}"
    using release_fold [of ?X deg "missing tasks topo" "users_in tasks c" queue, OF deg sub le] by blast
  have m: "missing tasks (topo @ [c]) x = missing tasks topo x - count_list (users_in tasks c) x"
    "count_list (users_in tasks c) x \<le> missing tasks topo x" if "x \<in> ?X" for x
    using count [OF that] missing_snoc [OF c(2)] by simp_all
  have ps: "x \<in> set ps \<longleftrightarrow> missing tasks topo x \<noteq> 0 \<and> missing tasks (topo @ [c]) x = 0" if "x \<in> ?X" for x
  proof -
    have "x \<in> set (users_in tasks c) \<longleftrightarrow> count_list (users_in tasks c) x \<noteq> 0" by (simp add: count_list_0_iff)
    then have "x \<in> set ps \<longleftrightarrow> count_list (users_in tasks c) x \<noteq> 0 \<and> missing tasks topo x = count_list (users_in tasks c) x"
      by (simp only: f(4) mem_Collect_eq)
    with m [OF that] show ?thesis by linarith
  qed
  have psX: "set ps \<subseteq> ?X" using f(4) by (auto simp: users_in_def)
  have old: "x \<in> set topo \<or> x = c \<or> x \<in> set queue \<longleftrightarrow> missing tasks topo x = 0" if "x \<in> ?X" for x
    using inv that by (auto simp: kahn_inv_def)
  have d: "distinct ((topo @ [c]) @ queue @ ps)"
  proof -
    have "x \<notin> set ps" if "x \<in> set (topo @ c # queue)" for x
      using that ps [of x] old [of x] psX by auto
    with c(4) f(3) show ?thesis by auto
  qed
  have "missing tasks (topo @ [c]) x = 0 \<longleftrightarrow> x \<in> set ((topo @ [c]) @ queue @ ps)" if "x \<in> ?X" for x
    using old [OF that] ps [OF that] m(1) [OF that] by auto
  moreover have "set (deps_of tasks c) \<subseteq> set topo" using c(3) by (auto simp: missing_def filter_empty_conv)
  ultimately have "kahn_inv tasks (queue @ ps) deg' (topo @ [c])"
    using d f(2) m(1) psX inv dep_closed_snoc by (auto simp: kahn_inv_def)
  with f(1) L show ?thesis by auto
qed

lemma kahn_result:
  assumes "well_named tasks" "kahn_inv tasks queue deg topo"
  shows "\<exists>topo' deg'. kahn (fst (build_graph tasks)) queue deg topo = (topo', deg') \<and> kahn_inv tasks [] deg' topo'"
  using assms(2)
proof (induction "fst (build_graph tasks)" queue deg topo rule: kahn.induct)
  case (1 deg topo)
  then show ?case by simp
next
  case (2 current queue deg topo)
  obtain queue' deg' where st: "fold release_task (lookup_list (fst (build_graph tasks)) current) (queue, deg) = (queue', deg')"
    "kahn_inv tasks queue' deg' (topo @ [current])" using kahn_step [OF assms(1) 2(2)] by blast
  with "2.hyps" [OF refl] show ?case by (simp add: Let_def)
qed

lemma sort_tasks_inv:
  assumes "well_named tasks"
  shows "\<exists>topo deg. sort_tasks tasks = (topo, deg) \<and> kahn_inv tasks [] deg topo"
proof -
  let ?g = "build_graph tasks" and ?X = "ag_task_id ` set tasks"
  let ?q = "map fst (filter (\<lambda>kv. snd kv = 0) (snd ?g))"
  have k: "map fst (snd ?g) = map ag_task_id tasks" by (rule build_graph_spec(2) [OF assms])
  have dis: "distinct (map fst (snd ?g))" unfolding k using assms by (simp add: well_named_def)
  have keys: "fst ` set (snd ?g) = ?X" using k by (metis list.set_map)
  have z: "map_of (snd ?g) x = Some (int (missing tasks [] x))" if "x \<in> ?X" for x
    using build_graph_spec(4) [OF assms that] by (simp add: missing_def)
  have "x \<in> set ?q \<longleftrightarrow> missing tasks [] x = 0" if "x \<in> ?X" for x
  proof -
    have "x \<in> set ?q \<longleftrightarrow> map_of (snd ?g) x = Some 0" using dis by (force simp: map_of_eq_Some_iff)
    then show ?thesis using z [OF that] by simp
  qed
  moreover have "distinct ?q" using dis by (rule distinct_map_filter)
  moreover have "set ?q \<subseteq> ?X" using keys by auto
  ultimately have "kahn_inv tasks ?q (snd ?g) []" using z by (auto simp: kahn_inv_def dep_closed_def)
  from kahn_result [OF assms this] show ?thesis by (simp add: sort_tasks_def Let_def)
qed

text \<open>The loop emits all tasks exactly when the dependency relation has no cycle.\<close>

lemma finite_dep_edges: "finite (dep_edges tasks)"
proof -
  have "dep_edges tasks = (\<Union>t \<in> set tasks. (\<lambda>d. (d, ag_task_id t)) ` set (ag_dependencies t))"
    by (auto simp: dep_edges_def)
  then show ?thesis by simp
qed

lemma complete_iff_acyclic:
  assumes named: "well_named tasks" and inv: "kahn_inv tasks [] deg topo"
  shows "length topo = length tasks \<longleftrightarrow> acyclic (dep_edges tasks)"
proof -
  let ?X = "ag_task_id ` set tasks"
  have dis: "distinct (map ag_task_id tasks)" using named by (simp add: well_named_def)
  have card: "card ?X = length tasks" using distinct_card [OF dis] by simp
  have topo: "distinct topo" "set topo \<subseteq> ?X" using inv by (auto simp: kahn_inv_def)
  have full: "length topo = length tasks \<longleftrightarrow> set topo = ?X"
    using topo card distinct_card [OF topo(1)] by (metis List.finite_set card_subset_eq finite_imageI)
  show ?thesis
  proof
    assume "length topo = length tasks"
    then have all: "set topo = ?X" using full by simp
    define pos where "pos x = length (takeWhile (\<lambda>y. y \<noteq> x) topo)" for x
    have pos_nth: "pos (topo ! i) = i" if "i < length topo" for i
    proof -
      have "takeWhile (\<lambda>y. y \<noteq> topo ! i) topo = take i topo"
        by (rule takeWhile_eq_take_P_nth) (use that topo(1) nth_eq_iff_index_eq in \<open>fastforce+\<close>)
      with that show ?thesis by (simp add: pos_def)
    qed
    have "dep_edges tasks \<subseteq> measure pos"
    proof
      fix e
      assume e: "e \<in> dep_edges tasks"
      obtain d x where dx: "e = (d, x)" by (cases e)
      then have "x \<in> set topo" "d \<in> set (deps_of tasks x)" using e dep_edges_deps_of [OF dis] all by auto
      then obtain i where i: "i < length topo" "topo ! i = x" by (auto simp: in_set_conv_nth)
      with inv \<open>d \<in> set (deps_of tasks x)\<close> have "d \<in> set (take i topo)" by (auto simp: kahn_inv_def dep_closed_def)
      then obtain j where j: "j < i" "topo ! j = d" using i(1) by (auto simp: in_set_conv_nth)
      have "pos d < pos x" using pos_nth [OF i(1)] pos_nth [of j] i j by simp
      then show "e \<in> measure pos" by (simp add: dx)
    qed
    then show "acyclic (dep_edges tasks)" by (meson acyclic_subset wf_acyclic wf_measure)
  next
    assume "acyclic (dep_edges tasks)"
    then have wf: "wf (dep_edges tasks)" by (rule finite_acyclic_wf [OF finite_dep_edges])
    have "x \<in> set topo" if "x \<in> ?X" for x
      using wf that
    proof (induction x rule: wf_induct_rule)
      case (less x)
      have "d \<in> set topo" if "d \<in> set (deps_of tasks x)" for d
      proof (rule less.IH)
        show "(d, x) \<in> dep_edges tasks" using that less.prems dep_edges_deps_of [OF dis] by blast
        from less.prems obtain t where "t \<in> set tasks" "x = ag_task_id t" by blast
        with that named deps_of_task [OF dis] show "d \<in> ?X" by (auto simp: well_named_def)
      qed
      then have "missing tasks topo x = 0" by (simp add: missing_def filter_empty_conv)
      with inv less.prems show ?case by (auto simp: kahn_inv_def)
    qed
    with topo(2) show "length topo = length tasks" using full by blast
  qed
qed

end
