(* ===== verification/Team_Dag_Props.thy ===== *)
theory Team_Dag_Props
  imports Team_Dag_Graph
begin

text \<open>
  The validator of task graphs against its declarative specification, and the task status helper.
\<close>

section \<open>Specification\<close>

text \<open>Two tasks that write a common file must be ordered by the dependency relation.\<close>

definition conflict_free :: "agent_task list \<Rightarrow> bool" where
  "conflict_free tasks \<longleftrightarrow> (\<forall>a \<in> set tasks. \<forall>b \<in> set tasks. a \<noteq> b \<and>
     set (concrete_writable_paths a) \<inter> set (concrete_writable_paths b) \<noteq> {} \<longrightarrow>
     (ag_task_id a, ag_task_id b) \<in> (dep_edges tasks)\<^sup>* \<or> (ag_task_id b, ag_task_id a) \<in> (dep_edges tasks)\<^sup>*)"

definition sane_task :: "agent_task \<Rightarrow> bool" where
  "sane_task t \<longleftrightarrow> ag_acceptance_criteria t \<noteq> [] \<and> 1 \<le> ag_max_steps t \<and> 1 \<le> ag_timeout_seconds t"

definition executable_dag :: "agent_task list \<Rightarrow> bool" where
  "executable_dag tasks \<longleftrightarrow> distinct (map ag_task_id tasks) \<and>
     (\<forall>t \<in> set tasks. set (ag_dependencies t) \<subseteq> ag_task_id ` set tasks) \<and>
     acyclic (dep_edges tasks) \<and> (\<forall>t \<in> set tasks. sane_task t) \<and> conflict_free tasks"

section \<open>Each group of errors\<close>

lemma duplicate_errors_empty:
  "duplicate_errors seen ts = [] \<longleftrightarrow> distinct (map ag_task_id ts) \<and> ag_task_id ` set ts \<inter> set seen = {}"
  by (induction seen ts rule: duplicate_errors.induct) auto

lemma unknown_errors_empty:
  "unknown_errors tasks = [] \<longleftrightarrow> (\<forall>t \<in> set tasks. set (ag_dependencies t) \<subseteq> ag_task_id ` set tasks)"
  by (auto simp: unknown_errors_def filter_empty_conv)

lemma sanity_errors_empty: "sanity_errors tasks = [] \<longleftrightarrow> (\<forall>t \<in> set tasks. sane_task t)"
  by (auto simp: sanity_errors_def sane_task_def split: if_splits)

lemma cycle_errors_empty: "cycle_errors tasks r = [] \<longleftrightarrow> length (fst r) = length tasks"
  by (simp add: cycle_errors_def)

lemma writable_sets_lookup:
  assumes "distinct (map ag_task_id tasks)" "t \<in> set tasks"
  shows "lookup_list (writable_sets tasks) (ag_task_id t) = concrete_writable_paths t"
proof -
  have "writable_sets tasks = map (\<lambda>t. (ag_task_id t, concrete_writable_paths t)) tasks"
    unfolding writable_sets_def using fold_dict_set [OF assms(1), of "[]" concrete_writable_paths] by simp
  moreover have "map_of (map (\<lambda>t. (ag_task_id t, concrete_writable_paths t)) tasks) (ag_task_id t) = Some (concrete_writable_paths t)"
    by (rule map_of_is_SomeI) (use assms in \<open>simp_all add: o_def\<close>)
  ultimately show ?thesis by (simp add: lookup_list_def)
qed

lemma graph_edges_build:
  assumes "well_named tasks"
  shows "graph_edges (fst (build_graph tasks)) = dep_edges tasks"
proof -
  let ?X = "ag_task_id ` set tasks" and ?g = "fst (build_graph tasks)"
  have dis: "distinct (map ag_task_id tasks)" using assms by (simp add: well_named_def)
  have "(a, b) \<in> graph_edges ?g \<longleftrightarrow> (a, b) \<in> dep_edges tasks" for a b
  proof (cases "a \<in> ?X")
    case True
    then show ?thesis
      using build_graph_spec(3) [OF assms True] set_users_in [OF dis] by (simp add: graph_edges_def lookup_list_def)
  next
    case False
    have "fst ` set ?g = ?X" using build_graph_spec(1) [OF assms] by (metis list.set_map)
    with False have "map_of ?g a = None" by (simp add: map_of_eq_None_iff)
    moreover have "(a, b) \<notin> dep_edges tasks" using False assms by (auto simp: dep_edges_def well_named_def)
    ultimately show ?thesis by (simp add: graph_edges_def lookup_list_def)
  qed
  then show ?thesis by auto
qed

lemma set_later_pairs:
  "distinct xs \<Longrightarrow> a \<in> set xs \<Longrightarrow> b \<in> set xs \<Longrightarrow> a \<noteq> b \<Longrightarrow> (a, b) \<in> set (later_pairs xs) \<or> (b, a) \<in> set (later_pairs xs)"
  by (induction xs) auto

lemma later_pairs_mem: "(a, b) \<in> set (later_pairs xs) \<Longrightarrow> distinct xs \<Longrightarrow> a \<in> set xs \<and> b \<in> set xs \<and> a \<noteq> b"
  by (induction xs) auto

lemma conflict_errors_empty:
  assumes named: "well_named tasks"
  shows "conflict_errors tasks (fst (build_graph tasks)) = [] \<longleftrightarrow> conflict_free tasks"
proof -
  have dis: "distinct (map ag_task_id tasks)" using named by (simp add: well_named_def)
  have dl: "distinct tasks" using dis by (simp add: distinct_map)
  let ?R = "(dep_edges tasks)\<^sup>*"
  let ?bad = "\<lambda>a b. set (concrete_writable_paths a) \<inter> set (concrete_writable_paths b) \<noteq> {} \<and>
    (ag_task_id a, ag_task_id b) \<notin> ?R \<and> (ag_task_id b, ag_task_id a) \<notin> ?R"
  have o: "path_overlap tasks a b = [] \<longleftrightarrow> set (concrete_writable_paths a) \<inter> set (concrete_writable_paths b) = {}"
    if "a \<in> set tasks" "b \<in> set tasks" for a b
    using that by (auto simp: path_overlap_def writable_sets_lookup [OF dis] filter_empty_conv)
  have "conflict_errors tasks (fst (build_graph tasks)) = [] \<longleftrightarrow> (\<forall>(a, b) \<in> set (later_pairs tasks). \<not> ?bad a b)"
    unfolding conflict_errors_def concat_eq_Nil_conv set_map ball_simps
  proof (rule ball_cong [OF refl], clarify)
    fix a b
    assume "(a, b) \<in> set (later_pairs tasks)"
    then have ab: "a \<in> set tasks" "b \<in> set tasks" using later_pairs_mem [OF _ dl] by blast+
    show "(if path_overlap tasks a b = [] then []
        else if \<not> reachable_from (ag_task_id a) (ag_task_id b) (fst (build_graph tasks)) \<and>
          \<not> reachable_from (ag_task_id b) (ag_task_id a) (fst (build_graph tasks))
        then [''writable path conflict between '' @ ag_task_id a @ '' and '' @ ag_task_id b @ '': '' @
          join_with '', '' (sort (path_overlap tasks a b))] else []) = [] \<longleftrightarrow> \<not> ?bad a b"
      by (simp add: reachable_from_iff graph_edges_build [OF named] o [OF ab])
  qed
  also have "\<dots> \<longleftrightarrow> conflict_free tasks"
  proof
    assume l: "\<forall>(a, b) \<in> set (later_pairs tasks). \<not> ?bad a b"
    show "conflict_free tasks"
      unfolding conflict_free_def
    proof (intro ballI impI)
      fix a b
      assume ab: "a \<in> set tasks" "b \<in> set tasks" "a \<noteq> b \<and> set (concrete_writable_paths a) \<inter> set (concrete_writable_paths b) \<noteq> {}"
      from set_later_pairs [OF dl ab(1,2)] ab(3) l
      show "(ag_task_id a, ag_task_id b) \<in> ?R \<or> (ag_task_id b, ag_task_id a) \<in> ?R" by (auto simp: Int_commute)
    qed
  next
    assume c: "conflict_free tasks"
    show "\<forall>(a, b) \<in> set (later_pairs tasks). \<not> ?bad a b"
    proof clarify
      fix a b
      assume "(a, b) \<in> set (later_pairs tasks)"
      then have "a \<in> set tasks" "b \<in> set tasks" "a \<noteq> b" using later_pairs_mem [OF _ dl] by blast+
      then show "False" if "set (concrete_writable_paths a) \<inter> set (concrete_writable_paths b) \<noteq> {}"
        "(ag_task_id a, ag_task_id b) \<notin> ?R" "(ag_task_id b, ag_task_id a) \<notin> ?R"
        using c that unfolding conflict_free_def by blast
    qed
  qed
  finally show ?thesis .
qed

text \<open>The last task of a complete order has no users, so the check for a terminal task never adds an error.\<close>

lemma terminal_errors_redundant:
  assumes named: "well_named tasks" and inv: "kahn_inv tasks [] deg topo" and full: "length topo = length tasks"
  shows "terminal_errors tasks (fst (build_graph tasks)) = []"
proof (cases "tasks = []")
  case True
  then show ?thesis by (simp add: terminal_errors_def)
next
  case False
  have dis: "distinct (map ag_task_id tasks)" using named by (simp add: well_named_def)
  have topo: "distinct topo" "set topo \<subseteq> ag_task_id ` set tasks" "dep_closed tasks topo" using inv by (auto simp: kahn_inv_def)
  have ne: "topo \<noteq> []" using full False by auto
  have all: "set topo = ag_task_id ` set tasks"
    using topo(1,2) full distinct_card [OF topo(1)] distinct_card [OF dis] by (metis card_subset_eq finite_imageI finite_set length_map list.set_map)
  let ?x = "last topo"
  have x: "?x \<in> ag_task_id ` set tasks" using ne topo(2) last_in_set by blast
  have "users_in tasks ?x = []"
  proof (rule ccontr)
    assume "users_in tasks ?x \<noteq> []"
    then obtain y where "y \<in> set (users_in tasks ?x)" by (meson last_in_set)
    then have y: "(?x, y) \<in> dep_edges tasks" using set_users_in [OF dis] by blast
    then have "y \<in> set topo" "?x \<in> set (deps_of tasks y)" using dep_edges_deps_of [OF dis] all by auto
    then obtain i where i: "i < length topo" "topo ! i = y" by (auto simp: in_set_conv_nth)
    then have "?x \<in> set (take i topo)" using topo(3) \<open>?x \<in> set (deps_of tasks y)\<close> by (auto simp: dep_closed_def)
    then obtain j where "j < i" "topo ! j = ?x" using i(1) by (auto simp: in_set_conv_nth)
    moreover have "?x = topo ! (length topo - 1)" using ne by (rule last_conv_nth)
    ultimately show False using topo(1) i(1) nth_eq_iff_index_eq [OF topo(1), of j "length topo - 1"] by auto
  qed
  then have l: "lookup_list (fst (build_graph tasks)) ?x = []"
    using build_graph_spec(3) [OF named x] by (simp add: lookup_list_def)
  obtain t where "t \<in> set tasks" "ag_task_id t = ?x" using x by (metis imageE)
  with l show ?thesis by (auto simp only: terminal_errors_def split: if_splits)
qed

lemma dag_errors_empty:
  "dv_valid (validate_task_dag tasks) \<longleftrightarrow> executable_dag tasks"
proof (cases "well_named tasks")
  case True
  then obtain topo deg where s: "sort_tasks tasks = (topo, deg)" "kahn_inv tasks [] deg topo"
    using sort_tasks_inv by blast
  have e: "terminal_errors tasks (fst (build_graph tasks)) = []" if "length topo = length tasks"
    by (rule terminal_errors_redundant [OF True s(2) that])
  have n: "duplicate_errors [] tasks = []" "unknown_errors tasks = []"
    using True by (simp_all add: duplicate_errors_empty unknown_errors_empty well_named_def)
  have x: "executable_dag tasks \<longleftrightarrow> length topo = length tasks \<and> (\<forall>t \<in> set tasks. sane_task t) \<and> conflict_free tasks"
    using True complete_iff_acyclic [OF True s(2)] by (auto simp: executable_dag_def well_named_def)
  show ?thesis
    using e n x conflict_errors_empty [OF True] sanity_errors_empty [of tasks] cycle_errors_empty [of tasks "(topo, deg)"]
    by (auto simp: validate_task_dag_def Let_def s(1))
next
  case False
  then have "duplicate_errors [] tasks \<noteq> [] \<or> unknown_errors tasks \<noteq> []"
    by (auto simp: duplicate_errors_empty unknown_errors_empty well_named_def)
  then have "\<not> dv_valid (validate_task_dag tasks)" by (auto simp: validate_task_dag_def Let_def)
  moreover have "\<not> executable_dag tasks" using False by (auto simp: executable_dag_def well_named_def)
  ultimately show ?thesis by blast
qed

section \<open>Properties\<close>


definition demo_task :: "string \<Rightarrow> string list \<Rightarrow> string list \<Rightarrow> agent_task" where
  "demo_task i ds ws = \<lparr>ag_task_id = i, ag_title = i, ag_objective = i, ag_acceptance_criteria = [''done''],
     ag_allowed_paths = [], ag_writable_paths = ws, ag_allowed_tools = [], ag_dependencies = ds,
     ag_parent_task_id = None, ag_input_artifact_ids = [], ag_expected_artifacts = [],
     ag_max_steps = 12, ag_timeout_seconds = 120, ag_priority = 0\<rparr>"

definition demo_tasks :: "agent_task list" where
  "demo_tasks = [demo_task ''test'' [''impl''] [''src/./a.py''], demo_task ''impl'' [''plan''] [''src//a.py''], demo_task ''plan'' [] [''docs'']]"

lemma valid_order:
  assumes "dv_valid (validate_task_dag tasks)"
  shows "\<exists>order. dv_topological_order (validate_task_dag tasks) = Some order \<and> distinct order \<and>
    set order = ag_task_id ` set tasks \<and>
    (\<forall>t \<in> set tasks. \<forall>d \<in> set (ag_dependencies t). \<exists>i j. i < j \<and> j < length order \<and> order ! i = d \<and> order ! j = ag_task_id t)"
proof -
  have x: "executable_dag tasks" using assms by (simp add: dag_errors_empty)
  then have named: "well_named tasks" by (simp add: executable_dag_def well_named_def)
  then have dis: "distinct (map ag_task_id tasks)" by (simp add: well_named_def)
  obtain topo deg where s: "sort_tasks tasks = (topo, deg)" "kahn_inv tasks [] deg topo"
    using sort_tasks_inv [OF named] by blast
  have topo: "distinct topo" "set topo \<subseteq> ag_task_id ` set tasks" "dep_closed tasks topo" using s(2) by (auto simp: kahn_inv_def)
  have len: "length topo = length tasks"
    using complete_iff_acyclic [OF named s(2)] x by (simp add: executable_dag_def)
  have all: "set topo = ag_task_id ` set tasks"
    using topo(1,2) len distinct_card [OF topo(1)] distinct_card [OF dis] by (metis card_subset_eq finite_imageI finite_set length_map list.set_map)
  have "\<exists>i j. i < j \<and> j < length topo \<and> topo ! i = d \<and> topo ! j = ag_task_id t"
    if "t \<in> set tasks" "d \<in> set (ag_dependencies t)" for t d
  proof -
    from that(1) all obtain j where j: "j < length topo" "topo ! j = ag_task_id t"
      by (metis imageI in_set_conv_nth)
    from j(1) topo(3) have "set (deps_of tasks (topo ! j)) \<subseteq> set (take j topo)" by (simp add: dep_closed_def)
    then have "d \<in> set (take j topo)" unfolding j(2) deps_of_task [OF dis that(1)] using that(2) by blast
    then obtain i where "i < j" "topo ! i = d" using j(1) by (auto simp: in_set_conv_nth)
    then show ?thesis using j by blast
  qed
  moreover have "dv_topological_order (validate_task_dag tasks) = Some topo"
    using assms by (auto simp: validate_task_dag_def Let_def s(1) split: if_splits)
  ultimately show ?thesis using topo(1) all by blast
qed

text \<open>
  The order the validator returns for an accepted graph can be executed: it lists every task exactly
  once, and every task after all the tasks it depends on.
\<close>

theorem dag_order_executable:
  assumes "dv_valid (validate_task_dag tasks)"
  shows "\<exists>order. dv_topological_order (validate_task_dag tasks) = Some order \<and> distinct order \<and>
    set order = ag_task_id ` set tasks \<and>
    (\<forall>t \<in> set tasks. \<forall>d \<in> set (ag_dependencies t). \<exists>i j. i < j \<and> j < length order \<and> order ! i = d \<and> order ! j = ag_task_id t)"
  using assms by (rule valid_order)

theorem dag_order_executable_witness:
  "dv_topological_order (validate_task_dag demo_tasks) = Some [''plan'', ''impl'', ''test''] \<and> distinct [''plan'', ''impl'', ''test'']"
proof -
  have "dv_valid (validate_task_dag demo_tasks)" by code_simp
  moreover have "dv_topological_order (validate_task_dag demo_tasks) = Some [''plan'', ''impl'', ''test'']" by code_simp
  ultimately show ?thesis using dag_order_executable [of demo_tasks] by auto
qed

lemma status_fold:
  assumes "distinct (map ag_task_id ts)" "\<And>t. t \<in> set ts \<Longrightarrow> ag_task_id t \<notin> fst ` set acc"
    "\<And>x. map_of acc x = Some TeamCompleted \<longleftrightarrow> x \<in> seen \<and> x \<in> set results"
    "ts = us @ t # vs"
  shows "map_of (fold (\<lambda>t status. dict_set (ag_task_id t) (next_status results status t) status) ts acc) (ag_task_id t) =
    Some (if ag_task_id t \<in> set results then TeamCompleted
      else if set (ag_dependencies t) \<subseteq> (seen \<union> ag_task_id ` set us) \<inter> set results then TeamReady else TeamPending)"
  using assms
proof (induction us arbitrary: ts acc seen)
  case Nil
  let ?acc = "dict_set (ag_task_id t) (next_status results acc t) acc"
  have keep: "map_of (fold (\<lambda>t status. dict_set (ag_task_id t) (next_status results status t) status) vs a) x = map_of a x"
    if "x \<notin> ag_task_id ` set vs" for a x using that by (induction vs arbitrary: a) auto
  have "ag_task_id t \<notin> ag_task_id ` set vs" using Nil.prems(1,4) by auto
  from keep [OF this, of ?acc] Nil.prems(3,4) show ?case by (auto simp: next_status_def)
next
  case (Cons u us)
  let ?acc = "dict_set (ag_task_id u) (next_status results acc u) acc"
  let ?ts = "us @ t # vs"
  have ts: "ts = u # ?ts" using Cons.prems(4) by simp
  have d: "distinct (map ag_task_id ?ts)" using Cons.prems(1) unfolding ts by simp
  have n: "ag_task_id q \<notin> fst ` set ?acc" if "q \<in> set ?ts" for q
  proof -
    have "ag_task_id q \<noteq> ag_task_id u" using that Cons.prems(1) unfolding ts by (auto simp: image_iff)
    moreover have "ag_task_id q \<notin> fst ` set acc" using that Cons.prems(2) unfolding ts by simp
    ultimately show ?thesis by (auto dest!: set_dict_set)
  qed
  have u: "ag_task_id u \<notin> fst ` set acc" using Cons.prems(2) unfolding ts by simp
  have c: "map_of ?acc x = Some TeamCompleted \<longleftrightarrow> x \<in> insert (ag_task_id u) seen \<and> x \<in> set results" for x
  proof (cases "x = ag_task_id u")
    case True
    then show ?thesis by (auto simp: next_status_def)
  next
    case False
    then show ?thesis using Cons.prems(3) [of x] by auto
  qed
  from Cons.IH [OF d n c refl] show ?case unfolding ts by (simp add: insert_commute Un_commute)
qed

text \<open>
  What \<open>compute_task_status\<close> computes for tasks with distinct ids: a task with a result is completed,
  another one is ready exactly when each of its dependencies stands before it in the list and has a
  result, and pending otherwise. So on a list in dependency order the status is right, but a task listed
  before one of its dependencies stays pending after that dependency has completed.
\<close>

theorem task_status_exact:
  assumes "distinct (map ag_task_id tasks)" "tasks = us @ t # vs"
  shows "map_of (compute_task_status tasks results) (ag_task_id t) =
    Some (if ag_task_id t \<in> set results then TeamCompleted
      else if set (ag_dependencies t) \<subseteq> ag_task_id ` set us \<inter> set results then TeamReady else TeamPending)"
  using status_fold [OF assms(1), of "[]" "{}" results us t vs] assms(2) by (simp add: compute_task_status_def)

theorem task_status_exact_witness:
  "map_of (compute_task_status demo_tasks [''plan'']) ''impl'' = Some TeamPending \<and>
   map_of (compute_task_status (rev demo_tasks) [''plan'']) ''impl'' = Some TeamReady"
proof -
  have d: "distinct (map ag_task_id demo_tasks)" "distinct (map ag_task_id (rev demo_tasks))" by code_simp+
  have s: "demo_tasks = [demo_task ''test'' [''impl''] [''src/./a.py'']] @ demo_task ''impl'' [''plan''] [''src//a.py''] # [demo_task ''plan'' [] [''docs'']]"
    "rev demo_tasks = [demo_task ''plan'' [] [''docs'']] @ demo_task ''impl'' [''plan''] [''src//a.py''] # [demo_task ''test'' [''impl''] [''src/./a.py'']]"
    by (simp_all add: demo_tasks_def)
  show ?thesis
    using task_status_exact [OF d(1) s(1), of "[''plan'']"] task_status_exact [OF d(2) s(2), of "[''plan'']"]
    by (simp add: demo_task_def)
qed

end
