(* ===== verification/Model_Reliability.thy ===== *)
theory Model_Reliability
  imports Py_Value Py_Path
begin

text \<open>
  \<open>models/reliability.py\<close>: the bounded retry policy, the classification of provider failures and the
  normalisation of provider responses. Python floats are rationals without rounding, with the values
  that are not finite kept apart. \<open>str_of\<close> stands for \<open>str\<close> on values that are not strings, \<open>parse_float\<close>
  for \<open>float(text)\<close> and \<open>parse_date\<close> for \<open>parsedate_to_datetime\<close>, which give \<open>None\<close> where those raise.
\<close>

record retry_policy =
  rp_max_attempts :: int
  rp_base_delay :: rat
  rp_max_delay :: rat
  rp_respect_retry_after :: bool

record provider_error =
  pe_message :: string
  pe_code :: string
  pe_retriable :: bool
  pe_status_code :: "int option"
  pe_request_id :: "string option"
  pe_attempt_count :: int
  pe_retry_after :: "rat option"
  pe_excerpt :: "string option"

datatype model_error =
    ProviderError provider_error
  | ModelValueError string
  | ModelTypeError
  | ModelOverflowError

record provider_response =
  nr_content :: string
  nr_reasoning :: string
  nr_finish_reason :: "string option"
  nr_request_id :: "string option"
  nr_usage :: "(string \<times> int) list"

section \<open>Retry policy\<close>

definition retriable_http_statuses :: "int list" where
  "retriable_http_statuses = [408, 409, 425, 429, 500, 502, 503, 504]"

text \<open>The test of one delay: \<open>math.isfinite\<close> raises on a value that is not a number.\<close>

fun check_delay :: "string \<Rightarrow> pval \<Rightarrow> model_error + rat" where
  "check_delay name (PInt i) = (if i < 0 then Inl (ModelValueError name) else Inr (of_int i))"
| "check_delay name (PFloat q) = (if q < 0 then Inl (ModelValueError name) else Inr q)"
| "check_delay name (PNonFinite _) = Inl (ModelValueError name)"
| "check_delay name (PBool _) = Inl (ModelValueError name)"
| "check_delay name _ = Inl ModelTypeError"

definition make_policy :: "pval \<Rightarrow> pval \<Rightarrow> pval \<Rightarrow> bool \<Rightarrow> model_error + retry_policy" where
  "make_policy attempts base max_delay respect =
    (case attempts of
       PInt n \<Rightarrow>
         if \<not> (1 \<le> n \<and> n \<le> 10) then Inl (ModelValueError ''max_attempts'')
         else (case check_delay ''base_delay_seconds'' base of Inl e \<Rightarrow> Inl e | Inr b \<Rightarrow>
               case check_delay ''max_delay_seconds'' max_delay of Inl e \<Rightarrow> Inl e | Inr m \<Rightarrow>
               if m < b then Inl (ModelValueError ''max_delay_seconds below base_delay_seconds'')
               else Inr \<lparr>rp_max_attempts = n, rp_base_delay = b, rp_max_delay = m, rp_respect_retry_after = respect\<rparr>)
     | _ \<Rightarrow> Inl (ModelValueError ''max_attempts''))"

definition delay_before_attempt :: "retry_policy \<Rightarrow> int \<Rightarrow> pval \<Rightarrow> rat" where
  "delay_before_attempt p nxt retry_after =
    (if nxt \<le> 1 then 0
     else let exponential = rp_base_delay p * 2 ^ nat (nxt - 2);
              delay = min (rp_max_delay p) exponential;
              hint = (case retry_after of PInt i \<Rightarrow> Some (of_int i) | PFloat q \<Rightarrow> Some q | _ \<Rightarrow> None) in
       min (rp_max_delay p) (case hint of
           Some h \<Rightarrow> if rp_respect_retry_after p \<and> 0 \<le> h then max delay h else delay
         | None \<Rightarrow> delay))"

section \<open>Provider errors\<close>

text \<open>\<open>ProviderError(message, code=..., retriable=...)\<close> with the other fields at their defaults.\<close>

definition plain_error :: "string \<Rightarrow> string \<Rightarrow> bool \<Rightarrow> provider_error" where
  "plain_error message code retriable = \<lparr>pe_message = message, pe_code = code, pe_retriable = retriable,
     pe_status_code = None, pe_request_id = None, pe_attempt_count = 1, pe_retry_after = None, pe_excerpt = None\<rparr>"

definition retry_count :: "provider_error \<Rightarrow> int" where
  "retry_count e = max 0 (pe_attempt_count e - 1)"

definition with_attempt :: "provider_error \<Rightarrow> int \<Rightarrow> provider_error" where
  "with_attempt e n = e\<lparr>pe_attempt_count := n\<rparr>"

definition error_metadata :: "provider_error \<Rightarrow> (string \<times> pval) list" where
  "error_metadata e =
     [(''provider_error_code'', PStr (pe_code e)), (''retriable'', PBool (pe_retriable e)),
      (''attempt_count'', PInt (pe_attempt_count e)), (''retry_count'', PInt (retry_count e))] @
     (case pe_status_code e of None \<Rightarrow> [] | Some c \<Rightarrow> [(''status_code'', PInt c)]) @
     (case pe_request_id e of None \<Rightarrow> [] | Some r \<Rightarrow> if r = [] then [] else [(''request_id'', PStr r)]) @
     (case pe_retry_after e of None \<Rightarrow> [] | Some q \<Rightarrow> [(''retry_after_seconds'', PFloat q)])"

definition classify_http_error :: "int \<Rightarrow> string \<times> bool" where
  "classify_http_error status =
    (if status = 400 then (''INVALID_REQUEST'', False)
     else if status = 401 then (''AUTHENTICATION_FAILED'', False)
     else if status = 403 then (''PERMISSION_DENIED'', False)
     else if status = 404 then (''MODEL_OR_ENDPOINT_NOT_FOUND'', False)
     else if status = 413 then (''REQUEST_TOO_LARGE'', False)
     else if status = 429 then (''RATE_LIMITED'', True)
     else if status \<in> set retriable_http_statuses then (''PROVIDER_TEMPORARILY_UNAVAILABLE'', True)
     else if 500 \<le> status \<and> status \<le> 599 then (''PROVIDER_SERVER_ERROR'', True)
     else (''PROVIDER_HTTP_ERROR'', False))"

text \<open>
  \<open>parse_retry_after\<close>; instants are seconds, a date without a zone being read as UTC by \<open>parse_date\<close>
  and \<open>now\<close> alike.
\<close>

definition parse_retry_after ::
  "(string \<Rightarrow> pval option) \<Rightarrow> (string \<Rightarrow> timestamp option) \<Rightarrow> string option \<Rightarrow> timestamp \<Rightarrow> rat option" where
  "parse_retry_after parse_float parse_date v now =
    (case v of None \<Rightarrow> None | Some text \<Rightarrow>
     if strip text = [] then None
     else (case parse_float (strip text) of
        Some (PFloat seconds) \<Rightarrow> if 0 \<le> seconds then Some seconds else None
      | Some _ \<Rightarrow> None
      | None \<Rightarrow> (case parse_date (strip text) of None \<Rightarrow> None | Some retry_at \<Rightarrow> Some (max 0 (retry_at - now)))))"

section \<open>Responses\<close>

definition request_id_headers :: "string list" where
  "request_id_headers = [''x-request-id'', ''request-id'', ''mistral-request-id'', ''x-ms-request-id'']"

definition lowered :: "(pval \<Rightarrow> string) \<Rightarrow> (pval \<times> pval) list \<Rightarrow> (string \<times> pval) list" where
  "lowered str_of headers = fold (\<lambda>kv. dict_set (map lower_char (py_str str_of (fst kv))) (snd kv)) headers []"

fun first_header :: "(pval \<Rightarrow> string) \<Rightarrow> (string \<times> pval) list \<Rightarrow> string list \<Rightarrow> string option" where
  "first_header str_of low [] = None"
| "first_header str_of low (k # ks) =
    (case map_of low k of
       None \<Rightarrow> first_header str_of low ks
     | Some PNone \<Rightarrow> first_header str_of low ks
     | Some v \<Rightarrow> if strip (py_str str_of v) = [] then first_header str_of low ks
                 else Some (take 200 (strip (py_str str_of v))))"

definition extract_request_id :: "(pval \<Rightarrow> string) \<Rightarrow> (pval \<times> pval) list \<Rightarrow> string option" where
  "extract_request_id str_of headers = first_header str_of (lowered str_of headers) request_id_headers"

definition text_fragment :: "pval \<Rightarrow> string" where
  "text_fragment item =
    (case item of
       PStr s \<Rightarrow> strip s
     | PDict kvs \<Rightarrow> (case dict_get kvs ''text'' of PStr s \<Rightarrow> strip s | _ \<Rightarrow> [])
     | _ \<Rightarrow> [])"

definition normalize_text_content :: "pval \<Rightarrow> string" where
  "normalize_text_content v =
    (case v of
       PStr s \<Rightarrow> strip s
     | PList items \<Rightarrow> strip (join_with [CHR 0x0A] (filter (\<lambda>t. t \<noteq> []) (map text_fragment items)))
     | _ \<Rightarrow> [])"

fun first_text :: "pval list \<Rightarrow> string" where
  "first_text [] = []"
| "first_text (v # vs) = (if normalize_text_content v \<noteq> [] then normalize_text_content v else first_text vs)"

definition usage_aliases :: "(string \<times> string) list" where
  "usage_aliases = [(''prompt_tokens'', ''input_tokens''), (''input_tokens'', ''input_tokens''),
     (''completion_tokens'', ''output_tokens''), (''output_tokens'', ''output_tokens''),
     (''total_tokens'', ''total_tokens'')]"

text \<open>One counter: a boolean, a negative number or a NaN is skipped; \<open>int(inf)\<close> raises.\<close>

definition usage_count :: "pval \<Rightarrow> model_error + int option" where
  "usage_count raw =
    (case raw of
       PInt i \<Rightarrow> Inr (if 0 \<le> i then Some i else None)
     | PFloat q \<Rightarrow> Inr (if 0 \<le> q then Some \<lfloor>q\<rfloor> else None)
     | PNonFinite PosInf \<Rightarrow> Inl ModelOverflowError
     | _ \<Rightarrow> Inr None)"

fun usage_loop :: "(pval \<times> pval) list \<Rightarrow> (string \<times> string) list \<Rightarrow> (string \<times> int) list \<Rightarrow> model_error + (string \<times> int) list" where
  "usage_loop kvs [] usage = Inr usage"
| "usage_loop kvs ((source, target) # aliases) usage =
    (case usage_count (dict_get kvs source) of Inl e \<Rightarrow> Inl e | Inr n \<Rightarrow>
     usage_loop kvs aliases (case n of None \<Rightarrow> usage | Some i \<Rightarrow> dict_set target i usage))"

definition normalize_usage :: "pval \<Rightarrow> model_error + (string \<times> int) list" where
  "normalize_usage v = (case v of PDict kvs \<Rightarrow> usage_loop kvs usage_aliases [] | _ \<Rightarrow> Inr [])"

text \<open>The identifier of the body, looked for when no header has one.\<close>

fun body_request_id :: "(pval \<times> pval) list \<Rightarrow> string list \<Rightarrow> string option" where
  "body_request_id kvs [] = None"
| "body_request_id kvs (k # ks) =
    (case dict_get kvs k of
       PStr s \<Rightarrow> if strip s = [] then body_request_id kvs ks else Some (take 200 (strip s))
     | _ \<Rightarrow> body_request_id kvs ks)"

definition finish_reason_text :: "(pval \<Rightarrow> string) \<Rightarrow> pval \<Rightarrow> string option" where
  "finish_reason_text str_of v =
    (if v \<noteq> PNone \<and> strip (py_str str_of v) \<noteq> [] then Some (take 100 (strip (py_str str_of v))) else None)"

definition invalid_response :: "string \<Rightarrow> model_error" where
  "invalid_response message = ProviderError (plain_error message ''INVALID_PROVIDER_RESPONSE'' True)"

definition response_message :: "pval \<Rightarrow> model_error + (pval \<times> pval) list \<times> (pval \<times> pval) list \<times> (pval \<times> pval) list" where
  "response_message data =
    (case data of
       PDict body \<Rightarrow> (case dict_get body ''choices'' of
           PList (PDict choice # _) \<Rightarrow> (case dict_get choice ''message'' of
               PDict message \<Rightarrow> Inr (body, choice, message)
             | _ \<Rightarrow> Inl (invalid_response ''provider choice does not contain a message''))
         | PList (_ # _) \<Rightarrow> Inl (invalid_response ''provider choice is not an object'')
         | _ \<Rightarrow> Inl (invalid_response ''provider response does not contain choices''))
     | _ \<Rightarrow> Inl (invalid_response ''provider returned a non-object response''))"

definition normalize_provider_response ::
  "(pval \<Rightarrow> string) \<Rightarrow> pval \<Rightarrow> (pval \<times> pval) list \<Rightarrow> model_error + provider_response" where
  "normalize_provider_response str_of data headers =
    (case response_message data of Inl e \<Rightarrow> Inl e | Inr (body, choice, message) \<Rightarrow>
     let content = normalize_text_content (dict_get message ''content'');
         reasoning = first_text [dict_get message ''reasoning_content'', dict_get message ''reasoning'',
           dict_get message ''thinking''] in
     if content = [] then
       (if reasoning \<noteq> []
        then Inl (ProviderError (plain_error ''provider returned reasoning without final content'' ''THINKING_ONLY_RESPONSE'' True))
        else Inl (ProviderError (plain_error ''provider returned an empty message'' ''EMPTY_PROVIDER_RESPONSE'' True)))
     else (case normalize_usage (dict_get body ''usage'') of Inl e \<Rightarrow> Inl e | Inr usage \<Rightarrow>
       Inr \<lparr>nr_content = content, nr_reasoning = reasoning,
            nr_finish_reason = finish_reason_text str_of (dict_get choice ''finish_reason''),
            nr_request_id = (case extract_request_id str_of headers of
                Some r \<Rightarrow> Some r
              | None \<Rightarrow> body_request_id body [''id'', ''request_id'', ''requestId'']),
            nr_usage = usage\<rparr>))"

end
