(* ===== verification/Model_Client.thy ===== *)
theory Model_Client
  imports Model_Reliability
begin

text \<open>
  \<open>models/adapters/openai_compat.py\<close>: one request to the provider and the retry loop around it. What
  the network answers is an input: the outcome of each request. The loop is translated over the
  remaining attempts, and \<open>trace\<close> collects what it does to the outside (requests and sleeps).
\<close>

text \<open>What \<open>urlopen\<close> and the decoding of the body give: \<open>None\<close> for a body that is not JSON.\<close>

datatype http_outcome =
    HttpOk "(pval \<times> pval) list" "pval option"
  | HttpStatus int "(pval \<times> pval) list" string
  | NetworkFailure

text \<open>\<open>str.replace(old, new)\<close> for a non-empty \<open>old\<close>: the leftmost occurrences, without overlap.\<close>

function replace_text :: "string \<Rightarrow> string \<Rightarrow> string \<Rightarrow> string" where
  "replace_text old new s =
    (if s = [] then []
     else if old \<noteq> [] \<and> prefix old s then new @ replace_text old new (drop (length old) s)
     else hd s # replace_text old new (tl s))"
  by pat_completeness auto
termination by (relation "measure (\<lambda>(old, new, s). length s)") auto

declare replace_text.simps [simp del]

definition redacted :: string where
  "redacted = ''<REDACTED>''"

definition sanitize_excerpt :: "string \<Rightarrow> string \<Rightarrow> string" where
  "sanitize_excerpt v api_key = take 500 (if api_key \<noteq> [] then replace_text api_key redacted v else v)"

text \<open>\<open>headers.get("Retry-After") or headers.get("retry-after")\<close> of headers that are strings.\<close>

definition retry_after_header :: "(pval \<times> pval) list \<Rightarrow> string option" where
  "retry_after_header headers =
    (case dict_get headers ''Retry-After'' of
       PStr (c # cs) \<Rightarrow> Some (c # cs)
     | _ \<Rightarrow> (case dict_get headers ''retry-after'' of PStr s \<Rightarrow> Some s | _ \<Rightarrow> None))"

definition http_error_message :: "(int \<Rightarrow> string) \<Rightarrow> int \<Rightarrow> string" where
  "http_error_message dec status =
     ''provider request failed with HTTP '' @ dec status @ '' ('' @ fst (classify_http_error status) @ '')''"

definition request_once ::
  "(pval \<Rightarrow> string) \<Rightarrow> (int \<Rightarrow> string) \<Rightarrow> (string \<Rightarrow> pval option) \<Rightarrow> (string \<Rightarrow> timestamp option) \<Rightarrow> string
     \<Rightarrow> timestamp \<Rightarrow> http_outcome \<Rightarrow> provider_error + pval \<times> (pval \<times> pval) list" where
  "request_once str_of dec parse_float parse_date api_key now out =
    (case out of
       HttpOk headers (Some data) \<Rightarrow> Inr (data, headers)
     | HttpOk headers None \<Rightarrow> Inl ((plain_error ''provider returned invalid JSON'' ''INVALID_PROVIDER_RESPONSE'' True)
         \<lparr>pe_request_id := extract_request_id str_of headers\<rparr>)
     | HttpStatus status headers body \<Rightarrow>
         Inl \<lparr>pe_message = http_error_message dec status, pe_code = fst (classify_http_error status),
              pe_retriable = snd (classify_http_error status), pe_status_code = Some status,
              pe_request_id = extract_request_id str_of headers, pe_attempt_count = 1,
              pe_retry_after = parse_retry_after parse_float parse_date (retry_after_header headers) now,
              pe_excerpt = Some (sanitize_excerpt body api_key)\<rparr>
     | NetworkFailure \<Rightarrow> Inl (plain_error ''provider request timed out or failed to connect'' ''PROVIDER_NETWORK_ERROR'' True))"

record model_turn =
  mt_content :: string
  mt_reasoning :: string
  mt_metadata :: "(string \<times> pval) list"

definition turn_metadata :: "int \<Rightarrow> provider_response \<Rightarrow> (string \<times> pval) list" where
  "turn_metadata attempt r =
    (let m0 = fold (\<lambda>kv. dict_set (fst kv) (PInt (snd kv))) (nr_usage r)
           [(''attempt_count'', PInt attempt), (''retry_count'', PInt (attempt - 1))];
         m1 = (case nr_finish_reason r of None \<Rightarrow> m0 | Some f \<Rightarrow> if f = [] then m0 else dict_set ''finish_reason'' (PStr f) m0) in
     (case nr_request_id r of None \<Rightarrow> m1 | Some i \<Rightarrow> if i = [] then m1 else dict_set ''request_id'' (PStr i) m1))"

text \<open>One pass of the loop up to the retry decision; the headers are those of the request, empty when it failed.\<close>

definition attempt_once ::
  "(pval \<Rightarrow> string) \<Rightarrow> (int \<Rightarrow> string) \<Rightarrow> (string \<Rightarrow> pval option) \<Rightarrow> (string \<Rightarrow> timestamp option) \<Rightarrow> string
     \<Rightarrow> int \<Rightarrow> timestamp \<Rightarrow> http_outcome \<Rightarrow> model_error + model_turn" where
  "attempt_once str_of dec parse_float parse_date api_key attempt now out =
    (let failed = (\<lambda>e headers. Inl (ProviderError (e\<lparr>pe_attempt_count := attempt,
           pe_request_id := (case pe_request_id e of Some (c # cs) \<Rightarrow> Some (c # cs) | _ \<Rightarrow> extract_request_id str_of headers)\<rparr>))) in
     case request_once str_of dec parse_float parse_date api_key now out of
       Inl e \<Rightarrow> failed e []
     | Inr (data, headers) \<Rightarrow>
        (case normalize_provider_response str_of data headers of
           Inl (ProviderError e) \<Rightarrow> failed e headers
         | Inl e \<Rightarrow> Inl e
         | Inr r \<Rightarrow> Inr \<lparr>mt_content = nr_content r, mt_reasoning = nr_reasoning r, mt_metadata = turn_metadata attempt r\<rparr>))"

datatype client_action = Request int | Sleep rat

text \<open>\<open>complete\<close>: the attempts that remain, counted down; \<open>outs n\<close> is the answer to attempt \<open>n\<close> and \<open>clock n\<close> its time.\<close>

function complete_loop ::
  "(pval \<Rightarrow> string) \<Rightarrow> (int \<Rightarrow> string) \<Rightarrow> (string \<Rightarrow> pval option) \<Rightarrow> (string \<Rightarrow> timestamp option) \<Rightarrow> string
     \<Rightarrow> retry_policy \<Rightarrow> (int \<Rightarrow> http_outcome) \<Rightarrow> (int \<Rightarrow> timestamp) \<Rightarrow> int \<Rightarrow> client_action list \<Rightarrow> (model_error + model_turn) \<times> client_action list" where
  "complete_loop str_of dec parse_float parse_date api_key p outs clock attempt trace =
    (case attempt_once str_of dec parse_float parse_date api_key attempt (clock attempt) (outs attempt) of
       Inr turn \<Rightarrow> (Inr turn, trace @ [Request attempt])
     | Inl (ProviderError e) \<Rightarrow>
         if \<not> pe_retriable e \<or> rp_max_attempts p \<le> attempt then (Inl (ProviderError e), trace @ [Request attempt])
         else let delay = delay_before_attempt p (attempt + 1)
                    (case pe_retry_after e of None \<Rightarrow> PNone | Some q \<Rightarrow> PFloat q) in
           complete_loop str_of dec parse_float parse_date api_key p outs clock (attempt + 1)
             (trace @ Request attempt # (if 0 < delay then [Sleep delay] else []))
     | Inl e \<Rightarrow> (Inl e, trace @ [Request attempt]))"
  by pat_completeness auto
termination
  by (relation "measure (\<lambda>(_, _, _, _, _, p, _, _, attempt, _). nat (rp_max_attempts p - attempt))") auto

declare complete_loop.simps [simp del]

definition complete ::
  "(pval \<Rightarrow> string) \<Rightarrow> (int \<Rightarrow> string) \<Rightarrow> (string \<Rightarrow> pval option) \<Rightarrow> (string \<Rightarrow> timestamp option) \<Rightarrow> string
     \<Rightarrow> retry_policy \<Rightarrow> (int \<Rightarrow> http_outcome) \<Rightarrow> (int \<Rightarrow> timestamp) \<Rightarrow> (model_error + model_turn) \<times> client_action list" where
  "complete str_of dec parse_float parse_date api_key p outs clock =
     complete_loop str_of dec parse_float parse_date api_key p outs clock 1 []"

end
