(* ===== verification/Model_Props.thy ===== *)
theory Model_Props
  imports Model_Client
begin

text \<open>
  The provider client: the retry delays are bounded, the loop makes at most the configured number of
  requests, what it returns is well formed, and the excerpt of a failed response does not hold the key.
\<close>

section \<open>Delays\<close>

lemma check_delay_nonneg: "check_delay name v = Inr q \<Longrightarrow> 0 \<le> q"
  by (cases "(name, v)" rule: check_delay.cases) (auto split: if_splits)

lemma make_policyD:
  assumes "make_policy a b m r = Inr p"
  shows "1 \<le> rp_max_attempts p" "rp_max_attempts p \<le> 10" "0 \<le> rp_base_delay p" "rp_base_delay p \<le> rp_max_delay p"
    "rp_respect_retry_after p = r"
  using assms by (auto simp: make_policy_def not_less split: pval.splits if_splits sum.splits dest: check_delay_nonneg)

lemma delay_bounds:
  assumes "0 \<le> rp_base_delay p" "rp_base_delay p \<le> rp_max_delay p"
  shows "0 \<le> delay_before_attempt p n ra \<and> delay_before_attempt p n ra \<le> rp_max_delay p"
proof -
  have "0 \<le> rp_max_delay p" "0 \<le> rp_base_delay p * 2 ^ nat (n - 2)" using assms by (simp_all add: order.trans)
  then show ?thesis
    by (auto simp: delay_before_attempt_def Let_def min_def max_def split: pval.splits)
qed

lemma delay_mono:
  assumes "0 \<le> rp_base_delay p" "rp_base_delay p \<le> rp_max_delay p" "n \<le> k"
  shows "delay_before_attempt p n PNone \<le> delay_before_attempt p k PNone"
proof (cases "n \<le> 1")
  case True
  then show ?thesis using delay_bounds [OF assms(1,2), of k PNone] by (simp add: delay_before_attempt_def)
next
  case False
  have "(2::rat) ^ nat (n - 2) \<le> 2 ^ nat (k - 2)" using assms(3) by (intro power_increasing) auto
  then have "rp_base_delay p * 2 ^ nat (n - 2) \<le> rp_base_delay p * 2 ^ nat (k - 2)"
    using assms(1) by (rule mult_left_mono)
  with False assms(3) show ?thesis by (auto simp: delay_before_attempt_def Let_def min_def)
qed

text \<open>
  For every policy the constructor accepts, the delay before an attempt lies between 0 and the
  configured maximum whatever the server asks for, grows with the number of the attempt, is 0 before
  the first attempt, and respects a usable \<open>Retry-After\<close> of the server up to the maximum.
\<close>

theorem retry_delay_bounded:
  assumes "make_policy a b m r = Inr p"
  shows "0 \<le> delay_before_attempt p n ra \<and> delay_before_attempt p n ra \<le> rp_max_delay p \<and>
    delay_before_attempt p 1 ra = 0 \<and> (n \<le> k \<longrightarrow> delay_before_attempt p n PNone \<le> delay_before_attempt p k PNone) \<and>
    (r \<and> 2 \<le> n \<and> 0 \<le> q \<longrightarrow> min (rp_max_delay p) q \<le> delay_before_attempt p n (PFloat q))"
  using delay_bounds [OF make_policyD(3,4) [OF assms]] delay_mono [OF make_policyD(3,4) [OF assms]] make_policyD(5) [OF assms]
  by (auto simp: delay_before_attempt_def Let_def min_def max_def)

theorem retry_delay_bounded_witness:
  "delay_before_attempt \<lparr>rp_max_attempts = 3, rp_base_delay = 1/2, rp_max_delay = 8, rp_respect_retry_after = True\<rparr> 3 (PFloat 60) \<le> 8 \<and>
   min 8 5 \<le> delay_before_attempt \<lparr>rp_max_attempts = 3, rp_base_delay = 1/2, rp_max_delay = 8, rp_respect_retry_after = True\<rparr> 3 (PFloat 5)"
proof -
  let ?p = "\<lparr>rp_max_attempts = 3, rp_base_delay = 1/2, rp_max_delay = 8, rp_respect_retry_after = True\<rparr>"
  have p: "make_policy (PInt 3) (PFloat (1/2)) (PInt 8) True = Inr ?p" by (simp add: make_policy_def)
  show ?thesis
    using retry_delay_bounded [OF p, of 3 "PFloat 60" 3 0] retry_delay_bounded [OF p, of 3 "PFloat 5" 3 5] by simp
qed

section \<open>The retry loop\<close>

definition requests :: "client_action list \<Rightarrow> int list" where
  "requests trace = concat (map (\<lambda>a. case a of Request n \<Rightarrow> [n] | Sleep _ \<Rightarrow> []) trace)"

definition slept :: "client_action list \<Rightarrow> rat" where
  "slept trace = (\<Sum>a \<leftarrow> trace. case a of Request _ \<Rightarrow> 0 | Sleep q \<Rightarrow> q)"

lemma requests_simps [simp]: "requests [] = []" "requests (Request n # t) = n # requests t"
    "requests (Sleep q # t) = requests t" "requests (t @ u) = requests t @ requests u"
  by (simp_all add: requests_def)

lemma slept_simps [simp]: "slept [] = 0" "slept (Request n # t) = slept t"
    "slept (Sleep q # t) = q + slept t" "slept (t @ u) = slept t + slept u"
  by (simp_all add: slept_def)

lemma attempt_count_once:
  "attempt_once str_of dec pf pd key n now out = Inl (ProviderError e) \<Longrightarrow> pe_attempt_count e = n"
  by (auto simp: attempt_once_def Let_def split: sum.splits model_error.splits prod.splits)

text \<open>The loop from one attempt on, with the trace so far split off.\<close>

lemma complete_loop_run:
  assumes "0 \<le> rp_base_delay p" "rp_base_delay p \<le> rp_max_delay p" "attempt \<le> rp_max_attempts p"
    and once_def: "once = (\<lambda>i. attempt_once str_of dec pf pd key i (clock i) (outs i))"
  shows "\<exists>k t. attempt \<le> k \<and> k \<le> rp_max_attempts p \<and>
    complete_loop str_of dec pf pd key p outs clock attempt trace = (once k, trace @ t) \<and>
    (\<forall>i. attempt \<le> i \<and> i < k \<longrightarrow> (\<exists>e. once i = Inl (ProviderError e) \<and> pe_retriable e)) \<and>
    (\<forall>e. once k = Inl (ProviderError e) \<longrightarrow> \<not> pe_retriable e \<or> k = rp_max_attempts p) \<and>
    requests t = [attempt..k] \<and> 0 \<le> slept t \<and> slept t \<le> of_int (k - attempt) * rp_max_delay p"
  using assms(3)
proof (induction "nat (rp_max_attempts p - attempt)" arbitrary: attempt trace)
  case 0
  then have a: "attempt = rp_max_attempts p" by simp
  have "complete_loop str_of dec pf pd key p outs clock attempt trace = (once attempt, trace @ [Request attempt])"
    by (subst complete_loop.simps) (auto simp: once_def a split: sum.splits model_error.splits)
  then show ?case using a by (intro exI [of _ attempt] exI [of _ "[Request attempt]"]) auto
next
  case (Suc n)
  show ?case
  proof (cases "\<exists>e. once attempt = Inl (ProviderError e) \<and> pe_retriable e")
    case False
    have "complete_loop str_of dec pf pd key p outs clock attempt trace = (once attempt, trace @ [Request attempt])"
      using False by (subst complete_loop.simps) (auto simp: once_def split: sum.splits model_error.splits)
    moreover have "\<not> pe_retriable e" if "once attempt = Inl (ProviderError e)" for e using False that by blast
    ultimately show ?thesis
      using Suc.prems by (intro exI [of _ attempt] exI [of _ "[Request attempt]"]) auto
  next
    case True
    then obtain e where e: "once attempt = Inl (ProviderError e)" "pe_retriable e" by blast
    define d where "d = delay_before_attempt p (attempt + 1) (case pe_retry_after e of None \<Rightarrow> PNone | Some q \<Rightarrow> PFloat q)"
    let ?t = "Request attempt # (if 0 < d then [Sleep d] else [])"
    have d: "0 \<le> d" "d \<le> rp_max_delay p" using delay_bounds [OF assms(1,2)] by (auto simp: d_def)
    have st: "slept ?t \<le> rp_max_delay p" "0 \<le> slept ?t" "requests ?t = [attempt]" using d by auto
    have lt: "attempt + 1 \<le> rp_max_attempts p" using Suc.hyps(2) by linarith
    have "n = nat (rp_max_attempts p - (attempt + 1))" using Suc.hyps(2) by linarith
    from Suc.hyps(1) [OF this lt, of "trace @ ?t"] obtain k t where r:
      "attempt + 1 \<le> k" "k \<le> rp_max_attempts p"
      "complete_loop str_of dec pf pd key p outs clock (attempt + 1) (trace @ ?t) = (once k, (trace @ ?t) @ t)"
      "\<forall>i. attempt + 1 \<le> i \<and> i < k \<longrightarrow> (\<exists>e. once i = Inl (ProviderError e) \<and> pe_retriable e)"
      "\<forall>e. once k = Inl (ProviderError e) \<longrightarrow> \<not> pe_retriable e \<or> k = rp_max_attempts p"
      "requests t = [attempt + 1..k]" "0 \<le> slept t" "slept t \<le> of_int (k - (attempt + 1)) * rp_max_delay p" by blast
    have "complete_loop str_of dec pf pd key p outs clock attempt trace = (once k, trace @ ?t @ t)"
      using e lt r(3) by (subst complete_loop.simps) (auto simp: once_def d_def Let_def)
    moreover have "\<exists>e. once i = Inl (ProviderError e) \<and> pe_retriable e" if "attempt \<le> i" "i < k" for i
      using that e r(4) by (cases "i = attempt") auto
    moreover have "requests (?t @ t) = [attempt..k]"
      using r(1,6) st(3) by (simp only: requests_simps upto_rec1 [of attempt k]) simp
    moreover have "slept (?t @ t) \<le> of_int (k - attempt) * rp_max_delay p"
    proof -
      have "slept (?t @ t) \<le> rp_max_delay p + of_int (k - (attempt + 1)) * rp_max_delay p"
        using st(1) r(8) by (simp only: slept_simps add_mono)
      also have "\<dots> = of_int (k - attempt) * rp_max_delay p" by (simp add: algebra_simps)
      finally show ?thesis .
    qed
    moreover have "0 \<le> slept (?t @ t)" using st(2) r(7) by (simp only: slept_simps add_nonneg_nonneg)
    ultimately show ?thesis using r(1,2,5) by (intro exI [of _ k] exI [of _ "?t @ t"]) simp
  qed
qed

text \<open>
  C9. A completion under an accepted policy always ends, after requests 1 to k with k at most the
  configured number of attempts (so at most 10): every request before the last failed with a retriable
  provider error, the result is that of the last one, a provider error it raises carries the number of
  requests made and is either not retriable or stands at the last attempt allowed, and the client
  slept at most k - 1 times the maximal delay.
\<close>

theorem complete_bounded:
  assumes "make_policy a b m r = Inr p"
  shows "\<exists>k t. 1 \<le> k \<and> k \<le> rp_max_attempts p \<and> k \<le> 10 \<and>
    complete str_of dec pf pd key p outs clock = (attempt_once str_of dec pf pd key k (clock k) (outs k), t) \<and>
    (\<forall>i. 1 \<le> i \<and> i < k \<longrightarrow> (\<exists>e. attempt_once str_of dec pf pd key i (clock i) (outs i) = Inl (ProviderError e) \<and> pe_retriable e)) \<and>
    (\<forall>e. fst (complete str_of dec pf pd key p outs clock) = Inl (ProviderError e) \<longrightarrow>
       pe_attempt_count e = k \<and> (\<not> pe_retriable e \<or> k = rp_max_attempts p)) \<and>
    requests t = [1..k] \<and> 0 \<le> slept t \<and> slept t \<le> of_int (k - 1) * rp_max_delay p"
proof -
  note p = make_policyD [OF assms]
  from complete_loop_run [OF p(3,4,1) refl, where str_of = str_of and dec = dec and pf = pf and pd = pd and key = key and outs = outs and clock = clock and trace = "[]"] obtain k t where c:
    "1 \<le> k" "k \<le> rp_max_attempts p"
    "complete_loop str_of dec pf pd key p outs clock 1 [] = (attempt_once str_of dec pf pd key k (clock k) (outs k), [] @ t)"
    "\<forall>i. 1 \<le> i \<and> i < k \<longrightarrow> (\<exists>e. attempt_once str_of dec pf pd key i (clock i) (outs i) = Inl (ProviderError e) \<and> pe_retriable e)"
    "\<forall>e. attempt_once str_of dec pf pd key k (clock k) (outs k) = Inl (ProviderError e) \<longrightarrow> \<not> pe_retriable e \<or> k = rp_max_attempts p"
    "requests t = [1..k]" "0 \<le> slept t" "slept t \<le> of_int (k - 1) * rp_max_delay p" by blast
  have f: "complete str_of dec pf pd key p outs clock = (attempt_once str_of dec pf pd key k (clock k) (outs k), t)"
    using c(3) by (simp add: complete_def)
  moreover have "pe_attempt_count e = k \<and> (\<not> pe_retriable e \<or> k = rp_max_attempts p)"
    if "fst (complete str_of dec pf pd key p outs clock) = Inl (ProviderError e)" for e
    using that c(5) attempt_count_once unfolding f by (metis fst_conv)
  ultimately show ?thesis using c p(2) by (intro exI [of _ k] exI [of _ t]) auto
qed

definition demo_answers :: "int \<Rightarrow> http_outcome" where
  "demo_answers n = (if n = 1 then HttpStatus 503 [(PStr ''Retry-After'', PStr ''5'')] ''busy''
     else HttpOk [(PStr ''X-Request-ID'', PStr ''r-7'')] (Some (PDict
       [(PStr ''choices'', PList [PDict [(PStr ''message'', PDict [(PStr ''content'', PStr '' hello '')]),
          (PStr ''finish_reason'', PStr ''stop'')]]),
        (PStr ''usage'', PDict [(PStr ''prompt_tokens'', PInt 3), (PStr ''input_tokens'', PInt 4)])])))"

definition demo_policy :: retry_policy where
  "demo_policy = \<lparr>rp_max_attempts = 3, rp_base_delay = 1, rp_max_delay = 8, rp_respect_retry_after = True\<rparr>"

definition demo_float :: "string \<Rightarrow> pval option" where
  "demo_float s = (if s = ''5'' then Some (PFloat 5) else None)"

theorem complete_bounded_witness:
  "complete (\<lambda>_. []) (\<lambda>_. ''503'') demo_float (\<lambda>_. None) ''key'' demo_policy demo_answers (\<lambda>_. 0) =
     (Inr \<lparr>mt_content = ''hello'', mt_reasoning = [], mt_metadata = [(''attempt_count'', PInt 2), (''retry_count'', PInt 1),
        (''input_tokens'', PInt 4), (''finish_reason'', PStr ''stop''), (''request_id'', PStr ''r-7'')]\<rparr>,
      [Request 1, Sleep 5, Request 2]) \<and>
   (\<exists>k t. k \<le> 3 \<and> requests t = [1..k] \<and> slept t \<le> of_int (k - 1) * 8)"
proof -
  have p: "make_policy (PInt 3) (PInt 1) (PInt 8) True = Inr demo_policy" by (simp add: make_policy_def demo_policy_def)
  have "complete (\<lambda>_. []) (\<lambda>_. ''503'') demo_float (\<lambda>_. None) ''key'' demo_policy demo_answers (\<lambda>_. 0) =
     (Inr \<lparr>mt_content = ''hello'', mt_reasoning = [], mt_metadata = [(''attempt_count'', PInt 2), (''retry_count'', PInt 1),
        (''input_tokens'', PInt 4), (''finish_reason'', PStr ''stop''), (''request_id'', PStr ''r-7'')]\<rparr>,
      [Request 1, Sleep 5, Request 2])" by code_simp
  moreover have "\<exists>k t. k \<le> 3 \<and> requests t = [1..k] \<and> slept t \<le> of_int (k - 1) * 8"
    using complete_bounded [OF p, of "\<lambda>_. []" "\<lambda>_. ''503''" demo_float "\<lambda>_. None" "''key''" demo_answers "\<lambda>_. 0"]
    by (auto simp: demo_policy_def)
  ultimately show ?thesis by blast
qed


section \<open>Responses\<close>









lemma usage_count_error: "usage_count v = Inl e \<Longrightarrow> e = ModelOverflowError"
  by (auto simp: usage_count_def split: pval.splits nonfinite.splits)






text \<open>An infinite counter beside usable content is not a provider error: the call ends with \<open>OverflowError\<close> at once.\<close>

lemma usage_loop_overflow:
  "source \<in> fst ` set aliases \<Longrightarrow> dict_get kvs source = PNonFinite PosInf \<Longrightarrow> usage_loop kvs aliases usage = Inl ModelOverflowError"
proof (induction aliases arbitrary: usage)
  case (Cons a aliases)
  obtain s t where a: "a = (s, t)" by fastforce
  show ?case
  proof (cases "usage_count (dict_get kvs s)")
    case (Inl e)
    with usage_count_error show ?thesis by (simp add: a)
  next
    case (Inr n)
    then have "s \<noteq> source" using Cons.prems(2) by (auto simp: usage_count_def)
    with Cons Inr show ?thesis by (simp add: a)
  qed
qed simp

lemma infinite_usage_overflows:
  assumes "outs 1 = HttpOk headers (Some data)" "response_message data = Inr (body, choice, message)"
    "normalize_text_content (dict_get message ''content'') \<noteq> []" "dict_get body ''usage'' = PDict usage"
    "source \<in> fst ` set usage_aliases" "dict_get usage source = PNonFinite PosInf"
  shows "complete str_of dec pf pd key p outs clock = (Inl ModelOverflowError, [Request 1])"
proof -
  have "normalize_provider_response str_of data headers = Inl ModelOverflowError"
    using assms usage_loop_overflow [OF assms(5,6), of "[]"] by (simp add: normalize_provider_response_def normalize_usage_def)
  then show ?thesis
    by (simp add: complete_def complete_loop.simps [of _ _ _ _ _ _ _ _ 1] attempt_once_def request_once_def assms(1))
qed

section \<open>Redaction\<close>

lemma replace_prefix:
  assumes "CHR 0x3C \<notin> set k" "prefix k (replace_text old redacted s)"
  shows "prefix k s"
  using assms
proof (induction s arbitrary: k)
  case Nil
  then show ?case by (simp add: replace_text.simps)
next
  case (Cons c cs)
  show ?case
  proof (cases "old \<noteq> [] \<and> prefix old (c # cs)")
    case True
    then have "prefix k (redacted @ replace_text old redacted (drop (length old) (c # cs)))"
      using Cons.prems(2) by (simp add: replace_text.simps [of old redacted "c # cs"])
    with Cons.prems(1) show ?thesis by (cases k) (auto simp: redacted_def)
  next
    case False
    then have p: "prefix k (c # replace_text old redacted cs)"
      using Cons.prems(2) by (auto simp: replace_text.simps [of old redacted "c # cs"])
    show ?thesis
    proof (cases k)
      case (Cons d k')
      with p Cons.IH [of k'] \<open>CHR 0x3C \<notin> set k\<close> show ?thesis by simp
    qed simp
  qed
qed

lemma contains_append_sep:
  assumes "x \<notin> set k" "k \<noteq> []"
  shows "contains k (xs @ x # ys) \<longleftrightarrow> contains k xs \<or> contains k ys"
proof (induction xs)
  case Nil
  then show ?case using assms by (cases k) auto
next
  case (Cons c xs)
  have "prefix k ((c # xs) @ x # ys) \<longleftrightarrow> prefix k (c # xs)"
  proof
    assume "prefix k ((c # xs) @ x # ys)"
    then consider "prefix k (c # xs)" | zs where "k = (c # xs) @ zs" "prefix zs (x # ys)" "zs \<noteq> []"
      unfolding prefix_append [of k "c # xs"] by (metis append_Nil2 prefix_order.refl)
    then show "prefix k (c # xs)"
    proof cases
      case 2
      then have "x \<in> set k" by (cases zs) auto
      with assms show ?thesis by simp
    qed
  qed (metis prefix_prefix)
  with Cons.IH show ?case by simp
qed

lemma replaced_free:
  assumes "old \<noteq> []" "CHR 0x3C \<notin> set old" "CHR 0x3E \<notin> set old" "\<not> contains old ''REDACTED''"
  shows "\<not> contains old (replace_text old redacted s)"
proof (induction s rule: measure_induct_rule [of length])
  case (less s)
  show ?case
  proof (cases "s = []")
    case True
    with assms(1) show ?thesis by (simp add: replace_text.simps)
  next
    case False
    then obtain c cs where s: "s = c # cs" by (cases s) auto
    show ?thesis
    proof (cases "prefix old s")
      case True
      let ?r = "replace_text old redacted (drop (length old) s)"
      have ih: "\<not> contains old ?r" using less [of "drop (length old) s"] assms(1) s by simp
      have "replace_text old redacted s = redacted @ ?r"
        using True assms(1) False by (simp add: replace_text.simps [of old redacted s])
      also have "\<dots> = [] @ CHR 0x3C # (''REDACTED'' @ CHR 0x3E # ?r)" unfolding redacted_def by simp
      finally have "replace_text old redacted s = [] @ CHR 0x3C # (''REDACTED'' @ CHR 0x3E # ?r)" .
      then show ?thesis
        using ih assms(1,4) by (simp only: contains_append_sep [OF assms(2,1)] contains_append_sep [OF assms(3,1)]
            contains.simps(1)) blast
    next
      case False
      have ih: "\<not> contains old (replace_text old redacted cs)" using less [of cs] s by simp
      have r: "replace_text old redacted s = c # replace_text old redacted cs"
        using False s by (simp add: replace_text.simps [of old redacted "c # cs"])
      have "\<not> prefix old (replace_text old redacted s)" using replace_prefix [OF assms(2)] False by blast
      with ih show ?thesis unfolding r by simp
    qed
  qed
qed

lemma contains_take: "contains k (take n s) \<Longrightarrow> contains k s"
proof (induction s arbitrary: n)
  case (Cons c cs)
  then show ?case
  proof (cases n)
    case (Suc m)
    then have "prefix k (c # take m cs) \<or> contains k (take m cs)" using Cons.prems by simp
    then show ?thesis using Cons.IH [of m] by (metis contains.simps(2) prefix_order.trans take_Suc_Cons take_is_prefix)
  qed (auto simp: prefix_def)
qed simp

text \<open>
  The excerpt of a response body kept in an error has at most 500 characters and does not contain the
  API key, for every key without angle brackets that is not part of the word put in its place.
\<close>

theorem excerpt_redacted:
  assumes "key \<noteq> []" "CHR 0x3C \<notin> set key" "CHR 0x3E \<notin> set key" "\<not> contains key ''REDACTED''"
  shows "\<not> contains key (sanitize_excerpt body key) \<and> length (sanitize_excerpt body key) \<le> 500"
  using replaced_free [OF assms, of body] contains_take [of key 500] assms(1) by (auto simp: sanitize_excerpt_def)

theorem excerpt_redacted_witness:
  "sanitize_excerpt ''bad key sk-1sk-1!'' ''sk-1'' = ''bad key <REDACTED><REDACTED>!'' \<and>
   \<not> contains ''sk-1'' (sanitize_excerpt ''bad key sk-1sk-1!'' ''sk-1'')"
proof -
  have "sanitize_excerpt ''bad key sk-1sk-1!'' ''sk-1'' = ''bad key <REDACTED><REDACTED>!''" by code_simp
  moreover have "''sk-1'' \<noteq> []" "CHR 0x3C \<notin> set ''sk-1''" "CHR 0x3E \<notin> set ''sk-1''" "\<not> contains ''sk-1'' ''REDACTED''"
    by code_simp+
  ultimately show ?thesis using excerpt_redacted [of "''sk-1''" "''bad key sk-1sk-1!''"] by blast
qed

end
