(* ===== verification/Team_Lease.thy ===== *)
theory Team_Lease
  imports Py_Value Py_Path Interfaces
begin

text \<open>
  \<open>multiagent/lease.py\<close>: the registry of file write leases of a team run. A manager belongs to one
  workspace (already resolved); \<open>resolve\<close> stands for \<open>Path.resolve(strict=False)\<close>, what the file system
  makes of a path. Every operation holds the lock of the manager, so an execution is a sequence of
  operations. A conflict of the code keeps an expired lease, so no operation reads the expiry.
\<close>

datatype lease_decision = LeaseGranted | LeaseConflict | OutsideWorkspace | AlreadyOwns

record file_lease =
  fl_path :: string
  fl_owner_agent_id :: string
  fl_task_id :: string
  fl_acquired_at :: timestamp
  fl_expires_at :: timestamp

record lease_result =
  la_decision :: lease_decision
  la_lease :: "file_lease option"
  la_existing :: "file_lease option"
  la_reason :: string

record lease_manager =
  lm_workspace :: posix_path
  lm_default_seconds :: int
  lm_leases :: "(string \<times> file_lease) list"

definition make_manager :: "(posix_path \<Rightarrow> posix_path) \<Rightarrow> posix_path \<Rightarrow> int \<Rightarrow> lease_manager" where
  "make_manager resolve workspace seconds =
     \<lparr>lm_workspace = resolve workspace, lm_default_seconds = seconds, lm_leases = []\<rparr>"

text \<open>\<open>_resolve\<close>: \<open>workspace / candidate\<close> of an absolute candidate is the candidate.\<close>

definition lease_resolve :: "(posix_path \<Rightarrow> posix_path) \<Rightarrow> posix_path \<Rightarrow> string \<Rightarrow> posix_path option" where
  "lease_resolve resolve workspace raw =
    (let candidate = path_of raw;
         resolved = (if path_absolute candidate then resolve candidate else resolve (path_join workspace candidate)) in
     if relative_to resolved workspace then Some resolved else None)"

definition lease_key :: "(posix_path \<Rightarrow> posix_path) \<Rightarrow> lease_manager \<Rightarrow> string \<Rightarrow> string option" where
  "lease_key resolve m raw = map_option path_text (lease_resolve resolve (lm_workspace m) raw)"

definition acquire ::
  "(posix_path \<Rightarrow> posix_path) \<Rightarrow> lease_manager \<Rightarrow> string \<Rightarrow> string \<Rightarrow> string \<Rightarrow> int option \<Rightarrow> timestamp
     \<Rightarrow> lease_manager \<times> lease_result" where
  "acquire resolve m raw owner_agent_id task_id duration_seconds now =
    (case lease_key resolve m raw of
       None \<Rightarrow> (m, \<lparr>la_decision = OutsideWorkspace, la_lease = None, la_existing = None,
                   la_reason = ''path escapes workspace: '' @ raw\<rparr>)
     | Some key \<Rightarrow> (case map_of (lm_leases m) key of
         Some existing \<Rightarrow>
           if fl_task_id existing = task_id
           then (m, \<lparr>la_decision = AlreadyOwns, la_lease = Some existing, la_existing = None,
                     la_reason = ''task already owns this lease''\<rparr>)
           else (m, \<lparr>la_decision = LeaseConflict, la_lease = None, la_existing = Some existing,
                     la_reason = ''file is leased by '' @ fl_owner_agent_id existing @ '' for task '' @ fl_task_id existing\<rparr>)
       | None \<Rightarrow>
           let duration = (case duration_seconds of None \<Rightarrow> lm_default_seconds m | Some d \<Rightarrow> if d = 0 then lm_default_seconds m else d);
               lease = \<lparr>fl_path = key, fl_owner_agent_id = owner_agent_id, fl_task_id = task_id,
                        fl_acquired_at = now, fl_expires_at = now + of_int duration\<rparr> in
           (m\<lparr>lm_leases := dict_set key lease (lm_leases m)\<rparr>,
            \<lparr>la_decision = LeaseGranted, la_lease = Some lease, la_existing = None, la_reason = ''lease granted''\<rparr>)))"

text \<open>\<open>del d[key]\<close>.\<close>

definition dict_del :: "'k \<Rightarrow> ('k \<times> 'v) list \<Rightarrow> ('k \<times> 'v) list" where
  "dict_del k kvs = filter (\<lambda>kv. fst kv \<noteq> k) kvs"

definition lease_release :: "(posix_path \<Rightarrow> posix_path) \<Rightarrow> lease_manager \<Rightarrow> string \<Rightarrow> string \<Rightarrow> lease_manager \<times> bool" where
  "lease_release resolve m raw task_id =
    (case lease_key resolve m raw of None \<Rightarrow> (m, False) | Some key \<Rightarrow>
     (case map_of (lm_leases m) key of None \<Rightarrow> (m, False) | Some existing \<Rightarrow>
       if fl_task_id existing \<noteq> task_id then (m, False)
       else (m\<lparr>lm_leases := dict_del key (lm_leases m)\<rparr>, True)))"

text \<open>The loop of \<open>release_all_for_task\<close> over a copy of the items.\<close>

definition release_all_for_task :: "lease_manager \<Rightarrow> string \<Rightarrow> lease_manager \<times> string list" where
  "release_all_for_task m task_id =
     fold (\<lambda>(key, lease) (m, released). if fl_task_id lease = task_id
           then (m\<lparr>lm_leases := dict_del key (lm_leases m)\<rparr>, released @ [key]) else (m, released))
       (lm_leases m) (m, [])"

definition lease_owner :: "(posix_path \<Rightarrow> posix_path) \<Rightarrow> lease_manager \<Rightarrow> string \<Rightarrow> file_lease option" where
  "lease_owner resolve m raw =
     (case lease_key resolve m raw of None \<Rightarrow> None | Some key \<Rightarrow> map_of (lm_leases m) key)"

definition lease_snapshot :: "lease_manager \<Rightarrow> (string \<times> file_lease) list" where
  "lease_snapshot m = lm_leases m"

section \<open>Executions\<close>

datatype lease_op =
    OpAcquire string string string "int option" timestamp
  | OpRelease string string
  | OpReleaseAll string

definition lease_apply :: "(posix_path \<Rightarrow> posix_path) \<Rightarrow> lease_op \<Rightarrow> lease_manager \<Rightarrow> lease_manager" where
  "lease_apply resolve oper m = (case oper of
       OpAcquire raw agent task duration now \<Rightarrow> fst (acquire resolve m raw agent task duration now)
     | OpRelease raw task \<Rightarrow> fst (lease_release resolve m raw task)
     | OpReleaseAll task \<Rightarrow> fst (release_all_for_task m task))"

text \<open>The operation gives up leases of the task.\<close>

fun releasing :: "string \<Rightarrow> lease_op \<Rightarrow> bool" where
  "releasing task (OpRelease raw t) = (t = task)"
| "releasing task (OpReleaseAll t) = (t = task)"
| "releasing task (OpAcquire raw agent t duration now) = False"

inductive lease_step :: "(posix_path \<Rightarrow> posix_path) \<Rightarrow> lease_manager \<Rightarrow> lease_manager \<Rightarrow> bool" for resolve where
  lease_step_apply: "lease_step resolve m (lease_apply resolve oper m)"

definition lease_inv :: "(posix_path \<Rightarrow> posix_path) \<Rightarrow> lease_manager \<Rightarrow> bool" where
  "lease_inv resolve m \<longleftrightarrow> distinct (map fst (lm_leases m)) \<and>
     (\<forall>kv \<in> set (lm_leases m). fl_path (snd kv) = fst kv \<and>
        (\<exists>raw p. lease_resolve resolve (lm_workspace m) raw = Some p \<and> path_text p = fst kv))"

lemma distinct_map_fst_filter: "distinct (map fst kvs) \<Longrightarrow> distinct (map fst (filter P kvs))"
  by (induction kvs) auto

lemma map_of_dict_del [simp]: "map_of (dict_del k kvs) x = (if x = k then None else map_of kvs x)"
  by (induction kvs) (auto simp: dict_del_def)

text \<open>The loop of a release over any part of the registry.\<close>

lemma lease_release_fold:
  assumes "distinct (map fst kvs)" "set kvs \<subseteq> set (lm_leases m)" "distinct (map fst (lm_leases m))"
  shows "fold (\<lambda>(key, lease) (m, released). if fl_task_id lease = t
           then (m\<lparr>lm_leases := dict_del key (lm_leases m)\<rparr>, released @ [key]) else (m, released)) kvs (m, rel) =
    (m\<lparr>lm_leases := filter (\<lambda>kv. \<not> (fl_task_id (snd kv) = t \<and> kv \<in> set kvs)) (lm_leases m)\<rparr>,
     rel @ map fst (filter (\<lambda>kv. fl_task_id (snd kv) = t) kvs))"
  using assms
proof (induction kvs arbitrary: m rel)
  case Nil
  then show ?case by simp
next
  case (Cons kv kvs)
  let ?f = "\<lambda>(key, lease) (m, released). if fl_task_id lease = t
           then (m\<lparr>lm_leases := dict_del key (lm_leases m)\<rparr>, released @ [key]) else (m, released)"
  obtain key lease where kv: "kv = (key, lease)" by fastforce
  show ?case
  proof (cases "fl_task_id lease = t")
    case False
    have "filter (\<lambda>x. \<not> (fl_task_id (snd x) = t \<and> x \<in> set (kv # kvs))) (lm_leases m) =
        filter (\<lambda>x. \<not> (fl_task_id (snd x) = t \<and> x \<in> set kvs)) (lm_leases m)"
      using False by (intro filter_cong) (auto simp: kv)
    with Cons False show ?thesis by (simp add: kv)
  next
    case True
    let ?m = "m\<lparr>lm_leases := dict_del key (lm_leases m)\<rparr>"
    have del: "dict_del key (lm_leases m) = filter (\<lambda>x. x \<noteq> kv) (lm_leases m)"
      unfolding dict_del_def
    proof (rule filter_cong [OF refl])
      fix x
      assume x: "x \<in> set (lm_leases m)"
      have "kv \<in> set (lm_leases m)" using Cons.prems(2) by simp
      with distinct_map_eqD [OF Cons.prems(3) x, of kv] show "fst x \<noteq> key \<longleftrightarrow> x \<noteq> kv" by (auto simp: kv)
    qed
    have sub: "set kvs \<subseteq> set (lm_leases ?m)" using Cons.prems(1,2) by (force simp: kv dict_del_def)
    have dis: "distinct (map fst (lm_leases ?m))" using Cons.prems(3) by (simp add: dict_del_def distinct_map_fst_filter)
    have tail: "distinct (map fst kvs)" using Cons.prems(1) by simp
    have eq: "filter (\<lambda>x. \<not> (fl_task_id (snd x) = t \<and> x \<in> set kvs)) (lm_leases ?m) =
        filter (\<lambda>x. \<not> (fl_task_id (snd x) = t \<and> x \<in> set (kv # kvs))) (lm_leases m)"
      using True by (simp add: del) (rule filter_cong [OF refl], auto simp: kv)
    have "fold ?f kvs (?m, rel @ [key]) = (m\<lparr>lm_leases := filter (\<lambda>x. \<not> (fl_task_id (snd x) = t \<and> x \<in> set (kv # kvs))) (lm_leases m)\<rparr>,
        (rel @ [key]) @ map fst (filter (\<lambda>kv. fl_task_id (snd kv) = t) kvs))"
      unfolding Cons.IH [OF tail sub dis, of "rel @ [key]"] eq by simp
    moreover have "fold ?f (kv # kvs) (m, rel) = fold ?f kvs (?m, rel @ [key])" using True by (simp only: kv fold_simps prod.case if_True simp_thms)
    moreover have "rel @ map fst (filter (\<lambda>kv. fl_task_id (snd kv) = t) (kv # kvs)) =
        (rel @ [key]) @ map fst (filter (\<lambda>kv. fl_task_id (snd kv) = t) kvs)" using True by (simp add: kv)
    ultimately show ?thesis by (simp only:)
  qed
qed

text \<open>Releasing all leases of a task keeps exactly the others, and reports the keys in order.\<close>

lemma release_all_exact:
  assumes "distinct (map fst (lm_leases m))"
  shows "release_all_for_task m t = (m\<lparr>lm_leases := filter (\<lambda>kv. fl_task_id (snd kv) \<noteq> t) (lm_leases m)\<rparr>,
     map fst (filter (\<lambda>kv. fl_task_id (snd kv) = t) (lm_leases m)))"
proof -
  have "filter (\<lambda>kv. \<not> (fl_task_id (snd kv) = t \<and> kv \<in> set (lm_leases m))) (lm_leases m) =
      filter (\<lambda>kv. fl_task_id (snd kv) \<noteq> t) (lm_leases m)" by (intro filter_cong) auto
  then show ?thesis
    unfolding release_all_for_task_def using lease_release_fold [OF assms subset_refl assms, of t "[]"] by simp
qed

lemma lease_key_Some: "lease_key resolve m raw = Some k \<Longrightarrow> \<exists>p. lease_resolve resolve (lm_workspace m) raw = Some p \<and> path_text p = k"
  by (auto simp: lease_key_def)

lemma lease_inv_acquire:
  assumes "lease_inv resolve m"
  shows "lease_inv resolve (fst (acquire resolve m raw agent task d now))"
  using assms lease_key_Some [of resolve m raw]
  by (auto simp: acquire_def lease_inv_def Let_def distinct_dict_set dest!: set_dict_set split: option.splits)

lemma lease_inv_filter: "lease_inv resolve m \<Longrightarrow> lease_inv resolve (m\<lparr>lm_leases := filter P (lm_leases m)\<rparr>)"
  by (auto simp: lease_inv_def distinct_map_fst_filter)

lemma lease_inv_apply:
  assumes "lease_inv resolve m"
  shows "lease_inv resolve (lease_apply resolve oper m)"
proof (cases oper)
  case (OpAcquire raw agent task d now)
  then show ?thesis using lease_inv_acquire [OF assms] by (simp add: lease_apply_def)
next
  case (OpRelease raw task)
  then show ?thesis
    using assms lease_inv_filter [OF assms] by (auto simp: lease_apply_def lease_release_def dict_del_def split: option.splits)
next
  case (OpReleaseAll task)
  have "distinct (map fst (lm_leases m))" using assms by (simp add: lease_inv_def)
  with OpReleaseAll lease_inv_filter [OF assms] show ?thesis by (simp add: lease_apply_def release_all_exact)
qed

interpretation leases: preserving "lease_inv resolve" "lease_step resolve"
  by unfold_locales (auto simp: lease_inv_apply elim: lease_step.cases)

lemma lease_steps_ops: "(lease_step resolve)\<^sup>*\<^sup>* m (fold (lease_apply resolve) ops m)"
proof (induction ops rule: rev_induct)
  case (snoc x xs)
  have "lease_step resolve (fold (lease_apply resolve) xs m) (lease_apply resolve x (fold (lease_apply resolve) xs m))"
    by (rule lease_step_apply)
  with snoc show ?case by (simp add: rtranclp.rtrancl_into_rtrancl)
qed simp

lemma lease_inv_ops: "lease_inv resolve m \<Longrightarrow> lease_inv resolve (fold (lease_apply resolve) ops m)"
  using leases.inv_steps [OF lease_steps_ops] .

text \<open>An operation that does not release leases of the holder leaves the lease where it is.\<close>

lemma lease_workspace_apply [simp]: "lm_workspace (lease_apply resolve oper m) = lm_workspace m"
proof -
  have "lm_workspace (fst (fold (\<lambda>(key, lease) (m, released). if fl_task_id lease = t
      then (m\<lparr>lm_leases := dict_del key (lm_leases m)\<rparr>, released @ [key]) else (m, released)) kvs (m, rel))) = lm_workspace m"
    for t kvs rel and m :: lease_manager
    by (induction kvs arbitrary: m rel) (auto split: if_splits)
  then show ?thesis
    by (auto simp: lease_apply_def acquire_def lease_release_def release_all_for_task_def Let_def split: lease_op.splits option.splits)
qed

lemma lease_kept:
  assumes "lease_inv resolve m" "map_of (lm_leases m) k = Some l" "\<not> releasing (fl_task_id l) oper"
  shows "map_of (lm_leases (lease_apply resolve oper m)) k = Some l"
proof (cases oper)
  case (OpAcquire raw agent task d now)
  with assms show ?thesis
    by (auto simp: lease_apply_def acquire_def Let_def split: option.splits)
next
  case (OpRelease raw task)
  with assms show ?thesis by (auto simp: lease_apply_def lease_release_def split: option.splits)
next
  case (OpReleaseAll task)
  have d: "distinct (map fst (lm_leases m))" using assms(1) by (simp add: lease_inv_def)
  have "map_of (filter (\<lambda>kv. fl_task_id (snd kv) \<noteq> t) kvs) k = Some l"
    if "map_of kvs k = Some l" "fl_task_id l \<noteq> t" "distinct (map fst kvs)" for kvs t
    using that by (induction kvs) (auto split: if_splits)
  from this [OF assms(2) _ d] assms(3) OpReleaseAll show ?thesis by (simp add: lease_apply_def release_all_exact [OF d])
qed

lemma lease_kept_ops:
  assumes "lease_inv resolve m" "map_of (lm_leases m) k = Some l" "list_all (\<lambda>oper. \<not> releasing (fl_task_id l) oper) ops"
  shows "map_of (lm_leases (fold (lease_apply resolve) ops m)) k = Some l \<and> lm_workspace (fold (lease_apply resolve) ops m) = lm_workspace m"
  using assms
proof (induction ops arbitrary: m)
  case (Cons x xs)
  then show ?case using lease_kept [of resolve m k l x] lease_inv_apply [of resolve m x] by simp
qed simp

section \<open>Properties\<close>

text \<open>
  C11. One writer per file: in every registry reachable from a fresh one, once a task has been granted
  (or already holds) the lease of a path, and whatever happens after that short of a release by that
  task, every spelling of the same file is reported as held by it, another task is refused with that
  lease as the conflict at any later time, also after the lease has expired, and the task itself is
  told that it already owns the file; both leave the registry unchanged.
\<close>

theorem lease_exclusive:
  assumes "m0 = make_manager resolve workspace seconds" "m1 = fold (lease_apply resolve) ops0 m0"
    "acquire resolve m1 raw agent task d now = (m2, r)" "la_lease r = Some l"
    "m = fold (lease_apply resolve) ops m2" "list_all (\<lambda>oper. \<not> releasing task oper) ops"
    "lease_resolve resolve (lm_workspace m0) raw' = lease_resolve resolve (lm_workspace m0) raw"
  shows "lease_owner resolve m raw' = Some l \<and> fl_task_id l = task \<and>
    (if task' = task
     then acquire resolve m raw' agent' task' d' now' = (m, \<lparr>la_decision = AlreadyOwns, la_lease = Some l, la_existing = None,
            la_reason = ''task already owns this lease''\<rparr>)
     else acquire resolve m raw' agent' task' d' now' = (m, \<lparr>la_decision = LeaseConflict, la_lease = None, la_existing = Some l,
            la_reason = ''file is leased by '' @ fl_owner_agent_id l @ '' for task '' @ task\<rparr>))"
proof -
  have "lease_inv resolve m0" by (simp add: assms(1) make_manager_def lease_inv_def)
  then have i1: "lease_inv resolve m1" unfolding assms(2) by (rule lease_inv_ops)
  then have i2: "lease_inv resolve m2" using lease_inv_acquire [of resolve m1 raw agent task d now] assms(3) by simp
  have w1: "lm_workspace m1 = lm_workspace m0" unfolding assms(2)
    by (induction ops0 rule: rev_induct) simp_all
  have w2: "lm_workspace m2 = lm_workspace m1" using assms(3)
    by (auto simp: acquire_def Let_def split: option.splits if_splits)
  obtain k where k: "lease_key resolve m1 raw = Some k" "map_of (lm_leases m2) k = Some l" "fl_task_id l = task"
    using assms(3,4) by (auto simp: acquire_def Let_def split: option.splits if_splits)
  have kept: "map_of (lm_leases m) k = Some l" "lm_workspace m = lm_workspace m0"
    using lease_kept_ops [OF i2 k(2), of ops] assms(5,6) k(3) w1 w2 by auto
  have "lease_key resolve m raw' = Some k"
    using k(1) assms(7) w1 kept(2) by (simp add: lease_key_def)
  with kept k(3) show ?thesis by (auto simp: lease_owner_def acquire_def)
qed

definition demo_manager :: lease_manager where
  "demo_manager = make_manager id (path_of ''/work'') 300"

definition demo_lease :: file_lease where
  "demo_lease = \<lparr>fl_path = ''/work/src/a.py'', fl_owner_agent_id = ''w1'', fl_task_id = ''t1'', fl_acquired_at = 0, fl_expires_at = 300\<rparr>"

theorem lease_exclusive_witness:
  "acquire id (fold (lease_apply id) [OpReleaseAll ''t2''] (fst (acquire id demo_manager ''src/a.py'' ''w1'' ''t1'' (Some 0) 0)))
     ''/work/src//./a.py'' ''w2'' ''t2'' None 100000 =
   (\<lparr>lm_workspace = path_of ''/work'', lm_default_seconds = 300, lm_leases = [(''/work/src/a.py'', demo_lease)]\<rparr>,
    \<lparr>la_decision = LeaseConflict, la_lease = None, la_existing = Some demo_lease, la_reason = ''file is leased by w1 for task t1''\<rparr>)"
proof -
  let ?m2 = "\<lparr>lm_workspace = path_of ''/work'', lm_default_seconds = 300, lm_leases = [(''/work/src/a.py'', demo_lease)]\<rparr>"
  have a: "acquire id demo_manager ''src/a.py'' ''w1'' ''t1'' (Some 0) 0 =
     (?m2, \<lparr>la_decision = LeaseGranted, la_lease = Some demo_lease, la_existing = None, la_reason = ''lease granted''\<rparr>)" by code_simp
  have f: "fold (lease_apply id) [OpReleaseAll ''t2''] ?m2 = ?m2" by code_simp
  have s: "lease_resolve id (lm_workspace demo_manager) ''/work/src//./a.py'' = lease_resolve id (lm_workspace demo_manager) ''src/a.py''"
    by code_simp
  from lease_exclusive [OF demo_manager_def [unfolded], of demo_manager "[]" "''src/a.py''" "''w1''" "''t1''" "Some 0" 0 ?m2 _ demo_lease ?m2
      "[OpReleaseAll ''t2'']" "''/work/src//./a.py''" "''t2''" "''w2''" None 100000] a f s
  show ?thesis by (simp add: demo_lease_def)
qed

text \<open>
  When a task ends, releasing its leases removes exactly its leases and reports their files in
  order: afterwards it owns nothing, and every other lease is untouched.
\<close>

theorem lease_release_exact:
  assumes "m0 = make_manager resolve workspace seconds" "m = fold (lease_apply resolve) ops m0"
    "release_all_for_task m task = (m', released)"
  shows "lease_snapshot m' = filter (\<lambda>kv. fl_task_id (snd kv) \<noteq> task) (lease_snapshot m) \<and>
    released = map fst (filter (\<lambda>kv. fl_task_id (snd kv) = task) (lease_snapshot m)) \<and>
    (\<forall>raw. lease_owner resolve m' raw = (case lease_owner resolve m raw of
        None \<Rightarrow> None | Some l \<Rightarrow> if fl_task_id l = task then None else Some l))"
proof -
  have "lease_inv resolve m0" by (simp add: assms(1) make_manager_def lease_inv_def)
  then have "lease_inv resolve m" unfolding assms(2) by (rule lease_inv_ops)
  then have d: "distinct (map fst (lm_leases m))" by (simp add: lease_inv_def)
  have e: "m' = m\<lparr>lm_leases := filter (\<lambda>kv. fl_task_id (snd kv) \<noteq> task) (lm_leases m)\<rparr>"
    "released = map fst (filter (\<lambda>kv. fl_task_id (snd kv) = task) (lm_leases m))"
    using assms(3) release_all_exact [OF d, of task] by auto
  have "map_of (filter (\<lambda>kv. fl_task_id (snd kv) \<noteq> task) kvs) k =
      (case map_of kvs k of None \<Rightarrow> None | Some l \<Rightarrow> if fl_task_id l = task then None else Some l)"
    if "distinct (map fst kvs)" for kvs :: "(string \<times> file_lease) list" and k
    using that
  proof (induction kvs)
    case (Cons kv kvs)
    then have n: "fst kv \<notin> fst ` set kvs" by simp
    then have "map_of kvs (fst kv) = None" by (simp add: map_of_eq_None_iff)
    with Cons show ?case by (auto split: option.splits)
  qed simp
  from this [OF d] show ?thesis
    by (auto simp: e lease_snapshot_def lease_owner_def lease_key_def split: option.splits)
qed

theorem lease_release_exact_witness:
  "snd (release_all_for_task (fst (acquire id (fst (acquire id demo_manager ''a.py'' ''w1'' ''t1'' None 0)) ''b.py'' ''w2'' ''t2'' None 1)) ''t1'')
     = [''/work/a.py'']"
proof -
  have m: "fst (acquire id (fst (acquire id demo_manager ''a.py'' ''w1'' ''t1'' None 0)) ''b.py'' ''w2'' ''t2'' None 1) =
    fold (lease_apply id) [OpAcquire ''a.py'' ''w1'' ''t1'' None 0, OpAcquire ''b.py'' ''w2'' ''t2'' None 1] demo_manager"
    by (simp add: lease_apply_def)
  obtain m' released where r: "release_all_for_task (fold (lease_apply id) [OpAcquire ''a.py'' ''w1'' ''t1'' None 0,
      OpAcquire ''b.py'' ''w2'' ''t2'' None 1] demo_manager) ''t1'' = (m', released)" by fastforce
  have "map fst (filter (\<lambda>kv. fl_task_id (snd kv) = ''t1'') (lease_snapshot (fold (lease_apply id)
      [OpAcquire ''a.py'' ''w1'' ''t1'' None 0, OpAcquire ''b.py'' ''w2'' ''t2'' None 1] demo_manager))) = [''/work/a.py'']" by code_simp
  with lease_release_exact [OF demo_manager_def refl r] r show ?thesis unfolding m by simp
qed

end
