(* ===== verification/Py_Regex.thy ===== *)
theory Py_Regex
  imports Py_Value
begin

text \<open>
  The part of \<open>re\<close> the sources use: searching a text for a pattern built from character classes, their
  repetition, sequence, alternation, word boundary and end of text. \<open>rx_match\<close> enumerates the ends of
  the matches at a position (the text before it is reversed), as a backtracking engine would;
  \<open>rx_word\<close> says which words a pattern matches in which context, and \<open>rx_search_iff\<close> that the search
  finds a match exactly when the text contains such a word.
\<close>

datatype rx =
    Chars "char \<Rightarrow> bool"
  | CharStar "char \<Rightarrow> bool"
  | Cat rx rx
  | Alt rx rx
  | Boundary
  | AtEnd

text \<open>A word character: \<open>\w\<close> for code points up to 255.\<close>

definition word_char :: "char \<Rightarrow> bool" where
  "word_char c = (let n = (of_char c :: nat) in
     (48 \<le> n \<and> n \<le> 57) \<or> (65 \<le> n \<and> n \<le> 90) \<or> (97 \<le> n \<and> n \<le> 122) \<or> n = 95 \<or>
     n \<in> {170, 178, 179, 181, 185, 186, 188, 189, 190} \<or> (192 \<le> n \<and> n \<noteq> 215 \<and> n \<noteq> 247))"

lemma word_char_code [code]:
  "word_char (Char b0 b1 b2 b3 b4 b5 b6 b7) \<longleftrightarrow>
     (if b7 then (if b6 then \<not> (b4 \<and> \<not> b3 \<and> b2 \<and> b1 \<and> b0)
        else b5 \<and> (if b4 then (if b3 then (if b2 then \<not> (b1 \<and> b0) else b1 \<noteq> b0) else if b2 then \<not> b1 \<and> b0 else b1)
          else b3 \<and> \<not> b2 \<and> b1 \<and> \<not> b0))
      else if b6 then (if b4 then \<not> b3 \<or> (\<not> b2 \<and> \<not> (b1 \<and> b0)) \<or> (\<not> b5 \<and> b2 \<and> b1 \<and> b0) else b3 \<or> b2 \<or> b1 \<or> b0)
      else b5 \<and> b4 \<and> (\<not> b3 \<or> (\<not> b2 \<and> \<not> b1)))"
  by (cases b7; cases b6; cases b5; cases b4; cases b3; cases b2; cases b1; cases b0)
    (simp_all add: word_char_def Let_def)

definition head_is :: "(char \<Rightarrow> bool) \<Rightarrow> string \<Rightarrow> bool" where
  "head_is p s = (case s of [] \<Rightarrow> False | c # _ \<Rightarrow> p c)"

definition at_boundary :: "string \<Rightarrow> string \<Rightarrow> bool" where
  "at_boundary before after = (head_is word_char before \<noteq> head_is word_char after)"

definition at_end :: "string \<Rightarrow> bool" where
  "at_end after = (after = [] \<or> after = [CHR 0x0A])"

fun star_ends :: "(char \<Rightarrow> bool) \<Rightarrow> string \<Rightarrow> string \<Rightarrow> (string \<times> string) list" where
  "star_ends p before [] = [(before, [])]"
| "star_ends p before (c # after) = (if p c then star_ends p (c # before) after else []) @ [(before, c # after)]"

fun rx_match :: "rx \<Rightarrow> string \<Rightarrow> string \<Rightarrow> (string \<times> string) list" where
  "rx_match (Chars p) before after = (case after of [] \<Rightarrow> [] | c # cs \<Rightarrow> if p c then [(c # before, cs)] else [])"
| "rx_match (CharStar p) before after = star_ends p before after"
| "rx_match (Cat r q) before after = concat (map (\<lambda>(b, a). rx_match q b a) (rx_match r before after))"
| "rx_match (Alt r q) before after = rx_match r before after @ rx_match q before after"
| "rx_match Boundary before after = (if at_boundary before after then [(before, after)] else [])"
| "rx_match AtEnd before after = (if at_end after then [(before, after)] else [])"

fun search_from :: "rx \<Rightarrow> string \<Rightarrow> string \<Rightarrow> bool" where
  "search_from r before [] = (rx_match r before [] \<noteq> [])"
| "search_from r before (c # after) = (rx_match r before (c # after) \<noteq> [] \<or> search_from r (c # before) after)"

definition rx_search :: "rx \<Rightarrow> string \<Rightarrow> bool" where
  "rx_search r s = search_from r [] s"

text \<open>Building blocks: a literal with \<open>re.IGNORECASE\<close>, a class of characters repeated at least once.\<close>

fun literal :: "string \<Rightarrow> rx" where
  "literal [] = CharStar (\<lambda>_. False)"
| "literal [c] = Chars (\<lambda>d. lower_char d = lower_char c)"
| "literal (c # d # cs) = Cat (Chars (\<lambda>d. lower_char d = lower_char c)) (literal (d # cs))"

definition one_of :: "string list \<Rightarrow> rx" where
  "one_of ws = foldr (\<lambda>w r. Alt (literal w) r) (butlast ws) (literal (last ws))"

definition char_plus :: "(char \<Rightarrow> bool) \<Rightarrow> rx" where
  "char_plus p = Cat (Chars p) (CharStar p)"

definition any_char :: "char \<Rightarrow> bool" where
  "any_char c = (c \<noteq> CHR 0x0A)"

section \<open>What a pattern matches\<close>

fun rx_word :: "rx \<Rightarrow> string \<Rightarrow> string \<Rightarrow> string \<Rightarrow> bool" where
  "rx_word (Chars p) u w v = (\<exists>c. w = [c] \<and> p c)"
| "rx_word (CharStar p) u w v = list_all p w"
| "rx_word (Cat r q) u w v = (\<exists>x y. w = x @ y \<and> rx_word r u x (y @ v) \<and> rx_word q (u @ x) y v)"
| "rx_word (Alt r q) u w v = (rx_word r u w v \<or> rx_word q u w v)"
| "rx_word Boundary u w v = (w = [] \<and> at_boundary (rev u) v)"
| "rx_word AtEnd u w v = (w = [] \<and> at_end v)"

lemma star_ends_iff:
  "(b, a) \<in> set (star_ends p before after) \<longleftrightarrow> (\<exists>w. after = w @ a \<and> b = rev w @ before \<and> list_all p w)"
proof (induction p before after rule: star_ends.induct)
  case (1 p before)
  then show ?case by auto
next
  case (2 p before c after)
  have "(\<exists>w. c # after = w @ a \<and> b = rev w @ before \<and> list_all p w) \<longleftrightarrow>
      (a = c # after \<and> b = before) \<or> (p c \<and> (\<exists>w. after = w @ a \<and> b = rev w @ c # before \<and> list_all p w))"
  proof
    assume "\<exists>w. c # after = w @ a \<and> b = rev w @ before \<and> list_all p w"
    then obtain w where w: "c # after = w @ a" "b = rev w @ before" "list_all p w" by blast
    then show "(a = c # after \<and> b = before) \<or> (p c \<and> (\<exists>w. after = w @ a \<and> b = rev w @ c # before \<and> list_all p w))"
      by (cases w) auto
  next
    assume "(a = c # after \<and> b = before) \<or> (p c \<and> (\<exists>w. after = w @ a \<and> b = rev w @ c # before \<and> list_all p w))"
    then show "\<exists>w. c # after = w @ a \<and> b = rev w @ before \<and> list_all p w"
    proof (elim disjE conjE exE)
      fix w
      assume "p c" "after = w @ a" "b = rev w @ c # before" "list_all p w"
      then show ?thesis by (intro exI [of _ "c # w"]) simp
    qed (auto intro: exI [of _ "[]"])
  qed
  with 2 show ?case by auto
qed

lemma rx_match_iff:
  "(b, a) \<in> set (rx_match r before after) \<longleftrightarrow> (\<exists>w. after = w @ a \<and> b = rev w @ before \<and> rx_word r (rev before) w a)"
proof (induction r arbitrary: before after b a)
  case (Chars p)
  show ?case by (cases after) (auto split: if_splits)
next
  case (CharStar p)
  show ?case by (simp add: star_ends_iff)
next
  case (Cat r q)
  have "(b, a) \<in> set (rx_match (Cat r q) before after) \<longleftrightarrow>
      (\<exists>b1 a1. (b1, a1) \<in> set (rx_match r before after) \<and> (b, a) \<in> set (rx_match q b1 a1))" by auto
  also have "\<dots> \<longleftrightarrow> (\<exists>x y. after = x @ y @ a \<and> b = rev y @ rev x @ before \<and> rx_word r (rev before) x (y @ a) \<and>
      rx_word q (rev before @ x) y a)"
    unfolding Cat.IH by fastforce
  also have "\<dots> \<longleftrightarrow> (\<exists>w. after = w @ a \<and> b = rev w @ before \<and> rx_word (Cat r q) (rev before) w a)"
  proof
    assume "\<exists>x y. after = x @ y @ a \<and> b = rev y @ rev x @ before \<and> rx_word r (rev before) x (y @ a) \<and> rx_word q (rev before @ x) y a"
    then obtain x y where "after = x @ y @ a" "b = rev y @ rev x @ before" "rx_word r (rev before) x (y @ a)" "rx_word q (rev before @ x) y a"
      by blast
    moreover from this have "rx_word (Cat r q) (rev before) (x @ y) a" by (simp only: rx_word.simps) blast
    ultimately show "\<exists>w. after = w @ a \<and> b = rev w @ before \<and> rx_word (Cat r q) (rev before) w a"
      by (intro exI [of _ "x @ y"]) simp
  next
    assume "\<exists>w. after = w @ a \<and> b = rev w @ before \<and> rx_word (Cat r q) (rev before) w a"
    then obtain w x y where "after = w @ a" "b = rev w @ before" "w = x @ y" "rx_word r (rev before) x (y @ a)" "rx_word q (rev before @ x) y a"
      by (auto simp only: rx_word.simps)
    then show "\<exists>x y. after = x @ y @ a \<and> b = rev y @ rev x @ before \<and> rx_word r (rev before) x (y @ a) \<and> rx_word q (rev before @ x) y a"
      by (intro exI [of _ x] exI [of _ y]) simp
  qed
  finally show ?case .
next
  case (Alt r q)
  then show ?case by auto
qed auto

lemma search_from_iff:
  "search_from r before s \<longleftrightarrow> (\<exists>u w v. s = u @ w @ v \<and> rx_word r (rev before @ u) w v)"
proof (induction s arbitrary: before)
  case Nil
  have "rx_match r before [] \<noteq> [] \<longleftrightarrow> (\<exists>b a. (b, a) \<in> set (rx_match r before []))"
    by (metis list.set_intros(1) list.set_cases neq_Nil_conv surj_pair empty_iff empty_set)
  then show ?case by (auto simp: rx_match_iff)
next
  case (Cons c s)
  have "rx_match r before (c # s) \<noteq> [] \<longleftrightarrow> (\<exists>b a. (b, a) \<in> set (rx_match r before (c # s)))"
    by (metis list.set_intros(1) list.set_cases neq_Nil_conv surj_pair empty_iff empty_set)
  then have m: "rx_match r before (c # s) \<noteq> [] \<longleftrightarrow> (\<exists>w v. c # s = w @ v \<and> rx_word r (rev before) w v)"
    by (auto simp: rx_match_iff)
  have "(\<exists>u w v. c # s = u @ w @ v \<and> rx_word r (rev before @ u) w v) \<longleftrightarrow>
      (\<exists>w v. c # s = w @ v \<and> rx_word r (rev before) w v) \<or>
      (\<exists>u w v. s = u @ w @ v \<and> rx_word r (rev before @ c # u) w v)"
    by (auto simp: Cons_eq_append_conv) (metis append_Nil2 append_Nil)+
  with m Cons.IH [of "c # before"] show ?case by simp
qed

text \<open>A search finds a match exactly when some word of the pattern occurs in the text, in its context.\<close>

lemma rx_search_iff: "rx_search r s \<longleftrightarrow> (\<exists>u w v. s = u @ w @ v \<and> rx_word r u w v)"
  by (simp add: rx_search_def search_from_iff)

lemma word_catI: "rx_word r u x (y @ v) \<Longrightarrow> rx_word q (u @ x) y v \<Longrightarrow> rx_word (Cat r q) u (x @ y) v"
  unfolding rx_word.simps(3) by blast

lemma word_literal: "rx_word (literal cs) u w v \<longleftrightarrow> map lower_char w = map lower_char cs"
proof (induction cs arbitrary: u w rule: literal.induct)
  case 1
  show ?case by (cases w) auto
next
  case (2 c)
  show ?case by (cases w) auto
next
  case (3 c d cs)
  show ?case
  proof
    assume "rx_word (literal (c # d # cs)) u w v"
    then show "map lower_char w = map lower_char (c # d # cs)" using 3 by auto
  next
    assume w: "map lower_char w = map lower_char (c # d # cs)"
    then obtain x y where "w = [x] @ y" "lower_char x = lower_char c" "map lower_char y = map lower_char (d # cs)"
      by (cases w) auto
    with 3 show "rx_word (literal (c # d # cs)) u w v" by (simp only: literal.simps rx_word.simps) blast
  qed
qed

text \<open>One of the words, whatever its case.\<close>

definition spells :: "string list \<Rightarrow> string \<Rightarrow> bool" where
  "spells ws x = (\<exists>w \<in> set ws. map lower_char x = map lower_char w)"

lemma word_one_of:
  "ws \<noteq> [] \<Longrightarrow> rx_word (one_of ws) u w v \<longleftrightarrow> spells ws w"
proof (induction ws)
  case (Cons x xs)
  then show ?case by (cases xs) (auto simp: one_of_def word_literal spells_def)
qed simp

lemma word_plus: "rx_word (char_plus p) u w v \<longleftrightarrow> w \<noteq> [] \<and> list_all p w"
proof
  assume "rx_word (char_plus p) u w v"
  then show "w \<noteq> [] \<and> list_all p w" by (auto simp: char_plus_def)
next
  assume "w \<noteq> [] \<and> list_all p w"
  then obtain c cs where "w = [c] @ cs" "p c" "list_all p cs" by (cases w) auto
  then show "rx_word (char_plus p) u w v" by (simp only: char_plus_def rx_word.simps) blast
qed

end
