(* ===== verification/Team_Permissions.thy ===== *)
theory Team_Permissions
  imports Py_Path Py_Regex Model_Reliability
begin

text \<open>
  \<open>multiagent/permissions.py\<close>: the guard on the tool calls of a worker. The file system is an argument:
  what a path resolves to, and the links and junctions among its parents.
\<close>

record file_system =
  fs_resolve :: "posix_path \<Rightarrow> posix_path"
  fs_islink :: "posix_path \<Rightarrow> bool"
  fs_realpath :: "posix_path \<Rightarrow> posix_path"
  fs_isjunction :: "posix_path \<Rightarrow> bool"
  fs_readlink :: "posix_path \<Rightarrow> string"

datatype permission_decision = PermAllow | PermDeny

record permission_check =
  pc_decision :: permission_decision
  pc_reason :: string
  pc_tool_name :: string
  pc_arguments :: "(pval \<times> pval) list"

definition mutating_tools :: "string list" where
  "mutating_tools = [''file_write'', ''file_edit'', ''bash'']"

section \<open>Denied commands\<close>

text \<open>The alternatives of \<open>_BASH_DENIED\<close>, which ignores case.\<close>

definition rx_install :: rx where
  "rx_install = Cat (one_of [''pip'', ''uv'', ''poetry'', ''npm'', ''pnpm'', ''yarn'', ''conda'', ''mamba''])
     (Cat (char_plus py_space) (one_of [''install'', ''add'', ''remove'', ''uninstall'']))"

definition rx_remove_item :: rx where
  "rx_remove_item = Cat (literal ''remove-item'') (Cat (char_plus py_space) (Cat (CharStar any_char) (literal ''-recurse'')))"

definition rx_start_process :: rx where
  "rx_start_process = Cat (literal ''start-process'') (Cat (char_plus py_space) (Cat (CharStar any_char)
     (Cat (literal ''-verb'') (Cat (char_plus py_space) (literal ''runas'')))))"

definition rx_remove :: rx where
  "rx_remove = Cat Boundary (Cat (one_of [''rm'', ''del'', ''rmdir'']) (Cat Boundary (Cat (CharStar any_char)
     (one_of [''/s'', ''-r'', ''-rf'']))))"

definition rx_redirect :: rx where
  "rx_redirect = Cat (Chars (\<lambda>c. c \<in> set ''>&|'')) (Cat (CharStar py_space) AtEnd)"

definition bash_denied :: rx where
  "bash_denied = Alt rx_install (Alt rx_remove_item (Alt (one_of [''format-volume'', ''clear-disk'', ''shutdown'', ''restart-computer''])
     (Alt rx_start_process (Alt rx_remove rx_redirect))))"

section \<open>Paths\<close>

text \<open>\<open>resolved.parents\<close>, the nearest first, and \<open>part.parent\<close>.\<close>

definition path_parents :: "posix_path \<Rightarrow> posix_path list" where
  "path_parents p = map (\<lambda>n. p\<lparr>pp_parts := take n (pp_parts p)\<rparr>) (rev [0 ..< length (pp_parts p)])"

definition path_parent :: "posix_path \<Rightarrow> posix_path" where
  "path_parent p = p\<lparr>pp_parts := butlast (pp_parts p)\<rparr>"

fun link_escape :: "file_system \<Rightarrow> posix_path \<Rightarrow> posix_path list \<Rightarrow> bool" where
  "link_escape fs workspace [] = False"
| "link_escape fs workspace (part # parts) =
    (if part = workspace then False
     else if fs_islink fs part \<and> \<not> relative_to (fs_realpath fs part) workspace then True
     else if fs_isjunction fs part \<and>
       (let target = path_of (fs_readlink fs part);
            absolute = (if path_absolute target then target else path_join (path_parent part) target) in
        \<not> relative_to (fs_resolve fs absolute) workspace) then True
     else link_escape fs workspace parts)"

definition path_contains_link_escape :: "file_system \<Rightarrow> posix_path \<Rightarrow> posix_path \<Rightarrow> bool" where
  "path_contains_link_escape fs workspace resolved = link_escape fs workspace (path_parents resolved)"

definition guard_resolve :: "file_system \<Rightarrow> posix_path \<Rightarrow> string \<Rightarrow> posix_path option" where
  "guard_resolve fs workspace raw =
    (let candidate = path_of raw;
         resolved = (if path_absolute candidate then fs_resolve fs candidate
                     else fs_resolve fs (path_join workspace candidate)) in
     if \<not> relative_to resolved workspace then None
     else if path_contains_link_escape fs workspace resolved then None
     else Some resolved)"

fun path_under_any :: "file_system \<Rightarrow> posix_path \<Rightarrow> posix_path \<Rightarrow> string list \<Rightarrow> bool" where
  "path_under_any fs workspace resolved [] = False"
| "path_under_any fs workspace resolved (scope # scopes) =
    (if relative_to resolved (fs_resolve fs (path_join workspace (path_of scope))) then True
     else path_under_any fs workspace resolved scopes)"

section \<open>The check\<close>

definition file_tools :: "string list" where
  "file_tools = [''file_read'', ''file_write'', ''file_edit'', ''grep'']"

text \<open>The reason to deny a file tool, and to deny a command.\<close>

definition file_denial :: "file_system \<Rightarrow> posix_path \<Rightarrow> string \<Rightarrow> (pval \<times> pval) list \<Rightarrow> string list \<Rightarrow> string list \<Rightarrow> string option" where
  "file_denial fs workspace tool arguments allowed_paths writable_paths =
    (case dict_get arguments ''path'' of
       PStr path \<Rightarrow> (case guard_resolve fs workspace path of
           None \<Rightarrow> Some (''path escapes workspace or is invalid: '' @ path)
         | Some resolved \<Rightarrow>
             if tool \<in> set mutating_tools
             then (if path_under_any fs workspace resolved writable_paths then None
                   else Some (tool @ '' target not in writable_paths: '' @ path))
             else (if path_under_any fs workspace resolved allowed_paths then None
                   else Some (tool @ '' target not in allowed_paths: '' @ path)))
     | _ \<Rightarrow> Some (tool @ '' requires a string path''))"

definition bash_denial :: "(pval \<times> pval) list \<Rightarrow> string option" where
  "bash_denial arguments =
    (case (case map_of arguments (PStr ''command'') of None \<Rightarrow> PStr [] | Some v \<Rightarrow> v) of
       PStr command \<Rightarrow> if rx_search bash_denied command then Some ''bash command denied by v0.03 safety policy'' else None
     | _ \<Rightarrow> Some ''bash command must be a string'')"

definition guard_check ::
  "file_system \<Rightarrow> posix_path \<Rightarrow> string \<Rightarrow> (pval \<times> pval) list \<Rightarrow> string list \<Rightarrow> string list \<Rightarrow> string list \<Rightarrow> permission_check" where
  "guard_check fs workspace tool arguments allowed_paths writable_paths allowed_tools =
    (let deny = (\<lambda>reason. \<lparr>pc_decision = PermDeny, pc_reason = reason, pc_tool_name = tool, pc_arguments = arguments\<rparr>) in
     if allowed_tools \<noteq> [] \<and> tool \<notin> set allowed_tools then deny (''tool '' @ tool @ '' not in task allowed_tools'')
     else case (if tool \<in> set file_tools then file_denial fs workspace tool arguments allowed_paths writable_paths else None) of
       Some reason \<Rightarrow> deny reason
     | None \<Rightarrow> (case (if tool = ''bash'' then bash_denial arguments else None) of
         Some reason \<Rightarrow> deny reason
       | None \<Rightarrow> \<lparr>pc_decision = PermAllow, pc_reason = ''allowed'', pc_tool_name = tool, pc_arguments = arguments\<rparr>))"

section \<open>What the guard lets through\<close>


text \<open>A text that asks for a recursive removal the way the pattern expects it.\<close>

definition removes_recursively :: "string \<Rightarrow> bool" where
  "removes_recursively s \<longleftrightarrow> (\<exists>u x y z v. s = u @ x @ y @ z @ v \<and> spells [''rm'', ''del'', ''rmdir''] x \<and>
     list_all any_char y \<and> spells [''/s'', ''-r'', ''-rf''] z \<and>
     at_boundary (rev u) (x @ y @ z @ v) \<and> at_boundary (rev (u @ x)) (y @ z @ v))"

definition installs :: "string \<Rightarrow> bool" where
  "installs s \<longleftrightarrow> (\<exists>u x y z v. s = u @ x @ y @ z @ v \<and>
     spells [''pip'', ''uv'', ''poetry'', ''npm'', ''pnpm'', ''yarn'', ''conda'', ''mamba''] x \<and>
     y \<noteq> [] \<and> list_all py_space y \<and> spells [''install'', ''add'', ''remove'', ''uninstall''] z)"

lemma denied_occurrence:
  assumes "s = u @ w @ v" "rx_word rx_remove u w v \<or> rx_word rx_install u w v"
  shows "rx_search bash_denied s"
proof -
  have "rx_word bash_denied u w v" using assms(2) by (auto simp only: bash_denied_def rx_word.simps(4))
  then show ?thesis using assms(1) unfolding rx_search_iff by blast
qed

lemma removal_denied:
  assumes "removes_recursively s"
  shows "rx_search bash_denied s"
proof -
  obtain u x y z v where s: "s = u @ x @ y @ z @ v" "spells [''rm'', ''del'', ''rmdir''] x" "list_all any_char y"
    "spells [''/s'', ''-r'', ''-rf''] z" "at_boundary (rev u) (x @ y @ z @ v)" "at_boundary (rev (u @ x)) (y @ z @ v)"
    using assms unfolding removes_recursively_def by blast
  have "rx_word rx_remove u ([] @ x @ [] @ y @ z) v"
    unfolding rx_remove_def
  proof (intro word_catI)
    show "rx_word Boundary u [] ((x @ [] @ y @ z) @ v)" using s(5) by simp
    show "rx_word (one_of [''rm'', ''del'', ''rmdir'']) (u @ []) x (([] @ y @ z) @ v)" using s(2) by (simp add: word_one_of)
    show "rx_word Boundary ((u @ []) @ x) [] ((y @ z) @ v)" using s(6) by simp
    show "rx_word (CharStar any_char) (((u @ []) @ x) @ []) y (z @ v)" using s(3) by simp
    show "rx_word (one_of [''/s'', ''-r'', ''-rf'']) ((((u @ []) @ x) @ []) @ y) z v" using s(4) by (simp add: word_one_of)
  qed
  then show ?thesis using s(1) by (intro denied_occurrence [of s u "x @ y @ z" v]) simp_all
qed

lemma install_denied:
  assumes "installs s"
  shows "rx_search bash_denied s"
proof -
  obtain u x y z v where s: "s = u @ x @ y @ z @ v" "y \<noteq> []" "list_all py_space y"
    "spells [''pip'', ''uv'', ''poetry'', ''npm'', ''pnpm'', ''yarn'', ''conda'', ''mamba''] x"
    "spells [''install'', ''add'', ''remove'', ''uninstall''] z"
    using assms unfolding installs_def by blast
  have "rx_word rx_install u (x @ y @ z) v"
    unfolding rx_install_def
  proof (intro word_catI)
    show "rx_word (one_of [''pip'', ''uv'', ''poetry'', ''npm'', ''pnpm'', ''yarn'', ''conda'', ''mamba'']) u x ((y @ z) @ v)"
      using s(4) by (simp add: word_one_of)
    show "rx_word (char_plus py_space) (u @ x) y (z @ v)" using s(2,3) by (simp add: word_plus)
    show "rx_word (one_of [''install'', ''add'', ''remove'', ''uninstall'']) ((u @ x) @ y) z v" using s(5) by (simp add: word_one_of)
  qed
  then show ?thesis using s(1) by (intro denied_occurrence [of s u "x @ y @ z" v]) simp_all
qed

section \<open>Properties\<close>



definition command_of :: "(pval \<times> pval) list \<Rightarrow> pval" where
  "command_of arguments = (case map_of arguments (PStr ''command'') of None \<Rightarrow> PStr [] | Some v \<Rightarrow> v)"

lemma bash_denial_None:
  "bash_denial arguments = None \<longleftrightarrow> (\<exists>command. command_of arguments = PStr command \<and> \<not> rx_search bash_denied command)"
  by (auto simp: bash_denial_def command_of_def split: pval.splits if_splits option.splits)

lemma guard_check_allow:
  "pc_decision (guard_check fs workspace tool arguments allowed_paths writable_paths allowed_tools) = PermAllow \<longleftrightarrow>
    (allowed_tools = [] \<or> tool \<in> set allowed_tools) \<and>
    (tool \<notin> set file_tools \<or> file_denial fs workspace tool arguments allowed_paths writable_paths = None) \<and>
    (tool \<noteq> ''bash'' \<or> bash_denial arguments = None)"
  by (auto simp: guard_check_def Let_def split: option.splits)

definition demo_fs :: file_system where
  "demo_fs = \<lparr>fs_resolve = id, fs_islink = (\<lambda>_. False), fs_realpath = id, fs_isjunction = (\<lambda>_. False), fs_readlink = (\<lambda>_. [])\<rparr>"



text \<open>
  No command that installs, adds or removes packages with one of the listed tools, or that removes
  files with the listed recursion flags, whatever its case and wherever it stands in the text, is allowed.
\<close>

theorem destructive_commands_denied:
  assumes "command_of arguments = PStr command" "removes_recursively command \<or> installs command"
  shows "pc_decision (guard_check fs workspace ''bash'' arguments allowed_paths writable_paths allowed_tools) = PermDeny"
proof -
  have "rx_search bash_denied command" using assms(2) removal_denied install_denied by blast
  then have "bash_denial arguments \<noteq> None" using assms(1) by (simp add: bash_denial_None)
  then have "pc_decision (guard_check fs workspace ''bash'' arguments allowed_paths writable_paths allowed_tools) \<noteq> PermAllow"
    by (simp add: guard_check_allow)
  then show ?thesis by (cases "pc_decision (guard_check fs workspace ''bash'' arguments allowed_paths writable_paths allowed_tools)") simp_all
qed

theorem destructive_commands_denied_witness:
  "pc_decision (guard_check demo_fs (path_of ''/work'') ''bash'' [(PStr ''command'', PStr ''cd x; PIP  Install y'')] [] [] []) = PermDeny"
proof (rule destructive_commands_denied)
  show "command_of [(PStr ''command'', PStr ''cd x; PIP  Install y'')] = PStr ''cd x; PIP  Install y''" by code_simp
  have "''cd x; PIP  Install y'' = ''cd x; '' @ ''PIP'' @ ''  '' @ ''Install'' @ '' y''"
    "spells [''pip'', ''uv'', ''poetry'', ''npm'', ''pnpm'', ''yarn'', ''conda'', ''mamba''] ''PIP''" "''  '' \<noteq> []"
    "list_all py_space ''  ''" "spells [''install'', ''add'', ''remove'', ''uninstall''] ''Install''"
    by code_simp+
  then have "installs ''cd x; PIP  Install y''" unfolding installs_def by blast
  then show "removes_recursively ''cd x; PIP  Install y'' \<or> installs ''cd x; PIP  Install y''" by blast
qed

text \<open>A recursive removal with the flags in the other order passes the guard.\<close>

lemma recursive_removal_passes:
  "pc_decision (guard_check fs workspace ''bash'' [(PStr ''command'', PStr ''rm -fr .'')] allowed_paths writable_paths []) = PermAllow"
proof -
  have "\<not> rx_search bash_denied ''rm -fr .''"
    by (simp add: rx_search_def bash_denied_def rx_install_def rx_remove_item_def rx_start_process_def rx_remove_def
        rx_redirect_def one_of_def char_plus_def lower_char_def Let_def at_boundary_def head_is_def word_char_def
        at_end_def any_char_def py_space_def of_char_def)
  then have "bash_denial [(PStr ''command'', PStr ''rm -fr .'')] = None" by (simp add: bash_denial_None command_of_def)
  then show ?thesis by (simp add: guard_check_allow file_tools_def)
qed

end
