(* ===== verification/Team_Outbox.thy ===== *)
theory Team_Outbox
  imports Message_Bus_Inv
begin

text \<open>
  The durable state of \<open>multiagent/resilient_runtime.py\<close> (\<open>SQLiteResilientChoreographyStore\<close>) and of its
  subclass in \<open>multiagent/ordered_outbox.py\<close>: attempts, terminal snapshots and the outbox of terminal
  publications, in one SQLite database whose transactions roll back when they raise. A column that
  holds JSON text is kept decoded. \<open>sha\<close> is the hexadecimal SHA-256 of a text, \<open>dec\<close> the decimal form
  of a number, \<open>str_of\<close> the text of a value that is not a string.
\<close>

datatype disposition = Retryable | Permanent | UnknownFailure

fun disposition_value :: "disposition \<Rightarrow> string" where
  "disposition_value Retryable = ''retryable''"
| "disposition_value Permanent = ''permanent''"
| "disposition_value UnknownFailure = ''unknown''"

definition disposition_of :: "string \<Rightarrow> disposition option" where
  "disposition_of v = find (\<lambda>d. disposition_value d = v) [Retryable, Permanent, UnknownFailure]"

record attempt_row =
  at_consumer_id :: string
  at_message_id :: string
  at_attempts :: nat
  at_terminal :: bool
  at_failure_category :: "string option"
  at_failure_disposition :: "disposition option"
  at_updated_at :: timestamp

record snapshot =
  sn_request_id :: string
  sn_request_message_id :: string
  sn_request_sequence :: nat
  sn_attempt :: nat
  sn_failure_category :: "string option"
  sn_failure_disposition :: "disposition option"
  sn_dead_lettered :: bool
  sn_metrics :: "(pval \<times> pval) list"

record terminal_row =
  tr_consumer_id :: string
  tr_message_id :: string
  tr_snapshot :: pval
  tr_created_at :: timestamp

record outbox_row =
  ob_outbox_id :: string
  ob_consumer_id :: string
  ob_message_id :: string
  ob_topic :: string
  ob_sender_id :: string
  ob_recipient_id :: "string option"
  ob_idempotency_key :: string
  ob_payload :: pval
  ob_headers :: pval
  ob_delivered :: bool
  ob_created_at :: timestamp
  ob_delivered_at :: "timestamp option"

record team_store =
  ts_attempts :: "attempt_row list"
  ts_terminals :: "terminal_row list"
  ts_outbox :: "outbox_row list"
  ts_order :: "(string \<times> nat) list"

definition empty_team_store :: team_store where
  "empty_team_store = \<lparr>ts_attempts = [], ts_terminals = [], ts_outbox = [], ts_order = []\<rparr>"

text \<open>What the store raises: a missing row, a violated constraint, a value \<open>from_json\<close> cannot read.\<close>

datatype team_store_error = StateRowMissing | TeamIntegrityError | SnapshotUnreadable

section \<open>Snapshots\<close>

definition snapshot_to_json :: "snapshot \<Rightarrow> pval" where
  "snapshot_to_json s = PDict
     [(PStr ''attempt'', PInt (int (sn_attempt s))),
      (PStr ''dead_lettered'', PBool (sn_dead_lettered s)),
      (PStr ''failure_category'', optional_pval (sn_failure_category s)),
      (PStr ''failure_disposition'', optional_pval (map_option disposition_value (sn_failure_disposition s))),
      (PStr ''metrics'', PDict (sn_metrics s)),
      (PStr ''request_id'', PStr (sn_request_id s)),
      (PStr ''request_message_id'', PStr (sn_request_message_id s)),
      (PStr ''request_sequence'', PInt (int (sn_request_sequence s)))]"

text \<open>
  \<open>from_json\<close>; a counter that is not a natural number and metrics that are not a mapping count as
  unreadable (the store itself writes no others).
\<close>

definition snapshot_from_json :: "(pval \<Rightarrow> string) \<Rightarrow> pval \<Rightarrow> team_store_error + snapshot" where
  "snapshot_from_json str_of v =
    (case v of
       PDict kvs \<Rightarrow>
        (case (dict_get kvs ''request_sequence'', dict_get kvs ''attempt'',
               case map_of kvs (PStr ''metrics'') of None \<Rightarrow> PDict [] | Some m \<Rightarrow> m) of
           (PInt n, PInt a, PDict metrics) \<Rightarrow>
             if map_of kvs (PStr ''request_id'') = None \<or> map_of kvs (PStr ''request_message_id'') = None \<or> n < 0 \<or> a < 0
             then Inl SnapshotUnreadable
             else (let raw = dict_get kvs ''failure_disposition'';
                       snap = (\<lambda>d. \<lparr>sn_request_id = py_str str_of (dict_get kvs ''request_id''),
                          sn_request_message_id = py_str str_of (dict_get kvs ''request_message_id''),
                          sn_request_sequence = nat n, sn_attempt = nat a,
                          sn_failure_category = (if dict_get kvs ''failure_category'' = PNone then None
                             else Some (py_str str_of (dict_get kvs ''failure_category''))),
                          sn_failure_disposition = d, sn_dead_lettered = truthy (dict_get kvs ''dead_lettered''),
                          sn_metrics = metrics\<rparr>) in
                   if raw = PNone then Inr (snap None)
                   else (case disposition_of (py_str str_of raw) of
                       None \<Rightarrow> Inl SnapshotUnreadable | Some d \<Rightarrow> Inr (snap (Some d))))
         | _ \<Rightarrow> Inl SnapshotUnreadable)
     | _ \<Rightarrow> Inl SnapshotUnreadable)"

section \<open>Attempts\<close>

definition attempt_key :: "string \<Rightarrow> string \<Rightarrow> attempt_row \<Rightarrow> bool" where
  "attempt_key consumer_id message_id a = (at_consumer_id a = consumer_id \<and> at_message_id a = message_id)"

definition get_attempt :: "team_store \<Rightarrow> string \<Rightarrow> string \<Rightarrow> attempt_row option" where
  "get_attempt s consumer_id message_id = find (attempt_key consumer_id message_id) (ts_attempts s)"

definition read_attempt :: "team_store \<Rightarrow> string \<Rightarrow> string \<Rightarrow> team_store_error + attempt_row" where
  "read_attempt s consumer_id message_id =
     (case get_attempt s consumer_id message_id of None \<Rightarrow> Inl StateRowMissing | Some a \<Rightarrow> Inr a)"

definition update_attempt :: "string \<Rightarrow> string \<Rightarrow> (attempt_row \<Rightarrow> attempt_row) \<Rightarrow> team_store \<Rightarrow> team_store" where
  "update_attempt consumer_id message_id f s =
     s\<lparr>ts_attempts := update_where (attempt_key consumer_id message_id) f (ts_attempts s)\<rparr>"

definition begin_attempt :: "team_store \<Rightarrow> string \<Rightarrow> string \<Rightarrow> timestamp \<Rightarrow> team_store_error + team_store \<times> attempt_row" where
  "begin_attempt s consumer_id message_id now =
    (let s' = (if get_attempt s consumer_id message_id = None
       then s\<lparr>ts_attempts := ts_attempts s @ [\<lparr>at_consumer_id = consumer_id, at_message_id = message_id, at_attempts = 1,
               at_terminal = False, at_failure_category = None, at_failure_disposition = None, at_updated_at = now\<rparr>]\<rparr>
       else update_attempt consumer_id message_id (\<lambda>a. a\<lparr>at_attempts := (if at_terminal a then at_attempts a else at_attempts a + 1),
               at_updated_at := now\<rparr>) s) in
     case read_attempt s' consumer_id message_id of Inl e \<Rightarrow> Inl e | Inr a \<Rightarrow> Inr (s', a))"

definition mark_failure ::
  "team_store \<Rightarrow> string \<Rightarrow> string \<Rightarrow> string \<Rightarrow> disposition \<Rightarrow> timestamp \<Rightarrow> team_store_error + team_store \<times> attempt_row" where
  "mark_failure s consumer_id message_id category d now =
    (let s' = update_attempt consumer_id message_id (\<lambda>a. a\<lparr>at_failure_category := Some category,
           at_failure_disposition := Some d, at_updated_at := now\<rparr>) s in
     case read_attempt s' consumer_id message_id of Inl e \<Rightarrow> Inl e | Inr a \<Rightarrow> Inr (s', a))"

section \<open>The outbox\<close>

text \<open>\<open>_json_safe\<close>, what \<open>_encode_json\<close> writes.\<close>

fun json_safe :: "(pval \<Rightarrow> string) \<Rightarrow> pval \<Rightarrow> pval" where
  "json_safe str_of (PDict kvs) = PDict (map (\<lambda>kv. (PStr (py_str str_of (fst kv)), json_safe str_of (snd kv))) kvs)"
| "json_safe str_of (PTuple vs) = PList (map (json_safe str_of) vs)"
| "json_safe str_of (PList vs) = PList (map (json_safe str_of) vs)"
| "json_safe str_of (POther t) = PStr (str_of (POther t))"
| "json_safe str_of v = v"

definition outbox_id :: "(string \<Rightarrow> string) \<Rightarrow> (nat \<Rightarrow> string) \<Rightarrow> string \<Rightarrow> string \<Rightarrow> string \<Rightarrow> nat \<Rightarrow> string" where
  "outbox_id sha dec consumer_id message_id idempotency_key index =
     sha (consumer_id @ [CHR 0x00] @ message_id @ [CHR 0x00] @ idempotency_key @ [CHR 0x00] @ dec index)"

definition new_outbox_row :: "(pval \<Rightarrow> string) \<Rightarrow> string \<Rightarrow> string \<Rightarrow> string \<Rightarrow> draft \<Rightarrow> timestamp \<Rightarrow> outbox_row" where
  "new_outbox_row str_of oid consumer_id message_id d now =
     \<lparr>ob_outbox_id = oid, ob_consumer_id = consumer_id, ob_message_id = message_id, ob_topic = dr_topic d,
      ob_sender_id = dr_sender_id d, ob_recipient_id = dr_recipient_id d, ob_idempotency_key = dr_idempotency_key d,
      ob_payload = json_safe str_of (dr_payload d), ob_headers = json_safe str_of (dr_headers d),
      ob_delivered = False, ob_created_at = now, ob_delivered_at = None\<rparr>"

text \<open>\<open>INSERT ... ON CONFLICT(outbox_id) DO NOTHING\<close> beside \<open>UNIQUE(consumer_id, message_id, idempotency_key)\<close>.\<close>

definition insert_outbox :: "outbox_row \<Rightarrow> team_store \<Rightarrow> team_store_error + team_store" where
  "insert_outbox r s =
    (if \<exists>x \<in> set (ts_outbox s). ob_outbox_id x = ob_outbox_id r then Inr s
     else if \<exists>x \<in> set (ts_outbox s). ob_consumer_id x = ob_consumer_id r \<and> ob_message_id x = ob_message_id r \<and>
        ob_idempotency_key x = ob_idempotency_key r
     then Inl TeamIntegrityError
     else Inr (s\<lparr>ts_outbox := ts_outbox s @ [r]\<rparr>))"

text \<open>\<open>INSERT ... ON CONFLICT(outbox_id) DO UPDATE SET ordinal\<close>, in the ordered store only.\<close>

definition set_ordinal :: "string \<Rightarrow> nat \<Rightarrow> team_store \<Rightarrow> team_store" where
  "set_ordinal oid ordinal s = s\<lparr>ts_order :=
     (if \<exists>x \<in> set (ts_order s). fst x = oid then update_where (\<lambda>x. fst x = oid) (\<lambda>x. (oid, ordinal)) (ts_order s)
      else ts_order s @ [(oid, ordinal)])\<rparr>"

fun insert_drafts ::
  "bool \<Rightarrow> (pval \<Rightarrow> string) \<Rightarrow> (string \<Rightarrow> string) \<Rightarrow> (nat \<Rightarrow> string) \<Rightarrow> string \<Rightarrow> string \<Rightarrow> timestamp \<Rightarrow> nat \<Rightarrow> draft list
     \<Rightarrow> team_store \<Rightarrow> team_store_error + team_store" where
  "insert_drafts ordered str_of sha dec consumer_id message_id now index [] s = Inr s"
| "insert_drafts ordered str_of sha dec consumer_id message_id now index (d # ds) s =
    (let oid = outbox_id sha dec consumer_id message_id (dr_idempotency_key d) index in
     case insert_outbox (new_outbox_row str_of oid consumer_id message_id d now) s of Inl e \<Rightarrow> Inl e | Inr s' \<Rightarrow>
     insert_drafts ordered str_of sha dec consumer_id message_id now (Suc index) ds
       (if ordered then set_ordinal oid index s' else s'))"

definition terminal_key :: "string \<Rightarrow> string \<Rightarrow> terminal_row \<Rightarrow> bool" where
  "terminal_key consumer_id message_id t = (tr_consumer_id t = consumer_id \<and> tr_message_id t = message_id)"

definition upsert_terminal :: "string \<Rightarrow> string \<Rightarrow> pval \<Rightarrow> timestamp \<Rightarrow> team_store \<Rightarrow> team_store" where
  "upsert_terminal consumer_id message_id snap now s = s\<lparr>ts_terminals :=
     (if \<exists>t \<in> set (ts_terminals s). terminal_key consumer_id message_id t
      then update_where (terminal_key consumer_id message_id) (\<lambda>t. t\<lparr>tr_snapshot := snap\<rparr>) (ts_terminals s)
      else ts_terminals s @ [\<lparr>tr_consumer_id = consumer_id, tr_message_id = message_id, tr_snapshot = snap, tr_created_at = now\<rparr>])\<rparr>"

text \<open>
  \<open>commit_terminal\<close> of the base store and (with \<open>ordered\<close>) of the ordered one. The foreign key to the
  attempts fails when no attempt was begun.
\<close>

definition commit_terminal ::
  "bool \<Rightarrow> (pval \<Rightarrow> string) \<Rightarrow> (string \<Rightarrow> string) \<Rightarrow> (nat \<Rightarrow> string) \<Rightarrow> team_store \<Rightarrow> string \<Rightarrow> string \<Rightarrow> snapshot
     \<Rightarrow> draft list \<Rightarrow> timestamp \<Rightarrow> team_store_error + team_store" where
  "commit_terminal ordered str_of sha dec s consumer_id message_id snap drafts now =
    (if get_attempt s consumer_id message_id = None then Inl TeamIntegrityError
     else insert_drafts ordered str_of sha dec consumer_id message_id now 0 drafts
       (upsert_terminal consumer_id message_id (snapshot_to_json snap) now
         (update_attempt consumer_id message_id (\<lambda>a. a\<lparr>at_terminal := True, at_updated_at := now\<rparr>) s)))"

definition get_terminal :: "(pval \<Rightarrow> string) \<Rightarrow> team_store \<Rightarrow> string \<Rightarrow> string \<Rightarrow> team_store_error + snapshot option" where
  "get_terminal str_of s consumer_id message_id =
    (case find (terminal_key consumer_id message_id) (ts_terminals s) of
       None \<Rightarrow> Inr None
     | Some t \<Rightarrow> (case snapshot_from_json str_of (tr_snapshot t) of Inl e \<Rightarrow> Inl e | Inr n \<Rightarrow> Inr (Some n)))"

definition undelivered :: "team_store \<Rightarrow> string \<Rightarrow> string \<Rightarrow> outbox_row list" where
  "undelivered s consumer_id message_id =
     filter (\<lambda>r. ob_consumer_id r = consumer_id \<and> ob_message_id r = message_id \<and> \<not> ob_delivered r) (ts_outbox s)"

text \<open>\<open>ORDER BY created_at, outbox_id\<close>, and in the ordered store the join with \<open>ORDER BY ordinal, outbox_id\<close>.\<close>

definition pending_outbox :: "team_store \<Rightarrow> string \<Rightarrow> string \<Rightarrow> outbox_row list" where
  "pending_outbox s consumer_id message_id =
     sort_key (\<lambda>r. (ob_created_at r, ob_outbox_id r)) (undelivered s consumer_id message_id)"

definition ordered_pending_outbox :: "team_store \<Rightarrow> string \<Rightarrow> string \<Rightarrow> outbox_row list" where
  "ordered_pending_outbox s consumer_id message_id =
     map snd (sort_key (\<lambda>(n, r). (n, ob_outbox_id r))
       (concat (map (\<lambda>r. map (\<lambda>x. (snd x, r)) (filter (\<lambda>x. fst x = ob_outbox_id r) (ts_order s)))
         (undelivered s consumer_id message_id))))"

definition mark_outbox_delivered :: "team_store \<Rightarrow> string \<Rightarrow> timestamp \<Rightarrow> team_store" where
  "mark_outbox_delivered s oid now = s\<lparr>ts_outbox := update_where (\<lambda>r. ob_outbox_id r = oid)
     (\<lambda>r. r\<lparr>ob_delivered := True, ob_delivered_at := Some now\<rparr>) (ts_outbox s)\<rparr>"

definition all_outbox_delivered :: "team_store \<Rightarrow> string \<Rightarrow> string \<Rightarrow> bool" where
  "all_outbox_delivered s consumer_id message_id = (undelivered s consumer_id message_id = [])"

text \<open>\<open>OutboxRecord.to_draft\<close>, before the validation of the constructor.\<close>

definition to_draft :: "outbox_row \<Rightarrow> draft" where
  "to_draft r = \<lparr>dr_topic = ob_topic r, dr_sender_id = ob_sender_id r, dr_idempotency_key = ob_idempotency_key r,
     dr_payload = ob_payload r, dr_recipient_id = ob_recipient_id r, dr_headers = ob_headers r\<rparr>"

end
