(* ===== verification/Team_Runtime.thy ===== *)
theory Team_Runtime
  imports Team_Outbox Py_Regex
begin

text \<open>
  \<open>ResilientBusDrivenTeamRuntime\<close> of \<open>multiagent/resilient_runtime.py\<close>: it pulls team requests from the
  message bus, runs the coordinator on them, commits terminal state and outbox in one transaction,
  publishes the outbox and acknowledges the request. The world is the state store and the bus; a call
  returns, raises, or is cut off by the injected crash of a checkpoint, each with the world it leaves.
  The coordinator with everything below it (\<open>_run_with_cancellation\<close>) and the reading of the request
  (\<open>TeamRunRequest.from_payload\<close>) are arguments of the runtime.
\<close>

section \<open>Exceptions\<close>

text \<open>An exception is known by the names of its class and the classes above it.\<close>

record team_exception =
  ex_mro :: "string list"

fun bus_exception :: "bus_error \<Rightarrow> team_exception" where
  "bus_exception (BusValueError _) = \<lparr>ex_mro = [''ValueError'', ''Exception'']\<rparr>"
| "bus_exception (MessageBusConflictError _) = \<lparr>ex_mro = [''MessageBusConflictError'', ''MessageBusError'', ''RuntimeError'', ''Exception'']\<rparr>"
| "bus_exception (MessageBusCapacityError _) = \<lparr>ex_mro = [''MessageBusCapacityError'', ''MessageBusError'', ''RuntimeError'', ''Exception'']\<rparr>"
| "bus_exception (MessageBusAckError _) = \<lparr>ex_mro = [''MessageBusAckError'', ''MessageBusError'', ''RuntimeError'', ''Exception'']\<rparr>"
| "bus_exception BusIntegrityError = \<lparr>ex_mro = [''IntegrityError'', ''DatabaseError'', ''Error'', ''Exception'']\<rparr>"

fun store_exception :: "team_store_error \<Rightarrow> team_exception" where
  "store_exception StateRowMissing = \<lparr>ex_mro = [''RuntimeError'', ''Exception'']\<rparr>"
| "store_exception TeamIntegrityError = \<lparr>ex_mro = [''IntegrityError'', ''DatabaseError'', ''Error'', ''Exception'']\<rparr>"
| "store_exception SnapshotUnreadable = \<lparr>ex_mro = [''ValueError'', ''Exception'']\<rparr>"

definition instance_of :: "team_exception \<Rightarrow> string list \<Rightarrow> bool" where
  "instance_of e names = (\<exists>n \<in> set names. n \<in> set (ex_mro e))"

definition default_retry_classifier :: "team_exception \<Rightarrow> disposition" where
  "default_retry_classifier e =
    (if instance_of e [''ValueError'', ''TypeError'', ''PermissionError'', ''FileNotFoundError''] then Permanent
     else if instance_of e [''TimeoutError'', ''ConnectionError'', ''InterruptedError''] then Retryable
     else if instance_of e [''OSError''] then Retryable
     else UnknownFailure)"

definition alnum :: "char \<Rightarrow> bool" where
  "alnum c = (word_char c \<and> c \<noteq> CHR ''_'')"

definition strip_char :: "char \<Rightarrow> string \<Rightarrow> string" where
  "strip_char c s = rev (dropWhile (\<lambda>x. x = c) (rev (dropWhile (\<lambda>x. x = c) s)))"

definition failure_category :: "team_exception \<Rightarrow> string" where
  "failure_category e =
    (let name = (case ex_mro e of n # _ \<Rightarrow> if strip n = [] then ''Exception'' else strip n | [] \<Rightarrow> ''Exception'');
         normalized = map (\<lambda>c. if alnum c then lower_char c else CHR ''_'') name;
         cut = take 100 (strip_char (CHR ''_'') normalized) in
     if cut = [] then ''execution_error'' else cut)"

section \<open>Requests, results and the runtime\<close>

definition team_request_topic :: string where "team_request_topic = ''multiagent.team.requests.v1''"
definition team_event_topic :: string where "team_event_topic = ''multiagent.team.events.v1''"
definition team_dlq_topic :: string where "team_dlq_topic = ''multiagent.team.dlq.v1''"

record team_request =
  rq_request_id :: string
  rq_task_count :: nat
  rq_payload :: pval

record worker_result =
  wr_status :: string
  wr_step_count :: int
  wr_model_call_count :: int
  wr_tool_call_count :: int

record team_result =
  rs_stop_reason :: string
  rs_summary :: string
  rs_task_results :: "(string \<times> worker_result) list"
  rs_review_findings :: nat

record team_outcome =
  oc_request_id :: string
  oc_request_message_id :: string
  oc_attempt :: nat
  oc_terminal :: bool
  oc_acknowledged :: bool
  oc_result :: "team_result option"
  oc_metrics :: "(pval \<times> pval) list"
  oc_failure_category :: "string option"
  oc_dead_lettered :: bool

text \<open>\<open>wd_usage\<close> is what \<open>summarize_observations\<close> says of the model calls of the current attempt.\<close>

record world =
  wd_store :: team_store
  wd_bus :: bus
  wd_usage :: "(string \<times> pval) list"
  wd_tick :: nat

text \<open>
  The collaborators: the bus configuration, the JSON encoder, SHA-256, decimal and \<open>str\<close> texts, the
  identifiers and times the ticks of the world draw, the constructor arguments of the runtime, the
  fault injector (whether it crashes at a checkpoint), the reader of requests and the coordinator.
\<close>

record runtime =
  re_config :: bus_config
  re_encode :: "pval \<Rightarrow> string"
  re_sha :: "string \<Rightarrow> string"
  re_dec :: "nat \<Rightarrow> string"
  re_str_of :: "pval \<Rightarrow> string"
  re_mid :: "nat \<Rightarrow> string"
  re_clock :: "nat \<Rightarrow> timestamp"
  re_ordered :: bool
  re_consumer_id :: string
  re_max_attempts :: nat
  re_classifier :: "team_exception \<Rightarrow> disposition"
  re_fault :: "string \<Rightarrow> string \<Rightarrow> bool"
  re_parse :: "pval \<Rightarrow> team_exception + team_request"
  re_coordinate :: "team_request \<Rightarrow> nat \<Rightarrow> world \<Rightarrow> world \<times> (team_exception + team_result)"

datatype 'a ran =
    Ran world 'a
  | Raised world team_exception
  | Crashed world

fun and_then :: "'a ran \<Rightarrow> (world \<Rightarrow> 'a \<Rightarrow> 'b ran) \<Rightarrow> 'b ran" where
  "and_then (Ran w x) f = f w x"
| "and_then (Raised w e) f = Raised w e"
| "and_then (Crashed w) f = Crashed w"

fun world_of :: "'a ran \<Rightarrow> world" where
  "world_of (Ran w x) = w"
| "world_of (Raised w e) = w"
| "world_of (Crashed w) = w"

text \<open>Reading a clock or drawing an identifier uses up a tick.\<close>

definition now_of :: "runtime \<Rightarrow> world \<Rightarrow> timestamp" where
  "now_of E w = re_clock E (wd_tick w)"

definition with_store :: "team_store \<Rightarrow> world \<Rightarrow> world" where
  "with_store s w = w\<lparr>wd_store := s, wd_tick := Suc (wd_tick w)\<rparr>"

definition with_bus :: "bus \<Rightarrow> world \<Rightarrow> world" where
  "with_bus b w = w\<lparr>wd_bus := b, wd_tick := Suc (wd_tick w)\<rparr>"

definition checkpoint :: "runtime \<Rightarrow> string \<Rightarrow> string \<Rightarrow> world \<Rightarrow> unit ran" where
  "checkpoint E name detail w = (if re_fault E name detail then Crashed w else Ran w ())"

text \<open>\<open>self._bus.publish(MessageDraft(...))\<close> and \<open>self._bus.ack\<close>.\<close>

definition bus_publish :: "runtime \<Rightarrow> draft \<Rightarrow> world \<Rightarrow> envelope ran" where
  "bus_publish E d w =
    (case send (re_config E) (re_encode E) (re_sha E) (wd_bus w) d (re_mid E (wd_tick w)) (now_of E w) of
       (b, Inl e) \<Rightarrow> Raised (with_bus b w) (bus_exception e)
     | (b, Inr (m, created)) \<Rightarrow> Ran (with_bus b w) m)"

definition request_ack :: "runtime \<Rightarrow> nat \<Rightarrow> world \<Rightarrow> unit ran" where
  "request_ack E sequence w =
    (case ack (wd_bus w) (re_consumer_id E) team_request_topic sequence (now_of E w) of
       Inl e \<Rightarrow> Raised w (bus_exception e)
     | Inr (b, _) \<Rightarrow> Ran (with_bus b w) ())"

section \<open>Events\<close>

definition bounded_idempotency_key :: "(string \<Rightarrow> string) \<Rightarrow> string \<Rightarrow> string \<Rightarrow> string" where
  "bounded_idempotency_key sha prefx suffx =
    (let candidate = prefx @ '':'' @ suffx;
         safe = take 120 (map (\<lambda>c. if ident_char c then c else CHR ''_'') prefx) in
     if length candidate \<le> 200 \<and> list_all ident_char candidate then candidate
     else (if safe = [] then ''message'' else safe) @ '':'' @ sha candidate)"

definition event_draft :: "runtime \<Rightarrow> string \<Rightarrow> string \<Rightarrow> (pval \<times> pval) list \<Rightarrow> string \<Rightarrow> draft" where
  "event_draft E request_id event_type payload suffx =
     \<lparr>dr_topic = team_event_topic, dr_sender_id = re_consumer_id E,
      dr_idempotency_key = bounded_idempotency_key (re_sha E) request_id suffx,
      dr_payload = PDict [(PStr ''schema_version'', PStr ''v1''), (PStr ''request_id'', PStr request_id),
        (PStr ''event_type'', PStr event_type), (PStr ''event'', PDict payload)],
      dr_recipient_id = None,
      dr_headers = PDict [(PStr ''schema_version'', PStr ''v1''), (PStr ''message_type'', PStr event_type)]\<rparr>"

definition publish_event :: "runtime \<Rightarrow> string \<Rightarrow> string \<Rightarrow> (pval \<times> pval) list \<Rightarrow> string \<Rightarrow> world \<Rightarrow> envelope ran" where
  "publish_event E request_id event_type payload suffx w = bus_publish E (event_draft E request_id event_type payload suffx) w"

definition request_id_of :: "envelope \<Rightarrow> string" where
  "request_id_of m = (case en_payload m of
       PDict kvs \<Rightarrow> (case dict_get kvs ''request_id'' of PStr (c # cs) \<Rightarrow> c # cs | _ \<Rightarrow> en_message_id m)
     | _ \<Rightarrow> en_message_id m)"

text \<open>\<open>round\<close>, half to even.\<close>

definition py_round :: "rat \<Rightarrow> int" where
  "py_round q = (let f = \<lfloor>q\<rfloor>; d = q - of_int f in
     if d < 1/2 then f else if 1/2 < d then f + 1 else if even f then f else f + 1)"

definition wall_duration_ms :: "runtime \<Rightarrow> timestamp \<Rightarrow> world \<Rightarrow> int" where
  "wall_duration_ms E started w = max 0 (py_round ((now_of E w - started) * 1000))"

definition merged :: "(pval \<times> pval) list \<Rightarrow> (string \<times> pval) list \<Rightarrow> (pval \<times> pval) list" where
  "merged base extra = fold (\<lambda>kv. dict_set (PStr (fst kv)) (snd kv)) extra base"

definition build_metrics :: "runtime \<Rightarrow> team_result \<Rightarrow> timestamp \<Rightarrow> nat \<Rightarrow> world \<Rightarrow> (pval \<times> pval) list" where
  "build_metrics E result started attempt w =
    (let workers = map snd (rs_task_results result) in
     merged
      [(PStr ''schema_version'', PStr ''v1''), (PStr ''attempt'', PInt (int attempt)),
       (PStr ''wall_duration_ms'', PInt (wall_duration_ms E started w)),
       (PStr ''succeeded'', PBool (rs_stop_reason result \<in> {''completed'', ''all_tasks_completed''})),
       (PStr ''stop_reason'', PStr (rs_stop_reason result)), (PStr ''worker_count'', PInt (int (length workers))),
       (PStr ''completed_workers'', PInt (int (length (filter (\<lambda>x. wr_status x = ''completed'') workers)))),
       (PStr ''step_count'', PInt (sum_list (map wr_step_count workers))),
       (PStr ''model_call_count'', PInt (sum_list (map wr_model_call_count workers))),
       (PStr ''tool_call_count'', PInt (sum_list (map wr_tool_call_count workers))),
       (PStr ''review_finding_count'', PInt (int (rs_review_findings result)))]
      (wd_usage w))"

definition terminal_event :: "envelope \<Rightarrow> nat \<Rightarrow> team_result \<Rightarrow> (pval \<times> pval) list" where
  "terminal_event m attempt result =
     [(PStr ''request_message_id'', PStr (en_message_id m)), (PStr ''attempt'', PInt (int attempt)),
      (PStr ''stop_reason'', PStr (rs_stop_reason result)), (PStr ''summary'', PStr (take 500 (rs_summary result))),
      (PStr ''task_statuses'', PDict (map (\<lambda>kv. (PStr (fst kv), PStr (wr_status (snd kv)))) (rs_task_results result))),
      (PStr ''review_finding_count'', PInt (int (rs_review_findings result)))]"

definition attempt_suffix :: "runtime \<Rightarrow> nat \<Rightarrow> string \<Rightarrow> string" where
  "attempt_suffix E attempt what = ''attempt-'' @ re_dec E attempt @ ''-'' @ what"

section \<open>Terminal recovery\<close>

definition pending_of :: "runtime \<Rightarrow> world \<Rightarrow> string \<Rightarrow> outbox_row list" where
  "pending_of E w message_id = (if re_ordered E then ordered_pending_outbox (wd_store w) (re_consumer_id E) message_id
     else pending_outbox (wd_store w) (re_consumer_id E) message_id)"

text \<open>The loop over the pending records: publish, then mark delivered.\<close>

fun deliver :: "runtime \<Rightarrow> outbox_row list \<Rightarrow> world \<Rightarrow> unit ran" where
  "deliver E [] w = Ran w ()"
| "deliver E (r # rs) w =
     and_then (bus_publish E (to_draft r) w) (\<lambda>w1 _.
     and_then (checkpoint E ''after_outbox_published'' (ob_outbox_id r) w1) (\<lambda>w2 _.
     deliver E rs (with_store (mark_outbox_delivered (wd_store w2) (ob_outbox_id r) (now_of E w2)) w2)))"

definition nonempty_or :: "'a list option \<Rightarrow> 'a list \<Rightarrow> 'a list" where
  "nonempty_or v other = (case v of Some (x # xs) \<Rightarrow> x # xs | _ \<Rightarrow> other)"

definition recovered_outcome ::
  "envelope \<Rightarrow> snapshot \<Rightarrow> team_result option \<Rightarrow> (pval \<times> pval) list option \<Rightarrow> bool \<Rightarrow> team_outcome" where
  "recovered_outcome m snap result metrics acknowledged =
     \<lparr>oc_request_id = sn_request_id snap, oc_request_message_id = en_message_id m, oc_attempt = sn_attempt snap,
      oc_terminal = True, oc_acknowledged = acknowledged, oc_result = result,
      oc_metrics = nonempty_or metrics (sn_metrics snap),
      oc_failure_category = (if acknowledged then sn_failure_category snap else Some ''outbox_delivery_failed''),
      oc_dead_lettered = sn_dead_lettered snap\<rparr>"

text \<open>The \<open>try\<close> block of \<open>_recover_terminal\<close>.\<close>

definition flush_and_ack :: "runtime \<Rightarrow> envelope \<Rightarrow> world \<Rightarrow> unit ran" where
  "flush_and_ack E m w =
     and_then (deliver E (pending_of E w (en_message_id m)) w) (\<lambda>w1 _.
     if \<not> all_outbox_delivered (wd_store w1) (re_consumer_id E) (en_message_id m)
     then Raised w1 \<lparr>ex_mro = [''RuntimeError'', ''Exception'']\<rparr>
     else and_then (checkpoint E ''before_request_ack'' [] w1) (\<lambda>w2 _. request_ack E (en_sequence m) w2))"

definition recover_terminal ::
  "runtime \<Rightarrow> envelope \<Rightarrow> team_result option \<Rightarrow> (pval \<times> pval) list option \<Rightarrow> world \<Rightarrow> team_outcome ran" where
  "recover_terminal E m result metrics w =
    (case get_terminal (re_str_of E) (wd_store w) (re_consumer_id E) (en_message_id m) of
       Inl e \<Rightarrow> Raised w (store_exception e)
     | Inr None \<Rightarrow> and_then (request_ack E (en_sequence m) w) (\<lambda>w1 _. Ran w1
         \<lparr>oc_request_id = request_id_of m, oc_request_message_id = en_message_id m,
          oc_attempt = (case get_attempt (wd_store w1) (re_consumer_id E) (en_message_id m) of None \<Rightarrow> 0 | Some a \<Rightarrow> at_attempts a),
          oc_terminal = True, oc_acknowledged = True, oc_result = None, oc_metrics = [], oc_failure_category = None,
          oc_dead_lettered = False\<rparr>)
     | Inr (Some snap) \<Rightarrow> (case flush_and_ack E m w of
           Ran w1 _ \<Rightarrow> Ran w1 (recovered_outcome m snap result metrics True)
         | Raised w1 e \<Rightarrow> Ran w1 (recovered_outcome m snap result metrics False)
         | Crashed w1 \<Rightarrow> Crashed w1))"

section \<open>Failures\<close>

definition failure_draft :: "runtime \<Rightarrow> envelope \<Rightarrow> nat \<Rightarrow> string \<Rightarrow> disposition \<Rightarrow> bool \<Rightarrow> draft" where
  "failure_draft E m attempt category d terminal =
     \<lparr>dr_topic = (if terminal then team_dlq_topic else team_event_topic), dr_sender_id = re_consumer_id E,
      dr_idempotency_key = bounded_idempotency_key (re_sha E) (en_message_id m)
        (attempt_suffix E attempt (if terminal then ''dlq'' else ''retry'')),
      dr_payload = PDict [(PStr ''schema_version'', PStr ''v1''), (PStr ''request_id'', PStr (request_id_of m)),
        (PStr ''request_message_id'', PStr (en_message_id m)),
        (PStr ''event_type'', PStr (if terminal then ''team.run.dead_lettered'' else ''team.run.retry_scheduled'')),
        (PStr ''attempt'', PInt (int attempt)), (PStr ''max_attempts'', PInt (int (re_max_attempts E))),
        (PStr ''failure_category'', PStr category), (PStr ''failure_disposition'', PStr (disposition_value d))],
      dr_recipient_id = None, dr_headers = PDict [(PStr ''schema_version'', PStr ''v1'')]\<rparr>"

definition commit :: "runtime \<Rightarrow> envelope \<Rightarrow> snapshot \<Rightarrow> draft list \<Rightarrow> world \<Rightarrow> unit ran" where
  "commit E m snap drafts w =
    (case commit_terminal (re_ordered E) (re_str_of E) (re_sha E) (re_dec E) (wd_store w) (re_consumer_id E) (en_message_id m)
        snap drafts (now_of E w) of
       Inl e \<Rightarrow> Raised w (store_exception e) | Inr s \<Rightarrow> Ran (with_store s w) ())"

text \<open>A draft is validated where it is built.\<close>

definition built :: "draft \<Rightarrow> world \<Rightarrow> draft ran" where
  "built d w = (case make_draft d of Inl e \<Rightarrow> Raised w (bus_exception e) | Inr d' \<Rightarrow> Ran w d')"

definition handle_execution_failure ::
  "runtime \<Rightarrow> envelope \<Rightarrow> attempt_row \<Rightarrow> timestamp \<Rightarrow> team_exception \<Rightarrow> world \<Rightarrow> team_outcome ran" where
  "handle_execution_failure E m state started err w =
    (let category = failure_category err; d = re_classifier E err; attempt = at_attempts state in
     case mark_failure (wd_store w) (re_consumer_id E) (en_message_id m) category d (now_of E w) of
       Inl e \<Rightarrow> Raised w (store_exception e)
     | Inr (s, _) \<Rightarrow>
        let w1 = with_store s w;
            terminal = (d = Permanent \<or> re_max_attempts E \<le> attempt);
            metrics = merged (merged [(PStr ''wall_duration_ms'', PInt (wall_duration_ms E started w1))] (wd_usage w1))
              [(''failure_disposition'', PStr (disposition_value d))] in
        if \<not> terminal
        then and_then (bus_publish E (failure_draft E m attempt category d False) w1) (\<lambda>w2 _. Ran w2
          \<lparr>oc_request_id = request_id_of m, oc_request_message_id = en_message_id m, oc_attempt = attempt,
           oc_terminal = False, oc_acknowledged = False, oc_result = None, oc_metrics = metrics,
           oc_failure_category = Some category, oc_dead_lettered = False\<rparr>)
        else and_then (built (failure_draft E m attempt category d True) w1) (\<lambda>w2 dlq.
          and_then (commit E m \<lparr>sn_request_id = request_id_of m, sn_request_message_id = en_message_id m,
             sn_request_sequence = en_sequence m, sn_attempt = attempt, sn_failure_category = Some category,
             sn_failure_disposition = Some d, sn_dead_lettered = True, sn_metrics = metrics\<rparr> [dlq] w2) (\<lambda>w3 _.
          and_then (checkpoint E ''after_terminal_committed'' ''dlq'' w3) (\<lambda>w4 _.
          recover_terminal E m None (Some metrics) w4))))"

section \<open>Processing a request\<close>

text \<open>The summary of a collector without observations (\<open>eval/aggregate.py\<close>).\<close>

definition no_usage :: "(string \<times> pval) list" where
  "no_usage = [(''model_calls'', PInt 0), (''model_failures'', PInt 0), (''model_duration_ms'', PInt 0),
     (''input_tokens'', PInt 0), (''output_tokens'', PInt 0), (''total_tokens'', PInt 0), (''retry_count'', PInt 0),
     (''estimated_cost_usd'', PNone), (''unpriced_model_calls'', PInt 0)]"

text \<open>The body of the \<open>try\<close> in \<open>_process\<close>.\<close>

definition attempt_run :: "runtime \<Rightarrow> envelope \<Rightarrow> nat \<Rightarrow> timestamp \<Rightarrow> world \<Rightarrow> team_outcome ran" where
  "attempt_run E m attempt started w =
    (case re_parse E (en_payload m) of
       Inl e \<Rightarrow> Raised w e
     | Inr req \<Rightarrow>
       and_then (publish_event E (rq_request_id req) ''team.request.accepted''
          [(PStr ''request_message_id'', PStr (en_message_id m)), (PStr ''attempt'', PInt (int attempt)),
           (PStr ''task_count'', PInt (int (rq_task_count req)))] (attempt_suffix E attempt ''accepted'') w) (\<lambda>w1 _.
       case re_coordinate E req attempt w1 of
         (w2, Inl e) \<Rightarrow> Raised w2 e
       | (w2, Inr result) \<Rightarrow>
         and_then (checkpoint E ''after_coordinator_completed'' [] w2) (\<lambda>w3 _.
         let metrics = build_metrics E result started attempt w3 in
         and_then (built (event_draft E (rq_request_id req) ''team.run.metrics'' metrics (attempt_suffix E attempt ''metrics'')) w3) (\<lambda>w4 d1.
         and_then (built (event_draft E (rq_request_id req) ''team.run.terminal'' (terminal_event m attempt result)
             (attempt_suffix E attempt ''terminal'')) w4) (\<lambda>w5 d2.
         and_then (commit E m \<lparr>sn_request_id = rq_request_id req, sn_request_message_id = en_message_id m,
             sn_request_sequence = en_sequence m, sn_attempt = attempt, sn_failure_category = None,
             sn_failure_disposition = None, sn_dead_lettered = False, sn_metrics = metrics\<rparr> [d1, d2] w5) (\<lambda>w6 _.
         and_then (checkpoint E ''after_terminal_committed'' [] w6) (\<lambda>w7 _.
         recover_terminal E m (Some result) (Some metrics) w7)))))))"

definition process :: "runtime \<Rightarrow> envelope \<Rightarrow> world \<Rightarrow> team_outcome ran" where
  "process E m w =
    (case begin_attempt (wd_store w) (re_consumer_id E) (en_message_id m) (now_of E w) of
       Inl e \<Rightarrow> Raised w (store_exception e)
     | Inr (s, state) \<Rightarrow>
       let w1 = (with_store s w)\<lparr>wd_usage := no_usage\<rparr> in
       if at_terminal state then recover_terminal E m None None w1
       else and_then (checkpoint E ''after_attempt_started'' [] w1) (\<lambda>w2 _.
         let started = now_of E w2 in
         case attempt_run E m (at_attempts state) started w2 of
           Raised w3 e \<Rightarrow> handle_execution_failure E m state started e w3
         | r \<Rightarrow> r))"

fun process_all :: "runtime \<Rightarrow> envelope list \<Rightarrow> world \<Rightarrow> team_outcome list ran" where
  "process_all E [] w = Ran w []"
| "process_all E (m # ms) w =
     and_then (process E m w) (\<lambda>w1 x. and_then (process_all E ms w1) (\<lambda>w2 xs. Ran w2 (x # xs)))"

definition run_once :: "runtime \<Rightarrow> int \<Rightarrow> world \<Rightarrow> team_outcome list ran" where
  "run_once E limit w = (case pull (wd_bus w) (re_consumer_id E) team_request_topic limit of
     Inl e \<Rightarrow> Raised w (bus_exception e) | Inr ms \<Rightarrow> process_all E ms w)"

definition request_draft :: "runtime \<Rightarrow> string \<Rightarrow> pval \<Rightarrow> string \<Rightarrow> draft" where
  "request_draft E request_id payload sender_id =
     \<lparr>dr_topic = team_request_topic, dr_sender_id = sender_id, dr_idempotency_key = request_id, dr_payload = payload,
      dr_recipient_id = Some (re_consumer_id E),
      dr_headers = PDict [(PStr ''schema_version'', PStr ''v1''), (PStr ''message_type'', PStr ''team.run.requested'')]\<rparr>"

definition submit :: "runtime \<Rightarrow> string \<Rightarrow> pval \<Rightarrow> string \<Rightarrow> world \<Rightarrow> envelope ran" where
  "submit E request_id payload sender_id w = bus_publish E (request_draft E request_id payload sender_id) w"

fun execute_cycles :: "runtime \<Rightarrow> nat \<Rightarrow> string \<Rightarrow> world \<Rightarrow> team_outcome ran" where
  "execute_cycles E 0 message_id w = Raised w \<lparr>ex_mro = [''RuntimeError'', ''Exception'']\<rparr>"
| "execute_cycles E (Suc n) message_id w =
     and_then (run_once E 50 w) (\<lambda>w1 outs.
       case find (\<lambda>x. oc_request_message_id x = message_id \<and> oc_terminal x \<and> oc_acknowledged x) outs of
         Some x \<Rightarrow> Ran w1 x | None \<Rightarrow> execute_cycles E n message_id w1)"

definition team_execute :: "runtime \<Rightarrow> string \<Rightarrow> pval \<Rightarrow> string \<Rightarrow> nat \<Rightarrow> world \<Rightarrow> team_outcome ran" where
  "team_execute E request_id payload sender_id max_cycles w =
     and_then (submit E request_id payload sender_id w) (\<lambda>w1 m. execute_cycles E max_cycles (en_message_id m) w1)"

end
