(* ===== verification/Team_Runtime_Inv.thy ===== *)
theory Team_Runtime_Inv
  imports Team_Runtime Message_Bus_Props
begin

text \<open>
  What every step of the team runtime keeps: the bus only moves by its own operations, and the outbox
  is sound (a row marked delivered has its message on the bus, a row has a terminal snapshot beside it).
\<close>

section \<open>Soundness of the outbox\<close>

definition outbox_key :: "outbox_row \<Rightarrow> string \<times> string \<times> string" where
  "outbox_key r = (ob_topic r, ob_sender_id r, ob_idempotency_key r)"

definition published :: "bus \<Rightarrow> outbox_row \<Rightarrow> bool" where
  "published b r \<longleftrightarrow> outbox_key r \<in> message_key ` set (bus_messages b)"

definition store_ok :: "team_store \<Rightarrow> bus \<Rightarrow> bool" where
  "store_ok s b \<longleftrightarrow> distinct (map ob_outbox_id (ts_outbox s)) \<and>
     (\<forall>r \<in> set (ts_outbox s). (ob_delivered r \<longrightarrow> published b r) \<and>
        (\<exists>t \<in> set (ts_terminals s). terminal_key (ob_consumer_id r) (ob_message_id r) t))"

definition world_ok :: "world \<Rightarrow> bool" where
  "world_ok w \<longleftrightarrow> store_ok (wd_store w) (wd_bus w)"

text \<open>
  What is asked of the arguments: message identifiers are well formed, and the coordinator changes the
  bus only by its operations and the state store not at all.
\<close>

definition runtime_ok :: "runtime \<Rightarrow> bool" where
  "runtime_ok E \<longleftrightarrow> (\<forall>n. ident_ok (re_mid E n)) \<and>
     (\<forall>req n w w' r. re_coordinate E req n w = (w', r) \<longrightarrow> wd_store w' = wd_store w \<and>
        bus_run (re_config E) (re_encode E) (re_sha E) (wd_bus w) (wd_bus w'))"

definition world_rel :: "runtime \<Rightarrow> world \<Rightarrow> world \<Rightarrow> bool" where
  "world_rel E w w' \<longleftrightarrow> bus_run (re_config E) (re_encode E) (re_sha E) (wd_bus w) (wd_bus w') \<and> (world_ok w \<longrightarrow> world_ok w')"

lemma world_rel_refl [simp]: "world_rel E w w"
  by (simp add: world_rel_def)

lemma world_rel_trans: "world_rel E u v \<Longrightarrow> world_rel E v w \<Longrightarrow> world_rel E u w"
  by (auto simp: world_rel_def)

text \<open>A triple: the step relates the worlds, and a result satisfies \<open>P\<close> when the world was sound.\<close>

definition triple :: "runtime \<Rightarrow> world \<Rightarrow> 'a ran \<Rightarrow> (world \<Rightarrow> 'a \<Rightarrow> bool) \<Rightarrow> bool" where
  "triple E w x P \<longleftrightarrow> world_rel E w (world_of x) \<and> (\<forall>w' a. x = Ran w' a \<longrightarrow> world_ok w \<longrightarrow> P w' a)"

lemma triple_and_then:
  assumes "triple E w x Q" "\<And>w1 a. x = Ran w1 a \<Longrightarrow> triple E w1 (f w1 a) (\<lambda>w2 b. (world_ok w \<longrightarrow> Q w1 a) \<longrightarrow> P w2 b)"
  shows "triple E w (and_then x f) P"
proof (cases x)
  case (Ran w1 a)
  with assms(2) [OF this] assms(1) show ?thesis
    by (auto simp: triple_def world_rel_def)
qed (use assms(1) in \<open>auto simp: triple_def\<close>)

lemma triple_mono: "triple E w x Q \<Longrightarrow> (\<And>w' a. x = Ran w' a \<Longrightarrow> world_ok w \<Longrightarrow> Q w' a \<Longrightarrow> P w' a) \<Longrightarrow> triple E w x P"
  by (auto simp: triple_def)

lemma triple_seq:
  assumes "triple E w x (\<lambda>_ _. True)" "\<And>w1 a. x = Ran w1 a \<Longrightarrow> triple E w1 (f w1 a) P"
  shows "triple E w (and_then x f) P"
  by (rule triple_and_then [OF assms(1)]) (rule triple_mono [OF assms(2)], simp_all)

lemma triple_Ran [simp]: "triple E w (Ran w a) P \<longleftrightarrow> (world_ok w \<longrightarrow> P w a)"
  by (simp add: triple_def)

lemma triple_Raised [simp]: "triple E w (Raised w e) P"
  by (simp add: triple_def)

lemma triple_Crashed [simp]: "triple E w (Crashed w) P"
  by (simp add: triple_def)

lemma triple_checkpoint [simp]: "triple E w (checkpoint E name detail w) (\<lambda>w' _. w' = w)"
  by (simp add: checkpoint_def)

lemma triple_built [simp]: "triple E w (built d w) (\<lambda>w' _. w' = w)"
  by (simp add: built_def split: sum.splits)

text \<open>Continuing from another world that the step relates.\<close>

lemma triple_from:
  assumes "world_rel E w w1" "triple E w1 x P"
  shows "triple E w x P"
  using assms by (auto simp: triple_def world_rel_def)

section \<open>Bus operations\<close>

lemma published_mono: "prefix (bus_messages b) (bus_messages b') \<Longrightarrow> published b r \<Longrightarrow> published b' r"
  by (auto simp: published_def dest: set_mono_prefix)

lemma run_messages: "bus_run cfg encode sha b b' \<Longrightarrow> prefix (bus_messages b) (bus_messages b')"
  by (induction rule: rtranclp_induct) (auto dest: step_evolve(1) intro: prefix_order.trans)

lemma run_acked: "bus_run cfg encode sha b b' \<Longrightarrow> acked b c t \<le> acked b' c t"
  by (induction rule: rtranclp_induct) (auto dest: step_evolve(2) intro: le_trans)

lemma store_ok_bus: "bus_run cfg encode sha b b' \<Longrightarrow> store_ok s b \<Longrightarrow> store_ok s b'"
  using published_mono [OF run_messages] by (auto simp: store_ok_def)

lemma with_bus_rel:
  assumes "bus_run (re_config E) (re_encode E) (re_sha E) (wd_bus w) b"
  shows "world_rel E w (with_bus b w)"
  using assms store_ok_bus [OF assms] by (auto simp: world_rel_def world_ok_def with_bus_def)

lemma send_published:
  assumes "send cfg encode sha s d mid now = (s', Inr (e, created))"
  shows "(dr_topic d, dr_sender_id d, dr_idempotency_key d) \<in> message_key ` set (bus_messages s')"
proof -
  obtain d' where d': "make_draft d = Inr d'" "publish cfg encode sha s d' mid now = (s', Inr (e, created))"
    using assms by (auto simp: send_def split: sum.splits)
  have k: "dr_topic d' = dr_topic d" "dr_sender_id d' = dr_sender_id d" "dr_idempotency_key d' = dr_idempotency_key d"
    using make_draftD [OF d'(1)] by simp_all
  have l: "publish_locked cfg s d' (sha (encode (canonical_dict d'))) mid now = Published s' e created"
    using d'(2) by (auto simp: publish_def Let_def split: sum.splits publish_outcome.splits)
  show ?thesis
  proof (cases created)
    case True
    then have "publish_locked cfg s d' (sha (encode (canonical_dict d'))) mid now = Published s' e True" using l by simp
    from stored_message [OF this] show ?thesis by (force simp: k)
  next
    case False
    from publish_lockedD [OF l] False obtain row where "existing_message s d' = Some row" "bus_messages s' = bus_messages s" by auto
    then show ?thesis by (force simp: existing_message_def message_key_def k dest!: find_SomeD)
  qed
qed

lemma bus_publish_Ran:
  assumes "bus_publish E d w = Ran w1 a"
  shows "wd_store w1 = wd_store w" "(dr_topic d, dr_sender_id d, dr_idempotency_key d) \<in> message_key ` set (bus_messages (wd_bus w1))"
proof -
  obtain b created where "send (re_config E) (re_encode E) (re_sha E) (wd_bus w) d (re_mid E (wd_tick w)) (now_of E w) = (b, Inr (a, created))"
    "w1 = with_bus b w" using assms by (auto simp: bus_publish_def split: prod.splits sum.splits)
  with send_published [OF this(1)] show "wd_store w1 = wd_store w"
    "(dr_topic d, dr_sender_id d, dr_idempotency_key d) \<in> message_key ` set (bus_messages (wd_bus w1))"
    by (simp_all add: with_bus_def)
qed

lemma triple_publish:
  assumes "runtime_ok E"
  shows "triple E w (bus_publish E d w) (\<lambda>w' _. wd_store w' = wd_store w \<and>
    (dr_topic d, dr_sender_id d, dr_idempotency_key d) \<in> message_key ` set (bus_messages (wd_bus w')))"
proof -
  obtain b r where r: "send (re_config E) (re_encode E) (re_sha E) (wd_bus w) d (re_mid E (wd_tick w)) (now_of E w) = (b, r)"
    by fastforce
  have "ident_ok (re_mid E (wd_tick w))" using assms by (simp add: runtime_ok_def)
  then have "bus_run (re_config E) (re_encode E) (re_sha E) (wd_bus w) b" using step_send r by blast
  then have "world_rel E w (world_of (bus_publish E d w))"
    using with_bus_rel r by (auto simp: bus_publish_def split: sum.splits)
  then show ?thesis unfolding triple_def using bus_publish_Ran [of E d w] by blast
qed

lemma triple_ack:
  "triple E w (request_ack E n w) (\<lambda>w' _. wd_store w' = wd_store w \<and> n \<le> acked (wd_bus w') (re_consumer_id E) team_request_topic)"
proof (cases "ack (wd_bus w) (re_consumer_id E) team_request_topic n (now_of E w)")
  case (Inl e)
  then show ?thesis by (simp add: request_ack_def)
next
  case (Inr br)
  obtain b r where br: "br = (b, r)" by fastforce
  have step: "bus_run (re_config E) (re_encode E) (re_sha E) (wd_bus w) b" using Inr br step_ack by blast
  have "n \<le> acked b (re_consumer_id E) team_request_topic"
    using ackD [OF Inr [unfolded br]] by (auto simp: acked_move_cursor)
  with with_bus_rel [OF step] show ?thesis by (simp add: request_ack_def Inr br triple_def with_bus_def)
qed

section \<open>Store operations\<close>

lemma with_store_rel:
  assumes "store_ok (wd_store w) (wd_bus w) \<Longrightarrow> store_ok s (wd_bus w)"
  shows "world_rel E w (with_store s w)"
  using assms by (simp add: world_rel_def world_ok_def with_store_def)

lemma store_ok_attempts: "ts_outbox s' = ts_outbox s \<Longrightarrow> ts_terminals s' = ts_terminals s \<Longrightarrow> store_ok s b \<Longrightarrow> store_ok s' b"
  by (simp add: store_ok_def)

lemma update_attempt_fields [simp]:
  "ts_outbox (update_attempt c m f s) = ts_outbox s" "ts_terminals (update_attempt c m f s) = ts_terminals s"
  by (simp_all add: update_attempt_def)

lemma bex_update_where: "(\<And>r. P (f r) = P r) \<Longrightarrow> (\<exists>x \<in> set (update_where p f t). P x) \<longleftrightarrow> (\<exists>x \<in> set t. P x)"
  by (induction t) (auto simp: update_where_def)

lemma upsert_terminal_keys:
  "(\<exists>t \<in> set (ts_terminals (upsert_terminal c m v now s)). terminal_key c' m' t) \<longleftrightarrow>
     (c' = c \<and> m' = m) \<or> (\<exists>t \<in> set (ts_terminals s). terminal_key c' m' t)"
proof (cases "\<exists>t \<in> set (ts_terminals s). terminal_key c m t")
  case True
  have "(\<exists>t \<in> set (ts_terminals (upsert_terminal c m v now s)). terminal_key c' m' t) \<longleftrightarrow>
      (\<exists>t \<in> set (ts_terminals s). terminal_key c' m' t)"
    using True by (simp add: upsert_terminal_def) (rule bex_update_where, simp add: terminal_key_def)
  with True show ?thesis by auto
next
  case False
  then show ?thesis by (auto simp: upsert_terminal_def terminal_key_def)
qed

lemma upsert_terminal_outbox [simp]: "ts_outbox (upsert_terminal c m v now s) = ts_outbox s"
  by (simp add: upsert_terminal_def)

lemma set_ordinal_fields [simp]:
  "ts_outbox (set_ordinal oid n s) = ts_outbox s" "ts_terminals (set_ordinal oid n s) = ts_terminals s"
  by (simp_all add: set_ordinal_def)

lemma store_ok_insert_outbox:
  assumes "insert_outbox r s = Inr s'" "store_ok s b" "\<not> ob_delivered r"
    "\<exists>t \<in> set (ts_terminals s). terminal_key (ob_consumer_id r) (ob_message_id r) t"
  shows "store_ok s' b" "ts_terminals s' = ts_terminals s"
proof -
  have "s' = s \<or> (s' = s\<lparr>ts_outbox := ts_outbox s @ [r]\<rparr> \<and> ob_outbox_id r \<notin> ob_outbox_id ` set (ts_outbox s))"
    using assms(1) by (force simp: insert_outbox_def split: if_splits)
  then show "store_ok s' b" "ts_terminals s' = ts_terminals s" using assms(2-4) by (auto simp: store_ok_def)
qed

lemma store_ok_insert_drafts:
  assumes "insert_drafts ordered str_of sha dec c m now index ds s = Inr s'" "store_ok s b"
    "\<exists>t \<in> set (ts_terminals s). terminal_key c m t"
  shows "store_ok s' b"
  using assms
proof (induction ds arbitrary: index s)
  case Nil
  then show ?case by simp
next
  case (Cons d ds)
  let ?r = "new_outbox_row str_of (outbox_id sha dec c m (dr_idempotency_key d) index) c m d now"
  from Cons.prems(1) obtain s1 where s1: "insert_outbox ?r s = Inr s1"
    "insert_drafts ordered str_of sha dec c m now (Suc index) ds
       (if ordered then set_ordinal (outbox_id sha dec c m (dr_idempotency_key d) index) index s1 else s1) = Inr s'"
    by (auto simp: Let_def split: sum.splits)
  let ?s1 = "if ordered then set_ordinal (outbox_id sha dec c m (dr_idempotency_key d) index) index s1 else s1"
  have o: "store_ok s1 b" "ts_terminals s1 = ts_terminals s"
    using store_ok_insert_outbox [OF s1(1) Cons.prems(2)] Cons.prems(3) by (simp_all add: new_outbox_row_def)
  have f: "ts_outbox ?s1 = ts_outbox s1" "ts_terminals ?s1 = ts_terminals s1" by simp_all
  have "store_ok ?s1 b" by (rule store_ok_attempts [OF f o(1)])
  moreover have "\<exists>t \<in> set (ts_terminals ?s1). terminal_key c m t" unfolding f(2) o(2) by (rule Cons.prems(3))
  ultimately show ?case by (rule Cons.IH [OF s1(2)])
qed

lemma store_ok_commit:
  assumes "commit_terminal ordered str_of sha dec s c m snap ds now = Inr s'" "store_ok s b"
  shows "store_ok s' b"
proof -
  let ?s = "upsert_terminal c m (snapshot_to_json snap) now (update_attempt c m (\<lambda>a. a\<lparr>at_terminal := True, at_updated_at := now\<rparr>) s)"
  have i: "insert_drafts ordered str_of sha dec c m now 0 ds ?s = Inr s'"
    using assms(1) by (simp add: commit_terminal_def split: if_splits)
  have "store_ok ?s b" using assms(2) by (simp add: store_ok_def upsert_terminal_keys)
  moreover have "\<exists>t \<in> set (ts_terminals ?s). terminal_key c m t" by (simp add: upsert_terminal_keys)
  ultimately show ?thesis by (rule store_ok_insert_drafts [OF i])
qed

lemma begin_attempt_fields:
  "begin_attempt s c m now = Inr (s', a) \<Longrightarrow> ts_outbox s' = ts_outbox s \<and> ts_terminals s' = ts_terminals s"
  by (auto simp: begin_attempt_def Let_def split: if_splits sum.splits)

lemma mark_failure_fields:
  "mark_failure s c m cat d now = Inr (s', a) \<Longrightarrow> ts_outbox s' = ts_outbox s \<and> ts_terminals s' = ts_terminals s"
  by (auto simp: mark_failure_def Let_def split: sum.splits)

lemma triple_commit: "triple E w (commit E m snap ds w) (\<lambda>_ _. True)"
proof (cases "commit_terminal (re_ordered E) (re_str_of E) (re_sha E) (re_dec E) (wd_store w) (re_consumer_id E) (en_message_id m)
      snap ds (now_of E w)")
  case (Inl e)
  then show ?thesis by (simp add: commit_def)
next
  case (Inr s)
  have "world_rel E w (with_store s w)" by (rule with_store_rel) (rule store_ok_commit [OF Inr])
  then show ?thesis by (simp add: commit_def Inr triple_def)
qed

section \<open>The runtime\<close>

lemma store_ok_mark:
  assumes "store_ok s b" "\<And>x. x \<in> set (ts_outbox s) \<Longrightarrow> ob_outbox_id x = oid \<Longrightarrow> published b x"
  shows "store_ok (mark_outbox_delivered s oid now) b"
proof -
  have p: "published b (r\<lparr>ob_delivered := True, ob_delivered_at := v\<rparr>) = published b r" for r v
    by (simp add: published_def outbox_key_def)
  have "map ob_outbox_id (ts_outbox (mark_outbox_delivered s oid now)) = map ob_outbox_id (ts_outbox s)"
    by (simp add: mark_outbox_delivered_def map_update_where)
  then show ?thesis
    using assms unfolding store_ok_def by (auto simp: mark_outbox_delivered_def set_update_where p)
qed

text \<open>The rows with the identifier of a pending record have its key.\<close>

definition covered :: "team_store \<Rightarrow> outbox_row list \<Rightarrow> bool" where
  "covered s rs \<longleftrightarrow> (\<forall>r \<in> set rs. \<forall>x \<in> set (ts_outbox s). ob_outbox_id x = ob_outbox_id r \<longrightarrow> outbox_key x = outbox_key r)"

lemma covered_mark: "covered s rs \<Longrightarrow> covered (mark_outbox_delivered s oid now) rs"
  by (auto simp: covered_def mark_outbox_delivered_def update_where_def outbox_key_def)

lemma triple_deliver:
  assumes "runtime_ok E" "covered (wd_store w) rs"
  shows "triple E w (deliver E rs w) (\<lambda>_ _. True)"
  using assms(2)
proof (induction rs arbitrary: w)
  case Nil
  then show ?case by simp
next
  case (Cons r rs)
  let ?k = "(dr_topic (to_draft r), dr_sender_id (to_draft r), dr_idempotency_key (to_draft r))"
  have k: "?k = outbox_key r" by (simp add: to_draft_def outbox_key_def)
  note pub = triple_publish [OF assms(1), of w "to_draft r"]
  show ?case
    unfolding deliver.simps
  proof (rule triple_seq)
    show "triple E w (bus_publish E (to_draft r) w) (\<lambda>_ _. True)" by (rule triple_mono [OF pub]) simp
  next
    fix w1 a
    assume ran: "bus_publish E (to_draft r) w = Ran w1 a"
    have s1: "wd_store w1 = wd_store w" and p1: "outbox_key r \<in> message_key ` set (bus_messages (wd_bus w1))"
      using bus_publish_Ran [OF ran] by (simp_all add: k [symmetric])
    show "triple E w1 (and_then (checkpoint E ''after_outbox_published'' (ob_outbox_id r) w1)
       (\<lambda>w2 _. deliver E rs (with_store (mark_outbox_delivered (wd_store w2) (ob_outbox_id r) (now_of E w2)) w2))) (\<lambda>_ _. True)"
    proof (rule triple_seq)
      show "triple E w1 (checkpoint E ''after_outbox_published'' (ob_outbox_id r) w1) (\<lambda>_ _. True)"
        by (rule triple_mono [OF triple_checkpoint]) simp
    next
      fix w2 u
      assume "checkpoint E ''after_outbox_published'' (ob_outbox_id r) w1 = Ran w2 u"
      then have w2: "w2 = w1" by (auto simp: checkpoint_def split: if_splits)
      let ?w3 = "with_store (mark_outbox_delivered (wd_store w1) (ob_outbox_id r) (now_of E w1)) w1"
      have "published (wd_bus w1) x" if "x \<in> set (ts_outbox (wd_store w1))" "ob_outbox_id x = ob_outbox_id r" for x
        using Cons.prems that p1 by (simp add: covered_def s1 published_def)
      then have rel: "world_rel E w1 ?w3" by (intro with_store_rel store_ok_mark) auto
      have "covered (wd_store w1) rs" using Cons.prems by (simp add: covered_def s1)
      then have "covered (wd_store ?w3) rs" using covered_mark by (simp add: with_store_def)
      from triple_from [OF rel Cons.IH [OF this]]
      show "triple E w2 (deliver E rs (with_store (mark_outbox_delivered (wd_store w2) (ob_outbox_id r) (now_of E w2)) w2)) (\<lambda>_ _. True)"
        unfolding w2 .
    qed
  qed
qed

end
