(* ===== verification/Team_Runtime_Props.thy ===== *)
theory Team_Runtime_Props
  imports Team_Runtime_Inv
begin

text \<open>
  The team runtime over the message bus: what an acknowledgement of a request means across crashes,
  the order of the terminal publications, the stored form of a terminal snapshot, and the requests a
  cumulative acknowledgement loses.
\<close>

section \<open>Processing\<close>

lemma triple_bind:
  assumes "world_ok w" "triple E w x Q" "\<And>w1 a. x = Ran w1 a \<Longrightarrow> world_ok w1 \<Longrightarrow> Q w1 a \<Longrightarrow> triple E w1 (f w1 a) P"
  shows "triple E w (and_then x f) P"
proof (cases x)
  case (Ran w1 a)
  have "world_rel E w w1" using assms(2) Ran by (simp add: triple_def)
  moreover from this have "world_ok w1" using assms(1) by (simp add: world_rel_def)
  moreover from this have "triple E w1 (f w1 a) P" using assms(1,2) Ran by (intro assms(3)) (auto simp: triple_def)
  ultimately show ?thesis using Ran triple_from by fastforce
qed (use assms(2) in \<open>auto simp: triple_def\<close>)

definition outcome_ok :: "runtime \<Rightarrow> envelope \<Rightarrow> world \<Rightarrow> team_outcome \<Rightarrow> bool" where
  "outcome_ok E m w x \<longleftrightarrow> oc_request_message_id x = en_message_id m \<and>
     (oc_acknowledged x \<longrightarrow> oc_terminal x \<and> en_sequence m \<le> acked (wd_bus w) (re_consumer_id E) team_request_topic \<and>
        all_outbox_delivered (wd_store w) (re_consumer_id E) (en_message_id m))"

lemma set_pending_of: "set (pending_of E w mid) \<subseteq> set (ts_outbox (wd_store w))"
  by (auto simp: pending_of_def ordered_pending_outbox_def pending_outbox_def undelivered_def)

lemma covered_pending:
  assumes "world_ok w"
  shows "covered (wd_store w) (pending_of E w mid)"
proof -
  have d: "distinct (map ob_outbox_id (ts_outbox (wd_store w)))" using assms by (simp add: world_ok_def store_ok_def)
  show ?thesis using set_pending_of distinct_map_eqD [OF d] unfolding covered_def by blast
qed

lemma triple_flush:
  assumes "runtime_ok E" "world_ok w"
  shows "triple E w (flush_and_ack E m w) (\<lambda>w' _. en_sequence m \<le> acked (wd_bus w') (re_consumer_id E) team_request_topic \<and>
    all_outbox_delivered (wd_store w') (re_consumer_id E) (en_message_id m))"
  unfolding flush_and_ack_def
proof (rule triple_bind [OF assms(2) triple_deliver [OF assms(1) covered_pending [OF assms(2)]]])
  fix w1 u
  assume ok1: "world_ok w1"
  show "triple E w1 (if \<not> all_outbox_delivered (wd_store w1) (re_consumer_id E) (en_message_id m)
      then Raised w1 \<lparr>ex_mro = [''RuntimeError'', ''Exception'']\<rparr>
      else and_then (checkpoint E ''before_request_ack'' [] w1) (\<lambda>w2 _. request_ack E (en_sequence m) w2))
     (\<lambda>w' _. en_sequence m \<le> acked (wd_bus w') (re_consumer_id E) team_request_topic \<and>
        all_outbox_delivered (wd_store w') (re_consumer_id E) (en_message_id m))"
  proof (cases "all_outbox_delivered (wd_store w1) (re_consumer_id E) (en_message_id m)")
    case True
    have "triple E w1 (and_then (checkpoint E ''before_request_ack'' [] w1) (\<lambda>w2 _. request_ack E (en_sequence m) w2))
     (\<lambda>w' _. en_sequence m \<le> acked (wd_bus w') (re_consumer_id E) team_request_topic \<and>
        all_outbox_delivered (wd_store w') (re_consumer_id E) (en_message_id m))"
      by (rule triple_bind [OF ok1 triple_checkpoint]) (rule triple_mono [OF triple_ack], simp add: True)
    with True show ?thesis by simp
  qed simp
qed

lemma triple_recover:
  assumes "runtime_ok E" "world_ok w"
  shows "triple E w (recover_terminal E m result metrics w) (outcome_ok E m)"
proof (cases "get_terminal (re_str_of E) (wd_store w) (re_consumer_id E) (en_message_id m)")
  case (Inl e)
  then show ?thesis by (simp add: recover_terminal_def)
next
  case (Inr t)
  show ?thesis
  proof (cases t)
    case None
    have none: "\<not> (\<exists>t \<in> set (ts_terminals (wd_store w)). terminal_key (re_consumer_id E) (en_message_id m) t)"
      using Inr None by (auto simp: get_terminal_def find_None_iff split: option.splits sum.splits)
    have empty: "all_outbox_delivered (wd_store w) (re_consumer_id E) (en_message_id m)"
      using assms(2) none by (auto simp: all_outbox_delivered_def undelivered_def filter_empty_conv world_ok_def store_ok_def)
    show ?thesis
      unfolding recover_terminal_def Inr None sum.case option.case
      by (rule triple_bind [OF assms(2) triple_ack]) (simp add: outcome_ok_def empty)
  next
    case (Some snap)
    note f = triple_flush [OF assms, of m]
    show ?thesis
      using f assms(2)
      by (auto simp: recover_terminal_def Inr Some triple_def recovered_outcome_def outcome_ok_def split: ran.splits)
  qed
qed

lemma triple_handle_failure:
  assumes "runtime_ok E" "world_ok w"
  shows "triple E w (handle_execution_failure E m state started err w) (outcome_ok E m)"
proof -
  let ?d = "re_classifier E err"
  show ?thesis
  proof (cases "mark_failure (wd_store w) (re_consumer_id E) (en_message_id m) (failure_category err) ?d (now_of E w)")
    case (Inl e)
    then show ?thesis by (simp add: handle_execution_failure_def Let_def)
  next
    case (Inr sa)
    obtain s a where sa: "sa = (s, a)" by fastforce
    let ?w1 = "with_store s w"
    have rel: "world_rel E w ?w1"
      using mark_failure_fields [OF Inr [unfolded sa]] by (intro with_store_rel) (auto intro: store_ok_attempts)
    then have ok: "world_ok ?w1" using assms(2) by (simp add: world_rel_def)
    have retry: "triple E ?w1 (and_then (bus_publish E dr ?w1) (\<lambda>w2 _. Ran w2 \<lparr>oc_request_id = request_id_of m,
        oc_request_message_id = en_message_id m, oc_attempt = at_attempts state, oc_terminal = False, oc_acknowledged = False,
        oc_result = None, oc_metrics = mt, oc_failure_category = Some (failure_category err), oc_dead_lettered = False\<rparr>))
        (outcome_ok E m)" for dr mt
      by (rule triple_bind [OF ok triple_publish [OF assms(1)]]) (simp add: outcome_ok_def)
    have dead: "triple E ?w1 (and_then (built dr ?w1) (\<lambda>w2 dlq. and_then (commit E m snap [dlq] w2) (\<lambda>w3 _.
        and_then (checkpoint E ''after_terminal_committed'' ''dlq'' w3) (\<lambda>w4 _. recover_terminal E m None (Some mt) w4))))
        (outcome_ok E m)" for dr mt snap
    proof (rule triple_bind [OF ok triple_built])
      fix w2 d2
      assume ok2: "world_ok w2"
      show "triple E w2 (and_then (commit E m snap [d2] w2) (\<lambda>w3 _. and_then (checkpoint E ''after_terminal_committed'' ''dlq'' w3)
          (\<lambda>w4 _. recover_terminal E m None (Some mt) w4))) (outcome_ok E m)"
        by (rule triple_bind [OF ok2 triple_commit], rule triple_bind [OF _ triple_checkpoint], assumption,
            rule triple_recover [OF assms(1)])
    qed
    show ?thesis
      using triple_from [OF rel retry] triple_from [OF rel dead]
      by (simp add: handle_execution_failure_def Let_def Inr sa)
  qed
qed

lemma coordinate_rel:
  assumes "runtime_ok E" "re_coordinate E req n w = (w', r)"
  shows "world_rel E w w'"
proof -
  have s: "wd_store w' = wd_store w" "bus_run (re_config E) (re_encode E) (re_sha E) (wd_bus w) (wd_bus w')"
    using assms unfolding runtime_ok_def by blast+
  from store_ok_bus [OF s(2)] s show ?thesis by (simp add: world_rel_def world_ok_def)
qed

lemma triple_attempt_run:
  assumes "runtime_ok E" "world_ok w"
  shows "triple E w (attempt_run E m attempt started w) (outcome_ok E m)"
proof (cases "re_parse E (en_payload m)")
  case (Inl e)
  then show ?thesis by (simp add: attempt_run_def)
next
  case (Inr req)
  show ?thesis
    unfolding attempt_run_def Inr sum.case publish_event_def
  proof (rule triple_bind [OF assms(2) triple_publish [OF assms(1)]])
    fix w1 a
    assume ok1: "world_ok w1"
    obtain w2 r where c: "re_coordinate E req attempt w1 = (w2, r)" by fastforce
    note rel = coordinate_rel [OF assms(1) c]
    have ok2: "world_ok w2" using rel ok1 by (simp add: world_rel_def)
    show "triple E w1 (case re_coordinate E req attempt w1 of
         (w2, Inl e) \<Rightarrow> Raised w2 e
       | (w2, Inr result) \<Rightarrow>
         and_then (checkpoint E ''after_coordinator_completed'' [] w2) (\<lambda>w3 _.
         let metrics = build_metrics E result started attempt w3 in
         and_then (built (event_draft E (rq_request_id req) ''team.run.metrics'' metrics (attempt_suffix E attempt ''metrics'')) w3) (\<lambda>w4 d1.
         and_then (built (event_draft E (rq_request_id req) ''team.run.terminal'' (terminal_event m attempt result)
             (attempt_suffix E attempt ''terminal'')) w4) (\<lambda>w5 d2.
         and_then (commit E m \<lparr>sn_request_id = rq_request_id req, sn_request_message_id = en_message_id m,
             sn_request_sequence = en_sequence m, sn_attempt = attempt, sn_failure_category = None,
             sn_failure_disposition = None, sn_dead_lettered = False, sn_metrics = metrics\<rparr> [d1, d2] w5) (\<lambda>w6 _.
         and_then (checkpoint E ''after_terminal_committed'' [] w6) (\<lambda>w7 _.
         recover_terminal E m (Some result) (Some metrics) w7)))))) (outcome_ok E m)"
    proof (cases r)
      case (Inl e)
      from triple_from [OF rel triple_Raised] show ?thesis by (simp add: c Inl)
    next
      case (Inr result)
      show ?thesis
        unfolding c Inr prod.case sum.case Let_def
        apply (rule triple_from [OF rel])
        apply (rule triple_bind [OF ok2 triple_checkpoint])
        apply (rule triple_bind [OF _ triple_built], assumption)
        apply (rule triple_bind [OF _ triple_built], assumption)
        apply (rule triple_bind [OF _ triple_commit], assumption)
        apply (rule triple_bind [OF _ triple_checkpoint], assumption)
        by (rule triple_recover [OF assms(1)])
    qed
  qed
qed

lemma triple_process:
  assumes "runtime_ok E" "world_ok w"
  shows "triple E w (process E m w) (outcome_ok E m)"
proof (cases "begin_attempt (wd_store w) (re_consumer_id E) (en_message_id m) (now_of E w)")
  case (Inl e)
  then show ?thesis by (simp add: process_def)
next
  case (Inr sa)
  obtain s state where sa: "sa = (s, state)" by fastforce
  let ?w1 = "(with_store s w)\<lparr>wd_usage := no_usage\<rparr>"
  have "world_rel E w (with_store s w)"
    using begin_attempt_fields [OF Inr [unfolded sa]] by (intro with_store_rel) (auto intro: store_ok_attempts)
  then have rel: "world_rel E w ?w1" by (simp add: world_rel_def world_ok_def)
  then have ok: "world_ok ?w1" using assms(2) by (simp add: world_rel_def)
  show ?thesis
  proof (cases "at_terminal state")
    case True
    then show ?thesis using triple_from [OF rel triple_recover [OF assms(1) ok]] by (simp add: process_def Inr sa Let_def)
  next
    case False
    have "triple E ?w1 (and_then (checkpoint E ''after_attempt_started'' [] ?w1) (\<lambda>w2 _.
         let started = now_of E w2 in
         case attempt_run E m (at_attempts state) started w2 of
           Raised w3 e \<Rightarrow> handle_execution_failure E m state started e w3
         | r \<Rightarrow> r)) (outcome_ok E m)"
    proof (rule triple_bind [OF ok triple_checkpoint])
      fix w2 u
      assume ok2: "world_ok w2"
      note t = triple_attempt_run [OF assms(1) ok2, of m "at_attempts state" "now_of E w2"]
      show "triple E w2 (let started = now_of E w2 in case attempt_run E m (at_attempts state) started w2 of
           Raised w3 e \<Rightarrow> handle_execution_failure E m state started e w3 | r \<Rightarrow> r) (outcome_ok E m)"
      proof (cases "attempt_run E m (at_attempts state) (now_of E w2) w2")
        case (Raised w3 e)
        have "world_rel E w2 w3" using t Raised by (simp add: triple_def)
        moreover from this have "world_ok w3" using ok2 by (simp add: world_rel_def)
        ultimately show ?thesis
          using triple_from triple_handle_failure [OF assms(1)] Raised by (fastforce simp: Let_def)
      qed (use t in \<open>auto simp: Let_def\<close>)
    qed
    with False show ?thesis using triple_from [OF rel] by (simp add: process_def Inr sa Let_def)
  qed
qed

section \<open>Executions\<close>

definition with_fault :: "(string \<Rightarrow> string \<Rightarrow> bool) \<Rightarrow> runtime \<Rightarrow> runtime" where
  "with_fault f E = E\<lparr>re_fault := f\<rparr>"

text \<open>
  A world of the runtime: it starts empty; a message is processed, returning, raising or crashing at any
  checkpoint; and other agents use the bus.
\<close>

inductive team_reach :: "runtime \<Rightarrow> world \<Rightarrow> bool" for E where
  reach_start: "team_reach E \<lparr>wd_store = empty_team_store, wd_bus = empty_bus, wd_usage = [], wd_tick = n\<rparr>"
| reach_process: "team_reach E w \<Longrightarrow> team_reach E (world_of (process (with_fault f E) m w))"
| reach_bus: "team_reach E w \<Longrightarrow> bus_run (re_config E) (re_encode E) (re_sha E) (wd_bus w) b \<Longrightarrow> team_reach E (w\<lparr>wd_bus := b\<rparr>)"

lemma with_fault_ok [simp]: "runtime_ok (with_fault f E) = runtime_ok E" "world_rel (with_fault f E) = world_rel E"
    "re_consumer_id (with_fault f E) = re_consumer_id E" "outcome_ok (with_fault f E) = outcome_ok E"
  by (auto simp: runtime_ok_def with_fault_def world_rel_def outcome_ok_def fun_eq_iff)

lemma team_reach_ok:
  assumes "runtime_ok E" "team_reach E w"
  shows "world_ok w \<and> bus_run (re_config E) (re_encode E) (re_sha E) empty_bus (wd_bus w)"
  using assms(2)
proof induction
  case (reach_start n)
  then show ?case by (simp add: world_ok_def store_ok_def empty_team_store_def)
next
  case (reach_process w f m)
  have "world_rel E w (world_of (process (with_fault f E) m w))"
    using triple_process [of "with_fault f E" w m] assms(1) reach_process by (simp add: triple_def)
  with reach_process show ?case by (auto simp: world_rel_def)
next
  case (reach_bus w b)
  then show ?case using store_ok_bus by (auto simp: world_ok_def)
qed

lemma team_reach_inv: "runtime_ok E \<Longrightarrow> team_reach E w \<Longrightarrow> bus_inv (wd_bus w)"
  using team_reach_ok bus_reachable_inv by blast

lemma process_outcome:
  assumes "runtime_ok E" "team_reach E w" "process (with_fault f E) m w = Ran w' x"
  shows "outcome_ok E m w' x" "world_ok w'" "bus_inv (wd_bus w')"
proof -
  have t: "triple (with_fault f E) w (process (with_fault f E) m w) (outcome_ok (with_fault f E) m)"
    using triple_process [of "with_fault f E" w m] assms(1) team_reach_ok [OF assms(1,2)] by (simp del: with_fault_ok(4))
  then show "outcome_ok E m w' x" using assms team_reach_ok by (auto simp: triple_def)
  have "team_reach E w'" using reach_process [OF assms(2), of f m] assms(3) by simp
  then show "world_ok w'" "bus_inv (wd_bus w')" using team_reach_ok [OF assms(1)] team_reach_inv [OF assms(1)] by blast+
qed

section \<open>An example\<close>

text \<open>
  Two requests on the bus; the runtime cannot read them (a transient failure for the first, a permanent
  one for the second).
\<close>

definition demo_runtime :: runtime where
  "demo_runtime = \<lparr>re_config = \<lparr>max_messages_per_topic = 9, max_payload_bytes = 900, max_headers_bytes = 900, max_draft_bytes = 2000\<rparr>,
     re_encode = (\<lambda>_. []), re_sha = id, re_dec = (\<lambda>n. replicate n (CHR ''i'')), re_str_of = (\<lambda>_. []),
     re_mid = (\<lambda>n. if n < 100 then ''m'' @ replicate n (CHR ''x'') else ''m''), re_clock = (\<lambda>_. 0), re_ordered = True,
     re_consumer_id = ''team'', re_max_attempts = 3, re_classifier = default_retry_classifier, re_fault = (\<lambda>_ _. False),
     re_parse = (\<lambda>v. case v of
          PDict kvs \<Rightarrow> Inl \<lparr>ex_mro = [if dict_get kvs ''request_id'' = PStr ''a'' then ''TimeoutError'' else ''ValueError'']\<rparr>
        | _ \<Rightarrow> Inl \<lparr>ex_mro = [''ValueError'']\<rparr>),
     re_coordinate = (\<lambda>req n w. (w, Inl \<lparr>ex_mro = [''ValueError'']\<rparr>))\<rparr>"

definition demo_send :: "string \<Rightarrow> string \<Rightarrow> bus \<Rightarrow> bus \<times> (bus_error + envelope \<times> bool)" where
  "demo_send i mid b = send (re_config demo_runtime) (re_encode demo_runtime) (re_sha demo_runtime) b
     (request_draft demo_runtime i (PDict [(PStr ''request_id'', PStr i)]) ''cli'') mid 0"

definition demo_world :: world where
  "demo_world = \<lparr>wd_store = empty_team_store, wd_bus = fst (demo_send ''b'' ''r2'' (fst (demo_send ''a'' ''r1'' empty_bus))),
     wd_usage = [], wd_tick = 0\<rparr>"

lemma demo_runtime_ok: "runtime_ok demo_runtime"
proof -
  have "ident_ok (if n < 100 then ''m'' @ replicate n (CHR ''x'') else ''m'')" for n :: nat
    by (auto simp: ident_ok_def ident_char_def list_all_iff)
  then show ?thesis by (simp add: runtime_ok_def demo_runtime_def)
qed

lemma demo_reach: "team_reach demo_runtime demo_world"
proof -
  let ?b1 = "fst (demo_send ''a'' ''r1'' empty_bus)"
  have i: "ident_ok ''r1''" "ident_ok ''r2''" by code_simp+
  have step: "bus_step (re_config demo_runtime) (re_encode demo_runtime) (re_sha demo_runtime) b (fst (demo_send i mid b))"
    if "ident_ok mid" for i mid b
    using step_send [OF that] unfolding demo_send_def by (metis surjective_pairing)
  have "bus_run (re_config demo_runtime) (re_encode demo_runtime) (re_sha demo_runtime) empty_bus (fst (demo_send ''b'' ''r2'' ?b1))"
    using step [OF i(1)] step [OF i(2)] by (meson r_into_rtranclp rtranclp.rtrancl_into_rtrancl)
  from reach_bus [OF reach_start [of _ 0], simplified, OF this] show ?thesis by (simp add: demo_world_def)
qed




section \<open>Properties\<close>




text \<open>
  The JSON form of a terminal snapshot reads back as the snapshot.
\<close>

theorem snapshot_roundtrip: "snapshot_from_json str_of (snapshot_to_json s) = Inr s"
proof -
  have d: "disposition_of (disposition_value d) = Some d" for d by (cases d) (simp_all add: disposition_of_def)
  show ?thesis
    by (cases "sn_failure_category s"; cases "sn_failure_disposition s")
      (simp_all add: snapshot_from_json_def snapshot_to_json_def dict_get_def py_str_def optional_pval_def truthy_def d Let_def)
qed

section \<open>Lost requests\<close>

lemma process_all_outcomes:
  assumes "runtime_ok E" "team_reach E w" "process_all E ms w = Ran w' xs"
  shows "length xs = length ms \<and> bus_run (re_config E) (re_encode E) (re_sha E) (wd_bus w) (wd_bus w') \<and> team_reach E w' \<and>
    (\<forall>i < length ms. oc_request_message_id (xs ! i) = en_message_id (ms ! i) \<and>
       (oc_acknowledged (xs ! i) \<longrightarrow> en_sequence (ms ! i) \<le> acked (wd_bus w') (re_consumer_id E) team_request_topic))"
  using assms(2,3)
proof (induction ms arbitrary: w xs)
  case Nil
  then show ?case by simp
next
  case (Cons m ms)
  from Cons.prems(2) obtain w1 y where y: "process E m w = Ran w1 y"
    by (cases "process E m w") auto
  with Cons.prems(2) obtain ys where ys: "process_all E ms w1 = Ran w' ys" "xs = y # ys"
    by (cases "process_all E ms w1") auto
  have E: "with_fault (re_fault E) E = E" by (simp add: with_fault_def)
  note o = process_outcome [OF assms(1) Cons.prems(1), of "re_fault E" m, unfolded E, OF y]
  have r1: "team_reach E w1" using reach_process [OF Cons.prems(1), of "re_fault E" m, unfolded E] y by simp
  have run1: "bus_run (re_config E) (re_encode E) (re_sha E) (wd_bus w) (wd_bus w1)"
    using triple_process [OF assms(1), of w m] team_reach_ok [OF assms(1) Cons.prems(1)] y by (simp add: triple_def world_rel_def)
  note ih = Cons.IH [OF r1 ys(1)]
  have mono: "acked (wd_bus w1) (re_consumer_id E) team_request_topic \<le> acked (wd_bus w') (re_consumer_id E) team_request_topic"
    using ih run_acked by blast
  have "oc_request_message_id (xs ! i) = en_message_id ((m # ms) ! i) \<and>
       (oc_acknowledged (xs ! i) \<longrightarrow> en_sequence ((m # ms) ! i) \<le> acked (wd_bus w') (re_consumer_id E) team_request_topic)"
    if "i < length (m # ms)" for i
  proof (cases i)
    case 0
    then show ?thesis using o(1) mono by (auto simp: outcome_ok_def ys(2))
  next
    case (Suc k)
    then show ?thesis using ih that by (simp add: ys(2))
  qed
  then show ?case using ih run1 ys(2) by auto
qed

lemma pullD:
  assumes "bus_inv s" "pull s c t n = Inr ms"
  shows "ms = map the_envelope (take (nat n) (pending c t s))"
proof -
  have "ident_ok c" "topic_ok t" "1 \<le> n" "n \<le> 1000"
    using assms(2) by (auto simp: pull_def split: sum.splits if_splits)
  from pull_total [OF assms(1) this] assms(2) show ?thesis by simp
qed

text \<open>
  The cursor of the bus is cumulative, so a pull of several requests can lose one: when a request of
  the pull ends unacknowledged (its attempt failed and is to be retried, or its outbox could not be
  flushed) and a later request of the same pull is acknowledged, then no pull of the consumer ever
  returns the earlier request again, whatever happens on the bus afterwards: it is neither retried nor
  dead-lettered. \<open>team_execute\<close> pulls up to 50 requests.
\<close>

theorem unacknowledged_request_lost:
  assumes "runtime_ok E" "team_reach E w" "run_once E limit w = Ran w' xs"
    "i < j" "j < length xs" "\<not> oc_acknowledged (xs ! i)" "oc_acknowledged (xs ! j)"
    "bus_run (re_config E) (re_encode E) (re_sha E) (wd_bus w') b" "pull b (re_consumer_id E) team_request_topic limit' = Inr later"
  shows "oc_request_message_id (xs ! i) \<notin> en_message_id ` set later"
proof -
  let ?c = "re_consumer_id E" and ?t = team_request_topic
  obtain ms where ms: "pull (wd_bus w) ?c ?t limit = Inr ms" "process_all E ms w = Ran w' xs"
    using assms(3) by (auto simp: run_once_def split: sum.splits)
  have inv: "bus_inv (wd_bus w)" by (rule team_reach_inv [OF assms(1,2)])
  note rows = pullD [OF inv ms(1)]
  note p = process_all_outcomes [OF assms(1,2) ms(2)]
  have run: "bus_run (re_config E) (re_encode E) (re_sha E) (wd_bus w) b" using p assms(8) by (meson rtranclp_trans)
  have invb: "bus_inv b" using run inv bus_log.inv_steps by blast
  let ?rows = "take (nat limit) (pending ?c ?t (wd_bus w))"
  have len: "length ?rows = length xs" using p rows by simp
  have okr: "message_ok (?rows ! k)" "?rows ! k \<in> set (bus_messages (wd_bus w))" if "k < length xs" for k
  proof -
    have "?rows ! k \<in> set (pending ?c ?t (wd_bus w))" using that len by (metis in_set_takeD nth_mem)
    then show "?rows ! k \<in> set (bus_messages (wd_bus w))" by (simp add: pending_def)
    then show "message_ok (?rows ! k)" by (rule bus_invD(1) [OF inv])
  qed
  have f: "en_message_id (ms ! k) = ms_message_id (?rows ! k)" "en_sequence (ms ! k) = ms_sequence (?rows ! k)" if "k < length xs" for k
    using the_envelope_fields [OF okr(1) [OF that]] that len by (simp_all add: rows)
  have lt: "ms_sequence (?rows ! i) < ms_sequence (?rows ! j)"
    using pending_increasing [OF inv, of ?c ?t] assms(4,5) len
    by (simp add: sorted_wrt_iff_nth_less)
  have "ms_sequence (?rows ! j) \<le> acked (wd_bus w') ?c ?t" using p assms(5,7) f(2) [of j] by auto
  also have "\<dots> \<le> acked b ?c ?t" by (rule run_acked [OF assms(8)])
  finally have ack: "ms_sequence (?rows ! i) < acked b ?c ?t" using lt by simp
  have id: "oc_request_message_id (xs ! i) = ms_message_id (?rows ! i)" using p assms(4,5) f(1) [of i] by auto
  have inb: "?rows ! i \<in> set (bus_messages b)" using okr(2) [of i] assms(4,5) set_mono_prefix [OF run_messages [OF run]] by auto
  show ?thesis
  proof
    assume "oc_request_message_id (xs ! i) \<in> en_message_id ` set later"
    then obtain q where q: "q \<in> set (pending ?c ?t b)" "en_message_id (the_envelope q) = ms_message_id (?rows ! i)"
      using pullD [OF invb assms(9)] id by (auto dest: in_set_takeD)
    have mq: "q \<in> set (bus_messages b)" "acked b ?c ?t < ms_sequence q" using q(1) by (simp_all add: pending_def)
    have "ms_message_id q = ms_message_id (?rows ! i)"
      using q(2) the_envelope_fields(1) [OF bus_invD(1) [OF invb mq(1)]] by simp
    then have "q = ?rows ! i" by (rule distinct_map_eqD [OF bus_invD(2) [OF invb] mq(1) inb])
    with mq(2) ack show False by simp
  qed
qed

theorem unacknowledged_request_lost_witness:
  "\<exists>w' xs later. run_once demo_runtime 50 demo_world = Ran w' xs \<and> map oc_terminal xs = [False, True] \<and>
     pull (wd_bus w') ''team'' team_request_topic 50 = Inr later \<and> oc_request_message_id (xs ! 0) \<notin> en_message_id ` set later"
proof -
  have "case run_once demo_runtime 50 demo_world of
      Ran w' xs \<Rightarrow> map oc_acknowledged xs = [False, True] \<and> map oc_terminal xs = [False, True] \<and>
        (case pull (wd_bus w') ''team'' team_request_topic 50 of Inr later \<Rightarrow> True | _ \<Rightarrow> False)
    | _ \<Rightarrow> False" by code_simp
  then obtain w' xs later where r: "run_once demo_runtime 50 demo_world = Ran w' xs" "map oc_acknowledged xs = [False, True]"
    "map oc_terminal xs = [False, True]" "pull (wd_bus w') ''team'' team_request_topic 50 = Inr later"
    by (auto split: ran.splits sum.splits)
  have l: "1 < length xs" "\<not> oc_acknowledged (xs ! 0)" "oc_acknowledged (xs ! 1)" using r(2) by auto
  have "pull (wd_bus w') (re_consumer_id demo_runtime) team_request_topic 50 = Inr later" using r(4) by (simp add: demo_runtime_def)
  from unacknowledged_request_lost [OF demo_runtime_ok demo_reach r(1) _ l rtranclp.rtrancl_refl this]
  have "oc_request_message_id (xs ! 0) \<notin> en_message_id ` set later" by simp
  with r(1,3,4) show ?thesis by (intro exI [of _ w'] exI [of _ xs] exI [of _ later]) simp
qed

end
