(* ===== verification/Team_Coordinator.thy ===== *)
theory Team_Coordinator
  imports Team_Dag Team_Permissions Team_Lease
begin

text \<open>
  \<open>multiagent/coordinator.py\<close> with the events of \<open>multiagent/events.py\<close>: the team state and its budget
  counters, the scheduling round with its worker threads, and the sequential path. The scheduler polls;
  what one turn of its loop finds (the clock against the deadline, the cancellation requests, the
  results in the queue, what joining a thread gives, the events the workers emitted meanwhile) is an
  input of the turn, so that any interleaving of the threads is a list of inputs.
\<close>

section \<open>Results, budget and team state\<close>

datatype worker_status = WorkerCompleted | WorkerFailed | WorkerBlocked | WorkerCancelled

fun worker_status_value :: "worker_status \<Rightarrow> string" where
  "worker_status_value WorkerCompleted = ''completed''"
| "worker_status_value WorkerFailed = ''failed''"
| "worker_status_value WorkerBlocked = ''blocked''"
| "worker_status_value WorkerCancelled = ''cancelled''"

text \<open>The fields of a worker result the coordinator and the reviewer read; of the verification its status and summary.\<close>

record work_result =
  wk_task_id :: string
  wk_status :: worker_status
  wk_summary :: string
  wk_verification :: "(string \<times> string) option"
  wk_step_count :: int
  wk_model_call_count :: int
  wk_tool_call_count :: int

definition plain_result :: "string \<Rightarrow> worker_status \<Rightarrow> string \<Rightarrow> work_result" where
  "plain_result task_id status summary = \<lparr>wk_task_id = task_id, wk_status = status, wk_summary = summary,
     wk_verification = None, wk_step_count = 0, wk_model_call_count = 0, wk_tool_call_count = 0\<rparr>"

record team_budget =
  bg_max_agents :: int
  bg_max_total_steps :: int
  bg_max_total_model_calls :: int
  bg_max_wall_time_seconds :: int
  bg_max_fix_rounds :: int

datatype team_stop = StopCompleted | StopAllTasksCompleted | StopBlocked | StopBudgetExhausted | StopTimeout
  | StopCancelled | StopReflectionLimit | StopUnknownOutcome | StopInternalError

fun stop_value :: "team_stop \<Rightarrow> string" where
  "stop_value StopCompleted = ''completed''"
| "stop_value StopAllTasksCompleted = ''all_tasks_completed''"
| "stop_value StopBlocked = ''blocked''"
| "stop_value StopBudgetExhausted = ''budget_exhausted''"
| "stop_value StopTimeout = ''timeout''"
| "stop_value StopCancelled = ''cancelled''"
| "stop_value StopReflectionLimit = ''reflection_limit''"
| "stop_value StopUnknownOutcome = ''unknown_outcome''"
| "stop_value StopInternalError = ''internal_error''"

text \<open>\<open>str\<close> of a member of the enumeration: the class and the name of the member.\<close>

fun stop_text :: "team_stop \<Rightarrow> string" where
  "stop_text StopCompleted = ''TeamStopReason.COMPLETED''"
| "stop_text StopAllTasksCompleted = ''TeamStopReason.ALL_TASKS_COMPLETED''"
| "stop_text StopBlocked = ''TeamStopReason.BLOCKED''"
| "stop_text StopBudgetExhausted = ''TeamStopReason.BUDGET_EXHAUSTED''"
| "stop_text StopTimeout = ''TeamStopReason.TIMEOUT''"
| "stop_text StopCancelled = ''TeamStopReason.CANCELLED''"
| "stop_text StopReflectionLimit = ''TeamStopReason.REFLECTION_LIMIT''"
| "stop_text StopUnknownOutcome = ''TeamStopReason.UNKNOWN_OUTCOME''"
| "stop_text StopInternalError = ''TeamStopReason.INTERNAL_ERROR''"

record team_event =
  ev_sequence :: nat
  ev_type :: string
  ev_agent_id :: string
  ev_task_id :: string
  ev_payload :: "(pval \<times> pval) list"

record team_state =
  tm_event_sequence :: nat
  tm_trace_events :: "team_event list"
  tm_total_steps :: int
  tm_total_model_calls :: int
  tm_total_tool_calls :: int
  tm_reserved_steps :: int
  tm_reserved_model_calls :: int
  tm_fix_round_count :: int

definition initial_team_state :: team_state where
  "initial_team_state = \<lparr>tm_event_sequence = 0, tm_trace_events = [], tm_total_steps = 0, tm_total_model_calls = 0,
     tm_total_tool_calls = 0, tm_reserved_steps = 0, tm_reserved_model_calls = 0, tm_fix_round_count = 0\<rparr>"

text \<open>Event ids, run ids and times of the envelope are left out; the handler only observes.\<close>

definition emit_team_event :: "string \<Rightarrow> string \<Rightarrow> string \<Rightarrow> (pval \<times> pval) list \<Rightarrow> team_state \<Rightarrow> team_state" where
  "emit_team_event event_type agent_id task_id payload tm =
     (let n = Suc (tm_event_sequence tm) in
      tm\<lparr>tm_event_sequence := n, tm_trace_events := tm_trace_events tm @
        [\<lparr>ev_sequence = n, ev_type = event_type, ev_agent_id = agent_id, ev_task_id = task_id, ev_payload = payload\<rparr>]\<rparr>)"

definition root_event :: "string \<Rightarrow> (string \<times> pval) list \<Rightarrow> team_state \<Rightarrow> team_state" where
  "root_event event_type payload = emit_team_event event_type ''coordinator'' ''root'' (map (\<lambda>(k, v). (PStr k, v)) payload)"

type_synonym emitted = "string \<times> string \<times> string \<times> (pval \<times> pval) list"

definition emit_all :: "emitted list \<Rightarrow> team_state \<Rightarrow> team_state" where
  "emit_all es tm = fold (\<lambda>(ty, agent, task, payload). emit_team_event ty agent task payload) es tm"

section \<open>Budget\<close>

record coordinator =
  co_budget :: team_budget
  co_verification_gate :: bool

definition team_steps_exhausted :: "coordinator \<Rightarrow> team_state \<Rightarrow> bool" where
  "team_steps_exhausted C tm = (bg_max_total_steps (co_budget C) \<le> tm_total_steps tm)"

definition team_model_calls_exhausted :: "coordinator \<Rightarrow> team_state \<Rightarrow> bool" where
  "team_model_calls_exhausted C tm = (bg_max_total_model_calls (co_budget C) \<le> tm_total_model_calls tm)"

definition cap_task :: "coordinator \<Rightarrow> team_state \<Rightarrow> agent_task \<Rightarrow> agent_task" where
  "cap_task C tm task =
    (let remaining = max 0 (bg_max_total_steps (co_budget C) - tm_total_steps tm) in
     if remaining < ag_max_steps task then task\<lparr>ag_max_steps := max 1 remaining\<rparr> else task)"

definition reflection_reserve :: int where
  "reflection_reserve = 2"

definition model_call_upper_bound :: "coordinator \<Rightarrow> agent_task \<Rightarrow> int" where
  "model_call_upper_bound C task = ag_max_steps task + (if co_verification_gate C then reflection_reserve else 0)"

definition accumulate_counters :: "work_result \<Rightarrow> team_state \<Rightarrow> team_state" where
  "accumulate_counters r tm = tm\<lparr>tm_total_steps := tm_total_steps tm + wk_step_count r,
     tm_total_model_calls := tm_total_model_calls tm + wk_model_call_count r,
     tm_total_tool_calls := tm_total_tool_calls tm + wk_tool_call_count r\<rparr>"

definition steps_event :: "coordinator \<Rightarrow> team_state \<Rightarrow> team_state" where
  "steps_event C tm = root_event ''team.budget_exhausted'' [(''reason'', PStr ''max_total_steps''),
     (''limit'', PInt (bg_max_total_steps (co_budget C))), (''consumed'', PInt (tm_total_steps tm))] tm"

definition model_calls_event :: "coordinator \<Rightarrow> team_state \<Rightarrow> team_state" where
  "model_calls_event C tm = root_event ''team.budget_exhausted'' [(''reason'', PStr ''max_total_model_calls''),
     (''limit'', PInt (bg_max_total_model_calls (co_budget C))), (''consumed'', PInt (tm_total_model_calls tm))] tm"

definition wall_time_event :: "coordinator \<Rightarrow> team_state \<Rightarrow> team_state" where
  "wall_time_event C = root_event ''team.budget_exhausted'' [(''reason'', PStr ''wall_time''),
     (''limit'', PInt (bg_max_wall_time_seconds (co_budget C)))]"

section \<open>Cancellation\<close>

type_synonym statuses = "(string \<times> team_status) list"

text \<open>
  \<open>_cascade_cancel\<close>: the stack of ids, its top first. A dependent that is pending is cancelled and
  pushed, so the number of pending tasks bounds the loop.
\<close>

definition dependents_of :: "agent_task list \<Rightarrow> dependents" where
  "dependents_of tasks = fold (\<lambda>t g. fold (\<lambda>dep g. if dep \<in> fst ` set g then adjust dep (\<lambda>xs. xs @ [ag_task_id t]) g else g)
     (ag_dependencies t) g) tasks (fold (\<lambda>t. dict_set (ag_task_id t) []) tasks [])"

definition cancel_dependent :: "string \<Rightarrow> string list \<times> statuses \<times> string set \<Rightarrow> string list \<times> statuses \<times> string set" where
  "cancel_dependent d s = (case s of (stack, statuses, cancelled) \<Rightarrow>
     if map_of statuses d = Some TeamPending
     then (d # stack, dict_set d TeamCancelled statuses, insert d cancelled) else s)"

definition pending_count :: "statuses \<Rightarrow> nat" where
  "pending_count statuses = length (filter (\<lambda>kv. snd kv = TeamPending) statuses)"

lemma pending_count_cancel:
  "map_of statuses d = Some TeamPending \<Longrightarrow> Suc (pending_count (dict_set d TeamCancelled statuses)) = pending_count statuses"
  by (induction statuses) (auto simp: pending_count_def split: if_splits)

lemma cancel_fold_measure:
  "length (fst (fold cancel_dependent ds s)) + pending_count (fst (snd (fold cancel_dependent ds s)))
     \<le> length (fst s) + pending_count (fst (snd s))"
proof (induction ds arbitrary: s)
  case Nil
  show ?case by simp
next
  case (Cons d ds)
  have "length (fst (cancel_dependent d s)) + pending_count (fst (snd (cancel_dependent d s)))
     \<le> length (fst s) + pending_count (fst (snd s))"
    using pending_count_cancel [of "fst (snd s)" d] by (auto simp: cancel_dependent_def split: prod.splits)
  with Cons [of "cancel_dependent d s"] show ?case by simp
qed

function cascade :: "dependents \<Rightarrow> string list \<Rightarrow> statuses \<Rightarrow> string set \<Rightarrow> statuses \<times> string set" where
  "cascade g [] statuses cancelled = (statuses, cancelled)"
| "cascade g (current # stack) statuses cancelled =
    (let s = fold cancel_dependent (lookup_list g current) (stack, statuses, cancelled) in
     cascade g (fst s) (fst (snd s)) (snd (snd s)))"
  by pat_completeness auto
termination
proof (relation "measure (\<lambda>(g, stack, statuses, cancelled). length stack + pending_count statuses)", goal_cases)
  case (2 g current stack statuses cancelled s)
  then show ?case using cancel_fold_measure [of "lookup_list g current" "(stack, statuses, cancelled)"] by (auto split: prod.splits)
qed simp

definition cascade_cancel :: "string \<Rightarrow> agent_task list \<Rightarrow> statuses \<Rightarrow> string set \<Rightarrow> statuses \<times> string set" where
  "cascade_cancel task_id tasks statuses cancelled = cascade (dependents_of tasks) [task_id] statuses cancelled"

text \<open>\<open>cancel\<close>, the request from outside: the ids to add to the cancelled set of the run.\<close>

definition initial_statuses :: "agent_task list \<Rightarrow> statuses" where
  "initial_statuses tasks = fold (\<lambda>t. dict_set (ag_task_id t) TeamPending) tasks []"

definition cancel_requested :: "string \<Rightarrow> agent_task list \<Rightarrow> string set \<times> team_state \<Rightarrow> string set \<times> team_state" where
  "cancel_requested task_id tasks s =
    (fst s \<union> snd (cascade_cancel task_id tasks (dict_set task_id TeamCancelled (initial_statuses tasks)) {task_id}),
     emit_team_event ''cancel.requested'' ''coordinator'' task_id [(PStr ''reason'', PStr ''parent task cancelled'')] (snd s))"

section \<open>The scheduling round\<close>

text \<open>
  What a turn of the loop finds: the events of the workers since the last turn, whether the deadline has
  passed, the cancelled ids when it looks at the pending and then at the active tasks, what joining the
  cancelled active threads that are alive shows, and the results taken from the queue.
\<close>

record thread =
  th_agent_id :: string
  th_task :: agent_task
  th_result :: work_result

record round =
  rd_team :: team_state
  rd_results :: "(string \<times> work_result) list"
  rd_statuses :: statuses
  rd_failed :: "string set"
  rd_cancelled :: "string set"
  rd_active :: "(string \<times> thread) list"
  rd_task_steps :: "(string \<times> int) list"
  rd_task_calls :: "(string \<times> int) list"

text \<open>
  What joining a thread for a while shows: still running, or ended with the result it has then (the
  worker's own, assigned last; \<open>None\<close> when it is the one the coordinator assigned).
\<close>

datatype joined = StillRunning | Ended "work_result option"

record turn =
  tk_events :: "emitted list"
  tk_deadline :: bool
  tk_cancelled :: "string set"
  tk_cancelled_then :: "string set"
  tk_joins :: "(string \<times> joined) list"
  tk_finished :: "(string \<times> work_result) list"

record ending =
  en_joins :: "(string \<times> joined \<times> joined) list"

definition start_round :: "agent_task list \<Rightarrow> team_state \<Rightarrow> round" where
  "start_round tasks tm = \<lparr>rd_team = tm, rd_results = [], rd_statuses = initial_statuses tasks, rd_failed = {},
     rd_cancelled = {}, rd_active = [], rd_task_steps = [], rd_task_calls = []\<rparr>"

text \<open>\<open>_cancel_active_worker\<close> once the thread has been joined; \<open>Worker.cancel\<close> emits the first event.\<close>

definition cancel_active_worker :: "string \<Rightarrow> thread \<Rightarrow> joined \<Rightarrow> team_state \<Rightarrow> work_result \<times> team_state" where
  "cancel_active_worker task_id th j tm =
    (let tm1 = emit_team_event ''task.blocked'' (th_agent_id th) (ag_task_id (th_task th)) [(PStr ''reason'', PStr ''cancelled'')] tm in
     case j of
       StillRunning \<Rightarrow>
         (plain_result task_id WorkerCancelled
            ''unknown_outcome: worker thread did not terminate within timeout; leases remain held'',
          emit_team_event ''worker.cancel_failed'' (th_agent_id th) task_id
            [(PStr ''reason'', PStr ''thread did not terminate after cooperative cancel and process kill'')] tm1)
     | Ended own \<Rightarrow>
         (let r = (case own of None \<Rightarrow> th_result th | Some r \<Rightarrow> r) in
          (if wk_status r = WorkerCompleted then r else plain_result task_id WorkerCancelled ''cancelled by coordinator'', tm1)))"

definition check_budget :: "coordinator \<Rightarrow> bool \<Rightarrow> team_state \<Rightarrow> bool \<times> team_state" where
  "check_budget C deadline tm =
    (if deadline then (True, tm)
     else if team_steps_exhausted C tm then (True, steps_event C tm)
     else if team_model_calls_exhausted C tm then (True, model_calls_event C tm)
     else (False, tm))"

text \<open>The two loops that apply the cancellation requests.\<close>

definition cancel_pending :: "string set \<Rightarrow> agent_task \<Rightarrow> round \<Rightarrow> round" where
  "cancel_pending ids task st =
    (if map_of (rd_statuses st) (ag_task_id task) = Some TeamPending \<and> ag_task_id task \<in> ids
     then st\<lparr>rd_statuses := dict_set (ag_task_id task) TeamCancelled (rd_statuses st),
             rd_cancelled := insert (ag_task_id task) (rd_cancelled st)\<rparr>
     else st)"

definition cancel_active :: "turn \<Rightarrow> string \<times> thread \<Rightarrow> round \<Rightarrow> round" where
  "cancel_active t kv st =
    (case map_of (tk_joins t) (fst kv) of
       Some j \<Rightarrow> if fst kv \<in> tk_cancelled_then t
         then (let (r, tm) = cancel_active_worker (fst kv) (snd kv) j (rd_team st) in
               st\<lparr>rd_team := tm, rd_active := adjust (fst kv) (\<lambda>th. th\<lparr>th_result := r\<rparr>) (rd_active st)\<rparr>)
         else st
     | None \<Rightarrow> st)"

definition apply_cancellations :: "agent_task list \<Rightarrow> turn \<Rightarrow> round \<Rightarrow> round" where
  "apply_cancellations tasks t st =
    (let st1 = fold (cancel_pending (tk_cancelled t)) tasks st in fold (cancel_active t) (rd_active st1) st1)"

definition dependency_satisfied :: "string set \<Rightarrow> round \<Rightarrow> string \<Rightarrow> bool" where
  "dependency_satisfied completed_ids st task_id =
    (task_id \<in> completed_ids \<or> map_of (rd_statuses st) task_id = Some TeamCompleted)"

definition worker_name :: "nat \<Rightarrow> string" where
  "worker_name n = ''worker-'' @ int_text (int n)"

definition start_worker :: "coordinator \<Rightarrow> agent_task \<Rightarrow> round \<Rightarrow> round" where
  "start_worker C capped st =
    (let i = ag_task_id capped; bound = model_call_upper_bound C capped; tm = rd_team st in
     st\<lparr>rd_statuses := dict_set i TeamRunning (rd_statuses st),
        rd_team := tm\<lparr>tm_reserved_steps := tm_reserved_steps tm + ag_max_steps capped,
                      tm_reserved_model_calls := tm_reserved_model_calls tm + bound\<rparr>,
        rd_task_steps := dict_set i (ag_max_steps capped) (rd_task_steps st),
        rd_task_calls := dict_set i bound (rd_task_calls st),
        rd_active := dict_set i
          \<lparr>th_agent_id = worker_name (length (rd_active st)), th_task = capped,
           th_result = plain_result i WorkerCancelled ''thread did not produce result''\<rparr> (rd_active st)\<rparr>)"

definition schedule_task :: "coordinator \<Rightarrow> string set \<Rightarrow> agent_task \<Rightarrow> round \<Rightarrow> round" where
  "schedule_task C completed_ids task st =
    (if map_of (rd_statuses st) (ag_task_id task) \<noteq> Some TeamPending then st
     else if \<not> list_all (dependency_satisfied completed_ids st) (ag_dependencies task) then st
     else if bg_max_agents (co_budget C) \<le> int (length (rd_active st)) then st
     else
       (let capped = cap_task C (rd_team st) task; tm = rd_team st;
            projected_steps = tm_total_steps tm + tm_reserved_steps tm + ag_max_steps capped;
            projected_model_calls = tm_total_model_calls tm + tm_reserved_model_calls tm + model_call_upper_bound C capped in
        if bg_max_total_steps (co_budget C) < projected_steps \<or> bg_max_total_model_calls (co_budget C) < projected_model_calls
        then st\<lparr>rd_statuses := dict_set (ag_task_id task) TeamCancelled (rd_statuses st),
                rd_cancelled := insert (ag_task_id task) (rd_cancelled st)\<rparr>
        else start_worker C capped st))"

text \<open>\<open>dict.pop(task_id, 0)\<close> of a reservation, subtracted from the reserved total.\<close>

definition popped :: "string \<Rightarrow> (string \<times> int) list \<Rightarrow> int" where
  "popped i kvs = (case map_of kvs i of None \<Rightarrow> 0 | Some n \<Rightarrow> n)"

definition release_reservation :: "string \<Rightarrow> round \<Rightarrow> round" where
  "release_reservation i st =
    (let tm = rd_team st in
     st\<lparr>rd_team := tm\<lparr>tm_reserved_steps := tm_reserved_steps tm - popped i (rd_task_steps st),
                      tm_reserved_model_calls := tm_reserved_model_calls tm - popped i (rd_task_calls st)\<rparr>,
        rd_task_steps := dict_del i (rd_task_steps st), rd_task_calls := dict_del i (rd_task_calls st)\<rparr>)"

definition record_result :: "string \<Rightarrow> work_result \<Rightarrow> round \<Rightarrow> round" where
  "record_result i r st =
    (let st1 = release_reservation i (st\<lparr>rd_results := dict_set i r (rd_results st)\<rparr>) in
     st1\<lparr>rd_team := accumulate_counters r (rd_team st1)\<rparr>)"

definition block_dependent :: "string \<Rightarrow> agent_task \<Rightarrow> statuses \<Rightarrow> statuses" where
  "block_dependent i task statuses =
    (if i \<in> set (ag_dependencies task) \<and> map_of statuses (ag_task_id task) = Some TeamPending
     then dict_set (ag_task_id task) TeamBlocked statuses else statuses)"

definition collect :: "agent_task list \<Rightarrow> string \<times> work_result \<Rightarrow> round \<Rightarrow> round" where
  "collect tasks f st =
    (let i = fst f; r = snd f;
         st1 = record_result i r (st\<lparr>rd_active := dict_del i (rd_active st)\<rparr>) in
     case wk_status r of
       WorkerCompleted \<Rightarrow> st1\<lparr>rd_statuses := dict_set i TeamCompleted (rd_statuses st1)\<rparr>
     | WorkerCancelled \<Rightarrow>
         (let (statuses, cancelled) = cascade_cancel i tasks (dict_set i TeamCancelled (rd_statuses st1)) (insert i (rd_cancelled st1)) in
          st1\<lparr>rd_statuses := statuses, rd_cancelled := cancelled\<rparr>)
     | _ \<Rightarrow> st1\<lparr>rd_failed := insert i (rd_failed st1),
               rd_statuses := fold (block_dependent i) tasks (dict_set i TeamFailed (rd_statuses st1))\<rparr>)"

definition settled :: "team_status \<Rightarrow> bool" where
  "settled s = (s \<in> {TeamCompleted, TeamFailed, TeamBlocked, TeamCancelled})"

definition round_stop :: "round \<Rightarrow> team_stop option" where
  "round_stop st =
    (if list_all (\<lambda>kv. settled (snd kv)) (rd_statuses st)
     then Some (if rd_failed st \<noteq> {} \<or> rd_cancelled st \<noteq> {} then StopBlocked else StopAllTasksCompleted)
     else if rd_active st = [] \<and> list_ex (\<lambda>kv. snd kv = TeamPending) (rd_statuses st) then Some StopBlocked
     else None)"

text \<open>One turn of the loop; the second component is the reason to leave it.\<close>

definition scheduled :: "coordinator \<Rightarrow> agent_task list \<Rightarrow> string set \<Rightarrow> turn \<Rightarrow> round \<Rightarrow> round" where
  "scheduled C tasks completed_ids t st =
     fold (schedule_task C completed_ids) tasks (apply_cancellations tasks t st)"

definition round_turn :: "coordinator \<Rightarrow> agent_task list \<Rightarrow> string set \<Rightarrow> turn \<Rightarrow> round \<Rightarrow> round \<times> team_stop option" where
  "round_turn C tasks completed_ids t st =
    (let (stop, tm) = check_budget C (tk_deadline t) (emit_all (tk_events t) (rd_team st));
         st1 = st\<lparr>rd_team := tm\<rparr> in
     if stop then (st1, Some StopBudgetExhausted)
     else (let st2 = fold (collect tasks) (tk_finished t) (scheduled C tasks completed_ids t st1) in (st2, round_stop st2)))"

fun round_loop :: "coordinator \<Rightarrow> agent_task list \<Rightarrow> string set \<Rightarrow> turn list \<Rightarrow> round \<Rightarrow> round \<times> team_stop option" where
  "round_loop C tasks completed_ids [] st = (st, None)"
| "round_loop C tasks completed_ids (t # ts) st =
    (case round_turn C tasks completed_ids t st of
       (st', Some stop) \<Rightarrow> (st', Some stop)
     | (st', None) \<Rightarrow> round_loop C tasks completed_ids ts st')"

section \<open>The end of a round\<close>

definition straggler :: "ending \<Rightarrow> string \<times> thread \<Rightarrow> round \<Rightarrow> round" where
  "straggler en kv st =
    (let i = fst kv; th = snd kv;
         (j, j') = (case map_of (en_joins en) i of Some js \<Rightarrow> js | None \<Rightarrow> (StillRunning, StillRunning));
         (r, tm) = (case j of StillRunning \<Rightarrow> cancel_active_worker i th j' (rd_team st)
                    | Ended own \<Rightarrow> (case own of None \<Rightarrow> th_result th | Some r \<Rightarrow> r, rd_team st));
         st1 = record_result i r (st\<lparr>rd_team := tm\<rparr>) in
     st1\<lparr>rd_statuses := dict_set i TeamCancelled (rd_statuses st1)\<rparr>)"

definition mark_unstarted :: "team_stop \<Rightarrow> agent_task \<Rightarrow> statuses \<Rightarrow> statuses" where
  "mark_unstarted stop task statuses =
    (if map_of statuses (ag_task_id task) = Some TeamPending
     then dict_set (ag_task_id task)
       (if stop = StopBudgetExhausted then TeamCancelled else if stop = StopCancelled then TeamCancelled else TeamBlocked) statuses
     else statuses)"

definition fill_result :: "statuses \<Rightarrow> agent_task \<Rightarrow> (string \<times> work_result) list \<Rightarrow> (string \<times> work_result) list" where
  "fill_result statuses task results =
    (if map_of statuses (ag_task_id task) = Some TeamCancelled \<and> map_of results (ag_task_id task) = None
     then dict_set (ag_task_id task) (plain_result (ag_task_id task) WorkerCancelled ''cancelled before execution'') results
     else results)"

definition finish_round :: "agent_task list \<Rightarrow> ending \<Rightarrow> team_stop \<Rightarrow> round \<Rightarrow> round" where
  "finish_round tasks en stop st =
    (let st1 = fold (straggler en) (rd_active st) st;
         statuses = fold (mark_unstarted stop) tasks (rd_statuses st1) in
     st1\<lparr>rd_statuses := statuses, rd_results := fold (fill_result statuses) tasks (rd_results st1)\<rparr>)"

text \<open>\<open>None\<close>: the loop is still running when the inputs end.\<close>

definition execute_task_round ::
  "coordinator \<Rightarrow> agent_task list \<Rightarrow> string set \<Rightarrow> turn list \<Rightarrow> ending \<Rightarrow> team_state \<Rightarrow> (round \<times> team_stop) option" where
  "execute_task_round C tasks completed_ids ts en tm =
    (case round_loop C tasks completed_ids ts (start_round tasks tm) of
       (st, None) \<Rightarrow> None
     | (st, Some stop) \<Rightarrow> Some (finish_round tasks en stop st, stop))"

end
