(* ===== verification/Team_Round_Inv.thy ===== *)
theory Team_Round_Inv
  imports Team_Coordinator Team_Dag_Graph
begin

text \<open>
  Invariants of the scheduling round: the books of the budget (what is reserved is what the active
  workers may still use, and with what is consumed it stays in the budget) and the flow of the task
  statuses (running exactly while active, started only behind completed dependencies).
\<close>

section \<open>The books\<close>

definition step_bound :: "thread \<Rightarrow> int" where
  "step_bound th = ag_max_steps (th_task th)"

definition call_bound :: "coordinator \<Rightarrow> thread \<Rightarrow> int" where
  "call_bound C th = model_call_upper_bound C (th_task th)"

text \<open>The contract of a worker: it uses no more steps and model calls than its task was given.\<close>

definition in_bounds :: "coordinator \<Rightarrow> thread \<Rightarrow> work_result \<Rightarrow> bool" where
  "in_bounds C th r \<longleftrightarrow> wk_step_count r \<le> step_bound th \<and> wk_model_call_count r \<le> call_bound C th"

definition affordable :: "coordinator \<Rightarrow> team_state \<Rightarrow> bool" where
  "affordable C tm \<longleftrightarrow>
     tm_total_steps tm + tm_reserved_steps tm \<le> bg_max_total_steps (co_budget C) \<and>
     tm_total_model_calls tm + tm_reserved_model_calls tm \<le> bg_max_total_model_calls (co_budget C)"

definition books :: "coordinator \<Rightarrow> (string \<times> thread) list \<Rightarrow> round \<Rightarrow> bool" where
  "books C act st \<longleftrightarrow> distinct (map fst act) \<and>
     rd_task_steps st = map (\<lambda>kv. (fst kv, step_bound (snd kv))) act \<and>
     rd_task_calls st = map (\<lambda>kv. (fst kv, call_bound C (snd kv))) act \<and>
     tm_reserved_steps (rd_team st) = sum_list (map (step_bound \<circ> snd) act) \<and>
     tm_reserved_model_calls (rd_team st) = sum_list (map (call_bound C \<circ> snd) act) \<and>
     affordable C (rd_team st) \<and>
     (\<forall>kv \<in> set act. 0 \<le> step_bound (snd kv) \<and> in_bounds C (snd kv) (th_result (snd kv)))"

lemma dict_del_map: "dict_del i (map (\<lambda>kv. (fst kv, f (snd kv))) kvs) = map (\<lambda>kv. (fst kv, f (snd kv))) (dict_del i kvs)"
  by (induction kvs) (auto simp: dict_del_def)

lemma distinct_dict_del: "distinct (map fst kvs) \<Longrightarrow> distinct (map fst (dict_del i kvs))"
  unfolding dict_del_def by (rule distinct_map_fst_filter)

lemma sum_dict_del:
  fixes f :: "'v \<Rightarrow> int"
  assumes "distinct (map fst kvs)" "map_of kvs i = Some v"
  shows "sum_list (map (f \<circ> snd) (dict_del i kvs)) = sum_list (map (f \<circ> snd) kvs) - f v"
  using assms
proof (induction kvs)
  case Nil
  then show ?case by simp
next
  case (Cons kv kvs)
  show ?case
  proof (cases "fst kv = i")
    case True
    with Cons.prems have "\<forall>x \<in> set kvs. fst x \<noteq> i" by (auto simp: image_iff)
    then have "dict_del i kvs = kvs" by (simp add: dict_del_def)
    with True Cons.prems show ?thesis by (simp add: dict_del_def)
  next
    case False
    with Cons show ?thesis by (auto simp: dict_del_def)
  qed
qed

lemma popped_map: "map_of act i = Some th \<Longrightarrow> popped i (map (\<lambda>kv. (fst kv, f (snd kv))) act) = f th"
  by (induction act) (auto simp: popped_def)

lemma rd_team_record_result:
  "rd_team (record_result i r st) = accumulate_counters r ((rd_team st)
     \<lparr>tm_reserved_steps := tm_reserved_steps (rd_team st) - popped i (rd_task_steps st),
      tm_reserved_model_calls := tm_reserved_model_calls (rd_team st) - popped i (rd_task_calls st)\<rparr>)"
  by (simp add: record_result_def release_reservation_def Let_def)

lemma record_result_fields [simp]:
  "rd_results (record_result i r st) = dict_set i r (rd_results st)"
  "rd_statuses (record_result i r st) = rd_statuses st"
  "rd_failed (record_result i r st) = rd_failed st"
  "rd_cancelled (record_result i r st) = rd_cancelled st"
  "rd_active (record_result i r st) = rd_active st"
  "rd_task_steps (record_result i r st) = dict_del i (rd_task_steps st)"
  "rd_task_calls (record_result i r st) = dict_del i (rd_task_calls st)"
  by (simp_all add: record_result_def release_reservation_def Let_def)

text \<open>A result replaces the reservation of its worker by what it really used.\<close>

lemma books_record_result:
  assumes "books C act st" "map_of act i = Some th" "in_bounds C th r"
  shows "books C (dict_del i act) (record_result i r st)"
proof -
  note b = assms(1) [unfolded books_def]
  have d: "distinct (map fst act)" using b by blast
  have sub: "set (dict_del i act) \<subseteq> set act" by (auto simp: dict_del_def)
  then have own: "\<forall>kv \<in> set (dict_del i act). 0 \<le> step_bound (snd kv) \<and> in_bounds C (snd kv) (th_result (snd kv))" using b by blast
  show ?thesis
    unfolding books_def rd_team_record_result
    using b assms(3) distinct_dict_del [OF d, of i] own
    by (simp add: popped_map [OF assms(2)] accumulate_counters_def affordable_def in_bounds_def dict_del_map
        sum_dict_del [OF d assms(2)])
qed

text \<open>Starting a worker reserves its bounds; the projection has been checked against the budget.\<close>

lemma books_start_worker:
  assumes "books C (rd_active st) st" "ag_task_id task \<notin> fst ` set (rd_active st)" "0 \<le> ag_max_steps task"
    "tm_total_steps (rd_team st) + tm_reserved_steps (rd_team st) + ag_max_steps task \<le> bg_max_total_steps (co_budget C)"
    "tm_total_model_calls (rd_team st) + tm_reserved_model_calls (rd_team st) + model_call_upper_bound C task
       \<le> bg_max_total_model_calls (co_budget C)"
  shows "books C (rd_active (start_worker C task st)) (start_worker C task st)"
proof -
  note b = assms(1) [unfolded books_def]
  let ?th = "\<lparr>th_agent_id = worker_name (length (rd_active st)), th_task = task,
     th_result = plain_result (ag_task_id task) WorkerCancelled ''thread did not produce result''\<rparr>"
  have a: "rd_active (start_worker C task st) = rd_active st @ [(ag_task_id task, ?th)]"
    using dict_set_new [OF assms(2), of ?th] by (simp add: start_worker_def Let_def)
  have k: "ag_task_id task \<notin> fst ` set (rd_task_steps st)" "ag_task_id task \<notin> fst ` set (rd_task_calls st)"
    using b assms(2) by (simp_all add: image_image)
  have m: "0 \<le> model_call_upper_bound C task" using assms(3) by (simp add: model_call_upper_bound_def reflection_reserve_def)
  show ?thesis
    unfolding books_def a using b assms(2-5) m dict_set_new [OF k(1)] dict_set_new [OF k(2)]
    by (auto simp: start_worker_def Let_def affordable_def step_bound_def call_bound_def in_bounds_def plain_result_def)
qed

lemma cap_task_fields [simp]:
  "ag_task_id (cap_task C tm task) = ag_task_id task" "ag_dependencies (cap_task C tm task) = ag_dependencies task"
  by (simp_all add: cap_task_def Let_def)

lemma cap_task_nonneg: "0 \<le> ag_max_steps task \<Longrightarrow> 0 \<le> ag_max_steps (cap_task C tm task)"
  by (simp add: cap_task_def Let_def le_max_iff_disj)

section \<open>The flow of the statuses\<close>

definition status :: "round \<Rightarrow> string \<Rightarrow> team_status option" where
  "status st i = map_of (rd_statuses st) i"

definition flow :: "coordinator \<Rightarrow> agent_task list \<Rightarrow> string set \<Rightarrow> round \<Rightarrow> bool" where
  "flow C tasks ids st \<longleftrightarrow>
     map fst (rd_statuses st) = map ag_task_id tasks \<and>
     (\<forall>i. status st i \<noteq> Some TeamReady) \<and>
     (\<forall>i. status st i = Some TeamRunning \<longleftrightarrow> i \<in> fst ` set (rd_active st)) \<and>
     (\<forall>t \<in> set tasks. status st (ag_task_id t) \<in> {Some TeamRunning, Some TeamCompleted} \<longrightarrow>
        list_all (dependency_satisfied ids st) (ag_dependencies t)) \<and>
     (\<forall>i. status st i = Some TeamFailed \<longleftrightarrow> i \<in> rd_failed st) \<and>
     (\<forall>i. status st i = Some TeamCancelled \<longleftrightarrow> i \<in> rd_cancelled st) \<and>
     (\<forall>i. status st i = Some TeamBlocked \<longrightarrow> rd_failed st \<noteq> {}) \<and>
     (\<forall>i. status st i = Some TeamCompleted \<longrightarrow> (\<exists>r. map_of (rd_results st) i = Some r \<and> wk_status r = WorkerCompleted)) \<and>
     int (length (rd_active st)) \<le> max 0 (bg_max_agents (co_budget C))"

lemma flowD:
  assumes "flow C tasks ids st"
  shows "map fst (rd_statuses st) = map ag_task_id tasks"
    and "status st i \<noteq> Some TeamReady"
    and "status st i = Some TeamRunning \<longleftrightarrow> i \<in> fst ` set (rd_active st)"
    and "t \<in> set tasks \<Longrightarrow> status st (ag_task_id t) = Some TeamRunning \<or> status st (ag_task_id t) = Some TeamCompleted \<Longrightarrow>
      list_all (dependency_satisfied ids st) (ag_dependencies t)"
    and "status st i = Some TeamFailed \<longleftrightarrow> i \<in> rd_failed st"
    and "status st i = Some TeamCancelled \<longleftrightarrow> i \<in> rd_cancelled st"
    and "status st i = Some TeamBlocked \<Longrightarrow> rd_failed st \<noteq> {}"
    and "status st i = Some TeamCompleted \<Longrightarrow> \<exists>r. map_of (rd_results st) i = Some r \<and> wk_status r = WorkerCompleted"
    and "int (length (rd_active st)) \<le> max 0 (bg_max_agents (co_budget C))"
  using assms unfolding flow_def by auto

lemma status_keys: "flow C tasks ids st \<Longrightarrow> (\<exists>s. status st i = Some s) \<longleftrightarrow> i \<in> ag_task_id ` set tasks"
  using flowD(1) [of C tasks ids st] unfolding status_def
  by (metis list.set_map map_of_eq_None_iff not_None_eq)

text \<open>
  A move of one task: its status changes from pending or running, and the sets, the active workers and
  the results follow.
\<close>

definition moved :: "string \<Rightarrow> team_status \<Rightarrow> round \<Rightarrow> round \<Rightarrow> bool" where
  "moved i s st st' \<longleftrightarrow>
     rd_statuses st' = dict_set i s (rd_statuses st) \<and>
     fst ` set (rd_active st') = (if s = TeamRunning then insert i (fst ` set (rd_active st)) else fst ` set (rd_active st) - {i}) \<and>
     rd_failed st' = (if s = TeamFailed then insert i (rd_failed st) else rd_failed st) \<and>
     rd_cancelled st' = (if s = TeamCancelled then insert i (rd_cancelled st) else rd_cancelled st) \<and>
     (\<forall>j. j \<noteq> i \<longrightarrow> map_of (rd_results st') j = map_of (rd_results st) j)"

lemma flow_moved:
  assumes flow: "flow C tasks ids st" and move: "moved i s st st'"
    and old: "status st i = Some TeamPending \<or> status st i = Some TeamRunning"
    and s: "s \<noteq> TeamReady" "s = TeamBlocked \<Longrightarrow> rd_failed st \<noteq> {}"
      "s = TeamRunning \<or> s = TeamCompleted \<Longrightarrow>
         \<forall>t \<in> set tasks. ag_task_id t = i \<longrightarrow> list_all (dependency_satisfied ids st) (ag_dependencies t)"
      "s = TeamCompleted \<Longrightarrow> \<exists>r. map_of (rd_results st') i = Some r \<and> wk_status r = WorkerCompleted"
    and len: "int (length (rd_active st')) \<le> max 0 (bg_max_agents (co_budget C))"
  shows "flow C tasks ids st'"
proof -
  note m = move [unfolded moved_def]
  have st': "status st' j = (if j = i then Some s else status st j)" for j
    using m by (simp add: status_def)
  have dep: "dependency_satisfied ids st d \<Longrightarrow> dependency_satisfied ids st' d" for d
    using st' [of d] old by (auto simp: dependency_satisfied_def status_def)
  have key: "i \<in> fst ` set (rd_statuses st)"
    using old unfolding status_def by (metis fst_conv image_iff map_of_SomeD)
  have k: "map fst (rd_statuses st') = map ag_task_id tasks"
    using m key flowD(1) [OF flow] by (simp add: keys_dict_set)
  have d: "list_all (dependency_satisfied ids st') (ag_dependencies t)"
    if "t \<in> set tasks" "status st' (ag_task_id t) \<in> {Some TeamRunning, Some TeamCompleted}" for t
  proof -
    have "list_all (dependency_satisfied ids st) (ag_dependencies t)"
      using that st' [of "ag_task_id t"] s(3) flowD(4) [OF flow that(1)] by (cases "ag_task_id t = i") auto
    then show ?thesis using dep by (simp add: list_all_iff)
  qed
  have notin: "i \<notin> rd_failed st" "i \<notin> rd_cancelled st"
    using old flowD(5,6) [OF flow, of i] by auto
  show ?thesis
    unfolding flow_def
  proof (intro conjI allI ballI impI)
    fix j
    show "status st' j \<noteq> Some TeamReady" using st' [of j] s(1) flowD(2) [OF flow, of j] by auto
    show "status st' j = Some TeamRunning \<longleftrightarrow> j \<in> fst ` set (rd_active st')"
      using st' [of j] m flowD(3) [OF flow, of j] by auto
    show "status st' j = Some TeamFailed \<longleftrightarrow> j \<in> rd_failed st'"
      using st' [of j] m notin flowD(5) [OF flow, of j] by auto
    show "status st' j = Some TeamCancelled \<longleftrightarrow> j \<in> rd_cancelled st'"
      using st' [of j] m notin flowD(6) [OF flow, of j] by auto
    show "rd_failed st' \<noteq> {}" if "status st' j = Some TeamBlocked"
      using that st' [of j] m s(2) flowD(7) [OF flow, of j] by (auto split: if_splits)
    show "\<exists>r. map_of (rd_results st') j = Some r \<and> wk_status r = WorkerCompleted" if "status st' j = Some TeamCompleted"
      using that st' [of j] m s(4) flowD(8) [OF flow, of j] by (auto split: if_splits)
  qed (use k d len in auto)
qed

lemma distinct_active:
  "books C (rd_active st) st \<Longrightarrow> distinct (map fst (rd_active st))"
  by (simp add: books_def)

section \<open>The parts of a turn\<close>

definition round_ok :: "coordinator \<Rightarrow> agent_task list \<Rightarrow> string set \<Rightarrow> round \<Rightarrow> bool" where
  "round_ok C tasks ids st \<longleftrightarrow> books C (rd_active st) st \<and> flow C tasks ids st"

definition tasks_ok :: "agent_task list \<Rightarrow> bool" where
  "tasks_ok tasks \<longleftrightarrow> distinct (map ag_task_id tasks) \<and> (\<forall>t \<in> set tasks. 0 \<le> ag_max_steps t)"

text \<open>The pieces of a turn that leave the budget alone.\<close>

lemma books_cong:
  assumes "rd_active st' = rd_active st" "rd_task_steps st' = rd_task_steps st" "rd_task_calls st' = rd_task_calls st"
    "tm_reserved_steps (rd_team st') = tm_reserved_steps (rd_team st)"
    "tm_reserved_model_calls (rd_team st') = tm_reserved_model_calls (rd_team st)"
    "tm_total_steps (rd_team st') = tm_total_steps (rd_team st)"
    "tm_total_model_calls (rd_team st') = tm_total_model_calls (rd_team st)"
  shows "books C act st' \<longleftrightarrow> books C act st"
  using assms by (simp add: books_def affordable_def)

lemma cancel_one_ok:
  assumes "round_ok C tasks ids st" "status st i = Some TeamPending"
  shows "round_ok C tasks ids (st\<lparr>rd_statuses := dict_set i TeamCancelled (rd_statuses st), rd_cancelled := insert i (rd_cancelled st)\<rparr>)"
    (is "round_ok C tasks ids ?st'")
proof -
  have f: "flow C tasks ids st" using assms(1) by (simp add: round_ok_def)
  have "i \<notin> fst ` set (rd_active st)" using flowD(3) [OF f, of i] assms(2) by simp
  then have "moved i TeamCancelled st ?st'" by (simp add: moved_def)
  from flow_moved [OF f this] assms(2) flowD(9) [OF f] have "flow C tasks ids ?st'" by simp
  moreover have "books C (rd_active ?st') ?st'"
    using assms(1) by (simp add: round_ok_def books_cong [of ?st' st])
  ultimately show ?thesis by (simp add: round_ok_def)
qed

lemma cancel_pending_ok: "round_ok C tasks ids st \<Longrightarrow> round_ok C tasks ids (cancel_pending js task st)"
  using cancel_one_ok by (simp add: cancel_pending_def status_def)

lemma fold_ok: "(\<And>x st. x \<in> set xs \<Longrightarrow> P st \<Longrightarrow> P (f x st)) \<Longrightarrow> P st \<Longrightarrow> P (fold f xs st)"
  by (induction xs arbitrary: st) auto

text \<open>Emitting events keeps the counters.\<close>

definition same_counters :: "team_state \<Rightarrow> team_state \<Rightarrow> bool" where
  "same_counters tm tm' \<longleftrightarrow> tm_total_steps tm' = tm_total_steps tm \<and> tm_total_model_calls tm' = tm_total_model_calls tm \<and>
     tm_reserved_steps tm' = tm_reserved_steps tm \<and> tm_reserved_model_calls tm' = tm_reserved_model_calls tm \<and>
     tm_fix_round_count tm' = tm_fix_round_count tm"

lemma same_counters_refl [simp]: "same_counters tm tm"
  by (simp add: same_counters_def)

lemma same_counters_emit [simp]:
  "same_counters tm (emit_team_event ty agent task payload tm') \<longleftrightarrow> same_counters tm tm'"
  "same_counters tm (root_event ty payload' tm') \<longleftrightarrow> same_counters tm tm'"
  "same_counters tm (steps_event C tm') \<longleftrightarrow> same_counters tm tm'"
  "same_counters tm (model_calls_event C tm') \<longleftrightarrow> same_counters tm tm'"
  "same_counters tm (wall_time_event C tm') \<longleftrightarrow> same_counters tm tm'"
  by (simp_all add: same_counters_def emit_team_event_def root_event_def steps_event_def model_calls_event_def
      wall_time_event_def Let_def)

lemma same_counters_emit_all [simp]: "same_counters tm (emit_all es tm') \<longleftrightarrow> same_counters tm tm'"
  unfolding emit_all_def by (induction es arbitrary: tm') (auto split: prod.splits)

lemma same_counters_budget [simp]: "same_counters tm (snd (check_budget C b tm')) \<longleftrightarrow> same_counters tm tm'"
  by (simp add: check_budget_def)

lemma same_counters_cancel [simp]: "same_counters tm (snd (cancel_active_worker i th j tm')) \<longleftrightarrow> same_counters tm tm'"
  by (simp add: cancel_active_worker_def Let_def split: joined.splits)

lemma flow_team [simp]: "flow C tasks ids (st\<lparr>rd_team := tm\<rparr>) \<longleftrightarrow> flow C tasks ids st"
  by (simp add: flow_def status_def dependency_satisfied_def cong: list.pred_cong)

lemma round_ok_team: "same_counters (rd_team st) tm \<Longrightarrow> round_ok C tasks ids (st\<lparr>rd_team := tm\<rparr>) \<longleftrightarrow> round_ok C tasks ids st"
  by (simp add: round_ok_def same_counters_def books_cong [of "st\<lparr>rd_team := tm\<rparr>" st])

text \<open>What joining a thread shows is in its bounds.\<close>

definition joined_ok :: "coordinator \<Rightarrow> thread \<Rightarrow> joined \<Rightarrow> bool" where
  "joined_ok C th j \<longleftrightarrow> (\<forall>r. j = Ended (Some r) \<longrightarrow> in_bounds C th r)"

lemma cancelled_in_bounds:
  assumes "0 \<le> step_bound th" "in_bounds C th (th_result th)" "joined_ok C th j"
  shows "in_bounds C th (fst (cancel_active_worker i th j tm))"
  using assms by (auto simp: cancel_active_worker_def joined_ok_def in_bounds_def plain_result_def call_bound_def step_bound_def
      model_call_upper_bound_def reflection_reserve_def Let_def split: joined.splits option.splits)

definition owners :: "round \<Rightarrow> (string \<times> agent_task) list" where
  "owners st = map (\<lambda>kv. (fst kv, th_task (snd kv))) (rd_active st)"

lemma map_adjust: "(\<And>v. f (g v) = f v) \<Longrightarrow> map (\<lambda>kv. (fst kv, f (snd kv))) (adjust i g kvs) = map (\<lambda>kv. (fst kv, f (snd kv))) kvs"
  by (induction kvs) (auto simp: adjust_def)

lemma sum_adjust: "(\<And>v. f (g v) = f v) \<Longrightarrow> map (f \<circ> snd) (adjust i g kvs) = map (f \<circ> snd) kvs"
  by (induction kvs) (auto simp: adjust_def)

lemma length_adjust: "length (adjust k f kvs) = length kvs"
  by (simp add: adjust_def)

lemma cancel_active_ok:
  assumes ok: "round_ok C tasks ids st" and own: "owners st = owners st0" and kv: "kv \<in> set (rd_active st0)"
    and b0: "books C (rd_active st0) st0" and j: "\<And>j. map_of (tk_joins t) (fst kv) = Some j \<Longrightarrow> joined_ok C (snd kv) j"
  shows "round_ok C tasks ids (cancel_active t kv st) \<and> owners (cancel_active t kv st) = owners st0"
proof (cases "map_of (tk_joins t) (fst kv) \<noteq> None \<and> fst kv \<in> tk_cancelled_then t")
  case False
  then show ?thesis using ok own by (auto simp: cancel_active_def split: option.splits)
next
  case True
  then obtain jj where jj: "map_of (tk_joins t) (fst kv) = Some jj" by auto
  obtain r tm where rt: "cancel_active_worker (fst kv) (snd kv) jj (rd_team st) = (r, tm)" by fastforce
  have same: "same_counters (rd_team st) tm"
    using same_counters_cancel [of "rd_team st" "fst kv" "snd kv" jj "rd_team st"] rt by simp
  have "0 \<le> step_bound (snd kv) \<and> in_bounds C (snd kv) (th_result (snd kv))" using b0 kv by (auto simp: books_def)
  then have r: "in_bounds C (snd kv) r"
    using cancelled_in_bounds [of "snd kv" C jj "fst kv" "rd_team st"] j [OF jj] rt by simp
  let ?f = "\<lambda>th. th\<lparr>th_result := r\<rparr>"
  let ?st' = "st\<lparr>rd_team := tm, rd_active := adjust (fst kv) ?f (rd_active st)\<rparr>"
  have st': "cancel_active t kv st = ?st'" using True jj rt by (simp add: cancel_active_def)
  have "owners ?st' = owners st" unfolding owners_def by (simp add: map_adjust)
  then have o: "owners ?st' = owners st0" using own by simp
  have dis: "distinct (map fst (rd_active st0))" using b0 by (simp add: books_def)
  have task: "th_task th = th_task (snd kv)" if "(fst kv, th) \<in> set (rd_active st)" for th
  proof -
    have "(fst kv, th_task th) \<in> set (owners st)" using imageI [OF that, of "\<lambda>kv. (fst kv, th_task (snd kv))"] by (simp add: owners_def)
    then obtain kv' where "kv' \<in> set (rd_active st0)" "fst kv' = fst kv" "th_task (snd kv') = th_task th"
      unfolding own by (auto simp: owners_def)
    with distinct_map_eqD [OF dis this(1) kv this(2)] show ?thesis by simp
  qed
  have b: "books C (rd_active st) st" using ok by (simp add: round_ok_def)
  have bounds: "0 \<le> step_bound (snd x) \<and> in_bounds C (snd x) (th_result (snd x))" if "x \<in> set (rd_active ?st')" for x
  proof -
    have "x \<in> (\<lambda>y. if fst y = fst kv then (fst y, ?f (snd y)) else y) ` set (rd_active st)"
      using that by (simp add: adjust_def)
    then obtain y where y: "y \<in> set (rd_active st)" "x = (if fst y = fst kv then (fst y, ?f (snd y)) else y)" by (rule imageE)
    have "0 \<le> step_bound (snd y) \<and> in_bounds C (snd y) (th_result (snd y))" using b y(1) by (auto simp: books_def)
    moreover have "in_bounds C (?f (snd y)) r" if "fst y = fst kv"
    proof -
      have "(fst kv, snd y) \<in> set (rd_active st)" using y(1) unfolding that [symmetric] by simp
      from task [OF this] r show ?thesis by (simp add: in_bounds_def step_bound_def call_bound_def)
    qed
    ultimately show ?thesis unfolding y(2) by (simp add: step_bound_def in_bounds_def call_bound_def)
  qed
  have f: "step_bound (?f th) = step_bound th" "call_bound C (?f th) = call_bound C th" for th :: thread
    by (simp_all add: step_bound_def call_bound_def)
  have m: "map (\<lambda>kv. (fst kv, step_bound (snd kv))) (rd_active ?st') = map (\<lambda>kv. (fst kv, step_bound (snd kv))) (rd_active st)"
    "map (\<lambda>kv. (fst kv, call_bound C (snd kv))) (rd_active ?st') = map (\<lambda>kv. (fst kv, call_bound C (snd kv))) (rd_active st)"
    "map (step_bound \<circ> snd) (rd_active ?st') = map (step_bound \<circ> snd) (rd_active st)"
    "map (call_bound C \<circ> snd) (rd_active ?st') = map (call_bound C \<circ> snd) (rd_active st)"
    using f map_adjust [where f = step_bound and g = ?f] map_adjust [where f = "call_bound C" and g = ?f]
      sum_adjust [where f = step_bound and g = ?f] sum_adjust [where f = "call_bound C" and g = ?f] by simp_all
  have "books C (rd_active ?st') st"
    using b bounds unfolding books_def m by simp
  then have "books C (rd_active ?st') ?st'"
    using same by (simp add: same_counters_def books_cong [of ?st' st] books_cong [of "st\<lparr>rd_team := tm\<rparr>" st] books_def affordable_def)
  moreover have "flow C tasks ids ?st'"
  proof -
    have "flow C tasks ids st" using ok by (simp add: round_ok_def)
    then show ?thesis
      by (simp add: flow_def status_def dependency_satisfied_def length_adjust cong: list.pred_cong)
  qed
  ultimately show ?thesis using o unfolding st' round_ok_def by simp
qed

end
