(* ===== verification/Team_Round_Steps.thy ===== *)
theory Team_Round_Steps
  imports Team_Round_Inv
begin

text \<open>
  Every part of a turn of the scheduling loop keeps the invariant, given workers that stay in their
  bounds: the cancellations, the scheduling of tasks, the collection of results, and the end of the round.
\<close>

lemma apply_cancellations_ok:
  assumes ok: "round_ok C tasks ids st"
    and j: "\<And>kv j. kv \<in> set (rd_active st) \<Longrightarrow> map_of (tk_joins t) (fst kv) = Some j \<Longrightarrow> joined_ok C (snd kv) j"
  shows "round_ok C tasks ids (apply_cancellations tasks t st) \<and> owners (apply_cancellations tasks t st) = owners st"
proof -
  define st1 where "st1 = fold (cancel_pending (tk_cancelled t)) tasks st"
  have act: "rd_active (cancel_pending js task s) = rd_active s" for js task s by (simp add: cancel_pending_def)
  have "round_ok C tasks ids st1 \<and> rd_active st1 = rd_active st"
    unfolding st1_def by (rule fold_ok) (simp_all add: ok act cancel_pending_ok)
  then have st1: "round_ok C tasks ids st1" "rd_active st1 = rd_active st" "owners st1 = owners st" by (simp_all add: owners_def)
  have "round_ok C tasks ids (fold (cancel_active t) (rd_active st1) st1) \<and>
      owners (fold (cancel_active t) (rd_active st1) st1) = owners st1"
  proof (rule fold_ok)
    fix kv s
    assume "kv \<in> set (rd_active st1)" "round_ok C tasks ids s \<and> owners s = owners st1"
    then show "round_ok C tasks ids (cancel_active t kv s) \<and> owners (cancel_active t kv s) = owners st1"
      by (intro cancel_active_ok) (use j st1 in \<open>auto simp: round_ok_def\<close>)
  qed (simp add: st1)
  with st1(3) show ?thesis by (simp add: apply_cancellations_def Let_def st1_def)
qed

lemma start_worker_fields [simp]:
  "rd_statuses (start_worker C task st) = dict_set (ag_task_id task) TeamRunning (rd_statuses st)"
  "rd_failed (start_worker C task st) = rd_failed st" "rd_cancelled (start_worker C task st) = rd_cancelled st"
  "rd_results (start_worker C task st) = rd_results st"
  by (simp_all add: start_worker_def Let_def)

lemma schedule_task_ok:
  assumes ok: "round_ok C tasks ids st" and task: "task \<in> set tasks" "tasks_ok tasks"
  shows "round_ok C tasks ids (schedule_task C ids task st)"
proof -
  let ?i = "ag_task_id task" and ?c = "cap_task C (rd_team st) task"
  have b: "books C (rd_active st) st" and f: "flow C tasks ids st" using ok by (simp_all add: round_ok_def)
  show ?thesis
  proof (cases "status st ?i = Some TeamPending \<and> list_all (dependency_satisfied ids st) (ag_dependencies task) \<and>
      int (length (rd_active st)) < bg_max_agents (co_budget C)")
    case False
    then have "schedule_task C ids task st = st" by (auto simp: schedule_task_def status_def)
    with ok show ?thesis by simp
  next
    case True
    note pend = conjunct1 [OF True]
    show ?thesis
    proof (cases "bg_max_total_steps (co_budget C) < tm_total_steps (rd_team st) + tm_reserved_steps (rd_team st) + ag_max_steps ?c \<or>
        bg_max_total_model_calls (co_budget C) < tm_total_model_calls (rd_team st) + tm_reserved_model_calls (rd_team st)
          + model_call_upper_bound C ?c")
      case over: True
      then have "schedule_task C ids task st = st\<lparr>rd_statuses := dict_set ?i TeamCancelled (rd_statuses st),
          rd_cancelled := insert ?i (rd_cancelled st)\<rparr>"
        using True by (simp add: schedule_task_def status_def Let_def)
      with cancel_one_ok [OF ok pend] show ?thesis by simp
    next
      case False
      let ?st' = "start_worker C ?c st"
      have eq: "schedule_task C ids task st = ?st'"
        using True False by (simp add: schedule_task_def status_def Let_def)
      have new: "ag_task_id ?c \<notin> fst ` set (rd_active st)" using flowD(3) [OF f, of ?i] pend by simp
      have act: "\<exists>th. rd_active ?st' = rd_active st @ [(?i, th)]"
        using dict_set_new [OF new] by (simp add: start_worker_def Let_def)
      have "0 \<le> ag_max_steps ?c" using task by (auto simp: tasks_ok_def intro: cap_task_nonneg)
      then have "books C (rd_active ?st') ?st'" using books_start_worker [OF b new] False by simp
      moreover have "moved ?i TeamRunning st ?st'" using act by (auto simp: moved_def)
      then have "flow C tasks ids ?st'"
      proof (rule flow_moved [OF f])
        show "\<forall>t \<in> set tasks. ag_task_id t = ?i \<longrightarrow> list_all (dependency_satisfied ids st) (ag_dependencies t)"
        proof (intro ballI impI)
          fix t
          assume t: "t \<in> set tasks" "ag_task_id t = ?i"
          have "distinct (map ag_task_id tasks)" using task(2) by (simp add: tasks_ok_def)
          from distinct_map_eqD [OF this t(1) task(1) t(2)] True
          show "list_all (dependency_satisfied ids st) (ag_dependencies t)" by simp
        qed
        show "int (length (rd_active ?st')) \<le> max 0 (bg_max_agents (co_budget C))" using act True by auto
      qed (use pend in auto)
      ultimately show ?thesis unfolding eq by (simp add: round_ok_def)
    qed
  qed
qed

lemma cascade_flow:
  assumes "flow C tasks ids (st\<lparr>rd_statuses := s, rd_cancelled := c\<rparr>)"
  shows "flow C tasks ids (st\<lparr>rd_statuses := fst (cascade g stack s c), rd_cancelled := snd (cascade g stack s c)\<rparr>)"
  using assms
proof (induction g stack s c rule: cascade.induct)
  case (1 g s c)
  then show ?case by simp
next
  case (2 g current stack s c)
  let ?P = "\<lambda>x. flow C tasks ids (st\<lparr>rd_statuses := fst (snd x), rd_cancelled := snd (snd x)\<rparr>)"
  have "?P (fold cancel_dependent (lookup_list g current) (stack, s, c))"
  proof (rule fold_ok)
    fix d :: string and x :: "string list \<times> statuses \<times> string set"
    assume x: "?P x"
    show "?P (cancel_dependent d x)"
    proof (cases "map_of (fst (snd x)) d = Some TeamPending")
      case True
      let ?st = "st\<lparr>rd_statuses := fst (snd x), rd_cancelled := snd (snd x)\<rparr>"
      have p: "status ?st d = Some TeamPending" using True by (simp add: status_def)
      then have "d \<notin> fst ` set (rd_active ?st)" using flowD(3) [OF x, of d] by auto
      then have "moved d TeamCancelled ?st (?st\<lparr>rd_statuses := dict_set d TeamCancelled (rd_statuses ?st), rd_cancelled := insert d (rd_cancelled ?st)\<rparr>)"
        by (simp add: moved_def)
      from flow_moved [OF x this] p flowD(9) [OF x] True show ?thesis by (cases x) (simp add: cancel_dependent_def)
    qed (use x in \<open>cases x, simp add: cancel_dependent_def\<close>)
  qed (use 2 in simp)
  with "2.IH" show ?case by (simp add: Let_def)
qed

lemma block_flow:
  assumes f: "flow C tasks ids st" and "rd_failed st \<noteq> {}"
  shows "flow C tasks ids (st\<lparr>rd_statuses := fold (block_dependent i) ts (rd_statuses st)\<rparr>)"
proof (rule fold_ok [where P = "\<lambda>s. flow C tasks ids (st\<lparr>rd_statuses := s\<rparr>)"])
  fix t s
  assume x: "flow C tasks ids (st\<lparr>rd_statuses := s\<rparr>)"
  let ?st = "st\<lparr>rd_statuses := s\<rparr>"
  show "flow C tasks ids (st\<lparr>rd_statuses := block_dependent i t s\<rparr>)"
  proof (cases "i \<in> set (ag_dependencies t) \<and> map_of s (ag_task_id t) = Some TeamPending")
    case True
    then have p: "status ?st (ag_task_id t) = Some TeamPending" by (simp add: status_def)
    then have "ag_task_id t \<notin> fst ` set (rd_active ?st)" using flowD(3) [OF x, of "ag_task_id t"] by auto
    then have "moved (ag_task_id t) TeamBlocked ?st (?st\<lparr>rd_statuses := dict_set (ag_task_id t) TeamBlocked (rd_statuses ?st)\<rparr>)"
      by (simp add: moved_def)
    from flow_moved [OF x this] p flowD(9) [OF x] True assms(2) show ?thesis by (simp add: block_dependent_def)
  qed (use x in \<open>auto simp: block_dependent_def\<close>)
qed (use f in simp)

text \<open>Collecting the result of an active worker.\<close>

lemma collect_ok:
  assumes ok: "round_ok C tasks ids st" and th: "map_of (rd_active st) (fst f) = Some th" "in_bounds C th (snd f)"
  shows "round_ok C tasks ids (collect tasks f st) \<and> rd_active (collect tasks f st) = dict_del (fst f) (rd_active st)"
proof -
  let ?i = "fst f" and ?r = "snd f"
  define st1 where "st1 = record_result ?i ?r (st\<lparr>rd_active := dict_del ?i (rd_active st)\<rparr>)"
  have b: "books C (rd_active st) st" and fl: "flow C tasks ids st" using ok by (simp_all add: round_ok_def)
  have "books C (rd_active st) (st\<lparr>rd_active := dict_del ?i (rd_active st)\<rparr>)" using b by (simp add: books_def)
  then have b1: "books C (dict_del ?i (rd_active st)) st1" unfolding st1_def by (rule books_record_result [OF _ th])
  have run: "status st ?i = Some TeamRunning"
    using flowD(3) [OF fl, of ?i] map_of_SomeD [OF th(1)] by (force simp: image_iff)
  have keys: "fst ` set (dict_del ?i (rd_active st)) = fst ` set (rd_active st) - {?i}" by (auto simp: dict_del_def)
  have len: "int (length (dict_del ?i (rd_active st))) \<le> max 0 (bg_max_agents (co_budget C))"
    using flowD(9) [OF fl] length_filter_le [of "\<lambda>kv. fst kv \<noteq> ?i" "rd_active st"] unfolding dict_del_def by linarith
  have deps: "\<forall>t \<in> set tasks. ag_task_id t = ?i \<longrightarrow> list_all (dependency_satisfied ids st) (ag_dependencies t)"
    using flowD(4) [OF fl] run by metis
  have flow1: "flow C tasks ids st'" if "moved ?i s st st'" "rd_active st' = dict_del ?i (rd_active st)"
    "s \<in> {TeamCompleted, TeamFailed, TeamCancelled}" "s = TeamCompleted \<Longrightarrow> \<exists>r. map_of (rd_results st') ?i = Some r \<and> wk_status r = WorkerCompleted"
    for s st'
    by (rule flow_moved [OF fl that(1)]) (use that run len deps in auto)
  have st1: "rd_statuses st1 = rd_statuses st" "rd_active st1 = dict_del ?i (rd_active st)" "rd_failed st1 = rd_failed st"
    "rd_cancelled st1 = rd_cancelled st" "rd_results st1 = dict_set ?i ?r (rd_results st)" by (simp_all add: st1_def)
  have c: "collect tasks f st = (case wk_status ?r of
       WorkerCompleted \<Rightarrow> st1\<lparr>rd_statuses := dict_set ?i TeamCompleted (rd_statuses st1)\<rparr>
     | WorkerCancelled \<Rightarrow>
         (let (statuses, cancelled) = cascade_cancel ?i tasks (dict_set ?i TeamCancelled (rd_statuses st1)) (insert ?i (rd_cancelled st1)) in
          st1\<lparr>rd_statuses := statuses, rd_cancelled := cancelled\<rparr>)
     | _ \<Rightarrow> st1\<lparr>rd_failed := insert ?i (rd_failed st1),
               rd_statuses := fold (block_dependent ?i) tasks (dict_set ?i TeamFailed (rd_statuses st1))\<rparr>)"
    unfolding collect_def st1_def Let_def ..
  have failed: "flow C tasks ids (st1\<lparr>rd_failed := insert ?i (rd_failed st1),
       rd_statuses := fold (block_dependent ?i) tasks (dict_set ?i TeamFailed (rd_statuses st1))\<rparr>)"
  proof -
    let ?m = "st1\<lparr>rd_failed := insert ?i (rd_failed st1), rd_statuses := dict_set ?i TeamFailed (rd_statuses st1)\<rparr>"
    have "moved ?i TeamFailed st ?m" using st1 keys by (simp add: moved_def)
    from flow1 [OF this] have "flow C tasks ids ?m" using st1 by simp
    from block_flow [OF this, of ?i tasks] show ?thesis by simp
  qed
  have f1: "flow C tasks ids (collect tasks f st)"
  proof (cases "wk_status ?r")
    case WorkerCompleted
    let ?m = "st1\<lparr>rd_statuses := dict_set ?i TeamCompleted (rd_statuses st1)\<rparr>"
    have "moved ?i TeamCompleted st ?m" using st1 keys by (simp add: moved_def)
    from flow1 [OF this] have "flow C tasks ids ?m" using st1 WorkerCompleted by simp
    with WorkerCompleted show ?thesis by (simp add: c)
  next
    case WorkerCancelled
    let ?m = "st1\<lparr>rd_statuses := dict_set ?i TeamCancelled (rd_statuses st1), rd_cancelled := insert ?i (rd_cancelled st1)\<rparr>"
    have "moved ?i TeamCancelled st ?m" using st1 keys by (simp add: moved_def)
    from flow1 [OF this] have "flow C tasks ids ?m" using st1 by simp
    from cascade_flow [OF this, of "dependents_of tasks" "[?i]"] WorkerCancelled
    show ?thesis by (simp add: c cascade_cancel_def case_prod_beta del: cascade.simps)
  qed (use failed in \<open>simp_all add: c\<close>)
  have same: "rd_active (collect tasks f st) = rd_active st1 \<and> rd_team (collect tasks f st) = rd_team st1 \<and>
      rd_task_steps (collect tasks f st) = rd_task_steps st1 \<and> rd_task_calls (collect tasks f st) = rd_task_calls st1"
    unfolding c by (simp split: worker_status.splits prod.splits)
  then have "books C (rd_active (collect tasks f st)) (collect tasks f st)"
    using b1 st1(2) books_cong [of "collect tasks f st" st1] by simp
  with f1 same st1(2) show ?thesis by (simp add: round_ok_def)
qed

lemma collect_all_ok:
  assumes "round_ok C tasks ids st" "distinct (map fst fs)"
    "\<And>f. f \<in> set fs \<Longrightarrow> \<exists>th. map_of (rd_active st) (fst f) = Some th \<and> in_bounds C th (snd f)"
  shows "round_ok C tasks ids (fold (collect tasks) fs st) \<and>
    rd_active (fold (collect tasks) fs st) = filter (\<lambda>kv. fst kv \<notin> fst ` set fs) (rd_active st)"
  using assms
proof (induction fs arbitrary: st)
  case Nil
  then show ?case by simp
next
  case (Cons f fs)
  obtain th where "map_of (rd_active st) (fst f) = Some th" "in_bounds C th (snd f)" using Cons.prems(3) [of f] by auto
  note c = collect_ok [OF Cons.prems(1) this]
  have "\<exists>th. map_of (rd_active (collect tasks f st)) (fst g) = Some th \<and> in_bounds C th (snd g)" if "g \<in> set fs" for g
  proof -
    have "fst g \<noteq> fst f" using Cons.prems(2) that by (auto simp: image_iff)
    then show ?thesis using Cons.prems(3) [of g] that c by simp
  qed
  from Cons.IH [OF conjunct1 [OF c] _ this] Cons.prems(2) c
  show ?case by (simp add: dict_del_def conj_commute)
qed

section \<open>Turns\<close>

text \<open>The state a turn works on once the budget has been checked.\<close>

definition opened :: "coordinator \<Rightarrow> turn \<Rightarrow> round \<Rightarrow> round" where
  "opened C t st = st\<lparr>rd_team := snd (check_budget C (tk_deadline t) (emit_all (tk_events t) (rd_team st)))\<rparr>"

text \<open>
  The environment of a turn: workers stay in their bounds, and each result in the queue is that of an
  active worker, once.
\<close>

definition turn_ok :: "coordinator \<Rightarrow> agent_task list \<Rightarrow> string set \<Rightarrow> turn \<Rightarrow> round \<Rightarrow> bool" where
  "turn_ok C tasks ids t st \<longleftrightarrow>
     (\<forall>kv \<in> set (rd_active st). \<forall>j. map_of (tk_joins t) (fst kv) = Some j \<longrightarrow> joined_ok C (snd kv) j) \<and>
     distinct (map fst (tk_finished t)) \<and>
     (\<forall>f \<in> set (tk_finished t). \<exists>th. map_of (rd_active (scheduled C tasks ids t (opened C t st))) (fst f) = Some th \<and>
        in_bounds C th (snd f))"

fun turns_ok :: "coordinator \<Rightarrow> agent_task list \<Rightarrow> string set \<Rightarrow> turn list \<Rightarrow> round \<Rightarrow> bool" where
  "turns_ok C tasks ids [] st = True"
| "turns_ok C tasks ids (t # ts) st = (turn_ok C tasks ids t st \<and>
     (case round_turn C tasks ids t st of (st', None) \<Rightarrow> turns_ok C tasks ids ts st' | _ \<Rightarrow> True))"

lemma opened_ok: "round_ok C tasks ids (opened C t st) \<longleftrightarrow> round_ok C tasks ids st"
  unfolding opened_def by (rule round_ok_team) simp

lemma opened_active [simp]: "rd_active (opened C t st) = rd_active st"
  by (simp add: opened_def)

lemma scheduled_ok:
  assumes "round_ok C tasks ids st" "tasks_ok tasks" "turn_ok C tasks ids t st"
  shows "round_ok C tasks ids (scheduled C tasks ids t (opened C t st))"
proof -
  have "round_ok C tasks ids (opened C t st)" using assms(1) by (simp add: opened_ok)
  moreover have "joined_ok C (snd kv) j" if "kv \<in> set (rd_active (opened C t st))" "map_of (tk_joins t) (fst kv) = Some j" for kv j
    using assms(3) that by (simp add: turn_ok_def)
  ultimately have "round_ok C tasks ids (apply_cancellations tasks t (opened C t st))"
    by (rule conjunct1 [OF apply_cancellations_ok])
  then show ?thesis
    unfolding scheduled_def by (rule fold_ok [where P = "round_ok C tasks ids", rotated]) (rule schedule_task_ok [OF _ _ assms(2)])
qed

lemma round_turn_cases:
  "round_turn C tasks ids t st =
    (if fst (check_budget C (tk_deadline t) (emit_all (tk_events t) (rd_team st))) then (opened C t st, Some StopBudgetExhausted)
     else (let st2 = fold (collect tasks) (tk_finished t) (scheduled C tasks ids t (opened C t st)) in (st2, round_stop st2)))"
  by (simp add: round_turn_def opened_def case_prod_beta Let_def)

lemma round_turn_ok:
  assumes "round_ok C tasks ids st" "tasks_ok tasks" "turn_ok C tasks ids t st"
  shows "round_ok C tasks ids (fst (round_turn C tasks ids t st))"
proof -
  note fin = assms(3) [unfolded turn_ok_def, THEN conjunct2]
  have "round_ok C tasks ids (fold (collect tasks) (tk_finished t) (scheduled C tasks ids t (opened C t st)))"
    by (rule conjunct1 [OF collect_all_ok [OF scheduled_ok [OF assms] conjunct1 [OF fin]]])
      (rule bspec [OF conjunct2 [OF fin]])
  then show ?thesis using assms(1) by (simp add: round_turn_cases opened_ok Let_def)
qed

lemma round_loop_ok:
  assumes "round_ok C tasks ids st" "tasks_ok tasks" "turns_ok C tasks ids ts st"
  shows "round_ok C tasks ids (fst (round_loop C tasks ids ts st))"
  using assms
proof (induction ts arbitrary: st)
  case Nil
  then show ?case by simp
next
  case (Cons t ts)
  obtain st' stop where r: "round_turn C tasks ids t st = (st', stop)" by fastforce
  have ok: "round_ok C tasks ids st'" using round_turn_ok [of C tasks ids st t] Cons.prems r by simp
  show ?case using Cons.IH [OF ok] Cons.prems ok r by (cases stop) auto
qed

lemma start_round_ok:
  assumes "tasks_ok tasks" "tm_reserved_steps tm = 0" "tm_reserved_model_calls tm = 0" "affordable C tm"
  shows "round_ok C tasks ids (start_round tasks tm)"
proof -
  have "initial_statuses tasks = map (\<lambda>t. (ag_task_id t, TeamPending)) tasks"
    using fold_dict_set [of ag_task_id tasks "[]" "\<lambda>_. TeamPending"] assms(1) by (simp add: initial_statuses_def tasks_ok_def)
  moreover have "map_of (map (\<lambda>t. (ag_task_id t, TeamPending)) tasks) i \<noteq> Some s" if "s \<noteq> TeamPending" for i s
    using that by (induction tasks) auto
  ultimately show ?thesis
    using assms(2-4) by (simp add: round_ok_def books_def flow_def start_round_def status_def comp_def)
qed

section \<open>The end of a round\<close>

definition ending_ok :: "coordinator \<Rightarrow> ending \<Rightarrow> round \<Rightarrow> bool" where
  "ending_ok C en st \<longleftrightarrow> (\<forall>kv \<in> set (rd_active st). \<forall>j j'. map_of (en_joins en) (fst kv) = Some (j, j') \<longrightarrow>
     joined_ok C (snd kv) j \<and> joined_ok C (snd kv) j')"

lemma dict_del_head: "distinct (map fst (kv # act)) \<Longrightarrow> dict_del (fst kv) (kv # act) = act"
  by (auto simp: dict_del_def filter_id_conv image_iff)

lemma straggler_books:
  assumes b: "books C (kv # act) st"
    and j: "\<And>j j'. map_of (en_joins en) (fst kv) = Some (j, j') \<Longrightarrow> joined_ok C (snd kv) j \<and> joined_ok C (snd kv) j'"
  shows "books C act (straggler en kv st)"
proof -
  obtain j1 j2 where js: "(case map_of (en_joins en) (fst kv) of Some js \<Rightarrow> js | None \<Rightarrow> (StillRunning, StillRunning)) = (j1, j2)"
    by fastforce
  then have jok: "joined_ok C (snd kv) j1" "joined_ok C (snd kv) j2"
    using j by (auto simp: joined_ok_def split: option.splits)
  obtain r tm where rt: "(case j1 of StillRunning \<Rightarrow> cancel_active_worker (fst kv) (snd kv) j2 (rd_team st)
      | Ended own \<Rightarrow> (case own of None \<Rightarrow> th_result (snd kv) | Some r \<Rightarrow> r, rd_team st)) = (r, tm)" by fastforce
  have k: "0 \<le> step_bound (snd kv)" "in_bounds C (snd kv) (th_result (snd kv))" using b by (auto simp: books_def)
  have r: "in_bounds C (snd kv) r"
    using rt cancelled_in_bounds [OF k jok(2), of "fst kv" "rd_team st"] k jok(1)
    by (auto simp: joined_ok_def split: joined.splits option.splits)
  have same: "same_counters (rd_team st) tm"
  proof (cases j1)
    case StillRunning
    have "same_counters (rd_team st) (snd (cancel_active_worker (fst kv) (snd kv) j2 (rd_team st)))" by simp
    with rt StillRunning show ?thesis by (simp del: same_counters_cancel)
  qed (use rt in simp)
  have "books C (kv # act) (st\<lparr>rd_team := tm\<rparr>)"
    using b same books_cong [of "st\<lparr>rd_team := tm\<rparr>" st C] by (simp add: same_counters_def)
  then have "books C (dict_del (fst kv) (kv # act)) (record_result (fst kv) r (st\<lparr>rd_team := tm\<rparr>))"
    by (rule books_record_result [OF _ _ r]) (cases kv, simp)
  moreover have "distinct (map fst (kv # act))" using b by (simp add: books_def)
  ultimately have "books C act (record_result (fst kv) r (st\<lparr>rd_team := tm\<rparr>))" by (simp add: dict_del_head)
  then show ?thesis using js rt by (simp add: straggler_def Let_def books_def)
qed

lemma stragglers_books:
  assumes "books C act st" "\<And>kv j j'. kv \<in> set act \<Longrightarrow> map_of (en_joins en) (fst kv) = Some (j, j') \<Longrightarrow>
    joined_ok C (snd kv) j \<and> joined_ok C (snd kv) j'"
  shows "books C [] (fold (straggler en) act st)"
  using assms
proof (induction act arbitrary: st)
  case Nil
  then show ?case by simp
next
  case (Cons kv act)
  have "books C act (straggler en kv st)" by (rule straggler_books [OF Cons.prems(1)]) (use Cons.prems(2) in simp)
  from Cons.IH [OF this] Cons.prems(2) show ?case by simp
qed

text \<open>A round returns the budget it reserved and never spends more than there was.\<close>

lemma finish_round_books:
  assumes "round_ok C tasks ids st" "ending_ok C en st"
  shows "books C [] (finish_round tasks' en stop st)"
proof -
  have "books C [] (fold (straggler en) (rd_active st) st)"
    by (rule stragglers_books) (use assms in \<open>auto simp: round_ok_def ending_ok_def\<close>)
  then show ?thesis by (simp add: finish_round_def Let_def books_def)
qed

end
