(* ===== verification/Team_Review.thy ===== *)
theory Team_Review
  imports Team_Coordinator
begin

text \<open>
  The independent reviewer of \<open>multiagent/reviewer.py\<close>: findings from the worker results and the
  missing artifacts, their verdict, and the fix tasks made of them. The hexadecimal ids and the test
  whether an expected artifact is a file of the workspace are arguments.
\<close>

record review_finding =
  rf_finding_id :: string
  rf_severity :: string
  rf_title :: string
  rf_evidence :: string
  rf_file :: "string option"
  rf_requested_change :: string

datatype review_verdict = Approve | RequestChanges | VerdictBlocked

fun verdict_value :: "review_verdict \<Rightarrow> string" where
  "verdict_value Approve = ''approve''"
| "verdict_value RequestChanges = ''request_changes''"
| "verdict_value VerdictBlocked = ''blocked''"

record review_report =
  rp_verdict :: review_verdict
  rp_findings :: "review_finding list"
  rp_summary :: string

record reviewer =
  rv_hex :: "nat \<Rightarrow> string"
  rv_is_file :: "string \<Rightarrow> bool"

text \<open>The text an f-string makes of a worker status: the class and the name of the member.\<close>

fun worker_status_text :: "worker_status \<Rightarrow> string" where
  "worker_status_text WorkerCompleted = ''WorkerStatus.COMPLETED''"
| "worker_status_text WorkerFailed = ''WorkerStatus.FAILED''"
| "worker_status_text WorkerBlocked = ''WorkerStatus.BLOCKED''"
| "worker_status_text WorkerCancelled = ''WorkerStatus.CANCELLED''"

definition result_findings :: "work_result \<Rightarrow> review_finding list" where
  "result_findings r =
    (if wk_status r \<noteq> WorkerCompleted
     then [\<lparr>rf_finding_id = [], rf_severity = ''high'', rf_title = ''Task '' @ wk_task_id r @ '' did not complete'',
            rf_evidence = ''status='' @ worker_status_text (wk_status r) @ '', summary='' @ wk_summary r, rf_file = None,
            rf_requested_change = ''Investigate failure or create Fix Task''\<rparr>] else []) @
    (case wk_verification r of
       None \<Rightarrow> []
     | Some (status, summary) \<Rightarrow>
       if status \<noteq> ''passed''
       then [\<lparr>rf_finding_id = [], rf_severity = ''blocker'', rf_title = ''Task '' @ wk_task_id r @ '' verification not passed'',
              rf_evidence = summary, rf_file = None,
              rf_requested_change = ''Add or fix verification evidence before completing''\<rparr>] else [])"

definition artifact_findings :: "reviewer \<Rightarrow> agent_task \<Rightarrow> review_finding list" where
  "artifact_findings V task = map (\<lambda>e. \<lparr>rf_finding_id = [], rf_severity = ''high'',
      rf_title = ''Expected artifact missing: '' @ e, rf_evidence = e @ '' not found in workspace'', rf_file = Some e,
      rf_requested_change = ''Produce '' @ e @ '' or update expected_artifacts''\<rparr>)
     (filter (\<lambda>e. \<not> rv_is_file V e) (ag_expected_artifacts task))"

definition numbered :: "reviewer \<Rightarrow> review_finding list \<Rightarrow> review_finding list" where
  "numbered V fs = map (\<lambda>(n, f). f\<lparr>rf_finding_id := ''find-'' @ rv_hex V n\<rparr>) (enumerate 0 fs)"

definition derive_verdict :: "review_finding list \<Rightarrow> review_verdict" where
  "derive_verdict fs =
    (if ''blocker'' \<in> rf_severity ` set fs then VerdictBlocked
     else if ''high'' \<in> rf_severity ` set fs then RequestChanges
     else Approve)"

definition review_findings :: "reviewer \<Rightarrow> agent_task list \<Rightarrow> (string \<times> work_result) list \<Rightarrow> review_finding list" where
  "review_findings V dag results =
     numbered V (concat (map (result_findings \<circ> snd) results) @ concat (map (artifact_findings V) dag))"

definition review ::
  "reviewer \<Rightarrow> string \<Rightarrow> agent_task list \<Rightarrow> (string \<times> work_result) list \<Rightarrow> team_state \<Rightarrow> review_report \<times> team_state" where
  "review V goal dag results tm =
    (let tm1 = emit_team_event ''review.started'' ''reviewer-0'' ''review''
           [(PStr ''user_goal'', PStr goal), (PStr ''task_count'', PInt (int (length dag)))] tm;
         fs = review_findings V dag results; verdict = derive_verdict fs in
     (\<lparr>rp_verdict = verdict, rp_findings = fs, rp_summary = ''Reviewed '' @ int_text (int (length dag)) @ '' tasks, '' @
         int_text (int (length fs)) @ '' findings, verdict='' @ verdict_value verdict\<rparr>,
      emit_team_event ''review.completed'' ''reviewer-0'' ''review''
        [(PStr ''verdict'', PStr (verdict_value verdict)), (PStr ''finding_count'', PInt (int (length fs)))] tm1))"

text \<open>\<open>task_by_id\<close>: keys in the order of their first insertion, of two tasks with one id the later.\<close>

definition task_by_id :: "agent_task list \<Rightarrow> (string \<times> agent_task) list" where
  "task_by_id tasks = fold (\<lambda>t. dict_set (ag_task_id t) t) tasks []"

definition parent_of_finding :: "agent_task list \<Rightarrow> review_finding \<Rightarrow> string option" where
  "parent_of_finding tasks f =
     find (\<lambda>tid. sublist tid (rf_evidence f) \<or> sublist tid (rf_title f)) (map fst (task_by_id tasks))"

definition or_text :: "string \<Rightarrow> string \<Rightarrow> string" where
  "or_text a b = (if a = [] then b else a)"

definition fix_task :: "agent_task list \<Rightarrow> review_finding \<Rightarrow> agent_task" where
  "fix_task tasks f =
    (let parent_id = parent_of_finding tasks f;
         parent = (case parent_id of None \<Rightarrow> None | Some tid \<Rightarrow> if tid = [] then None else map_of (task_by_id tasks) tid) in
     \<lparr>ag_task_id = ''fix-'' @ rf_finding_id f, ag_title = ''Fix: '' @ rf_title f,
      ag_objective = or_text (rf_requested_change f) (''Resolve '' @ rf_title f),
      ag_acceptance_criteria = [or_text (rf_requested_change f) ''issue resolved'',
        ''finding '' @ rf_finding_id f @ '' no longer reproduces''],
      ag_allowed_paths = [''.''],
      ag_writable_paths = [case rf_file f of None \<Rightarrow> ''.''
        | Some file \<Rightarrow> if file = [] then ''.'' else path_text (path_parent (path_of file))],
      ag_allowed_tools = [''file_read'', ''file_write'', ''file_edit'', ''bash''],
      ag_dependencies = (case parent of None \<Rightarrow> [] | Some t \<Rightarrow> ag_dependencies t),
      ag_parent_task_id = parent_id, ag_input_artifact_ids = [], ag_expected_artifacts = [],
      ag_max_steps = 8, ag_timeout_seconds = 120, ag_priority = 10\<rparr>)"

definition create_fix_tasks :: "review_finding list \<Rightarrow> agent_task list \<Rightarrow> agent_task list" where
  "create_fix_tasks fs tasks = map (fix_task tasks) (filter (\<lambda>f. rf_severity f \<in> {''blocker'', ''high''}) fs)"

end
