(* ===== verification/Team_Run.thy ===== *)
theory Team_Run
  imports Team_Review
begin

text \<open>
  \<open>Coordinator.run\<close> of \<open>multiagent/coordinator.py\<close>: validation of the graph, the choice between the
  sequential and the parallel path, and the loop of reviews and fix rounds of both. What the threads, the
  workers, the clock and the reviewer's file tests do is given per round and per call.
\<close>

record coordinator_result =
  cr_stop_reason :: team_stop
  cr_task_results :: "(string \<times> work_result) list"
  cr_review_findings :: "review_finding list"
  cr_summary :: string
  cr_trace_events :: "team_event list"

text \<open>
  The environment of a run: of round \<open>n\<close> of the parallel path the turns and the end, of its review the
  reviewer; of call \<open>k\<close> of the sequential path the deadline, the cancelled ids, the events and the result
  of the worker.
\<close>

record surroundings =
  su_turns :: "nat \<Rightarrow> turn list"
  su_ending :: "nat \<Rightarrow> ending"
  su_reviewer :: "nat \<Rightarrow> reviewer"
  su_deadline :: "nat \<Rightarrow> bool"
  su_cancelled :: "nat \<Rightarrow> string set"
  su_events :: "nat \<Rightarrow> emitted list"
  su_work :: "nat \<Rightarrow> agent_task \<Rightarrow> work_result"

definition build_summary :: "coordinator \<Rightarrow> team_stop \<Rightarrow> (string \<times> work_result) list \<Rightarrow> review_finding list \<Rightarrow> team_state \<Rightarrow> string" where
  "build_summary C stop results findings tm =
     ''stop='' @ stop_value stop @ '', completed='' @
     int_text (int (length (filter (\<lambda>kv. wk_status (snd kv) = WorkerCompleted) results))) @ ''/'' @ int_text (int (length results)) @
     '', findings='' @ int_text (int (length findings)) @ '', fix_rounds='' @ int_text (tm_fix_round_count tm) @
     '', steps='' @ int_text (tm_total_steps tm) @ ''/'' @ int_text (bg_max_total_steps (co_budget C)) @
     '', model_calls='' @ int_text (tm_total_model_calls tm) @ ''/'' @ int_text (bg_max_total_model_calls (co_budget C))"

definition stopped :: "coordinator \<Rightarrow> team_stop \<Rightarrow> (string \<times> work_result) list \<Rightarrow> review_finding list \<Rightarrow> team_state \<Rightarrow>
    coordinator_result \<times> team_state" where
  "stopped C stop results findings tm =
    (let summary = build_summary C stop results findings tm;
         tm1 = root_event ''team.stopped'' [(''stop_reason'', PStr (stop_text stop)), (''summary'', PStr summary)] tm in
     (\<lparr>cr_stop_reason = stop, cr_task_results = results, cr_review_findings = findings, cr_summary = summary,
       cr_trace_events = tm_trace_events tm1\<rparr>, tm1))"

text \<open>The review and its second \<open>review.completed\<close> event, which the coordinator emits.\<close>

definition reviewed :: "reviewer \<Rightarrow> string \<Rightarrow> agent_task list \<Rightarrow> (string \<times> work_result) list \<Rightarrow> team_state \<Rightarrow> review_report \<times> team_state" where
  "reviewed V goal tasks results tm =
    (let (report, tm1) = review V goal tasks results tm in
     (report, emit_team_event ''review.completed'' ''reviewer-0'' ''review''
        [(PStr ''verdict'', PStr (verdict_value (rp_verdict report))), (PStr ''finding_count'', PInt (int (length (rp_findings report)))),
         (PStr ''fix_round'', PInt (tm_fix_round_count tm1))] tm1))"

definition begin_fix_round :: "team_state \<Rightarrow> team_state" where
  "begin_fix_round tm = tm\<lparr>tm_fix_round_count := tm_fix_round_count tm + 1\<rparr>"

definition fix_round_event :: "agent_task list \<Rightarrow> team_state \<Rightarrow> team_state" where
  "fix_round_event fix_tasks tm = root_event ''team.fix_round_started''
     [(''fix_round'', PInt (tm_fix_round_count tm)), (''fix_task_count'', PInt (int (length fix_tasks)))] tm"

definition out_of_rounds :: "coordinator \<Rightarrow> team_state \<Rightarrow> bool" where
  "out_of_rounds C tm = (bg_max_fix_rounds (co_budget C) \<le> tm_fix_round_count tm)"

definition limit_stop :: "review_verdict \<Rightarrow> team_stop" where
  "limit_stop v = (if v = RequestChanges then StopReflectionLimit else StopBlocked)"

text \<open>\<open>d.update(other)\<close>\<close>

definition dict_update :: "('k \<times> 'v) list \<Rightarrow> ('k \<times> 'v) list \<Rightarrow> ('k \<times> 'v) list" where
  "dict_update d new = fold (\<lambda>kv. dict_set (fst kv) (snd kv)) new d"

definition completed_so_far :: "(string \<times> work_result) list \<Rightarrow> string set" where
  "completed_so_far results = fst ` set (filter (\<lambda>kv. wk_status (snd kv) = WorkerCompleted) results)"

section \<open>The number of fix rounds does not change in a round\<close>

definition same_rounds :: "team_state \<Rightarrow> team_state \<Rightarrow> bool" where
  "same_rounds tm tm' \<longleftrightarrow> tm_fix_round_count tm' = tm_fix_round_count tm"

lemma same_rounds_emit [simp]:
  "same_rounds tm (emit_team_event ty agent task payload tm') \<longleftrightarrow> same_rounds tm tm'"
  "same_rounds tm (root_event ty payload' tm') \<longleftrightarrow> same_rounds tm tm'"
  "same_rounds tm (accumulate_counters r tm') \<longleftrightarrow> same_rounds tm tm'"
  by (simp_all add: same_rounds_def emit_team_event_def root_event_def accumulate_counters_def Let_def)

lemma same_rounds_emit_all [simp]: "same_rounds tm (emit_all es tm') \<longleftrightarrow> same_rounds tm tm'"
  unfolding emit_all_def by (induction es arbitrary: tm') (auto split: prod.splits)

lemma same_rounds_cancel [simp]: "same_rounds tm (snd (cancel_active_worker i th j tm')) \<longleftrightarrow> same_rounds tm tm'"
  by (simp add: cancel_active_worker_def Let_def split: joined.splits)

lemma same_rounds_fold:
  assumes "\<And>x st. same_rounds tm (rd_team st) \<Longrightarrow> same_rounds tm (rd_team (f x st))" "same_rounds tm (rd_team st)"
  shows "same_rounds tm (rd_team (fold f xs st))"
  using assms(2) by (induction xs arbitrary: st) (auto intro: assms(1))

lemma same_rounds_record: "same_rounds tm (rd_team (record_result i r st)) \<longleftrightarrow> same_rounds tm (rd_team st)"
  by (simp add: record_result_def release_reservation_def same_rounds_def accumulate_counters_def Let_def)

lemma same_rounds_turn:
  assumes "same_rounds tm (rd_team st)"
  shows "same_rounds tm (rd_team (fst (round_turn C tasks ids t st)))"
proof -
  have c: "same_rounds tm (snd (check_budget C b tm')) \<longleftrightarrow> same_rounds tm tm'" for b tm'
    by (simp add: check_budget_def steps_event_def model_calls_event_def)
  have p: "same_rounds tm (rd_team (cancel_pending js x s))" if "same_rounds tm (rd_team s)" for js x s
    using that by (simp add: cancel_pending_def)
  have a: "same_rounds tm (rd_team (cancel_active t x s))" if "same_rounds tm (rd_team s)" for x s
    using that by (simp add: cancel_active_def case_prod_beta Let_def split: option.splits)
  have sc: "same_rounds tm (rd_team (schedule_task C ids x s))" if "same_rounds tm (rd_team s)" for x s
    using that by (simp add: schedule_task_def start_worker_def same_rounds_def Let_def)
  have co: "same_rounds tm (rd_team (collect tasks x s))" if "same_rounds tm (rd_team s)" for x s
    using that by (simp add: collect_def case_prod_beta same_rounds_record Let_def split: worker_status.splits)
  show ?thesis
    using assms by (simp add: round_turn_def scheduled_def apply_cancellations_def case_prod_beta c Let_def)
      (intro impI same_rounds_fold co sc a p; simp add: c)
qed

lemma same_rounds_loop:
  "same_rounds tm (rd_team st) \<Longrightarrow> same_rounds tm (rd_team (fst (round_loop C tasks ids ts st)))"
proof (induction ts arbitrary: st)
  case Nil
  then show ?case by simp
next
  case (Cons t ts)
  obtain st' stop where r: "round_turn C tasks ids t st = (st', stop)" by fastforce
  with same_rounds_turn [OF Cons.prems, of C tasks ids t] have "same_rounds tm (rd_team st')" by simp
  with Cons.IH r show ?case by (cases stop) simp_all
qed

lemma same_rounds_round:
  assumes "execute_task_round C tasks ids ts en tm = Some (st, stop)"
  shows "tm_fix_round_count (rd_team st) = tm_fix_round_count tm"
proof -
  have s: "same_rounds tm (rd_team (straggler en x s))" if "same_rounds tm (rd_team s)" for x s
    using that by (auto simp: straggler_def case_prod_beta same_rounds_record Let_def split: joined.splits option.splits)
  have "same_rounds tm (rd_team (start_round tasks tm))" by (simp add: same_rounds_def start_round_def)
  then have "same_rounds tm (rd_team (fst (round_loop C tasks ids ts (start_round tasks tm))))" by (rule same_rounds_loop)
  then have "same_rounds tm (rd_team (finish_round tasks en stop' (fst (round_loop C tasks ids ts (start_round tasks tm)))))" for stop'
    by (simp add: finish_round_def Let_def) (rule same_rounds_fold [OF s])
  with assms show ?thesis
    by (auto simp: execute_task_round_def same_rounds_def split: prod.splits option.splits)
qed

section \<open>The parallel path\<close>

lemma reviewed_rounds: "tm_fix_round_count (snd (reviewed V goal tasks results tm)) = tm_fix_round_count tm"
  by (simp add: reviewed_def review_def emit_team_event_def Let_def)

text \<open>
  The review and fix loop of \<open>_run_parallel\<close>, from a round that completed all tasks; \<open>n\<close> is the number
  of the last round. Each fix round counts against the maximum, which ends the loop.
\<close>

function review_loop ::
  "coordinator \<Rightarrow> string \<Rightarrow> surroundings \<Rightarrow> nat \<Rightarrow> agent_task list \<Rightarrow> (string \<times> work_result) list \<Rightarrow> team_state \<Rightarrow>
    (team_stop \<times> agent_task list \<times> (string \<times> work_result) list \<times> review_finding list \<times> team_state) option" where
  "review_loop C goal S n tasks results tm =
    (let (report, tm1) = reviewed (su_reviewer S n) goal tasks results tm; found = rp_findings report in
     if rp_verdict report = Approve then Some (StopAllTasksCompleted, tasks, results, found, tm1)
     else if out_of_rounds C tm1 then Some (limit_stop (rp_verdict report), tasks, results, found, tm1)
     else
       (let tm2 = begin_fix_round tm1; fix_tasks = create_fix_tasks found tasks in
        if fix_tasks = []
        then Some (if out_of_rounds C tm2 then StopReflectionLimit else StopBlocked, tasks, results, found, tm2)
        else
          (case execute_task_round C fix_tasks (completed_so_far results) (su_turns S (Suc n)) (su_ending S (Suc n))
              (fix_round_event fix_tasks tm2) of
             None \<Rightarrow> None
           | Some (rd, stop) \<Rightarrow>
               (let results' = dict_update results (rd_results rd) in
                if stop \<noteq> StopAllTasksCompleted then Some (stop, tasks @ fix_tasks, results', found, rd_team rd)
                else review_loop C goal S (Suc n) (tasks @ fix_tasks) results' (rd_team rd)))))"
  by pat_completeness auto

termination
proof (relation "measure (\<lambda>(C, goal, S, n, tasks, results, tm). nat (bg_max_fix_rounds (co_budget C) - tm_fix_round_count tm))",
    goal_cases)
  case (2 C goal S n tasks results tm x report tm1 found tm2 fix_tasks y rd stop results')
  have "tm_fix_round_count tm1 = tm_fix_round_count tm"
    using reviewed_rounds [of "su_reviewer S n" goal tasks results tm] 2(1,2) by (metis snd_conv)
  moreover have "tm_fix_round_count (rd_team rd) = tm_fix_round_count (fix_round_event fix_tasks tm2)"
    using same_rounds_round 2 by metis
  ultimately show ?case
    using 2 by (simp add: out_of_rounds_def begin_fix_round_def fix_round_event_def root_event_def emit_team_event_def Let_def)
qed simp

definition run_parallel ::
  "coordinator \<Rightarrow> string \<Rightarrow> surroundings \<Rightarrow> agent_task list \<Rightarrow> team_state \<Rightarrow> (coordinator_result \<times> team_state) option" where
  "run_parallel C goal S tasks tm =
    (case execute_task_round C tasks {} (su_turns S 0) (su_ending S 0) tm of
       None \<Rightarrow> None
     | Some (rd, stop) \<Rightarrow>
         (let results = dict_update [] (rd_results rd) in
          if stop \<noteq> StopAllTasksCompleted then Some (stopped C stop results [] (rd_team rd))
          else (case review_loop C goal S 0 tasks results (rd_team rd) of
                  None \<Rightarrow> None
                | Some (stop', tasks', results', found, tm') \<Rightarrow> Some (stopped C stop' results' found tm'))))"

section \<open>The sequential path\<close>

type_synonym solo_state = "(string \<times> work_result) list \<times> bool \<times> team_state"

definition run_worker :: "coordinator \<Rightarrow> surroundings \<Rightarrow> nat \<Rightarrow> agent_task \<Rightarrow> (string \<times> work_result) list \<times> team_state \<Rightarrow>
    work_result \<times> (string \<times> work_result) list \<times> team_state" where
  "run_worker C S k task s =
    (let r = su_work S k (cap_task C (snd s) task) in
     (r, dict_set (ag_task_id task) r (fst s), accumulate_counters r (emit_all (su_events S k) (snd s))))"

definition dependency_failed :: "(string \<times> work_result) list \<Rightarrow> agent_task \<Rightarrow> bool" where
  "dependency_failed results task =
     list_ex (\<lambda>dep. case map_of results dep of None \<Rightarrow> False | Some r \<Rightarrow> wk_status r \<noteq> WorkerCompleted) (ag_dependencies task)"

definition solo_task :: "coordinator \<Rightarrow> surroundings \<Rightarrow> nat \<Rightarrow> agent_task \<Rightarrow> solo_state \<Rightarrow> solo_state" where
  "solo_task C S k task s = (case s of (results, failed, tm) \<Rightarrow>
     let i = ag_task_id task;
         skip = (\<lambda>status summary tm'. (dict_set i (plain_result i status summary) results, True, tm')) in
     if su_deadline S k then skip WorkerCancelled ''cancelled: team wall-time budget exhausted'' (wall_time_event C tm)
     else if team_steps_exhausted C tm then skip WorkerCancelled ''cancelled: team step budget exhausted'' (steps_event C tm)
     else if team_model_calls_exhausted C tm
     then skip WorkerCancelled ''cancelled: team model-call budget exhausted'' (model_calls_event C tm)
     else if i \<in> su_cancelled S k then skip WorkerCancelled ''cancelled by external request'' tm
     else if dependency_failed results task then skip WorkerBlocked ''blocked because a dependency failed'' tm
     else (let (r, results', tm') = run_worker C S k task (results, tm) in
           (results', failed \<or> wk_status r \<noteq> WorkerCompleted, tm')))"

text \<open>The loop over the topological order; \<open>None\<close> is the error of an id that is no task.\<close>

fun solo_loop :: "coordinator \<Rightarrow> surroundings \<Rightarrow> (string \<times> agent_task) list \<Rightarrow> nat \<Rightarrow> string list \<Rightarrow> solo_state \<Rightarrow> solo_state option" where
  "solo_loop C S by_id k [] s = Some s"
| "solo_loop C S by_id k (i # is) s =
    (case map_of by_id i of None \<Rightarrow> None | Some task \<Rightarrow> solo_loop C S by_id (Suc k) is (solo_task C S k task s))"

text \<open>The fix tasks of a sequential round: run one after the other until one does not complete.\<close>

fun solo_fixes :: "coordinator \<Rightarrow> surroundings \<Rightarrow> nat \<Rightarrow> agent_task list \<Rightarrow> (string \<times> work_result) list \<times> team_state \<Rightarrow>
    bool \<times> nat \<times> (string \<times> work_result) list \<times> team_state" where
  "solo_fixes C S k [] s = (True, k, s)"
| "solo_fixes C S k (t # ts) s =
    (let (r, s') = run_worker C S k t s in
     if wk_status r \<noteq> WorkerCompleted then (False, Suc k, s') else solo_fixes C S (Suc k) ts s')"

lemma solo_fixes_rounds: "tm_fix_round_count (snd (snd (snd (solo_fixes C S k ts s)))) = tm_fix_round_count (snd s)"
proof (induction ts arbitrary: k s)
  case Nil
  then show ?case by simp
next
  case (Cons t ts)
  have "same_rounds (snd s) (snd (snd (run_worker C S k t s)))"
    by (simp add: run_worker_def Let_def) (simp add: same_rounds_def)
  then show ?case using Cons.IH [of "Suc k" "snd (run_worker C S k t s)"]
    by (simp add: same_rounds_def case_prod_beta Let_def)
qed

function solo_review_loop ::
  "coordinator \<Rightarrow> string \<Rightarrow> surroundings \<Rightarrow> nat \<Rightarrow> nat \<Rightarrow> agent_task list \<Rightarrow> (string \<times> work_result) list \<Rightarrow> team_state \<Rightarrow>
    team_stop \<times> (string \<times> work_result) list \<times> review_finding list \<times> team_state" where
  "solo_review_loop C goal S n k tasks results tm =
    (let (report, tm1) = reviewed (su_reviewer S n) goal tasks results tm; found = rp_findings report in
     if rp_verdict report = Approve then (StopAllTasksCompleted, results, found, tm1)
     else if out_of_rounds C tm1 then (limit_stop (rp_verdict report), results, found, tm1)
     else
       (let tm2 = begin_fix_round tm1; fix_tasks = create_fix_tasks found tasks in
        if fix_tasks = [] then (StopReflectionLimit, results, found, tm2)
        else
          (let (completed, k', results', tm3) = solo_fixes C S k fix_tasks (results, fix_round_event fix_tasks tm2) in
           if \<not> completed then (StopBlocked, results', found, tm3)
           else solo_review_loop C goal S (Suc n) k' (tasks @ fix_tasks) results' tm3)))"
  by pat_completeness auto
termination
proof (relation "measure (\<lambda>(C, goal, S, n, k, tasks, results, tm). nat (bg_max_fix_rounds (co_budget C) - tm_fix_round_count tm))",
    goal_cases)
  case (2 C goal S n k tasks results tm x report tm1 found tm2 fix_tasks y completed z k' u results' tm3)
  have "tm_fix_round_count tm1 = tm_fix_round_count tm"
    using reviewed_rounds [of "su_reviewer S n" goal tasks results tm] 2(1,2) by (metis snd_conv)
  moreover have "tm_fix_round_count tm3 = tm_fix_round_count (fix_round_event fix_tasks tm2)"
    using solo_fixes_rounds [of C S k fix_tasks "(results, fix_round_event fix_tasks tm2)"] 2 by (metis snd_conv)
  moreover have "tm_fix_round_count (fix_round_event fix_tasks tm2) = tm_fix_round_count tm1 + 1"
    using 2(6) by (simp add: begin_fix_round_def fix_round_event_def root_event_def emit_team_event_def Let_def)
  moreover have "tm_fix_round_count tm1 < bg_max_fix_rounds (co_budget C)" using 2(5) by (simp add: out_of_rounds_def)
  moreover have "u = (results', tm3)" using 2 by metis
  ultimately show ?case by simp
qed simp

definition run_single_agent ::
  "coordinator \<Rightarrow> string \<Rightarrow> surroundings \<Rightarrow> agent_task list \<Rightarrow> string list \<Rightarrow> team_state \<Rightarrow> (coordinator_result \<times> team_state) option" where
  "run_single_agent C goal S tasks order tm =
    (let tm1 = root_event ''team.single_agent_path''
           [(''reason'', PStr ''not worth parallelizing''), (''task_count'', PInt (int (length tasks)))] tm in
     case solo_loop C S (task_by_id tasks) 0 order ([], False, tm1) of
       None \<Rightarrow> None
     | Some (results, failed, tm2) \<Rightarrow>
         (let (stop, results', found, tm3) = (if failed then (StopBlocked, results, [], tm2)
              else solo_review_loop C goal S 0 (length order) tasks results tm2) in
          Some (stopped C stop results' found tm3)))"

section \<open>Run\<close>

definition worth_parallelizing :: "agent_task list \<Rightarrow> bool" where
  "worth_parallelizing tasks = (2 \<le> length tasks \<and>
     list_ex (\<lambda>(a, b). ag_task_id b \<notin> set (ag_dependencies a) \<and> ag_task_id a \<notin> set (ag_dependencies b)) (later_pairs tasks))"

definition coordinator_run ::
  "coordinator \<Rightarrow> string \<Rightarrow> surroundings \<Rightarrow> agent_task list \<Rightarrow> team_state \<Rightarrow> (coordinator_result \<times> team_state) option" where
  "coordinator_run C goal S tasks tm =
    (let tm1 = root_event ''team.started'' [(''user_goal'', PStr goal), (''task_count'', PInt (int (length tasks)))] tm in
     if tasks = []
     then Some (\<lparr>cr_stop_reason = StopCompleted, cr_task_results = [], cr_review_findings = [], cr_summary = ''no tasks provided'',
         cr_trace_events = tm_trace_events tm1\<rparr>, tm1)
     else
       (let check = validate_task_dag tasks in
        if \<not> dv_valid check
        then (let tm2 = root_event ''team.dag_invalid'' [(''errors'', PList (map PStr (dv_errors check)))] tm1 in
              Some (\<lparr>cr_stop_reason = StopBlocked, cr_task_results = [], cr_review_findings = [],
                cr_summary = ''DAG invalid: '' @ join_with ''; '' (dv_errors check), cr_trace_events = tm_trace_events tm2\<rparr>, tm2))
        else
          (let order = (case dv_topological_order check of Some (i # is) \<Rightarrow> i # is | _ \<Rightarrow> map ag_task_id tasks) in
           if worth_parallelizing tasks then run_parallel C goal S tasks tm1
           else run_single_agent C goal S tasks order tm1)))"

end
