(* ===== verification/Team_Run_Props.thy ===== *)
theory Team_Run_Props
  imports Team_Round_Steps Team_Run Team_Dag_Props
begin

text \<open>
  The coordinator: what a scheduling round keeps at every moment, that it ends within its budget, which
  tasks it never runs, and what the success of a whole run means.
\<close>

section \<open>How the statuses evolve\<close>

text \<open>
  Settled statuses are final, and only the tasks of \<open>J\<close> become completed.
\<close>

definition evolves :: "string set \<Rightarrow> statuses \<Rightarrow> statuses \<Rightarrow> bool" where
  "evolves J s s' \<longleftrightarrow> map fst s' = map fst s \<and>
     (\<forall>i x. map_of s i = Some x \<longrightarrow> settled x \<longrightarrow> map_of s' i = Some x) \<and>
     (\<forall>i. map_of s' i = Some TeamCompleted \<longrightarrow> map_of s i = Some TeamCompleted \<or> i \<in> J)"

lemma team_evolves_refl [simp]: "evolves J s s"
  by (simp add: evolves_def)

lemma team_evolves_trans: "evolves J s s' \<Longrightarrow> evolves K s' s'' \<Longrightarrow> evolves (J \<union> K) s s''"
  unfolding evolves_def by (metis UnCI)

lemma evolves_trans_same: "evolves J s s' \<Longrightarrow> evolves J s' s'' \<Longrightarrow> evolves J s s''"
  using team_evolves_trans [of J s s' J s''] by simp

lemma evolves_mono: "evolves J s s' \<Longrightarrow> J \<subseteq> K \<Longrightarrow> evolves K s s'"
  by (auto simp: evolves_def)

lemma evolves_set:
  assumes "map_of s i = Some TeamPending \<or> map_of s i = Some TeamRunning" "x = TeamCompleted \<Longrightarrow> i \<in> J"
  shows "evolves J s (dict_set i x s)"
proof -
  have "i \<in> fst ` set s" using assms(1) by (metis fst_conv image_iff map_of_SomeD)
  then have "map fst (dict_set i x s) = map fst s" by (simp add: keys_dict_set)
  then show ?thesis using assms by (auto simp: evolves_def settled_def)
qed

lemma evolves_fold:
  assumes "\<And>x st. x \<in> set xs \<Longrightarrow> evolves J (h st) (h (f x st))"
  shows "evolves J (h st) (h (fold f xs st))"
  using assms
proof (induction xs arbitrary: st)
  case Nil
  then show ?case by simp
next
  case (Cons x xs)
  have "evolves J (h st) (h (f x st))" by (rule Cons.prems) simp
  moreover have "evolves J (h (f x st)) (h (fold f xs (f x st)))" by (rule Cons.IH) (rule Cons.prems, simp)
  ultimately show ?case by (simp add: evolves_trans_same)
qed

lemma evolves_scheduled: "evolves {} (rd_statuses st) (rd_statuses (scheduled C tasks ids t st))"
proof -
  have p: "evolves {} (rd_statuses s) (rd_statuses (cancel_pending js x s))" for js x s
    by (auto simp: cancel_pending_def intro: evolves_set)
  have a: "rd_statuses (cancel_active t x s) = rd_statuses s" for x s
    by (simp add: cancel_active_def case_prod_beta Let_def split: option.splits)
  have sc: "evolves {} (rd_statuses s) (rd_statuses (schedule_task C ids x s))" for x s
    by (auto simp: schedule_task_def start_worker_def Let_def intro: evolves_set)
  let ?m = "fold (cancel_pending (tk_cancelled t)) tasks st"
  have "evolves {} (rd_statuses st) (rd_statuses ?m)" by (rule evolves_fold) (rule p)
  moreover have "evolves {} (rd_statuses ?m) (rd_statuses (apply_cancellations tasks t st))"
    unfolding apply_cancellations_def Let_def by (rule evolves_fold) (simp add: a)
  moreover have "evolves {} (rd_statuses (apply_cancellations tasks t st)) (rd_statuses (scheduled C tasks ids t st))"
    unfolding scheduled_def by (rule evolves_fold) (rule sc)
  ultimately show ?thesis by (blast intro: evolves_trans_same)
qed

lemma evolves_cascade: "evolves {} s (fst (cascade g stack s c))"
proof (induction g stack s c rule: cascade.induct)
  case (2 g current stack s c)
  have "evolves {} (fst (snd (stack, s, c))) (fst (snd (fold cancel_dependent (lookup_list g current) (stack, s, c))))"
    by (rule evolves_fold [where h = "\<lambda>x. fst (snd x)"]) (auto simp: cancel_dependent_def intro: evolves_set split: prod.splits)
  with "2.IH" show ?case by (simp add: Let_def) (blast intro: evolves_trans_same)
qed simp

lemma evolves_block: "evolves {} s (fold (block_dependent i) tasks s)"
  by (rule evolves_fold [where h = "\<lambda>x. x"]) (auto simp: block_dependent_def intro: evolves_set)

lemma evolves_collect:
  assumes "map_of (rd_statuses st) (fst f) = Some TeamRunning"
  shows "evolves {fst f} (rd_statuses st) (rd_statuses (collect tasks f st))"
proof -
  let ?s = "\<lambda>x. dict_set (fst f) x (rd_statuses st)"
  have set: "evolves {fst f} (rd_statuses st) (?s x)" for x using assms by (simp add: evolves_set)
  have failed: "evolves {fst f} (rd_statuses st) (fold (block_dependent (fst f)) tasks (?s TeamFailed))"
    using team_evolves_trans [OF set evolves_block] by simp
  have "evolves {} (?s TeamCancelled) (fst (cascade_cancel (fst f) tasks (?s TeamCancelled) c))" for c
    unfolding cascade_cancel_def by (rule evolves_cascade)
  then have cancelled: "evolves {fst f} (rd_statuses st) (fst (cascade_cancel (fst f) tasks (?s TeamCancelled) c))" for c
    using team_evolves_trans [OF set] by fastforce
  show ?thesis
    using set failed cancelled by (simp add: collect_def case_prod_beta Let_def split: worker_status.splits)
qed

text \<open>The collection of the results in the queue of a turn.\<close>

lemma evolves_collect_all:
  assumes "round_ok C tasks ids st" "distinct (map fst fs)"
    "\<And>f. f \<in> set fs \<Longrightarrow> \<exists>th. map_of (rd_active st) (fst f) = Some th \<and> in_bounds C th (snd f)"
  shows "evolves (fst ` set fs) (rd_statuses st) (rd_statuses (fold (collect tasks) fs st)) \<and>
    (\<forall>f \<in> set fs. \<exists>x. map_of (rd_statuses (fold (collect tasks) fs st)) (fst f) = Some x \<and> settled x)"
  using assms
proof (induction fs arbitrary: st)
  case Nil
  then show ?case by simp
next
  case (Cons f fs)
  obtain th where th: "map_of (rd_active st) (fst f) = Some th" "in_bounds C th (snd f)" using Cons.prems(3) [of f] by auto
  note c = collect_ok [OF Cons.prems(1) th]
  have fl: "flow C tasks ids st" using Cons.prems(1) by (simp add: round_ok_def)
  have act: "fst f \<in> fst ` set (rd_active st)" using th(1) by (metis fst_conv image_eqI map_of_SomeD)
  then have run: "map_of (rd_statuses st) (fst f) = Some TeamRunning"
    using flowD(3) [OF fl, of "fst f"] by (simp add: status_def)
  let ?st1 = "collect tasks f st"
  have fl1: "flow C tasks ids ?st1" using c by (simp add: round_ok_def)
  have e1: "evolves {fst f} (rd_statuses st) (rd_statuses ?st1)" by (rule evolves_collect [OF run])
  obtain x where x: "map_of (rd_statuses ?st1) (fst f) = Some x"
    using status_keys [OF fl1, of "fst f"] status_keys [OF fl, of "fst f"] run by (auto simp: status_def)
  have sx: "settled x"
  proof -
    have "fst f \<notin> fst ` set (rd_active ?st1)" using c by (auto simp: dict_del_def)
    then have "x \<noteq> TeamRunning" "x \<noteq> TeamReady"
      using flowD(3) [OF fl1, of "fst f"] flowD(2) [OF fl1, of "fst f"] x by (auto simp: status_def)
    moreover have "x \<noteq> TeamPending"
    proof -
      have nc: "map_of (rd_statuses (collect tasks f st)) (fst f) \<noteq> Some TeamPending"
      proof -
        let ?s = "\<lambda>y. dict_set (fst f) y (rd_statuses st)"
        have keep: "map_of s' (fst f) \<noteq> Some TeamPending" if "evolves {} (?s y) s'" "settled y" for s' y
        proof -
          have "map_of s' (fst f) = Some y" using that unfolding evolves_def by simp
          with that(2) show ?thesis by (auto simp: settled_def)
        qed
        note evolves_block [of "?s TeamFailed" "fst f" tasks]
        moreover have "evolves {} (?s TeamCancelled) (fst (cascade_cancel (fst f) tasks (?s TeamCancelled) d))" for d
          unfolding cascade_cancel_def by (rule evolves_cascade)
        ultimately show ?thesis
          using keep [of TeamFailed] keep [of TeamCancelled]
          by (simp add: collect_def case_prod_beta settled_def Let_def split: worker_status.splits)
      qed
      with x show ?thesis by auto
    qed
    ultimately show ?thesis by (cases x) (simp_all add: settled_def)
  qed
  have "\<exists>th. map_of (rd_active ?st1) (fst g) = Some th \<and> in_bounds C th (snd g)" if "g \<in> set fs" for g
  proof -
    have "fst g \<noteq> fst f" using Cons.prems(2) that by (auto simp: image_iff)
    then show ?thesis using Cons.prems(3) [of g] that c by simp
  qed
  note ih = Cons.IH [OF conjunct1 [OF c] _ this]
  have dis: "distinct (map fst fs)" using Cons.prems(2) by simp
  have e2: "evolves (fst ` set fs) (rd_statuses ?st1) (rd_statuses (fold (collect tasks) fs ?st1))" using ih dis by blast
  have "map_of (rd_statuses (fold (collect tasks) fs ?st1)) (fst f) = Some x"
    using e2 x sx unfolding evolves_def by blast
  then show ?case using team_evolves_trans [OF e1 e2] ih dis sx by auto
qed

section \<open>The end of a round\<close>

definition unsettled :: "statuses \<Rightarrow> nat" where
  "unsettled s = length (filter (\<lambda>kv. \<not> settled (snd kv)) s)"

lemma unsettled_card:
  assumes "distinct (map fst s)"
  shows "unsettled s = card {i. \<exists>x. map_of s i = Some x \<and> \<not> settled x}"
proof -
  let ?u = "filter (\<lambda>kv. \<not> settled (snd kv)) s"
  have "distinct (map fst ?u)" using assms by (rule distinct_map_fst_filter)
  then have "card (set (map fst ?u)) = length (map fst ?u)" by (rule distinct_card)
  moreover have "set (map fst ?u) = {i. \<exists>x. map_of s i = Some x \<and> \<not> settled x}"
  proof (rule set_eqI)
    fix i
    show "i \<in> set (map fst ?u) \<longleftrightarrow> i \<in> {i. \<exists>x. map_of s i = Some x \<and> \<not> settled x}"
      using assms by (auto simp: image_iff)
  qed
  ultimately show ?thesis by (simp add: unsettled_def)
qed

lemma unsettled_evolves:
  assumes e: "evolves J s s'" and d: "distinct (map fst s)"
  shows "unsettled s' \<le> unsettled s"
    and "map_of s i = Some x \<Longrightarrow> \<not> settled x \<Longrightarrow> map_of s' i = Some y \<Longrightarrow> settled y \<Longrightarrow> unsettled s' < unsettled s"
proof -
  let ?U = "\<lambda>s. {i. \<exists>x. map_of s i = Some x \<and> \<not> settled x}"
  have k: "map fst s' = map fst s" using e by (simp add: evolves_def)
  then have d': "distinct (map fst s')" using d by simp
  have dom: "map_of s' j \<noteq> None \<Longrightarrow> map_of s j \<noteq> None" for j
    using k by (metis list.set_map map_of_eq_None_iff)
  have sub: "?U s' \<subseteq> ?U s"
  proof
    fix j
    assume "j \<in> ?U s'"
    then obtain y where y: "map_of s' j = Some y" "\<not> settled y" by blast
    then obtain x where x: "map_of s j = Some x" using dom [of j] by auto
    have "\<not> settled x" using e x y unfolding evolves_def by fastforce
    with x show "j \<in> ?U s" by blast
  qed
  have "?U s \<subseteq> fst ` set s" by (auto intro: map_of_SomeD rev_image_eqI)
  then have fin: "finite (?U s)" by (rule finite_subset) simp
  show "unsettled s' \<le> unsettled s"
    unfolding unsettled_card [OF d] unsettled_card [OF d'] by (rule card_mono [OF fin sub])
  assume "map_of s i = Some x" "\<not> settled x" "map_of s' i = Some y" "settled y"
  then have "i \<in> ?U s" "i \<notin> ?U s'" by auto
  with sub have "?U s' \<subset> ?U s" by blast
  then show "unsettled s' < unsettled s"
    unfolding unsettled_card [OF d] unsettled_card [OF d'] by (rule psubset_card_mono [OF fin])
qed

text \<open>A turn that the budget does not stop, piece by piece.\<close>

lemma turn_pieces:
  assumes ok: "round_ok C tasks ids st" "tasks_ok tasks" "turn_ok C tasks ids t st"
  defines "mid \<equiv> scheduled C tasks ids t (opened C t st)"
  defines "st2 \<equiv> fold (collect tasks) (tk_finished t) mid"
  shows "round_ok C tasks ids mid" "round_ok C tasks ids st2"
    "evolves {} (rd_statuses st) (rd_statuses mid)" "evolves (fst ` set (tk_finished t)) (rd_statuses mid) (rd_statuses st2)"
    "rd_active st2 = filter (\<lambda>kv. fst kv \<notin> fst ` set (tk_finished t)) (rd_active mid)"
    "f \<in> set (tk_finished t) \<Longrightarrow> map_of (rd_statuses mid) (fst f) = Some TeamRunning"
    "f \<in> set (tk_finished t) \<Longrightarrow> \<exists>x. map_of (rd_statuses st2) (fst f) = Some x \<and> settled x"
proof -
  note fin = ok(3) [unfolded turn_ok_def, THEN conjunct2]
  show mid: "round_ok C tasks ids mid" unfolding mid_def by (rule scheduled_ok [OF ok])
  have th: "\<exists>th. map_of (rd_active mid) (fst f) = Some th \<and> in_bounds C th (snd f)" if "f \<in> set (tk_finished t)" for f
    unfolding mid_def using bspec [OF conjunct2 [OF fin] that] .
  note c = collect_all_ok [OF mid conjunct1 [OF fin] th] and e = evolves_collect_all [OF mid conjunct1 [OF fin] th]
  show "round_ok C tasks ids st2" unfolding st2_def using c by blast
  show "evolves {} (rd_statuses st) (rd_statuses mid)"
    unfolding mid_def using evolves_scheduled [of "opened C t st" C tasks ids t] by (simp add: opened_def)
  show "evolves (fst ` set (tk_finished t)) (rd_statuses mid) (rd_statuses st2)" unfolding st2_def using e by blast
  show "rd_active st2 = filter (\<lambda>kv. fst kv \<notin> fst ` set (tk_finished t)) (rd_active mid)" unfolding st2_def using c by blast
  show "map_of (rd_statuses mid) (fst f) = Some TeamRunning" if f: "f \<in> set (tk_finished t)"
  proof -
    have "fst f \<in> fst ` set (rd_active mid)" using th [OF f] by (metis fst_conv image_eqI map_of_SomeD)
    moreover have "flow C tasks ids mid" using mid by (simp add: round_ok_def)
    ultimately show ?thesis using flowD(3) [of C tasks ids mid "fst f"] by (simp add: status_def)
  qed
  show "\<exists>x. map_of (rd_statuses st2) (fst f) = Some x \<and> settled x" if "f \<in> set (tk_finished t)"
    unfolding st2_def using e that by blast
qed

text \<open>A turn that does not stop leaves an active worker.\<close>

lemma no_stop_active:
  assumes "flow C tasks ids st" "tasks_ok tasks" "round_stop st = None"
  shows "rd_active st \<noteq> []"
proof
  assume none: "rd_active st = []"
  obtain kv where kv: "kv \<in> set (rd_statuses st)" "\<not> settled (snd kv)"
    using assms(3) by (auto simp: round_stop_def list_all_iff split: if_splits)
  have np: "snd kv \<noteq> TeamPending" using assms(3) none kv(1) by (auto simp: round_stop_def list_ex_iff split: if_splits)
  have "distinct (map fst (rd_statuses st))" using flowD(1) [OF assms(1)] assms(2) by (simp add: tasks_ok_def)
  then have "status st (fst kv) = Some (snd kv)" using kv(1) by (simp add: status_def)
  then show False
    using flowD(2,3) [OF assms(1), of "fst kv"] none kv(2) np by (cases "snd kv") (auto simp: settled_def)
qed

fun progressing :: "coordinator \<Rightarrow> agent_task list \<Rightarrow> string set \<Rightarrow> turn list \<Rightarrow> round \<Rightarrow> bool" where
  "progressing C tasks ids [] st = True"
| "progressing C tasks ids (t # ts) st =
    ((rd_active (scheduled C tasks ids t (opened C t st)) \<noteq> [] \<longrightarrow> tk_finished t \<noteq> []) \<and>
     (case round_turn C tasks ids t st of (st', None) \<Rightarrow> progressing C tasks ids ts st' | _ \<Rightarrow> True))"

lemma loop_ends:
  assumes "round_ok C tasks ids st" "tasks_ok tasks" "turns_ok C tasks ids ts st" "progressing C tasks ids ts st"
    "unsettled (rd_statuses st) < length ts"
  shows "snd (round_loop C tasks ids ts st) \<noteq> None"
  using assms
proof (induction ts arbitrary: st)
  case Nil
  then show ?case by simp
next
  case (Cons t ts)
  obtain st' stop where r: "round_turn C tasks ids t st = (st', stop)" by fastforce
  show ?case
  proof (cases stop)
    case (Some reason)
    with r show ?thesis by simp
  next
    case None
    let ?mid = "scheduled C tasks ids t (opened C t st)"
    have tok: "turn_ok C tasks ids t st" using Cons.prems(3) by simp
    note pc = turn_pieces [OF Cons.prems(1,2) tok]
    have st': "st' = fold (collect tasks) (tk_finished t) ?mid" "round_stop st' = None"
      using r None by (auto simp: round_turn_cases Let_def split: if_splits)
    have ok': "round_ok C tasks ids st'" using pc(2) st'(1) by simp
    then have fl': "flow C tasks ids st'" by (simp add: round_ok_def)
    have "rd_active st' \<noteq> []" by (rule no_stop_active [OF fl' Cons.prems(2) st'(2)])
    then have "rd_active ?mid \<noteq> []" using pc(5) st'(1) by auto
    then have "tk_finished t \<noteq> []" using Cons.prems(4) by simp
    then obtain f where f: "f \<in> set (tk_finished t)" by (meson last_in_set)
    have dis: "distinct (map fst (rd_statuses s))" if "round_ok C tasks ids s" for s
      using that Cons.prems(2) flowD(1) [of C tasks ids s] by (simp add: round_ok_def tasks_ok_def)
    obtain y where y: "map_of (rd_statuses st') (fst f) = Some y" "settled y" using pc(7) [OF f] st'(1) by auto
    have "unsettled (rd_statuses st') < unsettled (rd_statuses ?mid)"
      using unsettled_evolves(2) [OF pc(4) dis [OF pc(1)] pc(6) [OF f], of y] y st'(1) by (simp add: settled_def)
    also have "\<dots> \<le> unsettled (rd_statuses st)" by (rule unsettled_evolves(1) [OF pc(3) dis [OF Cons.prems(1)]])
    finally have "unsettled (rd_statuses st') < length ts" using Cons.prems(5) by simp
    from Cons.IH [OF ok' Cons.prems(2) _ _ this] Cons.prems(3,4) r None show ?thesis by simp
  qed
qed

text \<open>The tasks other than \<open>t\<close> are all completed.\<close>

definition others_completed :: "agent_task list \<Rightarrow> agent_task \<Rightarrow> round \<Rightarrow> bool" where
  "others_completed tasks t st \<longleftrightarrow> (\<forall>u \<in> set tasks. u \<noteq> t \<longrightarrow> map_of (rd_statuses st) (ag_task_id u) = Some TeamCompleted)"

definition joins :: "agent_task list \<Rightarrow> string set \<Rightarrow> agent_task \<Rightarrow> bool" where
  "joins tasks ids t \<longleftrightarrow> t \<in> set tasks \<and> (\<exists>u \<in> set tasks. u \<noteq> t) \<and>
     (\<forall>u \<in> set tasks. u \<noteq> t \<longrightarrow> ag_task_id u \<in> set (ag_dependencies t) \<and> ag_task_id u \<notin> ids)"

lemma join_not_started:
  assumes "flow C tasks ids st" "joins tasks ids t" "\<not> others_completed tasks t st"
  shows "map_of (rd_statuses st) (ag_task_id t) \<noteq> Some TeamRunning \<and> map_of (rd_statuses st) (ag_task_id t) \<noteq> Some TeamCompleted"
proof -
  obtain u where u: "u \<in> set tasks" "u \<noteq> t" "map_of (rd_statuses st) (ag_task_id u) \<noteq> Some TeamCompleted"
    using assms(3) by (auto simp: others_completed_def)
  then have "\<not> dependency_satisfied ids st (ag_task_id u)" "ag_task_id u \<in> set (ag_dependencies t)" "t \<in> set tasks"
    using assms(2) by (auto simp: joins_def dependency_satisfied_def)
  then have "\<not> list_all (dependency_satisfied ids st) (ag_dependencies t)" by (auto simp: list_all_iff)
  then show ?thesis using flowD(4) [OF assms(1) \<open>t \<in> set tasks\<close>] by (auto simp: status_def)
qed

lemma join_loop:
  assumes "round_ok C tasks ids st" "tasks_ok tasks" "turns_ok C tasks ids ts st" "joins tasks ids t" "\<not> others_completed tasks t st"
    "round_loop C tasks ids ts st = (st', stop)"
  shows "map_of (rd_statuses st') (ag_task_id t) \<noteq> Some TeamRunning \<and> map_of (rd_statuses st') (ag_task_id t) \<noteq> Some TeamCompleted \<and>
    stop \<noteq> Some StopAllTasksCompleted"
  using assms
proof (induction ts arbitrary: st)
  case Nil
  have "flow C tasks ids st" using Nil.prems(1) by (simp add: round_ok_def)
  from join_not_started [OF this Nil.prems(4,5)] Nil.prems(6) show ?case by simp
next
  case (Cons k ts)
  let ?i = "ag_task_id t"
  let ?mid = "scheduled C tasks ids k (opened C k st)"
  obtain st1 stop1 where r: "round_turn C tasks ids k st = (st1, stop1)" by fastforce
  have tok: "turn_ok C tasks ids k st" using Cons.prems(3) by simp
  note pc = turn_pieces [OF Cons.prems(1,2) tok]
  show ?case
  proof (cases "fst (check_budget C (tk_deadline k) (emit_all (tk_events k) (rd_team st)))")
    case True
    then have "st' = opened C k st" "stop = Some StopBudgetExhausted" using Cons.prems(6) by (simp_all add: round_turn_cases)
    then show ?thesis using join_not_started [of C tasks ids st t] Cons.prems by (simp add: round_ok_def opened_def)
  next
    case False
    then have st1: "st1 = fold (collect tasks) (tk_finished k) ?mid" "stop1 = round_stop st1"
      using r by (auto simp: round_turn_cases Let_def)
    have ok1: "round_ok C tasks ids st1" using pc(2) st1(1) by simp
    then have fl1: "flow C tasks ids st1" by (simp add: round_ok_def)
    have "\<not> others_completed tasks t ?mid"
      using Cons.prems(5) pc(3) unfolding others_completed_def evolves_def by blast
    then have mid: "map_of (rd_statuses ?mid) ?i \<noteq> Some TeamRunning" "map_of (rd_statuses ?mid) ?i \<noteq> Some TeamCompleted"
      using join_not_started [OF _ Cons.prems(4)] pc(1) by (auto simp: round_ok_def)
    have nf: "?i \<notin> fst ` set (tk_finished k)" using pc(6) mid(1) by auto
    have t1: "map_of (rd_statuses st1) ?i \<noteq> Some TeamCompleted"
      using pc(4) mid(2) nf st1(1) unfolding evolves_def by blast
    have "?i \<notin> fst ` set (rd_active st1)"
    proof -
      have "?i \<notin> fst ` set (rd_active ?mid)"
        using mid(1) pc(1) flowD(3) [of C tasks ids ?mid ?i] by (simp add: round_ok_def status_def)
      then show ?thesis using pc(5) st1(1) by auto
    qed
    then have t2: "map_of (rd_statuses st1) ?i \<noteq> Some TeamRunning" using flowD(3) [OF fl1, of ?i] by (simp add: status_def)
    have nall: "round_stop st1 \<noteq> Some StopAllTasksCompleted"
    proof
      assume "round_stop st1 = Some StopAllTasksCompleted"
      then have all: "list_all (\<lambda>kv. settled (snd kv)) (rd_statuses st1)" "rd_failed st1 = {}" "rd_cancelled st1 = {}"
        by (auto simp: round_stop_def split: if_splits)
      have "?i \<in> ag_task_id ` set tasks" using Cons.prems(4) by (auto simp: joins_def)
      then obtain x where x: "status st1 ?i = Some x" using status_keys [OF fl1, of ?i] by auto
      have "settled x" using all(1) map_of_SomeD x by (fastforce simp: list_all_iff status_def)
      then show False using flowD(5-7) [OF fl1, of ?i] x all(2,3) t1 by (auto simp: settled_def status_def)
    qed
    show ?thesis
    proof (cases stop1)
      case (Some reason)
      then have "st' = st1" "stop = round_stop st1" using Cons.prems(6) r st1(2) by simp_all
      with t1 t2 nall show ?thesis by simp
    next
      case None
      have "\<not> others_completed tasks t st1"
      proof
        assume oc: "others_completed tasks t st1"
        have "rd_active st1 \<noteq> []" by (rule no_stop_active [OF fl1 Cons.prems(2)]) (use None st1(2) in simp)
        then obtain kv where kv: "kv \<in> set (rd_active st1)" by (meson last_in_set)
        then have run: "status st1 (fst kv) = Some TeamRunning" using flowD(3) [OF fl1, of "fst kv"] by auto
        then obtain u where u: "u \<in> set tasks" "ag_task_id u = fst kv" using status_keys [OF fl1, of "fst kv"] by auto
        then have "u \<noteq> t" using run t2 by (auto simp: status_def)
        then show False using oc u run by (auto simp: others_completed_def status_def)
      qed
      from Cons.IH [OF ok1 Cons.prems(2) _ Cons.prems(4) this] Cons.prems(3,6) r None show ?thesis by simp
    qed
  qed
qed

end
