(* ===== verification/Team_Coordinator_Props.thy ===== *)
theory Team_Coordinator_Props
  imports Team_Run_Props
begin

text \<open>
  The properties of the coordinator: its scheduling rounds (safety, budget, termination, the tasks they
  never run), what the success of a run certifies, and the number of its fix rounds.
\<close>

section \<open>Executable forms, and examples\<close>

lemma joined_ok_code [code]:
  "joined_ok C th j = (case j of Ended (Some r) \<Rightarrow> in_bounds C th r | _ \<Rightarrow> True)"
  by (auto simp: joined_ok_def split: joined.splits option.splits)

lemma turn_ok_code [code]:
  "turn_ok C tasks ids t st =
    (list_all (\<lambda>kv. case map_of (tk_joins t) (fst kv) of None \<Rightarrow> True | Some j \<Rightarrow> joined_ok C (snd kv) j) (rd_active st) \<and>
     distinct (map fst (tk_finished t)) \<and>
     (let active = rd_active (scheduled C tasks ids t (opened C t st)) in
      list_all (\<lambda>f. case map_of active (fst f) of None \<Rightarrow> False | Some th \<Rightarrow> in_bounds C th (snd f)) (tk_finished t)))"
proof -
  have "list_all (\<lambda>kv. case map_of (tk_joins t) (fst kv) of None \<Rightarrow> True | Some j \<Rightarrow> joined_ok C (snd kv) j) (rd_active st) \<longleftrightarrow>
      (\<forall>kv \<in> set (rd_active st). \<forall>j. map_of (tk_joins t) (fst kv) = Some j \<longrightarrow> joined_ok C (snd kv) j)"
    unfolding list_all_iff by (intro ball_cong refl) (simp split: option.splits)
  moreover have "list_all (\<lambda>f. case map_of act (fst f) of None \<Rightarrow> False | Some th \<Rightarrow> in_bounds C th (snd f)) (tk_finished t) \<longleftrightarrow>
      (\<forall>f \<in> set (tk_finished t). \<exists>th. map_of act (fst f) = Some th \<and> in_bounds C th (snd f))" for act
    unfolding list_all_iff by (intro ball_cong refl) (simp split: option.splits)
  ultimately show ?thesis unfolding turn_ok_def Let_def by simp
qed

lemma ending_ok_code [code]:
  "ending_ok C en st = list_all (\<lambda>kv. case map_of (en_joins en) (fst kv) of None \<Rightarrow> True
     | Some js \<Rightarrow> joined_ok C (snd kv) (fst js) \<and> joined_ok C (snd kv) (snd js)) (rd_active st)"
  unfolding ending_ok_def list_all_iff by (intro ball_cong refl) (auto split: option.splits)

lemmas round_turn_code [code] = round_turn_cases

definition demo_coordinator :: coordinator where
  "demo_coordinator = \<lparr>co_budget = \<lparr>bg_max_agents = 3, bg_max_total_steps = 30, bg_max_total_model_calls = 60,
     bg_max_wall_time_seconds = 600, bg_max_fix_rounds = 2\<rparr>, co_verification_gate = True\<rparr>"

definition demo_work :: "string \<Rightarrow> work_result" where
  "demo_work i = \<lparr>wk_task_id = i, wk_status = WorkerCompleted, wk_summary = ''done'', wk_verification = Some (''passed'', ''ok''),
     wk_step_count = 3, wk_model_call_count = 4, wk_tool_call_count = 2\<rparr>"

definition demo_turn :: "string list \<Rightarrow> turn" where
  "demo_turn done_ids = \<lparr>tk_events = [], tk_deadline = False, tk_cancelled = {}, tk_cancelled_then = {}, tk_joins = [],
     tk_finished = map (\<lambda>i. (i, demo_work i)) done_ids\<rparr>"

definition demo_ending :: ending where
  "demo_ending = \<lparr>en_joins = []\<rparr>"

text \<open>Two independent tasks, and one that depends on both of them.\<close>

definition demo_join :: "agent_task list" where
  "demo_join = [demo_task ''a'' [] [], demo_task ''b'' [] [], demo_task ''c'' [''a'', ''b''] []]"

definition fresh_team :: "coordinator \<Rightarrow> team_state \<Rightarrow> bool" where
  "fresh_team C tm \<longleftrightarrow> tm_reserved_steps tm = 0 \<and> tm_reserved_model_calls tm = 0 \<and>
     tm_total_steps tm \<le> bg_max_total_steps (co_budget C) \<and> tm_total_model_calls tm \<le> bg_max_total_model_calls (co_budget C)"

lemma fresh_start: "tasks_ok tasks \<Longrightarrow> fresh_team C tm \<Longrightarrow> round_ok C tasks ids (start_round tasks tm)"
  by (rule start_round_ok) (simp_all add: fresh_team_def affordable_def)

section \<open>The scheduling round\<close>

text \<open>
  C14. At every moment of a scheduling round, whatever the interleaving of its threads and the cancellation
  requests, as long as workers stay in the bounds of their tasks: the running tasks are exactly those of
  the active workers, at most \<open>max_agents\<close> of them; every task that was started has all its dependencies
  completed; and what has been consumed together with what the active workers may still consume is within
  the step and model-call budgets of the team.
\<close>

theorem team_round_safe:
  assumes "tasks_ok tasks" "fresh_team C tm" "turns_ok C tasks ids ts (start_round tasks tm)"
    "round_loop C tasks ids ts (start_round tasks tm) = (st, stop)"
  shows "(\<forall>i. map_of (rd_statuses st) i = Some TeamRunning \<longleftrightarrow> i \<in> fst ` set (rd_active st)) \<and>
    int (length (rd_active st)) \<le> max 0 (bg_max_agents (co_budget C)) \<and>
    (\<forall>t \<in> set tasks. map_of (rd_statuses st) (ag_task_id t) \<in> {Some TeamRunning, Some TeamCompleted} \<longrightarrow>
       (\<forall>d \<in> set (ag_dependencies t). d \<in> ids \<or> map_of (rd_statuses st) d = Some TeamCompleted)) \<and>
    tm_total_steps (rd_team st) + sum_list (map (\<lambda>kv. ag_max_steps (th_task (snd kv))) (rd_active st)) \<le> bg_max_total_steps (co_budget C) \<and>
    tm_total_model_calls (rd_team st) + sum_list (map (\<lambda>kv. model_call_upper_bound C (th_task (snd kv))) (rd_active st))
      \<le> bg_max_total_model_calls (co_budget C)"
proof -
  have ok: "round_ok C tasks ids st"
    using round_loop_ok [OF fresh_start [OF assms(1,2)] assms(1,3)] assms(4) by simp
  then have fl: "flow C tasks ids st" and b: "books C (rd_active st) st" by (simp_all add: round_ok_def)
  have "\<forall>i. map_of (rd_statuses st) i = Some TeamRunning \<longleftrightarrow> i \<in> fst ` set (rd_active st)"
    using flowD(3) [OF fl] by (simp add: status_def)
  moreover have "\<forall>d \<in> set (ag_dependencies t). d \<in> ids \<or> map_of (rd_statuses st) d = Some TeamCompleted"
    if "t \<in> set tasks" "map_of (rd_statuses st) (ag_task_id t) \<in> {Some TeamRunning, Some TeamCompleted}" for t
    using flowD(4) [OF fl that(1)] that(2) by (auto simp: status_def list_all_iff dependency_satisfied_def)
  ultimately show ?thesis
    using flowD(9) [OF fl] b by (simp add: books_def affordable_def comp_def step_bound_def call_bound_def)
qed

theorem team_round_safe_witness:
  "\<exists>st stop. round_loop demo_coordinator demo_join {} [demo_turn [], demo_turn [''a'']] (start_round demo_join initial_team_state) = (st, stop) \<and>
     fst ` set (rd_active st) = {''b''} \<and> map_of (rd_statuses st) ''b'' = Some TeamRunning \<and>
     tm_total_steps (rd_team st) + sum_list (map (\<lambda>kv. ag_max_steps (th_task (snd kv))) (rd_active st)) \<le> 30"
proof -
  let ?s = "start_round demo_join initial_team_state" and ?ts = "[demo_turn [], demo_turn [''a'']]"
  have ok: "tasks_ok demo_join" "fresh_team demo_coordinator initial_team_state"
    "turns_ok demo_coordinator demo_join {} ?ts ?s" by code_simp+
  obtain st stop where r: "round_loop demo_coordinator demo_join {} ?ts ?s = (st, stop)" by fastforce
  have "map fst (rd_active (fst (round_loop demo_coordinator demo_join {} ?ts ?s))) = [''b'']" by code_simp
  then have a: "map fst (rd_active st) = [''b'']" unfolding r by simp
  then have "fst ` set (rd_active st) = {''b''}" by (metis list.set(1) list.set(2) list.set_map)
  with team_round_safe [OF ok r] r show ?thesis by (auto simp: demo_coordinator_def)
qed

text \<open>
  A scheduling round that ends, however it ends (all tasks settled, a deadlock, an exhausted budget or
  deadline with workers still running), has not spent more steps or model calls than the budget of the
  team, and has returned every reservation, so that the next fix round starts from true books.
\<close>

theorem team_round_within_budget:
  assumes "tasks_ok tasks" "fresh_team C tm" "turns_ok C tasks ids ts (start_round tasks tm)"
    "ending_ok C en (fst (round_loop C tasks ids ts (start_round tasks tm)))"
    "execute_task_round C tasks ids ts en tm = Some (st, stop)"
  shows "fresh_team C (rd_team st)"
proof -
  obtain s where s: "round_loop C tasks ids ts (start_round tasks tm) = (s, Some stop)" "st = finish_round tasks en stop s"
    using assms(5) by (auto simp: execute_task_round_def split: prod.splits option.splits)
  have "round_ok C tasks ids s"
    using round_loop_ok [OF fresh_start [OF assms(1,2)] assms(1,3)] s(1) by simp
  from finish_round_books [OF this, of en tasks stop] have "books C [] st" using assms(4) s by simp
  then show ?thesis by (simp add: books_def fresh_team_def affordable_def)
qed

theorem team_round_within_budget_witness:
  "\<exists>st. execute_task_round demo_coordinator demo_join {} [demo_turn [''a''], (demo_turn [])\<lparr>tk_deadline := True\<rparr>]
      demo_ending initial_team_state = Some (st, StopBudgetExhausted) \<and> fresh_team demo_coordinator (rd_team st)"
proof -
  let ?s = "start_round demo_join initial_team_state" and ?ts = "[demo_turn [''a''], (demo_turn [])\<lparr>tk_deadline := True\<rparr>]"
  have ok: "tasks_ok demo_join" "fresh_team demo_coordinator initial_team_state" "turns_ok demo_coordinator demo_join {} ?ts ?s"
    "ending_ok demo_coordinator demo_ending (fst (round_loop demo_coordinator demo_join {} ?ts ?s))" by code_simp+
  have "map_option snd (execute_task_round demo_coordinator demo_join {} ?ts demo_ending initial_team_state) = Some StopBudgetExhausted"
    by code_simp
  then obtain st where e: "execute_task_round demo_coordinator demo_join {} ?ts demo_ending initial_team_state = Some (st, StopBudgetExhausted)"
    by auto
  from team_round_within_budget [OF ok e] e show ?thesis by blast
qed

text \<open>
  A scheduling round ends: when in every turn that has active workers at least one result arrives,
  one turn more than there are tasks is enough.
\<close>

theorem team_round_ends:
  assumes "tasks_ok tasks" "fresh_team C tm" "turns_ok C tasks ids ts (start_round tasks tm)"
    "progressing C tasks ids ts (start_round tasks tm)" "length tasks < length ts"
  shows "\<exists>st stop. execute_task_round C tasks ids ts en tm = Some (st, stop)"
proof -
  have "unsettled (rd_statuses (start_round tasks tm)) \<le> length (initial_statuses tasks)"
    by (simp add: unsettled_def start_round_def)
  also have "length (initial_statuses tasks) = length tasks"
    using fold_dict_set [of ag_task_id tasks "[]" "\<lambda>_. TeamPending"] assms(1) by (simp add: initial_statuses_def tasks_ok_def)
  finally have "unsettled (rd_statuses (start_round tasks tm)) < length ts" using assms(5) by simp
  from loop_ends [OF fresh_start [OF assms(1,2)] assms(1,3,4) this] show ?thesis
    by (auto simp: execute_task_round_def split: prod.splits option.splits)
qed

theorem team_round_ends_witness:
  "\<exists>st stop. execute_task_round demo_coordinator demo_join {} [demo_turn [''b''], demo_turn [''a''], demo_turn [], demo_turn []]
     demo_ending initial_team_state = Some (st, stop)"
proof -
  let ?s = "start_round demo_join initial_team_state"
  let ?ts = "[demo_turn [''b''], demo_turn [''a''], demo_turn [], demo_turn []]"
  have "tasks_ok demo_join" "fresh_team demo_coordinator initial_team_state" "turns_ok demo_coordinator demo_join {} ?ts ?s"
    "progressing demo_coordinator demo_join {} ?ts ?s" "length demo_join < length ?ts" by code_simp+
  then show ?thesis by (rule team_round_ends)
qed

text \<open>
  A task that depends on all the other tasks is never run by the parallel path: as soon as the last of
  them completes, the turn that collects its result finds no active worker and a pending task, takes this
  for a deadlock and stops the round as blocked, before the task, now ready, is scheduled. Such a round
  never ends with all tasks completed.
\<close>

theorem join_task_never_runs:
  assumes "tasks_ok tasks" "fresh_team C tm" "turns_ok C tasks ids ts (start_round tasks tm)" "joins tasks ids t"
    "round_loop C tasks ids ts (start_round tasks tm) = (st, stop)"
  shows "map_of (rd_statuses st) (ag_task_id t) \<noteq> Some TeamRunning \<and> map_of (rd_statuses st) (ag_task_id t) \<noteq> Some TeamCompleted \<and>
    stop \<noteq> Some StopAllTasksCompleted"
proof -
  have fr: "round_ok C tasks ids (start_round tasks tm)" by (rule fresh_start [OF assms(1,2)])
  have "initial_statuses tasks = map (\<lambda>t. (ag_task_id t, TeamPending)) tasks"
    using fold_dict_set [of ag_task_id tasks "[]" "\<lambda>_. TeamPending"] assms(1) by (simp add: initial_statuses_def tasks_ok_def)
  then have "map_of (rd_statuses (start_round tasks tm)) (ag_task_id u) = Some TeamPending" if "u \<in> set tasks" for u
    using that map_of_const [of u tasks ag_task_id TeamPending] by (simp add: start_round_def)
  then have "\<not> others_completed tasks t (start_round tasks tm)"
    using assms(4) by (fastforce simp: joins_def others_completed_def)
  from join_loop [OF fr assms(1,3,4) this assms(5)] show ?thesis .
qed

theorem join_task_never_runs_witness:
  "\<exists>st. round_loop demo_coordinator demo_join {} [demo_turn [''b''], demo_turn [''a''], demo_turn [''c'']] (start_round demo_join initial_team_state)
      = (st, Some StopBlocked) \<and> map_of (rd_statuses st) ''a'' = Some TeamCompleted \<and> map_of (rd_statuses st) ''b'' = Some TeamCompleted \<and>
     map_of (rd_statuses st) ''c'' \<noteq> Some TeamCompleted"
proof -
  let ?s = "start_round demo_join initial_team_state"
  let ?ts = "[demo_turn [''b''], demo_turn [''a''], demo_turn [''c'']]"
  have ok: "tasks_ok demo_join" "fresh_team demo_coordinator initial_team_state" "turns_ok demo_coordinator demo_join {} ?ts ?s" by code_simp+
  have j: "joins demo_join {} (demo_task ''c'' [''a'', ''b''] [])" by code_simp
  have run: "(case round_loop demo_coordinator demo_join {} ?ts ?s of (st, stop) \<Rightarrow> stop = Some StopBlocked \<and>
      map_of (rd_statuses st) ''a'' = Some TeamCompleted \<and> map_of (rd_statuses st) ''b'' = Some TeamCompleted)" by code_simp
  obtain st stop where r: "round_loop demo_coordinator demo_join {} ?ts ?s = (st, stop)" by fastforce
  from join_task_never_runs [OF ok j r] run r show ?thesis by (auto simp: demo_task_def)
qed

section \<open>What success certifies\<close>


















definition demo_surroundings :: surroundings where
  "demo_surroundings = \<lparr>su_turns = (\<lambda>_. []), su_ending = (\<lambda>_. demo_ending),
     su_reviewer = (\<lambda>_. \<lparr>rv_hex = (\<lambda>_. ''00000000''), rv_is_file = (\<lambda>_. True)\<rparr>), su_deadline = (\<lambda>_. False),
     su_cancelled = (\<lambda>_. {}), su_events = (\<lambda>_. []), su_work = (\<lambda>_ t. demo_work (ag_task_id t))\<rparr>"


section \<open>Fix rounds\<close>

lemma stopped_rounds: "tm_fix_round_count (snd (stopped C stop results found tm)) = tm_fix_round_count tm"
  by (simp add: stopped_def root_event_def emit_team_event_def Let_def)

lemma solo_loop_rounds:
  "solo_loop C S by_id k is s = Some s' \<Longrightarrow> tm_fix_round_count (snd (snd s')) = tm_fix_round_count (snd (snd s))"
proof (induction C S by_id k "is" s rule: solo_loop.induct)
  case (2 C S by_id k i "is" s)
  have "same_rounds (snd (snd s)) (snd (snd (solo_task C S k task s)))" for task
    by (cases s) (simp add: solo_task_def run_worker_def wall_time_event_def steps_event_def model_calls_event_def
        same_rounds_def [of tm tm for tm] Let_def)
  with 2 show ?case by (auto simp: same_rounds_def split: option.splits)
qed simp

lemma fix_event_rounds: "tm_fix_round_count (fix_round_event fs (begin_fix_round tm)) = tm_fix_round_count tm + 1"
  by (simp add: begin_fix_round_def fix_round_event_def root_event_def emit_team_event_def Let_def)

lemma review_loop_rounds:
  "review_loop C goal S n tasks results tm = Some (stop, tasks', results', found, tm') \<Longrightarrow>
   tm_fix_round_count tm' \<le> max (tm_fix_round_count tm) (bg_max_fix_rounds (co_budget C))"
proof (induction C goal S n tasks results tm rule: review_loop.induct)
  case (1 C goal S n tasks results tm)
  obtain report tm1 where rv: "reviewed (su_reviewer S n) goal tasks results tm = (report, tm1)" by fastforce
  then have c1: "tm_fix_round_count tm1 = tm_fix_round_count tm" using reviewed_rounds by (metis snd_conv)
  let ?fix = "create_fix_tasks (rp_findings report) tasks"
  show ?case
  proof (cases "rp_verdict report = Approve \<or> out_of_rounds C tm1 \<or> ?fix = []")
    case True
    then have "tm' = tm1 \<or> (\<not> out_of_rounds C tm1 \<and> tm' = begin_fix_round tm1)"
      using "1.prems" rv by (auto simp: Let_def split: if_splits)
    then show ?thesis using c1 by (auto simp: out_of_rounds_def begin_fix_round_def)
  next
    case False
    obtain rd stop1 where rd: "execute_task_round C ?fix (completed_so_far results) (su_turns S (Suc n)) (su_ending S (Suc n))
        (fix_round_event ?fix (begin_fix_round tm1)) = Some (rd, stop1)"
      using "1.prems" rv False by (auto simp: Let_def split: option.splits)
    have c2: "tm_fix_round_count (rd_team rd) = tm_fix_round_count tm + 1"
      using same_rounds_round [OF rd] fix_event_rounds c1 by simp
    have lim: "tm_fix_round_count tm + 1 \<le> bg_max_fix_rounds (co_budget C)" using False c1 by (simp add: out_of_rounds_def)
    show ?thesis
    proof (cases "stop1 = StopAllTasksCompleted")
      case True
      then have rec: "review_loop C goal S (Suc n) (tasks @ ?fix) (dict_update results (rd_results rd)) (rd_team rd)
          = Some (stop, tasks', results', found, tm')"
        using "1.prems" rv False rd by (simp add: Let_def)
      from "1.IH" [OF rv [symmetric] refl refl _ _ refl refl _ rd refl refl _ rec] False True c2 lim show ?thesis by simp
    next
      case other: False
      then have "tm' = rd_team rd" using "1.prems" rv False rd by (simp add: Let_def)
      then show ?thesis using c2 lim by simp
    qed
  qed
qed

lemma solo_review_loop_rounds:
  "solo_review_loop C goal S n k tasks results tm = (stop, results', found, tm') \<Longrightarrow>
   tm_fix_round_count tm' \<le> max (tm_fix_round_count tm) (bg_max_fix_rounds (co_budget C))"
proof (induction C goal S n k tasks results tm rule: solo_review_loop.induct)
  case (1 C goal S n k tasks results tm)
  obtain report tm1 where rv: "reviewed (su_reviewer S n) goal tasks results tm = (report, tm1)" by fastforce
  then have c1: "tm_fix_round_count tm1 = tm_fix_round_count tm" using reviewed_rounds by (metis snd_conv)
  let ?fix = "create_fix_tasks (rp_findings report) tasks"
  show ?case
  proof (cases "rp_verdict report = Approve \<or> out_of_rounds C tm1 \<or> ?fix = []")
    case True
    then have "tm' = tm1 \<or> (\<not> out_of_rounds C tm1 \<and> tm' = begin_fix_round tm1)"
      using "1.prems" rv by (auto simp: Let_def split: if_splits)
    then show ?thesis using c1 by (auto simp: out_of_rounds_def begin_fix_round_def)
  next
    case False
    obtain ok k' r tm3 where fx: "solo_fixes C S k ?fix (results, fix_round_event ?fix (begin_fix_round tm1)) = (ok, k', r, tm3)"
      by (metis prod_cases4)
    have c2: "tm_fix_round_count tm3 = tm_fix_round_count tm + 1"
      using solo_fixes_rounds [of C S k ?fix "(results, fix_round_event ?fix (begin_fix_round tm1))"] fx fix_event_rounds c1 by simp
    have lim: "tm_fix_round_count tm + 1 \<le> bg_max_fix_rounds (co_budget C)" using False c1 by (simp add: out_of_rounds_def)
    show ?thesis
    proof (cases ok)
      case True
      then have rec: "solo_review_loop C goal S (Suc n) k' (tasks @ ?fix) r tm3 = (stop, results', found, tm')"
        using "1.prems" rv False fx by (simp add: Let_def)
      from "1.IH" [OF rv [symmetric] refl refl _ _ refl refl _ fx [symmetric] refl refl refl _ rec] False True c2 lim
      show ?thesis by simp
    next
      case other: False
      then have "tm' = tm3" using "1.prems" rv False fx by (simp add: Let_def)
      then show ?thesis using c2 lim by simp
    qed
  qed
qed

definition tight_coordinator :: coordinator where
  "tight_coordinator = \<lparr>co_budget = \<lparr>bg_max_agents = 3, bg_max_total_steps = 3, bg_max_total_model_calls = 2,
     bg_max_wall_time_seconds = 600, bg_max_fix_rounds = 2\<rparr>, co_verification_gate = True\<rparr>"

lemma solo_loop_returns:
  "set is \<subseteq> fst ` set by_id \<Longrightarrow> \<exists>s'. solo_loop C S by_id k is s = Some s'"
proof (induction "is" arbitrary: k s)
  case (Cons i "is")
  then obtain task where t: "map_of by_id i = Some task" by (metis list.set_intros(1) map_of_eq_None_iff not_None_eq subset_iff)
  have "set is \<subseteq> fst ` set by_id" using Cons.prems by simp
  from Cons.IH [OF this, of "Suc k" "solo_task C S k task s"] t show ?case by simp
qed (metis solo_loop.simps(1))

lemma task_by_id_keys: "fst ` set (task_by_id tasks) = ag_task_id ` set tasks"
proof -
  have k: "fst ` set (dict_set i v kvs) = insert i (fst ` set kvs)" for i :: string and v :: agent_task and kvs
    using keys_dict_set [of i v kvs] by (metis Un_insert_right insert_absorb list.set(1) list.set(2) list.set_map set_append sup_bot_right)
  have "fst ` set (fold (\<lambda>t. dict_set (ag_task_id t) t) ts acc) = fst ` set acc \<union> ag_task_id ` set ts" for ts :: "agent_task list" and acc
  proof (induction ts arbitrary: acc)
    case (Cons t ts)
    show ?case by (simp only: fold_Cons comp_apply Cons k list.set image_insert) (simp add: Un_commute)
  qed simp
  then show ?thesis by (simp add: task_by_id_def)
qed

text \<open>
  The sequential path always returns: whatever its workers do, a run whose tasks are not worth running
  in parallel ends with a result, after at most \<open>max_fix_rounds\<close> fix rounds in the life of the coordinator
  (or with the number it had already used, when that was more).
\<close>

theorem team_sequential_returns:
  assumes "\<not> worth_parallelizing tasks"
  shows "\<exists>r tm'. coordinator_run C goal S tasks tm = Some (r, tm') \<and>
    tm_fix_round_count tm' \<le> max (tm_fix_round_count tm) (bg_max_fix_rounds (co_budget C))"
proof -
  have ev: "tm_fix_round_count (root_event ty p x) = tm_fix_round_count x" for ty p x
    by (simp add: root_event_def emit_team_event_def Let_def)
  show ?thesis
  proof (cases "tasks = [] \<or> \<not> dv_valid (validate_task_dag tasks)")
    case True
    then show ?thesis using ev by (auto simp: coordinator_run_def Let_def)
  next
    case False
    let ?tm1 = "root_event ''team.started'' [(''user_goal'', PStr goal), (''task_count'', PInt (int (length tasks)))] tm"
    let ?tm2 = "root_event ''team.single_agent_path''
      [(''reason'', PStr ''not worth parallelizing''), (''task_count'', PInt (int (length tasks)))] ?tm1"
    define order where "order = (case dv_topological_order (validate_task_dag tasks) of Some (i # is) \<Rightarrow> i # is | _ \<Rightarrow> map ag_task_id tasks)"
    obtain ord where o: "dv_topological_order (validate_task_dag tasks) = Some ord" "set ord = ag_task_id ` set tasks"
      using valid_order [of tasks] False by blast
    then have "set order \<subseteq> ag_task_id ` set tasks" by (cases ord) (simp_all add: order_def)
    then obtain results failed tm3 where sl: "solo_loop C S (task_by_id tasks) 0 order ([], False, ?tm2) = Some (results, failed, tm3)"
      using solo_loop_returns [of order "task_by_id tasks" C S 0 "([], False, ?tm2)"] task_by_id_keys [of tasks] by auto
    have c3: "tm_fix_round_count tm3 = tm_fix_round_count tm" using solo_loop_rounds [OF sl] ev by simp
    obtain stop results' found tm4 where x:
      "(if failed then (StopBlocked, results, [], tm3) else solo_review_loop C goal S 0 (length order) tasks results tm3)
        = (stop, results', found, tm4)" by (metis prod_cases4)
    have "tm_fix_round_count tm4 \<le> max (tm_fix_round_count tm) (bg_max_fix_rounds (co_budget C))"
    proof (cases failed)
      case True
      then show ?thesis using x c3 by simp
    next
      case False
      then show ?thesis using x c3 solo_review_loop_rounds [of C goal S 0 "length order" tasks results tm3] by (simp del: solo_review_loop.simps)
    qed
    moreover have "coordinator_run C goal S tasks tm = Some (stopped C stop results' found tm4)"
      using False assms sl x unfolding coordinator_run_def run_single_agent_def Let_def order_def [symmetric]
      by (simp del: solo_review_loop.simps)
    ultimately show ?thesis using stopped_rounds [of C stop results' found tm4] by (metis prod.collapse)
  qed
qed

theorem team_sequential_returns_witness:
  "\<exists>r tm'. coordinator_run tight_coordinator ''goal'' demo_surroundings [demo_task ''a'' [] []] initial_team_state = Some (r, tm') \<and>
     tm_fix_round_count tm' \<le> 2"
proof -
  have "\<not> worth_parallelizing [demo_task ''a'' [] []]" by code_simp
  from team_sequential_returns [OF this, of tight_coordinator "''goal''" demo_surroundings initial_team_state]
  show ?thesis by (auto simp: tight_coordinator_def initial_team_state_def)
qed

section \<open>The limits of the model calls, the parents of fix tasks, and lost counters\<close>

text \<open>
  The sequential path checks the budget before a task of the graph, but not before a fix task, and does
  not reserve model calls: with a budget of three steps and two calls, a task that uses three
  steps and four calls is followed by a fix task that uses three steps more.
\<close>

lemma sequential_exceeds_budget:
  "(let (r, results, tm) = run_worker tight_coordinator demo_surroundings 0 (demo_task ''a'' [] []) ([], initial_team_state);
        (completed, k, results', tm') = solo_fixes tight_coordinator demo_surroundings 1 [demo_task ''fix'' [] []] (results, tm) in
    team_steps_exhausted tight_coordinator tm \<and> completed \<and> 3 < tm_total_steps tm' \<and> 2 < tm_total_model_calls tm)"
  by (simp add: run_worker_def cap_task_def tight_coordinator_def demo_surroundings_def demo_work_def demo_task_def
      accumulate_counters_def initial_team_state_def emit_all_def team_steps_exhausted_def Let_def)

text \<open>
  The parent of a fix task is the first task whose id occurs anywhere in the finding: a finding about
  task \<open>t10\<close> is attributed to task \<open>t1\<close>, whose dependencies the fix task then inherits.
\<close>

lemma fix_task_wrong_parent:
  "ag_parent_task_id (fix_task [demo_task ''t1'' [''x''] [], demo_task ''t10'' [] []]
     \<lparr>rf_finding_id = ''find-1'', rf_severity = ''blocker'', rf_title = ''Task t10 verification not passed'', rf_evidence = ''tests failed'',
      rf_file = None, rf_requested_change = []\<rparr>) = Some ''t1''"
  by code_simp

text \<open>What a worker consumed that is cancelled at the end of a round, other than by completing, is not counted.\<close>

lemma cancelled_counters_dropped:
  assumes "wk_status r \<noteq> WorkerCompleted"
  shows "wk_step_count (fst (cancel_active_worker i th (Ended (Some r)) tm)) = 0 \<and>
    wk_model_call_count (fst (cancel_active_worker i th (Ended (Some r)) tm)) = 0"
  using assms by (simp add: cancel_active_worker_def plain_result_def Let_def)

end
