(* ===== verification/Plan_Store.thy ===== *)
theory Plan_Store
  imports Py_Value Interfaces
begin

text \<open>
  \<open>planning/runtime.py\<close>: the persistent Plan Mode of a scope. The three tables of
  \<open>SQLitePlanStore\<close> are lists of rows; the JSON columns hold the lists they encode. Arguments the
  code checks with \<open>isinstance\<close> are Python values. A call takes the time it reads and, where it makes
  an id, the hexadecimal text of \<open>uuid4\<close>. \<open>answer\<close> runs in several transactions and is split where
  the code splits it.
\<close>

section \<open>Phases, rows and errors\<close>

datatype plan_phase = PlanIdle | PlanPlanning | PlanAwaitingApproval | PlanExecuting | PlanRejected

record plan_artifact =
  pl_plan_id :: ident
  pl_scope_id :: ident
  pl_title :: string
  pl_summary :: string
  pl_steps :: "string list"
  pl_risks :: "string list"
  pl_verification :: "string list"
  pl_status :: plan_phase
  pl_version :: nat
  pl_created_at :: timestamp
  pl_updated_at :: timestamp
  pl_approved_at :: "timestamp option"
  pl_rejected_at :: "timestamp option"

datatype question_status = QuestionPending | QuestionAnswered

record user_question =
  qu_question_id :: ident
  qu_scope_id :: ident
  qu_prompt :: string
  qu_options :: "string list"
  qu_allow_free_text :: bool
  qu_status :: question_status
  qu_answer :: "string option"
  qu_created_at :: timestamp
  qu_answered_at :: "timestamp option"

record plan_scope =
  sc_scope_id :: ident
  sc_phase :: plan_phase
  sc_active_plan_id :: "ident option"
  sc_updated_at :: timestamp

record plan_store =
  plan_scopes :: "plan_scope list"
  plan_artifacts :: "plan_artifact list"
  plan_questions :: "user_question list"

definition new_plan_store :: plan_store where
  "new_plan_store = \<lparr>plan_scopes = [], plan_artifacts = [], plan_questions = []\<rparr>"

datatype plan_error =
    NotText string
  | TooLong string nat
  | NotStrings string
  | NoStrings string
  | NotAnOption
  | PlanTransition string
  | PlanNotFound ident
  | QuestionNotFound ident
  | PlanIntegrity

section \<open>Validation\<close>

definition plan_text :: "pval \<Rightarrow> string \<Rightarrow> nat \<Rightarrow> plan_error + string" where
  "plan_text v name limit = (case v of
       PStr s \<Rightarrow> (if strip s = [] then Inl (NotText name)
                  else if limit < length (strip s) then Inl (TooLong name limit)
                  else Inr (strip s))
     | _ \<Rightarrow> Inl (NotText name))"

fun plan_texts :: "pval list \<Rightarrow> string \<Rightarrow> plan_error + string list" where
  "plan_texts [] name = Inr []"
| "plan_texts (v # vs) name =
    (case plan_text v name 10000 of
       Inl e \<Rightarrow> Inl e
     | Inr s \<Rightarrow> (case plan_texts vs name of Inl e \<Rightarrow> Inl e | Inr ss \<Rightarrow> Inr (s # ss)))"

text \<open>A \<open>Sequence\<close> that is neither \<open>str\<close> nor \<open>bytes\<close>: a list or a tuple.\<close>

fun sequence_items :: "pval \<Rightarrow> pval list option" where
  "sequence_items (PList vs) = Some vs"
| "sequence_items (PTuple vs) = Some vs"
| "sequence_items _ = None"

definition plan_strings :: "pval \<Rightarrow> string \<Rightarrow> bool \<Rightarrow> plan_error + string list" where
  "plan_strings v name required = (case sequence_items v of
       None \<Rightarrow> Inl (NotStrings name)
     | Some vs \<Rightarrow> (case plan_texts vs name of
           Inl e \<Rightarrow> Inl e
         | Inr ss \<Rightarrow> if required \<and> ss = [] then Inl (NoStrings name) else Inr ss))"

definition scope_arg :: "pval \<Rightarrow> plan_error + string" where
  "scope_arg v = plan_text v ''scope_id'' 200"

section \<open>Reading\<close>

definition scope_row :: "ident \<Rightarrow> plan_store \<Rightarrow> plan_scope option" where
  "scope_row i st = find (\<lambda>r. sc_scope_id r = i) (plan_scopes st)"

definition plan_phase_of :: "pval \<Rightarrow> plan_store \<Rightarrow> plan_error + plan_phase" where
  "plan_phase_of v st = (case scope_arg v of
       Inl e \<Rightarrow> Inl e
     | Inr i \<Rightarrow> Inr (case scope_row i st of None \<Rightarrow> PlanIdle | Some r \<Rightarrow> sc_phase r))"

definition get_plan :: "pval \<Rightarrow> plan_store \<Rightarrow> plan_error + plan_artifact" where
  "get_plan v st = (case plan_text v ''plan_id'' 200 of
       Inl e \<Rightarrow> Inl e
     | Inr i \<Rightarrow> (case find (\<lambda>r. pl_plan_id r = i) (plan_artifacts st) of
           None \<Rightarrow> Inl (PlanNotFound i)
         | Some r \<Rightarrow> Inr r))"

definition active_plan :: "pval \<Rightarrow> plan_store \<Rightarrow> plan_error + plan_artifact option" where
  "active_plan v st = (case scope_arg v of
       Inl e \<Rightarrow> Inl e
     | Inr i \<Rightarrow> (case scope_row i st of
           None \<Rightarrow> Inr None
         | Some r \<Rightarrow> (case sc_active_plan_id r of
               None \<Rightarrow> Inr None
             | Some p \<Rightarrow> (case get_plan (PStr p) st of Inl e \<Rightarrow> Inl e | Inr a \<Rightarrow> Inr (Some a)))))"

definition get_question :: "pval \<Rightarrow> plan_store \<Rightarrow> plan_error + user_question" where
  "get_question v st = (case plan_text v ''question_id'' 200 of
       Inl e \<Rightarrow> Inl e
     | Inr i \<Rightarrow> (case find (\<lambda>r. qu_question_id r = i) (plan_questions st) of
           None \<Rightarrow> Inl (QuestionNotFound i)
         | Some r \<Rightarrow> Inr r))"

section \<open>Entering Plan Mode\<close>

text \<open>\<open>INSERT ... ON CONFLICT(scope_id) DO UPDATE\<close>.\<close>

definition upsert_scope :: "ident \<Rightarrow> timestamp \<Rightarrow> plan_store \<Rightarrow> plan_store" where
  "upsert_scope i now st =
    (let r = \<lparr>sc_scope_id = i, sc_phase = PlanPlanning, sc_active_plan_id = None, sc_updated_at = now\<rparr> in
     if scope_row i st = None then st\<lparr>plan_scopes := plan_scopes st @ [r]\<rparr>
     else st\<lparr>plan_scopes := update_where (\<lambda>q. sc_scope_id q = i) (\<lambda>_. r) (plan_scopes st)\<rparr>)"

definition enter_plan :: "pval \<Rightarrow> timestamp \<Rightarrow> plan_store \<Rightarrow> plan_error + plan_phase \<times> plan_store" where
  "enter_plan v now st = (case scope_arg v of
       Inl e \<Rightarrow> Inl e
     | Inr i \<Rightarrow>
         (if (case scope_row i st of None \<Rightarrow> False
              | Some r \<Rightarrow> sc_phase r \<in> {PlanPlanning, PlanAwaitingApproval})
          then Inl (PlanTransition ''scope already has an active plan'')
          else Inr (PlanPlanning, upsert_scope i now st)))"

section \<open>Submitting a plan\<close>

definition plan_id_of :: "string \<Rightarrow> ident" where
  "plan_id_of hex = ''plan-'' @ take 16 hex"

definition set_scope :: "ident \<Rightarrow> plan_phase \<Rightarrow> ident option \<Rightarrow> timestamp \<Rightarrow> plan_store \<Rightarrow> plan_store" where
  "set_scope i ph p now st = st\<lparr>plan_scopes :=
     update_where (\<lambda>q. sc_scope_id q = i)
       (\<lambda>q. q\<lparr>sc_phase := ph, sc_active_plan_id := p, sc_updated_at := now\<rparr>) (plan_scopes st)\<rparr>"

definition insert_artifact :: "plan_artifact \<Rightarrow> plan_store \<Rightarrow> plan_error + plan_store" where
  "insert_artifact a st =
    (if pl_plan_id a \<in> pl_plan_id ` set (plan_artifacts st) then Inl PlanIntegrity
     else Inr (st\<lparr>plan_artifacts := plan_artifacts st @ [a]\<rparr>))"

definition store_artifact ::
  "ident \<Rightarrow> pval \<Rightarrow> pval \<Rightarrow> string list \<Rightarrow> string list \<Rightarrow> string list \<Rightarrow> string \<Rightarrow> timestamp \<Rightarrow> plan_store \<Rightarrow>
     plan_error + plan_store" where
  "store_artifact i title summary steps risks verification hex now st =
    (case scope_row i st of
       None \<Rightarrow> Inl (PlanTransition ''scope is not in planning phase'')
     | Some r \<Rightarrow>
       (if sc_phase r \<noteq> PlanPlanning then Inl (PlanTransition ''scope is not in planning phase'')
        else (case plan_text title ''title'' 300 of
           Inl e \<Rightarrow> Inl e
         | Inr t \<Rightarrow> (case plan_text summary ''summary'' 20000 of
             Inl e \<Rightarrow> Inl e
           | Inr s \<Rightarrow> (case insert_artifact
                 \<lparr>pl_plan_id = plan_id_of hex, pl_scope_id = i, pl_title = t, pl_summary = s,
                  pl_steps = steps, pl_risks = risks, pl_verification = verification,
                  pl_status = PlanAwaitingApproval, pl_version = 0, pl_created_at = now,
                  pl_updated_at = now, pl_approved_at = None, pl_rejected_at = None\<rparr> st of
               Inl e \<Rightarrow> Inl e
             | Inr st' \<Rightarrow> Inr (set_scope i PlanAwaitingApproval (Some (plan_id_of hex)) now st'))))))"

text \<open>The artifact is read back after the transaction; the new store is returned with the answer.\<close>

definition create_artifact ::
  "pval \<Rightarrow> pval \<Rightarrow> pval \<Rightarrow> pval \<Rightarrow> pval \<Rightarrow> pval \<Rightarrow> string \<Rightarrow> timestamp \<Rightarrow> plan_store \<Rightarrow>
     plan_error + (plan_error + plan_artifact) \<times> plan_store" where
  "create_artifact v title summary steps risks verification hex now st =
    (case scope_arg v of
       Inl e \<Rightarrow> Inl e
     | Inr i \<Rightarrow> (case plan_strings steps ''steps'' True of
         Inl e \<Rightarrow> Inl e
       | Inr ss \<Rightarrow> (case plan_strings risks ''risks'' False of
           Inl e \<Rightarrow> Inl e
         | Inr rs \<Rightarrow> (case plan_strings verification ''verification'' True of
             Inl e \<Rightarrow> Inl e
           | Inr vs \<Rightarrow> (case store_artifact i title summary ss rs vs hex now st of
               Inl e \<Rightarrow> Inl e
             | Inr st' \<Rightarrow> Inr (get_plan (PStr (plan_id_of hex)) st', st'))))))"

section \<open>Approval and rejection\<close>

definition decided_row :: "bool \<Rightarrow> timestamp \<Rightarrow> plan_artifact \<Rightarrow> plan_artifact" where
  "decided_row approve now a = a\<lparr>
     pl_status := (if approve then PlanExecuting else PlanRejected),
     pl_version := Suc (pl_version a), pl_updated_at := now,
     pl_approved_at := (if approve then Some now else pl_approved_at a),
     pl_rejected_at := (if approve then pl_rejected_at a else Some now)\<rparr>"

definition decide_locked :: "ident \<Rightarrow> ident \<Rightarrow> bool \<Rightarrow> timestamp \<Rightarrow> plan_store \<Rightarrow> plan_error + plan_store" where
  "decide_locked i p approve now st =
    (case find (\<lambda>a. pl_plan_id a = p \<and> pl_scope_id a = i) (plan_artifacts st) of
       None \<Rightarrow> Inl (PlanNotFound p)
     | Some a \<Rightarrow>
       (if pl_status a \<noteq> PlanAwaitingApproval then Inl (PlanTransition ''plan is not awaiting approval'')
        else Inr (set_scope i (if approve then PlanExecuting else PlanRejected)
               (if approve then Some p else None) now
               (st\<lparr>plan_artifacts :=
                  update_where (\<lambda>q. pl_plan_id q = p) (decided_row approve now) (plan_artifacts st)\<rparr>))))"

definition decide_plan ::
  "pval \<Rightarrow> pval \<Rightarrow> bool \<Rightarrow> timestamp \<Rightarrow> plan_store \<Rightarrow> plan_error + (plan_error + plan_artifact) \<times> plan_store" where
  "decide_plan v w approve now st =
    (case scope_arg v of
       Inl e \<Rightarrow> Inl e
     | Inr i \<Rightarrow> (case plan_text w ''plan_id'' 200 of
         Inl e \<Rightarrow> Inl e
       | Inr p \<Rightarrow> (case decide_locked i p approve now st of
           Inl e \<Rightarrow> Inl e
         | Inr st' \<Rightarrow> Inr (get_plan (PStr p) st', st'))))"

section \<open>Questions to the user\<close>

definition question_id_of :: "string \<Rightarrow> ident" where
  "question_id_of hex = ''question-'' @ take 16 hex"

definition ask_question ::
  "pval \<Rightarrow> pval \<Rightarrow> pval \<Rightarrow> bool \<Rightarrow> string \<Rightarrow> timestamp \<Rightarrow> plan_store \<Rightarrow>
     plan_error + (plan_error + user_question) \<times> plan_store" where
  "ask_question v prompt options allow_free_text hex now st =
    (case scope_arg v of
       Inl e \<Rightarrow> Inl e
     | Inr i \<Rightarrow> (case plan_text prompt ''prompt'' 10000 of
         Inl e \<Rightarrow> Inl e
       | Inr p \<Rightarrow> (case plan_strings options ''options'' False of
           Inl e \<Rightarrow> Inl e
         | Inr os \<Rightarrow>
           (if question_id_of hex \<in> qu_question_id ` set (plan_questions st) then Inl PlanIntegrity
            else (let q = \<lparr>qu_question_id = question_id_of hex, qu_scope_id = i, qu_prompt = p,
                    qu_options = os, qu_allow_free_text = allow_free_text, qu_status = QuestionPending,
                    qu_answer = None, qu_created_at = now, qu_answered_at = None\<rparr>;
                    st' = st\<lparr>plan_questions := plan_questions st @ [q]\<rparr>
                  in Inr (get_question (PStr (question_id_of hex)) st', st'))))))"

text \<open>The first transaction of \<open>answer\<close> and the checks on what it read: the id and the text to write.\<close>

definition answer_check :: "pval \<Rightarrow> pval \<Rightarrow> plan_store \<Rightarrow> plan_error + ident \<times> string" where
  "answer_check v text st =
    (case get_question v st of
       Inl e \<Rightarrow> Inl e
     | Inr q \<Rightarrow>
       (if qu_status q \<noteq> QuestionPending then Inl (PlanTransition ''question is not pending'')
        else (case plan_text text ''answer'' 20000 of
           Inl e \<Rightarrow> Inl e
         | Inr t \<Rightarrow>
           (if qu_options q \<noteq> [] \<and> \<not> qu_allow_free_text q \<and> t \<notin> set (qu_options q) then Inl NotAnOption
            else Inr (qu_question_id q, t)))))"

text \<open>The second transaction: the guarded update, whose row count the code does not read.\<close>

definition answer_write :: "ident \<Rightarrow> string \<Rightarrow> timestamp \<Rightarrow> plan_store \<Rightarrow> plan_store" where
  "answer_write i t now st = st\<lparr>plan_questions :=
     update_where (\<lambda>q. qu_question_id q = i \<and> qu_status q = QuestionPending)
       (\<lambda>q. q\<lparr>qu_status := QuestionAnswered, qu_answer := Some t, qu_answered_at := Some now\<rparr>)
       (plan_questions st)\<rparr>"

definition answer_question ::
  "pval \<Rightarrow> pval \<Rightarrow> timestamp \<Rightarrow> plan_store \<Rightarrow> plan_error + (plan_error + user_question) \<times> plan_store" where
  "answer_question v text now st =
    (case answer_check v text st of
       Inl e \<Rightarrow> Inl e
     | Inr (i, t) \<Rightarrow> (let st' = answer_write i t now st in Inr (get_question (PStr i) st', st')))"

section \<open>Executions\<close>

text \<open>
  Any sequence of committed transactions of any number of callers. An answer is written at any time
  after its checks, and other calls may come between: \<open>pw_checked\<close> holds the answers that passed their
  checks, by callers that may write them now or later.
\<close>

text \<open>What \<open>uuid4().hex\<close> is documented to return.\<close>

definition hex_digit :: "char \<Rightarrow> bool" where
  "hex_digit c = (c \<in> set ''0123456789abcdef'')"

definition uuid_hex :: "string \<Rightarrow> bool" where
  "uuid_hex s = (length s = 32 \<and> list_all hex_digit s)"

record plan_world =
  pw_store :: plan_store
  pw_checked :: "(ident \<times> string) set"

definition new_plan_world :: plan_world where
  "new_plan_world = \<lparr>pw_store = new_plan_store, pw_checked = {}\<rparr>"

inductive plan_step :: "plan_world \<Rightarrow> plan_world \<Rightarrow> bool" where
  enter: "enter_plan v now (pw_store w) = Inr (ph, st') \<Longrightarrow> plan_step w (w\<lparr>pw_store := st'\<rparr>)"
| create: "create_artifact v title summary steps risks verification hex now (pw_store w) = Inr (a, st') \<Longrightarrow> uuid_hex hex
    \<Longrightarrow> plan_step w (w\<lparr>pw_store := st'\<rparr>)"
| decide: "decide_plan v p approve now (pw_store w) = Inr (a, st') \<Longrightarrow> plan_step w (w\<lparr>pw_store := st'\<rparr>)"
| ask: "ask_question v prompt options free hex now (pw_store w) = Inr (q, st') \<Longrightarrow> uuid_hex hex
    \<Longrightarrow> plan_step w (w\<lparr>pw_store := st'\<rparr>)"
| check: "answer_check v text (pw_store w) = Inr c \<Longrightarrow> plan_step w (w\<lparr>pw_checked := insert c (pw_checked w)\<rparr>)"
| answer: "(i, t) \<in> pw_checked w \<Longrightarrow> plan_step w (w\<lparr>pw_store := answer_write i t now (pw_store w)\<rparr>)"

end
