(* ===== verification/Plan_Props.thy ===== *)
theory Plan_Props
  imports Plan_Store
begin

text \<open>
  The invariant of Plan Mode (the phase of a scope agrees with its plans, a decided plan and an answered
  question never change), its preservation by every transaction, and the properties that rest on it.
\<close>

section \<open>Rows by key\<close>

lemma find_by_key:
  assumes "\<And>r. k r = i \<Longrightarrow> k (f r) = i"
  shows "find (\<lambda>r. k r = j) (update_where (\<lambda>r. k r = i) f t) =
    (if j = i then map_option f (find (\<lambda>r. k r = i) t) else find (\<lambda>r. k r = j) t)"
  using assms by (induction t) (auto simp: update_where_def)

lemma scope_row_upsert [simp]:
  "scope_row j (upsert_scope i now st) =
    (if j = i then Some \<lparr>sc_scope_id = i, sc_phase = PlanPlanning, sc_active_plan_id = None, sc_updated_at = now\<rparr>
     else scope_row j st)"
proof (cases "scope_row i st")
  case None
  then show ?thesis
    by (simp add: upsert_scope_def Let_def scope_row_def find_append split: option.split)
next
  case (Some r)
  then show ?thesis by (simp add: upsert_scope_def Let_def scope_row_def find_by_key)
qed

lemma scope_row_id: "scope_row i st = Some r \<Longrightarrow> sc_scope_id r = i"
  by (auto simp: scope_row_def find_Some_iff)

lemma scope_row_set [simp]:
  "scope_row j (set_scope i ph p now st) =
    (if j = i then map_option (\<lambda>q. q\<lparr>sc_phase := ph, sc_active_plan_id := p, sc_updated_at := now\<rparr>) (scope_row i st)
     else scope_row j st)"
  by (simp add: scope_row_def set_scope_def find_by_key)

lemma scope_row_artifacts [simp]: "scope_row i (st\<lparr>plan_artifacts := as\<rparr>) = scope_row i st"
  by (simp add: scope_row_def)

lemma scope_row_questions [simp]: "scope_row i (st\<lparr>plan_questions := qs\<rparr>) = scope_row i st"
  by (simp add: scope_row_def)

lemma set_scope_tables [simp]:
  "plan_artifacts (set_scope i ph p now st) = plan_artifacts st"
  "plan_questions (set_scope i ph p now st) = plan_questions st"
  by (simp_all add: set_scope_def)

lemma upsert_tables [simp]:
  "plan_artifacts (upsert_scope i now st) = plan_artifacts st"
  "plan_questions (upsert_scope i now st) = plan_questions st"
  by (simp_all add: upsert_scope_def Let_def)

lemma plan_text_InrD: "plan_text v name limit = Inr s \<Longrightarrow> strip s = s \<and> s \<noteq> [] \<and> length s \<le> limit"
  by (auto simp: plan_text_def split: pval.splits if_splits)

lemma plan_text_fixed: "strip s = s \<Longrightarrow> s \<noteq> [] \<Longrightarrow> length s \<le> limit \<Longrightarrow> plan_text (PStr s) name limit = Inr s"
  by (simp add: plan_text_def)

lemma hex_not_space:
  assumes "hex_digit c"
  shows "\<not> py_space c"
proof -
  have "list_all (\<lambda>d. \<not> py_space d) ''0123456789abcdef''" by code_simp
  then have all: "\<forall>d \<in> set ''0123456789abcdef''. \<not> py_space d" by (simp only: list_all_iff)
  show ?thesis by (rule bspec [OF all assms [unfolded hex_digit_def]])
qed

lemma uuid_take:
  assumes "uuid_hex hex"
  shows "take 16 hex \<noteq> []" "\<not> py_space (last (take 16 hex))" "length (take 16 hex) = 16"
proof -
  show l: "length (take 16 hex) = 16" using assms by (simp add: uuid_hex_def)
  then show n: "take 16 hex \<noteq> []" by auto
  from n have "last (take 16 hex) \<in> set hex" by (rule in_set_takeD [OF last_in_set])
  with assms show "\<not> py_space (last (take 16 hex))" by (simp add: uuid_hex_def list_all_iff hex_not_space)
qed

lemma plan_id_text: "uuid_hex hex \<Longrightarrow> plan_text (PStr (plan_id_of hex)) ''plan_id'' 200 = Inr (plan_id_of hex)"
  using uuid_take [of hex]
  by (intro plan_text_fixed strip_fixed) (auto simp: plan_id_of_def py_space_code)

lemma question_id_text:
  "uuid_hex hex \<Longrightarrow> plan_text (PStr (question_id_of hex)) ''question_id'' 200 = Inr (question_id_of hex)"
  using uuid_take [of hex]
  by (intro plan_text_fixed strip_fixed) (auto simp: question_id_of_def py_space_code)

section \<open>The invariant\<close>

definition awaiting :: "ident \<Rightarrow> plan_store \<Rightarrow> plan_artifact set" where
  "awaiting i st = {a \<in> set (plan_artifacts st). pl_scope_id a = i \<and> pl_status a = PlanAwaitingApproval}"

definition scope_ok :: "plan_store \<Rightarrow> ident \<Rightarrow> bool" where
  "scope_ok st i = (case scope_row i st of
       None \<Rightarrow> awaiting i st = {}
     | Some r \<Rightarrow> (case sc_phase r of
           PlanIdle \<Rightarrow> False
         | PlanPlanning \<Rightarrow> sc_active_plan_id r = None \<and> awaiting i st = {}
         | PlanAwaitingApproval \<Rightarrow> (\<exists>a. awaiting i st = {a} \<and> sc_active_plan_id r = Some (pl_plan_id a))
         | PlanExecuting \<Rightarrow> awaiting i st = {} \<and> (\<exists>a \<in> set (plan_artifacts st). pl_scope_id a = i \<and>
             pl_status a = PlanExecuting \<and> sc_active_plan_id r = Some (pl_plan_id a))
         | PlanRejected \<Rightarrow> sc_active_plan_id r = None \<and> awaiting i st = {}))"

definition artifact_ok :: "plan_artifact \<Rightarrow> bool" where
  "artifact_ok a = (plan_text (PStr (pl_plan_id a)) ''plan_id'' 200 = Inr (pl_plan_id a) \<and>
     pl_status a \<in> {PlanAwaitingApproval, PlanExecuting, PlanRejected} \<and>
     pl_version a = (if pl_status a = PlanAwaitingApproval then 0 else 1) \<and>
     (pl_approved_at a \<noteq> None \<longleftrightarrow> pl_status a = PlanExecuting) \<and>
     (pl_rejected_at a \<noteq> None \<longleftrightarrow> pl_status a = PlanRejected))"

definition legal_answer :: "user_question \<Rightarrow> string \<Rightarrow> bool" where
  "legal_answer q t = (strip t = t \<and> t \<noteq> [] \<and> length t \<le> 20000 \<and>
     (qu_options q \<noteq> [] \<longrightarrow> qu_allow_free_text q \<or> t \<in> set (qu_options q)))"

definition question_ok :: "user_question \<Rightarrow> bool" where
  "question_ok q = (case qu_answer q of
       None \<Rightarrow> qu_status q = QuestionPending \<and> qu_answered_at q = None
     | Some t \<Rightarrow> qu_status q = QuestionAnswered \<and> qu_answered_at q \<noteq> None \<and> legal_answer q t)"

definition plan_inv :: "plan_store \<Rightarrow> bool" where
  "plan_inv st = ((\<forall>i. scope_ok st i) \<and> (\<forall>a \<in> set (plan_artifacts st). artifact_ok a) \<and>
     distinct (map pl_plan_id (plan_artifacts st)) \<and> distinct (map qu_question_id (plan_questions st)) \<and>
     (\<forall>q \<in> set (plan_questions st). question_ok q))"

definition plan_world_inv :: "plan_world \<Rightarrow> bool" where
  "plan_world_inv w = (plan_inv (pw_store w) \<and>
     (\<forall>(i, t) \<in> pw_checked w. \<exists>q \<in> set (plan_questions (pw_store w)). qu_question_id q = i \<and> legal_answer q t))"

lemma plan_inv_new: "plan_world_inv new_plan_world"
  by (simp add: plan_world_inv_def new_plan_world_def plan_inv_def new_plan_store_def scope_ok_def scope_row_def awaiting_def)

section \<open>What each transaction does\<close>

lemma enter_planD:
  assumes "enter_plan v now st = Inr (ph, st')"
  shows "\<exists>i. scope_arg v = Inr i \<and> ph = PlanPlanning \<and> st' = upsert_scope i now st \<and>
    (\<forall>r. scope_row i st = Some r \<longrightarrow> sc_phase r \<notin> {PlanPlanning, PlanAwaitingApproval})"
  using assms by (auto simp: enter_plan_def split: sum.splits if_splits option.splits)

lemma create_artifactD:
  assumes "create_artifact v title summary steps risks verification hex now st = Inr (res, st')"
  shows "\<exists>i a r. scope_arg v = Inr i \<and> pl_plan_id a = plan_id_of hex \<and> pl_scope_id a = i \<and>
    pl_status a = PlanAwaitingApproval \<and> pl_version a = 0 \<and> pl_approved_at a = None \<and> pl_rejected_at a = None \<and>
    scope_row i st = Some r \<and> sc_phase r = PlanPlanning \<and>
    plan_id_of hex \<notin> pl_plan_id ` set (plan_artifacts st) \<and>
    res = get_plan (PStr (plan_id_of hex)) st' \<and>
    st' = set_scope i PlanAwaitingApproval (Some (plan_id_of hex)) now (st\<lparr>plan_artifacts := plan_artifacts st @ [a]\<rparr>)"
proof -
  from assms obtain i ss rs vs where i: "scope_arg v = Inr i"
    and s: "store_artifact i title summary ss rs vs hex now st = Inr st'"
    and r: "res = get_plan (PStr (plan_id_of hex)) st'"
    by (auto simp: create_artifact_def split: sum.splits)
  from s i r show ?thesis
    by (intro exI [of _ i] exI [of _ "last (plan_artifacts st')"]) (auto simp: store_artifact_def insert_artifact_def split: option.splits if_splits sum.splits)
qed

lemma decide_planD:
  assumes "decide_plan v p approve now st = Inr (res, st')"
  shows "\<exists>i a. scope_arg v = Inr i \<and> plan_text p ''plan_id'' 200 = Inr (pl_plan_id a) \<and>
    a \<in> set (plan_artifacts st) \<and> pl_scope_id a = i \<and> pl_status a = PlanAwaitingApproval \<and>
    res = get_plan (PStr (pl_plan_id a)) st' \<and>
    st' = set_scope i (if approve then PlanExecuting else PlanRejected) (if approve then Some (pl_plan_id a) else None) now
      (st\<lparr>plan_artifacts := update_where (\<lambda>q. pl_plan_id q = pl_plan_id a) (decided_row approve now) (plan_artifacts st)\<rparr>)"
proof -
  from assms obtain i k where i: "scope_arg v = Inr i" and k: "plan_text p ''plan_id'' 200 = Inr k"
    and d: "decide_locked i k approve now st = Inr st'" and r: "res = get_plan (PStr k) st'"
    by (auto simp: decide_plan_def split: sum.splits)
  from d obtain a where a: "find (\<lambda>a. pl_plan_id a = k \<and> pl_scope_id a = i) (plan_artifacts st) = Some a"
    by (auto simp: decide_locked_def split: option.splits)
  with find_SomeD [OF a] d i k r show ?thesis
    by (auto simp: decide_locked_def split: if_splits)
qed

lemma ask_questionD:
  assumes "ask_question v prompt options free hex now st = Inr (res, st')"
  shows "\<exists>q. qu_question_id q \<notin> qu_question_id ` set (plan_questions st) \<and> qu_status q = QuestionPending \<and>
    qu_answer q = None \<and> qu_answered_at q = None \<and> st' = st\<lparr>plan_questions := plan_questions st @ [q]\<rparr>"
  using assms
  by (intro exI [of _ "last (plan_questions st')"]) (auto simp: ask_question_def Let_def split: sum.splits if_splits)

lemma answer_checkD:
  assumes "answer_check v text st = Inr (i, t)"
  shows "\<exists>q \<in> set (plan_questions st). qu_question_id q = i \<and> qu_status q = QuestionPending \<and> legal_answer q t"
proof -
  from assms obtain q where q: "get_question v st = Inr q" by (auto simp: answer_check_def split: sum.splits)
  then have "q \<in> set (plan_questions st)" by (auto simp: get_question_def split: sum.splits option.splits dest: find_SomeD)
  with assms q show ?thesis
    by (intro bexI [of _ q]) (auto simp: answer_check_def legal_answer_def split: sum.splits if_splits dest: plan_text_InrD)
qed

section \<open>Preservation\<close>

lemma awaiting_set [simp]: "awaiting i (set_scope j ph p now st) = awaiting i st"
  by (simp add: awaiting_def)

lemma awaiting_upsert [simp]: "awaiting i (upsert_scope j now st) = awaiting i st"
  by (simp add: awaiting_def)

lemma enter_inv:
  assumes "plan_inv st" "enter_plan v now st = Inr (ph, st')"
  shows "plan_inv st'"
proof -
  from enter_planD [OF assms(2)] obtain i where st': "st' = upsert_scope i now st"
    and ph: "\<And>r. scope_row i st = Some r \<Longrightarrow> sc_phase r \<notin> {PlanPlanning, PlanAwaitingApproval}" by blast
  have "scope_ok st j" for j using assms(1) by (simp add: plan_inv_def)
  then have old: "scope_ok st i" and oth: "scope_ok st j" for j by blast+
  have "awaiting i st = {}"
    using old ph by (auto simp: scope_ok_def split: option.splits plan_phase.splits)
  then have "scope_ok st' j" for j
    using oth [of j] by (auto simp: scope_ok_def st' split: option.splits plan_phase.splits)
  with assms(1) show ?thesis by (simp add: plan_inv_def st')
qed

lemma create_inv:
  assumes "plan_inv st" "create_artifact v title summary steps risks verification hex now st = Inr (res, st')"
    and hex: "uuid_hex hex"
  shows "plan_inv st'"
proof -
  from create_artifactD [OF assms(2)] obtain i a r where a: "pl_plan_id a = plan_id_of hex" "pl_scope_id a = i"
      "pl_status a = PlanAwaitingApproval" "pl_version a = 0" "pl_approved_at a = None" "pl_rejected_at a = None"
    and r: "scope_row i st = Some r" "sc_phase r = PlanPlanning"
    and new: "plan_id_of hex \<notin> pl_plan_id ` set (plan_artifacts st)"
    and st': "st' = set_scope i PlanAwaitingApproval (Some (plan_id_of hex)) now (st\<lparr>plan_artifacts := plan_artifacts st @ [a]\<rparr>)"
    by blast
  have ok: "scope_ok st j" for j using assms(1) by (simp add: plan_inv_def)
  have aw: "awaiting j (st\<lparr>plan_artifacts := plan_artifacts st @ [a]\<rparr>) = (if j = i then insert a (awaiting i st) else awaiting j st)" for j
    using a by (auto simp: awaiting_def)
  have none: "awaiting i st = {}" using ok [of i] r by (simp add: scope_ok_def)
  have "scope_ok st' j" for j
    using ok [of j] none by (auto simp: scope_ok_def st' aw r a split: option.splits plan_phase.splits)
  moreover have "artifact_ok a" using a plan_id_text [OF hex] by (simp add: artifact_ok_def)
  ultimately show ?thesis using assms(1) new a by (auto simp: plan_inv_def st')
qed

lemma decide_inv:
  assumes inv: "plan_inv st" and d: "decide_plan v p approve now st = Inr (res, st')"
  shows "plan_inv st'"
proof -
  from decide_planD [OF d] obtain a where a: "a \<in> set (plan_artifacts st)" "pl_status a = PlanAwaitingApproval"
    and st': "st' = set_scope (pl_scope_id a) (if approve then PlanExecuting else PlanRejected)
        (if approve then Some (pl_plan_id a) else None) now
      (st\<lparr>plan_artifacts := update_where (\<lambda>q. pl_plan_id q = pl_plan_id a) (decided_row approve now) (plan_artifacts st)\<rparr>)"
    by blast
  define t where "t = update_where (\<lambda>q. pl_plan_id q = pl_plan_id a) (decided_row approve now) (plan_artifacts st)"
  define b where "b = decided_row approve now a"
  note st' = st' [folded t_def]
  have ids: "distinct (map pl_plan_id (plan_artifacts st))" and ok: "scope_ok st j" for j
    using inv by (simp_all add: plan_inv_def)
  have key: "q = a" if "q \<in> set (plan_artifacts st)" "pl_plan_id q = pl_plan_id a" for q
    using distinct_map_eqD [OF ids that(1) a(1)] that(2) by simp
  have mem: "q \<in> set t \<longleftrightarrow> q = b \<or> (q \<in> set (plan_artifacts st) \<and> q \<noteq> a)" for q
  proof -
    have "t = map (\<lambda>c. if c = a then b else c) (plan_artifacts st)"
      unfolding t_def b_def update_where_def by (intro map_cong refl) (metis key)
    with a(1) show ?thesis by auto
  qed
  have dec: "pl_status b = (if approve then PlanExecuting else PlanRejected)"
    "pl_scope_id b = pl_scope_id a" "pl_plan_id b = pl_plan_id a"
    by (simp_all add: b_def decided_row_def)
  have ne: "b \<noteq> a"
  proof
    assume "b = a"
    with dec(1) a(2) show False by (simp split: if_splits)
  qed
  have aw: "awaiting j (st\<lparr>plan_artifacts := t\<rparr>) = awaiting j st - {a}" for j
    using ne by (auto simp: awaiting_def mem dec split: if_splits)
  have "a \<in> awaiting (pl_scope_id a) st" using a by (simp add: awaiting_def)
  with ok [of "pl_scope_id a"] obtain r where r: "scope_row (pl_scope_id a) st = Some r" "awaiting (pl_scope_id a) st = {a}"
    by (auto simp: scope_ok_def split: option.splits plan_phase.splits)
  have own: "scope_ok st' (pl_scope_id a)"
    using r mem [of b] by (auto simp: scope_ok_def st' aw dec intro!: rev_bexI)
  have oth: "scope_ok st' j" if "j \<noteq> pl_scope_id a" for j
  proof -
    have "a \<notin> awaiting j st" using that by (simp add: awaiting_def)
    then have "awaiting j st - {a} = awaiting j st" by blast
    with ok [of j] a that show ?thesis
      by (auto simp: scope_ok_def st' aw mem split: option.splits plan_phase.splits)
  qed
  have "artifact_ok a" using inv a by (simp add: plan_inv_def)
  then have "artifact_ok b" using a by (simp add: artifact_ok_def b_def decided_row_def)
  moreover have "map pl_plan_id t = map pl_plan_id (plan_artifacts st)"
    unfolding t_def by (rule map_update_where) (simp add: decided_row_def)
  moreover have "scope_ok st' j" for j using own oth by (cases "j = pl_scope_id a") auto
  moreover have "plan_artifacts st' = t" "plan_questions st' = plan_questions st" by (simp_all add: st')
  ultimately show ?thesis using inv mem by (auto simp: plan_inv_def)
qed

lemma awaiting_questions [simp]: "awaiting i (st\<lparr>plan_questions := qs\<rparr>) = awaiting i st"
  by (simp add: awaiting_def)

lemma scope_ok_questions [simp]: "scope_ok (st\<lparr>plan_questions := qs\<rparr>) i = scope_ok st i"
  by (auto simp: scope_ok_def split: option.splits plan_phase.splits)

lemma ask_inv:
  assumes "plan_inv st" "ask_question v prompt options free hex now st = Inr (res, st')"
  shows "plan_inv st'"
  using ask_questionD [OF assms(2)] assms(1) by (auto simp: plan_inv_def question_ok_def)

lemma write_inv:
  assumes inv: "plan_inv st" and q: "q \<in> set (plan_questions st)" "qu_question_id q = i" "legal_answer q t"
  shows "plan_inv (answer_write i t now st)"
proof -
  let ?f = "\<lambda>q. q\<lparr>qu_status := QuestionAnswered, qu_answer := Some t, qu_answered_at := Some now\<rparr>"
  have ids: "distinct (map qu_question_id (plan_questions st))" using inv by (simp add: plan_inv_def)
  have "question_ok r" if "r \<in> set (plan_questions (answer_write i t now st))" for r
  proof -
    from that obtain q' where q': "q' \<in> set (plan_questions st)"
      "r = (if qu_question_id q' = i \<and> qu_status q' = QuestionPending then ?f q' else q')"
      by (auto simp: answer_write_def set_update_where)
    show ?thesis
    proof (cases "qu_question_id q' = i")
      case True
      then have "q' = q" using distinct_map_eqD [OF ids q'(1) q(1)] q(2) by simp
      with q' q inv show ?thesis by (auto simp: question_ok_def plan_inv_def legal_answer_def)
    next
      case False
      with q' inv show ?thesis by (simp add: plan_inv_def)
    qed
  qed
  moreover have "map qu_question_id (plan_questions (answer_write i t now st)) = map qu_question_id (plan_questions st)"
    by (simp add: answer_write_def map_update_where)
  ultimately show ?thesis using inv by (simp add: plan_inv_def) (simp add: answer_write_def)
qed

text \<open>A question keeps its id, its options and its mode, so a checked answer stays legal.\<close>

definition keeps_questions :: "plan_store \<Rightarrow> plan_store \<Rightarrow> bool" where
  "keeps_questions st st' = (\<forall>q \<in> set (plan_questions st). \<exists>q' \<in> set (plan_questions st').
     qu_question_id q' = qu_question_id q \<and> qu_scope_id q' = qu_scope_id q \<and> qu_prompt q' = qu_prompt q \<and>
     qu_options q' = qu_options q \<and> qu_allow_free_text q' = qu_allow_free_text q \<and>
     (qu_status q = QuestionAnswered \<longrightarrow> q' = q))"

definition keeps_plans :: "plan_store \<Rightarrow> plan_store \<Rightarrow> bool" where
  "keeps_plans st st' = (\<forall>a \<in> set (plan_artifacts st). \<exists>a' \<in> set (plan_artifacts st').
     pl_plan_id a' = pl_plan_id a \<and> pl_scope_id a' = pl_scope_id a \<and> pl_title a' = pl_title a \<and>
     pl_summary a' = pl_summary a \<and> pl_steps a' = pl_steps a \<and> pl_risks a' = pl_risks a \<and>
     pl_verification a' = pl_verification a \<and> pl_created_at a' = pl_created_at a \<and>
     (pl_status a \<noteq> PlanAwaitingApproval \<longrightarrow> a' = a))"

lemma keeps_questions_refl: "keeps_questions st st"
  by (auto simp: keeps_questions_def)

lemma keeps_questions_same: "plan_questions st' = plan_questions st \<Longrightarrow> keeps_questions st st'"
  by (auto simp: keeps_questions_def)

lemma keeps_plans_same: "plan_artifacts st' = plan_artifacts st \<Longrightarrow> keeps_plans st st'"
  by (auto simp: keeps_plans_def)

lemma keeps_questions_trans: "keeps_questions s t \<Longrightarrow> keeps_questions t u \<Longrightarrow> keeps_questions s u"
  unfolding keeps_questions_def by metis

lemma keeps_plans_trans: "keeps_plans s t \<Longrightarrow> keeps_plans t u \<Longrightarrow> keeps_plans s u"
  unfolding keeps_plans_def by metis

section \<open>Executions\<close>

lemma step_keeps:
  assumes "plan_inv (pw_store w)" "plan_step w w'"
  shows "keeps_questions (pw_store w) (pw_store w') \<and> keeps_plans (pw_store w) (pw_store w')"
  using assms(2)
proof cases
  case (enter v now ph st')
  from enter_planD [OF enter(2)] show ?thesis by (auto simp: enter(1) keeps_questions_same keeps_plans_same)
next
  case (create v title summary steps risks verification hex now a st')
  from create_artifactD [OF create(2)] show ?thesis by (auto simp: create(1) keeps_questions_same keeps_plans_def)
next
  case (decide v p approve now res st')
  from decide_planD [OF decide(2)] obtain a where a: "a \<in> set (plan_artifacts (pw_store w))" "pl_status a = PlanAwaitingApproval"
    and qs: "plan_questions st' = plan_questions (pw_store w)"
    and st': "plan_artifacts st' = update_where (\<lambda>q. pl_plan_id q = pl_plan_id a) (decided_row approve now) (plan_artifacts (pw_store w))"
    by auto
  have ids: "distinct (map pl_plan_id (plan_artifacts (pw_store w)))" using assms(1) by (simp add: plan_inv_def)
  have row: "\<exists>b' \<in> set (plan_artifacts st'). b' = (if b = a then decided_row approve now a else b)"
    if b: "b \<in> set (plan_artifacts (pw_store w))" for b
  proof -
    have "pl_plan_id b = pl_plan_id a \<longleftrightarrow> b = a" using distinct_map_eqD [OF ids b a(1)] by auto
    with b show ?thesis unfolding st' by (cases "b = a") (auto simp: set_update_where)
  qed
  have "keeps_plans (pw_store w) st'"
    unfolding keeps_plans_def
  proof (intro ballI)
    fix b
    assume b: "b \<in> set (plan_artifacts (pw_store w))"
    from row [OF b] have "(if b = a then decided_row approve now a else b) \<in> set (plan_artifacts st')" by simp
    then show "\<exists>b' \<in> set (plan_artifacts st'). pl_plan_id b' = pl_plan_id b \<and> pl_scope_id b' = pl_scope_id b \<and>
      pl_title b' = pl_title b \<and> pl_summary b' = pl_summary b \<and> pl_steps b' = pl_steps b \<and> pl_risks b' = pl_risks b \<and>
      pl_verification b' = pl_verification b \<and> pl_created_at b' = pl_created_at b \<and>
      (pl_status b \<noteq> PlanAwaitingApproval \<longrightarrow> b' = b)"
      by (rule rev_bexI) (use a(2) in \<open>simp add: decided_row_def\<close>)
  qed
  then show ?thesis by (simp add: decide(1) keeps_questions_same qs)
next
  case (ask v prompt options free hex now q st')
  from ask_questionD [OF ask(2)] show ?thesis by (auto simp: ask(1) keeps_questions_def keeps_plans_same)
next
  case (check v x c)
  then show ?thesis by (simp add: keeps_questions_same keeps_plans_same)
next
  case (answer i t now)
  have "keeps_questions (pw_store w) (answer_write i t now (pw_store w))"
    unfolding keeps_questions_def
  proof (intro ballI)
    fix q :: user_question
    let ?q = "if qu_question_id q = i \<and> qu_status q = QuestionPending
      then q\<lparr>qu_status := QuestionAnswered, qu_answer := Some t, qu_answered_at := Some now\<rparr> else q"
    assume "q \<in> set (plan_questions (pw_store w))"
    then have "?q \<in> set (plan_questions (answer_write i t now (pw_store w)))"
      by (auto simp: answer_write_def set_update_where)
    then show "\<exists>q' \<in> set (plan_questions (answer_write i t now (pw_store w))).
      qu_question_id q' = qu_question_id q \<and> qu_scope_id q' = qu_scope_id q \<and> qu_prompt q' = qu_prompt q \<and>
      qu_options q' = qu_options q \<and> qu_allow_free_text q' = qu_allow_free_text q \<and>
      (qu_status q = QuestionAnswered \<longrightarrow> q' = q)"
      by (rule rev_bexI) simp
  qed
  then show ?thesis by (simp add: answer(1)) (simp add: answer_write_def keeps_plans_same)
qed

lemma step_inv:
  assumes "plan_world_inv w" "plan_step w w'"
  shows "plan_world_inv w'"
proof -
  have inv: "plan_inv (pw_store w)" using assms(1) by (simp add: plan_world_inv_def)
  have keep: "keeps_questions (pw_store w) (pw_store w')" using step_keeps [OF inv assms(2)] by simp
  have old: "\<exists>q' \<in> set (plan_questions (pw_store w')). qu_question_id q' = i \<and> legal_answer q' t"
    if "(i, t) \<in> pw_checked w" for i t
  proof -
    from that assms(1) obtain q where "q \<in> set (plan_questions (pw_store w))" "qu_question_id q = i" "legal_answer q t"
      by (auto simp: plan_world_inv_def)
    with keep show ?thesis unfolding keeps_questions_def legal_answer_def by metis
  qed
  from assms(2) show ?thesis
  proof cases
    case (enter v now ph st')
    with enter_inv [OF inv enter(2)] old show ?thesis by (auto simp: plan_world_inv_def)
  next
    case (create v title summary steps risks verification hex now a st')
    with create_inv [OF inv create(2,3)] old show ?thesis by (auto simp: plan_world_inv_def)
  next
    case (decide v p approve now res st')
    with decide_inv [OF inv decide(2)] old show ?thesis by (auto simp: plan_world_inv_def)
  next
    case (ask v prompt options free hex now q st')
    with ask_inv [OF inv ask(2)] old show ?thesis by (auto simp: plan_world_inv_def)
  next
    case (check v x c)
    with answer_checkD [of v x "pw_store w"] inv old show ?thesis
      by (cases c) (fastforce simp: plan_world_inv_def)
  next
    case (answer i t now)
    from answer(2) assms(1) obtain q where "q \<in> set (plan_questions (pw_store w))" "qu_question_id q = i" "legal_answer q t"
      by (auto simp: plan_world_inv_def)
    from write_inv [OF inv this] answer(1) old show ?thesis by (auto simp: plan_world_inv_def)
  qed
qed

interpretation plan_mode: preserving plan_world_inv plan_step
  by unfold_locales (rule step_inv)

lemma reachable_plan_inv: "plan_step\<^sup>*\<^sup>* new_plan_world w \<Longrightarrow> plan_world_inv w"
  using plan_mode.inv_steps plan_inv_new by blast

lemma steps_keep:
  assumes "plan_step\<^sup>*\<^sup>* w w'" "plan_world_inv w"
  shows "keeps_questions (pw_store w) (pw_store w') \<and> keeps_plans (pw_store w) (pw_store w')"
  using assms
  by (rule plan_mode.lift_steps)
    (auto simp: plan_world_inv_def keeps_questions_same keeps_plans_same dest: step_keeps intro: keeps_questions_trans keeps_plans_trans)

section \<open>Properties\<close>

lemma get_stored_plan:
  assumes "plan_inv st" "a \<in> set (plan_artifacts st)"
  shows "get_plan (PStr (pl_plan_id a)) st = Inr a"
  using assms find_key_Some [of pl_plan_id "plan_artifacts st" a]
  by (simp add: get_plan_def plan_inv_def artifact_ok_def)

text \<open>
  The phase of a scope always tells the truth about its plans, in every reachable store: a scope that
  executes has an active plan, and that plan was approved; a scope that awaits approval has exactly one
  plan awaiting approval, and it is the active one; in any other phase no plan is active and no plan of
  the scope awaits approval.
\<close>

theorem plan_mode_consistent:
  assumes "plan_step\<^sup>*\<^sup>* new_plan_world w" "scope_arg v = Inr i" "plan_phase_of v (pw_store w) = Inr ph"
  shows "case ph of
      PlanExecuting \<Rightarrow> (\<exists>a. active_plan v (pw_store w) = Inr (Some a) \<and> pl_scope_id a = i \<and>
        pl_status a = PlanExecuting \<and> pl_approved_at a \<noteq> None \<and> awaiting i (pw_store w) = {})
    | PlanAwaitingApproval \<Rightarrow> (\<exists>a. active_plan v (pw_store w) = Inr (Some a) \<and> awaiting i (pw_store w) = {a} \<and>
        pl_approved_at a = None \<and> pl_rejected_at a = None)
    | _ \<Rightarrow> active_plan v (pw_store w) = Inr None \<and> awaiting i (pw_store w) = {}"
proof -
  let ?st = "pw_store w"
  have inv: "plan_inv ?st" using reachable_plan_inv [OF assms(1)] by (simp add: plan_world_inv_def)
  then have ok: "scope_ok ?st i" and aok: "\<And>a. a \<in> set (plan_artifacts ?st) \<Longrightarrow> artifact_ok a"
    by (simp_all add: plan_inv_def)
  have stored: "get_plan (PStr (pl_plan_id a)) ?st = Inr a \<and> artifact_ok a" if "a \<in> set (plan_artifacts ?st)" for a
    using get_stored_plan [OF inv that] aok [OF that] by simp
  have sub: "a \<in> set (plan_artifacts ?st) \<and> pl_status a = PlanAwaitingApproval" if "awaiting i ?st = {a}" for a
    using that by (auto simp: awaiting_def)
  show ?thesis
  proof (cases "scope_row i ?st")
    case None
    with assms ok show ?thesis by (simp add: plan_phase_of_def scope_ok_def active_plan_def)
  next
    case (Some r)
    with assms have ph: "ph = sc_phase r" by (simp add: plan_phase_of_def)
    show ?thesis
    proof (cases ph)
      case PlanAwaitingApproval
      with ok Some ph obtain a where a: "awaiting i ?st = {a}" "sc_active_plan_id r = Some (pl_plan_id a)"
        by (auto simp: scope_ok_def)
      with sub [OF a(1)] stored [of a] PlanAwaitingApproval Some assms(2) show ?thesis
        by (auto simp: active_plan_def artifact_ok_def)
    next
      case PlanExecuting
      with ok Some ph obtain a where a: "a \<in> set (plan_artifacts ?st)" "pl_scope_id a = i" "pl_status a = PlanExecuting"
          "sc_active_plan_id r = Some (pl_plan_id a)" "awaiting i ?st = {}"
        by (auto simp: scope_ok_def)
      with stored [OF a(1)] PlanExecuting Some assms(2) show ?thesis
        by (auto simp: active_plan_def artifact_ok_def)
    qed (use ok Some ph assms(2) in \<open>auto simp: scope_ok_def active_plan_def\<close>)
  qed
qed

text \<open>
  What was decided stays: a plan keeps its content for ever and changes once, when it is approved or
  rejected, and an answered question keeps its answer, which is one the question allows, over any further
  transactions of any callers.
\<close>

theorem plan_decisions_final:
  assumes "plan_step\<^sup>*\<^sup>* new_plan_world w" "plan_step\<^sup>*\<^sup>* w w'"
  shows "keeps_plans (pw_store w) (pw_store w') \<and> keeps_questions (pw_store w) (pw_store w') \<and>
    (\<forall>q \<in> set (plan_questions (pw_store w')). \<forall>t. qu_answer q = Some t \<longrightarrow> legal_answer q t)"
proof -
  have inv: "plan_world_inv w" by (rule reachable_plan_inv [OF assms(1)])
  have "plan_world_inv w'" by (rule plan_mode.inv_steps [OF assms(2) inv])
  then have "\<forall>q \<in> set (plan_questions (pw_store w')). \<forall>t. qu_answer q = Some t \<longrightarrow> legal_answer q t"
    by (auto simp: plan_world_inv_def plan_inv_def question_ok_def split: option.splits)
  with steps_keep [OF assms(2) inv] show ?thesis by blast
qed

lemma store_artifact_returns:
  assumes "scope_row i st = Some r" "sc_phase r = PlanPlanning" "plan_text title ''title'' 300 = Inr t"
    "plan_text summary ''summary'' 20000 = Inr s" "plan_id_of hex \<notin> pl_plan_id ` set (plan_artifacts st)"
  shows "store_artifact i title summary ss rs vs hex now st =
    Inr (set_scope i PlanAwaitingApproval (Some (plan_id_of hex)) now
      (st\<lparr>plan_artifacts := plan_artifacts st @ [\<lparr>pl_plan_id = plan_id_of hex, pl_scope_id = i, pl_title = t,
        pl_summary = s, pl_steps = ss, pl_risks = rs, pl_verification = vs, pl_status = PlanAwaitingApproval,
        pl_version = 0, pl_created_at = now, pl_updated_at = now, pl_approved_at = None, pl_rejected_at = None\<rparr>]\<rparr>))"
  using assms by (simp add: store_artifact_def insert_artifact_def)

lemma find_last_key:
  assumes "k a \<notin> k ` set t"
  shows "find (\<lambda>r. k r = k a) (t @ [a]) = Some a"
proof -
  have "find (\<lambda>r. k r = k a) t = None" unfolding find_None_iff using assms by (metis image_eqI)
  then show ?thesis by (simp add: find_append)
qed

lemma decide_locked_returns:
  assumes "a \<in> set (plan_artifacts st)" "distinct (map pl_plan_id (plan_artifacts st))"
    "pl_status a = PlanAwaitingApproval"
  shows "decide_locked (pl_scope_id a) (pl_plan_id a) approve now st =
    Inr (set_scope (pl_scope_id a) (if approve then PlanExecuting else PlanRejected)
       (if approve then Some (pl_plan_id a) else None) now
       (st\<lparr>plan_artifacts := update_where (\<lambda>q. pl_plan_id q = pl_plan_id a) (decided_row approve now) (plan_artifacts st)\<rparr>))"
proof -
  have "find (\<lambda>q. pl_plan_id q = pl_plan_id a \<and> pl_scope_id q = pl_scope_id a) (plan_artifacts st) = Some a"
  proof -
    obtain b where b: "find (\<lambda>q. pl_plan_id q = pl_plan_id a \<and> pl_scope_id q = pl_scope_id a) (plan_artifacts st) = Some b"
      using assms(1) by (cases "find (\<lambda>q. pl_plan_id q = pl_plan_id a \<and> pl_scope_id q = pl_scope_id a) (plan_artifacts st)")
        (auto simp: find_None_iff)
    with find_SomeD [OF b] distinct_map_eqD [OF assms(2) _ assms(1)] show ?thesis by blast
  qed
  with assms(3) show ?thesis by (simp add: decide_locked_def)
qed

lemma decided_keys [simp]: "pl_plan_id (decided_row approve now a) = pl_plan_id a"
  "pl_scope_id (decided_row approve now a) = pl_scope_id a"
  by (simp_all add: decided_row_def)

lemma get_decided:
  assumes "find (\<lambda>q. pl_plan_id q = i) t = Some a" "plan_text (PStr i) ''plan_id'' 200 = Inr i"
  shows "get_plan (PStr i) (set_scope j ph p now (st\<lparr>plan_artifacts := update_where (\<lambda>q. pl_plan_id q = i) (decided_row approve u) t\<rparr>))
    = Inr (decided_row approve u a)"
  using assms by (simp add: get_plan_def find_by_key)

text \<open>
  The way of a plan: from an idle scope, entering Plan Mode, submitting a plan and approving it yields
  an executing scope whose active plan is the one that was submitted, with its texts stripped and its
  lists in order; rejecting it instead leaves no active plan and the scope can enter Plan Mode again.
\<close>


theorem plan_flow:
  assumes "plan_step\<^sup>*\<^sup>* new_plan_world w" "st = pw_store w" "uuid_hex hex"
    and "plan_id_of hex \<notin> pl_plan_id ` set (plan_artifacts st)"
    and "plan_phase_of v st = Inr ph" "ph \<notin> {PlanPlanning, PlanAwaitingApproval}"
    and "plan_text title ''title'' 300 = Inr t" "plan_text summary ''summary'' 20000 = Inr s"
    and "plan_strings steps ''steps'' True = Inr ss" "plan_strings risks ''risks'' False = Inr rs"
    and "plan_strings verification ''verification'' True = Inr vs"
  shows "\<exists>st1 st2 a. enter_plan v t1 st = Inr (PlanPlanning, st1) \<and>
    create_artifact v title summary steps risks verification hex t2 st1 = Inr (Inr a, st2) \<and>
    pl_title a = t \<and> pl_summary a = s \<and> pl_steps a = ss \<and> pl_risks a = rs \<and> pl_verification a = vs \<and>
    plan_phase_of v st2 = Inr PlanAwaitingApproval \<and> active_plan v st2 = Inr (Some a) \<and>
    (\<exists>st3. decide_plan v (PStr (pl_plan_id a)) True t3 st2 = Inr (Inr (decided_row True t3 a), st3) \<and>
      plan_phase_of v st3 = Inr PlanExecuting \<and> active_plan v st3 = Inr (Some (decided_row True t3 a))) \<and>
    (\<exists>st3. decide_plan v (PStr (pl_plan_id a)) False t3 st2 = Inr (Inr (decided_row False t3 a), st3) \<and>
      plan_phase_of v st3 = Inr PlanRejected \<and> active_plan v st3 = Inr None \<and>
      (\<exists>st4. enter_plan v t4 st3 = Inr (PlanPlanning, st4)))"
proof -
  have inv: "plan_inv st" using reachable_plan_inv [OF assms(1)] assms(2) by (simp add: plan_world_inv_def)
  from assms(5) obtain i where i: "scope_arg v = Inr i" by (auto simp: plan_phase_of_def split: sum.splits)
  define st1 where "st1 = upsert_scope i t1 st"
  have enter: "enter_plan v t1 st = Inr (PlanPlanning, st1)"
    using assms(5,6) i by (auto simp: enter_plan_def plan_phase_of_def st1_def split: option.splits)
  define a where "a = \<lparr>pl_plan_id = plan_id_of hex, pl_scope_id = i, pl_title = t, pl_summary = s, pl_steps = ss,
    pl_risks = rs, pl_verification = vs, pl_status = PlanAwaitingApproval, pl_version = 0, pl_created_at = t2,
    pl_updated_at = t2, pl_approved_at = None, pl_rejected_at = None\<rparr>"
  define st2 where "st2 = set_scope i PlanAwaitingApproval (Some (plan_id_of hex)) t2
    (st1\<lparr>plan_artifacts := plan_artifacts st1 @ [a]\<rparr>)"
  have idt: "plan_text (PStr (plan_id_of hex)) ''plan_id'' 200 = Inr (plan_id_of hex)" by (rule plan_id_text [OF assms(3)])
  have found: "find (\<lambda>q. pl_plan_id q = plan_id_of hex) (plan_artifacts st2) = Some a"
    using find_last_key [of pl_plan_id a "plan_artifacts st"] assms(4) by (simp add: st2_def st1_def a_def)
  have got: "get_plan (PStr (plan_id_of hex)) st2 = Inr a" by (simp add: get_plan_def idt found)
  have "store_artifact i title summary ss rs vs hex t2 st1 = Inr st2"
    using assms(4,7,8) unfolding st2_def a_def
    by (intro store_artifact_returns) (auto simp: st1_def)
  then have create: "create_artifact v title summary steps risks verification hex t2 st1 = Inr (Inr a, st2)"
    using i got assms(9-11) by (simp add: create_artifact_def)
  obtain r2 where row: "scope_row i st2 = Some r2" "sc_phase r2 = PlanAwaitingApproval" "sc_active_plan_id r2 = Some (plan_id_of hex)"
    by (simp add: st2_def st1_def)
  have mem: "a \<in> set (plan_artifacts st2)" by (simp add: st2_def)
  have dist: "distinct (map pl_plan_id (plan_artifacts st2))"
    using inv assms(4) by (simp add: st2_def st1_def a_def plan_inv_def)
  have keys: "pl_plan_id a = plan_id_of hex" "pl_scope_id a = i" "pl_status a = PlanAwaitingApproval"
    by (simp_all add: a_def)
  define st3 where "st3 = (\<lambda>approve. set_scope i (if approve then PlanExecuting else PlanRejected)
    (if approve then Some (plan_id_of hex) else None) t3
    (st2\<lparr>plan_artifacts := update_where (\<lambda>q. pl_plan_id q = plan_id_of hex) (decided_row approve t3) (plan_artifacts st2)\<rparr>))"
  have got3: "get_plan (PStr (plan_id_of hex)) (st3 approve) = Inr (decided_row approve t3 a)" for approve
    unfolding st3_def by (rule get_decided [OF found idt])
  have "decide_locked i (plan_id_of hex) approve t3 st2 = Inr (st3 approve)" for approve
    using decide_locked_returns [OF mem dist keys(3), of approve t3] by (simp add: keys st3_def)
  then have dec: "decide_plan v (PStr (pl_plan_id a)) approve t3 st2 = Inr (Inr (decided_row approve t3 a), st3 approve)" for approve
    using got3 by (simp add: decide_plan_def i keys idt)
  have ph: "plan_phase_of v st2 = Inr PlanAwaitingApproval" "active_plan v st2 = Inr (Some a)"
    using row got i by (simp_all add: plan_phase_of_def active_plan_def)
  obtain r3 where r3: "scope_row i (st3 approve) = Some (r3 approve)"
    "sc_phase (r3 approve) = (if approve then PlanExecuting else PlanRejected)"
    "sc_active_plan_id (r3 approve) = (if approve then Some (plan_id_of hex) else None)" for approve
    using row(1) by (simp add: st3_def)
  have yes: "plan_phase_of v (st3 True) = Inr PlanExecuting" "active_plan v (st3 True) = Inr (Some (decided_row True t3 a))"
    using r3 [of True] got3 [of True] i by (simp_all add: plan_phase_of_def active_plan_def)
  have no: "plan_phase_of v (st3 False) = Inr PlanRejected" "active_plan v (st3 False) = Inr None"
    "enter_plan v t4 (st3 False) = Inr (PlanPlanning, upsert_scope i t4 (st3 False))"
    using r3 [of False] i by (simp_all add: plan_phase_of_def active_plan_def enter_plan_def)
  have fields: "pl_title a = t" "pl_summary a = s" "pl_steps a = ss" "pl_risks a = rs" "pl_verification a = vs"
    by (simp_all add: a_def)
  show ?thesis using enter create fields ph dec [of True] dec [of False] yes no by blast
qed

text \<open>
  Two callers whose answers both passed their checks: the second update matches no row, so the store keeps
  the first answer, and the second caller is shown the question with the answer of the first.
\<close>

lemma late_answer_ignored:
  assumes "answer_check v x st = Inr (i, t1)" "answer_check v y st = Inr (i, t2)"
  shows "answer_write i t2 n2 (answer_write i t1 n1 st) = answer_write i t1 n1 st"
  by (auto simp: answer_write_def update_where_def)

section \<open>Witnesses\<close>

definition demo_hex :: string where
  "demo_hex = replicate 32 CHR ''a''"

definition demo_artifact :: plan_artifact where
  "demo_artifact = \<lparr>pl_plan_id = plan_id_of demo_hex, pl_scope_id = ''s'', pl_title = ''T'', pl_summary = ''S'',
    pl_steps = [''a''], pl_risks = [], pl_verification = [''v''], pl_status = PlanAwaitingApproval, pl_version = 0,
    pl_created_at = 2, pl_updated_at = 2, pl_approved_at = None, pl_rejected_at = None\<rparr>"

definition demo_plans :: "nat \<Rightarrow> plan_store" where
  "demo_plans n =
    \<lparr>plan_scopes = [\<lparr>sc_scope_id = ''s'',
       sc_phase = (if n = 1 then PlanPlanning else if n = 2 then PlanAwaitingApproval else PlanExecuting),
       sc_active_plan_id = (if n = 1 then None else Some (plan_id_of demo_hex)), sc_updated_at = of_nat n\<rparr>],
     plan_artifacts = (if n = 1 then [] else if n = 2 then [demo_artifact] else [decided_row True 3 demo_artifact]),
     plan_questions = []\<rparr>"

definition demo_plan_world :: "nat \<Rightarrow> plan_world" where
  "demo_plan_world n = \<lparr>pw_store = demo_plans n, pw_checked = {}\<rparr>"

lemma demo_uuid: "uuid_hex demo_hex"
  by code_simp

lemma demo_scope: "scope_arg (PStr ''s'') = Inr ''s''"
  by code_simp

lemma demo_strips: "strip '' T '' = ''T''" "strip ''S'' = ''S''" "strip ''a'' = ''a''" "strip ''v'' = ''v''" "strip ''s'' = ''s''"
  by code_simp+

lemma demo_args: "plan_text (PStr '' T '') ''title'' 300 = Inr ''T''" "plan_text (PStr ''S'') ''summary'' 20000 = Inr ''S''"
  "plan_strings (PList [PStr ''a'']) ''steps'' True = Inr [''a'']" "plan_strings (PTuple []) ''risks'' False = Inr []"
  "plan_strings (PList [PStr ''v'']) ''verification'' True = Inr [''v'']"
  by (simp_all add: plan_strings_def plan_text_def demo_strips)

lemma demo_enter: "enter_plan (PStr ''s'') 1 new_plan_store = Inr (PlanPlanning, demo_plans 1)"
proof -
  have a: "scope_row ''s'' new_plan_store = None" by (simp add: scope_row_def new_plan_store_def)
  have b: "upsert_scope ''s'' 1 new_plan_store = demo_plans 1"
    by (simp add: upsert_scope_def a) (simp add: new_plan_store_def demo_plans_def)
  show ?thesis by (simp add: enter_plan_def demo_scope a b)
qed

lemma demo_create: "\<exists>a. create_artifact (PStr ''s'') (PStr '' T '') (PStr ''S'') (PList [PStr ''a'']) (PTuple [])
    (PList [PStr ''v'']) demo_hex 2 (demo_plans 1) = Inr (a, demo_plans 2)"
  by (simp add: create_artifact_def demo_scope demo_args store_artifact_def insert_artifact_def scope_row_def)
    (simp add: demo_plans_def demo_artifact_def demo_args insert_artifact_def set_scope_def update_where_def)

lemma demo_decide: "\<exists>a. decide_plan (PStr ''s'') (PStr (plan_id_of demo_hex)) True 3 (demo_plans 2) = Inr (a, demo_plans 3)"
  by (simp add: decide_plan_def demo_scope plan_id_text [OF demo_uuid] decide_locked_def)
    (simp add: demo_plans_def demo_artifact_def set_scope_def update_where_def)

lemma demo_world_steps: "plan_step\<^sup>*\<^sup>* new_plan_world (demo_plan_world 2)" "plan_step (demo_plan_world 2) (demo_plan_world 3)"
proof -
  have "plan_step new_plan_world (demo_plan_world 1)"
    using plan_step.enter [of "PStr ''s''" 1 new_plan_world] demo_enter
    by (simp add: new_plan_world_def demo_plan_world_def)
  moreover have "plan_step (demo_plan_world 1) (demo_plan_world 2)"
    using plan_step.create [of _ _ _ _ _ _ _ _ "demo_plan_world 1"] demo_create demo_uuid
    by (fastforce simp: demo_plan_world_def)
  ultimately show "plan_step\<^sup>*\<^sup>* new_plan_world (demo_plan_world 2)" by simp
  show "plan_step (demo_plan_world 2) (demo_plan_world 3)"
    using plan_step.decide [of _ _ _ _ "demo_plan_world 2"] demo_decide by (fastforce simp: demo_plan_world_def)
qed

lemma demo_world_reachable: "plan_step\<^sup>*\<^sup>* new_plan_world (demo_plan_world 3)"
  using demo_world_steps by (rule rtranclp.rtrancl_into_rtrancl)

lemma demo_phase: "plan_phase_of (PStr ''s'') (demo_plans 3) = Inr PlanExecuting"
  by (simp add: plan_phase_of_def demo_scope scope_row_def demo_plans_def)

theorem plan_mode_consistent_witness:
  "\<exists>a. active_plan (PStr ''s'') (demo_plans 3) = Inr (Some a) \<and> pl_status a = PlanExecuting \<and>
    awaiting ''s'' (demo_plans 3) = {}"
  using plan_mode_consistent [OF demo_world_reachable demo_scope, of PlanExecuting] demo_phase
  by (auto simp: demo_plan_world_def)

theorem plan_decisions_final_witness: "keeps_plans (demo_plans 2) (demo_plans 3)"
  using plan_decisions_final [OF demo_world_steps(1) r_into_rtranclp [where r = plan_step, OF demo_world_steps(2)]]
  by (simp add: demo_plan_world_def)

theorem plan_flow_witness:
  "\<exists>st1 st2 a. enter_plan (PStr ''s'') 1 new_plan_store = Inr (PlanPlanning, st1) \<and>
    create_artifact (PStr ''s'') (PStr '' T '') (PStr ''S'') (PList [PStr ''a'']) (PTuple []) (PList [PStr ''v''])
      demo_hex 2 st1 = Inr (Inr a, st2) \<and> pl_title a = ''T'' \<and>
    (\<exists>st3. decide_plan (PStr ''s'') (PStr (pl_plan_id a)) True 3 st2 = Inr (Inr (decided_row True 3 a), st3) \<and>
      plan_phase_of (PStr ''s'') st3 = Inr PlanExecuting)"
proof -
  have st: "new_plan_store = pw_store new_plan_world" by (simp add: new_plan_world_def)
  have fresh: "plan_id_of demo_hex \<notin> pl_plan_id ` set (plan_artifacts new_plan_store)" by (simp add: new_plan_store_def)
  have ph: "plan_phase_of (PStr ''s'') new_plan_store = Inr PlanIdle"
    by (simp add: plan_phase_of_def demo_scope scope_row_def new_plan_store_def)
  have idle: "PlanIdle \<notin> {PlanPlanning, PlanAwaitingApproval}" by simp
  show ?thesis
    using plan_flow [OF rtranclp.rtrancl_refl st demo_uuid fresh ph idle demo_args, of 1 2 3 4] by blast
qed

end
