(* ===== verification/Query_Engine.thy ===== *)
theory Query_Engine
  imports Py_Value Interfaces
begin

text \<open>
  \<open>harness/contracts.py\<close> and \<open>harness/query_engine.py\<close>: the entry point of a conversation, which tracks
  runs and emits their lifecycle events around an executor. The executor is not modelled: a submission
  takes what it does while it executes (events, and calls other threads make in the meantime) and how it
  ends. The log holds the events in the order of their sequence numbers, as handed to the event handler,
  whose exceptions the code drops. \<open>submit\<close> composes the sections that hold the lock; \<open>query_step\<close> lets the
  sections of several threads interleave.
\<close>

section \<open>Contracts\<close>

datatype query_error =
    BadLimit string
  | BadReport string
  | EmptyText
  | EmptyConversation
  | EmptyReason
  | EmptyEventType
  | ConcurrentSubmit string
  | UnknownRun string
  | TerminalTwice string
  | Interrupted

record run_limits =
  li_max_steps :: int
  li_max_model_calls :: int
  li_max_tool_calls :: int

definition positive_limit :: "string \<Rightarrow> pval \<Rightarrow> query_error + int" where
  "positive_limit name v = (case v of PInt n \<Rightarrow> if n < 1 then Inl (BadLimit name) else Inr n | _ \<Rightarrow> Inl (BadLimit name))"

definition make_limits :: "pval \<Rightarrow> pval \<Rightarrow> pval \<Rightarrow> query_error + run_limits" where
  "make_limits steps model_calls tool_calls =
    (case positive_limit ''max_steps'' steps of
       Inl e \<Rightarrow> Inl e
     | Inr a \<Rightarrow> (case positive_limit ''max_model_calls'' model_calls of
         Inl e \<Rightarrow> Inl e
       | Inr b \<Rightarrow> (case positive_limit ''max_tool_calls'' tool_calls of
           Inl e \<Rightarrow> Inl e
         | Inr c \<Rightarrow> Inr \<lparr>li_max_steps = a, li_max_model_calls = b, li_max_tool_calls = c\<rparr>)))"

text \<open>What every constructed limit satisfies.\<close>

definition limits_ok :: "run_limits \<Rightarrow> bool" where
  "limits_ok l = (1 \<le> li_max_steps l \<and> 1 \<le> li_max_model_calls l \<and> 1 \<le> li_max_tool_calls l)"

definition default_limits :: run_limits where
  "default_limits = \<lparr>li_max_steps = 20, li_max_model_calls = 10, li_max_tool_calls = 20\<rparr>"

record run_request =
  rq_run_id :: string
  rq_conversation_id :: string
  rq_text :: string
  rq_limits :: run_limits

definition run_terminal_statuses :: "string list" where
  "run_terminal_statuses = [''completed'', ''failed'', ''blocked'', ''stopped'', ''budget_exhausted'']"

record execution_report =
  er_status :: string
  er_output :: "string option"
  er_stop_reason :: string
  er_model_calls :: int
  er_tool_calls :: int

definition check_report :: "execution_report \<Rightarrow> query_error + execution_report" where
  "check_report r =
    (if er_status r \<notin> set run_terminal_statuses then Inl (BadReport ''status'')
     else if er_stop_reason r = [] then Inl (BadReport ''stop_reason'')
     else if er_model_calls r < 0 \<or> er_tool_calls r < 0 then Inl (BadReport ''counters'')
     else Inr r)"

record run_result =
  rs_run_id :: string
  rs_status :: string
  rs_output :: "string option"
  rs_stop_reason :: string
  rs_model_calls :: int
  rs_tool_calls :: int
  rs_last_event_sequence :: nat

section \<open>The state of an engine\<close>

record stop_token =
  to_set :: bool
  to_reason :: "string option"

definition new_token :: stop_token where
  "new_token = \<lparr>to_set = False, to_reason = None\<rparr>"

text \<open>The flag says whether this request is the one that set the token.\<close>

definition token_request :: "string \<Rightarrow> stop_token \<Rightarrow> query_error + bool \<times> stop_token" where
  "token_request reason tok =
    (if strip reason = [] then Inl EmptyReason
     else if to_set tok then Inr (False, tok)
     else Inr (True, \<lparr>to_set = True, to_reason = Some (strip reason)\<rparr>))"

text \<open>A record of a run, which is also the view \<open>get_run_view\<close> returns (without its last field).\<close>

record agent_run =
  ar_run_id :: string
  ar_conversation_id :: string
  ar_status :: string
  ar_limits :: run_limits
  ar_stop_reason :: "string option"
  ar_model_calls :: int
  ar_tool_calls :: int
  ar_last_event_sequence :: nat
  ar_terminal_emitted :: bool

text \<open>Who emitted an event: the engine itself, or the executor through the function it is given.\<close>

datatype emitter = ByEngine | ByExecutor

type_synonym event_envelope = "(string \<times> pval) list"

record engine_event =
  ee_run :: string
  ee_emitter :: emitter
  ee_type :: string
  ee_envelope :: event_envelope

record query_engine =
  qe_conversation_id :: string
  qe_runs :: "(string \<times> agent_run) list"
  qe_tokens :: "(string \<times> stop_token) list"
  qe_active_run_id :: "string option"
  qe_log :: "engine_event list"

definition new_query_engine :: "string \<Rightarrow> query_error + query_engine" where
  "new_query_engine conversation_id =
    (if strip conversation_id = [] then Inl EmptyConversation
     else Inr \<lparr>qe_conversation_id = conversation_id, qe_runs = [], qe_tokens = [], qe_active_run_id = None, qe_log = []\<rparr>)"

definition get_run_view :: "string \<Rightarrow> query_engine \<Rightarrow> query_error + agent_run" where
  "get_run_view run_id e = (case map_of (qe_runs e) run_id of None \<Rightarrow> Inl (UnknownRun run_id) | Some r \<Rightarrow> Inr r)"

section \<open>Events\<close>

definition set_default :: "string \<Rightarrow> pval \<Rightarrow> event_envelope \<Rightarrow> event_envelope" where
  "set_default k v kvs = (case map_of kvs k of None \<Rightarrow> kvs @ [(k, v)] | Some _ \<Rightarrow> kvs)"

definition seal :: "string \<Rightarrow> nat \<Rightarrow> event_envelope \<Rightarrow> event_envelope" where
  "seal run_id n payload = dict_set ''sequence'' (PInt (int n)) (set_default ''run_id'' (PStr run_id) payload)"

definition emit_event ::
  "emitter \<Rightarrow> string \<Rightarrow> string \<Rightarrow> event_envelope \<Rightarrow> query_engine \<Rightarrow> query_error + nat \<times> query_engine" where
  "emit_event who run_id event_type payload e =
    (if event_type = [] then Inl EmptyEventType
     else (case map_of (qe_runs e) run_id of
         None \<Rightarrow> Inl (UnknownRun run_id)
       | Some r \<Rightarrow>
         (let n = Suc (ar_last_event_sequence r) in
          Inr (n, e\<lparr>qe_runs := dict_set run_id (r\<lparr>ar_last_event_sequence := n\<rparr>) (qe_runs e),
                    qe_log := qe_log e @ [\<lparr>ee_run = run_id, ee_emitter = who, ee_type = event_type,
                      ee_envelope = seal run_id n payload\<rparr>]\<rparr>))))"

section \<open>Stopping\<close>

text \<open>The locked part of \<open>request_stop\<close>, and the event of an accepted request.\<close>

definition accept_stop :: "string \<Rightarrow> string \<Rightarrow> query_engine \<Rightarrow> query_error + bool \<times> query_engine" where
  "accept_stop run_id reason e =
    (case map_of (qe_runs e) run_id of
       None \<Rightarrow> Inl (UnknownRun run_id)
     | Some _ \<Rightarrow> (case map_of (qe_tokens e) run_id of
         None \<Rightarrow> Inr (False, e)
       | Some tok \<Rightarrow> (case token_request reason tok of
           Inl x \<Rightarrow> Inl x
         | Inr (ok, tok') \<Rightarrow> Inr (ok, e\<lparr>qe_tokens := dict_set run_id tok' (qe_tokens e)\<rparr>))))"

definition announce_stop :: "string \<Rightarrow> string \<Rightarrow> query_engine \<Rightarrow> query_error + nat \<times> query_engine" where
  "announce_stop run_id reason e = emit_event ByEngine run_id ''run.stop_requested'' [(''reason'', PStr reason)] e"

definition request_stop :: "string \<Rightarrow> string \<Rightarrow> query_engine \<Rightarrow> query_error + bool \<times> query_engine" where
  "request_stop run_id reason e =
    (case accept_stop run_id reason e of
       Inl x \<Rightarrow> Inl x
     | Inr (ok, e') \<Rightarrow>
       (if ok then (case announce_stop run_id reason e' of Inl x \<Rightarrow> Inl x | Inr (_, e'') \<Rightarrow> Inr (True, e''))
        else Inr (False, e')))"

section \<open>The sections of a submission\<close>

definition run_id_of :: "string \<Rightarrow> string" where
  "run_id_of hex = ''run-'' @ take 12 hex"

definition begin_submit ::
  "string \<Rightarrow> run_limits option \<Rightarrow> string \<Rightarrow> query_engine \<Rightarrow> query_error + run_request \<times> query_engine" where
  "begin_submit input limits hex e =
    (if strip input = [] then Inl EmptyText
     else (let l = (case limits of None \<Rightarrow> default_limits | Some l \<Rightarrow> l) in
       case qe_active_run_id e of
         Some a \<Rightarrow> Inl (ConcurrentSubmit a)
       | None \<Rightarrow>
         (let i = run_id_of hex;
              r = \<lparr>ar_run_id = i, ar_conversation_id = qe_conversation_id e, ar_status = ''running'', ar_limits = l,
                ar_stop_reason = None, ar_model_calls = 0, ar_tool_calls = 0, ar_last_event_sequence = 0,
                ar_terminal_emitted = False\<rparr>
          in Inr (\<lparr>rq_run_id = i, rq_conversation_id = qe_conversation_id e, rq_text = strip input, rq_limits = l\<rparr>,
                  e\<lparr>qe_runs := dict_set i r (qe_runs e), qe_tokens := dict_set i new_token (qe_tokens e),
                    qe_active_run_id := Some i\<rparr>))))"

definition started_payload :: "run_request \<Rightarrow> event_envelope" where
  "started_payload q =
    [(''conversation_id'', PStr (rq_conversation_id q)),
     (''limits'', PDict [(PStr ''max_steps'', PInt (li_max_steps (rq_limits q))),
       (PStr ''max_model_calls'', PInt (li_max_model_calls (rq_limits q))),
       (PStr ''max_tool_calls'', PInt (li_max_tool_calls (rq_limits q)))])]"

definition announce_start :: "run_request \<Rightarrow> query_engine \<Rightarrow> query_error + nat \<times> query_engine" where
  "announce_start q e = emit_event ByEngine (rq_run_id q) ''run.started'' (started_payload q) e"

text \<open>
  How the executor ends: it returns a report (constructed, so checked), raises an exception of the class
  \<open>Exception\<close> with its type and message, raises the contract error of the engine itself, or is
  interrupted by an exception that \<open>except Exception\<close> does not catch.
\<close>

datatype executor_ending =
    Returns execution_report
  | Raises string string
  | RaisesContract string
  | IsInterrupted

definition contract_error :: "execution_report \<Rightarrow> run_limits \<Rightarrow> string option" where
  "contract_error r l =
    (if li_max_model_calls l < er_model_calls r
     then Some (''model_calls='' @ int_text (er_model_calls r) @ '' exceeds max_model_calls='' @ int_text (li_max_model_calls l))
     else if li_max_tool_calls l < er_tool_calls r
     then Some (''tool_calls='' @ int_text (er_tool_calls r) @ '' exceeds max_tool_calls='' @ int_text (li_max_tool_calls l))
     else None)"

definition failed_report :: "string \<Rightarrow> execution_report" where
  "failed_report reason =
    \<lparr>er_status = ''failed'', er_output = None, er_stop_reason = reason, er_model_calls = 0, er_tool_calls = 0\<rparr>"

definition error_payload :: "string \<Rightarrow> string \<Rightarrow> string \<Rightarrow> event_envelope" where
  "error_payload code type msg =
    [(''error_code'', PStr code), (''error_type'', PStr type), (''error_message'', PStr (take 500 msg))]"

definition contract_violation :: "string \<Rightarrow> execution_report \<times> event_envelope" where
  "contract_violation msg =
    (failed_report ''executor_contract_violation'', error_payload ''EXECUTOR_CONTRACT_VIOLATION'' ''ExecutorContractError'' msg)"

definition settle :: "run_limits \<Rightarrow> executor_ending \<Rightarrow> (execution_report \<times> event_envelope) option" where
  "settle l ending = (case ending of
       Returns r \<Rightarrow> Some (case contract_error r l of None \<Rightarrow> (r, []) | Some msg \<Rightarrow> contract_violation msg)
     | RaisesContract msg \<Rightarrow> Some (contract_violation msg)
     | Raises type msg \<Rightarrow> Some (failed_report ''executor_failed'', error_payload ''EXECUTOR_FAILED'' type msg)
     | IsInterrupted \<Rightarrow> None)"

definition update_run :: "string \<Rightarrow> (agent_run \<Rightarrow> agent_run) \<Rightarrow> query_engine \<Rightarrow> query_engine" where
  "update_run run_id f e = (case map_of (qe_runs e) run_id of
       None \<Rightarrow> e | Some r \<Rightarrow> e\<lparr>qe_runs := dict_set run_id (f r) (qe_runs e)\<rparr>)"

definition record_report :: "string \<Rightarrow> execution_report \<Rightarrow> query_engine \<Rightarrow> query_engine" where
  "record_report run_id r = update_run run_id (\<lambda>a. a\<lparr>ar_status := er_status r, ar_stop_reason := Some (er_stop_reason r),
     ar_model_calls := er_model_calls r, ar_tool_calls := er_tool_calls r\<rparr>)"

text \<open>\<open>_emit_terminal\<close>: the locked part, and the event.\<close>

definition mark_terminal :: "string \<Rightarrow> query_engine \<Rightarrow> query_error + query_engine" where
  "mark_terminal run_id e = (case map_of (qe_runs e) run_id of
       None \<Rightarrow> Inl (UnknownRun run_id)
     | Some r \<Rightarrow> (if ar_terminal_emitted r then Inl (TerminalTwice run_id)
         else Inr (update_run run_id (\<lambda>r. r\<lparr>ar_terminal_emitted := True\<rparr>) e)))"

definition terminal_type :: "string \<Rightarrow> string" where
  "terminal_type status = (if status = ''completed'' then ''run.completed''
     else if status = ''failed'' then ''run.failed'' else ''run.stopped'')"

definition terminal_payload :: "execution_report \<Rightarrow> event_envelope \<Rightarrow> event_envelope" where
  "terminal_payload r err =
    fold (\<lambda>(k, v). dict_set k v) err
      [(''status'', PStr (er_status r)), (''stop_reason'', PStr (er_stop_reason r)),
       (''model_calls'', PInt (er_model_calls r)), (''tool_calls'', PInt (er_tool_calls r))]"

definition announce_end :: "string \<Rightarrow> execution_report \<Rightarrow> event_envelope \<Rightarrow> query_engine \<Rightarrow> query_error + nat \<times> query_engine" where
  "announce_end run_id r err e = emit_event ByEngine run_id (terminal_type (er_status r)) (terminal_payload r err) e"

definition close_submit :: "string \<Rightarrow> execution_report \<Rightarrow> query_engine \<Rightarrow> query_error + run_result \<times> query_engine" where
  "close_submit run_id rep e = (case map_of (qe_runs e) run_id of
       None \<Rightarrow> Inl (UnknownRun run_id)
     | Some a \<Rightarrow>
       Inr (\<lparr>rs_run_id = ar_run_id a, rs_status = ar_status a, rs_output = er_output rep,
             rs_stop_reason = (case ar_stop_reason a of None \<Rightarrow> ''unknown'' | Some s \<Rightarrow> if s = [] then ''unknown'' else s),
             rs_model_calls = ar_model_calls a, rs_tool_calls = ar_tool_calls a,
             rs_last_event_sequence = ar_last_event_sequence a\<rparr>,
            e\<lparr>qe_active_run_id := None, qe_tokens := filter (\<lambda>kv. fst kv \<noteq> run_id) (qe_tokens e)\<rparr>))"

section \<open>A submission\<close>

text \<open>What happens while the executor works; a call that raises leaves the engine as it was.\<close>

datatype activity =
    Emits string event_envelope
  | StopAsked string string
  | Submitted string "run_limits option" string

definition kept :: "query_engine \<Rightarrow> query_error + 'a \<times> query_engine \<Rightarrow> query_engine" where
  "kept e res = (case res of Inl _ \<Rightarrow> e | Inr x \<Rightarrow> snd x)"

definition perform :: "string \<Rightarrow> activity \<Rightarrow> query_engine \<Rightarrow> query_engine" where
  "perform run_id act e = (case act of
       Emits type payload \<Rightarrow> kept e (emit_event ByExecutor run_id type payload e)
     | StopAsked i reason \<Rightarrow> kept e (request_stop i reason e)
     | Submitted input limits hex \<Rightarrow> kept e (begin_submit input limits hex e))"

text \<open>
  \<open>submit\<close>, with the state it leaves behind. An interruption leaves the run active; a run whose terminal
  event was emitted already would as well.
\<close>

definition finish_submit :: "run_request \<Rightarrow> execution_report \<Rightarrow> event_envelope \<Rightarrow> query_engine \<Rightarrow> (query_error + run_result) \<times> query_engine" where
  "finish_submit q r err e =
    (let e1 = record_report (rq_run_id q) r e in
     case mark_terminal (rq_run_id q) e1 of
       Inl x \<Rightarrow> (Inl x, e1)
     | Inr e2 \<Rightarrow> (case announce_end (rq_run_id q) r err e2 of
         Inl x \<Rightarrow> (Inl x, e2)
       | Inr (_, e3) \<Rightarrow> (case close_submit (rq_run_id q) r e3 of
           Inl x \<Rightarrow> (Inl x, e3)
         | Inr (res, e4) \<Rightarrow> (Inr res, e4))))"

definition submit_text ::
  "string \<Rightarrow> run_limits option \<Rightarrow> string \<Rightarrow> activity list \<Rightarrow> executor_ending \<Rightarrow> query_engine \<Rightarrow> (query_error + run_result) \<times> query_engine" where
  "submit_text input limits hex acts ending e =
    (case begin_submit input limits hex e of
       Inl x \<Rightarrow> (Inl x, e)
     | Inr (q, e1) \<Rightarrow> (case announce_start q e1 of
         Inl x \<Rightarrow> (Inl x, e1)
       | Inr (_, e2) \<Rightarrow>
         (let e3 = fold (perform (rq_run_id q)) acts e2 in
          case settle (rq_limits q) ending of
            None \<Rightarrow> (Inl Interrupted, e3)
          | Some (r, err) \<Rightarrow> finish_submit q r err e3)))"

section \<open>Interleavings\<close>

text \<open>Where the thread of the current submission is, and the stop requests accepted but not yet announced.\<close>

datatype submission =
    NoSubmission
  | Begun run_request
  | Executing run_request
  | Reported run_request execution_report event_envelope
  | Marked run_request execution_report event_envelope
  | Ended run_request execution_report
  | Stranded run_request

record query_world =
  qw_engine :: query_engine
  qw_submission :: submission
  qw_accepted :: "(string \<times> string) list"

text \<open>
  The steps of a submitting thread, of its executor, and of threads that ask to stop or submit. The
  identifier of a new run is fresh, as \<open>uuid4\<close> documents up to chance.
\<close>

inductive query_step :: "query_world \<Rightarrow> query_world \<Rightarrow> bool" where
  enter: "begin_submit input limits hex (qw_engine w) = Inr (q, e) \<Longrightarrow> (\<And>l. limits = Some l \<Longrightarrow> limits_ok l) \<Longrightarrow>
    run_id_of hex \<notin> fst ` set (qe_runs (qw_engine w)) \<Longrightarrow>
    query_step w (w\<lparr>qw_engine := e, qw_submission := Begun q\<rparr>)"
| start: "qw_submission w = Begun q \<Longrightarrow> announce_start q (qw_engine w) = Inr (n, e) \<Longrightarrow>
    query_step w (w\<lparr>qw_engine := e, qw_submission := Executing q\<rparr>)"
| emit: "qw_submission w = Executing q \<Longrightarrow> emit_event ByExecutor (rq_run_id q) kind payload (qw_engine w) = Inr (n, e) \<Longrightarrow>
    query_step w (w\<lparr>qw_engine := e\<rparr>)"
| accept: "accept_stop i reason (qw_engine w) = Inr (ok, e) \<Longrightarrow>
    query_step w (w\<lparr>qw_engine := e, qw_accepted := (if ok then qw_accepted w @ [(i, reason)] else qw_accepted w)\<rparr>)"
| announce: "qw_accepted w = xs @ (i, reason) # ys \<Longrightarrow> announce_stop i reason (qw_engine w) = Inr (n, e) \<Longrightarrow>
    query_step w (w\<lparr>qw_engine := e, qw_accepted := xs @ ys\<rparr>)"
| report: "qw_submission w = Executing q \<Longrightarrow> settle (rq_limits q) ending = Some (r, err) \<Longrightarrow>
    (\<And>r'. ending = Returns r' \<Longrightarrow> check_report r' = Inr r') \<Longrightarrow>
    query_step w (w\<lparr>qw_engine := record_report (rq_run_id q) r (qw_engine w), qw_submission := Reported q r err\<rparr>)"
| strand: "qw_submission w = Executing q \<Longrightarrow> query_step w (w\<lparr>qw_submission := Stranded q\<rparr>)"
| mark: "qw_submission w = Reported q r err \<Longrightarrow> mark_terminal (rq_run_id q) (qw_engine w) = Inr e \<Longrightarrow>
    query_step w (w\<lparr>qw_engine := e, qw_submission := Marked q r err\<rparr>)"
| finish: "qw_submission w = Marked q r err \<Longrightarrow> announce_end (rq_run_id q) r err (qw_engine w) = Inr (n, e) \<Longrightarrow>
    query_step w (w\<lparr>qw_engine := e, qw_submission := Ended q r\<rparr>)"
| close: "qw_submission w = Ended q r \<Longrightarrow> close_submit (rq_run_id q) r (qw_engine w) = Inr (res, e) \<Longrightarrow>
    query_step w (w\<lparr>qw_engine := e, qw_submission := NoSubmission\<rparr>)"

definition idle_world :: "query_engine \<Rightarrow> query_world" where
  "idle_world e = \<lparr>qw_engine = e, qw_submission = NoSubmission, qw_accepted = []\<rparr>"

end
