(* ===== verification/Query_Props.thy ===== *)
theory Query_Props
  imports Query_Engine
begin

text \<open>
  The invariant of the query engine over all interleavings of its sections (contiguous event sequences,
  one start and one terminal event per run, one active run), the refinement of \<open>submit\<close> to these steps,
  and the properties of a submission.
\<close>

lemma make_limits_ok: "make_limits a b c = Inr l \<Longrightarrow> limits_ok l"
  by (auto simp: make_limits_def positive_limit_def limits_ok_def split: sum.splits pval.splits if_splits)

lemma default_limits_ok [simp]: "limits_ok default_limits"
  by (simp add: limits_ok_def default_limits_def)

section \<open>Events\<close>

definition event_number :: "engine_event \<Rightarrow> pval option" where
  "event_number v = map_of (ee_envelope v) ''sequence''"

definition events_of :: "string \<Rightarrow> query_engine \<Rightarrow> engine_event list" where
  "events_of i e = filter (\<lambda>v. ee_run v = i) (qe_log e)"

definition engine_events :: "string set \<Rightarrow> string \<Rightarrow> query_engine \<Rightarrow> engine_event list" where
  "engine_events types i e = filter (\<lambda>v. ee_emitter v = ByEngine \<and> ee_type v \<in> types) (events_of i e)"

definition terminal_types :: "string set" where
  "terminal_types = {''run.completed'', ''run.failed'', ''run.stopped''}"

definition numbers_upto :: "nat \<Rightarrow> pval option list" where
  "numbers_upto n = map (\<lambda>k. Some (PInt (int k))) [1 ..< Suc n]"

lemma numbers_upto_Suc: "numbers_upto (Suc n) = numbers_upto n @ [Some (PInt (int (Suc n)))]"
  by (simp add: numbers_upto_def)

definition event_at :: "emitter \<Rightarrow> string \<Rightarrow> string \<Rightarrow> event_envelope \<Rightarrow> nat \<Rightarrow> engine_event" where
  "event_at who i kind payload n = \<lparr>ee_run = i, ee_emitter = who, ee_type = kind, ee_envelope = seal i n payload\<rparr>"

definition run_of :: "string \<Rightarrow> query_engine \<Rightarrow> agent_run option" where
  "run_of i e = map_of (qe_runs e) i"

lemma event_number_at [simp]: "event_number (event_at who i kind payload n) = Some (PInt (int n))"
  by (simp add: event_number_def event_at_def seal_def)

lemma event_at_simps [simp]: "ee_run (event_at who i kind payload n) = i" "ee_emitter (event_at who i kind payload n) = who"
  "ee_type (event_at who i kind payload n) = kind"
  by (simp_all add: event_at_def)

lemma emit_eventD:
  assumes "emit_event who i kind payload e = Inr (n, e')"
  shows "kind \<noteq> [] \<and> (\<exists>r. run_of i e = Some r \<and> n = Suc (ar_last_event_sequence r) \<and>
    (\<forall>j. run_of j e' = (if j = i then Some (r\<lparr>ar_last_event_sequence := n\<rparr>) else run_of j e)) \<and>
    qe_log e' = qe_log e @ [event_at who i kind payload n] \<and> qe_tokens e' = qe_tokens e \<and>
    qe_active_run_id e' = qe_active_run_id e)"
  using assms by (auto simp: emit_event_def run_of_def event_at_def Let_def split: if_splits option.splits)

lemma emit_event_returns:
  assumes "kind \<noteq> []" "run_of i e = Some r"
  shows "\<exists>e'. emit_event who i kind payload e = Inr (Suc (ar_last_event_sequence r), e')"
  using assms by (simp add: emit_event_def run_of_def Let_def)

section \<open>The invariant\<close>

fun submission_run :: "submission \<Rightarrow> string option" where
  "submission_run NoSubmission = None"
| "submission_run (Begun q) = Some (rq_run_id q)"
| "submission_run (Executing q) = Some (rq_run_id q)"
| "submission_run (Reported q r err) = Some (rq_run_id q)"
| "submission_run (Marked q r err) = Some (rq_run_id q)"
| "submission_run (Ended q r) = Some (rq_run_id q)"
| "submission_run (Stranded q) = Some (rq_run_id q)"

definition report_ok :: "run_limits \<Rightarrow> execution_report \<Rightarrow> bool" where
  "report_ok l r = (er_status r \<in> set run_terminal_statuses \<and> er_stop_reason r \<noteq> [] \<and>
     0 \<le> er_model_calls r \<and> er_model_calls r \<le> li_max_model_calls l \<and>
     0 \<le> er_tool_calls r \<and> er_tool_calls r \<le> li_max_tool_calls l)"

lemma settle_report_ok:
  assumes "settle l ending = Some (r, err)" "limits_ok l" "\<And>r'. ending = Returns r' \<Longrightarrow> check_report r' = Inr r'"
  shows "report_ok l r"
proof -
  have "report_ok l (failed_report s)" if "s \<noteq> []" for s
    using that assms(2) by (simp add: report_ok_def failed_report_def limits_ok_def run_terminal_statuses_def)
  with assms(1,3) show ?thesis
    by (auto simp: settle_def contract_violation_def contract_error_def check_report_def report_ok_def
        split: executor_ending.splits option.splits if_splits)
qed

definition reported :: "execution_report \<Rightarrow> agent_run \<Rightarrow> bool" where
  "reported r a = (ar_status a = er_status r \<and> ar_stop_reason a = Some (er_stop_reason r) \<and>
     ar_model_calls a = er_model_calls r \<and> ar_tool_calls a = er_tool_calls r)"

text \<open>
  The shape of a run, given the number of its start events and its terminal events: running until it is
  reported, then reported, and closed when its submission is over.
\<close>

definition run_started :: "string \<Rightarrow> query_engine \<Rightarrow> bool \<Rightarrow> bool" where
  "run_started i e b = (length (engine_events {''run.started''} i e) = (if b then 1 else 0))"

definition run_ended :: "string \<Rightarrow> query_engine \<Rightarrow> string option \<Rightarrow> bool" where
  "run_ended i e s = (map ee_type (engine_events terminal_types i e) = (case s of None \<Rightarrow> [] | Some x \<Rightarrow> [terminal_type x]))"

definition running :: "agent_run \<Rightarrow> bool" where
  "running a = (ar_status a = ''running'' \<and> \<not> ar_terminal_emitted a \<and> ar_stop_reason a = None \<and>
     ar_model_calls a = 0 \<and> ar_tool_calls a = 0)"

definition run_closed :: "string \<Rightarrow> query_engine \<Rightarrow> agent_run \<Rightarrow> bool" where
  "run_closed i e a = (ar_terminal_emitted a \<and> run_started i e True \<and> run_ended i e (Some (ar_status a)) \<and>
     (\<exists>r. reported r a \<and> report_ok (ar_limits a) r))"

fun live :: "submission \<Rightarrow> string \<Rightarrow> query_engine \<Rightarrow> agent_run \<Rightarrow> bool" where
  "live NoSubmission i e a = False"
| "live (Begun q) i e a = (running a \<and> ar_limits a = rq_limits q \<and> run_started i e False \<and> run_ended i e None)"
| "live (Executing q) i e a = (running a \<and> ar_limits a = rq_limits q \<and> run_started i e True \<and> run_ended i e None)"
| "live (Stranded q) i e a = (running a \<and> ar_limits a = rq_limits q \<and> run_started i e True \<and> run_ended i e None)"
| "live (Reported q r err) i e a = (reported r a \<and> report_ok (ar_limits a) r \<and> ar_limits a = rq_limits q \<and>
     \<not> ar_terminal_emitted a \<and> run_started i e True \<and> run_ended i e None)"
| "live (Marked q r err) i e a = (reported r a \<and> report_ok (ar_limits a) r \<and> ar_limits a = rq_limits q \<and>
     ar_terminal_emitted a \<and> run_started i e True \<and> run_ended i e None)"
| "live (Ended q r) i e a = (reported r a \<and> report_ok (ar_limits a) r \<and> ar_limits a = rq_limits q \<and>
     ar_terminal_emitted a \<and> run_started i e True \<and> run_ended i e (Some (ar_status a)))"

definition run_ok :: "submission \<Rightarrow> query_engine \<Rightarrow> string \<Rightarrow> agent_run \<Rightarrow> bool" where
  "run_ok sub e i a = (ar_run_id a = i \<and> limits_ok (ar_limits a) \<and>
     map event_number (events_of i e) = numbers_upto (ar_last_event_sequence a) \<and>
     (if submission_run sub = Some i then live sub i e a else run_closed i e a))"

definition query_inv :: "query_world \<Rightarrow> bool" where
  "query_inv w = (let e = qw_engine w; sub = qw_submission w in
     (\<forall>i a. run_of i e = Some a \<longrightarrow> run_ok sub e i a) \<and>
     (\<forall>v \<in> set (qe_log e). run_of (ee_run v) e \<noteq> None) \<and>
     qe_active_run_id e = submission_run sub \<and>
     map fst (qe_tokens e) = (case submission_run sub of None \<Rightarrow> [] | Some i \<Rightarrow> [i]) \<and>
     (\<forall>i. submission_run sub = Some i \<longrightarrow> run_of i e \<noteq> None) \<and>
     (\<forall>(i, reason) \<in> set (qw_accepted w). run_of i e \<noteq> None))"

lemma query_inv_idle:
  assumes "new_query_engine c = Inr e"
  shows "query_inv (idle_world e)"
  using assms by (auto simp: new_query_engine_def query_inv_def idle_world_def run_of_def split: if_splits)

section \<open>What emitting does\<close>

lemma events_of_append:
  "qe_log e' = qe_log e @ [v] \<Longrightarrow> events_of i e' = (if ee_run v = i then events_of i e @ [v] else events_of i e)"
  by (simp add: events_of_def)

lemma events_same: "qe_log e' = qe_log e \<Longrightarrow> events_of i e' = events_of i e"
  by (simp add: events_of_def)

lemma started_same: "qe_log e' = qe_log e \<Longrightarrow> run_started i e' b = run_started i e b"
  by (simp add: run_started_def engine_events_def events_of_def)

lemma ended_same: "qe_log e' = qe_log e \<Longrightarrow> run_ended i e' b = run_ended i e b"
  by (simp add: run_ended_def engine_events_def events_of_def)

lemma engine_events_append:
  assumes "qe_log e' = qe_log e @ [v]"
  shows "engine_events types i e' = engine_events types i e @
    (if ee_run v = i \<and> ee_emitter v = ByEngine \<and> ee_type v \<in> types then [v] else [])"
  by (simp add: engine_events_def events_of_append [OF assms])

lemma started_append:
  assumes "qe_log e' = qe_log e @ [v]" "\<not> (ee_run v = i \<and> ee_emitter v = ByEngine \<and> ee_type v = ''run.started'')"
  shows "run_started i e' b = run_started i e b"
  using assms(2) by (auto simp: run_started_def engine_events_append [OF assms(1)])

lemma ended_append:
  assumes "qe_log e' = qe_log e @ [v]" "\<not> (ee_run v = i \<and> ee_emitter v = ByEngine \<and> ee_type v \<in> terminal_types)"
  shows "run_ended i e' b = run_ended i e b"
  using assms(2) by (auto simp: run_ended_def engine_events_append [OF assms(1)])

text \<open>An event that is neither a start nor an end of its run keeps every run well-formed.\<close>

lemma emit_run_ok:
  assumes "emit_event who i kind payload e = Inr (n, e')" "run_of j e' = Some b"
    and ok: "\<And>a. run_of j e = Some a \<Longrightarrow> run_ok sub e j a"
    and plain: "who = ByExecutor \<or> kind \<noteq> ''run.started'' \<and> kind \<notin> terminal_types"
  shows "run_ok sub e' j b"
proof -
  from emit_eventD [OF assms(1)] obtain r where r: "run_of i e = Some r" "n = Suc (ar_last_event_sequence r)"
    and runs: "run_of j e' = (if j = i then Some (r\<lparr>ar_last_event_sequence := n\<rparr>) else run_of j e)"
    and log: "qe_log e' = qe_log e @ [event_at who i kind payload n]" by blast
  have keep: "run_started j e' x = run_started j e x" "run_ended j e' y = run_ended j e y" for x y
    using plain by (auto intro!: started_append [OF log] ended_append [OF log])
  obtain a where a: "run_of j e = Some a" "b = (if j = i then a\<lparr>ar_last_event_sequence := n\<rparr> else a)"
    using runs r assms(2) by (cases "j = i"; cases "run_of j e") auto
  have ev: "map event_number (events_of j e') = numbers_upto (ar_last_event_sequence b)"
    using ok [OF a(1)] a r by (auto simp: run_ok_def events_of_append [OF log] numbers_upto_Suc)
  have "live sub j e' b = live sub j e a"
    using a(2) by (cases sub) (auto simp: keep running_def reported_def)
  moreover have "run_closed j e' b = run_closed j e a"
    using a(2) by (auto simp: keep reported_def run_closed_def)
  ultimately show ?thesis using ok [OF a(1)] ev a(2) by (auto simp: run_ok_def)
qed

section \<open>Preservation\<close>

text \<open>The parts of the invariant, for introduction and use.\<close>

lemma query_invI:
  assumes "\<And>i a. run_of i e = Some a \<Longrightarrow> run_ok sub e i a" "\<And>v. v \<in> set (qe_log e) \<Longrightarrow> run_of (ee_run v) e \<noteq> None"
    "qe_active_run_id e = submission_run sub"
    "map fst (qe_tokens e) = (case submission_run sub of None \<Rightarrow> [] | Some i \<Rightarrow> [i])"
    "\<And>i. submission_run sub = Some i \<Longrightarrow> run_of i e \<noteq> None"
    "\<And>i reason. (i, reason) \<in> set acc \<Longrightarrow> run_of i e \<noteq> None"
  shows "query_inv \<lparr>qw_engine = e, qw_submission = sub, qw_accepted = acc\<rparr>"
  using assms by (auto simp: query_inv_def Let_def)

lemma query_invD:
  assumes "query_inv w" "qw_engine w = e" "qw_submission w = sub"
  shows "\<And>i a. run_of i e = Some a \<Longrightarrow> run_ok sub e i a" "\<And>v. v \<in> set (qe_log e) \<Longrightarrow> run_of (ee_run v) e \<noteq> None"
    "qe_active_run_id e = submission_run sub"
    "map fst (qe_tokens e) = (case submission_run sub of None \<Rightarrow> [] | Some i \<Rightarrow> [i])"
    "\<And>i. submission_run sub = Some i \<Longrightarrow> run_of i e \<noteq> None"
    "\<And>i reason. (i, reason) \<in> set (qw_accepted w) \<Longrightarrow> run_of i e \<noteq> None"
  using assms by (auto simp: query_inv_def Let_def)

lemma query_world_eta: "w\<lparr>qw_engine := e, qw_submission := s\<rparr> = \<lparr>qw_engine = e, qw_submission = s, qw_accepted = qw_accepted w\<rparr>"
  "w\<lparr>qw_engine := e\<rparr> = \<lparr>qw_engine = e, qw_submission = qw_submission w, qw_accepted = qw_accepted w\<rparr>"
  "w\<lparr>qw_submission := s\<rparr> = \<lparr>qw_engine = qw_engine w, qw_submission = s, qw_accepted = qw_accepted w\<rparr>"
  "w\<lparr>qw_engine := e, qw_accepted := acc\<rparr> = \<lparr>qw_engine = e, qw_submission = qw_submission w, qw_accepted = acc\<rparr>"
  by simp_all

text \<open>An emission, after which the submission stands at \<open>sub'\<close>.\<close>

lemma emit_inv:
  assumes inv: "query_inv w" and em: "emit_event who i kind payload (qw_engine w) = Inr (n, e)"
    and same: "submission_run sub' = submission_run (qw_submission w)"
    and ok: "\<And>j b. run_of j e = Some b \<Longrightarrow> run_ok sub' e j b"
    and acc: "set acc \<subseteq> set (qw_accepted w)"
  shows "query_inv \<lparr>qw_engine = e, qw_submission = sub', qw_accepted = acc\<rparr>"
proof -
  note q = query_invD [OF inv refl refl]
  from emit_eventD [OF em] obtain r where r: "run_of i (qw_engine w) = Some r"
    and runs: "\<And>j. run_of j e = (if j = i then Some (r\<lparr>ar_last_event_sequence := n\<rparr>) else run_of j (qw_engine w))"
    and log: "qe_log e = qe_log (qw_engine w) @ [event_at who i kind payload n]"
    and rest: "qe_tokens e = qe_tokens (qw_engine w)" "qe_active_run_id e = qe_active_run_id (qw_engine w)" by blast
  have dom: "run_of j e = None \<longleftrightarrow> run_of j (qw_engine w) = None" for j using runs r by simp
  show ?thesis
  proof (rule query_invI)
    show "run_of (ee_run v) e \<noteq> None" if "v \<in> set (qe_log e)" for v
      using that q(2) log r unfolding dom by auto
    show "run_of j e \<noteq> None" if "(j, reason) \<in> set acc" for j reason
      using that q(6) [of j reason] acc dom by auto
  qed (use q(3,4,5) ok same dom rest in auto)
qed

lemma emit_plain_inv:
  assumes "query_inv w" "emit_event who i kind payload (qw_engine w) = Inr (n, e)"
    "who = ByExecutor \<or> kind \<noteq> ''run.started'' \<and> kind \<notin> terminal_types" "set acc \<subseteq> set (qw_accepted w)"
  shows "query_inv \<lparr>qw_engine = e, qw_submission = qw_submission w, qw_accepted = acc\<rparr>"
  using assms(1,2) refl
proof (rule emit_inv)
  show "run_ok (qw_submission w) e j b" if "run_of j e = Some b" for j b
    using emit_run_ok [OF assms(2) that query_invD(1) [OF assms(1) refl refl] assms(3)] .
qed (rule assms(4))

text \<open>The start event and the terminal event of the current run.\<close>

lemma emit_live_inv:
  assumes inv: "query_inv w" and em: "emit_event ByEngine i kind payload (qw_engine w) = Inr (n, e)"
    and cur: "submission_run (qw_submission w) = Some i" "submission_run sub' = Some i"
    and shape: "\<And>a. run_of i (qw_engine w) = Some a \<Longrightarrow> run_ok (qw_submission w) (qw_engine w) i a \<Longrightarrow>
      live sub' i e (a\<lparr>ar_last_event_sequence := n\<rparr>)"
  shows "query_inv \<lparr>qw_engine = e, qw_submission = sub', qw_accepted = qw_accepted w\<rparr>"
  using inv em
proof (rule emit_inv)
  show "submission_run sub' = submission_run (qw_submission w)" using cur by simp
  from emit_eventD [OF em] obtain r where r: "run_of i (qw_engine w) = Some r" "n = Suc (ar_last_event_sequence r)"
    and runs: "\<And>j. run_of j e = (if j = i then Some (r\<lparr>ar_last_event_sequence := n\<rparr>) else run_of j (qw_engine w))"
    and log: "qe_log e = qe_log (qw_engine w) @ [event_at ByEngine i kind payload n]" by blast
  fix j b
  assume b: "run_of j e = Some b"
  show "run_ok sub' e j b"
  proof (cases "j = i")
    case True
    have ok: "run_ok (qw_submission w) (qw_engine w) i r" by (rule query_invD(1) [OF inv refl refl r(1)])
    have "live sub' i e b" using shape [OF r(1) ok] True b runs by simp
    with ok r(2) True b runs cur show ?thesis
      by (auto simp: run_ok_def events_of_append [OF log] numbers_upto_Suc)
  next
    case False
    with runs b have a: "run_of j (qw_engine w) = Some b" by simp
    have ok: "run_ok (qw_submission w) (qw_engine w) j b" by (rule query_invD(1) [OF inv refl refl a])
    have "run_started j e x = run_started j (qw_engine w) x" "run_ended j e y = run_ended j (qw_engine w) y" for x y
      using False by (auto intro!: started_append [OF log] ended_append [OF log])
    with ok False cur show ?thesis by (auto simp: run_ok_def run_closed_def events_of_append [OF log])
  qed
qed simp

text \<open>An update of the record of the current run.\<close>

lemma update_live_inv:
  assumes inv: "query_inv w" and cur: "submission_run (qw_submission w) = Some i" "submission_run sub' = Some i"
    and shape: "\<And>a. run_of i (qw_engine w) = Some a \<Longrightarrow> run_ok (qw_submission w) (qw_engine w) i a \<Longrightarrow>
      live sub' i (update_run i f (qw_engine w)) (f a) \<and> ar_run_id (f a) = i \<and> ar_limits (f a) = ar_limits a \<and>
      ar_last_event_sequence (f a) = ar_last_event_sequence a"
  shows "query_inv \<lparr>qw_engine = update_run i f (qw_engine w), qw_submission = sub', qw_accepted = qw_accepted w\<rparr>"
proof -
  let ?e = "update_run i f (qw_engine w)"
  note q = query_invD [OF inv refl refl]
  from q(5) [OF cur(1)] obtain r where r: "run_of i (qw_engine w) = Some r" by auto
  have runs: "run_of j ?e = (if j = i then Some (f r) else run_of j (qw_engine w))" for j
    using r by (simp add: update_run_def run_of_def)
  have same: "qe_log ?e = qe_log (qw_engine w)" "qe_tokens ?e = qe_tokens (qw_engine w)"
    "qe_active_run_id ?e = qe_active_run_id (qw_engine w)"
    by (simp_all add: update_run_def split: option.split)
  have dom: "run_of j ?e = None \<longleftrightarrow> run_of j (qw_engine w) = None" for j using runs r by simp
  have ok: "run_ok sub' ?e j b" if b: "run_of j ?e = Some b" for j b
  proof (cases "j = i")
    case True
    from shape [OF r q(1) [OF r]] True b runs q(1) [OF r] cur show ?thesis
      by (auto simp: run_ok_def events_same [OF same(1)])
  next
    case False
    with runs b have "run_ok (qw_submission w) (qw_engine w) j b" by (intro q(1)) simp
    with False cur show ?thesis
      by (auto simp: run_ok_def run_closed_def events_same [OF same(1)] started_same [OF same(1)] ended_same [OF same(1)])
  qed
  show ?thesis
    by (rule query_invI) (use ok q(2-6) cur same dom in auto)
qed

lemma begin_submitD:
  assumes "begin_submit input limits hex e = Inr (q, e')"
  shows "strip input \<noteq> [] \<and> qe_active_run_id e = None \<and> rq_run_id q = run_id_of hex \<and> rq_text q = strip input \<and>
    rq_limits q = (case limits of None \<Rightarrow> default_limits | Some l \<Rightarrow> l) \<and> qe_log e' = qe_log e \<and>
    qe_active_run_id e' = Some (run_id_of hex) \<and> qe_tokens e' = dict_set (run_id_of hex) new_token (qe_tokens e) \<and>
    (\<forall>j. run_of j e' = (if j = run_id_of hex then Some \<lparr>ar_run_id = j, ar_conversation_id = qe_conversation_id e,
       ar_status = ''running'', ar_limits = rq_limits q, ar_stop_reason = None, ar_model_calls = 0, ar_tool_calls = 0,
       ar_last_event_sequence = 0, ar_terminal_emitted = False\<rparr> else run_of j e))"
  using assms by (auto simp: begin_submit_def Let_def run_of_def split: if_splits option.splits)

lemma begin_inv:
  assumes inv: "query_inv w" and b: "begin_submit input limits hex (qw_engine w) = Inr (q, e)"
    and lim: "\<And>l. limits = Some l \<Longrightarrow> limits_ok l" and new: "run_of (run_id_of hex) (qw_engine w) = None"
  shows "query_inv \<lparr>qw_engine = e, qw_submission = Begun q, qw_accepted = qw_accepted w\<rparr>"
proof -
  let ?i = "run_id_of hex"
  note q = query_invD [OF inv refl refl]
  note d = begin_submitD [OF b]
  have idle: "submission_run (qw_submission w) = None" using d q(3) by simp
  have log: "qe_log e = qe_log (qw_engine w)" using d by blast
  have none: "events_of ?i e = []"
    using q(2) new by (fastforce simp: events_of_def log filter_empty_conv)
  have lok: "limits_ok (rq_limits q)" using d lim by (auto split: option.splits)
  have run: "run_of j e = (if j = ?i then Some \<lparr>ar_run_id = j, ar_conversation_id = qe_conversation_id (qw_engine w),
       ar_status = ''running'', ar_limits = rq_limits q, ar_stop_reason = None, ar_model_calls = 0, ar_tool_calls = 0,
       ar_last_event_sequence = 0, ar_terminal_emitted = False\<rparr> else run_of j (qw_engine w))" for j
    using d by blast
  have id: "rq_run_id q = ?i" using d by blast
  show ?thesis
  proof (rule query_invI)
    fix j a
    assume a: "run_of j e = Some a"
    show "run_ok (Begun q) e j a"
    proof (cases "j = ?i")
      case True
      with a run lok id none show ?thesis
        by (auto simp: run_ok_def running_def run_started_def run_ended_def engine_events_def numbers_upto_def)
    next
      case False
      with a run have "run_ok (qw_submission w) (qw_engine w) j a" by (intro q(1)) simp
      with False id idle show ?thesis
        by (auto simp: run_ok_def run_closed_def events_same [OF log] started_same [OF log] ended_same [OF log])
    qed
  next
    show "map fst (qe_tokens e) = (case submission_run (Begun q) of None \<Rightarrow> [] | Some i \<Rightarrow> [i])"
      using d q(4) idle by simp
  next
    show "run_of (ee_run v) e \<noteq> None" if "v \<in> set (qe_log e)" for v
      using q(2) [of v] that by (simp add: run log)
  next
    show "run_of i e \<noteq> None" if "(i, reason) \<in> set (qw_accepted w)" for i reason
      using q(6) [OF that] by (simp add: run)
  qed (use d in \<open>simp_all add: run\<close>)
qed

lemma accept_stopD:
  assumes "accept_stop i reason e = Inr (ok, e')"
  shows "run_of i e \<noteq> None \<and> qe_log e' = qe_log e \<and> (\<forall>j. run_of j e' = run_of j e) \<and>
    qe_active_run_id e' = qe_active_run_id e \<and> qe_conversation_id e' = qe_conversation_id e \<and>
    map fst (qe_tokens e') = map fst (qe_tokens e) \<and>
    (\<forall>j. j \<noteq> i \<longrightarrow> map_of (qe_tokens e') j = map_of (qe_tokens e) j) \<and>
    (ok \<longleftrightarrow> (\<exists>tok. map_of (qe_tokens e) i = Some tok \<and> \<not> to_set tok)) \<and>
    (ok \<longrightarrow> map_of (qe_tokens e') i = Some \<lparr>to_set = True, to_reason = Some (strip reason)\<rparr> \<and> strip reason \<noteq> [])"
proof -
  have keys: "map fst (dict_set i x t) = map fst t" if "map_of t i = Some y" for x y :: stop_token and t
  proof -
    have "i \<in> fst ` set t" using that by (metis domI dom_map_of_conv_image_fst)
    then show ?thesis by (simp add: keys_dict_set)
  qed
  show ?thesis
    using assms
    by (auto simp: accept_stop_def run_of_def token_request_def keys split: option.splits sum.splits if_splits)
qed

lemma quiet_inv:
  assumes inv: "query_inv w" and log: "qe_log e = qe_log (qw_engine w)" and runs: "\<And>j. run_of j e = run_of j (qw_engine w)"
    and act: "qe_active_run_id e = qe_active_run_id (qw_engine w)"
    and tok: "map fst (qe_tokens e) = map fst (qe_tokens (qw_engine w))"
    and acc: "\<And>i reason. (i, reason) \<in> set acc \<Longrightarrow> run_of i e \<noteq> None"
  shows "query_inv \<lparr>qw_engine = e, qw_submission = qw_submission w, qw_accepted = acc\<rparr>"
proof -
  note q = query_invD [OF inv refl refl]
  have ok: "run_ok (qw_submission w) e i a" if "run_of i e = Some a" for i a
    using q(1) [of i a] that runs
    by (cases "qw_submission w")
      (auto simp: run_ok_def run_closed_def events_same [OF log] started_same [OF log] ended_same [OF log])
  show ?thesis
    by (rule query_invI) (use ok q(2-5) acc in \<open>auto simp: runs log act tok\<close>)
qed

lemma close_inv:
  assumes inv: "query_inv w" and sub: "qw_submission w = Ended q r"
    and c: "close_submit (rq_run_id q) r (qw_engine w) = Inr (res, e)"
  shows "query_inv \<lparr>qw_engine = e, qw_submission = NoSubmission, qw_accepted = qw_accepted w\<rparr>"
proof -
  note q = query_invD [OF inv refl sub]
  have e: "e = (qw_engine w)\<lparr>qe_active_run_id := None, qe_tokens := filter (\<lambda>kv. fst kv \<noteq> rq_run_id q) (qe_tokens (qw_engine w))\<rparr>"
    using c by (auto simp: close_submit_def split: option.splits)
  have runs: "run_of j e = run_of j (qw_engine w)" for j by (simp add: e run_of_def)
  have log: "qe_log e = qe_log (qw_engine w)" by (simp add: e)
  have ok: "run_ok NoSubmission e i a" if "run_of i e = Some a" for i a
    using q(1) [of i a] that runs
    by (auto simp: run_ok_def run_closed_def events_same [OF log] started_same [OF log] ended_same [OF log] split: if_splits)
  have "qe_tokens e = []" using q(4) by (auto simp: e filter_empty_conv)
  with q ok show ?thesis by (intro query_invI) (auto simp: runs log, simp_all add: e)
qed

lemma query_step_inv:
  assumes inv: "query_inv w" and step: "query_step w w'"
  shows "query_inv w'"
  using step
proof cases
  case (enter input limits hex q e)
  have "run_of (run_id_of hex) (qw_engine w) = None"
    using enter(4) by (simp add: run_of_def map_of_eq_None_iff)
  with begin_inv [OF inv enter(2,3)] show ?thesis by (simp add: enter(1) query_world_eta)
next
  case (start q n e)
  from start(3) have em: "emit_event ByEngine (rq_run_id q) ''run.started'' (started_payload q) (qw_engine w) = Inr (n, e)"
    by (simp add: announce_start_def)
  from emit_eventD [OF em] have log: "qe_log e = qe_log (qw_engine w) @ [event_at ByEngine (rq_run_id q) ''run.started'' (started_payload q) n]"
    by blast
  have "query_inv \<lparr>qw_engine = e, qw_submission = Executing q, qw_accepted = qw_accepted w\<rparr>"
    using inv em
  proof (rule emit_live_inv)
    show "live (Executing q) (rq_run_id q) e (a\<lparr>ar_last_event_sequence := n\<rparr>)"
      if "run_of (rq_run_id q) (qw_engine w) = Some a" "run_ok (qw_submission w) (qw_engine w) (rq_run_id q) a" for a
      using that(2) by (auto simp: start(2) run_ok_def running_def run_started_def run_ended_def engine_events_append [OF log] terminal_types_def)
  qed (simp_all add: start(2))
  then show ?thesis by (simp add: start(1) query_world_eta)
next
  case (emit q kind payload n e)
  have "query_inv \<lparr>qw_engine = e, qw_submission = qw_submission w, qw_accepted = qw_accepted w\<rparr>"
    by (rule emit_plain_inv [OF inv emit(3)]) simp_all
  then show ?thesis by (simp add: emit(1) query_world_eta)
next
  case (accept i reason ok e)
  note d = accept_stopD [OF accept(2)]
  have "query_inv \<lparr>qw_engine = e, qw_submission = qw_submission w,
      qw_accepted = (if ok then qw_accepted w @ [(i, reason)] else qw_accepted w)\<rparr>"
  proof (rule quiet_inv [OF inv])
    show "run_of j e \<noteq> None"
      if "(j, x) \<in> set (if ok then qw_accepted w @ [(i, reason)] else qw_accepted w)" for j x
      using that d query_invD(6) [OF inv refl refl] by (auto split: if_splits)
  qed (use d in blast)+
  then show ?thesis by (simp add: accept(1) query_world_eta)
next
  case (announce xs i reason ys n e)
  have "query_inv \<lparr>qw_engine = e, qw_submission = qw_submission w, qw_accepted = xs @ ys\<rparr>"
    using inv announce(3) [unfolded announce_stop_def]
    by (rule emit_plain_inv) (auto simp: announce(2) terminal_types_def)
  then show ?thesis by (simp add: announce(1) query_world_eta)
next
  case (report q ending r err)
  let ?f = "\<lambda>a. a\<lparr>ar_status := er_status r, ar_stop_reason := Some (er_stop_reason r),
    ar_model_calls := er_model_calls r, ar_tool_calls := er_tool_calls r\<rparr>"
  have "query_inv \<lparr>qw_engine = update_run (rq_run_id q) ?f (qw_engine w), qw_submission = Reported q r err, qw_accepted = qw_accepted w\<rparr>"
    using inv
  proof (rule update_live_inv)
    fix a :: agent_run
    assume ok: "run_ok (qw_submission w) (qw_engine w) (rq_run_id q) a"
    have log: "qe_log (update_run (rq_run_id q) ?f (qw_engine w)) = qe_log (qw_engine w)"
      by (simp add: update_run_def split: option.split)
    have "report_ok (ar_limits a) r"
      using settle_report_ok [OF report(3) _ report(4)] ok by (auto simp: report(2) run_ok_def)
    with ok show "live (Reported q r err) (rq_run_id q) (update_run (rq_run_id q) ?f (qw_engine w)) (?f a) \<and>
        ar_run_id (?f a) = rq_run_id q \<and> ar_limits (?f a) = ar_limits a \<and>
        ar_last_event_sequence (?f a) = ar_last_event_sequence a"
      by (auto simp: report(2) run_ok_def running_def reported_def started_same [OF log] ended_same [OF log])
  qed (simp_all add: report(2))
  then show ?thesis by (simp add: report(1) query_world_eta record_report_def)
next
  case (strand q)
  have "run_ok (Stranded q) (qw_engine w) i a" if "run_of i (qw_engine w) = Some a" for i a
    using query_invD(1) [OF inv refl refl that] by (auto simp: strand(2) run_ok_def)
  with query_invD [OF inv refl refl] show ?thesis
    unfolding strand(1) query_world_eta by (intro query_invI) (auto simp: strand(2))
next
  case (mark q r err e)
  from mark(3) have e: "e = update_run (rq_run_id q) (\<lambda>r. r\<lparr>ar_terminal_emitted := True\<rparr>) (qw_engine w)"
    by (auto simp: mark_terminal_def split: option.splits if_splits)
  have "query_inv \<lparr>qw_engine = e, qw_submission = Marked q r err, qw_accepted = qw_accepted w\<rparr>"
    unfolding e using inv
    by (rule update_live_inv)
      (auto simp: mark(2) run_ok_def reported_def run_started_def run_ended_def engine_events_def
          events_of_def update_run_def split: option.splits)
  then show ?thesis by (simp add: mark(1) query_world_eta)
next
  case (finish q r err n e)
  from finish(3) have em: "emit_event ByEngine (rq_run_id q) (terminal_type (er_status r)) (terminal_payload r err) (qw_engine w) = Inr (n, e)"
    by (simp add: announce_end_def)
  from emit_eventD [OF em] have log: "qe_log e = qe_log (qw_engine w) @
      [event_at ByEngine (rq_run_id q) (terminal_type (er_status r)) (terminal_payload r err) n]"
    by blast
  have "query_inv \<lparr>qw_engine = e, qw_submission = Ended q r, qw_accepted = qw_accepted w\<rparr>"
    using inv em
  proof (rule emit_live_inv)
    show "live (Ended q r) (rq_run_id q) e (a\<lparr>ar_last_event_sequence := n\<rparr>)"
      if "run_of (rq_run_id q) (qw_engine w) = Some a" "run_ok (qw_submission w) (qw_engine w) (rq_run_id q) a" for a
      using that(2) by (auto simp: finish(2) run_ok_def reported_def run_started_def run_ended_def
          engine_events_append [OF log] terminal_types_def terminal_type_def)
  qed (simp_all add: finish(2))
  then show ?thesis by (simp add: finish(1) query_world_eta)
next
  case (close q r res e)
  from close_inv [OF inv close(2,3)] show ?thesis by (simp add: close(1) query_world_eta)
qed

interpretation query_runs: preserving query_inv query_step
  by unfold_locales (rule query_step_inv)

section \<open>A submission is an execution of the steps\<close>

definition engine_world :: "query_engine \<Rightarrow> submission \<Rightarrow> query_world" where
  "engine_world e sub = \<lparr>qw_engine = e, qw_submission = sub, qw_accepted = []\<rparr>"

lemma engine_world_simps [simp]: "qw_engine (engine_world e sub) = e" "qw_submission (engine_world e sub) = sub"
  "qw_accepted (engine_world e sub) = []" "(engine_world e sub)\<lparr>qw_engine := e'\<rparr> = engine_world e' sub"
  "(engine_world e sub)\<lparr>qw_engine := e', qw_submission := sub'\<rparr> = engine_world e' sub'"
  "(engine_world e sub)\<lparr>qw_submission := sub'\<rparr> = engine_world e sub'"
  "idle_world e = engine_world e NoSubmission"
  by (simp_all add: engine_world_def idle_world_def)

lemma perform_steps:
  assumes inv: "query_inv (engine_world e (Executing q))"
  shows "query_step\<^sup>*\<^sup>* (engine_world e (Executing q)) (engine_world (perform (rq_run_id q) act e) (Executing q))"
proof (cases act)
  case (Emits kind payload)
  show ?thesis
  proof (cases "emit_event ByExecutor (rq_run_id q) kind payload e")
    case (Inr x)
    then show ?thesis
      using query_step.emit [of "engine_world e (Executing q)" q kind payload "fst x" "snd x"] Emits
      by (auto simp: perform_def kept_def)
  qed (simp add: Emits perform_def kept_def)
next
  case (StopAsked i reason)
  show ?thesis
  proof (cases "accept_stop i reason e")
    case (Inr x)
    then obtain ok e1 where ok: "accept_stop i reason e = Inr (ok, e1)" by (cases x) auto
    let ?acc = "if ok then [(i, reason)] else []"
    have one: "query_step (engine_world e (Executing q)) (\<lparr>qw_engine = e1, qw_submission = Executing q, qw_accepted = ?acc\<rparr>)"
      using query_step.accept [of i reason "engine_world e (Executing q)" ok e1] ok
      by (cases ok) (simp_all add: engine_world_def)
    show ?thesis
    proof (cases ok)
      case False
      with one ok show ?thesis by (simp add: StopAsked perform_def request_stop_def kept_def engine_world_def)
    next
      case True
      from accept_stopD [OF ok] obtain r where r: "run_of i e1 = Some r" by force
      then obtain n e2 where em: "announce_stop i reason e1 = Inr (n, e2)"
        using emit_event_returns [of "''run.stop_requested''" i e1 r] unfolding announce_stop_def by blast
      have "query_step \<lparr>qw_engine = e1, qw_submission = Executing q, qw_accepted = ?acc\<rparr> (engine_world e2 (Executing q))"
        using em True query_step.announce [of "\<lparr>qw_engine = e1, qw_submission = Executing q, qw_accepted = ?acc\<rparr>" "[]" i reason "[]" n e2]
        by (simp add: engine_world_def)
      with one have "query_step\<^sup>*\<^sup>* (engine_world e (Executing q)) (engine_world e2 (Executing q))" by simp
      with ok em True show ?thesis by (simp add: StopAsked perform_def request_stop_def kept_def)
    qed
  qed (simp add: StopAsked perform_def request_stop_def kept_def)
next
  case (Submitted input limits hex)
  have "qe_active_run_id e = Some (rq_run_id q)" using query_invD(3) [OF inv refl refl] by simp
  then have "perform (rq_run_id q) act e = e" by (simp add: Submitted perform_def kept_def begin_submit_def)
  then show ?thesis by simp
qed

lemma performs_steps:
  "query_inv (engine_world e (Executing q)) \<Longrightarrow>
    query_step\<^sup>*\<^sup>* (engine_world e (Executing q)) (engine_world (fold (perform (rq_run_id q)) acts e) (Executing q))"
proof (induction acts arbitrary: e)
  case (Cons act acts)
  note one = perform_steps [OF Cons.prems, of act]
  from Cons.IH [OF query_runs.inv_steps [OF one Cons.prems]] one show ?case by simp
qed simp

definition result_of :: "string \<Rightarrow> execution_report \<Rightarrow> nat \<Rightarrow> run_result" where
  "result_of i r n = \<lparr>rs_run_id = i, rs_status = er_status r, rs_output = er_output r, rs_stop_reason = er_stop_reason r,
     rs_model_calls = er_model_calls r, rs_tool_calls = er_tool_calls r, rs_last_event_sequence = n\<rparr>"

lemma update_run_of: "run_of i e = Some a \<Longrightarrow> run_of i (update_run i f e) = Some (f a)"
  by (simp add: update_run_def run_of_def)

lemma finish_steps:
  assumes inv: "query_inv (engine_world e (Executing q))" and st: "settle (rq_limits q) ending = Some (r, err)"
    and chk: "\<And>r'. ending = Returns r' \<Longrightarrow> check_report r' = Inr r'"
  shows "\<exists>n e'. finish_submit q r err e = (Inr (result_of (rq_run_id q) r n), e') \<and>
    query_step\<^sup>*\<^sup>* (engine_world e (Executing q)) (engine_world e' NoSubmission) \<and>
    qe_log e' = qe_log e @ [event_at ByEngine (rq_run_id q) (terminal_type (er_status r)) (terminal_payload r err) n]"
proof -
  let ?i = "rq_run_id q"
  define e1 where "e1 = record_report ?i r e"
  have s1: "query_step (engine_world e (Executing q)) (engine_world e1 (Reported q r err))"
    using query_step.report [of "engine_world e (Executing q)" q ending r err] st chk by (simp add: e1_def)
  have i1: "query_inv (engine_world e1 (Reported q r err))" by (rule query_step_inv [OF inv s1])
  from query_invD(5) [OF i1 refl refl] obtain a where a: "run_of ?i e1 = Some a" by auto
  from query_invD(1) [OF i1 refl refl, of ?i a] a have ok: "reported r a" "\<not> ar_terminal_emitted a" "report_ok (ar_limits a) r" "ar_run_id a = ?i"
    by (auto simp: run_ok_def)
  obtain e2 where m: "mark_terminal ?i e1 = Inr e2" "e2 = update_run ?i (\<lambda>r. r\<lparr>ar_terminal_emitted := True\<rparr>) e1"
    using a ok by (simp add: mark_terminal_def run_of_def)
  have s2: "query_step (engine_world e1 (Reported q r err)) (engine_world e2 (Marked q r err))"
    using query_step.mark [of "engine_world e1 (Reported q r err)" q r err e2] m by simp
  have a2: "run_of ?i e2 = Some (a\<lparr>ar_terminal_emitted := True\<rparr>)"
    unfolding m(2) by (rule update_run_of [OF a])
  have kind: "terminal_type (er_status r) \<noteq> []" by (simp add: terminal_type_def)
  obtain e3 where e3: "announce_end ?i r err e2 = Inr (Suc (ar_last_event_sequence a), e3)"
    using emit_event_returns [OF kind a2, of ByEngine "terminal_payload r err"] by (auto simp: announce_end_def)
  have s3: "query_step (engine_world e2 (Marked q r err)) (engine_world e3 (Ended q r))"
    using query_step.finish [of "engine_world e2 (Marked q r err)" q r err _ e3] e3 by simp
  from emit_eventD [OF e3 [unfolded announce_end_def]] a2
  have a3: "run_of ?i e3 = Some (a\<lparr>ar_terminal_emitted := True, ar_last_event_sequence := Suc (ar_last_event_sequence a)\<rparr>)"
    and log: "qe_log e3 = qe_log e2 @ [event_at ByEngine ?i (terminal_type (er_status r)) (terminal_payload r err) (Suc (ar_last_event_sequence a))]"
    by auto
  have "er_stop_reason r \<noteq> []" using ok(3) by (simp add: report_ok_def)
  then obtain e4 where e4: "close_submit ?i r e3 = Inr (result_of ?i r (Suc (ar_last_event_sequence a)), e4)" "qe_log e4 = qe_log e3"
    using a3 ok by (simp add: close_submit_def run_of_def result_of_def reported_def)
  have s4: "query_step (engine_world e3 (Ended q r)) (engine_world e4 NoSubmission)"
    using query_step.close [of "engine_world e3 (Ended q r)" q r _ e4] e4 by simp
  have "query_step\<^sup>*\<^sup>* (engine_world e (Executing q)) (engine_world e4 NoSubmission)"
    using s1 s2 s3 s4 by (meson converse_rtranclp_into_rtranclp rtranclp.rtrancl_refl)
  moreover have "finish_submit q r err e = (Inr (result_of ?i r (Suc (ar_last_event_sequence a))), e4)"
    by (simp add: finish_submit_def e1_def [symmetric] m(1) e3 e4(1))
  moreover have "qe_log e2 = qe_log e"
    by (simp add: m(2) e1_def record_report_def update_run_def split: option.split)
  ultimately show ?thesis using log e4(2) by auto
qed

section \<open>Properties\<close>

lemma reachable_query_inv:
  "new_query_engine c = Inr e0 \<Longrightarrow> query_step\<^sup>*\<^sup>* (idle_world e0) w \<Longrightarrow> query_inv w"
  using query_inv_idle query_runs.inv_steps by blast

lemma submit_steps:
  assumes inv: "query_inv (engine_world e NoSubmission)" and ne: "strip input \<noteq> []"
    and new: "run_id_of hex \<notin> fst ` set (qe_runs e)" and lim: "\<And>l. limits = Some l \<Longrightarrow> limits_ok l"
  shows "\<exists>q e1. rq_run_id q = run_id_of hex \<and> rq_limits q = (case limits of None \<Rightarrow> default_limits | Some l \<Rightarrow> l) \<and>
    query_step\<^sup>*\<^sup>* (engine_world e NoSubmission) (engine_world e1 (Executing q)) \<and>
    submit_text input limits hex acts ending e =
      (case settle (rq_limits q) ending of None \<Rightarrow> (Inl Interrupted, e1) | Some (r, err) \<Rightarrow> finish_submit q r err e1)"
proof -
  have "qe_active_run_id e = None" using query_invD(3) [OF inv refl refl] by simp
  with ne obtain q e1 where b: "begin_submit input limits hex e = Inr (q, e1)"
    by (simp add: begin_submit_def Let_def)
  note d = begin_submitD [OF b]
  have s1: "query_step (engine_world e NoSubmission) (engine_world e1 (Begun q))"
    using query_step.enter [of input limits hex "engine_world e NoSubmission" q e1] b lim new by simp
  have "\<exists>a. run_of (rq_run_id q) e1 = Some a" using d by auto
  then obtain n e2 where st: "announce_start q e1 = Inr (n, e2)"
    using emit_event_returns [of "''run.started''" "rq_run_id q" e1] unfolding announce_start_def by blast
  have s2: "query_step (engine_world e1 (Begun q)) (engine_world e2 (Executing q))"
    using query_step.start [of "engine_world e1 (Begun q)" q n e2] st by simp
  have i2: "query_inv (engine_world e2 (Executing q))" by (rule query_step_inv [OF query_step_inv [OF inv s1] s2])
  from s1 s2 performs_steps [OF i2, of acts]
  have "query_step\<^sup>*\<^sup>* (engine_world e NoSubmission) (engine_world (fold (perform (rq_run_id q)) acts e2) (Executing q))"
    by (meson converse_rtranclp_into_rtranclp)
  moreover have "submit_text input limits hex acts ending e =
      (case settle (rq_limits q) ending of None \<Rightarrow> (Inl Interrupted, fold (perform (rq_run_id q)) acts e2)
       | Some (r, err) \<Rightarrow> finish_submit q r err (fold (perform (rq_run_id q)) acts e2))"
    by (simp add: submit_text_def b st Let_def)
  ultimately show ?thesis using d by blast
qed

text \<open>
  C16. A submission always returns and leaves the engine free: whatever the executor emits, whoever asks to
  stop meanwhile, and however the executor ends short of an interruption, \<open>submit\<close> returns the terminal
  result of the settled report, whose counters are within the limits; the last event is the one terminal
  event of the run, its number is the one in the result, and no run is active. The submission is one of
  the interleavings of \<open>query_step\<close>.
\<close>

theorem submit_returns:
  assumes "new_query_engine c = Inr e0" "query_step\<^sup>*\<^sup>* (idle_world e0) (idle_world e)"
    and "strip input \<noteq> []" "run_id_of hex \<notin> fst ` set (qe_runs e)" "\<And>l. limits = Some l \<Longrightarrow> limits_ok l"
    and "ending \<noteq> IsInterrupted" "\<And>r'. ending = Returns r' \<Longrightarrow> check_report r' = Inr r'"
  shows "\<exists>l r err n e'. l = (case limits of None \<Rightarrow> default_limits | Some l \<Rightarrow> l) \<and> settle l ending = Some (r, err) \<and>
    report_ok l r \<and> submit_text input limits hex acts ending e = (Inr (result_of (run_id_of hex) r n), e') \<and>
    qe_active_run_id e' = None \<and> query_step\<^sup>*\<^sup>* (idle_world e) (idle_world e') \<and>
    last (qe_log e') = event_at ByEngine (run_id_of hex) (terminal_type (er_status r)) (terminal_payload r err) n"
proof -
  have inv: "query_inv (engine_world e NoSubmission)" using reachable_query_inv [OF assms(1,2)] by simp
  from submit_steps [OF inv assms(3-5), where limits = limits and acts = acts and ending = ending] obtain q e1 where q: "rq_run_id q = run_id_of hex"
      "rq_limits q = (case limits of None \<Rightarrow> default_limits | Some l \<Rightarrow> l)"
    and steps: "query_step\<^sup>*\<^sup>* (engine_world e NoSubmission) (engine_world e1 (Executing q))"
    and sub: "submit_text input limits hex acts ending e =
      (case settle (rq_limits q) ending of None \<Rightarrow> (Inl Interrupted, e1) | Some (r, err) \<Rightarrow> finish_submit q r err e1)"
    by blast
  from assms(6) obtain x where "settle (rq_limits q) ending = Some x" by (cases ending) (auto simp: settle_def)
  then obtain r err where st: "settle (rq_limits q) ending = Some (r, err)" by (cases x) auto
  have i1: "query_inv (engine_world e1 (Executing q))" by (rule query_runs.inv_steps [OF steps inv])
  from finish_steps [OF i1 st assms(7)] obtain n e' where fin: "finish_submit q r err e1 = (Inr (result_of (rq_run_id q) r n), e')"
      "query_step\<^sup>*\<^sup>* (engine_world e1 (Executing q)) (engine_world e' NoSubmission)"
      "qe_log e' = qe_log e1 @ [event_at ByEngine (rq_run_id q) (terminal_type (er_status r)) (terminal_payload r err) n]"
    by blast
  have all: "query_step\<^sup>*\<^sup>* (engine_world e NoSubmission) (engine_world e' NoSubmission)" using steps fin(2) by simp
  have "limits_ok (rq_limits q)" using q(2) assms(5) by (auto split: option.splits)
  then have "report_ok (rq_limits q) r" using settle_report_ok [OF st _ assms(7)] by blast
  moreover have "qe_active_run_id e' = None"
    using query_invD(3) [OF query_runs.inv_steps [OF all inv] refl refl] by simp
  ultimately show ?thesis using q st sub fin all by auto
qed

text \<open>
  C17. Over all interleavings of submitting, executing and stopping threads: the events of a run are
  numbered 1, 2, 3, ... without gaps, in the order of the log; only the active run is without its terminal
  event; every other run has one start event and one terminal event of the type of its status, and its
  counters are within its limits.
\<close>

theorem query_lifecycle:
  assumes "new_query_engine c = Inr e0" "query_step\<^sup>*\<^sup>* (idle_world e0) w" "run_of i (qw_engine w) = Some a"
  shows "map event_number (events_of i (qw_engine w)) = numbers_upto (ar_last_event_sequence a) \<and>
    (qe_active_run_id (qw_engine w) = Some i \<or> run_closed i (qw_engine w) a) \<and>
    (ar_status a = ''running'' \<longrightarrow> qe_active_run_id (qw_engine w) = Some i)"
proof -
  note q = query_invD [OF reachable_query_inv [OF assms(1,2)] refl refl]
  from q(1) [OF assms(3)] have "map event_number (events_of i (qw_engine w)) = numbers_upto (ar_last_event_sequence a)"
    by (simp add: run_ok_def)
  moreover from q(1) [OF assms(3)] q(3) have "qe_active_run_id (qw_engine w) = Some i \<or> run_closed i (qw_engine w) a"
    by (auto simp: run_ok_def split: if_splits)
  moreover from this have "ar_status a = ''running'' \<longrightarrow> qe_active_run_id (qw_engine w) = Some i"
    by (auto simp: run_closed_def reported_def report_ok_def run_terminal_statuses_def)
  ultimately show ?thesis by blast
qed

text \<open>
  C0. A stop request takes effect once: it is accepted only for the active run, it then sets the token to
  the stripped reason and adds one event, and every later request for that run is refused without effect;
  a request that is refused changes neither the token nor the events.
\<close>

theorem stop_request_once:
  assumes "new_query_engine c = Inr e0" "query_step\<^sup>*\<^sup>* (idle_world e0) w"
    and "request_stop i reason (qw_engine w) = Inr (ok, e)"
  shows "if ok then qe_active_run_id (qw_engine w) = Some i \<and>
      map_of (qe_tokens e) i = Some \<lparr>to_set = True, to_reason = Some (strip reason)\<rparr> \<and>
      (\<exists>n. qe_log e = qe_log (qw_engine w) @ [event_at ByEngine i ''run.stop_requested'' [(''reason'', PStr reason)] n]) \<and>
      (\<forall>reason'. strip reason' \<noteq> [] \<longrightarrow> (\<exists>e'. request_stop i reason' e = Inr (False, e') \<and>
        qe_log e' = qe_log e \<and> map_of (qe_tokens e') i = map_of (qe_tokens e) i))
    else qe_log e = qe_log (qw_engine w)"
proof -
  let ?e = "qw_engine w"
  note q = query_invD [OF reachable_query_inv [OF assms(1,2)] refl refl]
  from assms(3) obtain e1 where acc: "accept_stop i reason ?e = Inr (ok, e1)"
    by (auto simp: request_stop_def split: sum.splits if_splits)
  note d = accept_stopD [OF acc]
  show ?thesis
  proof (cases ok)
    case False
    with acc assms(3) have "e = e1" by (simp add: request_stop_def)
    with False d show ?thesis by simp
  next
    case True
    with acc assms(3) obtain n where em: "emit_event ByEngine i ''run.stop_requested'' [(''reason'', PStr reason)] e1 = Inr (n, e)"
      by (auto simp: request_stop_def announce_stop_def split: sum.splits)
    note m = emit_eventD [OF em]
    from True d obtain tok where tok: "map_of (qe_tokens ?e) i = Some tok" by blast
    then have "i \<in> set (map fst (qe_tokens ?e))" by (metis list.set_map domI dom_map_of_conv_image_fst)
    with q(3,4) have act: "qe_active_run_id ?e = Some i" by (auto split: option.splits)
    have tk: "qe_tokens e = qe_tokens e1" using m by blast
    have set: "map_of (qe_tokens e) i = Some \<lparr>to_set = True, to_reason = Some (strip reason)\<rparr>" using tk d True by simp
    moreover have "run_of i e \<noteq> None" using m by auto
    ultimately have "\<exists>e'. request_stop i reason' e = Inr (False, e') \<and> qe_log e' = qe_log e \<and> map_of (qe_tokens e') i = map_of (qe_tokens e) i"
      if "strip reason' \<noteq> []" for reason'
      using that by (auto simp: request_stop_def accept_stop_def token_request_def run_of_def)
    with act set m d True show ?thesis by auto
  qed
qed

lemma stranded_stays: "query_step\<^sup>*\<^sup>* w w' \<Longrightarrow> query_inv w \<Longrightarrow> qw_submission w = Stranded q \<Longrightarrow> qw_submission w' = Stranded q"
proof (induction rule: rtranclp_induct)
  case (step u v)
  then have u: "qw_submission u = Stranded q" "query_inv u" using query_runs.inv_steps by auto
  then have "qe_active_run_id (qw_engine u) = Some (rq_run_id q)" using query_invD(3) [OF u(2) refl u(1)] by simp
  with step(2) u(1) show ?case by cases (auto simp: begin_submit_def split: if_splits)
qed

text \<open>
  An interruption of the executor strands the engine: after an exception that is no \<open>Exception\<close> (the
  user interrupts the program while a run executes) the run stays active for ever, and no later
  submission is accepted, whatever any thread does.
\<close>

theorem interrupt_strands_engine:
  assumes "new_query_engine c = Inr e0" "query_step\<^sup>*\<^sup>* (idle_world e0) (idle_world e)"
    and "strip input \<noteq> []" "run_id_of hex \<notin> fst ` set (qe_runs e)" "\<And>l. limits = Some l \<Longrightarrow> limits_ok l"
    and "submit_text input limits hex acts IsInterrupted e = (res, e1)"
  shows "res = Inl Interrupted \<and> (\<exists>q. query_step\<^sup>*\<^sup>* (idle_world e) (engine_world e1 (Stranded q)) \<and>
    (\<forall>w'. query_step\<^sup>*\<^sup>* (engine_world e1 (Stranded q)) w' \<longrightarrow>
      (\<forall>input' limits' hex'. strip input' \<noteq> [] \<longrightarrow>
        begin_submit input' limits' hex' (qw_engine w') = Inl (ConcurrentSubmit (run_id_of hex)))))"
proof -
  have inv: "query_inv (engine_world e NoSubmission)" using reachable_query_inv [OF assms(1,2)] by simp
  from submit_steps [OF inv assms(3-5), where limits = limits and acts = acts and ending = IsInterrupted] assms(6) obtain q where q: "rq_run_id q = run_id_of hex"
    and steps: "query_step\<^sup>*\<^sup>* (engine_world e NoSubmission) (engine_world e1 (Executing q))" and res: "res = Inl Interrupted"
    by (auto simp: settle_def)
  have "query_step (engine_world e1 (Executing q)) (engine_world e1 (Stranded q))"
    using query_step.strand [of "engine_world e1 (Executing q)" q] by simp
  with steps have all: "query_step\<^sup>*\<^sup>* (engine_world e NoSubmission) (engine_world e1 (Stranded q))" by simp
  have i1: "query_inv (engine_world e1 (Stranded q))" by (rule query_runs.inv_steps [OF all inv])
  have "begin_submit input' limits' hex' (qw_engine w') = Inl (ConcurrentSubmit (run_id_of hex))"
    if w': "query_step\<^sup>*\<^sup>* (engine_world e1 (Stranded q)) w'" and "strip input' \<noteq> []" for w' input' limits' hex'
  proof -
    have "qw_submission w' = Stranded q" by (rule stranded_stays [OF w' i1]) simp
    then have "qe_active_run_id (qw_engine w') = Some (run_id_of hex)"
      using query_invD(3) [OF query_runs.inv_steps [OF w' i1] refl] q by simp
    with that(2) show ?thesis by (simp add: begin_submit_def Let_def)
  qed
  with res all show ?thesis by auto
qed

section \<open>Witnesses\<close>

definition demo_engine :: query_engine where
  "demo_engine = \<lparr>qe_conversation_id = ''c'', qe_runs = [], qe_tokens = [], qe_active_run_id = None, qe_log = []\<rparr>"

definition demo_query_run :: string where
  "demo_query_run = run_id_of ''0123456789ab''"

definition demo_report :: execution_report where
  "demo_report = \<lparr>er_status = ''completed'', er_output = Some ''ok'', er_stop_reason = ''goal'', er_model_calls = 2, er_tool_calls = 1\<rparr>"

lemma demo_engine_new: "new_query_engine ''c'' = Inr demo_engine"
  by code_simp

lemma demo_fresh: "run_id_of ''0123456789ab'' \<notin> fst ` set (qe_runs demo_engine)"
  by (simp add: demo_engine_def)

lemma demo_input: "strip ''hi'' \<noteq> []"
  by code_simp

lemma demo_report_ok: "check_report demo_report = Inr demo_report"
  by code_simp

theorem submit_returns_witness:
  "\<exists>n e'. submit_text ''hi'' None ''0123456789ab'' [Emits ''model.call'' [], StopAsked demo_query_run ''enough''] (Returns demo_report) demo_engine =
    (Inr (result_of demo_query_run demo_report n), e') \<and> qe_active_run_id e' = None"
proof -
  have s: "settle default_limits (Returns demo_report) = Some (demo_report, [])" by code_simp
  show ?thesis
    using submit_returns [OF demo_engine_new rtranclp.rtrancl_refl demo_input demo_fresh, where limits = None
        and ending = "Returns demo_report" and acts = "[Emits ''model.call'' [], StopAsked demo_query_run ''enough'']"] demo_report_ok s
    by (auto simp: demo_query_run_def)
qed

lemma demo_query_steps:
  "\<exists>e1. query_step\<^sup>*\<^sup>* (idle_world demo_engine) (engine_world e1 NoSubmission) \<and> run_of demo_query_run e1 \<noteq> None \<and>
    qe_active_run_id e1 = None"
proof -
  have inv: "query_inv (engine_world demo_engine NoSubmission)" using query_inv_idle [OF demo_engine_new] by simp
  from submit_steps [OF inv demo_input demo_fresh, where limits = None and acts = "[]"
      and ending = "Returns demo_report"] obtain q e1 where
    q: "rq_run_id q = demo_query_run" "rq_limits q = default_limits"
    and st: "query_step\<^sup>*\<^sup>* (engine_world demo_engine NoSubmission) (engine_world e1 (Executing q))"
    by (auto simp: demo_query_run_def)
  have i1: "query_inv (engine_world e1 (Executing q))" by (rule query_runs.inv_steps [OF st inv])
  have "settle (rq_limits q) (Returns demo_report) = Some (demo_report, [])" unfolding q by code_simp
  from finish_steps [OF i1 this] obtain n e2 where fin: "query_step\<^sup>*\<^sup>* (engine_world e1 (Executing q)) (engine_world e2 NoSubmission)"
      "qe_log e2 = qe_log e1 @ [event_at ByEngine demo_query_run ''run.completed'' (terminal_payload demo_report []) n]"
    using demo_report_ok q by (auto simp: demo_report_def terminal_type_def)
  have i2: "query_inv (engine_world e2 NoSubmission)" by (rule query_runs.inv_steps [OF fin(1) i1])
  have "run_of demo_query_run e2 \<noteq> None"
    using query_invD(2) [OF i2 refl refl, of "last (qe_log e2)"] fin(2) by simp
  moreover have "qe_active_run_id e2 = None" using query_invD(3) [OF i2 refl refl] by simp
  moreover have "query_step\<^sup>*\<^sup>* (idle_world demo_engine) (engine_world e2 NoSubmission)" using st fin(1) by simp
  ultimately show ?thesis by blast
qed

theorem query_lifecycle_witness:
  "\<exists>e a. run_of demo_query_run e = Some a \<and> map event_number (events_of demo_query_run e) = numbers_upto (ar_last_event_sequence a)"
proof -
  from demo_query_steps obtain e1 a where "query_step\<^sup>*\<^sup>* (idle_world demo_engine) (engine_world e1 NoSubmission)" "run_of demo_query_run e1 = Some a"
    by auto
  with query_lifecycle [OF demo_engine_new] show ?thesis by (metis engine_world_simps(1))
qed

theorem stop_request_once_witness:
  "\<exists>e e'. request_stop demo_query_run ''late'' e = Inr (False, e') \<and> qe_log e' = qe_log e"
proof -
  from demo_query_steps obtain e1 a where w: "query_step\<^sup>*\<^sup>* (idle_world demo_engine) (engine_world e1 NoSubmission)"
      "run_of demo_query_run e1 = Some a" "qe_active_run_id e1 = None" by auto
  have "qe_tokens e1 = []"
    using query_invD(4) [OF reachable_query_inv [OF demo_engine_new w(1)] refl refl] by simp
  with w(2) have r: "request_stop demo_query_run ''late'' e1 = Inr (False, e1)"
    by (simp add: request_stop_def accept_stop_def run_of_def)
  with stop_request_once [OF demo_engine_new w(1), of demo_query_run "''late''" False e1] show ?thesis by auto
qed

theorem interrupt_strands_engine_witness:
  "fst (submit_text ''hi'' None ''0123456789ab'' [] IsInterrupted demo_engine) = Inl Interrupted"
  using interrupt_strands_engine [OF demo_engine_new rtranclp.rtrancl_refl demo_input demo_fresh,
      where limits = None and acts = "[]" and res = "fst (submit_text ''hi'' None ''0123456789ab'' [] IsInterrupted demo_engine)"
        and ?e1.0 = "snd (submit_text ''hi'' None ''0123456789ab'' [] IsInterrupted demo_engine)"]
  by simp

section \<open>A stop after the end\<close>

text \<open>
  Between the terminal event and the release of the token a stop request is still accepted: its caller is
  told that it stops the run, and its event follows the terminal event of the run.
\<close>

lemma stop_after_end:
  assumes "query_inv w" "qw_submission w = Ended q r" "strip reason \<noteq> []" "map_of (qe_tokens (qw_engine w)) (rq_run_id q) = Some new_token"
  shows "\<exists>e n. request_stop (rq_run_id q) reason (qw_engine w) = Inr (True, e) \<and>
    qe_log e = qe_log (qw_engine w) @ [event_at ByEngine (rq_run_id q) ''run.stop_requested'' [(''reason'', PStr reason)] n] \<and>
    engine_events terminal_types (rq_run_id q) (qw_engine w) \<noteq> []"
proof -
  note q = query_invD [OF assms(1) refl assms(2)]
  from q(5) obtain a where a: "run_of (rq_run_id q) (qw_engine w) = Some a" by auto
  from q(1) [OF a] have "run_ended (rq_run_id q) (qw_engine w) (Some (ar_status a))" by (simp add: run_ok_def)
  then have "engine_events terminal_types (rq_run_id q) (qw_engine w) \<noteq> []" by (auto simp: run_ended_def)
  with a assms(3,4) show ?thesis
    by (auto simp: request_stop_def accept_stop_def run_of_def token_request_def new_token_def announce_stop_def
        emit_event_def Let_def event_at_def)
qed

end
