(* ===== verification/Model_Router.thy ===== *)
theory Model_Router
  imports Py_Value Py_Path
begin

text \<open>
  \<open>model_policy/contracts.py\<close> and \<open>model_policy/router.py\<close>: the static routing of a request to a bounded
  chain of models. Costs are rational numbers (the floats of the code without rounding), a frozenset is a
  finite set. SHA-256 over the canonical JSON of a payload and the formatting \<open>.12g\<close> are the arguments
  \<open>fp\<close> and \<open>g12\<close>.
\<close>

section \<open>Contracts\<close>

definition identifier_char :: "char \<Rightarrow> bool" where
  "identifier_char c = (let n = (of_char c :: nat) in
     (65 \<le> n \<and> n \<le> 90) \<or> (97 \<le> n \<and> n \<le> 122) \<or> (48 \<le> n \<and> n \<le> 57) \<or> c \<in> set ''_.:-'')"

definition is_identifier :: "string \<Rightarrow> bool" where
  "is_identifier s = (1 \<le> length s \<and> length s \<le> 128 \<and> list_all identifier_char s)"

datatype policy_error =
    PolicyValue string
  | PolicyDuplicate string
  | ExplicitNotFound string
  | ExplicitIneligible string
  | NoEligibleModel

datatype model_failure_category =
    NetworkFailure | RateLimited | ServerError | AuthenticationFailure | PermissionFailure
  | InvalidRequest | ContextOverflow | StructuredOutputFailure | UnknownFailure

record request_profile =
  pf_required_capabilities :: "string set"
  pf_estimated_input_tokens :: int
  pf_output_reserve_tokens :: int
  pf_structured_output_required :: bool
  pf_cost_ceiling_usd :: "rat option"
  pf_explicit_model :: "string option"
  pf_max_candidates :: int
  pf_allow_fallback :: bool

definition profile_ok :: "request_profile \<Rightarrow> bool" where
  "profile_ok p = (0 \<le> pf_estimated_input_tokens p \<and> 0 \<le> pf_output_reserve_tokens p \<and>
     (case pf_cost_ceiling_usd p of None \<Rightarrow> True | Some c \<Rightarrow> 0 \<le> c) \<and>
     (case pf_explicit_model p of None \<Rightarrow> True | Some m \<Rightarrow> is_identifier m) \<and>
     1 \<le> pf_max_candidates p \<and> pf_max_candidates p \<le> 20 \<and>
     finite (pf_required_capabilities p) \<and> (\<forall>c \<in> pf_required_capabilities p. is_identifier c))"

definition required_context_tokens :: "request_profile \<Rightarrow> int" where
  "required_context_tokens p = pf_estimated_input_tokens p + pf_output_reserve_tokens p"

record model_candidate =
  cd_provider_id :: string
  cd_model_id :: string
  cd_capabilities :: "string set"
  cd_context_window_tokens :: int
  cd_supports_structured_output :: bool
  cd_input_cost :: rat
  cd_output_cost :: rat
  cd_preference_rank :: int
  cd_enabled :: bool

definition candidate_ok :: "model_candidate \<Rightarrow> bool" where
  "candidate_ok c = (is_identifier (cd_provider_id c) \<and> is_identifier (cd_model_id c) \<and>
     1 \<le> cd_context_window_tokens c \<and> 0 \<le> cd_preference_rank c \<and> 0 \<le> cd_input_cost c \<and> 0 \<le> cd_output_cost c \<and>
     finite (cd_capabilities c) \<and> (\<forall>k \<in> cd_capabilities c. is_identifier k))"

definition qualified_name :: "model_candidate \<Rightarrow> string" where
  "qualified_name c = cd_provider_id c @ '':'' @ cd_model_id c"

definition estimate_cost :: "request_profile \<Rightarrow> model_candidate \<Rightarrow> rat" where
  "estimate_cost p c = of_int (pf_estimated_input_tokens p) * cd_input_cost c / 1000000 +
     of_int (pf_output_reserve_tokens p) * cd_output_cost c / 1000000"

record model_exclusion =
  xc_qualified_name :: string
  xc_reason :: string

record policy_decision =
  de_request_fingerprint :: string
  de_policy_version :: string
  de_primary_model :: string
  de_fallback_chain :: "string list"
  de_estimated_costs :: "(string \<times> rat) list"
  de_excluded :: "model_exclusion list"
  de_explicit_override :: bool
  de_fingerprint :: string

record fallback_attempt =
  fa_qualified_name :: string
  fa_category :: model_failure_category
  fa_error_code :: string

definition make_attempt :: "string \<Rightarrow> model_failure_category \<Rightarrow> string \<Rightarrow> policy_error + fallback_attempt" where
  "make_attempt name category code =
    (if \<not> is_identifier name then Inl (PolicyValue ''qualified_name'')
     else if \<not> is_identifier code then Inl (PolicyValue ''error_code'')
     else Inr \<lparr>fa_qualified_name = name, fa_category = category, fa_error_code = code\<rparr>)"

definition opt_json :: "('a \<Rightarrow> json) \<Rightarrow> 'a option \<Rightarrow> json" where
  "opt_json f x = (case x of None \<Rightarrow> JNull | Some v \<Rightarrow> f v)"

definition profile_fingerprint :: "(json \<Rightarrow> string) \<Rightarrow> request_profile \<Rightarrow> string" where
  "profile_fingerprint fp p = fp (JObj
     [(''required_capabilities'', JArr (map JStr (sorted_list_of_set (pf_required_capabilities p)))),
      (''estimated_input_tokens'', JInt (pf_estimated_input_tokens p)),
      (''output_reserve_tokens'', JInt (pf_output_reserve_tokens p)),
      (''structured_output_required'', JBool (pf_structured_output_required p)),
      (''cost_ceiling_usd'', opt_json JFloat (pf_cost_ceiling_usd p)),
      (''explicit_model'', opt_json JStr (pf_explicit_model p)),
      (''max_candidates'', JInt (pf_max_candidates p)),
      (''allow_fallback'', JBool (pf_allow_fallback p))])"

section \<open>The router\<close>

definition new_router :: "string \<Rightarrow> policy_error + string" where
  "new_router version = (if strip version = [] then Inl (PolicyValue ''policy_version'') else Inr version)"

definition exclusion_reason :: "request_profile \<Rightarrow> model_candidate \<Rightarrow> string option" where
  "exclusion_reason p c =
    (if \<not> cd_enabled c then Some ''disabled''
     else let missing = pf_required_capabilities p - cd_capabilities c in
     if missing \<noteq> {} then Some (''missing_capability:'' @ join_with '','' (sorted_list_of_set missing))
     else if cd_context_window_tokens c < required_context_tokens p then Some ''context_window''
     else if pf_structured_output_required p \<and> \<not> cd_supports_structured_output c then Some ''structured_output''
     else if (case pf_cost_ceiling_usd p of None \<Rightarrow> False | Some bound \<Rightarrow> bound < estimate_cost p c) then Some ''cost_ceiling''
     else None)"

definition route_key :: "request_profile \<Rightarrow> model_candidate \<Rightarrow> int \<times> rat \<times> string" where
  "route_key p c = (cd_preference_rank c, estimate_cost p c, qualified_name c)"

text \<open>The loop that indexes the candidates by name: the first name met twice is an error.\<close>

fun index_candidates :: "model_candidate list \<Rightarrow> (string \<times> model_candidate) list \<Rightarrow>
    policy_error + (string \<times> model_candidate) list" where
  "index_candidates [] by_name = Inr by_name"
| "index_candidates (c # cs) by_name =
    (if qualified_name c \<in> fst ` set by_name then Inl (PolicyDuplicate (qualified_name c))
     else index_candidates cs (dict_set (qualified_name c) c by_name))"

definition eligible_models :: "request_profile \<Rightarrow> model_candidate list \<Rightarrow> model_candidate list" where
  "eligible_models p cs = sort_key (route_key p) (filter (\<lambda>c. exclusion_reason p c = None) cs)"

fun exclusions :: "request_profile \<Rightarrow> model_candidate list \<Rightarrow> model_exclusion list" where
  "exclusions p [] = []"
| "exclusions p (c # cs) = (case exclusion_reason p c of
       None \<Rightarrow> exclusions p cs
     | Some reason \<Rightarrow> \<lparr>xc_qualified_name = qualified_name c, xc_reason = reason\<rparr> # exclusions p cs)"

text \<open>An explicit model goes to the front of the eligible ones, if it is configured and eligible.\<close>

definition pick_models :: "request_profile \<Rightarrow> (string \<times> model_candidate) list \<Rightarrow> model_candidate list \<Rightarrow>
    policy_error + model_candidate list" where
  "pick_models p by_name cands = (case pf_explicit_model p of
       None \<Rightarrow> Inr cands
     | Some m \<Rightarrow> (case map_of by_name m of
         None \<Rightarrow> Inl (ExplicitNotFound m)
       | Some selected \<Rightarrow> (case exclusion_reason p selected of
           Some reason \<Rightarrow> Inl (ExplicitIneligible reason)
         | None \<Rightarrow> Inr (selected # filter (\<lambda>c. qualified_name c \<noteq> qualified_name selected) cands))))"

definition chain_limit :: "request_profile \<Rightarrow> nat" where
  "chain_limit p = (if \<not> pf_allow_fallback p then 1 else nat (pf_max_candidates p))"

definition decision_payload :: "(rat \<Rightarrow> string) \<Rightarrow> string \<Rightarrow> string \<Rightarrow> model_candidate list \<Rightarrow> (string \<times> rat) list \<Rightarrow>
    model_exclusion list \<Rightarrow> bool \<Rightarrow> json" where
  "decision_payload g12 request version chain costs excluded explicit = JObj
     [(''request_fingerprint'', JStr request),
      (''policy_version'', JStr version),
      (''primary_model'', JStr (qualified_name (hd chain))),
      (''fallback_chain'', JArr (map (JStr \<circ> qualified_name) (tl chain))),
      (''estimated_costs'', JArr (map (\<lambda>(name, cost). JArr [JStr name, JStr (g12 cost)]) costs)),
      (''excluded'', JArr (map (\<lambda>x. JArr [JStr (xc_qualified_name x), JStr (xc_reason x)]) excluded)),
      (''explicit_override'', JBool explicit)]"

definition decide_route :: "(json \<Rightarrow> string) \<Rightarrow> (rat \<Rightarrow> string) \<Rightarrow> string \<Rightarrow> request_profile \<Rightarrow> model_candidate list \<Rightarrow>
    model_exclusion list \<Rightarrow> policy_decision" where
  "decide_route fp g12 version p chain excluded =
    (let costs = map (\<lambda>c. (qualified_name c, estimate_cost p c)) chain;
         request = profile_fingerprint fp p;
         explicit = (pf_explicit_model p \<noteq> None)
     in \<lparr>de_request_fingerprint = request, de_policy_version = version,
         de_primary_model = qualified_name (hd chain), de_fallback_chain = map qualified_name (tl chain),
         de_estimated_costs = costs, de_excluded = excluded, de_explicit_override = explicit,
         de_fingerprint = fp (decision_payload g12 request version chain costs excluded explicit)\<rparr>)"

definition route :: "(json \<Rightarrow> string) \<Rightarrow> (rat \<Rightarrow> string) \<Rightarrow> string \<Rightarrow> request_profile \<Rightarrow> model_candidate list \<Rightarrow>
    policy_error + policy_decision" where
  "route fp g12 version p cs =
    (case index_candidates cs [] of
       Inl e \<Rightarrow> Inl e
     | Inr by_name \<Rightarrow> (case pick_models p by_name (eligible_models p cs) of
         Inl e \<Rightarrow> Inl e
       | Inr chosen \<Rightarrow>
         (if chosen = [] then Inl NoEligibleModel
          else Inr (decide_route fp g12 version p (take (chain_limit p) chosen)
                 (sort_key xc_qualified_name (exclusions p cs))))))"

definition fallback_allowed :: "model_failure_category set" where
  "fallback_allowed = {NetworkFailure, RateLimited, ServerError}"

definition next_fallback :: "policy_decision \<Rightarrow> fallback_attempt list \<Rightarrow> policy_error + string option" where
  "next_fallback d history =
    (if history = [] then Inl (PolicyValue ''attempts'')
     else if fa_category (last history) \<notin> fallback_allowed then Inr None
     else Inr (find (\<lambda>c. c \<notin> fa_qualified_name ` set history) (de_fallback_chain d)))"

end
