(* ===== verification/Model_Router_Props.thy ===== *)
theory Model_Router_Props
  imports Model_Router "HOL-Library.Multiset"
begin

text \<open>
  Properties of the model router: the chain of a decision is sound and best first, the decision does not
  depend on the order of the configuration, the errors are exact, and fallbacks walk the chain once.
\<close>

section \<open>Candidates by name\<close>

lemma index_candidates_iff:
  "index_candidates cs acc = Inr b \<longleftrightarrow>
    distinct (map qualified_name cs) \<and> qualified_name ` set cs \<inter> fst ` set acc = {} \<and>
    b = acc @ map (\<lambda>c. (qualified_name c, c)) cs"
proof (induction cs arbitrary: acc)
  case (Cons c cs)
  then show ?case by (auto simp: dict_set_new)
qed auto

lemma index_candidates_Inl:
  "index_candidates cs acc = Inl e \<Longrightarrow> \<exists>n. e = PolicyDuplicate n \<and> n \<in> qualified_name ` set cs"
  by (induction cs acc rule: index_candidates.induct) (auto split: if_splits)

lemma map_of_by_name:
  assumes "distinct (map qualified_name cs)"
  shows "map_of (map (\<lambda>c. (qualified_name c, c)) cs) m = Some c \<longleftrightarrow> c \<in> set cs \<and> qualified_name c = m"
proof -
  have "distinct (map fst (map (\<lambda>c. (qualified_name c, c)) cs))" using assms by (simp add: comp_def)
  then show ?thesis by (subst map_of_eq_Some_iff) auto
qed

lemma map_of_by_name_None: "map_of (map (\<lambda>c. (qualified_name c, c)) cs) m = None \<longleftrightarrow> m \<notin> qualified_name ` set cs"
  by (auto simp: map_of_eq_None_iff image_iff)

lemma set_eligible [simp]: "set (eligible_models p cs) = {c \<in> set cs. exclusion_reason p c = None}"
  by (simp add: eligible_models_def)

lemma sorted_eligible: "sorted (map (route_key p) (eligible_models p cs))"
  by (simp add: eligible_models_def)

lemma distinct_names_eligible:
  assumes "distinct (map qualified_name cs)"
  shows "distinct (map qualified_name (eligible_models p cs))"
proof -
  have "distinct cs" "inj_on qualified_name (set cs)" using assms by (auto simp: distinct_map)
  then show ?thesis by (auto simp: distinct_map eligible_models_def intro: inj_on_subset)
qed

lemma route_key_name: "route_key p c = route_key p d \<Longrightarrow> qualified_name c = qualified_name d"
  by (simp add: route_key_def)

section \<open>The chosen models\<close>

text \<open>All eligible models in the order they would be tried, before the chain is cut.\<close>

definition ranking :: "request_profile \<Rightarrow> model_candidate list \<Rightarrow> policy_error + model_candidate list" where
  "ranking p cs = pick_models p (map (\<lambda>c. (qualified_name c, c)) cs) (eligible_models p cs)"

lemma route_distinct:
  assumes "distinct (map qualified_name cs)"
  shows "route fp g12 version p cs = (case ranking p cs of
      Inl e \<Rightarrow> Inl e
    | Inr chosen \<Rightarrow> if chosen = [] then Inl NoEligibleModel
        else Inr (decide_route fp g12 version p (take (chain_limit p) chosen) (sort_key xc_qualified_name (exclusions p cs))))"
proof -
  have "index_candidates cs [] = Inr (map (\<lambda>c. (qualified_name c, c)) cs)"
    using assms by (simp add: index_candidates_iff)
  then show ?thesis by (simp add: route_def ranking_def)
qed

lemma route_InrD:
  assumes "route fp g12 version p cs = Inr d"
  shows "distinct (map qualified_name cs) \<and> (\<exists>chosen. ranking p cs = Inr chosen \<and> chosen \<noteq> [] \<and>
    d = decide_route fp g12 version p (take (chain_limit p) chosen) (sort_key xc_qualified_name (exclusions p cs)))"
proof -
  from assms obtain b where "index_candidates cs [] = Inr b" by (auto simp: route_def split: sum.splits)
  then have d: "distinct (map qualified_name cs)" by (simp add: index_candidates_iff)
  with assms show ?thesis by (auto simp: route_distinct split: sum.splits if_splits)
qed

lemma ranking_InrD:
  assumes "ranking p cs = Inr chosen" "distinct (map qualified_name cs)"
  shows "distinct (map qualified_name chosen)" "set chosen = {c \<in> set cs. exclusion_reason p c = None}"
    "pf_explicit_model p = None \<Longrightarrow> chosen = eligible_models p cs"
    "pf_explicit_model p = Some m \<Longrightarrow> chosen \<noteq> [] \<and> qualified_name (hd chosen) = m \<and>
      tl chosen = filter (\<lambda>c. qualified_name c \<noteq> m) (eligible_models p cs)"
proof -
  have names: "distinct (map qualified_name (eligible_models p cs))" by (rule distinct_names_eligible [OF assms(2)])
  have expl: "\<exists>s. s \<in> set cs \<and> exclusion_reason p s = None \<and> qualified_name s = m \<and>
      chosen = s # filter (\<lambda>c. qualified_name c \<noteq> m) (eligible_models p cs)"
    if "pf_explicit_model p = Some m" for m
    using assms(1) that map_of_by_name [OF assms(2)]
    by (auto simp: ranking_def pick_models_def split: option.splits)
  have dist: "distinct (map qualified_name (filter P (eligible_models p cs)))" for P
    using names by (rule distinct_map_filter)
  show "distinct (map qualified_name chosen)"
  proof (cases "pf_explicit_model p")
    case None
    with assms(1) names show ?thesis by (simp add: ranking_def pick_models_def)
  next
    case (Some m)
    with expl dist show ?thesis by fastforce
  qed
  show "set chosen = {c \<in> set cs. exclusion_reason p c = None}"
  proof (cases "pf_explicit_model p")
    case None
    with assms(1) show ?thesis by (auto simp: ranking_def pick_models_def)
  next
    case (Some m)
    from expl [OF this] obtain s where s: "s \<in> set cs" "exclusion_reason p s = None" "qualified_name s = m"
      "chosen = s # filter (\<lambda>c. qualified_name c \<noteq> m) (eligible_models p cs)" by blast
    have eq: "c = s" if "c \<in> set cs" "qualified_name c = m" for c
      using distinct_map_eqD [OF assms(2) that(1) s(1)] that(2) s(3) by simp
    show ?thesis unfolding s(4) using s(1-3) by (auto dest: eq)
  qed
  show "chosen = eligible_models p cs" if "pf_explicit_model p = None"
    using that assms(1) by (simp add: ranking_def pick_models_def)
  show "chosen \<noteq> [] \<and> qualified_name (hd chosen) = m \<and> tl chosen = filter (\<lambda>c. qualified_name c \<noteq> m) (eligible_models p cs)"
    if "pf_explicit_model p = Some m"
    using expl [OF that] by auto
qed

lemma chain_limit_pos: "profile_ok p \<Longrightarrow> 0 < chain_limit p \<and> chain_limit p \<le> 20"
  by (auto simp: chain_limit_def profile_ok_def)

definition decision_chain :: "policy_decision \<Rightarrow> string list" where
  "decision_chain d = de_primary_model d # de_fallback_chain d"

lemma decision_chain_decide:
  assumes "chain \<noteq> []"
  shows "decision_chain (decide_route fp g12 version p chain excluded) = map qualified_name chain"
  using assms by (cases chain) (simp_all add: decision_chain_def decide_route_def Let_def)

section \<open>Properties\<close>

text \<open>
  C18. A decision is sound: the primary model and its fallbacks are different configured models that satisfy
  the profile (enabled, all capabilities, context window, structured output, cost ceiling), at most
  \<open>max_candidates\<close> of them and a single one without fallback; each comes with its estimated cost, within
  the ceiling; an explicit model is the primary one.
\<close>

theorem route_sound:
  assumes "route fp g12 version p cs = Inr d" "profile_ok p"
  shows "distinct (decision_chain d) \<and> length (decision_chain d) \<le> (if pf_allow_fallback p then nat (pf_max_candidates p) else 1) \<and>
    (\<forall>m \<in> set (decision_chain d). \<exists>c \<in> set cs. qualified_name c = m \<and> cd_enabled c \<and>
      pf_required_capabilities p \<subseteq> cd_capabilities c \<and> required_context_tokens p \<le> cd_context_window_tokens c \<and>
      (pf_structured_output_required p \<longrightarrow> cd_supports_structured_output c) \<and>
      (m, estimate_cost p c) \<in> set (de_estimated_costs d) \<and>
      (\<forall>bound. pf_cost_ceiling_usd p = Some bound \<longrightarrow> estimate_cost p c \<le> bound)) \<and>
    map fst (de_estimated_costs d) = decision_chain d \<and>
    (\<forall>m. pf_explicit_model p = Some m \<longrightarrow> de_primary_model d = m)"
proof -
  from route_InrD [OF assms(1)] obtain chosen where names: "distinct (map qualified_name cs)"
    and chosen: "ranking p cs = Inr chosen" "chosen \<noteq> []"
    and d: "d = decide_route fp g12 version p (take (chain_limit p) chosen) (sort_key xc_qualified_name (exclusions p cs))" by blast
  note r = ranking_InrD [OF chosen(1) names]
  let ?chain = "take (chain_limit p) chosen"
  have pos: "0 < chain_limit p" using chain_limit_pos [OF assms(2)] by simp
  then have ne: "?chain \<noteq> []" using chosen(2) by auto
  have dc: "decision_chain d = map qualified_name ?chain" unfolding d by (rule decision_chain_decide [OF ne])
  have costs: "de_estimated_costs d = map (\<lambda>c. (qualified_name c, estimate_cost p c)) ?chain"
    by (simp add: d decide_route_def Let_def)
  have "distinct (decision_chain d)" using r(1) unfolding dc take_map [symmetric] by (rule distinct_take)
  moreover have "length (decision_chain d) \<le> chain_limit p" by (simp add: dc)
  moreover have "map fst (de_estimated_costs d) = decision_chain d" by (simp add: costs dc comp_def)
  moreover have "\<exists>c \<in> set cs. qualified_name c = m \<and> cd_enabled c \<and>
      pf_required_capabilities p \<subseteq> cd_capabilities c \<and> required_context_tokens p \<le> cd_context_window_tokens c \<and>
      (pf_structured_output_required p \<longrightarrow> cd_supports_structured_output c) \<and>
      (m, estimate_cost p c) \<in> set (de_estimated_costs d) \<and>
      (\<forall>bound. pf_cost_ceiling_usd p = Some bound \<longrightarrow> estimate_cost p c \<le> bound)"
    if m: "m \<in> set (decision_chain d)" for m
  proof -
    from m obtain c where c: "c \<in> set ?chain" "qualified_name c = m" unfolding dc by auto
    then have "c \<in> set chosen" using in_set_takeD by metis
    with r(2) have "c \<in> set cs" "exclusion_reason p c = None" by auto
    with c show ?thesis
      by (intro bexI [of _ c]) (auto simp: costs exclusion_reason_def Let_def split: if_splits option.splits)
  qed
  moreover have "de_primary_model d = m" if "pf_explicit_model p = Some m" for m
    using r(4) [OF that] pos by (simp add: d decide_route_def Let_def hd_take)
  moreover have "chain_limit p = (if pf_allow_fallback p then nat (pf_max_candidates p) else 1)"
    by (simp add: chain_limit_def)
  ultimately show ?thesis by auto
qed

definition before :: "request_profile \<Rightarrow> model_candidate \<Rightarrow> model_candidate \<Rightarrow> bool" where
  "before p a b = (route_key p a < route_key p b)"

lemma sorted_names_before:
  assumes "sorted (map (route_key p) cs)" "distinct (map qualified_name cs)"
  shows "sorted_wrt (before p) cs"
proof -
  have "sorted_wrt (\<lambda>a b. route_key p a \<le> route_key p b \<and> qualified_name a \<noteq> qualified_name b) cs"
    using assms by (induction cs) (auto simp: image_iff)
  then show ?thesis
    by (rule sorted_wrt_mono_rel [rotated]) (auto simp: before_def order.strict_iff_order dest: route_key_name)
qed

text \<open>
  A decision is the best one: no model of the chain (after an explicit primary) could be exchanged for
  an eligible model that was left out, since every model left out comes later in the order of preference
  rank, cost and name, in which the chain itself is sorted.
\<close>

theorem route_best:
  assumes "route fp g12 version p cs = Inr d" "profile_ok p"
  shows "\<exists>chain ranked. decision_chain d = map qualified_name chain \<and>
    ranked = (if pf_explicit_model p = None then chain else tl chain) \<and> sorted_wrt (before p) ranked \<and>
    (\<forall>c \<in> set cs. exclusion_reason p c = None \<longrightarrow> c \<notin> set chain \<longrightarrow>
      length chain = chain_limit p \<and> (\<forall>k \<in> set ranked. before p k c))"
proof -
  from route_InrD [OF assms(1)] obtain chosen where names: "distinct (map qualified_name cs)"
    and chosen: "ranking p cs = Inr chosen" "chosen \<noteq> []"
    and d: "d = decide_route fp g12 version p (take (chain_limit p) chosen) (sort_key xc_qualified_name (exclusions p cs))" by blast
  note r = ranking_InrD [OF chosen(1) names]
  let ?n = "chain_limit p"
  have pos: "0 < ?n" using chain_limit_pos [OF assms(2)] by simp
  let ?chain = "take ?n chosen"
  let ?ranked = "if pf_explicit_model p = None then ?chain else tl ?chain"
  let ?all = "if pf_explicit_model p = None then chosen else tl chosen"
  have wf: "sorted_wrt (before p) ?all"
  proof (cases "pf_explicit_model p")
    case None
    with r(3) show ?thesis using sorted_names_before [OF sorted_eligible distinct_names_eligible [OF names]] by simp
  next
    case (Some m)
    with r(4) show ?thesis
      using sorted_names_before [OF sorted_eligible distinct_names_eligible [OF names]] by (simp add: sorted_wrt_filter)
  qed
  have cut: "?ranked = take (if pf_explicit_model p = None then ?n else ?n - 1) ?all"
    by (simp add: tl_take)
  have sorted: "sorted_wrt (before p) ?ranked" unfolding cut by (rule sorted_wrt_take [OF wf])
  have left: "length ?chain = ?n \<and> (\<forall>k \<in> set ?ranked. before p k c)"
    if c: "c \<in> set cs" "exclusion_reason p c = None" "c \<notin> set ?chain" for c
  proof -
    have "c \<in> set chosen" using c r(2) by simp
    then have drop: "c \<in> set (drop ?n chosen)" using c(3) append_take_drop_id [of ?n chosen] by (metis Un_iff set_append)
    then have len: "length ?chain = ?n" by (cases "?n \<le> length chosen") auto
    have "drop (?n - 1) (tl chosen) = drop ?n chosen" using pos by (simp add: drop_Suc [symmetric])
    with drop have rest: "c \<in> set (drop (if pf_explicit_model p = None then ?n else ?n - 1) ?all)" by simp
    have "sorted_wrt (before p) (take k ?all @ drop k ?all)" for k using wf by simp
    with rest len show ?thesis unfolding cut sorted_wrt_append by blast
  qed
  have "decision_chain d = map qualified_name ?chain"
    unfolding d by (rule decision_chain_decide) (use pos chosen(2) in simp)
  with sorted left show ?thesis by blast
qed

lemma sort_key_unique:
  fixes f :: "'a \<Rightarrow> 'b :: linorder"
  assumes "mset xs = mset ys" "distinct (map f xs)"
  shows "sort_key f xs = sort_key f ys"
proof (rule map_sorted_distinct_set_unique)
  have same: "set xs = set ys" using assms(1) by (rule mset_eq_setD)
  show "inj_on f (set (sort_key f xs) \<union> set (sort_key f ys))"
    using assms(2) same by (auto simp: distinct_map)
  have "mset (map f xs) = mset (map f ys)" using assms(1) by simp
  then have "distinct (map f ys)" using assms(2) mset_eq_imp_distinct_iff by blast
  then show "distinct (map f (sort_key f ys))" by (auto simp: distinct_map)
  show "distinct (map f (sort_key f xs))" using assms(2) by (auto simp: distinct_map)
  show "set (sort_key f xs) = set (sort_key f ys)" using same by simp
qed simp_all

lemma option_same: "(\<And>c. x = Some c \<longleftrightarrow> y = Some c) \<Longrightarrow> x = y"
  by (cases x; cases y) auto

lemma exclusions_map:
  "exclusions p cs = map (\<lambda>c. \<lparr>xc_qualified_name = qualified_name c, xc_reason = the (exclusion_reason p c)\<rparr>)
     (filter (\<lambda>c. exclusion_reason p c \<noteq> None) cs)"
  by (induction cs) (auto split: option.splits)

text \<open>
  Routing does not depend on the order in which the models are configured: the decision, its
  fingerprint and its list of exclusions, or the error, are the same for every permutation.
\<close>

theorem route_order_independent:
  assumes "mset cs = mset cs'" "distinct (map qualified_name cs)"
  shows "route fp g12 version p cs = route fp g12 version p cs'"
proof -
  have "mset (map qualified_name cs) = mset (map qualified_name cs')" using assms(1) by simp
  then have names': "distinct (map qualified_name cs')" using assms(2) mset_eq_imp_distinct_iff by blast
  have same: "set cs = set cs'" using assms(1) by (rule mset_eq_setD)
  have filt: "mset (filter P cs) = mset (filter P cs')" for P using assms(1) by simp
  have dist: "distinct (map qualified_name (filter P cs))" for P using assms(2) by (rule distinct_map_filter)
  have "distinct (map (route_key p) (filter P cs))" for P
    using dist [of P] unfolding distinct_map by (auto simp: inj_on_def dest: route_key_name)
  then have el: "eligible_models p cs = eligible_models p cs'"
    unfolding eligible_models_def by (rule sort_key_unique [OF filt])
  have "sort_key xc_qualified_name (exclusions p cs) = sort_key xc_qualified_name (exclusions p cs')"
  proof (rule sort_key_unique)
    show "mset (exclusions p cs) = mset (exclusions p cs')" unfolding exclusions_map mset_map by (simp only: filt)
    show "distinct (map xc_qualified_name (exclusions p cs))"
      unfolding exclusions_map by (simp add: comp_def dist)
  qed
  moreover have "map_of (map (\<lambda>c. (qualified_name c, c)) cs) = map_of (map (\<lambda>c. (qualified_name c, c)) cs')"
  proof
    fix m
    let ?f = "\<lambda>cs. map_of (map (\<lambda>c. (qualified_name c, c)) cs)"
    show "?f cs m = ?f cs' m"
      by (rule option_same) (simp only: map_of_by_name [OF assms(2)] map_of_by_name [OF names'] same)
  qed
  ultimately show ?thesis
    unfolding route_distinct [OF assms(2)] route_distinct [OF names'] ranking_def pick_models_def by (simp only: el)
qed

text \<open>
  C0. Routing fails exactly when it must: on two candidates of one name, on an explicit model that is not
  configured or does not satisfy the profile, and when no candidate satisfies it.
\<close>

theorem route_fails_exactly:
  shows "(\<exists>d. route fp g12 version p cs = Inr d) \<longleftrightarrow> distinct (map qualified_name cs) \<and>
    (\<exists>c \<in> set cs. exclusion_reason p c = None \<and> (pf_explicit_model p = None \<or> pf_explicit_model p = Some (qualified_name c)))"
    (is "?route \<longleftrightarrow> ?names \<and> ?some")
proof
  assume ?route
  then obtain chosen where names: ?names and chosen: "ranking p cs = Inr chosen" "chosen \<noteq> []"
    using route_InrD by blast
  note r = ranking_InrD [OF chosen(1) names]
  have hd: "hd chosen \<in> set cs" "exclusion_reason p (hd chosen) = None"
    using r(2) chosen(2) hd_in_set by blast+
  moreover have "pf_explicit_model p = None \<or> pf_explicit_model p = Some (qualified_name (hd chosen))"
    using r(4) by (cases "pf_explicit_model p") auto
  ultimately show "?names \<and> ?some" using names by blast
next
  assume a: "?names \<and> ?some"
  then obtain c where c: "c \<in> set cs" "exclusion_reason p c = None"
    "pf_explicit_model p = None \<or> pf_explicit_model p = Some (qualified_name c)" by blast
  have "\<exists>chosen. ranking p cs = Inr chosen \<and> chosen \<noteq> []"
  proof (cases "pf_explicit_model p")
    case None
    have "c \<in> set (eligible_models p cs)" using c by simp
    then have "eligible_models p cs \<noteq> []" by (metis empty_iff list.set(1))
    then show ?thesis using None by (auto simp: ranking_def pick_models_def)
  next
    case (Some m)
    with c have "map_of (map (\<lambda>c. (qualified_name c, c)) cs) m = Some c"
      using map_of_by_name a by auto
    with Some c show ?thesis by (simp add: ranking_def pick_models_def)
  qed
  then show ?route using a by (auto simp: route_distinct)
qed

section \<open>Walking the chain\<close>

text \<open>
  A client that follows the policy: it tries the primary model, and after each failure the fallback the
  router names, until a model answers (\<open>outcome\<close> has no failure for it) or the router names none. The
  result has the names it tried and the one that answered. A walk of at most 20 attempts is enough fuel.
\<close>

fun follow :: "nat \<Rightarrow> policy_decision \<Rightarrow> (string \<Rightarrow> model_failure_category option) \<Rightarrow> fallback_attempt list \<Rightarrow> string \<Rightarrow>
    string list \<times> string option" where
  "follow 0 d outcome history m = ([], None)"
| "follow (Suc k) d outcome history m =
    (case outcome m of
       None \<Rightarrow> ([m], Some m)
     | Some cat \<Rightarrow>
       (let history' = history @ [\<lparr>fa_qualified_name = m, fa_category = cat, fa_error_code = ''E''\<rparr>] in
        case next_fallback d history' of
          Inr (Some m') \<Rightarrow> (let r = follow k d outcome history' m' in (m # fst r, snd r))
        | _ \<Rightarrow> ([m], None)))"

definition transient :: "(string \<Rightarrow> model_failure_category option) \<Rightarrow> string \<Rightarrow> bool" where
  "transient outcome m = (case outcome m of None \<Rightarrow> False | Some cat \<Rightarrow> cat \<in> fallback_allowed)"

text \<open>What the walk should be: the models that fail transiently, up to the first that does not.\<close>

fun walk :: "(string \<Rightarrow> model_failure_category option) \<Rightarrow> string list \<Rightarrow> string list \<times> string option" where
  "walk outcome [] = ([], None)"
| "walk outcome (m # ms) =
    (if transient outcome m then (m # fst (walk outcome ms), snd (walk outcome ms))
     else ([m], if outcome m = None then Some m else None))"

lemma follow_walk:
  assumes "distinct (decision_chain d)" "decision_chain d = map fa_qualified_name history @ m # ms" "length ms < k"
  shows "follow k d outcome history m = walk outcome (m # ms)"
  using assms(2,3)
proof (induction k arbitrary: history m ms)
  case 0
  then show ?case by simp
next
  case (Suc k)
  show ?case
  proof (cases "outcome m")
    case None
    then show ?thesis by (simp add: transient_def)
  next
    case (Some cat)
    define h where "h = history @ [\<lparr>fa_qualified_name = m, fa_category = cat, fa_error_code = ''E''\<rparr>]"
    have names: "decision_chain d = map fa_qualified_name h @ ms" using Suc.prems(1) by (simp add: h_def)
    have h: "h \<noteq> []" "fa_category (last h) = cat" by (simp_all add: h_def)
    have tail: "de_fallback_chain d = tl (map fa_qualified_name h) @ ms"
      using names h(1) by (cases h) (simp_all add: decision_chain_def)
    have dist: "distinct (map fa_qualified_name h @ ms)" using assms(1) names by simp
    then have "distinct (tl (map fa_qualified_name h) @ ms)" using h(1) by (cases h) auto
    moreover have "find (\<lambda>c. c \<notin> fa_qualified_name ` set h) (tl (map fa_qualified_name h) @ ms) = (case ms of [] \<Rightarrow> None | y # _ \<Rightarrow> Some y)"
    proof -
      have "find (\<lambda>c. c \<notin> fa_qualified_name ` set h) (tl (map fa_qualified_name h)) = None"
        using h(1) by (cases h) (auto simp: find_None_iff)
      moreover have "y \<notin> fa_qualified_name ` set h" if "y \<in> set ms" for y using dist that by auto
      ultimately show ?thesis by (cases ms) (auto simp: find_append)
    qed
    ultimately have nf: "next_fallback d h = Inr (if cat \<in> fallback_allowed then (case ms of [] \<Rightarrow> None | y # _ \<Rightarrow> Some y) else None)"
      using h tail by (simp add: next_fallback_def)
    show ?thesis
    proof (cases "cat \<in> fallback_allowed")
      case False
      with Some nf show ?thesis by (simp add: h_def [symmetric] transient_def)
    next
      case True
      show ?thesis
      proof (cases ms)
        case Nil
        with Some True nf show ?thesis by (simp add: h_def [symmetric] transient_def)
      next
        case (Cons y ys)
        have "follow k d outcome h y = walk outcome (y # ys)"
          by (rule Suc.IH) (use names Cons Suc.prems(2) in simp_all)
        with Cons Some True nf show ?thesis by (simp add: h_def [symmetric] transient_def Let_def walk.simps(2) [of outcome m "y # ys"] del: walk.simps)
      qed
    qed
  qed
qed

text \<open>
  Following the router after failures walks the chain of the decision in its order, each model at most
  once: it goes on only after a network failure, a rate limit or a server error, stops at the first model
  that answers or fails otherwise, and ends with the chain.
\<close>

theorem fallback_walk:
  assumes "route fp g12 version p cs = Inr d" "profile_ok p" "20 \<le> k"
  shows "follow k d outcome [] (de_primary_model d) = walk outcome (decision_chain d)"
proof -
  from route_InrD [OF assms(1)] obtain chosen where names: "distinct (map qualified_name cs)"
    and chosen: "ranking p cs = Inr chosen" "chosen \<noteq> []"
    and d: "d = decide_route fp g12 version p (take (chain_limit p) chosen) (sort_key xc_qualified_name (exclusions p cs))" by blast
  have pos: "0 < chain_limit p" "chain_limit p \<le> 20" using chain_limit_pos [OF assms(2)] by auto
  then have "take (chain_limit p) chosen \<noteq> []" using chosen(2) by simp
  then have dc: "decision_chain d = map qualified_name (take (chain_limit p) chosen)"
    unfolding d by (rule decision_chain_decide)
  have "distinct (decision_chain d)"
    using ranking_InrD(1) [OF chosen(1) names] unfolding dc take_map [symmetric] by (rule distinct_take)
  moreover have "length (de_fallback_chain d) < k"
    using arg_cong [OF dc, of length] pos(2) assms(3) by (simp add: decision_chain_def)
  ultimately show ?thesis
    using follow_walk [of d "[]" "de_primary_model d" "de_fallback_chain d" k outcome]
    by (simp add: decision_chain_def)
qed

section \<open>Witnesses\<close>

definition demo_candidate :: "string \<Rightarrow> int \<Rightarrow> rat \<Rightarrow> model_candidate" where
  "demo_candidate name rank cost = \<lparr>cd_provider_id = ''p'', cd_model_id = name, cd_capabilities = {''tools''},
     cd_context_window_tokens = 1000, cd_supports_structured_output = True, cd_input_cost = cost, cd_output_cost = cost,
     cd_preference_rank = rank, cd_enabled = True\<rparr>"

definition demo_profile :: request_profile where
  "demo_profile = \<lparr>pf_required_capabilities = {''tools''}, pf_estimated_input_tokens = 100, pf_output_reserve_tokens = 50,
     pf_structured_output_required = False, pf_cost_ceiling_usd = Some 1, pf_explicit_model = None,
     pf_max_candidates = 3, pf_allow_fallback = True\<rparr>"

definition demo_models :: "model_candidate list" where
  "demo_models = [demo_candidate ''b'' 2 1, demo_candidate ''a'' 1 3]"

lemma demo_profile_ok: "profile_ok demo_profile"
proof -
  have "is_identifier ''tools''" by code_simp
  then show ?thesis by (simp add: profile_ok_def demo_profile_def)
qed

lemma demo_names: "distinct (map qualified_name demo_models)"
  by (simp add: demo_models_def demo_candidate_def qualified_name_def)

lemma demo_eligible: "exclusion_reason demo_profile (demo_candidate m r c) = None" if "c \<in> {1, 3}"
  using that by (auto simp: exclusion_reason_def demo_candidate_def demo_profile_def required_context_tokens_def estimate_cost_def)

lemma demo_route: "\<exists>d. route (\<lambda>_. ''fp'') (\<lambda>_. ''0'') ''v1'' demo_profile demo_models = Inr d \<and>
    decision_chain d = [''p:a'', ''p:b'']"
proof -
  let ?a = "demo_candidate ''a'' 1 3" and ?b = "demo_candidate ''b'' 2 1"
  have "eligible_models demo_profile demo_models = [?a, ?b]"
  proof -
    have "filter (\<lambda>c. exclusion_reason demo_profile c = None) demo_models = [?b, ?a]"
      by (simp add: demo_models_def demo_eligible)
    moreover have "route_key demo_profile ?a < route_key demo_profile ?b"
      by (simp add: route_key_def demo_candidate_def)
    ultimately show ?thesis by (simp add: eligible_models_def)
  qed
  then have "ranking demo_profile demo_models = Inr [?a, ?b]"
    by (simp add: ranking_def pick_models_def demo_profile_def)
  moreover have "chain_limit demo_profile = 3" by (simp add: chain_limit_def demo_profile_def)
  ultimately show ?thesis
    by (simp add: route_distinct [OF demo_names] decision_chain_decide) (simp add: demo_candidate_def qualified_name_def)
qed

theorem route_sound_witness:
  "\<exists>d. route (\<lambda>_. ''fp'') (\<lambda>_. ''0'') ''v1'' demo_profile demo_models = Inr d \<and> distinct (decision_chain d) \<and>
    length (decision_chain d) \<le> 3"
  using demo_route route_sound [OF _ demo_profile_ok, of "\<lambda>_. ''fp''" "\<lambda>_. ''0''" "''v1''" demo_models]
  by (auto simp: demo_profile_def)

theorem route_best_witness:
  "\<exists>d chain. route (\<lambda>_. ''fp'') (\<lambda>_. ''0'') ''v1'' demo_profile demo_models = Inr d \<and>
    decision_chain d = map qualified_name chain \<and> sorted_wrt (before demo_profile) chain"
proof -
  have none: "pf_explicit_model demo_profile = None" by (simp add: demo_profile_def)
  from demo_route obtain d where d: "route (\<lambda>_. ''fp'') (\<lambda>_. ''0'') ''v1'' demo_profile demo_models = Inr d" by blast
  from route_best [OF d demo_profile_ok] none show ?thesis using d by auto
qed

theorem route_order_independent_witness:
  "route (\<lambda>_. ''fp'') (\<lambda>_. ''0'') ''v1'' demo_profile demo_models =
    route (\<lambda>_. ''fp'') (\<lambda>_. ''0'') ''v1'' demo_profile (rev demo_models)"
  by (rule route_order_independent [OF _ demo_names]) simp

theorem fallback_walk_witness:
  "\<exists>d. route (\<lambda>_. ''fp'') (\<lambda>_. ''0'') ''v1'' demo_profile demo_models = Inr d \<and>
    follow 20 d (\<lambda>m. if m = ''p:a'' then Some RateLimited else None) [] (de_primary_model d) = ([''p:a'', ''p:b''], Some ''p:b'')"
proof -
  from demo_route obtain d where d: "route (\<lambda>_. ''fp'') (\<lambda>_. ''0'') ''v1'' demo_profile demo_models = Inr d"
    "decision_chain d = [''p:a'', ''p:b'']" by blast
  show ?thesis
    using d fallback_walk [OF d(1) demo_profile_ok, of 20 "\<lambda>m. if m = ''p:a'' then Some RateLimited else None"]
    by (auto simp: transient_def fallback_allowed_def)
qed

section \<open>Limits of qualified names\<close>

text \<open>
  A provider and a model of valid identifiers can have a qualified name that is none: it cannot be the name
  of an attempt, so the router cannot be asked for the fallback after it. And two pairs can share a name.
\<close>

lemma long_name_unattemptable:
  "128 < length (qualified_name c) \<Longrightarrow> make_attempt (qualified_name c) category code = Inl (PolicyValue ''qualified_name'')"
  by (simp add: make_attempt_def is_identifier_def)

lemma valid_long_name: "is_identifier (replicate 100 CHR ''a'')" "length (replicate 100 CHR ''a'' @ '':'' @ replicate 100 CHR ''a'') = 201"
  by (simp_all add: is_identifier_def list_all_iff identifier_char_def)

lemma ambiguous_name:
  "qualified_name (c\<lparr>cd_provider_id := ''a:b'', cd_model_id := ''c''\<rparr>) = qualified_name (c\<lparr>cd_provider_id := ''a'', cd_model_id := ''b:c''\<rparr>)"
  by (simp add: qualified_name_def)

end
