(* ===== verification/Context_Contracts.thy ===== *)
theory Context_Contracts
  imports Py_Value
begin

text \<open>
  \<open>context/contracts.py\<close>: the immutable records of the context runtime and their validators. A JSON
  object is a \<open>PDict\<close>; times are the ISO strings the code stores. The optional texts of an event are
  Python values, since the validator checks their type.
\<close>

section \<open>Vocabularies\<close>

definition trust_levels :: "string list" where
  "trust_levels = [''system'', ''trusted_local'', ''user'', ''tool_output'', ''external_untrusted'']"

definition source_types :: "string list" where
  "source_types = [''user'', ''runtime'', ''file'', ''tool'', ''worker_result'', ''evidence'', ''external'']"

definition context_layers :: "string list" where
  "context_layers = [''L0'', ''L1'', ''L2'', ''L3'', ''L4'', ''L5'']"

definition context_kinds :: "string list" where
  "context_kinds = [''fact'', ''decision'', ''hypothesis'', ''todo'', ''constraint'', ''evidence_ref'', ''observation'']"

section \<open>Records\<close>

record context_source =
  so_source_type :: string
  so_source_ref :: string
  so_trust_level :: string
  so_created_sequence :: int

record context_item =
  ci_item_id :: ident
  ci_run_id :: ident
  ci_layer :: string
  ci_kind :: string
  ci_content :: string
  ci_source :: context_source
  ci_priority :: int
  ci_scope :: "string list"
  ci_estimated_tokens :: int
  ci_valid_from_sequence :: int
  ci_task_id :: "ident option"
  ci_valid_to_sequence :: "int option"
  ci_supersedes_item_id :: "ident option"
  ci_metadata :: pval

text \<open>The window in which an item is effective: from its first sequence up to, without, its last one.\<close>

definition is_active_at :: "int \<Rightarrow> context_item \<Rightarrow> bool" where
  "is_active_at sequence c =
    (if sequence < ci_valid_from_sequence c then False
     else case ci_valid_to_sequence c of None \<Rightarrow> True | Some n \<Rightarrow> \<not> n \<le> sequence)"

record context_budget =
  cb_max_input_tokens :: int
  cb_reserved_output_tokens :: int
  cb_safety_margin_tokens :: int
  cb_max_single_item_tokens :: int
  cb_max_tool_output_tokens :: int

definition usable_input :: "context_budget \<Rightarrow> int" where
  "usable_input b = max 0 (cb_max_input_tokens b - cb_reserved_output_tokens b - cb_safety_margin_tokens b)"

definition budget_error :: "context_budget \<Rightarrow> string option" where
  "budget_error b =
    (if cb_max_input_tokens b \<le> 0 then Some ''max_input_tokens''
     else if cb_reserved_output_tokens b < 0 then Some ''reserved_output_tokens''
     else if cb_safety_margin_tokens b < 0 then Some ''safety_margin_tokens''
     else if cb_safety_margin_tokens b * 10 < cb_max_input_tokens b then Some ''safety_margin_tokens must be >= 10%''
     else if usable_input b \<le> 0 then Some ''usable_input''
     else if cb_max_single_item_tokens b \<le> 0 then Some ''max_single_item_tokens''
     else if cb_max_tool_output_tokens b \<le> 0 then Some ''max_tool_output_tokens''
     else None)"

record session_event =
  se_event_id :: ident
  se_conversation_id :: ident
  se_run_id :: ident
  se_sequence :: int
  se_event_type :: string
  se_payload :: "(pval \<times> pval) list"
  se_created_at :: string
  se_turn_id :: pval
  se_idempotency_key :: pval
  se_payload_ref :: pval
  se_schema_version :: int

record context_snapshot =
  sn_snapshot_id :: ident
  sn_run_id :: ident
  sn_agent_id :: string
  sn_role :: string
  sn_source_item_ids :: "ident list"
  sn_excluded_items :: pval
  sn_rendered_hash :: string
  sn_estimated_tokens :: int
  sn_estimator :: string
  sn_created_sequence :: int
  sn_task_id :: "ident option"
  sn_session_id :: "ident option"
  sn_model_call_id :: "ident option"
  sn_system_prompt_hash :: "string option"
  sn_static_prefix_hash :: "string option"
  sn_selected_memory_ids :: "ident list"
  sn_selected_artifact_locators :: "string list"
  sn_selected_event_ids :: "ident list"
  sn_event_range :: "(string \<times> int) list"
  sn_compaction_summary_ref :: "string option"
  sn_omitted_counts :: "(string \<times> int) list"
  sn_input_tokens :: "int option"
  sn_policy_fingerprint :: string

text \<open>The constructor of a snapshot: the tokens of the input default to the estimate.\<close>

definition make_snapshot :: "context_snapshot \<Rightarrow> string + context_snapshot" where
  "make_snapshot s =
    (if sn_estimated_tokens s < 0 then Inl ''estimated_tokens''
     else let n = (case sn_input_tokens s of None \<Rightarrow> sn_estimated_tokens s | Some n \<Rightarrow> n) in
     if n < 0 then Inl ''input_tokens''
     else if list_ex (\<lambda>kv. snd kv < 0) (sn_omitted_counts s) then Inl ''omitted_counts''
     else if list_ex (\<lambda>kv. snd kv < 0) (sn_event_range s) then Inl ''event_range''
     else Inr (s\<lparr>sn_input_tokens := Some n\<rparr>))"

record checkpoint =
  cp_checkpoint_id :: ident
  cp_run_id :: ident
  cp_last_committed_sequence :: int
  cp_task_state_revision :: int
  cp_budget_state :: pval
  cp_pending_operations :: pval
  cp_file_snapshots :: pval
  cp_state_hash :: string
  cp_schema_version :: int
  cp_created_at :: string
  cp_completed_node_id :: "string option"
  cp_last_action :: "string option"
  cp_next_node_id :: "string option"
  cp_registry_hash :: "string option"

section \<open>Validators\<close>

text \<open>The first violation, by the name of the field.\<close>

definition source_error :: "context_source \<Rightarrow> string option" where
  "source_error s =
    (if so_source_type s \<notin> set source_types then Some ''source_type''
     else if so_trust_level s \<notin> set trust_levels then Some ''trust_level''
     else if so_created_sequence s < 0 then Some ''created_sequence''
     else None)"

definition item_error :: "context_item \<Rightarrow> string option" where
  "item_error c =
    (if ci_layer c \<notin> set context_layers then Some ''layer''
     else if ci_kind c \<notin> set context_kinds then Some ''kind''
     else case source_error (ci_source c) of
       Some e \<Rightarrow> Some e
     | None \<Rightarrow>
       (if ci_valid_from_sequence c < 0 then Some ''valid_from_sequence''
        else if (case ci_valid_to_sequence c of None \<Rightarrow> False | Some n \<Rightarrow> n \<le> ci_valid_from_sequence c)
        then Some ''valid_to_sequence''
        else if ci_estimated_tokens c < 0 then Some ''estimated_tokens''
        else if ci_scope c = [] then Some ''scope''
        else None))"

text \<open>\<open>value == n\<close> for an integer \<open>n\<close>, and a text that is either absent or non-empty.\<close>

definition equals_int :: "pval \<Rightarrow> int \<Rightarrow> bool" where
  "equals_int v n = (case v of PInt k \<Rightarrow> k = n | PBool b \<Rightarrow> of_bool b = n | PFloat r \<Rightarrow> r = of_int n | _ \<Rightarrow> False)"

definition absent_or_text :: "pval \<Rightarrow> bool" where
  "absent_or_text v = (case v of PNone \<Rightarrow> True | PStr s \<Rightarrow> strip s \<noteq> [] | _ \<Rightarrow> False)"

definition event_error :: "session_event \<Rightarrow> string option" where
  "event_error e =
    (if se_sequence e < 0 then Some ''sequence''
     else let v = dict_get (se_payload e) ''schema_version'' in
     if v = PNone then Some ''payload must carry schema_version''
     else if se_event_type e = [] then Some ''event_type''
     else if se_schema_version e < 1 then Some ''schema_version''
     else if \<not> equals_int v (se_schema_version e) then Some ''event and payload schema_version must match''
     else if se_schema_version e \<noteq> 1 then Some ''unsupported''
     else if \<not> absent_or_text (se_turn_id e) then Some ''turn_id''
     else if \<not> absent_or_text (se_idempotency_key e) then Some ''idempotency_key''
     else if \<not> absent_or_text (se_payload_ref e) then Some ''payload_ref''
     else None)"

end
