(* ===== verification/Context_Repo.thy ===== *)
theory Context_Repo
  imports Context_Contracts Interfaces
begin

text \<open>
  \<open>context/repository.py\<close> with the schema of \<open>context/migrations.py\<close>: the SQLite repository of
  conversations, runs, events, messages, task states, context items, snapshots, checkpoints and the
  ledger of side effects. A table is a list of rows in insertion order; a constraint of the schema that
  fails (primary key, unique index, foreign key) is \<open>None\<close>.

  The connection is in autocommit mode and begins its transactions itself, so its state is the committed
  database and, while a transaction is open, what the transaction has made of it. The code rolls back on
  errors of SQLite only: an exception of \<open>json.dumps\<close> between begin and commit leaves the transaction
  open. \<open>J\<close> stands for \<open>json.loads\<close> after \<open>json.dumps\<close>, with \<open>None\<close> where \<open>json.dumps\<close> raises.
\<close>

section \<open>The database\<close>

record context_run =
  cr_run_id :: ident
  cr_conversation_id :: ident
  cr_agent_id :: string
  cr_role :: string
  cr_task_id :: "ident option"
  cr_created_at :: string
  cr_ended_at :: "string option"
  cr_stop_reason :: "string option"
  cr_metadata :: pval

record conversation_message =
  me_message_id :: ident
  me_conversation_id :: ident
  me_run_id :: ident
  me_role :: string
  me_content :: string
  me_sequence :: int
  me_created_at :: string
  me_metadata :: pval

record task_state =
  ts_task_id :: ident
  ts_run_id :: ident
  ts_status :: string
  ts_revision :: nat
  ts_payload :: pval
  ts_updated_at :: string

record ledger_entry =
  le_operation_id :: ident
  le_run_id :: "ident option"
  le_event_type :: string
  le_payload_hash :: string
  le_first_seen_at :: string
  le_last_seen_at :: string
  le_seen_count :: nat

record context_db =
  cx_conversations :: "(ident \<times> string \<times> pval) list"
  cx_runs :: "context_run list"
  cx_events :: "session_event list"
  cx_messages :: "conversation_message list"
  cx_task_states :: "task_state list"
  cx_items :: "context_item list"
  cx_snapshots :: "context_snapshot list"
  cx_checkpoints :: "checkpoint list"
  cx_ledger :: "ledger_entry list"

definition empty_context_db :: context_db where
  "empty_context_db = \<lparr>cx_conversations = [], cx_runs = [], cx_events = [], cx_messages = [], cx_task_states = [],
     cx_items = [], cx_snapshots = [], cx_checkpoints = [], cx_ledger = []\<rparr>"

text \<open>The connection: the committed database, and the one of an open transaction.\<close>

record repo =
  rp_db :: context_db
  rp_open :: "context_db option"

definition open_repo :: "context_db \<Rightarrow> repo" where
  "open_repo d = \<lparr>rp_db = d, rp_open = None\<rparr>"

definition seen :: "repo \<Rightarrow> context_db" where
  "seen r = (case rp_open r of None \<Rightarrow> rp_db r | Some d \<Rightarrow> d)"

definition rolled_back :: "repo \<Rightarrow> repo" where
  "rolled_back r = r\<lparr>rp_open := None\<rparr>"

datatype repo_error = InvalidValue string | IntegrityError | OperationalError | NotSerialisable | SchemaVersionError

type_synonym 'a answer = "(repo_error + 'a) \<times> repo"

section \<open>Statements\<close>

definition has_run :: "ident \<Rightarrow> context_db \<Rightarrow> bool" where
  "has_run i d = (i \<in> cr_run_id ` set (cx_runs d))"

definition insert_or_ignore_conversation :: "ident \<Rightarrow> string \<Rightarrow> pval \<Rightarrow> context_db \<Rightarrow> context_db option" where
  "insert_or_ignore_conversation c now metadata d =
    Some (if c \<in> fst ` set (cx_conversations d) then d
          else d\<lparr>cx_conversations := cx_conversations d @ [(c, now, metadata)]\<rparr>)"

definition insert_run :: "context_run \<Rightarrow> context_db \<Rightarrow> context_db option" where
  "insert_run r d =
    (if has_run (cr_run_id r) d \<or> cr_conversation_id r \<notin> fst ` set (cx_conversations d) then None
     else Some (d\<lparr>cx_runs := cx_runs d @ [r]\<rparr>))"

text \<open>Two events that a constraint forbids together: one id, one sequence of a run, one key of a run.\<close>

definition same_event :: "session_event \<Rightarrow> session_event \<Rightarrow> bool" where
  "same_event e f = (se_event_id e = se_event_id f \<or>
     (se_run_id e = se_run_id f \<and> se_idempotency_key e = se_idempotency_key f \<and> se_idempotency_key f \<noteq> PNone))"

definition insert_event :: "session_event \<Rightarrow> context_db \<Rightarrow> context_db option" where
  "insert_event e d =
    (if list_ex (\<lambda>f. same_event e f \<or> (se_run_id f = se_run_id e \<and> se_sequence f = se_sequence e)) (cx_events d)
        \<or> \<not> has_run (se_run_id e) d then None
     else Some (d\<lparr>cx_events := cx_events d @ [e]\<rparr>))"

definition insert_message :: "conversation_message \<Rightarrow> context_db \<Rightarrow> context_db option" where
  "insert_message m d =
    (if me_message_id m \<in> me_message_id ` set (cx_messages d) \<or>
        (me_conversation_id m, me_sequence m) \<in> (\<lambda>x. (me_conversation_id x, me_sequence x)) ` set (cx_messages d) \<or>
        me_conversation_id m \<notin> fst ` set (cx_conversations d) \<or> \<not> has_run (me_run_id m) d then None
     else Some (d\<lparr>cx_messages := cx_messages d @ [m]\<rparr>))"

definition insert_item :: "context_item \<Rightarrow> context_db \<Rightarrow> context_db option" where
  "insert_item c d =
    (if ci_item_id c \<in> ci_item_id ` set (cx_items d) \<or> \<not> has_run (ci_run_id c) d then None
     else Some (d\<lparr>cx_items := cx_items d @ [c]\<rparr>))"

fun insert_items :: "context_item list \<Rightarrow> context_db \<Rightarrow> context_db option" where
  "insert_items [] d = Some d"
| "insert_items (c # cs) d = (case insert_item c d of None \<Rightarrow> None | Some d' \<Rightarrow> insert_items cs d')"

definition insert_snapshot_row :: "context_snapshot \<Rightarrow> context_db \<Rightarrow> context_db option" where
  "insert_snapshot_row s d =
    (if sn_snapshot_id s \<in> sn_snapshot_id ` set (cx_snapshots d) \<or> \<not> has_run (sn_run_id s) d then None
     else Some (d\<lparr>cx_snapshots := cx_snapshots d @ [s]\<rparr>))"

definition insert_checkpoint_row :: "checkpoint \<Rightarrow> context_db \<Rightarrow> context_db option" where
  "insert_checkpoint_row c d =
    (if cp_checkpoint_id c \<in> cp_checkpoint_id ` set (cx_checkpoints d) \<or> \<not> has_run (cp_run_id c) d then None
     else Some (d\<lparr>cx_checkpoints := cx_checkpoints d @ [c]\<rparr>))"

definition task_row :: "ident \<Rightarrow> context_db \<Rightarrow> task_state option" where
  "task_row t d = find (\<lambda>x. ts_task_id x = t) (cx_task_states d)"

text \<open>The new revision of a task state, and the statement that stores it.\<close>

definition next_revision :: "bool \<Rightarrow> ident \<Rightarrow> context_db \<Rightarrow> nat" where
  "next_revision bump t d =
    (case task_row t d of None \<Rightarrow> 0 | Some x \<Rightarrow> ts_revision x + (if bump then 1 else 0))"

definition upsert_row :: "task_state \<Rightarrow> context_db \<Rightarrow> context_db option" where
  "upsert_row x d =
    (if \<not> has_run (ts_run_id x) d then None
     else if task_row (ts_task_id x) d = None then Some (d\<lparr>cx_task_states := cx_task_states d @ [x]\<rparr>)
     else Some (d\<lparr>cx_task_states := update_where (\<lambda>y. ts_task_id y = ts_task_id x) (\<lambda>_. x) (cx_task_states d)\<rparr>))"

definition insert_ledger :: "ledger_entry \<Rightarrow> context_db \<Rightarrow> context_db option" where
  "insert_ledger l d =
    (if le_operation_id l \<in> le_operation_id ` set (cx_ledger d) then None
     else Some (d\<lparr>cx_ledger := cx_ledger d @ [l]\<rparr>))"

text \<open>One statement in a transaction of its own. A begin inside an open transaction fails and rolls it back.\<close>

definition exec_txn :: "(context_db \<Rightarrow> context_db option) \<Rightarrow> repo \<Rightarrow> unit answer" where
  "exec_txn f r =
    (if rp_open r \<noteq> None then (Inl OperationalError, rolled_back r)
     else case f (rp_db r) of
       None \<Rightarrow> (Inl IntegrityError, r)
     | Some d \<Rightarrow> (Inr (), r\<lparr>rp_db := d\<rparr>))"

text \<open>A statement outside of any transaction of the code: it joins an open one, or commits at once.\<close>

definition exec_plain :: "(context_db \<Rightarrow> context_db option) \<Rightarrow> repo \<Rightarrow> unit answer" where
  "exec_plain f r =
    (case f (seen r) of
       None \<Rightarrow> (Inl IntegrityError, r)
     | Some d \<Rightarrow> (Inr (), case rp_open r of None \<Rightarrow> r\<lparr>rp_db := d\<rparr> | Some _ \<Rightarrow> r\<lparr>rp_open := Some d\<rparr>))"

definition bind_answer :: "'a answer \<Rightarrow> ('a \<Rightarrow> repo \<Rightarrow> 'b answer) \<Rightarrow> 'b answer" where
  "bind_answer a k = (case fst a of Inl e \<Rightarrow> (Inl e, snd a) | Inr x \<Rightarrow> k x (snd a))"

section \<open>Conversations and runs\<close>

definition metadata_or_empty :: "pval option \<Rightarrow> pval" where
  "metadata_or_empty m = (case m of None \<Rightarrow> PDict [] | Some PNone \<Rightarrow> PDict [] | Some v \<Rightarrow> v)"

definition create_conversation :: "(pval \<Rightarrow> pval option) \<Rightarrow> ident \<Rightarrow> pval option \<Rightarrow> string \<Rightarrow> repo \<Rightarrow> unit answer" where
  "create_conversation J c metadata now r =
    (case J (metadata_or_empty metadata) of
       None \<Rightarrow> (Inl NotSerialisable, r)
     | Some v \<Rightarrow> exec_txn (insert_or_ignore_conversation c now v) r)"

definition start_run ::
  "(pval \<Rightarrow> pval option) \<Rightarrow> ident \<Rightarrow> ident \<Rightarrow> string \<Rightarrow> string \<Rightarrow> ident option \<Rightarrow> pval option \<Rightarrow> string \<Rightarrow> repo \<Rightarrow> unit answer" where
  "start_run J run_id c agent role task metadata now r =
    bind_answer (exec_txn (insert_or_ignore_conversation c now (PDict [])) r) (\<lambda>_ r1.
      case J (metadata_or_empty metadata) of
        None \<Rightarrow> (Inl NotSerialisable, r1)
      | Some v \<Rightarrow> exec_txn (insert_run \<lparr>cr_run_id = run_id, cr_conversation_id = c, cr_agent_id = agent, cr_role = role,
          cr_task_id = task, cr_created_at = now, cr_ended_at = None, cr_stop_reason = None, cr_metadata = v\<rparr>) r1)"

definition end_run :: "ident \<Rightarrow> string option \<Rightarrow> string \<Rightarrow> repo \<Rightarrow> unit answer" where
  "end_run run_id reason now r =
    exec_txn (\<lambda>d. Some (d\<lparr>cx_runs := update_where (\<lambda>x. cr_run_id x = run_id)
      (\<lambda>x. x\<lparr>cr_ended_at := Some now, cr_stop_reason := reason\<rparr>) (cx_runs d)\<rparr>)) r"

text \<open>\<open>bool(run["ended_at"])\<close>.\<close>

definition run_ended :: "context_run \<Rightarrow> bool" where
  "run_ended x = (case cr_ended_at x of None \<Rightarrow> False | Some t \<Rightarrow> t \<noteq> [])"

definition get_context_run :: "ident \<Rightarrow> repo \<Rightarrow> context_run option" where
  "get_context_run run_id r = find (\<lambda>x. cr_run_id x = run_id) (cx_runs (seen r))"

text \<open>\<open>ORDER BY created_at DESC, run_id DESC LIMIT 1\<close>.\<close>

definition latest_run_for_conversation :: "ident \<Rightarrow> repo \<Rightarrow> context_run option" where
  "latest_run_for_conversation c r =
    (case rev (sort_key (\<lambda>x. (cr_created_at x, cr_run_id x)) (filter (\<lambda>x. cr_conversation_id x = c) (cx_runs (seen r)))) of
       [] \<Rightarrow> None
     | x # _ \<Rightarrow> get_context_run (cr_run_id x) r)"

section \<open>Events\<close>

definition last_sequence :: "ident \<Rightarrow> context_db \<Rightarrow> int" where
  "last_sequence run_id d =
    (let ns = map se_sequence (filter (\<lambda>e. se_run_id e = run_id) (cx_events d)) in
     if ns = [] then 0 else Max (set ns))"

definition last_committed_sequence :: "ident \<Rightarrow> repo \<Rightarrow> int" where
  "last_committed_sequence run_id r = last_sequence run_id (seen r)"

definition next_sequence :: "ident \<Rightarrow> repo \<Rightarrow> int" where
  "next_sequence run_id r = last_sequence run_id (seen r) + 1"

text \<open>
  The row with the id or the key of an event. When one row has the id and another the key, which of them
  SQLite returns first is not specified; the model takes the older one.
\<close>

definition existing_event :: "session_event \<Rightarrow> context_db \<Rightarrow> session_event option" where
  "existing_event e d = find (same_event e) (cx_events d)"

definition with_payload :: "session_event \<Rightarrow> pval \<Rightarrow> session_event" where
  "with_payload e v = e\<lparr>se_payload := (case v of PDict kvs \<Rightarrow> kvs | _ \<Rightarrow> [])\<rparr>"

definition append_session_event :: "(pval \<Rightarrow> pval option) \<Rightarrow> session_event \<Rightarrow> repo \<Rightarrow> bool answer" where
  "append_session_event J e r =
    (case event_error e of
       Some x \<Rightarrow> (Inl (InvalidValue x), r)
     | None \<Rightarrow>
       (if existing_event e (seen r) \<noteq> None then (Inr False, r)
        else case J (PDict (se_payload e)) of
          None \<Rightarrow> (Inl NotSerialisable, r)
        | Some v \<Rightarrow> bind_answer (exec_txn (insert_event (with_payload e v)) r) (\<lambda>_ r'. (Inr True, r'))))"

text \<open>
  \<open>int(payload.get("schema_version", 0))\<close>. A text would parse, but never equal the integer it parses to,
  so for a text either the parser or the validator raises.
\<close>

definition payload_version :: "(pval \<times> pval) list \<Rightarrow> repo_error + int" where
  "payload_version kvs = (case map_of kvs (PStr ''schema_version'') of
       None \<Rightarrow> Inr 0
     | Some (PInt n) \<Rightarrow> Inr n
     | Some (PBool b) \<Rightarrow> Inr (of_bool b)
     | Some (PFloat q) \<Rightarrow> Inr (if q < 0 then - \<lfloor>- q\<rfloor> else \<lfloor>q\<rfloor>)
     | Some _ \<Rightarrow> Inl SchemaVersionError)"

text \<open>
  The sequence is read and the event inserted in one transaction. The payload is serialised after the
  begin, so that its exception leaves the transaction open.
\<close>

definition append_auto :: "(pval \<Rightarrow> pval option) \<Rightarrow> session_event \<Rightarrow> repo \<Rightarrow> (bool \<times> int) answer" where
  "append_auto J e r =
    (case payload_version (se_payload e) of
       Inl x \<Rightarrow> (Inl x, r)
     | Inr version \<Rightarrow>
       (let e0 = e\<lparr>se_sequence := 0, se_schema_version := version\<rparr> in
        case event_error e0 of
          Some x \<Rightarrow> (Inl (InvalidValue x), r)
        | None \<Rightarrow>
          (if rp_open r \<noteq> None then (Inl OperationalError, rolled_back r)
           else case existing_event e0 (rp_db r) of
             Some f \<Rightarrow> (Inr (False, se_sequence f), r)
           | None \<Rightarrow>
             (let n = last_sequence (se_run_id e) (rp_db r) + 1 in
              case J (PDict (se_payload e)) of
                None \<Rightarrow> (Inl NotSerialisable, r\<lparr>rp_open := Some (rp_db r)\<rparr>)
              | Some v \<Rightarrow> (case insert_event (with_payload (e0\<lparr>se_sequence := n\<rparr>) v) (rp_db r) of
                    None \<Rightarrow> (Inl IntegrityError, r)
                  | Some d \<Rightarrow> (Inr (True, n), r\<lparr>rp_db := d\<rparr>))))))"

definition list_session_events :: "ident \<Rightarrow> int \<Rightarrow> repo \<Rightarrow> session_event list" where
  "list_session_events run_id since r =
    sort_key se_sequence (filter (\<lambda>e. se_run_id e = run_id \<and> since < se_sequence e) (cx_events (seen r)))"

section \<open>Messages\<close>

definition store_message ::
  "(pval \<Rightarrow> pval option) \<Rightarrow> conversation_message \<Rightarrow> pval option \<Rightarrow> repo \<Rightarrow> unit answer" where
  "store_message J m metadata r =
    (case J (metadata_or_empty metadata) of
       None \<Rightarrow> (Inl NotSerialisable, r)
     | Some v \<Rightarrow> exec_txn (insert_message (m\<lparr>me_metadata := v\<rparr>)) r)"

definition last_message_sequence :: "ident \<Rightarrow> context_db \<Rightarrow> int" where
  "last_message_sequence c d =
    (let ns = map me_sequence (filter (\<lambda>m. me_conversation_id m = c) (cx_messages d)) in
     if ns = [] then 0 else Max (set ns))"

definition append_message_auto ::
  "(pval \<Rightarrow> pval option) \<Rightarrow> conversation_message \<Rightarrow> pval option \<Rightarrow> repo \<Rightarrow> (ident \<times> int) answer" where
  "append_message_auto J m metadata r =
    (let n = last_message_sequence (me_conversation_id m) (seen r) + 1 in
     bind_answer (store_message J (m\<lparr>me_sequence := n\<rparr>) metadata r) (\<lambda>_ r'. (Inr (me_message_id m, n), r')))"

definition list_messages :: "ident \<Rightarrow> repo \<Rightarrow> conversation_message list" where
  "list_messages c r = sort_key me_sequence (filter (\<lambda>m. me_conversation_id m = c) (cx_messages (seen r)))"

section \<open>Task states\<close>

text \<open>The locked part of the upsert, on the database the statements see.\<close>

definition upsert_statement ::
  "(pval \<Rightarrow> pval option) \<Rightarrow> ident \<Rightarrow> ident \<Rightarrow> string \<Rightarrow> pval \<Rightarrow> bool \<Rightarrow> string \<Rightarrow> context_db \<Rightarrow>
     repo_error + (nat \<times> context_db)" where
  "upsert_statement J task run_id status payload bump now d =
    (case J payload of
       None \<Rightarrow> Inl NotSerialisable
     | Some v \<Rightarrow>
       (let n = next_revision bump task d in
        case upsert_row \<lparr>ts_task_id = task, ts_run_id = run_id, ts_status = status, ts_revision = n,
            ts_payload = v, ts_updated_at = now\<rparr> d of
          None \<Rightarrow> Inl IntegrityError
        | Some d' \<Rightarrow> Inr (n, d')))"

definition upsert_task_state ::
  "(pval \<Rightarrow> pval option) \<Rightarrow> ident \<Rightarrow> ident \<Rightarrow> string \<Rightarrow> pval \<Rightarrow> bool \<Rightarrow> string \<Rightarrow> repo \<Rightarrow> nat answer" where
  "upsert_task_state J task run_id status payload bump now r =
    (case upsert_statement J task run_id status payload bump now (seen r) of
       Inl x \<Rightarrow> (Inl x, r)
     | Inr (n, d) \<Rightarrow> bind_answer (exec_plain (\<lambda>_. Some d) r) (\<lambda>_ r'. (Inr n, r')))"

definition get_task_state :: "ident \<Rightarrow> repo \<Rightarrow> task_state option" where
  "get_task_state task r = task_row task (seen r)"

definition list_task_states :: "ident \<Rightarrow> repo \<Rightarrow> task_state list" where
  "list_task_states run_id r = sort_key ts_revision (filter (\<lambda>x. ts_run_id x = run_id) (cx_task_states (seen r)))"

section \<open>Context items\<close>

text \<open>The row of an item: its metadata is the only part whose encoding can raise.\<close>

definition item_row :: "(pval \<Rightarrow> pval option) \<Rightarrow> context_item \<Rightarrow> context_item option" where
  "item_row J c = map_option (\<lambda>v. c\<lparr>ci_metadata := v\<rparr>) (J (ci_metadata c))"

fun item_rows :: "(pval \<Rightarrow> pval option) \<Rightarrow> context_item list \<Rightarrow> context_item list option" where
  "item_rows J [] = Some []"
| "item_rows J (c # cs) = (case item_row J c of
       None \<Rightarrow> None
     | Some x \<Rightarrow> (case item_rows J cs of None \<Rightarrow> None | Some xs \<Rightarrow> Some (x # xs)))"

fun items_error :: "context_item list \<Rightarrow> string option" where
  "items_error [] = None"
| "items_error (c # cs) = (case item_error c of Some e \<Rightarrow> Some e | None \<Rightarrow> items_error cs)"

definition insert_context_item :: "(pval \<Rightarrow> pval option) \<Rightarrow> context_item \<Rightarrow> repo \<Rightarrow> unit answer" where
  "insert_context_item J c r =
    (case item_error c of
       Some e \<Rightarrow> (Inl (InvalidValue e), r)
     | None \<Rightarrow> (case item_row J c of None \<Rightarrow> (Inl NotSerialisable, r) | Some x \<Rightarrow> exec_txn (insert_item x) r))"

definition insert_context_items :: "(pval \<Rightarrow> pval option) \<Rightarrow> context_item list \<Rightarrow> repo \<Rightarrow> nat answer" where
  "insert_context_items J cs r =
    (case items_error cs of
       Some e \<Rightarrow> (Inl (InvalidValue e), r)
     | None \<Rightarrow> (case item_rows J cs of
         None \<Rightarrow> (Inl NotSerialisable, r)
       | Some xs \<Rightarrow> bind_answer (exec_txn (insert_items xs) r) (\<lambda>_ r'. (Inr (length cs), r'))))"

definition get_context_item :: "ident \<Rightarrow> repo \<Rightarrow> context_item option" where
  "get_context_item i r = find (\<lambda>c. ci_item_id c = i) (cx_items (seen r))"

text \<open>\<open>ORDER BY valid_from_sequence ASC, priority DESC\<close>; SQLite leaves the order of equal keys open.\<close>

definition list_context_items ::
  "ident \<Rightarrow> int option \<Rightarrow> string option \<Rightarrow> ident option \<Rightarrow> repo \<Rightarrow> context_item list" where
  "list_context_items run_id at_sequence layer task r =
    sort_key (\<lambda>c. (ci_valid_from_sequence c, - ci_priority c))
      (filter (\<lambda>c. ci_run_id c = run_id \<and>
         (case at_sequence of None \<Rightarrow> True | Some n \<Rightarrow> ci_valid_from_sequence c \<le> n \<and>
            (case ci_valid_to_sequence c of None \<Rightarrow> True | Some m \<Rightarrow> n < m)) \<and>
         (case layer of None \<Rightarrow> True | Some l \<Rightarrow> ci_layer c = l) \<and>
         (case task of None \<Rightarrow> True | Some t \<Rightarrow> ci_task_id c = Some t \<or> ci_task_id c = None)) (cx_items (seen r)))"

section \<open>Snapshots and checkpoints\<close>

text \<open>The row of a snapshot: the two counters are written with sorted keys.\<close>

definition snapshot_row :: "(pval \<Rightarrow> pval option) \<Rightarrow> context_snapshot \<Rightarrow> context_snapshot option" where
  "snapshot_row J s = map_option (\<lambda>v. s\<lparr>sn_excluded_items := v, sn_event_range := sort_key fst (sn_event_range s),
     sn_omitted_counts := sort_key fst (sn_omitted_counts s)\<rparr>) (J (sn_excluded_items s))"

definition insert_snapshot :: "(pval \<Rightarrow> pval option) \<Rightarrow> context_snapshot \<Rightarrow> repo \<Rightarrow> unit answer" where
  "insert_snapshot J s r =
    (case snapshot_row J s of None \<Rightarrow> (Inl NotSerialisable, r) | Some x \<Rightarrow> exec_txn (insert_snapshot_row x) r)"

definition list_snapshots :: "ident \<Rightarrow> repo \<Rightarrow> context_snapshot list" where
  "list_snapshots run_id r = sort_key sn_created_sequence (filter (\<lambda>s. sn_run_id s = run_id) (cx_snapshots (seen r)))"

definition get_snapshot :: "ident \<Rightarrow> repo \<Rightarrow> context_snapshot option" where
  "get_snapshot i r = find (\<lambda>s. sn_snapshot_id s = i) (cx_snapshots (seen r))"

definition checkpoint_row :: "(pval \<Rightarrow> pval option) \<Rightarrow> checkpoint \<Rightarrow> checkpoint option" where
  "checkpoint_row J c = (case J (cp_budget_state c) of
       None \<Rightarrow> None
     | Some b \<Rightarrow> (case J (cp_pending_operations c) of
         None \<Rightarrow> None
       | Some p \<Rightarrow> (case J (cp_file_snapshots c) of
           None \<Rightarrow> None
         | Some f \<Rightarrow> Some (c\<lparr>cp_budget_state := b, cp_pending_operations := p, cp_file_snapshots := f\<rparr>))))"

definition insert_checkpoint :: "(pval \<Rightarrow> pval option) \<Rightarrow> checkpoint \<Rightarrow> repo \<Rightarrow> unit answer" where
  "insert_checkpoint J c r =
    (case checkpoint_row J c of None \<Rightarrow> (Inl NotSerialisable, r) | Some x \<Rightarrow> exec_txn (insert_checkpoint_row x) r)"

text \<open>\<open>ORDER BY last_committed_sequence DESC LIMIT 1\<close>; of equal sequences the model takes the oldest row.\<close>

fun best_checkpoint :: "checkpoint list \<Rightarrow> checkpoint option" where
  "best_checkpoint [] = None"
| "best_checkpoint (c # cs) = (case best_checkpoint cs of
       None \<Rightarrow> Some c
     | Some b \<Rightarrow> if cp_last_committed_sequence b \<le> cp_last_committed_sequence c then Some c else Some b)"

definition latest_checkpoint :: "ident \<Rightarrow> repo \<Rightarrow> checkpoint option" where
  "latest_checkpoint run_id r = best_checkpoint (filter (\<lambda>c. cp_run_id c = run_id) (cx_checkpoints (seen r)))"

section \<open>The ledger of side effects\<close>

definition record_operation ::
  "ident \<Rightarrow> string \<Rightarrow> string \<Rightarrow> ident option \<Rightarrow> string \<Rightarrow> repo \<Rightarrow> bool answer" where
  "record_operation op event_type payload_hash run_id now r =
    (case find (\<lambda>l. le_operation_id l = op) (cx_ledger (seen r)) of
       None \<Rightarrow> bind_answer (exec_txn (insert_ledger \<lparr>le_operation_id = op, le_run_id = run_id, le_event_type = event_type,
           le_payload_hash = payload_hash, le_first_seen_at = now, le_last_seen_at = now, le_seen_count = 1\<rparr>) r)
         (\<lambda>_ r'. (Inr True, r'))
     | Some l \<Rightarrow> bind_answer (exec_txn (\<lambda>d. Some (d\<lparr>cx_ledger :=
           update_where (\<lambda>x. le_operation_id x = op)
             (\<lambda>x. x\<lparr>le_last_seen_at := now, le_seen_count := Suc (le_seen_count l)\<rparr>) (cx_ledger d)\<rparr>)) r)
         (\<lambda>_ r'. (Inr False, r')))"

section \<open>The composite commit\<close>

record runtime_step =
  st_run_id :: ident
  st_event :: session_event
  st_updates :: "(ident \<times> string \<times> pval) list"
  st_items :: "context_item list"
  st_snapshot :: "context_snapshot option"
  st_checkpoint :: "checkpoint option"

text \<open>
  The statements between begin and commit, on the database of the transaction. An error says whether it is
  one of SQLite, and carries what the transaction had done by then.
\<close>

type_synonym progress = "(repo_error \<times> context_db) + context_db"

definition statement :: "context_db option \<Rightarrow> context_db \<Rightarrow> progress" where
  "statement res d = (case res of None \<Rightarrow> Inl (IntegrityError, d) | Some d' \<Rightarrow> Inr d')"

definition then_do :: "progress \<Rightarrow> (context_db \<Rightarrow> progress) \<Rightarrow> progress" where
  "then_do p k = (case p of Inl x \<Rightarrow> Inl x | Inr d \<Rightarrow> k d)"

definition step_event :: "(pval \<Rightarrow> pval option) \<Rightarrow> session_event \<Rightarrow> context_db \<Rightarrow> progress" where
  "step_event J e d = (case J (PDict (se_payload e)) of
       None \<Rightarrow> Inl (NotSerialisable, d)
     | Some v \<Rightarrow> statement (insert_event (with_payload e v) d) d)"

fun step_updates ::
  "(pval \<Rightarrow> pval option) \<Rightarrow> ident \<Rightarrow> string \<Rightarrow> (ident \<times> string \<times> pval) list \<Rightarrow> context_db \<Rightarrow> progress" where
  "step_updates J run_id now [] d = Inr d"
| "step_updates J run_id now ((task, status, payload) # us) d =
    (case upsert_statement J task run_id status payload True now d of
       Inl x \<Rightarrow> Inl (x, d)
     | Inr (_, d') \<Rightarrow> step_updates J run_id now us d')"

definition step_items :: "(pval \<Rightarrow> pval option) \<Rightarrow> context_item list \<Rightarrow> context_db \<Rightarrow> progress" where
  "step_items J cs d =
    (if cs = [] then Inr d
     else case item_rows J cs of
       None \<Rightarrow> Inl (NotSerialisable, d)
     | Some xs \<Rightarrow> statement (insert_items xs d) d)"

definition step_snapshot :: "(pval \<Rightarrow> pval option) \<Rightarrow> context_snapshot option \<Rightarrow> context_db \<Rightarrow> progress" where
  "step_snapshot J s d = (case s of
       None \<Rightarrow> Inr d
     | Some x \<Rightarrow> (case snapshot_row J x of
         None \<Rightarrow> Inl (NotSerialisable, d)
       | Some y \<Rightarrow> statement (insert_snapshot_row y d) d))"

definition step_checkpoint :: "(pval \<Rightarrow> pval option) \<Rightarrow> checkpoint option \<Rightarrow> context_db \<Rightarrow> progress" where
  "step_checkpoint J c d = (case c of
       None \<Rightarrow> Inr d
     | Some x \<Rightarrow> (case checkpoint_row J x of
         None \<Rightarrow> Inl (NotSerialisable, d)
       | Some y \<Rightarrow> statement (insert_checkpoint_row y d) d))"

definition step_body :: "(pval \<Rightarrow> pval option) \<Rightarrow> runtime_step \<Rightarrow> string \<Rightarrow> context_db \<Rightarrow> progress" where
  "step_body J s now d =
    then_do (step_event J (st_event s) d) (\<lambda>d1.
    then_do (step_updates J (st_run_id s) now (st_updates s) d1) (\<lambda>d2.
    then_do (step_items J (st_items s) d2) (\<lambda>d3.
    then_do (step_snapshot J (st_snapshot s) d3) (\<lambda>d4.
    step_checkpoint J (st_checkpoint s) d4))))"

definition commit_runtime_step ::
  "(pval \<Rightarrow> pval option) \<Rightarrow> runtime_step \<Rightarrow> string \<Rightarrow> repo \<Rightarrow> bool answer" where
  "commit_runtime_step J s now r =
    (case event_error (st_event s) of
       Some x \<Rightarrow> (Inl (InvalidValue x), r)
     | None \<Rightarrow> (case items_error (st_items s) of
         Some x \<Rightarrow> (Inl (InvalidValue x), r)
       | None \<Rightarrow>
         (if existing_event (st_event s) (seen r) \<noteq> None then (Inr False, r)
          else if rp_open r \<noteq> None then (Inl OperationalError, rolled_back r)
          else case step_body J s now (rp_db r) of
            Inr d \<Rightarrow> (Inr True, r\<lparr>rp_db := d\<rparr>)
          | Inl (NotSerialisable, d) \<Rightarrow> (Inl NotSerialisable, r\<lparr>rp_open := Some d\<rparr>)
          | Inl (x, _) \<Rightarrow> (Inl x, r))))"

section \<open>Executions\<close>

text \<open>Any sequence of calls on one connection, with any arguments and results; the clock never gives the empty text.\<close>

inductive repo_step :: "(pval \<Rightarrow> pval option) \<Rightarrow> repo \<Rightarrow> repo \<Rightarrow> bool" for J :: "pval \<Rightarrow> pval option" where
  conversation: "repo_step J r (snd (create_conversation J c metadata now r))"
| run: "repo_step J r (snd (start_run J run_id c agent role task metadata now r))"
| finish: "now \<noteq> [] \<Longrightarrow> repo_step J r (snd (end_run run_id reason now r))"
| event: "repo_step J r (snd (append_session_event J e r))"
| auto_event: "repo_step J r (snd (append_auto J e r))"
| message: "repo_step J r (snd (store_message J m metadata r))"
| auto_message: "repo_step J r (snd (append_message_auto J m metadata r))"
| task: "repo_step J r (snd (upsert_task_state J t run_id status payload bump now r))"
| item: "repo_step J r (snd (insert_context_item J c r))"
| items: "repo_step J r (snd (insert_context_items J cs r))"
| snapshot: "repo_step J r (snd (insert_snapshot J s r))"
| checkpoint: "repo_step J r (snd (insert_checkpoint J cp r))"
| operation: "repo_step J r (snd (record_operation op kind hash run now r))"
| commit: "repo_step J r (snd (commit_runtime_step J st now r))"

end
