(* ===== verification/Session_Service.thy ===== *)
theory Session_Service
  imports Context_Repo
begin

text \<open>
  \<open>context/session.py\<close>: the sinks that turn what the runtime reports into stored events, and the session
  service that owns a run: opening, emitting, reading back what happened, deciding whether a run that
  stopped can go on by itself, and closing. The repository is the state that is passed along; a session
  object is its identifiers, its sink and the flag of \<open>close\<close>.

  \<open>fresh\<close> is the id a call of \<open>uuid4\<close> gives and \<open>str_of\<close> the text of a value that is not a text. An event id
  inside a payload is a text. The pinned memory of a session is outside of the model.
\<close>

section \<open>Sinks\<close>

datatype event_sink = Null_Sink | Sqlite_Sink ident ident string

text \<open>The arguments of \<open>emit\<close>.\<close>

record emission =
  em_event_type :: string
  em_payload :: "(pval \<times> pval) list"
  em_agent_id :: string
  em_task_id :: "string option"
  em_event_id :: "string option"
  em_idempotency_key :: "string option"
  em_turn_id :: "string option"
  em_payload_ref :: "string option"

definition emission_of :: "string \<Rightarrow> (pval \<times> pval) list \<Rightarrow> string option \<Rightarrow> emission" where
  "emission_of kind payload key = \<lparr>em_event_type = kind, em_payload = payload, em_agent_id = [], em_task_id = None,
     em_event_id = None, em_idempotency_key = key, em_turn_id = None, em_payload_ref = None\<rparr>"

text \<open>\<open>d.setdefault(key, value)\<close>, and \<open>given or d.pop(key, None)\<close>.\<close>

definition dict_setdefault :: "string \<Rightarrow> pval \<Rightarrow> (pval \<times> pval) list \<Rightarrow> (pval \<times> pval) list" where
  "dict_setdefault k v kvs = (if PStr k \<in> fst ` set kvs then kvs else kvs @ [(PStr k, v)])"

definition given_or_pop :: "string option \<Rightarrow> string \<Rightarrow> (pval \<times> pval) list \<Rightarrow> pval \<times> (pval \<times> pval) list" where
  "given_or_pop given k kvs =
    (case given of
       Some (c # cs) \<Rightarrow> (PStr (c # cs), kvs)
     | _ \<Rightarrow> (dict_get kvs k, filter (\<lambda>kv. fst kv \<noteq> PStr k) kvs))"

definition sink_payload :: "string \<Rightarrow> emission \<Rightarrow> (pval \<times> pval) list" where
  "sink_payload agent em =
    (let p1 = dict_setdefault ''schema_version'' (PInt 1) (em_payload em);
         p2 = (case em_task_id em of None \<Rightarrow> p1 | Some t \<Rightarrow> dict_setdefault ''task_id'' (PStr t) p1) in
     if em_agent_id em \<noteq> [] then dict_setdefault ''agent_id'' (PStr (em_agent_id em)) p2
     else if agent \<noteq> [] then dict_setdefault ''agent_id'' (PStr agent) p2
     else p2)"

definition event_id_text :: "ident \<Rightarrow> pval \<Rightarrow> ident" where
  "event_id_text fresh v = (if truthy v then pstr v else fresh)"

text \<open>The event a sink stores; its sequence and schema version are for the repository to set.\<close>

definition sink_event :: "ident \<Rightarrow> string \<Rightarrow> ident \<Rightarrow> ident \<Rightarrow> string \<Rightarrow> emission \<Rightarrow> session_event" where
  "sink_event fresh now c run agent em =
    (let (i, p1) = given_or_pop (em_event_id em) ''event_id'' (sink_payload agent em);
         (key, p2) = given_or_pop (em_idempotency_key em) ''idempotency_key'' p1;
         (turn, p3) = given_or_pop (em_turn_id em) ''turn_id'' p2;
         (ref, p4) = given_or_pop (em_payload_ref em) ''payload_ref'' p3 in
     \<lparr>se_event_id = event_id_text fresh i, se_conversation_id = c, se_run_id = run, se_sequence = 0,
      se_event_type = em_event_type em, se_payload = p4, se_created_at = now, se_turn_id = turn,
      se_idempotency_key = key, se_payload_ref = ref, se_schema_version = 0\<rparr>)"

definition sink_emit ::
  "(pval \<Rightarrow> pval option) \<Rightarrow> ident \<Rightarrow> string \<Rightarrow> event_sink \<Rightarrow> emission \<Rightarrow> repo \<Rightarrow> int answer" where
  "sink_emit J fresh now sink em r =
    (case sink of
       Null_Sink \<Rightarrow> (Inr 0, r)
     | Sqlite_Sink c run agent \<Rightarrow>
         bind_answer (append_auto J (sink_event fresh now c run agent em) r) (\<lambda>x r'. (Inr (snd x), r')))"

section \<open>Sessions\<close>

record session =
  ss_conversation_id :: ident
  ss_run_id :: ident
  ss_agent_id :: string
  ss_sink :: event_sink
  ss_closed :: bool

datatype session_error = RepoFailed repo_error | SessionClosed string | RunMissing ident | PermissionModeInvalid

type_synonym 'a session_answer = "(session_error + 'a) \<times> repo"

definition from_repo :: "'a answer \<Rightarrow> 'a session_answer" where
  "from_repo a = (map_sum RepoFailed id (fst a), snd a)"

definition bind_session :: "'a session_answer \<Rightarrow> ('a \<Rightarrow> repo \<Rightarrow> 'b session_answer) \<Rightarrow> 'b session_answer" where
  "bind_session a k = (case fst a of Inl e \<Rightarrow> (Inl e, snd a) | Inr x \<Rightarrow> k x (snd a))"

definition make_session :: "ident \<Rightarrow> ident \<Rightarrow> string \<Rightarrow> event_sink option \<Rightarrow> session" where
  "make_session c run agent sink =
    \<lparr>ss_conversation_id = c, ss_run_id = run, ss_agent_id = agent,
     ss_sink = (case sink of None \<Rightarrow> Sqlite_Sink c run agent | Some s \<Rightarrow> s), ss_closed = False\<rparr>"

text \<open>\<open>open\<close>, with \<open>run\<close> the generated id; \<open>reopen\<close> reads nothing.\<close>

definition session_open ::
  "(pval \<Rightarrow> pval option) \<Rightarrow> ident \<Rightarrow> string \<Rightarrow> ident \<Rightarrow> string \<Rightarrow> pval option \<Rightarrow> event_sink option \<Rightarrow> repo \<Rightarrow>
     session session_answer" where
  "session_open J run now c agent metadata sink r =
    from_repo (bind_answer (create_conversation J c None now r) (\<lambda>_ r1.
      bind_answer (start_run J run c agent agent None metadata now r1) (\<lambda>_ r2.
        (Inr (make_session c run agent sink), r2))))"

definition session_reopen :: "ident \<Rightarrow> ident \<Rightarrow> string \<Rightarrow> event_sink option \<Rightarrow> session" where
  "session_reopen c run agent sink = make_session c run agent sink"

definition session_emit ::
  "(pval \<Rightarrow> pval option) \<Rightarrow> ident \<Rightarrow> string \<Rightarrow> session \<Rightarrow> emission \<Rightarrow> repo \<Rightarrow> int session_answer" where
  "session_emit J fresh now s em r =
    (if ss_closed s then (Inl (SessionClosed (em_event_type em)), r)
     else from_repo (sink_emit J fresh now (ss_sink s)
       (em\<lparr>em_agent_id := (if em_agent_id em = [] then ss_agent_id s else em_agent_id em)\<rparr>) r))"

definition session_event_sink :: "session \<Rightarrow> string option \<Rightarrow> event_sink" where
  "session_event_sink s agent =
    (case agent of
       None \<Rightarrow> ss_sink s
     | Some a \<Rightarrow> if a = ss_agent_id s then ss_sink s else Sqlite_Sink (ss_conversation_id s) (ss_run_id s) a)"

definition update_task_state ::
  "(pval \<Rightarrow> pval option) \<Rightarrow> session \<Rightarrow> ident \<Rightarrow> string \<Rightarrow> pval \<Rightarrow> bool \<Rightarrow> string \<Rightarrow> repo \<Rightarrow> nat session_answer" where
  "update_task_state J s task status payload bump now r =
    from_repo (upsert_task_state J task (ss_run_id s) status payload bump now r)"

definition record_side_effect :: "session \<Rightarrow> ident \<Rightarrow> string \<Rightarrow> string \<Rightarrow> string \<Rightarrow> repo \<Rightarrow> bool session_answer" where
  "record_side_effect s op event_type payload_hash now r =
    from_repo (record_operation op event_type payload_hash (Some (ss_run_id s)) now r)"

text \<open>The message id is the given one, or a fresh one.\<close>

definition append_message ::
  "(pval \<Rightarrow> pval option) \<Rightarrow> ident \<Rightarrow> string \<Rightarrow> session \<Rightarrow> string \<Rightarrow> string \<Rightarrow> ident option \<Rightarrow> pval option \<Rightarrow> repo \<Rightarrow>
     ident session_answer" where
  "append_message J fresh now s role content message_id metadata r =
    (let mid = (case message_id of Some (c # cs) \<Rightarrow> c # cs | _ \<Rightarrow> fresh);
         m = \<lparr>me_message_id = mid, me_conversation_id = ss_conversation_id s, me_run_id = ss_run_id s, me_role = role,
              me_content = content, me_sequence = 0, me_created_at = now, me_metadata = PDict []\<rparr> in
     from_repo (bind_answer (append_message_auto J m metadata r) (\<lambda>_ r'. (Inr mid, r'))))"

section \<open>What happened in a run\<close>

definition completed_types :: "string list" where
  "completed_types = [''model.completed'', ''model.failed'', ''tool.completed'', ''tool.failed'', ''tool.cancelled'',
     ''permission.denied'', ''node.completed'']"

definition resolving_types :: "string list" where
  "resolving_types = [''tool.completed'', ''tool.failed'', ''permission.denied'']"

definition final_types :: "string list" where
  "final_types = [''flow.stopped'', ''run.completed'', ''run.failed'', ''run.cancelled'']"

text \<open>The call id of a payload: the first of two keys that holds a text which is not blank.\<close>

definition nonblank_text :: "pval \<Rightarrow> string option" where
  "nonblank_text v = (case v of PStr s \<Rightarrow> if strip s \<noteq> [] then Some (strip s) else None | _ \<Rightarrow> None)"

definition payload_call_id :: "(pval \<times> pval) list \<Rightarrow> string option" where
  "payload_call_id kvs =
    (case nonblank_text (dict_get kvs ''call_id'') of
       Some i \<Rightarrow> Some i
     | None \<Rightarrow> nonblank_text (dict_get kvs ''tool_call_id''))"

definition tool_event_identity :: "(pval \<Rightarrow> string) \<Rightarrow> session_event \<Rightarrow> string" where
  "tool_event_identity str_of e =
    (case payload_call_id (se_payload e) of
       Some i \<Rightarrow> ''id:'' @ i
     | None \<Rightarrow>
       (case (dict_get (se_payload e) ''tool'', dict_get (se_payload e) ''call_index'') of
          (PStr _, PNone) \<Rightarrow> ''event:'' @ se_event_id e
        | (PStr tool, n) \<Rightarrow> ''index:'' @ tool @ '':'' @ py_str str_of n
        | _ \<Rightarrow> ''event:'' @ se_event_id e))"

definition display_tool_identity :: "string \<Rightarrow> session_event \<Rightarrow> string" where
  "display_tool_identity i e =
    (case payload_call_id (se_payload e) of
       Some c \<Rightarrow> c
     | None \<Rightarrow> if prefix ''index:'' i then drop 6 i else i)"

text \<open>The calls that started, by identity, and the identities that have a result.\<close>

definition started_calls :: "(pval \<Rightarrow> string) \<Rightarrow> session_event list \<Rightarrow> (string \<times> session_event) list" where
  "started_calls str_of es =
    foldl (\<lambda>d e. if se_event_type e = ''tool.started'' then dict_set (tool_event_identity str_of e) e d else d) [] es"

definition resolved_calls :: "(pval \<Rightarrow> string) \<Rightarrow> session_event list \<Rightarrow> string set" where
  "resolved_calls str_of es = set (map (tool_event_identity str_of) (filter (\<lambda>e. se_event_type e \<in> set resolving_types) es))"

definition ambiguous_calls :: "(pval \<Rightarrow> string) \<Rightarrow> session_event list \<Rightarrow> string list" where
  "ambiguous_calls str_of es =
    sort (map (\<lambda>(i, e). display_tool_identity i e)
      (filter (\<lambda>(i, e). i \<notin> resolved_calls str_of es) (started_calls str_of es)))"

definition last_completed :: "session_event list \<Rightarrow> int" where
  "last_completed es =
    (let ns = map se_sequence (filter (\<lambda>e. se_event_type e \<in> set completed_types) es) in
     if ns = [] then 0 else Max (set ns))"

record reconstruction =
  rc_session_id :: ident
  rc_run_id :: ident
  rc_last_sequence :: int
  rc_last_completed_sequence :: int
  rc_terminal :: bool
  rc_stop_reason :: "string option"
  rc_task_states :: "task_state list"
  rc_context_snapshot_ids :: "ident list"
  rc_ambiguous_tool_call_ids :: "string list"

definition reconstruct :: "(pval \<Rightarrow> string) \<Rightarrow> session \<Rightarrow> repo \<Rightarrow> session_error + reconstruction" where
  "reconstruct str_of s r =
    (case get_context_run (ss_run_id s) r of
       None \<Rightarrow> Inl (RunMissing (ss_run_id s))
     | Some run \<Rightarrow>
       (let es = list_session_events (ss_run_id s) 0 r in
        Inr \<lparr>rc_session_id = ss_conversation_id s, rc_run_id = ss_run_id s,
             rc_last_sequence = last_committed_sequence (ss_run_id s) r, rc_last_completed_sequence = last_completed es,
             rc_terminal = (run_ended run \<or> list_ex (\<lambda>e. se_event_type e \<in> set final_types) es),
             rc_stop_reason = cr_stop_reason run, rc_task_states = list_task_states (ss_run_id s) r,
             rc_context_snapshot_ids = map sn_snapshot_id (list_snapshots (ss_run_id s) r),
             rc_ambiguous_tool_call_ids = ambiguous_calls str_of es\<rparr>))"

section \<open>Resuming and closing\<close>

record resume_answer =
  ra_can_auto_resume :: bool
  ra_status :: string
  ra_reason :: string
  ra_last_safe_sequence :: int
  ra_last_completed_sequence :: int
  ra_ambiguous_tool_call_ids :: "string list"
  ra_reconstruction :: "reconstruction option"
  ra_permission_mode :: string

definition resume_answer_of ::
  "bool \<Rightarrow> string \<Rightarrow> string \<Rightarrow> string list \<Rightarrow> string \<Rightarrow> reconstruction \<Rightarrow> resume_answer" where
  "resume_answer_of can status reason ambiguous mode c =
    \<lparr>ra_can_auto_resume = can, ra_status = status, ra_reason = reason,
     ra_last_safe_sequence = rc_last_completed_sequence c, ra_last_completed_sequence = rc_last_completed_sequence c,
     ra_ambiguous_tool_call_ids = ambiguous, ra_reconstruction = Some c, ra_permission_mode = mode\<rparr>"

text \<open>The two identifiers that every event of a resume carries.\<close>

definition resume_payload :: "session \<Rightarrow> (pval \<times> pval) list \<Rightarrow> (pval \<times> pval) list" where
  "resume_payload s kvs =
    (PStr ''session_id'', PStr (ss_conversation_id s)) # (PStr ''run_id'', PStr (ss_run_id s)) # kvs"

definition session_resume ::
  "(pval \<Rightarrow> pval option) \<Rightarrow> (pval \<Rightarrow> string) \<Rightarrow> ident \<Rightarrow> ident \<Rightarrow> string \<Rightarrow> string \<Rightarrow> session \<Rightarrow> repo \<Rightarrow>
     resume_answer session_answer" where
  "session_resume J str_of fresh fresh2 now mode s r =
    (if mode \<notin> {''preserve'', ''tighten''} then (Inl PermissionModeInvalid, r)
     else case reconstruct str_of s r of
       Inl e \<Rightarrow> (Inl e, r)
     | Inr c \<Rightarrow>
       (if rc_terminal c
        then (Inr (resume_answer_of False ''terminal_noop''
               ''terminal session is already durable; no work was replayed'' [] mode c), r)
        else bind_session (session_emit J fresh now s (emission_of ''session.resume.started''
               (resume_payload s [(PStr ''last_sequence'', PInt (rc_last_sequence c)),
                  (PStr ''last_completed_sequence'', PInt (rc_last_completed_sequence c))])
               (Some (''resume-start:'' @ ss_run_id s))) r) (\<lambda>_ r1.
          if rc_ambiguous_tool_call_ids c \<noteq> []
          then bind_session (session_emit J fresh2 now s (emission_of ''session.resume.blocked''
                 (resume_payload s [(PStr ''reason'', PStr ''ambiguous_external_side_effect''),
                    (PStr ''ambiguous_tool_call_ids'', PList (map PStr (rc_ambiguous_tool_call_ids c)))])
                 (Some (''resume-blocked:'' @ ss_run_id s))) r1) (\<lambda>_ r2.
            (Inr (resume_answer_of False ''manual_review_required''
               ''a tool call has no durable result; external side effects must be reconciled manually before resume''
               (rc_ambiguous_tool_call_ids c) mode c), r2))
          else bind_session (session_emit J fresh2 now s (emission_of ''session.resume.reconstructed''
                 (resume_payload s [(PStr ''last_safe_sequence'', PInt (rc_last_completed_sequence c)),
                    (PStr ''context_snapshot_ids'', PList (map PStr (rc_context_snapshot_ids c)))])
                 (Some (''resume-reconstructed:'' @ ss_run_id s))) r1) (\<lambda>_ r2.
            (Inr (resume_answer_of True ''resumable'' ''durable state reconstructed at the last completed boundary''
               [] mode c), r2)))))"

text \<open>\<open>close\<close>: the flag first, then the run, then the event, whose failure is ignored.\<close>

definition session_close ::
  "(pval \<Rightarrow> pval option) \<Rightarrow> ident \<Rightarrow> string \<Rightarrow> string option \<Rightarrow> session \<Rightarrow> repo \<Rightarrow> session \<times> unit session_answer" where
  "session_close J fresh now reason s r =
    (if ss_closed s then (s, Inr (), r)
     else (s\<lparr>ss_closed := True\<rparr>,
       bind_session (from_repo (end_run (ss_run_id s) reason now r)) (\<lambda>_ r1.
         (Inr (), snd (sink_emit J fresh now (ss_sink s)
           ((emission_of ''flow.stopped'' [(PStr ''schema_version'', PInt 1),
               (PStr ''stop_reason'', case reason of None \<Rightarrow> PNone | Some t \<Rightarrow> PStr t)] None)
             \<lparr>em_agent_id := ss_agent_id s\<rparr>) r1)))))"

end
