(* ===== verification/Flow_Resume.thy ===== *)
theory Flow_Resume
  imports Session_Service
begin

text \<open>
  \<open>runtime/node_registry.py\<close>, \<open>file_snapshot.py\<close>, \<open>resume.py\<close> and \<open>resume_coordinator.py\<close>: the stable identity of
  the nodes of a flow, the check that files are still as a checkpoint recorded them, and the decision whether
  a flow may be resumed at its last checkpoint. \<open>sha\<close> is SHA-256 in hexadecimal. A node is its object and
  what its attribute \<open>node_id\<close> holds; the file system is what \<open>os.path\<close> and a read of the file answer.
\<close>

section \<open>Registry\<close>

definition join_lines :: "string list \<Rightarrow> string" where
  "join_lines xs = (case xs of [] \<Rightarrow> [] | y # ys \<Rightarrow> y @ concat (map (\<lambda>l. CHR 0x0A # l) ys))"

record registry =
  rg_by_id :: "(string \<times> nat) list"
  rg_by_node :: "(nat \<times> string) list"
  rg_hash_cache :: "string option"

definition empty_registry :: registry where
  "empty_registry = \<lparr>rg_by_id = [], rg_by_node = [], rg_hash_cache = None\<rparr>"

datatype registry_error = InvalidNodeId | IdTaken nat | NodeBound string | NoNodeId | UnknownNode

definition node_id_chars :: string where
  "node_id_chars = ''abcdefghijklmnopqrstuvwxyzABCDEFGHIJKLMNOPQRSTUVWXYZ0123456789:_-''"

definition valid_node_id :: "string \<Rightarrow> bool" where
  "valid_node_id i = (i \<noteq> [] \<and> set i \<subseteq> set node_id_chars)"

definition register_node :: "string \<Rightarrow> nat \<Rightarrow> registry \<Rightarrow> registry_error + registry" where
  "register_node i n g =
    (if \<not> valid_node_id i then Inl InvalidNodeId
     else if map_of (rg_by_id g) i \<notin> {None, Some n} then Inl (IdTaken (the (map_of (rg_by_id g) i)))
     else if map_of (rg_by_node g) n \<notin> {None, Some i} then Inl (NodeBound (the (map_of (rg_by_node g) n)))
     else Inr (g\<lparr>rg_by_id := dict_set i n (rg_by_id g), rg_by_node := dict_set n i (rg_by_node g), rg_hash_cache := None\<rparr>))"

text \<open>\<open>add\<close> and \<open>add_many\<close>: nodes with their attribute; the nodes before an error stay registered.\<close>

definition add_node :: "nat \<times> string option \<Rightarrow> registry \<Rightarrow> registry_error + registry" where
  "add_node node g = (case snd node of
       Some (c # cs) \<Rightarrow> register_node (c # cs) (fst node) g
     | _ \<Rightarrow> Inl NoNodeId)"

fun add_nodes :: "(nat \<times> string option) list \<Rightarrow> registry \<Rightarrow> registry_error option \<times> registry" where
  "add_nodes [] g = (None, g)"
| "add_nodes (x # xs) g = (case add_node x g of Inl e \<Rightarrow> (Some e, g) | Inr g' \<Rightarrow> add_nodes xs g')"

definition registry_get :: "registry \<Rightarrow> string \<Rightarrow> nat option" where
  "registry_get g i = map_of (rg_by_id g) i"

definition registry_get_id :: "registry \<Rightarrow> nat \<Rightarrow> string option" where
  "registry_get_id g n = map_of (rg_by_node g) n"

definition registry_contains :: "registry \<Rightarrow> string \<Rightarrow> bool" where
  "registry_contains g i = (i \<in> fst ` set (rg_by_id g))"

definition node_ids :: "registry \<Rightarrow> string list" where
  "node_ids g = sort (map fst (rg_by_id g))"

definition compute_registry_hash :: "(string \<Rightarrow> string) \<Rightarrow> string list \<Rightarrow> string" where
  "compute_registry_hash sha ids = sha (join_lines (sort (remdups ids)))"

text \<open>The property \<open>registry_hash\<close> fills the cache that a registration clears.\<close>

definition registry_hash :: "(string \<Rightarrow> string) \<Rightarrow> registry \<Rightarrow> string \<times> registry" where
  "registry_hash sha g = (case rg_hash_cache g of
       Some h \<Rightarrow> (h, g)
     | None \<Rightarrow> (let h = compute_registry_hash sha (node_ids g) in (h, g\<lparr>rg_hash_cache := Some h\<rparr>)))"

section \<open>File snapshots\<close>

text \<open>What is found at a path: nothing, or a file with the size and the digest of a read that may fail.\<close>

datatype file_state = NoFile | FileThere "int option" "string option"

definition verify_snapshot :: "(string \<Rightarrow> file_state) \<Rightarrow> (pval \<times> pval) list \<Rightarrow> bool" where
  "verify_snapshot fs snap =
    (case dict_get snap ''path'' of
       PStr (c # cs) \<Rightarrow>
         (let digest = dict_get snap ''hash''; bytes = dict_get snap ''size'';
              required = (case map_of snap (PStr ''existence_required'') of None \<Rightarrow> True | Some v \<Rightarrow> truthy v) in
          case fs (c # cs) of
            NoFile \<Rightarrow> \<not> required
          | FileThere actual_size actual_hash \<Rightarrow>
              required \<and>
              (bytes = PNone \<or> (case actual_size of None \<Rightarrow> False | Some n \<Rightarrow> equals_int bytes n)) \<and>
              (digest = PNone \<or> (case actual_hash of None \<Rightarrow> False | Some h \<Rightarrow> digest = PStr h)))
     | _ \<Rightarrow> False)"

definition snapshot_dict :: "string \<Rightarrow> string option \<Rightarrow> int option \<Rightarrow> bool \<Rightarrow> (pval \<times> pval) list" where
  "snapshot_dict path digest bytes required =
    [(PStr ''path'', PStr path), (PStr ''hash'', case digest of None \<Rightarrow> PNone | Some h \<Rightarrow> PStr h),
     (PStr ''size'', case bytes of None \<Rightarrow> PNone | Some n \<Rightarrow> PInt n), (PStr ''existence_required'', PBool required)]"

definition take_snapshot :: "(string \<Rightarrow> file_state) \<Rightarrow> string \<Rightarrow> bool \<Rightarrow> (pval \<times> pval) list" where
  "take_snapshot fs path required =
    (case fs path of
       FileThere (Some n) (Some h) \<Rightarrow> snapshot_dict path (Some h) (Some n) required
     | _ \<Rightarrow> snapshot_dict path None None required)"

section \<open>The decision on one checkpoint\<close>

record pending_operation =
  po_operation_id :: ident
  po_state :: string
  po_event_type :: string
  po_started_at :: "string option"
  po_terminal_at :: "string option"

definition terminal_operation_states :: "string list" where
  "terminal_operation_states = [''committed'', ''failed'', ''unknown_outcome'']"

text \<open>The texts of \<open>reason\<close>, as what they report.\<close>

datatype resume_reason =
    NoCheckpoint ident
  | SchemaUnsupported int
  | ActiveWorkers "ident list"
  | NextNodeUnknown "string option"
  | RegistryHashMismatch string string
  | OperationsInFlight nat
  | FilesDiverged nat
  | SafeToResume string

record resume_decision =
  rd_can_auto_resume :: bool
  rd_status :: string
  rd_reason :: resume_reason
  rd_last_safe_sequence :: int
  rd_next_node_id :: "string option"
  rd_pending_operations :: "pending_operation list"
  rd_file_conflicts :: "(pval \<times> pval) list list"
  rd_current_registry_hash :: "string option"
  rd_checkpoint_registry_hash :: "string option"
  rd_recommended_action :: string

text \<open>The entries of \<open>file_snapshots\<close>; they are mappings.\<close>

definition snapshot_entries :: "pval \<Rightarrow> (pval \<times> pval) list list" where
  "snapshot_entries v = (case v of
       PList vs \<Rightarrow> map (\<lambda>x. case x of PDict kvs \<Rightarrow> kvs | _ \<Rightarrow> []) vs
     | PTuple vs \<Rightarrow> map (\<lambda>x. case x of PDict kvs \<Rightarrow> kvs | _ \<Rightarrow> []) vs
     | _ \<Rightarrow> [])"

definition evaluate_resume_safety ::
  "(string \<Rightarrow> string) \<Rightarrow> checkpoint \<Rightarrow> registry \<Rightarrow> pending_operation list \<Rightarrow> ((pval \<times> pval) list \<Rightarrow> bool) option \<Rightarrow>
     resume_decision" where
  "evaluate_resume_safety sha c g ops verifier =
    (let current = fst (registry_hash sha g);
         answer = (\<lambda>can status reason conflicts action.
           \<lparr>rd_can_auto_resume = can, rd_status = status, rd_reason = reason,
            rd_last_safe_sequence = cp_last_committed_sequence c, rd_next_node_id = cp_next_node_id c,
            rd_pending_operations = ops, rd_file_conflicts = conflicts, rd_current_registry_hash = Some current,
            rd_checkpoint_registry_hash = cp_registry_hash c, rd_recommended_action = action\<rparr>);
         flight = filter (\<lambda>x. po_state x \<notin> set terminal_operation_states) ops;
         conflicts = (case verifier of None \<Rightarrow> [] | Some ok \<Rightarrow> filter (\<lambda>x. \<not> ok x) (snapshot_entries (cp_file_snapshots c))) in
     if (case cp_next_node_id c of None \<Rightarrow> True | Some i \<Rightarrow> \<not> registry_contains g i)
     then answer False ''incompatible_flow_definition'' (NextNodeUnknown (cp_next_node_id c)) []
       ''refuse_resume_flow_definition_changed''
     else if cp_registry_hash c \<notin> {None, Some current}
     then answer False ''incompatible_flow_definition'' (RegistryHashMismatch (the (cp_registry_hash c)) current) []
       ''refuse_resume_flow_definition_changed''
     else if flight \<noteq> [] then answer False ''recovery_required'' (OperationsInFlight (length flight)) [] ''initiate_recovery''
     else if conflicts \<noteq> [] then answer False ''recovery_required'' (FilesDiverged (length conflicts)) conflicts ''initiate_recovery''
     else answer True ''ok'' (SafeToResume (the (cp_next_node_id c))) [] ''resume_from_next_node'')"

section \<open>The decision on a run\<close>

definition operation_terminal_events :: "(string \<times> string) list" where
  "operation_terminal_events = [(''operation.committed'', ''committed''), (''operation.failed'', ''failed''),
     (''operation.unknown_outcome'', ''unknown_outcome'')]"

text \<open>The operation of an event: a text that is not empty.\<close>

definition event_operation :: "session_event \<Rightarrow> ident option" where
  "event_operation e = (case dict_get (se_payload e) ''operation_id'' of PStr (c # cs) \<Rightarrow> Some (c # cs) | _ \<Rightarrow> None)"

definition operation_entry :: "ident \<Rightarrow> session_event \<Rightarrow> (ident \<times> pending_operation) list \<Rightarrow> (ident \<times> pending_operation) list" where
  "operation_entry i e d =
    (if se_event_type e = ''operation.started''
     then (case map_of d i of
         None \<Rightarrow> dict_set i \<lparr>po_operation_id = i, po_state = ''started'', po_event_type = se_event_type e,
                   po_started_at = Some (se_created_at e), po_terminal_at = None\<rparr> d
       | Some x \<Rightarrow> dict_set i (x\<lparr>po_state := ''started'', po_event_type := se_event_type e\<rparr>) d)
     else case map_of operation_terminal_events (se_event_type e) of
       None \<Rightarrow> d
     | Some state \<Rightarrow> (case map_of d i of
         None \<Rightarrow> dict_set i \<lparr>po_operation_id = i, po_state = state, po_event_type = se_event_type e,
                   po_started_at = None, po_terminal_at = Some (se_created_at e)\<rparr> d
       | Some x \<Rightarrow> dict_set i (x\<lparr>po_state := state, po_event_type := se_event_type e,
                     po_terminal_at := Some (se_created_at e)\<rparr>) d))"

definition operation_entries :: "session_event list \<Rightarrow> (ident \<times> pending_operation) list" where
  "operation_entries es =
    foldl (\<lambda>d e. case event_operation e of None \<Rightarrow> d | Some i \<Rightarrow> operation_entry i e d) [] es"

definition build_pending_operations :: "session_event list \<Rightarrow> pending_operation list" where
  "build_pending_operations es = map snd (operation_entries es)"

definition active_statuses_of_tasks :: "string list" where
  "active_statuses_of_tasks = [''active'', ''running'', ''started'']"

definition detect_active_workers :: "session \<Rightarrow> repo \<Rightarrow> task_state list" where
  "detect_active_workers s r =
    filter (\<lambda>x. ts_status x \<in> set active_statuses_of_tasks) (list_task_states (ss_run_id s) r)"

definition recovery_answer ::
  "string \<Rightarrow> resume_reason \<Rightarrow> int \<Rightarrow> string option \<Rightarrow> pending_operation list \<Rightarrow> string option \<Rightarrow> resume_decision" where
  "recovery_answer current reason seq node ops stored =
    \<lparr>rd_can_auto_resume = False, rd_status = ''recovery_required'', rd_reason = reason, rd_last_safe_sequence = seq,
     rd_next_node_id = node, rd_pending_operations = ops, rd_file_conflicts = [], rd_current_registry_hash = Some current,
     rd_checkpoint_registry_hash = stored, rd_recommended_action = ''initiate_recovery''\<rparr>"

definition decide_resume ::
  "(string \<Rightarrow> string) \<Rightarrow> registry \<Rightarrow> (string \<Rightarrow> file_state) option \<Rightarrow> session \<Rightarrow> pending_operation list option \<Rightarrow> repo \<Rightarrow>
     resume_decision" where
  "decide_resume sha g fs s given r =
    (let current = fst (registry_hash sha g) in
     case latest_checkpoint (ss_run_id s) r of
       None \<Rightarrow> recovery_answer current (NoCheckpoint (ss_run_id s)) 0 None [] None
     | Some c \<Rightarrow>
       (if cp_schema_version c \<noteq> 1
        then recovery_answer current (SchemaUnsupported (cp_schema_version c)) (cp_last_committed_sequence c) (cp_next_node_id c) []
          (cp_registry_hash c)
        else
          (let ops = (case given of
                 Some ops \<Rightarrow> ops
               | None \<Rightarrow> build_pending_operations (list_session_events (ss_run_id s) (cp_last_committed_sequence c) r));
               workers = detect_active_workers s r in
           if workers \<noteq> []
           then recovery_answer current (ActiveWorkers (map ts_task_id workers)) (cp_last_committed_sequence c) (cp_next_node_id c)
             ops (cp_registry_hash c)
           else evaluate_resume_safety sha c g ops
             (if snapshot_entries (cp_file_snapshots c) = [] then None else map_option verify_snapshot fs))))"

end
