(* ===== verification/Flow_Runner.thy ===== *)
theory Flow_Runner
  imports Flow_Resume
begin

text \<open>
  \<open>runtime/flow_runner.py\<close> with \<open>checkpoint.py\<close>, \<open>flow_contracts.py\<close>, \<open>error_codes.py\<close>, and the loop of
  \<open>pocketflow\<close> that it wraps. \<open>'s\<close> is what the nodes read and change, the shared mapping and anything
  outside; \<open>'w\<close> is the state behind the services, a sink and a writer, which may raise. A node is an object
  (a number) with its attribute \<open>node_id\<close>, its successors and its hooks; the parameters of a flow never
  change and are part of the hooks. A loop over nodes may never end, so it has fuel, and no fuel is \<open>None\<close>.
\<close>

section \<open>Flows\<close>

record py_error =
  er_type :: string
  er_message :: string

text \<open>The hooks of a node, with the retries and the fallback inside \<open>exec\<close>; or a nested flow.\<close>

datatype 's hooks =
    Phased "'s \<Rightarrow> (py_error + pval) \<times> 's" "pval \<Rightarrow> 's \<Rightarrow> (py_error + pval) \<times> 's"
      "pval \<Rightarrow> pval \<Rightarrow> 's \<Rightarrow> (py_error + string option) \<times> 's"
  | Nested "'s \<Rightarrow> (py_error + string option) \<times> 's"

record 's node =
  nd_node_id :: "string option"
  nd_successors :: "(string \<times> nat) list"
  nd_hooks :: "'s hooks"

record 's flow =
  fl_start :: "nat option"
  fl_node :: "nat \<Rightarrow> 's node"

text \<open>\<open>BaseNode._run\<close>.\<close>

definition node_run :: "'s hooks \<Rightarrow> 's \<Rightarrow> (py_error + string option) \<times> 's" where
  "node_run h s = (case h of
       Nested f \<Rightarrow> f s
     | Phased prep exec post \<Rightarrow>
       (case prep s of
          (Inl e, s1) \<Rightarrow> (Inl e, s1)
        | (Inr p, s1) \<Rightarrow> (case exec p s1 of
            (Inl e, s2) \<Rightarrow> (Inl e, s2)
          | (Inr x, s2) \<Rightarrow> post p x s2)))"

text \<open>\<open>get_next_node\<close>: no action, or the empty one, takes the default edge.\<close>

definition get_next_node :: "'s node \<Rightarrow> string option \<Rightarrow> nat option" where
  "get_next_node nd action =
    map_of (nd_successors nd) (case action of Some (c # cs) \<Rightarrow> c # cs | _ \<Rightarrow> ''default'')"

text \<open>The outcome of a run: the last action, or an exception.\<close>

datatype run_error = NodeIdentityMissing | ResumeRegistryMismatch | NodeRaised py_error | ServiceRaised py_error

type_synonym ('a, 's) outcome = "(run_error + 'a) \<times> 's"

text \<open>\<open>Flow._orch\<close>.\<close>

fun orch :: "'s flow \<Rightarrow> nat \<Rightarrow> nat option \<Rightarrow> string option \<Rightarrow> 's \<Rightarrow> (string option, 's) outcome option" where
  "orch fl fuel None action s = Some (Inr action, s)"
| "orch fl 0 (Some n) action s = None"
| "orch fl (Suc fuel) (Some n) action s =
    (case node_run (nd_hooks (fl_node fl n)) s of
       (Inl e, s') \<Rightarrow> Some (Inl (NodeRaised e), s')
     | (Inr a, s') \<Rightarrow> orch fl fuel (get_next_node (fl_node fl n) a) a s')"

section \<open>Error codes\<close>

definition classify_exception :: "string \<Rightarrow> string" where
  "classify_exception p =
    (if p = ''prep'' then ''NODE_PREP_FAILED''
     else if p = ''exec'' then ''NODE_EXEC_FAILED''
     else if p = ''post'' then ''NODE_POST_FAILED''
     else if p = ''identity'' then ''NODE_IDENTITY_MISSING''
     else if p = ''resume'' then ''RESUME_REGISTRY_MISMATCH''
     else if p = ''cancellation'' then ''CANCELLATION_REQUESTED''
     else ''NODE_EXEC_FAILED'')"

definition run_node_phased :: "'s hooks \<Rightarrow> 's \<Rightarrow> ((string \<times> py_error) + string option) \<times> 's" where
  "run_node_phased h s = (case h of
       Nested f \<Rightarrow> (case f s of (Inl e, s1) \<Rightarrow> (Inl (''exec'', e), s1) | (Inr a, s1) \<Rightarrow> (Inr a, s1))
     | Phased prep exec post \<Rightarrow>
       (case prep s of
          (Inl e, s1) \<Rightarrow> (Inl (''prep'', e), s1)
        | (Inr p, s1) \<Rightarrow> (case exec p s1 of
            (Inl e, s2) \<Rightarrow> (Inl (''exec'', e), s2)
          | (Inr x, s2) \<Rightarrow> (case post p x s2 of
              (Inl e, s3) \<Rightarrow> (Inl (''post'', e), s3)
            | (Inr a, s3) \<Rightarrow> (Inr a, s3)))))"

section \<open>Services\<close>

text \<open>
  \<open>RuntimeServices\<close>; the token is what the poll before the \<open>i\<close>-th node reads. \<open>sv_stamp\<close> gives the id and the
  time of the checkpoint of a step.
\<close>

record 'w services =
  sv_emit :: "(string \<Rightarrow> (pval \<times> pval) list \<Rightarrow> 'w \<Rightarrow> (py_error + int) \<times> 'w) option"
  sv_commit :: "(checkpoint \<Rightarrow> 'w \<Rightarrow> (py_error + unit) \<times> 'w) option"
  sv_registry :: "registry option"
  sv_cancelled :: "(nat \<Rightarrow> bool) option"
  sv_stamp :: "nat \<Rightarrow> ident \<times> string"

record resume_point =
  fr_run_id :: ident
  fr_completed_node_id :: "string option"
  fr_last_action :: "string option"
  fr_next_node_id :: string
  fr_last_committed_sequence :: int
  fr_state_revision :: int

definition text_or_none :: "string option \<Rightarrow> pval" where
  "text_or_none t = (case t of None \<Rightarrow> PNone | Some s \<Rightarrow> PStr s)"

definition emit_event :: "'w services \<Rightarrow> string \<Rightarrow> (pval \<times> pval) list \<Rightarrow> 'w \<Rightarrow> (int, 'w) outcome" where
  "emit_event sv kind payload w = (case sv_emit sv of
       None \<Rightarrow> (Inr 0, w)
     | Some f \<Rightarrow> (case f kind (dict_set (PStr ''event_type'') (PStr kind) (dict_setdefault ''schema_version'' (PInt 1) payload)) w of
         (Inl e, w') \<Rightarrow> (Inl (ServiceRaised e), w')
       | (Inr n, w') \<Rightarrow> (Inr n, w')))"

definition commit_checkpoint :: "'w services \<Rightarrow> checkpoint \<Rightarrow> 'w \<Rightarrow> (unit, 'w) outcome" where
  "commit_checkpoint sv c w = (case sv_commit sv of
       None \<Rightarrow> (Inr (), w)
     | Some f \<Rightarrow> (case f c w of (Inl e, w') \<Rightarrow> (Inl (ServiceRaised e), w') | (Inr u, w') \<Rightarrow> (Inr u, w')))"

definition bind_outcome :: "('a, 'w) outcome \<Rightarrow> ('a \<Rightarrow> 'w \<Rightarrow> ('b, 'w) outcome) \<Rightarrow> ('b, 'w) outcome" where
  "bind_outcome a k = (case a of (Inl e, w) \<Rightarrow> (Inl e, w) | (Inr x, w) \<Rightarrow> k x w)"

text \<open>\<open>InMemoryCheckpointWriter.latest_checkpoint\<close>: \<open>max\<close> keeps the first of equal sequences.\<close>

fun first_max :: "checkpoint \<Rightarrow> checkpoint list \<Rightarrow> checkpoint" where
  "first_max b [] = b"
| "first_max b (c # cs) = first_max (if cp_last_committed_sequence b < cp_last_committed_sequence c then c else b) cs"

definition memory_latest_checkpoint :: "ident \<Rightarrow> checkpoint list \<Rightarrow> checkpoint option" where
  "memory_latest_checkpoint run cs = (case filter (\<lambda>c. cp_run_id c = run) cs of [] \<Rightarrow> None | c # rest \<Rightarrow> Some (first_max c rest))"

section \<open>The instrumented loop\<close>

text \<open>
  The identity of a node: its attribute, or else its entry in the registry. The loop runs copies of the nodes,
  which are new objects that no registry knows.
\<close>

definition resolve_node_id :: "registry option \<Rightarrow> nat \<Rightarrow> 's node \<Rightarrow> string option" where
  "resolve_node_id g n nd = (case nd_node_id nd of
       Some (c # cs) \<Rightarrow> Some (c # cs)
     | _ \<Rightarrow> (case g of None \<Rightarrow> None | Some r \<Rightarrow> registry_get_id r n))"

definition resolve_copy_id :: "'s node \<Rightarrow> string option" where
  "resolve_copy_id nd = (case nd_node_id nd of Some (c # cs) \<Rightarrow> Some (c # cs) | _ \<Rightarrow> None)"

definition build_checkpoint ::
  "(string \<Rightarrow> string) \<Rightarrow> 'w services \<Rightarrow> ident \<Rightarrow> string \<Rightarrow> string option \<Rightarrow> string option \<Rightarrow> int \<Rightarrow> nat \<Rightarrow> checkpoint" where
  "build_checkpoint sha sv run node action next_id sequence revision =
    (let t = (\<lambda>x. case x of None \<Rightarrow> ''None'' | Some y \<Rightarrow> y) in
     \<lparr>cp_checkpoint_id = fst (sv_stamp sv revision), cp_run_id = run, cp_last_committed_sequence = sequence,
      cp_task_state_revision = int revision, cp_budget_state = PDict [], cp_pending_operations = PTuple [],
      cp_file_snapshots = PTuple [],
      cp_state_hash = sha (node @ ''|'' @ t action @ ''|'' @ t next_id @ ''|'' @ int_text sequence),
      cp_schema_version = 1, cp_created_at = snd (sv_stamp sv revision), cp_completed_node_id = Some node,
      cp_last_action = action, cp_next_node_id = next_id,
      cp_registry_hash = map_option (\<lambda>g. fst (registry_hash sha g)) (sv_registry sv)\<rparr>)"

record flow_progress =
  fp_last_action :: "string option"
  fp_step_count :: nat
  fp_state_revision :: nat
  fp_last_node_id :: "string option"
  fp_last_sequence :: int

definition fresh_progress :: flow_progress where
  "fresh_progress = \<lparr>fp_last_action = None, fp_step_count = 0, fp_state_revision = 0, fp_last_node_id = None,
     fp_last_sequence = 0\<rparr>"

definition stopped_payload :: "ident \<Rightarrow> string \<Rightarrow> flow_progress \<Rightarrow> (pval \<times> pval) list" where
  "stopped_payload run reason p =
    [(PStr ''run_id'', PStr run), (PStr ''stop_reason'', PStr reason), (PStr ''last_node_id'', text_or_none (fp_last_node_id p)),
     (PStr ''step_count'', PInt (int (fp_step_count p)))]"

text \<open>\<open>if seq > 0: last_committed_sequence = seq\<close>.\<close>

definition note_sequence :: "int \<Rightarrow> int \<Rightarrow> int" where
  "note_sequence n old = (if n > 0 then n else old)"

text \<open>After a node has run: the events of the step and its checkpoint. The answer is the sequence to go on with.\<close>

definition step_boundary ::
  "(string \<Rightarrow> string) \<Rightarrow> 'w services \<Rightarrow> ident \<Rightarrow> string \<Rightarrow> string option \<Rightarrow> string option \<Rightarrow> flow_progress \<Rightarrow> 'w \<Rightarrow>
     (int, 'w) outcome" where
  "step_boundary sha sv run node action next_id p w =
    bind_outcome (emit_event sv ''node.completed''
      [(PStr ''run_id'', PStr run), (PStr ''node_id'', PStr node), (PStr ''action'', text_or_none action),
       (PStr ''next_node_id'', text_or_none next_id), (PStr ''step_count'', PInt (int (fp_step_count p))),
       (PStr ''state_revision'', PInt (int (fp_state_revision p)))] w) (\<lambda>n1 w1.
    bind_outcome (emit_event sv ''transition.selected''
      [(PStr ''run_id'', PStr run), (PStr ''from_node_id'', PStr node), (PStr ''action'', text_or_none action),
       (PStr ''to_node_id'', text_or_none next_id)] w1) (\<lambda>n2 w2.
     let seq2 = note_sequence n2 (note_sequence n1 (fp_last_sequence p)) in
     if sv_commit sv = None then (Inr seq2, w2)
     else
       (let c = build_checkpoint sha sv run node action next_id seq2 (fp_state_revision p) in
        bind_outcome (emit_event sv ''checkpoint.committed''
          [(PStr ''run_id'', PStr run), (PStr ''checkpoint_id'', PStr (cp_checkpoint_id c)),
           (PStr ''completed_node_id'', PStr node), (PStr ''next_node_id'', text_or_none next_id),
           (PStr ''last_committed_sequence'', PInt seq2), (PStr ''state_revision'', PInt (int (fp_state_revision p)))] w2) (\<lambda>n3 w3.
        bind_outcome (commit_checkpoint sv c w3) (\<lambda>_ w4. (Inr (note_sequence n3 seq2), w4))))))"

text \<open>
  One turn of the loop: it answers whether the run stops there, with its action, or goes on at the next node.
  The next node is resolved after the node has run.
\<close>

definition flow_step ::
  "(string \<Rightarrow> string) \<Rightarrow> 'w services \<Rightarrow> 's flow \<Rightarrow> ident \<Rightarrow> nat \<Rightarrow> flow_progress \<Rightarrow> 's \<Rightarrow> 'w \<Rightarrow>
     (string option + (nat option \<times> flow_progress), 's \<times> 'w) outcome" where
  "flow_step sha sv fl run n p s w =
    (let nd = fl_node fl n in
     if (case sv_cancelled sv of None \<Rightarrow> False | Some poll \<Rightarrow> poll (fp_step_count p))
     then (case emit_event sv ''flow.stopped'' (stopped_payload run ''cancelled'' p) w of
         (Inl e, w') \<Rightarrow> (Inl e, s, w')
       | (Inr _, w') \<Rightarrow> (Inr (Inl (fp_last_action p)), s, w'))
     else case resolve_copy_id nd of
       None \<Rightarrow> (Inl NodeIdentityMissing, s, w)
     | Some node \<Rightarrow>
       (let p1 = p\<lparr>fp_step_count := Suc (fp_step_count p)\<rparr>;
            here = [(PStr ''run_id'', PStr run), (PStr ''node_id'', PStr node), (PStr ''step_count'', PInt (int (fp_step_count p1)))] in
        case emit_event sv ''node.started'' here w of
          (Inl e, w1) \<Rightarrow> (Inl e, s, w1)
        | (Inr _, w1) \<Rightarrow> (case run_node_phased (nd_hooks nd) s of
            (Inl (phase, e), s1) \<Rightarrow>
              (case emit_event sv ''node.failed'' (here @ [(PStr ''error_type'', PStr (er_type e)),
                   (PStr ''error_code'', PStr (classify_exception phase)), (PStr ''error_message'', PStr (take 500 (er_message e)))]) w1 of
                 (Inl e2, w2) \<Rightarrow> (Inl e2, s1, w2)
               | (Inr _, w2) \<Rightarrow> (Inl (NodeRaised e), s1, w2))
          | (Inr action, s1) \<Rightarrow>
              (let p2 = p1\<lparr>fp_last_action := action, fp_last_node_id := Some node, fp_state_revision := Suc (fp_state_revision p)\<rparr>;
                   succ = get_next_node nd action;
                   next_id = (case succ of None \<Rightarrow> None | Some m \<Rightarrow> resolve_node_id (sv_registry sv) m (fl_node fl m)) in
               if succ \<noteq> None \<and> next_id = None then (Inl NodeIdentityMissing, s1, w1)
               else case step_boundary sha sv run node action next_id p2 w1 of
                 (Inl e, w2) \<Rightarrow> (Inl e, s1, w2)
               | (Inr seq, w2) \<Rightarrow> (Inr (Inr (succ, p2\<lparr>fp_last_sequence := seq\<rparr>)), s1, w2)))))"

text \<open>\<open>stop\<close> is what the shared mapping says under \<open>stop_reason\<close>, if it is true.\<close>

fun flow_loop ::
  "(string \<Rightarrow> string) \<Rightarrow> ('s \<Rightarrow> string option) \<Rightarrow> 'w services \<Rightarrow> 's flow \<Rightarrow> ident \<Rightarrow> nat \<Rightarrow> nat option \<Rightarrow> flow_progress \<Rightarrow>
     's \<Rightarrow> 'w \<Rightarrow> (string option, 's \<times> 'w) outcome option" where
  "flow_loop sha stop sv fl run fuel None p s w =
    Some (case emit_event sv ''flow.stopped''
            (stopped_payload run (case stop s of Some (c # cs) \<Rightarrow> c # cs | _ \<Rightarrow> ''done'') p) w of
        (Inl e, w') \<Rightarrow> (Inl e, s, w')
      | (Inr _, w') \<Rightarrow> (Inr (fp_last_action p), s, w'))"
| "flow_loop sha stop sv fl run 0 (Some n) p s w = None"
| "flow_loop sha stop sv fl run (Suc fuel) (Some n) p s w =
    (case flow_step sha sv fl run n p s w of
       (Inl e, s', w') \<Rightarrow> Some (Inl e, s', w')
     | (Inr (Inl action), s', w') \<Rightarrow> Some (Inr action, s', w')
     | (Inr (Inr (succ, p')), s', w') \<Rightarrow> flow_loop sha stop sv fl run fuel succ p' s' w')"

definition resumed_payload :: "resume_point \<Rightarrow> (pval \<times> pval) list" where
  "resumed_payload pt =
    [(PStr ''run_id'', PStr (fr_run_id pt)), (PStr ''next_node_id'', PStr (fr_next_node_id pt)),
     (PStr ''completed_node_id'', text_or_none (fr_completed_node_id pt)),
     (PStr ''last_committed_sequence'', PInt (fr_last_committed_sequence pt)),
     (PStr ''state_revision'', PInt (fr_state_revision pt))]"

text \<open>Where a run starts: the node and its id, and the node it resumes from.\<close>

definition flow_entry ::
  "'w services \<Rightarrow> 's flow \<Rightarrow> resume_point option \<Rightarrow> run_error + (nat \<times> string \<times> string option)" where
  "flow_entry sv fl resume =
    (case resume of
       Some pt \<Rightarrow> (case sv_registry sv of
           None \<Rightarrow> Inl ResumeRegistryMismatch
         | Some g \<Rightarrow> (case registry_get g (fr_next_node_id pt) of
             None \<Rightarrow> Inl ResumeRegistryMismatch
           | Some n \<Rightarrow> Inr (n, fr_next_node_id pt, fr_completed_node_id pt)))
     | None \<Rightarrow> (case fl_start fl of
           None \<Rightarrow> Inl NodeIdentityMissing
         | Some n \<Rightarrow> (case resolve_node_id (sv_registry sv) n (fl_node fl n) of
             None \<Rightarrow> Inl NodeIdentityMissing
           | Some i \<Rightarrow> Inr (n, i, None))))"

text \<open>\<open>run\<close>; \<open>fresh\<close> is the run id that is made up when there is no resume point.\<close>

definition flow_run ::
  "(string \<Rightarrow> string) \<Rightarrow> ('s \<Rightarrow> string option) \<Rightarrow> 'w services \<Rightarrow> 's flow \<Rightarrow> resume_point option \<Rightarrow> ident \<Rightarrow> nat \<Rightarrow> 's \<Rightarrow> 'w \<Rightarrow>
     (string option, 's \<times> 'w) outcome option" where
  "flow_run sha stop sv fl resume fresh fuel s w =
    (if sv_emit sv = None \<and> sv_commit sv = None \<and> sv_cancelled sv = None \<and> resume = None
     then map_option (\<lambda>(a, s'). (a, s', w)) (orch fl fuel (fl_start fl) None s)
     else (let run = (case resume of None \<Rightarrow> fresh | Some pt \<Rightarrow> fr_run_id pt) in
       case flow_entry sv fl resume of
         Inl e \<Rightarrow> Some (Inl e, s, w)
       | Inr (n, start_id, from) \<Rightarrow>
         (case bind_outcome (emit_event sv ''flow.started''
             [(PStr ''run_id'', PStr run), (PStr ''start_node_id'', PStr start_id), (PStr ''resume_from'', text_or_none from)] w)
             (\<lambda>_ w1. case resume of
                None \<Rightarrow> (Inr 0, w1)
              | Some pt \<Rightarrow> emit_event sv ''flow.resumed'' (resumed_payload pt) w1) of
            (Inl e, w') \<Rightarrow> Some (Inl e, s, w')
          | (Inr _, w') \<Rightarrow> flow_loop sha stop sv fl run fuel (Some n) fresh_progress s w')))"

section \<open>Services on the repository\<close>

text \<open>The sink of a session and \<open>SqliteCheckpointWriter\<close>; the number counts the ids that were generated.\<close>

definition repo_failure :: "repo_error \<Rightarrow> py_error" where
  "repo_failure e = \<lparr>er_type = (case e of InvalidValue _ \<Rightarrow> ''ValueError'' | NotSerialisable \<Rightarrow> ''TypeError''
     | IntegrityError \<Rightarrow> ''IntegrityError'' | OperationalError \<Rightarrow> ''OperationalError'' | SchemaVersionError \<Rightarrow> ''ValueError''),
     er_message = []\<rparr>"

definition repo_services ::
  "(pval \<Rightarrow> pval option) \<Rightarrow> (nat \<Rightarrow> ident) \<Rightarrow> string \<Rightarrow> event_sink option \<Rightarrow> registry option \<Rightarrow> (nat \<Rightarrow> bool) option \<Rightarrow>
     (nat \<Rightarrow> ident \<times> string) \<Rightarrow> (repo \<times> nat) services" where
  "repo_services J ids now sink g cancelled stamp =
    \<lparr>sv_emit = map_option (\<lambda>k kind payload (r, i).
        case sink_emit J (ids i) now k (emission_of kind payload None) r of
          (Inl e, r') \<Rightarrow> (Inl (repo_failure e), r', Suc i)
        | (Inr n, r') \<Rightarrow> (Inr n, r', Suc i)) sink,
     sv_commit = Some (\<lambda>c (r, i). case insert_checkpoint J c r of
          (Inl e, r') \<Rightarrow> (Inl (repo_failure e), r', i)
        | (Inr u, r') \<Rightarrow> (Inr u, r', i)),
     sv_registry = g, sv_cancelled = cancelled, sv_stamp = stamp\<rparr>"

text \<open>A sink that numbers its events, and \<open>InMemoryCheckpointWriter\<close>.\<close>

definition memory_services ::
  "bool \<Rightarrow> registry option \<Rightarrow> (nat \<Rightarrow> bool) option \<Rightarrow> (nat \<Rightarrow> ident \<times> string) \<Rightarrow>
     ((string \<times> (pval \<times> pval) list) list \<times> checkpoint list) services" where
  "memory_services with_sink g cancelled stamp =
    \<lparr>sv_emit = (if with_sink then Some (\<lambda>kind payload (es, cs). (Inr (int (length es) + 1), es @ [(kind, payload)], cs)) else None),
     sv_commit = Some (\<lambda>c (es, cs). (Inr (), es, cs @ [c])),
     sv_registry = g, sv_cancelled = cancelled, sv_stamp = stamp\<rparr>"

end
