(* ===== verification/Context_Repo_Inv.thy ===== *)
theory Context_Repo_Inv
  imports Context_Repo
begin

text \<open>
  The invariant of the context repository: the keys of every table are unique and every row belongs to a
  known run. The calls keep it, and only ever add rows: events, messages, items, snapshots and checkpoints
  are append-only, runs and ledger entries are never removed, and the revision of a task never decreases.
\<close>

section \<open>The invariant\<close>

definition event_keys :: "session_event list \<Rightarrow> (ident \<times> pval) list" where
  "event_keys es = map (\<lambda>e. (se_run_id e, se_idempotency_key e)) (filter (\<lambda>e. se_idempotency_key e \<noteq> PNone) es)"

definition db_inv :: "context_db \<Rightarrow> bool" where
  "db_inv d \<longleftrightarrow>
     distinct (map fst (cx_conversations d)) \<and> distinct (map cr_run_id (cx_runs d)) \<and>
     distinct (map se_event_id (cx_events d)) \<and> distinct (map (\<lambda>e. (se_run_id e, se_sequence e)) (cx_events d)) \<and>
     distinct (event_keys (cx_events d)) \<and>
     distinct (map me_message_id (cx_messages d)) \<and> distinct (map (\<lambda>m. (me_conversation_id m, me_sequence m)) (cx_messages d)) \<and>
     distinct (map ts_task_id (cx_task_states d)) \<and> distinct (map ci_item_id (cx_items d)) \<and>
     distinct (map sn_snapshot_id (cx_snapshots d)) \<and> distinct (map cp_checkpoint_id (cx_checkpoints d)) \<and>
     distinct (map le_operation_id (cx_ledger d)) \<and>
     cr_conversation_id ` set (cx_runs d) \<subseteq> fst ` set (cx_conversations d) \<and>
     se_run_id ` set (cx_events d) \<union> me_run_id ` set (cx_messages d) \<union> ts_run_id ` set (cx_task_states d) \<union>
       ci_run_id ` set (cx_items d) \<union> sn_run_id ` set (cx_snapshots d) \<union> cp_run_id ` set (cx_checkpoints d)
       \<subseteq> cr_run_id ` set (cx_runs d)"

text \<open>What a later database has kept of an earlier one.\<close>

definition revision_of :: "context_db \<Rightarrow> ident \<Rightarrow> nat option" where
  "revision_of d t = map_option ts_revision (task_row t d)"

definition revisions_grow :: "context_db \<Rightarrow> context_db \<Rightarrow> bool" where
  "revisions_grow d d' \<longleftrightarrow> (\<forall>t n. revision_of d t = Some n \<longrightarrow> (\<exists>m. revision_of d' t = Some m \<and> n \<le> m))"

lemma revisions_grow_same [simp]: "cx_task_states d' = cx_task_states d \<Longrightarrow> revisions_grow d d'"
proof -
  assume "cx_task_states d' = cx_task_states d"
  then have "revision_of d' = revision_of d" by (simp add: fun_eq_iff revision_of_def task_row_def)
  then show ?thesis by (auto simp: revisions_grow_def)
qed

lemma revisions_grow_trans: "revisions_grow a b \<Longrightarrow> revisions_grow b c \<Longrightarrow> revisions_grow a c"
  unfolding revisions_grow_def by (meson le_trans)

definition runs_end :: "context_db \<Rightarrow> context_db \<Rightarrow> bool" where
  "runs_end d d' \<longleftrightarrow> (\<forall>x \<in> set (cx_runs d). run_ended x \<longrightarrow>
     (\<exists>y \<in> set (cx_runs d'). cr_run_id y = cr_run_id x \<and> run_ended y))"

lemma runs_end_same [simp]: "set (cx_runs d) \<subseteq> set (cx_runs d') \<Longrightarrow> runs_end d d'"
  by (auto simp: runs_end_def)

lemma runs_end_trans: "runs_end a b \<Longrightarrow> runs_end b c \<Longrightarrow> runs_end a c"
  unfolding runs_end_def by metis

definition grown :: "context_db \<Rightarrow> context_db \<Rightarrow> bool" where
  "grown d d' \<longleftrightarrow>
     prefix (cx_conversations d) (cx_conversations d') \<and> prefix (map cr_run_id (cx_runs d)) (map cr_run_id (cx_runs d')) \<and>
     prefix (cx_events d) (cx_events d') \<and> prefix (cx_messages d) (cx_messages d') \<and> prefix (cx_items d) (cx_items d') \<and>
     prefix (cx_snapshots d) (cx_snapshots d') \<and> prefix (cx_checkpoints d) (cx_checkpoints d') \<and>
     prefix (map le_operation_id (cx_ledger d)) (map le_operation_id (cx_ledger d')) \<and>
     revisions_grow d d' \<and> runs_end d d'"

lemma grown_refl [intro, simp]: "grown d d"
  by (simp add: grown_def)

lemma grown_trans: "grown a b \<Longrightarrow> grown b c \<Longrightarrow> grown a c"
  unfolding grown_def by (blast intro: prefix_order.trans revisions_grow_trans runs_end_trans)

text \<open>A statement is sound when it keeps the invariant and only adds.\<close>

definition sound_statement :: "(context_db \<Rightarrow> context_db option) \<Rightarrow> bool" where
  "sound_statement f \<longleftrightarrow> (\<forall>d d'. db_inv d \<longrightarrow> f d = Some d' \<longrightarrow> db_inv d' \<and> grown d d')"

lemma sound_statementI: "(\<And>d d'. db_inv d \<Longrightarrow> f d = Some d' \<Longrightarrow> db_inv d' \<and> grown d d') \<Longrightarrow> sound_statement f"
  by (simp add: sound_statement_def)

named_theorems sound_statements \<open>the statements of the repository are sound\<close>

lemma sound_conversation [sound_statements]: "sound_statement (insert_or_ignore_conversation c now v)"
proof (rule sound_statementI)
  fix d d' :: context_db
  assume d: "db_inv d" "insert_or_ignore_conversation c now v d = Some d'"
  show "db_inv d' \<and> grown d d'"
  proof (cases "c \<in> fst ` set (cx_conversations d)")
    case True
    with d show ?thesis by (simp add: insert_or_ignore_conversation_def)
  next
    case False
    with d(2) have "d' = d\<lparr>cx_conversations := cx_conversations d @ [(c, now, v)]\<rparr>"
      by (simp add: insert_or_ignore_conversation_def)
    with d(1) False show ?thesis unfolding db_inv_def grown_def by (simp add: image_Un subset_insertI2)
  qed
qed

lemma sound_run [sound_statements]: "sound_statement (insert_run r)"
proof (rule sound_statementI)
  fix d d' :: context_db
  assume d: "db_inv d" "insert_run r d = Some d'"
  then have "d' = d\<lparr>cx_runs := cx_runs d @ [r]\<rparr>" by (simp add: insert_run_def split: if_splits)
  with d show "db_inv d' \<and> grown d d'"
    unfolding insert_run_def has_run_def db_inv_def grown_def by (simp add: image_Un subset_insertI2 split: if_splits)
qed

lemma sound_finish:
  "now \<noteq> [] \<Longrightarrow> sound_statement (\<lambda>d. Some (d\<lparr>cx_runs := update_where (\<lambda>x. cr_run_id x = i)
     (\<lambda>x. x\<lparr>cr_ended_at := Some now, cr_stop_reason := reason\<rparr>) (cx_runs d)\<rparr>))"
proof (rule sound_statementI)
  fix d d' :: context_db
  assume now: "now \<noteq> []"
  let ?u = "update_where (\<lambda>x. cr_run_id x = i) (\<lambda>x. x\<lparr>cr_ended_at := Some now, cr_stop_reason := reason\<rparr>) (cx_runs d)"
  assume d: "db_inv d" "Some (d\<lparr>cx_runs := ?u\<rparr>) = Some d'"
  have ids: "map cr_run_id ?u = map cr_run_id (cx_runs d)" "map cr_conversation_id ?u = map cr_conversation_id (cx_runs d)"
    by (simp_all add: map_update_where)
  then have "cr_run_id ` set ?u = cr_run_id ` set (cx_runs d)" "cr_conversation_id ` set ?u = cr_conversation_id ` set (cx_runs d)"
    by (metis set_map)+
  moreover have d': "d' = d\<lparr>cx_runs := ?u\<rparr>" using d(2) by simp
  moreover have "runs_end d d'"
    unfolding runs_end_def
  proof (intro ballI impI)
    fix x
    assume x: "x \<in> set (cx_runs d)" "run_ended x"
    let ?y = "if cr_run_id x = i then x\<lparr>cr_ended_at := Some now, cr_stop_reason := reason\<rparr> else x"
    have "?y \<in> set (cx_runs d')" using x(1) unfolding d' by (auto simp: update_where_def)
    moreover have "cr_run_id ?y = cr_run_id x \<and> run_ended ?y" using x(2) now by (simp add: run_ended_def)
    ultimately show "\<exists>y \<in> set (cx_runs d'). cr_run_id y = cr_run_id x \<and> run_ended y" by blast
  qed
  ultimately show "db_inv d' \<and> grown d d'"
    using ids d(1) unfolding db_inv_def grown_def by simp
qed

lemma sound_event [sound_statements]: "sound_statement (insert_event e)"
proof (rule sound_statementI)
  fix d d' :: context_db
  assume d: "db_inv d" "insert_event e d = Some d'"
  then have new: "\<And>f. f \<in> set (cx_events d) \<Longrightarrow> \<not> same_event e f"
      "\<And>f. f \<in> set (cx_events d) \<Longrightarrow> (se_run_id f, se_sequence f) \<noteq> (se_run_id e, se_sequence e)"
      "has_run (se_run_id e) d" and d': "d' = d\<lparr>cx_events := cx_events d @ [e]\<rparr>"
    by (auto simp: insert_event_def list_ex_iff split: if_splits)
  have "se_event_id e \<notin> se_event_id ` set (cx_events d)"
    using new(1) by (auto simp: same_event_def)
  moreover have "(se_run_id e, se_sequence e) \<notin> (\<lambda>e. (se_run_id e, se_sequence e)) ` set (cx_events d)"
    using new(2) by force
  moreover have "distinct (event_keys (cx_events d @ [e]))"
    using d(1) new(1) by (force simp: db_inv_def event_keys_def same_event_def)
  ultimately show "db_inv d' \<and> grown d d'"
    using d(1) new(3) unfolding d' db_inv_def grown_def has_run_def
    by (simp add: image_Un)
qed

lemma sound_message [sound_statements]: "sound_statement (insert_message m)"
proof (rule sound_statementI)
  fix d d' :: context_db
  assume d: "db_inv d" "insert_message m d = Some d'"
  then have "d' = d\<lparr>cx_messages := cx_messages d @ [m]\<rparr>" by (simp add: insert_message_def split: if_splits)
  with d show "db_inv d' \<and> grown d d'"
    unfolding insert_message_def has_run_def db_inv_def grown_def by (simp add: image_Un subset_insertI2 split: if_splits)
qed

lemma sound_item [sound_statements]: "sound_statement (insert_item c)"
proof (rule sound_statementI)
  fix d d' :: context_db
  assume d: "db_inv d" "insert_item c d = Some d'"
  then have "d' = d\<lparr>cx_items := cx_items d @ [c]\<rparr>" by (simp add: insert_item_def split: if_splits)
  with d show "db_inv d' \<and> grown d d'"
    unfolding insert_item_def has_run_def db_inv_def grown_def by (simp add: image_Un subset_insertI2 split: if_splits)
qed

lemma sound_statement_bind:
  assumes "sound_statement f" "sound_statement g"
  shows "sound_statement (\<lambda>d. case f d of None \<Rightarrow> None | Some d' \<Rightarrow> g d')"
proof (rule sound_statementI)
  fix d d' :: context_db
  assume d: "db_inv d" "(case f d of None \<Rightarrow> None | Some d' \<Rightarrow> g d') = Some d'"
  then obtain d1 where "f d = Some d1" "g d1 = Some d'" by (cases "f d") auto
  with assms d(1) show "db_inv d' \<and> grown d d'" unfolding sound_statement_def by (blast intro: grown_trans)
qed

lemma sound_items [sound_statements]: "sound_statement (insert_items cs)"
proof (induction cs)
  case Nil
  show ?case by (simp add: sound_statement_def)
next
  case (Cons c cs)
  have "insert_items (c # cs) = (\<lambda>d. case insert_item c d of None \<Rightarrow> None | Some d' \<Rightarrow> insert_items cs d')"
    by (rule ext) simp
  then show ?case by (simp only:) (rule sound_statement_bind [OF sound_item Cons.IH])
qed

lemma sound_snapshot [sound_statements]: "sound_statement (insert_snapshot_row s)"
proof (rule sound_statementI)
  fix d d' :: context_db
  assume d: "db_inv d" "insert_snapshot_row s d = Some d'"
  then have "d' = d\<lparr>cx_snapshots := cx_snapshots d @ [s]\<rparr>" by (simp add: insert_snapshot_row_def split: if_splits)
  with d show "db_inv d' \<and> grown d d'"
    unfolding insert_snapshot_row_def has_run_def db_inv_def grown_def by (simp add: image_Un subset_insertI2 split: if_splits)
qed

lemma sound_checkpoint [sound_statements]: "sound_statement (insert_checkpoint_row c)"
proof (rule sound_statementI)
  fix d d' :: context_db
  assume d: "db_inv d" "insert_checkpoint_row c d = Some d'"
  then have "d' = d\<lparr>cx_checkpoints := cx_checkpoints d @ [c]\<rparr>" by (simp add: insert_checkpoint_row_def split: if_splits)
  with d show "db_inv d' \<and> grown d d'"
    unfolding insert_checkpoint_row_def has_run_def db_inv_def grown_def by (simp add: image_Un subset_insertI2 split: if_splits)
qed

lemma sound_ledger [sound_statements]: "sound_statement (insert_ledger l)"
proof (rule sound_statementI)
  fix d d' :: context_db
  assume d: "db_inv d" "insert_ledger l d = Some d'"
  then have "d' = d\<lparr>cx_ledger := cx_ledger d @ [l]\<rparr>" by (simp add: insert_ledger_def split: if_splits)
  with d show "db_inv d' \<and> grown d d'"
    unfolding insert_ledger_def has_run_def db_inv_def grown_def by (simp add: image_Un subset_insertI2 split: if_splits)
qed

lemma sound_seen_again [sound_statements]:
  "sound_statement (\<lambda>d. Some (d\<lparr>cx_ledger := update_where (\<lambda>x. le_operation_id x = op)
     (\<lambda>x. x\<lparr>le_last_seen_at := now, le_seen_count := n\<rparr>) (cx_ledger d)\<rparr>))"
proof (rule sound_statementI)
  fix d d' :: context_db
  let ?u = "update_where (\<lambda>x. le_operation_id x = op) (\<lambda>x. x\<lparr>le_last_seen_at := now, le_seen_count := n\<rparr>) (cx_ledger d)"
  assume d: "db_inv d" "Some (d\<lparr>cx_ledger := ?u\<rparr>) = Some d'"
  have "map le_operation_id ?u = map le_operation_id (cx_ledger d)" by (simp add: map_update_where)
  moreover have "d' = d\<lparr>cx_ledger := ?u\<rparr>" using d(2) by simp
  ultimately show "db_inv d' \<and> grown d d'" using d(1) unfolding db_inv_def grown_def by simp
qed

text \<open>A task state keeps its place, and its revision does not decrease.\<close>

lemma sound_upsert:
  assumes "ts_revision x = next_revision bump (ts_task_id x) d" "db_inv d" "upsert_row x d = Some d'"
  shows "db_inv d' \<and> grown d d'"
proof (cases "task_row (ts_task_id x) d")
  case None
  with assms(3) have new: "has_run (ts_run_id x) d" and d': "d' = d\<lparr>cx_task_states := cx_task_states d @ [x]\<rparr>"
    by (simp_all add: upsert_row_def split: if_splits)
  have "ts_task_id x \<notin> ts_task_id ` set (cx_task_states d)"
    using None by (auto simp: task_row_def find_None_iff)
  moreover have "revisions_grow d d'"
    unfolding revisions_grow_def d' by (auto simp: revision_of_def task_row_def find_append)
  ultimately show ?thesis
    using assms(2) new unfolding d' db_inv_def grown_def has_run_def by (simp add: image_Un subset_insertI2)
next
  case (Some y)
  let ?u = "update_where (\<lambda>y. ts_task_id y = ts_task_id x) (\<lambda>_. x) (cx_task_states d)"
  have new: "has_run (ts_run_id x) d" and d': "d' = d\<lparr>cx_task_states := ?u\<rparr>"
    using assms(3) Some by (simp_all add: upsert_row_def split: if_splits)
  have "map ts_task_id ?u = map ts_task_id (cx_task_states d)" by (simp add: map_update_where)
  moreover have "ts_run_id ` set ?u \<subseteq> cr_run_id ` set (cx_runs d)"
  proof -
    have "ts_run_id ` set (cx_task_states d) \<subseteq> cr_run_id ` set (cx_runs d)" using assms(2) by (simp add: db_inv_def)
    then show ?thesis using new by (force simp: set_update_where has_run_def)
  qed
  moreover have "revisions_grow d d'"
  proof -
    have "ts_revision y \<le> ts_revision x" using assms(1) Some by (simp add: next_revision_def)
    moreover have "task_row t d' = (if t = ts_task_id x then Some x else task_row t d)" for t
    proof -
      have "task_row t d' = map_option (\<lambda>y. if ts_task_id y = ts_task_id x then x else y) (task_row t d)"
        unfolding d' task_row_def by simp (rule find_update_where, simp)
      moreover have "task_row t d = Some z \<Longrightarrow> ts_task_id z = t" for z
        by (auto simp: task_row_def dest: find_SomeD)
      ultimately show ?thesis using Some by (cases "task_row t d") auto
    qed
    ultimately show ?thesis using Some by (auto simp: revisions_grow_def revision_of_def)
  qed
  ultimately show ?thesis
    using assms(2) unfolding d' db_inv_def grown_def by simp
qed

section \<open>Calls\<close>

text \<open>What every call does to the connection: while a transaction is open, nothing is committed.\<close>

definition repo_inv :: "repo \<Rightarrow> bool" where
  "repo_inv r \<longleftrightarrow> db_inv (rp_db r) \<and> (\<forall>d. rp_open r = Some d \<longrightarrow> db_inv d \<and> grown (rp_db r) d)"

definition proper_call :: "repo \<Rightarrow> repo \<Rightarrow> bool" where
  "proper_call r r' \<longleftrightarrow> (repo_inv r \<longrightarrow> repo_inv r' \<and> grown (rp_db r) (rp_db r')) \<and>
     (rp_open r \<noteq> None \<longrightarrow> rp_db r' = rp_db r)"

named_theorems proper_calls \<open>the calls of the repository are proper\<close>

lemma proper_refl [intro, simp]: "proper_call r r"
  by (simp add: proper_call_def)

lemma proper_roll_back [simp]: "proper_call r (rolled_back r)"
  by (simp add: proper_call_def rolled_back_def repo_inv_def)

lemma proper_txn: "sound_statement f \<Longrightarrow> proper_call r (snd (exec_txn f r))"
  by (auto simp: exec_txn_def proper_call_def repo_inv_def sound_statement_def rolled_back_def split: option.splits)

lemma proper_bind_answer:
  "proper_call r (snd (bind_answer (exec_txn f r) (\<lambda>x r'. (g x, r'))))" if "sound_statement f"
  using proper_txn [OF that] by (simp add: bind_answer_def split: sum.splits)

lemma proper_create_conversation [proper_calls]: "proper_call r (snd (create_conversation J c metadata now r))"
  by (simp add: create_conversation_def sound_statements proper_txn split: option.splits)

lemma proper_start_run [proper_calls]:
  "proper_call r (snd (start_run J run_id c agent role task metadata now r))"
proof (cases "rp_open r")
  case (Some d)
  then show ?thesis by (simp add: start_run_def bind_answer_def exec_txn_def)
next
  case None
  let ?r1 = "snd (exec_txn (insert_or_ignore_conversation c now (PDict [])) r)"
  have one: "proper_call r ?r1" by (simp add: sound_statements proper_txn)
  moreover have "proper_call ?r1 r2 \<Longrightarrow> proper_call r r2" for r2
    using one None unfolding proper_call_def by (auto intro: grown_trans)
  ultimately show ?thesis
    by (auto simp: start_run_def bind_answer_def sound_statements proper_txn split: sum.splits option.splits)
qed

lemma proper_end_run [proper_calls]: "now \<noteq> [] \<Longrightarrow> proper_call r (snd (end_run run_id reason now r))"
  unfolding end_run_def by (rule proper_txn) (rule sound_finish)

lemma proper_append_session_event [proper_calls]: "proper_call r (snd (append_session_event J e r))"
  by (simp add: append_session_event_def sound_statements proper_bind_answer split: option.splits)

lemma proper_store_message [proper_calls]: "proper_call r (snd (store_message J m metadata r))"
  by (simp add: store_message_def sound_statements proper_txn split: option.splits)

lemma proper_append_message_auto [proper_calls]: "proper_call r (snd (append_message_auto J m metadata r))"
  using proper_store_message by (simp add: append_message_auto_def Let_def bind_answer_def split: sum.splits)

lemma proper_insert_context_item [proper_calls]: "proper_call r (snd (insert_context_item J c r))"
  by (simp add: insert_context_item_def sound_statements proper_txn split: option.splits)

lemma proper_insert_context_items [proper_calls]: "proper_call r (snd (insert_context_items J cs r))"
  by (simp add: insert_context_items_def sound_statements proper_bind_answer split: option.splits)

lemma proper_insert_snapshot [proper_calls]: "proper_call r (snd (insert_snapshot J s r))"
  by (simp add: insert_snapshot_def sound_statements proper_txn split: option.splits)

lemma proper_insert_checkpoint [proper_calls]: "proper_call r (snd (insert_checkpoint J c r))"
  by (simp add: insert_checkpoint_def sound_statements proper_txn split: option.splits)

lemma proper_record_operation [proper_calls]: "proper_call r (snd (record_operation op kind hash run now r))"
  by (simp add: record_operation_def sound_statements proper_bind_answer split: option.splits)

lemma proper_append_auto [proper_calls]: "proper_call r (snd (append_auto J e r))"
proof (cases "rp_open r")
  case (Some d)
  then show ?thesis by (simp add: append_auto_def Let_def split: sum.splits option.splits)
next
  case None
  have "\<And>f d. insert_event f (rp_db r) = Some d \<Longrightarrow> repo_inv r \<Longrightarrow> db_inv d \<and> grown (rp_db r) d"
    using sound_event by (auto simp: sound_statement_def repo_inv_def)
  with None show ?thesis
    by (auto simp: append_auto_def Let_def proper_call_def repo_inv_def split: sum.splits option.splits)
qed

lemma sound_upsert_statement:
  assumes "db_inv d" "upsert_statement J task run_id status payload bump now d = Inr (n, d')"
  shows "db_inv d' \<and> grown d d'"
proof -
  from assms(2) obtain v where "upsert_row \<lparr>ts_task_id = task, ts_run_id = run_id, ts_status = status,
      ts_revision = next_revision bump task d, ts_payload = v, ts_updated_at = now\<rparr> d = Some d'"
    by (auto simp: upsert_statement_def Let_def split: option.splits)
  then show ?thesis by (rule sound_upsert [rotated 2]) (simp_all add: assms(1))
qed

lemma proper_upsert_task_state [proper_calls]:
  "proper_call r (snd (upsert_task_state J task run_id status payload bump now r))"
proof (cases "upsert_statement J task run_id status payload bump now (seen r)")
  case (Inl x)
  then show ?thesis by (simp add: upsert_task_state_def)
next
  case (Inr y)
  obtain n d where y: "y = (n, d)" by (cases y)
  have "repo_inv r \<Longrightarrow> db_inv d \<and> grown (seen r) d"
    using sound_upsert_statement Inr unfolding y by (auto simp: repo_inv_def seen_def split: option.splits)
  then show ?thesis
    using Inr unfolding y
    by (cases "rp_open r")
      (auto simp: upsert_task_state_def bind_answer_def exec_plain_def proper_call_def repo_inv_def seen_def intro: grown_trans)
qed

section \<open>The composite commit\<close>

definition sound_progress :: "context_db \<Rightarrow> progress \<Rightarrow> bool" where
  "sound_progress d p = (case p of Inl (_, d') \<Rightarrow> db_inv d' \<and> grown d d' | Inr d' \<Rightarrow> db_inv d' \<and> grown d d')"

lemma sound_progress_then_do:
  assumes "sound_progress d p" "\<And>d'. db_inv d' \<Longrightarrow> sound_progress d' (k d')"
  shows "sound_progress d (then_do p k)"
proof (cases p)
  case (Inl x)
  with assms(1) show ?thesis by (simp add: then_do_def)
next
  case (Inr d1)
  with assms(1) have "db_inv d1" and one: "grown d d1" by (simp_all add: sound_progress_def)
  then have "sound_progress d1 (k d1)" by (simp add: assms(2))
  then show ?thesis using one Inr by (auto simp: then_do_def sound_progress_def split: sum.splits intro: grown_trans)
qed

lemma sound_progress_statement:
  "sound_statement f \<Longrightarrow> db_inv d \<Longrightarrow> sound_progress d (statement (f d) d)"
  by (auto simp: statement_def sound_progress_def sound_statement_def split: option.splits)

lemma sound_progress_stay: "db_inv d \<Longrightarrow> sound_progress d (Inl (x, d))" "db_inv d \<Longrightarrow> sound_progress d (Inr d)"
  by (simp_all add: sound_progress_def)

lemma sound_step_updates: "db_inv d \<Longrightarrow> sound_progress d (step_updates J run_id now us d)"
proof (induction us arbitrary: d)
  case Nil
  then show ?case by (simp add: sound_progress_def)
next
  case (Cons u us)
  obtain task status payload where u: "u = (task, status, payload)" by (cases u)
  show ?case
  proof (cases "upsert_statement J task run_id status payload True now d")
    case (Inl x)
    then show ?thesis using Cons.prems by (simp add: u sound_progress_def)
  next
    case (Inr y)
    obtain n d1 where y: "y = (n, d1)" by (cases y)
    with Inr Cons.prems have one: "db_inv d1 \<and> grown d d1" using sound_upsert_statement by simp
    then have "sound_progress d1 (step_updates J run_id now us d1)" by (simp add: Cons.IH)
    with one show ?thesis
      by (auto simp: u Inr y sound_progress_def split: sum.splits intro: grown_trans)
  qed
qed

lemma sound_step_body:
  assumes "db_inv d"
  shows "sound_progress d (step_body J s now d)"
  unfolding step_body_def
proof (intro sound_progress_then_do)
  show "sound_progress d (step_event J (st_event s) d)"
    using assms by (auto simp: step_event_def sound_statements sound_progress_stay intro: sound_progress_statement split: option.splits)
qed (auto simp: step_items_def step_snapshot_def step_checkpoint_def sound_statements sound_progress_stay sound_step_updates
       intro: sound_progress_statement split: option.splits)

lemma proper_commit [proper_calls]: "proper_call r (snd (commit_runtime_step J s now r))"
proof (cases "event_error (st_event s) = None \<and> items_error (st_items s) = None \<and>
    existing_event (st_event s) (seen r) = None \<and> rp_open r = None")
  case False
  then show ?thesis by (auto simp: commit_runtime_step_def split: option.splits)
next
  case True
  have body: "repo_inv r \<Longrightarrow> sound_progress (rp_db r) (step_body J s now (rp_db r))"
    by (simp add: repo_inv_def sound_step_body)
  show ?thesis
  proof (cases "step_body J s now (rp_db r)")
    case (Inr d)
    with body True show ?thesis
      by (simp add: commit_runtime_step_def proper_call_def repo_inv_def sound_progress_def)
  next
    case (Inl y)
    obtain x d where y: "y = (x, d)" by (cases y)
    show ?thesis
    proof (cases "x = NotSerialisable")
      case True
      with Inl y body \<open>event_error (st_event s) = None \<and> _\<close> show ?thesis
        by (simp add: commit_runtime_step_def proper_call_def repo_inv_def sound_progress_def)
    next
      case False
      then have "snd (commit_runtime_step J s now r) = r"
        using True Inl y by (cases x) (simp_all add: commit_runtime_step_def)
      then show ?thesis by simp
    qed
  qed
qed

lemma proper_step: "repo_step J r r' \<Longrightarrow> proper_call r r'"
  by (induction rule: repo_step.induct) (rule proper_calls, assumption?)+

section \<open>Executions\<close>

interpretation repo: preserving repo_inv "repo_step J" for J
  by unfold_locales (use proper_step in \<open>auto simp: proper_call_def\<close>)

interpretation repo_events: append_only repo_inv "repo_step J" "\<lambda>r. cx_events (rp_db r)" for J
  by unfold_locales (use proper_step in \<open>auto simp: proper_call_def grown_def\<close>)

interpretation repo_revisions: monotone_reading repo_inv "repo_step J" "\<lambda>r. revision_of (rp_db r)" for J
  by unfold_locales (use proper_step in \<open>fastforce simp: proper_call_def grown_def revisions_grow_def\<close>)

lemma repo_grown: "(repo_step J)\<^sup>*\<^sup>* r r' \<Longrightarrow> repo_inv r \<Longrightarrow> grown (rp_db r) (rp_db r')"
  by (erule repo.lift_steps) (use proper_step in \<open>auto simp: proper_call_def intro: grown_trans\<close>)

lemma repo_inv_open_repo: "db_inv d \<Longrightarrow> repo_inv (open_repo d)"
  by (simp add: repo_inv_def open_repo_def)

lemma db_inv_empty: "db_inv empty_context_db"
  by (simp add: db_inv_def empty_context_db_def event_keys_def)

lemma repo_inv_seen: "repo_inv r \<Longrightarrow> db_inv (seen r) \<and> grown (rp_db r) (seen r)"
  by (auto simp: repo_inv_def seen_def split: option.splits)

end
