(* ===== verification/Context_Repo_Props.thy ===== *)
theory Context_Repo_Props
  imports Context_Repo_Inv
begin

text \<open>
  What the context repository promises, over executions of \<open>repo_step\<close>: the log of events is append-only
  with one sequence per run, an event is appended once, a composite commit stores every part or nothing, a
  side effect is told to proceed once. Where the promise depends on no transaction being left open, the
  hypothesis says so, and what happens with an open transaction is a theorem of its own.
\<close>

section \<open>Events\<close>

lemma same_event_iff:
  "se_event_id e = se_event_id e' \<Longrightarrow> se_run_id e = se_run_id e' \<Longrightarrow>
   se_idempotency_key e = se_idempotency_key e' \<Longrightarrow> same_event e f = same_event e' f"
  by (simp add: same_event_def)

lemma same_event_refl [simp]: "same_event e e"
  by (simp add: same_event_def)

text \<open>Of the rows of a table, one at most is the same event as one of them.\<close>

lemma event_keys_same:
  assumes "distinct (event_keys es)" "e \<in> set es" "f \<in> set es" "se_run_id e = se_run_id f"
    "se_idempotency_key e = se_idempotency_key f" "se_idempotency_key f \<noteq> PNone"
  shows "e = f"
  using assms by (auto simp: event_keys_def distinct_map inj_on_def)

lemma same_event_unique:
  assumes "db_inv d" "e \<in> set (cx_events d)" "f \<in> set (cx_events d)" "same_event e f"
  shows "e = f"
  using assms distinct_map_eqD [of se_event_id "cx_events d" e f] event_keys_same [of "cx_events d" e f]
  by (auto simp: same_event_def db_inv_def)

lemma existing_event_stored:
  assumes "db_inv d" "f \<in> set (cx_events d)" "se_event_id e = se_event_id f" "se_run_id e = se_run_id f"
    "se_idempotency_key e = se_idempotency_key f"
  shows "existing_event e d = Some f"
proof -
  have "same_event e f" using assms(3) by (simp add: same_event_def)
  then have "find (same_event e) (cx_events d) \<noteq> None"
    using assms(2) by (auto simp: find_None_iff)
  then obtain g where g: "find (same_event e) (cx_events d) = Some g" by blast
  then have "g \<in> set (cx_events d)" "same_event e g" by (auto dest: find_SomeD)
  moreover have "same_event e g = same_event f g" using assms(3-5) by (rule same_event_iff)
  ultimately have "f = g" using same_event_unique [OF assms(1,2)] by blast
  with g show ?thesis by (simp add: existing_event_def)
qed

lemma last_sequence_upper: "e \<in> set (cx_events d) \<Longrightarrow> se_run_id e = i \<Longrightarrow> se_sequence e \<le> last_sequence i d"
  unfolding last_sequence_def Let_def by (auto simp: filter_empty_conv intro!: Max_ge)

lemma with_payload_simps [simp]:
  "se_event_id (with_payload e v) = se_event_id e" "se_run_id (with_payload e v) = se_run_id e"
  "se_idempotency_key (with_payload e v) = se_idempotency_key e" "se_sequence (with_payload e v) = se_sequence e"
  "se_event_type (with_payload e v) = se_event_type e" "se_conversation_id (with_payload e v) = se_conversation_id e"
  by (simp_all add: with_payload_def)

lemma append_auto_True:
  assumes "append_auto J e r = (Inr (True, n), r')"
  shows "rp_open r = None \<and> rp_open r' = None \<and> n = last_sequence (se_run_id e) (rp_db r) + 1 \<and>
    (\<exists>f. cx_events (rp_db r') = cx_events (rp_db r) @ [f] \<and> se_event_id f = se_event_id e \<and>
       se_run_id f = se_run_id e \<and> se_idempotency_key f = se_idempotency_key e \<and> se_sequence f = n)"
  using assms
  by (auto simp: append_auto_def Let_def insert_event_def split: sum.splits option.splits if_splits)

text \<open>
  An event is appended once. The first append takes a sequence above every sequence of the run; every
  later append of an event with its identity, run and key, whatever happened in between, answers with
  that sequence and stores nothing. No transaction may be left open on the connection then, and the event
  must be valid.
\<close>

theorem auto_event_once:
  assumes "(repo_step J)\<^sup>*\<^sup>* (open_repo empty_context_db) r"
    and "append_auto J e r = (Inr (True, n), r1)"
    and "(repo_step J)\<^sup>*\<^sup>* r1 r2" "rp_open r2 = None"
    and "se_event_id e2 = se_event_id e" "se_run_id e2 = se_run_id e" "se_idempotency_key e2 = se_idempotency_key e"
    and "payload_version (se_payload e2) = Inr 1" "event_error (e2\<lparr>se_sequence := 0, se_schema_version := 1\<rparr>) = None"
  shows "(\<forall>f. f \<in> set (cx_events (rp_db r)) \<and> se_run_id f = se_run_id e \<longrightarrow> se_sequence f < n) \<and>
    append_auto J e2 r2 = (Inr (False, n), r2)"
proof
  show "\<forall>f. f \<in> set (cx_events (rp_db r)) \<and> se_run_id f = se_run_id e \<longrightarrow> se_sequence f < n"
    using last_sequence_upper append_auto_True [OF assms(2)] by fastforce
  have r: "repo_inv r" by (rule repo.inv_steps [OF assms(1)]) (simp add: repo_inv_open_repo db_inv_empty)
  obtain f where row: "cx_events (rp_db r1) = cx_events (rp_db r) @ [f]" "se_event_id f = se_event_id e"
      "se_run_id f = se_run_id e" "se_idempotency_key f = se_idempotency_key e" "se_sequence f = n"
    using append_auto_True [OF assms(2)] by blast
  have r1: "repo_inv r1" using repo.inv_step [OF r repo_step.auto_event [of J r e]] assms(2) by simp
  then have "prefix (cx_events (rp_db r1)) (cx_events (rp_db r2))" by (rule repo_events.log_steps [OF assms(3)])
  then have "f \<in> set (cx_events (rp_db r2))" unfolding row(1) by (auto dest: set_mono_prefix)
  moreover have "db_inv (rp_db r2)" using repo.inv_steps [OF assms(3) r1] by (simp add: repo_inv_def)
  ultimately have "existing_event (e2\<lparr>se_sequence := 0, se_schema_version := 1\<rparr>) (rp_db r2) = Some f"
    by (intro existing_event_stored) (simp_all add: row assms(5-7))
  then show "append_auto J e2 r2 = (Inr (False, n), r2)"
    using assms(4,8,9) row(5) by (simp add: append_auto_def)
qed

section \<open>Composite commits\<close>

text \<open>The task states a list of updates leaves: of several updates of one task the last one counts.\<close>

lemma upsert_statement_row:
  assumes "upsert_statement J task run_id status payload bump now d = Inr (n, d')"
  shows "cx_events d' = cx_events d \<and> cx_items d' = cx_items d \<and> cx_snapshots d' = cx_snapshots d \<and>
    cx_checkpoints d' = cx_checkpoints d \<and>
    (\<forall>t. t \<noteq> task \<longrightarrow> task_row t d' = task_row t d) \<and>
    (\<exists>v. J payload = Some v \<and> task_row task d' = Some \<lparr>ts_task_id = task, ts_run_id = run_id, ts_status = status,
       ts_revision = next_revision bump task d, ts_payload = v, ts_updated_at = now\<rparr>)"
proof -
  obtain v where v: "J payload = Some v" and up: "upsert_row \<lparr>ts_task_id = task, ts_run_id = run_id, ts_status = status,
      ts_revision = next_revision bump task d, ts_payload = v, ts_updated_at = now\<rparr> d = Some d'" (is "upsert_row ?x d = _")
    using assms by (auto simp: upsert_statement_def Let_def split: option.splits)
  show ?thesis
  proof (cases "task_row task d")
    case None
    then have "d' = d\<lparr>cx_task_states := cx_task_states d @ [?x]\<rparr>"
      using up by (simp add: upsert_row_def split: if_splits)
    with None v show ?thesis by (auto simp: task_row_def find_append split: option.splits)
  next
    case (Some y)
    then have d': "d' = d\<lparr>cx_task_states := update_where (\<lambda>y. ts_task_id y = task) (\<lambda>_. ?x) (cx_task_states d)\<rparr>"
      using up by (simp add: upsert_row_def split: if_splits)
    have row: "task_row t d' = map_option (\<lambda>y. if ts_task_id y = task then ?x else y) (task_row t d)" for t
      unfolding d' task_row_def by simp (rule find_update_where, simp)
    have key: "task_row t d = Some z \<Longrightarrow> ts_task_id z = t" for t z
      by (auto simp: task_row_def dest: find_SomeD)
    have "task_row t d' = task_row t d" if "t \<noteq> task" for t
      using row [of t] key [of t] that by (cases "task_row t d") auto
    moreover have "task_row task d' = Some ?x" using row [of task] key [OF Some] Some by simp
    ultimately show ?thesis using v unfolding d' by simp
  qed
qed

definition updated_row :: "(pval \<Rightarrow> pval option) \<Rightarrow> ident \<Rightarrow> string \<Rightarrow> pval \<Rightarrow> task_state option \<Rightarrow> bool" where
  "updated_row J run_id status payload x \<longleftrightarrow>
     (\<exists>y. x = Some y \<and> ts_run_id y = run_id \<and> ts_status y = status \<and> J payload = Some (ts_payload y))"

lemma step_updates_rows:
  assumes "step_updates J run_id now us d = Inr d'"
  shows "cx_events d' = cx_events d \<and> cx_items d' = cx_items d \<and> cx_snapshots d' = cx_snapshots d \<and>
    cx_checkpoints d' = cx_checkpoints d \<and>
    (\<forall>t. case map_of (rev us) t of None \<Rightarrow> task_row t d' = task_row t d
       | Some (status, payload) \<Rightarrow> updated_row J run_id status payload (task_row t d'))"
  using assms
proof (induction us arbitrary: d)
  case Nil
  then show ?case by simp
next
  case (Cons u us)
  obtain task status payload where u: "u = (task, status, payload)" by (cases u)
  from Cons.prems obtain n d1 where one: "upsert_statement J task run_id status payload True now d = Inr (n, d1)"
    and rest: "step_updates J run_id now us d1 = Inr d'"
    by (auto simp: u split: sum.splits)
  note up = upsert_statement_row [OF one]
  have "case map_of (rev (u # us)) t of None \<Rightarrow> task_row t d' = task_row t d
       | Some (status, payload) \<Rightarrow> updated_row J run_id status payload (task_row t d')" for t
  proof (cases "map_of (rev us) t")
    case None
    then have "task_row t d' = task_row t d1" using Cons.IH [OF rest] by (auto split: option.splits dest: spec [of _ t])
    with None up show ?thesis by (cases "t = task") (auto simp: u map_add_def updated_row_def)
  next
    case (Some p)
    with Cons.IH [OF rest] show ?thesis by (auto simp: u map_add_def split: option.splits dest: spec [of _ t])
  qed
  with Cons.IH [OF rest] up show ?case by simp
qed

lemma insert_items_rows:
  "insert_items xs d = Some d' \<Longrightarrow> cx_items d' = cx_items d @ xs \<and> cx_events d' = cx_events d \<and>
     cx_task_states d' = cx_task_states d \<and> cx_snapshots d' = cx_snapshots d \<and> cx_checkpoints d' = cx_checkpoints d"
proof (induction xs arbitrary: d)
  case Nil
  then show ?case by simp
next
  case (Cons x xs)
  then obtain d1 where "insert_item x d = Some d1" and rest: "insert_items xs d1 = Some d'"
    by (auto split: option.splits)
  then have "d1 = d\<lparr>cx_items := cx_items d @ [x]\<rparr>" by (simp add: insert_item_def split: if_splits)
  with Cons.IH [OF rest] show ?case by simp
qed

lemma then_do_Inr: "then_do p k = Inr d \<Longrightarrow> \<exists>d1. p = Inr d1 \<and> k d1 = Inr d"
  by (cases p) (simp_all add: then_do_def)

lemma statement_Inr: "statement res d = Inr d' \<Longrightarrow> res = Some d'"
  by (cases res) (simp_all add: statement_def)

text \<open>What a committed step has stored, part by part.\<close>

definition optional_row :: "('a \<Rightarrow> 'a option) \<Rightarrow> 'a option \<Rightarrow> 'a list \<Rightarrow> bool" where
  "optional_row row x added \<longleftrightarrow> (case x of None \<Rightarrow> added = [] | Some y \<Rightarrow> (\<exists>z. row y = Some z \<and> added = [z]))"

definition step_stored :: "(pval \<Rightarrow> pval option) \<Rightarrow> runtime_step \<Rightarrow> context_db \<Rightarrow> context_db \<Rightarrow> bool" where
  "step_stored J s d d' \<longleftrightarrow>
     (\<exists>v. J (PDict (se_payload (st_event s))) = Some v \<and> cx_events d' = cx_events d @ [with_payload (st_event s) v]) \<and>
     (\<forall>t. case map_of (rev (st_updates s)) t of None \<Rightarrow> task_row t d' = task_row t d
        | Some (status, payload) \<Rightarrow> updated_row J (st_run_id s) status payload (task_row t d')) \<and>
     (\<exists>xs. item_rows J (st_items s) = Some xs \<and> cx_items d' = cx_items d @ xs) \<and>
     (\<exists>ys. optional_row (snapshot_row J) (st_snapshot s) ys \<and> cx_snapshots d' = cx_snapshots d @ ys) \<and>
     (\<exists>zs. optional_row (checkpoint_row J) (st_checkpoint s) zs \<and> cx_checkpoints d' = cx_checkpoints d @ zs)"

lemma step_event_rows:
  assumes "step_event J e d = Inr d'"
  shows "\<exists>v. J (PDict (se_payload e)) = Some v \<and> d' = d\<lparr>cx_events := cx_events d @ [with_payload e v]\<rparr>"
  using assms by (auto simp: step_event_def insert_event_def dest!: statement_Inr split: option.splits if_splits)

lemma step_items_rows:
  assumes "step_items J cs d = Inr d'"
  shows "(\<exists>xs. item_rows J cs = Some xs \<and> cx_items d' = cx_items d @ xs) \<and> cx_events d' = cx_events d \<and>
    cx_task_states d' = cx_task_states d \<and> cx_snapshots d' = cx_snapshots d \<and> cx_checkpoints d' = cx_checkpoints d"
proof (cases "cs = []")
  case True
  with assms show ?thesis by (simp add: step_items_def)
next
  case False
  with assms obtain xs where "item_rows J cs = Some xs" "insert_items xs d = Some d'"
    by (auto simp: step_items_def dest!: statement_Inr split: option.splits)
  with insert_items_rows show ?thesis by blast
qed

lemma step_snapshot_rows:
  assumes "step_snapshot J x d = Inr d'"
  shows "\<exists>ys. optional_row (snapshot_row J) x ys \<and> d' = d\<lparr>cx_snapshots := cx_snapshots d @ ys\<rparr>"
  using assms
  by (auto simp: step_snapshot_def insert_snapshot_row_def optional_row_def dest!: statement_Inr split: option.splits if_splits)

lemma step_checkpoint_rows:
  assumes "step_checkpoint J x d = Inr d'"
  shows "\<exists>zs. optional_row (checkpoint_row J) x zs \<and> d' = d\<lparr>cx_checkpoints := cx_checkpoints d @ zs\<rparr>"
  using assms
  by (auto simp: step_checkpoint_def insert_checkpoint_row_def optional_row_def dest!: statement_Inr split: option.splits if_splits)

lemma step_body_stored:
  assumes "step_body J s now d = Inr d'"
  shows "step_stored J s d d'"
proof -
  obtain d1 d2 d3 d4 where steps: "step_event J (st_event s) d = Inr d1"
    "step_updates J (st_run_id s) now (st_updates s) d1 = Inr d2" "step_items J (st_items s) d2 = Inr d3"
    "step_snapshot J (st_snapshot s) d3 = Inr d4" "step_checkpoint J (st_checkpoint s) d4 = Inr d'"
    using assms unfolding step_body_def by (blast dest!: then_do_Inr)
  obtain v where v: "J (PDict (se_payload (st_event s))) = Some v"
    "d1 = d\<lparr>cx_events := cx_events d @ [with_payload (st_event s) v]\<rparr>"
    using step_event_rows [OF steps(1)] by blast
  note up = step_updates_rows [OF steps(2)]
  obtain xs where xs: "item_rows J (st_items s) = Some xs" "cx_items d3 = cx_items d2 @ xs" "cx_events d3 = cx_events d2"
    "cx_task_states d3 = cx_task_states d2" "cx_snapshots d3 = cx_snapshots d2" "cx_checkpoints d3 = cx_checkpoints d2"
    using step_items_rows [OF steps(3)] by blast
  obtain ys where ys: "optional_row (snapshot_row J) (st_snapshot s) ys" "d4 = d3\<lparr>cx_snapshots := cx_snapshots d3 @ ys\<rparr>"
    using step_snapshot_rows [OF steps(4)] by blast
  obtain zs where zs: "optional_row (checkpoint_row J) (st_checkpoint s) zs" "d' = d4\<lparr>cx_checkpoints := cx_checkpoints d4 @ zs\<rparr>"
    using step_checkpoint_rows [OF steps(5)] by blast
  have rows: "task_row t d' = task_row t d2" "task_row t d1 = task_row t d" for t
    by (simp_all add: task_row_def zs ys xs v)
  have "case map_of (rev (st_updates s)) t of None \<Rightarrow> task_row t d' = task_row t d
        | Some (status, payload) \<Rightarrow> updated_row J (st_run_id s) status payload (task_row t d')" for t
  proof -
    have "case map_of (rev (st_updates s)) t of None \<Rightarrow> task_row t d2 = task_row t d1
        | Some (status, payload) \<Rightarrow> updated_row J (st_run_id s) status payload (task_row t d2)"
      using up by blast
    then show ?thesis by (simp only: rows)
  qed
  moreover have "cx_events d' = cx_events d @ [with_payload (st_event s) v]" "cx_items d' = cx_items d @ xs"
    "cx_snapshots d' = cx_snapshots d @ ys" "cx_checkpoints d' = cx_checkpoints d @ zs"
    using up by (simp_all add: zs ys xs v)
  ultimately show ?thesis unfolding step_stored_def using v(1) xs(1) ys(1) zs(1) by blast
qed

text \<open>
  C19. A composite commit is atomic. When it answers true, every part of the step is committed: the event, the
  last update of every task, all items, the snapshot and the checkpoint. Any other answer, of an error or of
  a duplicate, leaves the committed database as it was.
\<close>

theorem commit_atomic:
  assumes "commit_runtime_step J s now r = (answer, r')"
  shows "if answer = Inr True then step_stored J s (rp_db r) (rp_db r') else rp_db r' = rp_db r"
proof (cases "step_body J s now (rp_db r)")
  case (Inr d)
  with assms step_body_stored [OF Inr] show ?thesis
    by (auto simp: commit_runtime_step_def rolled_back_def split: option.splits if_splits)
next
  case (Inl y)
  obtain x d where y: "y = (x, d)" by (cases y)
  with Inl assms show ?thesis
    by (auto simp: commit_runtime_step_def rolled_back_def split: option.splits if_splits repo_error.splits)
qed

section \<open>Open transactions\<close>

lemma step_body_fails_after_event:
  assumes "db_inv d" "step_body J s now d = Inl (x, d')" "J (PDict (se_payload (st_event s))) = Some v" "x \<noteq> IntegrityError"
  shows "with_payload (st_event s) v \<in> set (cx_events d') \<and> db_inv d'"
proof -
  define k where "k = (\<lambda>d1. then_do (step_updates J (st_run_id s) now (st_updates s) d1) (\<lambda>d2.
    then_do (step_items J (st_items s) d2) (\<lambda>d3. then_do (step_snapshot J (st_snapshot s) d3) (\<lambda>d4.
    step_checkpoint J (st_checkpoint s) d4))))"
  have body: "step_body J s now d = then_do (step_event J (st_event s) d) k" by (simp add: step_body_def k_def)
  have "step_event J (st_event s) d \<noteq> Inl (x, d')"
    using assms(3,4) by (auto simp: step_event_def statement_def split: option.splits)
  then obtain d1 where d1: "step_event J (st_event s) d = Inr d1" "k d1 = Inl (x, d')"
    using assms(2) unfolding body by (cases "step_event J (st_event s) d") (auto simp: then_do_def)
  have "insert_event (with_payload (st_event s) v) d = Some d1"
    using d1(1) assms(3) by (auto simp: step_event_def dest!: statement_Inr split: option.splits)
  then have inv: "db_inv d1" using sound_event assms(1) by (auto simp: sound_statement_def)
  have "with_payload (st_event s) v \<in> set (cx_events d1)" using step_event_rows [OF d1(1)] assms(3) by auto
  moreover have "sound_progress d1 (k d1)"
    unfolding k_def using inv
    by (intro sound_progress_then_do)
      (auto simp: step_items_def step_snapshot_def step_checkpoint_def sound_statements sound_progress_stay sound_step_updates
        intro: sound_progress_statement split: option.splits)
  ultimately show ?thesis
    unfolding d1(2) sound_progress_def grown_def by (auto dest: set_mono_prefix)
qed

text \<open>
  C22. A commit that dies of a value JSON cannot encode leaves its transaction open, with the event in it. A
  second attempt under the same event id is answered as a duplicate, although the event was never
  committed, and no next call commits anything, whatever it answers.
\<close>

theorem leaked_transaction:
  assumes "(repo_step J)\<^sup>*\<^sup>* (open_repo empty_context_db) r"
    and "commit_runtime_step J s now r = (Inl NotSerialisable, r1)"
    and "J (PDict (se_payload (st_event s))) \<noteq> None"
    and "se_event_id (st_event s2) = se_event_id (st_event s)"
    and "event_error (st_event s2) = None" "items_error (st_items s2) = None"
  shows "commit_runtime_step J s2 now2 r1 = (Inr False, r1) \<and> existing_event (st_event s) (rp_db r1) = None \<and>
    (\<forall>r2. repo_step J r1 r2 \<longrightarrow> rp_db r2 = rp_db r)"
proof -
  have r: "repo_inv r" by (rule repo.inv_steps [OF assms(1)]) (simp add: repo_inv_open_repo db_inv_empty)
  obtain v where v: "J (PDict (se_payload (st_event s))) = Some v" using assms(3) by blast
  obtain d where fresh: "existing_event (st_event s) (seen r) = None" "rp_open r = None"
    and body: "step_body J s now (rp_db r) = Inl (NotSerialisable, d)" and r1: "r1 = r\<lparr>rp_open := Some d\<rparr>"
    using assms(2) by (auto simp: commit_runtime_step_def split: option.splits sum.splits if_splits repo_error.splits)
  have "with_payload (st_event s) v \<in> set (cx_events d)"
    using step_body_fails_after_event [OF _ body v] r by (simp add: repo_inv_def)
  moreover have "same_event (st_event s2) (with_payload (st_event s) v)"
    using assms(4) by (simp add: same_event_def)
  ultimately have "existing_event (st_event s2) (seen r1) \<noteq> None"
    by (auto simp: existing_event_def seen_def r1 find_None_iff)
  then have "commit_runtime_step J s2 now2 r1 = (Inr False, r1)"
    using assms(5,6) by (simp add: commit_runtime_step_def)
  moreover have "existing_event (st_event s) (rp_db r1) = None"
    using fresh by (simp add: r1 seen_def)
  moreover have "repo_step J r1 r2 \<Longrightarrow> rp_db r2 = rp_db r" for r2
    using proper_step [of J r1 r2] by (simp add: proper_call_def r1)
  ultimately show ?thesis by blast
qed

section \<open>Side effects\<close>

text \<open>
  C21. The ledger tells a caller to go ahead with an operation at most once: after it has answered true for an
  operation, no later call for that operation, in any state that other calls lead to, answers true again.
\<close>

theorem side_effect_once:
  assumes "(repo_step J)\<^sup>*\<^sup>* (open_repo empty_context_db) r"
    and "record_operation op kind hash run now r = (Inr True, r1)" "(repo_step J)\<^sup>*\<^sup>* r1 r2"
  shows "fst (record_operation op kind2 hash2 run2 now2 r2) \<noteq> Inr True"
proof -
  have r: "repo_inv r" by (rule repo.inv_steps [OF assms(1)]) (simp add: repo_inv_open_repo db_inv_empty)
  have r1: "repo_inv r1" using repo.inv_step [OF r repo_step.operation [of J r op kind hash run now]] assms(2) by simp
  have "op \<in> set (map le_operation_id (cx_ledger (rp_db r1)))"
    using assms(2)
    by (auto simp: record_operation_def bind_answer_def exec_txn_def insert_ledger_def split: option.splits if_splits)
  moreover have "grown (rp_db r1) (seen r2)"
    using repo_grown [OF assms(3) r1] repo_inv_seen [OF repo.inv_steps [OF assms(3) r1]] by (blast intro: grown_trans)
  ultimately have "op \<in> set (map le_operation_id (cx_ledger (seen r2)))"
    unfolding grown_def by (blast dest: set_mono_prefix)
  then have "find (\<lambda>l. le_operation_id l = op) (cx_ledger (seen r2)) \<noteq> None"
    by (auto simp: find_None_iff)
  then show ?thesis
    by (auto simp: record_operation_def bind_answer_def exec_txn_def split: option.splits)
qed

section \<open>Readings\<close>

lemma events_listed:
  assumes "db_inv (seen r)"
  shows "sorted_wrt (<) (map se_sequence (list_session_events i n r))"
    and "set (list_session_events i n r) = {e \<in> set (cx_events (seen r)). se_run_id e = i \<and> n < se_sequence e}"
proof -
  let ?es = "filter (\<lambda>e. se_run_id e = i \<and> n < se_sequence e) (cx_events (seen r))"
  show "set (list_session_events i n r) = {e \<in> set (cx_events (seen r)). se_run_id e = i \<and> n < se_sequence e}"
    by (auto simp: list_session_events_def)
  have "distinct (map (\<lambda>e. (se_run_id e, se_sequence e)) ?es)"
    using assms by (auto simp: db_inv_def distinct_map intro: inj_on_subset)
  then have "distinct (map se_sequence ?es)"
    by (auto simp: distinct_map inj_on_def)
  then have "distinct (map se_sequence (sort_key se_sequence ?es))"
    by (simp add: distinct_map)
  then show "sorted_wrt (<) (map se_sequence (list_session_events i n r))"
    unfolding list_session_events_def by (simp add: strict_sorted_iff)
qed

text \<open>The window of the query is the window of \<open>is_active_at\<close>.\<close>

lemma active_items_listed:
  "list_context_items i (Some n) None None r =
     sort_key (\<lambda>c. (ci_valid_from_sequence c, - ci_priority c))
       (filter (\<lambda>c. ci_run_id c = i \<and> is_active_at n c) (cx_items (seen r)))"
  unfolding list_context_items_def is_active_at_def
  by (intro arg_cong [where f = "sort_key _"] filter_cong) (auto split: option.splits)

text \<open>
  C20. The committed database is consistent in every reachable state (the keys of every table are unique, one
  sequence and one idempotency key per event of a run, every row belongs to a known run) and only grows:
  events, messages, items, snapshots and checkpoints are append-only, runs and ledger entries are never
  removed, an ended run stays ended, and the revision of a task never decreases.
\<close>

theorem context_store_grows:
  assumes "(repo_step J)\<^sup>*\<^sup>* (open_repo empty_context_db) r" "(repo_step J)\<^sup>*\<^sup>* r r'"
  shows "db_inv (rp_db r') \<and> grown (rp_db r) (rp_db r')"
proof -
  have r: "repo_inv r" by (rule repo.inv_steps [OF assms(1)]) (simp add: repo_inv_open_repo db_inv_empty)
  show ?thesis using repo.inv_steps [OF assms(2) r] repo_grown [OF assms(2) r] by (simp add: repo_inv_def)
qed

section \<open>Examples\<close>

text \<open>An encoder that refuses objects which are not JSON, directly or as a value of a mapping.\<close>

definition demo_json :: "pval \<Rightarrow> pval option" where
  "demo_json v = (case v of
       POther _ \<Rightarrow> None
     | PDict kvs \<Rightarrow> if list_ex (\<lambda>kv. case snd kv of POther _ \<Rightarrow> True | _ \<Rightarrow> False) kvs then None else Some v
     | _ \<Rightarrow> Some v)"

definition demo_session_event :: "ident \<Rightarrow> session_event" where
  "demo_session_event i = \<lparr>se_event_id = i, se_conversation_id = ''c'', se_run_id = ''r'', se_sequence = 1,
     se_event_type = ''tool.started'', se_payload = [(PStr ''schema_version'', PInt 1)], se_created_at = ''t'',
     se_turn_id = PNone, se_idempotency_key = PNone, se_payload_ref = PNone, se_schema_version = 1\<rparr>"

definition demo_repo :: repo where
  "demo_repo = snd (start_run demo_json ''r'' ''c'' ''a'' ''a'' None None ''t'' (open_repo empty_context_db))"

lemma demo_repo_reached: "(repo_step demo_json)\<^sup>*\<^sup>* (open_repo empty_context_db) demo_repo"
  unfolding demo_repo_def by (rule r_into_rtranclp) (rule repo_step.run)

definition demo_appended :: repo where
  "demo_appended = snd (append_auto demo_json (demo_session_event ''e'') demo_repo)"

lemma demo_appended_answer:
  "append_auto demo_json (demo_session_event ''e'') demo_repo = (Inr (True, 1), demo_appended)"
  by code_simp

theorem auto_event_once_witness:
  "append_auto demo_json (demo_session_event ''e'') (snd (record_operation ''op'' ''bash'' ''h'' None ''t'' demo_appended)) =
     (Inr (False, 1), snd (record_operation ''op'' ''bash'' ''h'' None ''t'' demo_appended))"
proof -
  have "rp_open (snd (record_operation ''op'' ''bash'' ''h'' None ''t'' demo_appended)) = None"
    "payload_version (se_payload (demo_session_event ''e'')) = Inr 1"
    "event_error ((demo_session_event ''e'')\<lparr>se_sequence := 0, se_schema_version := 1\<rparr>) = None"
    by code_simp+
  then show ?thesis
    using auto_event_once [OF demo_repo_reached demo_appended_answer
        r_into_rtranclp [of "repo_step demo_json", OF repo_step.operation] _ refl refl refl]
    by blast
qed

text \<open>A step of one event and two updates of a task; with a payload that is no JSON the second update fails.\<close>

definition demo_step :: "pval \<Rightarrow> runtime_step" where
  "demo_step v = \<lparr>st_run_id = ''r'', st_event = demo_session_event ''e'',
     st_updates = [(''task'', ''running'', PDict []), (''task'', ''finished'', v)], st_items = [], st_snapshot = None,
     st_checkpoint = None\<rparr>"

theorem commit_atomic_witness:
  "step_stored demo_json (demo_step (PDict [])) (rp_db demo_repo)
     (rp_db (snd (commit_runtime_step demo_json (demo_step (PDict [])) ''t'' demo_repo)))"
proof -
  have "fst (commit_runtime_step demo_json (demo_step (PDict [])) ''t'' demo_repo) = Inr True" by code_simp
  with commit_atomic [OF prod.collapse [symmetric], of demo_json "demo_step (PDict [])" "''t''" demo_repo]
  show ?thesis by simp
qed

definition demo_leaked :: repo where
  "demo_leaked = snd (commit_runtime_step demo_json (demo_step (POther ''set'')) ''t'' demo_repo)"

theorem leaked_transaction_witness:
  "commit_runtime_step demo_json (demo_step (PDict [])) ''t'' demo_leaked = (Inr False, demo_leaked) \<and>
   existing_event (demo_session_event ''e'') (rp_db demo_leaked) = None"
proof -
  have "commit_runtime_step demo_json (demo_step (POther ''set'')) ''t'' demo_repo = (Inl NotSerialisable, demo_leaked)"
    "demo_json (PDict (se_payload (st_event (demo_step (POther ''set''))))) \<noteq> None"
    "se_event_id (st_event (demo_step (PDict []))) = se_event_id (st_event (demo_step (POther ''set'')))"
    "event_error (st_event (demo_step (PDict []))) = None" "items_error (st_items (demo_step (PDict []))) = None"
    by code_simp+
  from leaked_transaction [OF demo_repo_reached this] show ?thesis by (simp add: demo_step_def)
qed

definition demo_recorded :: repo where
  "demo_recorded = snd (record_operation ''op'' ''bash'' ''h'' None ''t'' demo_repo)"

theorem side_effect_once_witness:
  "fst (record_operation ''op'' ''bash'' ''h'' None ''t2'' (snd (append_auto demo_json (demo_session_event ''e'') demo_recorded)))
     \<noteq> Inr True"
proof -
  have "record_operation ''op'' ''bash'' ''h'' None ''t'' demo_repo = (Inr True, demo_recorded)" by code_simp
  then show ?thesis
    by (rule side_effect_once [OF demo_repo_reached]) (rule r_into_rtranclp, rule repo_step.auto_event)
qed

theorem context_store_grows_witness:
  "db_inv (rp_db demo_appended) \<and> grown (rp_db demo_repo) (rp_db demo_appended)"
  unfolding demo_appended_def
  by (rule context_store_grows [OF demo_repo_reached]) (rule r_into_rtranclp, rule repo_step.auto_event)

end
