(* ===== verification/Session_Props.thy ===== *)
theory Session_Props
  imports Session_Service Context_Repo_Props
begin

text \<open>
  What the session service promises about runs that stopped: exactly which of them it lets go on by
  themselves, that a closed run stays closed, and what a call identity that is used twice does to the
  decision.
\<close>

section \<open>Calls without a result\<close>

lemma started_calls_step:
  "started_calls str_of (es @ [e]) = (if se_event_type e = ''tool.started''
     then dict_set (tool_event_identity str_of e) e (started_calls str_of es) else started_calls str_of es)"
  by (simp add: started_calls_def)

lemma started_calls_keys:
  "fst ` set (started_calls str_of es) = tool_event_identity str_of ` {e \<in> set es. se_event_type e = ''tool.started''}"
proof (induction es rule: rev_induct)
  case Nil
  show ?case by (simp add: started_calls_def)
next
  case (snoc e es)
  have "fst ` set (dict_set k v kvs) = insert k (fst ` set kvs)" for k v and kvs :: "(string \<times> session_event) list"
    using keys_dict_set [of k v kvs] by (metis (no_types, lifting) insert_absorb list.set_map list.simps(15) rotate1.simps(2) set_rotate1)
  with snoc show ?case by (auto simp: started_calls_step)
qed

lemma no_ambiguous_calls:
  "ambiguous_calls str_of es = [] \<longleftrightarrow>
     (\<forall>e \<in> set es. se_event_type e = ''tool.started'' \<longrightarrow>
        (\<exists>f \<in> set es. se_event_type f \<in> set resolving_types \<and> tool_event_identity str_of f = tool_event_identity str_of e))"
proof -
  have "ambiguous_calls str_of es = [] \<longleftrightarrow> fst ` set (started_calls str_of es) \<subseteq> resolved_calls str_of es"
    by (auto simp: ambiguous_calls_def filter_empty_conv simp flip: set_empty)
  also have "\<dots> \<longleftrightarrow> (\<forall>e \<in> set es. se_event_type e = ''tool.started'' \<longrightarrow> tool_event_identity str_of e \<in> resolved_calls str_of es)"
    unfolding started_calls_keys by auto
  finally show ?thesis by (auto simp: resolved_calls_def image_iff) metis+
qed

section \<open>Emitting\<close>

definition same_but_events :: "context_db \<Rightarrow> context_db \<Rightarrow> bool" where
  "same_but_events d d' \<longleftrightarrow> (\<exists>es. d' = d\<lparr>cx_events := cx_events d @ es\<rparr>)"

lemma same_but_events_refl [simp]: "same_but_events d d"
  unfolding same_but_events_def by (rule exI [of _ "[]"]) simp

lemma same_but_events_trans: "same_but_events a b \<Longrightarrow> same_but_events b c \<Longrightarrow> same_but_events a c"
  by (auto simp: same_but_events_def)

lemma append_auto_Inr:
  "fst (append_auto J e r) = Inr x \<Longrightarrow> same_but_events (seen r) (seen (snd (append_auto J e r)))"
  by (auto simp: append_auto_def Let_def insert_event_def seen_def same_but_events_def
      intro: exI [of _ "[]"] split: sum.splits option.splits if_splits)

lemma session_emit_Inr:
  "session_emit J fresh now s em r = (Inr n, r') \<Longrightarrow> same_but_events (seen r) (seen r')"
  using append_auto_Inr
  by (fastforce simp: session_emit_def from_repo_def sink_emit_def bind_answer_def
      split: if_splits event_sink.splits sum.splits prod.splits)

lemma bind_session_Inr:
  "bind_session a k = (Inr y, r) \<Longrightarrow> \<exists>x r1. a = (Inr x, r1) \<and> k x r1 = (Inr y, r)"
  by (cases a) (auto simp: bind_session_def split: sum.splits)

section \<open>Resuming\<close>

definition run_events :: "ident \<Rightarrow> repo \<Rightarrow> session_event set" where
  "run_events i r = {e \<in> set (cx_events (seen r)). se_run_id e = i \<and> 0 < se_sequence e}"

definition run_over :: "ident \<Rightarrow> repo \<Rightarrow> bool" where
  "run_over i r \<longleftrightarrow> (\<exists>x. get_context_run i r = Some x \<and> run_ended x) \<or>
     (\<exists>e \<in> run_events i r. se_event_type e \<in> set final_types)"

definition call_resolved :: "(pval \<Rightarrow> string) \<Rightarrow> ident \<Rightarrow> repo \<Rightarrow> session_event \<Rightarrow> bool" where
  "call_resolved str_of i r e \<longleftrightarrow>
     (\<exists>f \<in> run_events i r. se_event_type f \<in> set resolving_types \<and> tool_event_identity str_of f = tool_event_identity str_of e)"

lemma set_run_events: "set (list_session_events i 0 r) = run_events i r"
  by (auto simp: list_session_events_def run_events_def)

lemma reconstruct_Inr:
  assumes "reconstruct str_of s r = Inr c"
  shows "rc_terminal c \<longleftrightarrow> run_over (ss_run_id s) r"
    and "rc_ambiguous_tool_call_ids c = [] \<longleftrightarrow>
      (\<forall>e \<in> run_events (ss_run_id s) r. se_event_type e = ''tool.started'' \<longrightarrow> call_resolved str_of (ss_run_id s) r e)"
  using assms
  by (auto simp: reconstruct_def Let_def run_over_def list_ex_iff set_run_events no_ambiguous_calls call_resolved_def
      split: option.splits)

lemma resume_cases:
  assumes "session_resume J str_of fresh fresh2 now mode s r = (Inr a, r')"
  obtains c where "reconstruct str_of s r = Inr c"
    "ra_can_auto_resume a \<longleftrightarrow> \<not> rc_terminal c \<and> rc_ambiguous_tool_call_ids c = []" "same_but_events (seen r) (seen r')"
proof -
  from assms obtain c where c: "reconstruct str_of s r = Inr c" and mode: "mode \<in> {''preserve'', ''tighten''}"
    by (auto simp: session_resume_def split: if_splits sum.splits)
  show ?thesis
  proof (cases "rc_terminal c")
    case True
    with assms c mode show ?thesis
      by (intro that [OF c]) (auto simp: session_resume_def resume_answer_of_def)
  next
    case False
    show ?thesis
    proof (cases "rc_ambiguous_tool_call_ids c = []")
      case True
      with assms c mode False obtain em1 em2 n1 n2 r1 where "session_emit J fresh now s em1 r = (Inr n1, r1)"
        "session_emit J fresh2 now s em2 r1 = (Inr n2, r')" "ra_can_auto_resume a"
        by (auto simp: session_resume_def resume_answer_of_def dest!: bind_session_Inr)
      with True False show ?thesis
        by (intro that [OF c]) (auto intro: same_but_events_trans [OF session_emit_Inr session_emit_Inr])
    next
      case blocked: False
      with assms c mode False obtain em1 em2 n1 n2 r1 where "session_emit J fresh now s em1 r = (Inr n1, r1)"
        "session_emit J fresh2 now s em2 r1 = (Inr n2, r')" "\<not> ra_can_auto_resume a"
        by (auto simp: session_resume_def resume_answer_of_def dest!: bind_session_Inr)
      with blocked show ?thesis
        by (intro that [OF c]) (auto intro: same_but_events_trans [OF session_emit_Inr session_emit_Inr])
    qed
  qed
qed

text \<open>
  C23. A run is allowed to go on by itself exactly when it is not over (neither marked as ended nor with a final
  event) and every tool call that started has an event with the same identity that gives its result. The
  decision writes nothing but its own events.
\<close>

theorem resume_exact:
  assumes "session_resume J str_of fresh fresh2 now mode s r = (Inr a, r')"
  shows "(ra_can_auto_resume a \<longleftrightarrow> \<not> run_over (ss_run_id s) r \<and>
      (\<forall>e \<in> run_events (ss_run_id s) r. se_event_type e = ''tool.started'' \<longrightarrow> call_resolved str_of (ss_run_id s) r e)) \<and>
    same_but_events (seen r) (seen r')"
  using assms by (rule resume_cases) (simp add: reconstruct_Inr)

section \<open>Closing\<close>

lemma proper_sink_emit: "proper_call r (snd (sink_emit J fresh now sink em r))"
  using proper_append_auto by (auto simp: sink_emit_def bind_answer_def split: event_sink.splits sum.splits)

lemma find_run_Some: "db_inv d \<Longrightarrow> x \<in> set (cx_runs d) \<Longrightarrow> cr_run_id x = i \<Longrightarrow> find (\<lambda>x. cr_run_id x = i) (cx_runs d) = Some x"
  using find_key_Some [of cr_run_id "cx_runs d" x] by (auto simp: db_inv_def)

lemma close_ends_run:
  assumes "session_close J fresh now reason s r = (s', Inr (), r1)" "\<not> ss_closed s" "now \<noteq> []"
    and "repo_inv r" "has_run (ss_run_id s) (rp_db r)"
  shows "repo_inv r1 \<and> (\<exists>x \<in> set (cx_runs (rp_db r1)). cr_run_id x = ss_run_id s \<and> run_ended x)"
proof -
  define ra where "ra = snd (end_run (ss_run_id s) reason now r)"
  obtain em where emits: "r1 = snd (sink_emit J fresh now (ss_sink s) em ra)"
    and ok: "fst (end_run (ss_run_id s) reason now r) = Inr ()"
    using assms(1,2) unfolding session_close_def ra_def
    by (cases "fst (end_run (ss_run_id s) reason now r)") (auto simp: from_repo_def bind_session_def)
  have ends: "end_run (ss_run_id s) reason now r = (Inr (), ra)" using ok by (simp add: ra_def prod_eq_iff)
  have ra: "repo_inv ra" using proper_end_run [OF assms(3), of r "ss_run_id s" reason] assms(4) ends by (simp add: proper_call_def)
  then have r1: "repo_inv r1" and grow: "grown (rp_db ra) (rp_db r1)"
    using proper_sink_emit [of ra J fresh now "ss_sink s" em] unfolding emits proper_call_def by blast+
  obtain x where x: "x \<in> set (cx_runs (rp_db r))" "cr_run_id x = ss_run_id s" using assms(5) by (auto simp: has_run_def)
  then have "x\<lparr>cr_ended_at := Some now, cr_stop_reason := reason\<rparr> \<in> set (cx_runs (rp_db ra))"
    using ends by (auto simp: end_run_def exec_txn_def update_where_def split: if_splits)
  then have "\<exists>y \<in> set (cx_runs (rp_db ra)). cr_run_id y = ss_run_id s \<and> run_ended y"
    using x(2) assms(3) by (rule_tac rev_bexI) (auto simp: run_ended_def)
  with grow r1 show ?thesis by (fastforce simp: grown_def runs_end_def)
qed

text \<open>
  A closed run stays closed. After a session of the run has been closed, no session of the run, opened in
  whatever later state, is allowed to go on by itself, even when the final event could not be stored.
\<close>

theorem closed_run_not_resumed:
  assumes "(repo_step J)\<^sup>*\<^sup>* (open_repo empty_context_db) r" "has_run (ss_run_id s) (rp_db r)" "\<not> ss_closed s" "now \<noteq> []"
    and "session_close J fresh now reason s r = (s', Inr (), r1)"
    and "(repo_step J)\<^sup>*\<^sup>* r1 r2" "ss_run_id s2 = ss_run_id s"
    and "session_resume J str_of fresh2 fresh3 now2 mode s2 r2 = (Inr a, r3)"
  shows "\<not> ra_can_auto_resume a"
proof -
  have r: "repo_inv r" by (rule repo.inv_steps [OF assms(1)]) (simp add: repo_inv_open_repo db_inv_empty)
  note closed = close_ends_run [OF assms(5,3,4) r assms(2)]
  have "grown (rp_db r1) (seen r2)"
    using repo_grown [OF assms(6)] repo_inv_seen [OF repo.inv_steps [OF assms(6)]] closed by (blast intro: grown_trans)
  with closed obtain y where y: "y \<in> set (cx_runs (seen r2))" "cr_run_id y = ss_run_id s" "run_ended y"
    by (fastforce simp: grown_def runs_end_def)
  have "db_inv (seen r2)" using repo_inv_seen [OF repo.inv_steps [OF assms(6)]] closed by blast
  then have "get_context_run (ss_run_id s2) r2 = Some y"
    using y assms(7) by (simp add: get_context_run_def find_run_Some)
  then have "run_over (ss_run_id s2) r2" using y(3) by (simp add: run_over_def)
  with resume_cases [OF assms(8)] reconstruct_Inr show ?thesis by metis
qed

section \<open>Identities used twice\<close>

text \<open>
  C24. The decision does not look at the order of events. When a call starts under an identity that an earlier
  call has used and finished, for instance the same tool and call index counted again from one, and it
  never finishes, a run that could go on before is still allowed to go on by itself.
\<close>

theorem reused_call_masked:
  assumes "reconstruct str_of s r = Inr c" "\<not> rc_terminal c" "rc_ambiguous_tool_call_ids c = []"
    and "f \<in> run_events (ss_run_id s) r" "se_event_type f \<in> set resolving_types"
    and "append_auto J e r = (Inr (True, n), r1)" "J (PDict (se_payload e)) = Some (PDict (se_payload e))"
    and "se_run_id e = ss_run_id s" "se_event_type e = ''tool.started''"
    and "tool_event_identity str_of e = tool_event_identity str_of f"
    and "session_resume J str_of fresh fresh2 now mode s r1 = (Inr a, r2)"
  shows "ra_can_auto_resume a"
proof -
  obtain g where r1: "seen r1 = (seen r)\<lparr>cx_events := cx_events (seen r) @ [g]\<rparr>" and g: "se_event_id g = se_event_id e"
    "se_event_type g = ''tool.started''" "se_payload g = se_payload e"
    using assms(6,7,9)
    by (auto simp: append_auto_def Let_def insert_event_def seen_def with_payload_def split: sum.splits option.splits if_splits)
  have same: "tool_event_identity str_of g = tool_event_identity str_of f"
  proof -
    have "tool_event_identity str_of g = tool_event_identity str_of e" by (simp only: tool_event_identity_def g)
    with assms(10) show ?thesis by simp
  qed
  have old: "e' \<in> run_events (ss_run_id s) r \<Longrightarrow> e' \<in> run_events (ss_run_id s) r1" for e'
    by (auto simp: run_events_def r1)
  have new: "e' \<in> run_events (ss_run_id s) r1 \<Longrightarrow> e' \<in> run_events (ss_run_id s) r \<or> e' = g" for e'
    by (auto simp: run_events_def r1)
  have "get_context_run (ss_run_id s) r1 = get_context_run (ss_run_id s) r" by (simp add: get_context_run_def r1)
  then have "\<not> run_over (ss_run_id s) r1"
    using assms(2) reconstruct_Inr(1) [OF assms(1)] g new by (force simp: run_over_def final_types_def)
  moreover have "call_resolved str_of (ss_run_id s) r1 e'"
    if "e' \<in> run_events (ss_run_id s) r1" "se_event_type e' = ''tool.started''" for e'
  proof (cases "e' = g")
    case True
    then show ?thesis using assms(4,5) same old by (auto simp: call_resolved_def)
  next
    case False
    then have "call_resolved str_of (ss_run_id s) r e'"
      using that new assms(3) reconstruct_Inr(2) [OF assms(1)] by blast
    then show ?thesis using old by (auto simp: call_resolved_def)
  qed
  ultimately show ?thesis using resume_cases [OF assms(11)] reconstruct_Inr by metis
qed

section \<open>Examples\<close>

definition demo_text :: "pval \<Rightarrow> string" where
  "demo_text v = (case v of PInt n \<Rightarrow> int_text n | _ \<Rightarrow> ''?'')"

definition demo_session :: session where
  "demo_session = session_reopen ''c'' ''r'' ''a'' None"

definition demo_tool :: "string \<Rightarrow> ident \<Rightarrow> session_event" where
  "demo_tool kind i = (demo_session_event i)\<lparr>se_event_type := kind, se_payload :=
     [(PStr ''schema_version'', PInt 1), (PStr ''tool'', PStr ''bash''), (PStr ''call_index'', PInt 1)]\<rparr>"

definition demo_started :: repo where
  "demo_started = snd (append_auto demo_json (demo_tool ''tool.started'' ''e1'') demo_repo)"

definition demo_finished :: repo where
  "demo_finished = snd (append_auto demo_json (demo_tool ''tool.completed'' ''e2'') demo_started)"

definition demo_started_again :: repo where
  "demo_started_again = snd (append_auto demo_json (demo_tool ''tool.started'' ''e3'') demo_finished)"

definition demo_resume :: "repo \<Rightarrow> resume_answer session_answer" where
  "demo_resume r = session_resume demo_json demo_text ''f1'' ''f2'' ''t'' ''preserve'' demo_session r"

lemma demo_resume_started:
  "map_sum id ra_status (fst (demo_resume demo_started)) = Inr ''manual_review_required''"
  by code_simp

theorem resume_exact_witness: "same_but_events (seen demo_started) (seen (snd (demo_resume demo_started)))"
proof -
  obtain a r' where a: "demo_resume demo_started = (Inr a, r')"
    using demo_resume_started by (cases "demo_resume demo_started"; cases "fst (demo_resume demo_started)") auto
  show ?thesis using resume_exact [OF a [unfolded demo_resume_def]] a by simp
qed

theorem reused_call_masked_witness:
  "map_sum id ra_can_auto_resume (fst (demo_resume demo_started_again)) = Inr True"
proof -
  obtain c where c: "reconstruct demo_text demo_session demo_finished = Inr c" "\<not> rc_terminal c"
    "rc_ambiguous_tool_call_ids c = []"
  proof (cases "reconstruct demo_text demo_session demo_finished")
    case (Inl x)
    have "\<not> isl (reconstruct demo_text demo_session demo_finished)" by code_simp
    with Inl show ?thesis by simp
  next
    case (Inr c)
    have "map_sum id (\<lambda>c. rc_terminal c \<or> rc_ambiguous_tool_call_ids c \<noteq> [])
        (reconstruct demo_text demo_session demo_finished) = Inr False" by code_simp
    with Inr show ?thesis by (intro that) auto
  qed
  obtain f where f: "find (\<lambda>e. se_event_type e \<in> set resolving_types \<and> se_run_id e = ''r'' \<and> 0 < se_sequence e \<and>
      tool_event_identity demo_text e = tool_event_identity demo_text (demo_tool ''tool.started'' ''e3''))
      (cx_events (seen demo_finished)) = Some f"
  proof -
    have "find (\<lambda>e. se_event_type e \<in> set resolving_types \<and> se_run_id e = ''r'' \<and> 0 < se_sequence e \<and>
      tool_event_identity demo_text e = tool_event_identity demo_text (demo_tool ''tool.started'' ''e3''))
      (cx_events (seen demo_finished)) \<noteq> None" by code_simp
    then show ?thesis using that by blast
  qed
  have run: "f \<in> run_events (ss_run_id demo_session) demo_finished" "se_event_type f \<in> set resolving_types"
    "tool_event_identity demo_text (demo_tool ''tool.started'' ''e3'') = tool_event_identity demo_text f"
    using find_SomeD [OF f] by (auto simp: run_events_def demo_session_def session_reopen_def make_session_def)
  have "append_auto demo_json (demo_tool ''tool.started'' ''e3'') demo_finished = (Inr (True, 3), demo_started_again)"
    "demo_json (PDict (se_payload (demo_tool ''tool.started'' ''e3''))) = Some (PDict (se_payload (demo_tool ''tool.started'' ''e3'')))"
    "se_run_id (demo_tool ''tool.started'' ''e3'') = ss_run_id demo_session"
    "se_event_type (demo_tool ''tool.started'' ''e3'') = ''tool.started''"
    by code_simp+
  note masked = reused_call_masked [OF c run(1,2) this run(3)]
  obtain a r' where a: "demo_resume demo_started_again = (Inr a, r')"
  proof -
    have "\<not> isl (fst (demo_resume demo_started_again))" by code_simp
    then show ?thesis using that by (cases "demo_resume demo_started_again"; cases "fst (demo_resume demo_started_again)") auto
  qed
  from masked [OF a [unfolded demo_resume_def]] a show ?thesis by simp
qed

definition demo_closed :: repo where
  "demo_closed = snd (snd (session_close demo_json ''f'' ''t'' None demo_session demo_started))"

theorem closed_run_not_resumed_witness:
  "map_sum id ra_can_auto_resume (fst (demo_resume demo_closed)) = Inr False"
proof -
  obtain a r' where a: "demo_resume demo_closed = (Inr a, r')"
  proof -
    have "\<not> isl (fst (demo_resume demo_closed))" by code_simp
    then show ?thesis using that by (cases "demo_resume demo_closed"; cases "fst (demo_resume demo_closed)") auto
  qed
  have reached: "(repo_step demo_json)\<^sup>*\<^sup>* (open_repo empty_context_db) demo_started"
    unfolding demo_started_def by (rule rtranclp.rtrancl_into_rtrancl [OF demo_repo_reached]) (rule repo_step.auto_event)
  have "has_run (ss_run_id demo_session) (rp_db demo_started)" by (simp add: has_run_def) code_simp
  moreover have "\<not> ss_closed demo_session" "''t'' \<noteq> []" by (simp_all add: demo_session_def session_reopen_def make_session_def)
  moreover have "session_close demo_json ''f'' ''t'' None demo_session demo_started =
      (fst (session_close demo_json ''f'' ''t'' None demo_session demo_started), Inr (), demo_closed)"
    by code_simp
  ultimately have "\<not> ra_can_auto_resume a"
    using closed_run_not_resumed [OF reached _ _ _ _ rtranclp.rtrancl_refl refl a [unfolded demo_resume_def]] by blast
  with a show ?thesis by simp
qed

text \<open>
  The flag of \<open>close\<close> belongs to the object: a second object of the run closes it again, with a second final
  event and another reason.
\<close>

lemma reopened_session_closes_again:
  "let r = snd (snd (session_close demo_json ''f2'' ''t2'' (Some ''again'') demo_session demo_closed)) in
   length (filter (\<lambda>e. se_event_type e = ''flow.stopped'') (cx_events (rp_db r))) = 2 \<and>
   map_option cr_stop_reason (get_context_run ''r'' r) = Some (Some ''again'')"
  by code_simp

end
