(* ===== verification/Flow_Resume_Props.thy ===== *)
theory Flow_Resume_Props
  imports Flow_Resume Session_Props
begin

text \<open>
  The registry is a bijection with a hash that tells node sets apart, a snapshot verifies exactly the files
  that are as they were, and the decision to resume is the conjunction of its rules, with the state of every
  operation read from its last event.
\<close>

section \<open>Registry\<close>

definition registry_ok :: "(string \<Rightarrow> string) \<Rightarrow> registry \<Rightarrow> bool" where
  "registry_ok sha g \<longleftrightarrow>
     (\<forall>i n. map_of (rg_by_id g) i = Some n \<longleftrightarrow> map_of (rg_by_node g) n = Some i) \<and>
     distinct (map fst (rg_by_id g)) \<and> (\<forall>i \<in> fst ` set (rg_by_id g). valid_node_id i) \<and>
     rg_hash_cache g \<in> {None, Some (compute_registry_hash sha (node_ids g))}"

text \<open>A registry that calls of its operations have made.\<close>

inductive registry_step :: "(string \<Rightarrow> string) \<Rightarrow> registry \<Rightarrow> registry \<Rightarrow> bool" for sha where
  register: "register_node i n g = Inr g' \<Longrightarrow> registry_step sha g g'"
| many: "registry_step sha g (snd (add_nodes xs g))"
| hash: "registry_step sha g (snd (registry_hash sha g))"

lemma fst_set_dict_set: "fst ` set (dict_set k v kvs) = insert k (fst ` set kvs)"
  using keys_dict_set [of k v kvs] by (metis (no_types, lifting) insert_absorb list.set_map list.simps(15) rotate1.simps(2) set_rotate1)

lemma registry_ok_register: "registry_ok sha g \<Longrightarrow> register_node i n g = Inr g' \<Longrightarrow> registry_ok sha g'"
proof -
  assume ok: "registry_ok sha g" and "register_node i n g = Inr g'"
  then have i: "valid_node_id i" "map_of (rg_by_id g) i \<in> {None, Some n}" "map_of (rg_by_node g) n \<in> {None, Some i}"
    and g': "g' = g\<lparr>rg_by_id := dict_set i n (rg_by_id g), rg_by_node := dict_set n i (rg_by_node g), rg_hash_cache := None\<rparr>"
    by (auto simp: register_node_def split: if_splits)
  have two: "map_of (rg_by_id g) j = Some m \<longleftrightarrow> map_of (rg_by_node g) m = Some j" for j m
    using ok by (simp add: registry_ok_def)
  have "map_of (rg_by_id g') j = Some m \<longleftrightarrow> map_of (rg_by_node g') m = Some j" for j m
    using two [of j m] two [of i m] two [of j n] i(2,3) unfolding g' by auto
  then show ?thesis
    using ok i(1) unfolding registry_ok_def g' by (auto simp: distinct_dict_set fst_set_dict_set)
qed

lemma registry_ok_add: "registry_ok sha g \<Longrightarrow> add_node x g = Inr g' \<Longrightarrow> registry_ok sha g'"
  by (auto simp: add_node_def split: option.splits list.splits intro: registry_ok_register)

lemma registry_ok_many: "registry_ok sha g \<Longrightarrow> registry_ok sha (snd (add_nodes xs g))"
proof (induction xs arbitrary: g)
  case Nil
  then show ?case by simp
next
  case (Cons x xs)
  then show ?case by (cases "add_node x g") (auto intro: registry_ok_add)
qed

lemma registry_ok_hash: "registry_ok sha g \<Longrightarrow> registry_ok sha (snd (registry_hash sha g))"
  by (auto simp: registry_hash_def registry_ok_def node_ids_def Let_def split: option.splits)

lemma registry_ok_step: "registry_ok sha g \<Longrightarrow> registry_step sha g g' \<Longrightarrow> registry_ok sha g'"
  by (erule registry_step.cases) (auto intro: registry_ok_register registry_ok_many registry_ok_hash)

interpretation node_registry: preserving "registry_ok sha" "registry_step sha" for sha
  by unfold_locales (rule registry_ok_step)

lemma registry_ok_empty: "registry_ok sha empty_registry"
  by (simp add: registry_ok_def empty_registry_def)

lemma registry_hash_ok: "registry_ok sha g \<Longrightarrow> fst (registry_hash sha g) = compute_registry_hash sha (node_ids g)"
  by (auto simp: registry_hash_def registry_ok_def Let_def split: option.splits)

text \<open>The text that is hashed determines the lines, since an id has no line break and is not empty.\<close>

lemma valid_node_id_line: "valid_node_id i \<Longrightarrow> i \<noteq> [] \<and> CHR 0x0A \<notin> set i"
proof -
  assume "valid_node_id i"
  moreover have "CHR 0x0A \<notin> set node_id_chars" by (simp add: node_id_chars_def)
  ultimately show ?thesis by (auto simp: valid_node_id_def)
qed

lemma append_sep_eq:
  "c \<notin> set x \<Longrightarrow> c \<notin> set y \<Longrightarrow> x @ c # xs = y @ c # ys \<Longrightarrow> x = y \<and> xs = ys"
proof (induction x arbitrary: y)
  case Nil
  then show ?case by (cases y) auto
next
  case (Cons a x)
  then show ?case by (cases y) auto
qed

lemma join_lines_Cons: "join_lines (x # xs) = (if xs = [] then x else x @ CHR 0x0A # join_lines xs)"
  by (cases xs) (auto simp: join_lines_def)

lemma join_lines_inj:
  assumes "\<forall>x \<in> set xs. x \<noteq> [] \<and> CHR 0x0A \<notin> set x" "\<forall>x \<in> set ys. x \<noteq> [] \<and> CHR 0x0A \<notin> set x"
    and "join_lines xs = join_lines ys"
  shows "xs = ys"
  using assms
proof (induction xs arbitrary: ys)
  case Nil
  then show ?case by (cases ys) (auto simp: join_lines_def)
next
  case (Cons x xs)
  then obtain y ys' where ys: "ys = y # ys'" by (cases ys) (auto simp: join_lines_def)
  have free: "CHR 0x0A \<notin> set x" "CHR 0x0A \<notin> set y" using Cons.prems(1,2) by (simp_all add: ys)
  have no: "a \<noteq> b @ CHR 0x0A # c" if "CHR 0x0A \<notin> set a" for a b c :: string using that by fastforce
  show ?case
  proof (cases "xs = []")
    case True
    then have "x = join_lines (y # ys')" using Cons.prems(3) by (simp add: ys join_lines_Cons)
    moreover from this have "ys' = []" using no [OF free(1)] by (metis join_lines_Cons)
    ultimately show ?thesis using True by (simp add: ys join_lines_Cons)
  next
    case False
    then have eq: "x @ CHR 0x0A # join_lines xs = join_lines (y # ys')"
      using Cons.prems(3) by (simp add: ys join_lines_Cons)
    then have "ys' \<noteq> []" using no [OF free(2)] by (metis join_lines_Cons)
    with eq have "x @ CHR 0x0A # join_lines xs = y @ CHR 0x0A # join_lines ys'" by (simp add: join_lines_Cons)
    then have "x = y" "join_lines xs = join_lines ys'" using append_sep_eq [OF free] by blast+
    then show ?thesis using Cons.IH [of ys'] Cons.prems(1,2) by (simp add: ys)
  qed
qed

text \<open>
  In every registry the ids and the nodes are in bijection, and the hash of two registries is the same
  exactly when they have the same ids, whatever the order of registration and the state of the cache,
  provided SHA-256 tells the two texts apart.
\<close>

theorem registry_hash_exact:
  assumes "(registry_step sha)\<^sup>*\<^sup>* empty_registry g" "(registry_step sha)\<^sup>*\<^sup>* empty_registry g'"
    and "sha (join_lines (node_ids g)) = sha (join_lines (node_ids g')) \<Longrightarrow> join_lines (node_ids g) = join_lines (node_ids g')"
  shows "(\<forall>i n. registry_get g i = Some n \<longleftrightarrow> registry_get_id g n = Some i) \<and>
    (fst (registry_hash sha g) = fst (registry_hash sha g') \<longleftrightarrow> fst ` set (rg_by_id g) = fst ` set (rg_by_id g'))"
proof -
  have ok: "registry_ok sha g" "registry_ok sha g'"
    using node_registry.inv_steps [OF assms(1)] node_registry.inv_steps [OF assms(2)] registry_ok_empty by blast+
  have ids: "sort (remdups (node_ids h)) = node_ids h \<and> set (node_ids h) = fst ` set (rg_by_id h) \<and>
      (\<forall>x \<in> set (node_ids h). x \<noteq> [] \<and> CHR 0x0A \<notin> set x)" if "registry_ok sha h" for h
    using that valid_node_id_line by (auto simp: node_ids_def registry_ok_def distinct_remdups_id sorted_sort_id)
  have "compute_registry_hash sha (node_ids g) = compute_registry_hash sha (node_ids g') \<longleftrightarrow> node_ids g = node_ids g'"
  proof
    assume eq: "compute_registry_hash sha (node_ids g) = compute_registry_hash sha (node_ids g')"
    have "compute_registry_hash sha (node_ids h) = sha (join_lines (node_ids h))" if "registry_ok sha h" for h
      unfolding compute_registry_hash_def using ids [OF that] by metis
    then have "sha (join_lines (node_ids g)) = sha (join_lines (node_ids g'))" using eq ok by metis
    then have "join_lines (node_ids g) = join_lines (node_ids g')" by (rule assms(3))
    then show "node_ids g = node_ids g'"
      by (rule join_lines_inj [rotated 2]) (simp_all add: ids [OF ok(1)] ids [OF ok(2)])
  qed simp
  also have "\<dots> \<longleftrightarrow> set (node_ids g) = set (node_ids g')"
  proof
    assume "set (node_ids g) = set (node_ids g')"
    moreover have "sorted (node_ids h)" "registry_ok sha h \<Longrightarrow> distinct (node_ids h)" for h
      by (simp_all add: node_ids_def registry_ok_def)
    ultimately show "node_ids g = node_ids g'" using ok by (blast intro: sorted_distinct_set_unique)
  qed simp
  also have "\<dots> \<longleftrightarrow> fst ` set (rg_by_id g) = fst ` set (rg_by_id g')" using ids [OF ok(1)] ids [OF ok(2)] by simp
  finally have "fst (registry_hash sha g) = fst (registry_hash sha g') \<longleftrightarrow> fst ` set (rg_by_id g) = fst ` set (rg_by_id g')"
    by (simp only: registry_hash_ok [OF ok(1)] registry_hash_ok [OF ok(2)])
  moreover have "\<forall>i n. registry_get g i = Some n \<longleftrightarrow> registry_get_id g n = Some i"
    using ok(1) by (simp add: registry_get_def registry_get_id_def registry_ok_def)
  ultimately show ?thesis by blast
qed

section \<open>Files\<close>

lemma verify_snapshot_dict:
  assumes "path \<noteq> []"
  shows "verify_snapshot fs (snapshot_dict path digest bytes True) \<longleftrightarrow>
    (case fs path of NoFile \<Rightarrow> False | FileThere n h \<Rightarrow>
       (bytes = None \<or> (case n of None \<Rightarrow> False | Some k \<Rightarrow> equals_int (PInt (the bytes)) k)) \<and>
       (digest = None \<or> (case h of None \<Rightarrow> False | Some k \<Rightarrow> the digest = k)))"
proof -
  let ?d = "snapshot_dict path digest bytes True"
  have gets: "dict_get ?d ''path'' = PStr path" "dict_get ?d ''hash'' = (case digest of None \<Rightarrow> PNone | Some h \<Rightarrow> PStr h)"
    "dict_get ?d ''size'' = (case bytes of None \<Rightarrow> PNone | Some n \<Rightarrow> PInt n)"
    "map_of ?d (PStr ''existence_required'') = Some (PBool True)"
    by (simp_all add: snapshot_dict_def dict_get_def)
  obtain c cs where "path = c # cs" using assms by (cases path) auto
  then show ?thesis
    unfolding verify_snapshot_def gets by (cases "fs path"; cases digest; cases bytes) (simp_all add: truthy_def split: option.splits)
qed

text \<open>What a file must be for a snapshot of it taken earlier to verify.\<close>

definition still_as :: "file_state \<Rightarrow> file_state \<Rightarrow> bool" where
  "still_as old new = (case old of
       FileThere (Some n) (Some h) \<Rightarrow> new = FileThere (Some n) (Some h)
     | _ \<Rightarrow> new \<noteq> NoFile)"

text \<open>
  C29. A snapshot of a readable file verifies exactly as long as the file has the same size and digest and can
  be read. A snapshot of a file that was missing, or could not be read, verifies for whatever file is
  there later.
\<close>

theorem snapshot_verifies_exactly:
  assumes "path \<noteq> []"
  shows "verify_snapshot fs' (take_snapshot fs path True) \<longleftrightarrow> still_as (fs path) (fs' path)"
  unfolding take_snapshot_def
  by (cases "fs path" rule: file_state.exhaust) (auto simp: verify_snapshot_dict still_as_def assms equals_int_def split: option.splits file_state.splits)

section \<open>Operations in flight\<close>

text \<open>The state an event gives its operation, and the state of an operation after a list of events.\<close>

definition operation_state :: "session_event \<Rightarrow> string option" where
  "operation_state e = (if se_event_type e = ''operation.started'' then Some ''started''
     else map_of operation_terminal_events (se_event_type e))"

definition last_operation_state :: "ident \<Rightarrow> session_event list \<Rightarrow> string option" where
  "last_operation_state i es =
    (case find (\<lambda>e. event_operation e = Some i \<and> operation_state e \<noteq> None) (rev es) of
       None \<Rightarrow> None
     | Some e \<Rightarrow> operation_state e)"

lemma operation_entry_state:
  "map_option po_state (map_of (operation_entry i e d) j) =
     (if j = i \<and> operation_state e \<noteq> None then operation_state e else map_option po_state (map_of d j))"
  by (auto simp: operation_entry_def operation_state_def split: option.splits)

lemma operation_entries_snoc:
  "operation_entries (es @ [e]) =
     (case event_operation e of None \<Rightarrow> operation_entries es | Some i \<Rightarrow> operation_entry i e (operation_entries es))"
  unfolding operation_entries_def by (cases "event_operation e") simp_all

lemma operation_entries_state:
  "map_option po_state (map_of (operation_entries es) i) = last_operation_state i es"
proof (induction es rule: rev_induct)
  case Nil
  show ?case by (simp add: operation_entries_def last_operation_state_def)
next
  case (snoc e es)
  show ?case
  proof (cases "event_operation e")
    case None
    with snoc show ?thesis by (simp add: operation_entries_snoc last_operation_state_def)
  next
    case (Some j)
    then have "map_option po_state (map_of (operation_entries (es @ [e])) i) =
        (if i = j \<and> operation_state e \<noteq> None then operation_state e else last_operation_state i es)"
      using snoc by (simp only: operation_entries_snoc option.case operation_entry_state)
    also have "\<dots> = last_operation_state i (es @ [e])"
      using Some by (auto simp: last_operation_state_def)
    finally show ?thesis .
  qed
qed

lemma operation_entries_distinct: "distinct (map fst (operation_entries es))"
proof (induction es rule: rev_induct)
  case Nil
  show ?case by (simp add: operation_entries_def)
next
  case (snoc e es)
  have "distinct (map fst d) \<Longrightarrow> distinct (map fst (operation_entry i e d))" for i d
    by (auto simp: operation_entry_def distinct_dict_set split: option.splits)
  with snoc show ?case by (auto simp: operation_entries_snoc split: option.splits)
qed

lemma operation_state_cases: "operation_state e \<in> {None, Some ''started''} \<union> Some ` set terminal_operation_states"
  by (auto simp: operation_state_def operation_terminal_events_def terminal_operation_states_def)

lemma last_operation_state_cases: "last_operation_state i es \<in> {None, Some ''started''} \<union> Some ` set terminal_operation_states"
  using operation_state_cases by (auto simp: last_operation_state_def split: option.splits)

lemma no_operation_in_flight:
  "filter (\<lambda>x. po_state x \<notin> set terminal_operation_states) (build_pending_operations es) = [] \<longleftrightarrow>
     (\<forall>i. last_operation_state i es \<noteq> Some ''started'')"
proof -
  have "x \<in> set (build_pending_operations es) \<longleftrightarrow> (\<exists>i. map_of (operation_entries es) i = Some x)" for x
    using operation_entries_distinct [of es] by (force simp: build_pending_operations_def)
  then have "filter (\<lambda>x. po_state x \<notin> set terminal_operation_states) (build_pending_operations es) = [] \<longleftrightarrow>
      (\<forall>i x. map_of (operation_entries es) i = Some x \<longrightarrow> po_state x \<in> set terminal_operation_states)"
    by (auto simp: filter_empty_conv)
  also have "\<dots> \<longleftrightarrow> (\<forall>i t. last_operation_state i es = Some t \<longrightarrow> t \<in> set terminal_operation_states)"
    unfolding operation_entries_state [symmetric] by auto
  also have "\<dots> \<longleftrightarrow> (\<forall>i. last_operation_state i es \<noteq> Some ''started'')"
  proof -
    have no: "''started'' \<notin> set terminal_operation_states" by (simp add: terminal_operation_states_def)
    have "t \<in> set terminal_operation_states \<longleftrightarrow> t \<noteq> ''started''" if "last_operation_state i es = Some t" for i t
      using last_operation_state_cases [of i es] no that by auto
    then show ?thesis by metis
  qed
  finally show ?thesis .
qed

section \<open>The decision\<close>

definition safe_checkpoint ::
  "(string \<Rightarrow> string) \<Rightarrow> registry \<Rightarrow> (string \<Rightarrow> file_state) option \<Rightarrow> ident \<Rightarrow> repo \<Rightarrow> checkpoint \<Rightarrow> bool" where
  "safe_checkpoint sha g fs run r c \<longleftrightarrow>
     cp_schema_version c = 1 \<and>
     (\<forall>x \<in> set (cx_task_states (seen r)). ts_run_id x = run \<longrightarrow> ts_status x \<notin> set active_statuses_of_tasks) \<and>
     (\<exists>i. cp_next_node_id c = Some i \<and> registry_contains g i) \<and>
     cp_registry_hash c \<in> {None, Some (fst (registry_hash sha g))} \<and>
     (\<forall>i. last_operation_state i (list_session_events run (cp_last_committed_sequence c) r) \<noteq> Some ''started'') \<and>
     (case fs of None \<Rightarrow> True | Some f \<Rightarrow> \<forall>snap \<in> set (snapshot_entries (cp_file_snapshots c)). verify_snapshot f snap)"

text \<open>
  C28. A flow is resumed automatically exactly when its run has a checkpoint of the known schema, no task of the
  run is active, the next node is registered, a recorded hash of the registry matches, the last event of
  every operation since the checkpoint is a terminal one, and every recorded file verifies.
\<close>

theorem decide_resume_exact:
  "rd_can_auto_resume (decide_resume sha g fs s None r) \<longleftrightarrow>
     (\<exists>c. latest_checkpoint (ss_run_id s) r = Some c \<and> safe_checkpoint sha g fs (ss_run_id s) r c)"
proof (cases "latest_checkpoint (ss_run_id s) r")
  case None
  then show ?thesis by (simp add: decide_resume_def recovery_answer_def Let_def)
next
  case (Some c)
  have workers: "detect_active_workers s r = [] \<longleftrightarrow>
      (\<forall>x \<in> set (cx_task_states (seen r)). ts_run_id x = ss_run_id s \<longrightarrow> ts_status x \<notin> set active_statuses_of_tasks)"
    by (auto simp: detect_active_workers_def list_task_states_def filter_empty_conv)
  define ops where "ops = build_pending_operations (list_session_events (ss_run_id s) (cp_last_committed_sequence c) r)"
  define files where "files = (if snapshot_entries (cp_file_snapshots c) = [] then None else map_option verify_snapshot fs)"
  have "rd_can_auto_resume (evaluate_resume_safety sha c g ops files) \<longleftrightarrow>
      (\<exists>i. cp_next_node_id c = Some i \<and> registry_contains g i) \<and>
      cp_registry_hash c \<in> {None, Some (fst (registry_hash sha g))} \<and>
      filter (\<lambda>x. po_state x \<notin> set terminal_operation_states) ops = [] \<and>
      (case files of None \<Rightarrow> [] | Some ok \<Rightarrow> filter (\<lambda>x. \<not> ok x) (snapshot_entries (cp_file_snapshots c))) = []"
    unfolding evaluate_resume_safety_def Let_def by (cases "cp_next_node_id c") simp_all
  moreover have "(case files of None \<Rightarrow> [] | Some ok \<Rightarrow> filter (\<lambda>x. \<not> ok x) (snapshot_entries (cp_file_snapshots c))) = [] \<longleftrightarrow>
      (case fs of None \<Rightarrow> True | Some f \<Rightarrow> \<forall>snap \<in> set (snapshot_entries (cp_file_snapshots c)). verify_snapshot f snap)"
    by (cases fs) (auto simp: files_def filter_empty_conv)
  ultimately have eval: "rd_can_auto_resume (evaluate_resume_safety sha c g ops files) \<longleftrightarrow>
      (\<exists>i. cp_next_node_id c = Some i \<and> registry_contains g i) \<and>
      cp_registry_hash c \<in> {None, Some (fst (registry_hash sha g))} \<and>
      (\<forall>i. last_operation_state i (list_session_events (ss_run_id s) (cp_last_committed_sequence c) r) \<noteq> Some ''started'') \<and>
      (case fs of None \<Rightarrow> True | Some f \<Rightarrow> \<forall>snap \<in> set (snapshot_entries (cp_file_snapshots c)). verify_snapshot f snap)"
    unfolding ops_def no_operation_in_flight by simp
  have "rd_can_auto_resume (decide_resume sha g fs s None r) \<longleftrightarrow>
      cp_schema_version c = 1 \<and> detect_active_workers s r = [] \<and> rd_can_auto_resume (evaluate_resume_safety sha c g ops files)"
    using Some by (simp add: decide_resume_def recovery_answer_def Let_def ops_def files_def)
  then show ?thesis unfolding eval workers using Some by (auto simp: safe_checkpoint_def)
qed

text \<open>
  Operations that started before the last checkpoint are not looked at: neither their events nor the list
  of pending operations that the checkpoint carries. A run whose operation has started, without any event
  that ends it, is resumed automatically once a later step has written a checkpoint.
\<close>

theorem earlier_operation_missed:
  assumes "latest_checkpoint (ss_run_id s) r = Some c"
    and "last_operation_state i (list_session_events (ss_run_id s) 0 r) = Some ''started''"
    and "list_session_events (ss_run_id s) (cp_last_committed_sequence c) r = []"
    and "cp_schema_version c = 1" "cp_next_node_id c = Some n" "registry_contains g n"
    and "cp_registry_hash c = Some (fst (registry_hash sha g))" "snapshot_entries (cp_file_snapshots c) = []"
    and "filter (\<lambda>x. ts_run_id x = ss_run_id s) (cx_task_states (seen r)) = []"
  shows "rd_can_auto_resume (decide_resume sha g fs s None r)"
  unfolding decide_resume_exact safe_checkpoint_def
  using assms by (auto simp: last_operation_state_def filter_empty_conv split: option.splits)

section \<open>Examples\<close>

definition demo_registry :: registry where
  "demo_registry = snd (add_nodes [(1, Some ''decide''), (2, Some ''completed'')] empty_registry)"

definition demo_registry2 :: registry where
  "demo_registry2 = snd (registry_hash id (snd (add_nodes [(2, Some ''completed''), (1, Some ''decide'')] empty_registry)))"

theorem registry_hash_exact_witness: "fst (registry_hash id demo_registry) = fst (registry_hash id demo_registry2)"
proof -
  have "(registry_step id)\<^sup>*\<^sup>* empty_registry demo_registry"
    unfolding demo_registry_def by (rule r_into_rtranclp) (rule registry_step.many)
  moreover have "(registry_step id)\<^sup>*\<^sup>* empty_registry demo_registry2"
    unfolding demo_registry2_def
    by (rule rtranclp.rtrancl_into_rtrancl [OF r_into_rtranclp]) (rule registry_step.many, rule registry_step.hash)
  moreover have "fst ` set (rg_by_id demo_registry) = fst ` set (rg_by_id demo_registry2)"
    by code_simp
  ultimately show ?thesis using registry_hash_exact [of id demo_registry demo_registry2] by simp
qed

definition demo_disk :: "string \<Rightarrow> string \<Rightarrow> file_state" where
  "demo_disk digest path = (if path = ''/a'' then FileThere (Some 3) (Some digest) else NoFile)"

theorem snapshot_verifies_exactly_witness:
  "verify_snapshot (demo_disk ''h'') (take_snapshot (demo_disk ''h'') ''/a'' True) \<and>
   \<not> verify_snapshot (demo_disk ''h2'') (take_snapshot (demo_disk ''h'') ''/a'' True)"
  using snapshot_verifies_exactly [of "''/a''" "demo_disk ''h''" "demo_disk ''h''"]
    snapshot_verifies_exactly [of "''/a''" "demo_disk ''h2''" "demo_disk ''h''"]
  by (simp add: still_as_def demo_disk_def)

text \<open>A run in which an operation starts, and a checkpoint is written after it.\<close>

definition demo_operation :: session_event where
  "demo_operation = (demo_session_event ''o'')\<lparr>se_event_type := ''operation.started'', se_payload :=
     [(PStr ''schema_version'', PInt 1), (PStr ''operation_id'', PStr ''op'')]\<rparr>"

definition demo_checkpoint :: checkpoint where
  "demo_checkpoint = \<lparr>cp_checkpoint_id = ''cp'', cp_run_id = ''r'', cp_last_committed_sequence = 1, cp_task_state_revision = 1,
     cp_budget_state = PDict [], cp_pending_operations = PList [], cp_file_snapshots = PList [], cp_state_hash = ''h'',
     cp_schema_version = 1, cp_created_at = ''t'', cp_completed_node_id = Some ''decide'', cp_last_action = None,
     cp_next_node_id = Some ''completed'', cp_registry_hash = Some (fst (registry_hash id demo_registry))\<rparr>"

definition demo_in_flight :: repo where
  "demo_in_flight = snd (insert_checkpoint demo_json demo_checkpoint (snd (append_auto demo_json demo_operation demo_repo)))"

theorem earlier_operation_missed_witness:
  "rd_can_auto_resume (decide_resume id demo_registry None demo_session None demo_in_flight)"
proof (rule earlier_operation_missed)
  show "latest_checkpoint (ss_run_id demo_session) demo_in_flight = Some demo_checkpoint" by code_simp
  show "last_operation_state ''op'' (list_session_events (ss_run_id demo_session) 0 demo_in_flight) = Some ''started''" by code_simp
  show "list_session_events (ss_run_id demo_session) (cp_last_committed_sequence demo_checkpoint) demo_in_flight = []" by code_simp
  show "cp_schema_version demo_checkpoint = 1" "cp_next_node_id demo_checkpoint = Some ''completed''"
    "cp_registry_hash demo_checkpoint = Some (fst (registry_hash id demo_registry))"
    "snapshot_entries (cp_file_snapshots demo_checkpoint) = []"
    by (simp_all add: demo_checkpoint_def snapshot_entries_def)
  show "registry_contains demo_registry ''completed''" by code_simp
  show "filter (\<lambda>x. ts_run_id x = ss_run_id demo_session) (cx_task_states (seen demo_in_flight)) = []" by code_simp
qed

theorem decide_resume_exact_witness:
  "\<not> rd_can_auto_resume (decide_resume id demo_registry None demo_session None demo_repo)"
proof -
  have "latest_checkpoint (ss_run_id demo_session) demo_repo = None" by code_simp
  then show ?thesis using decide_resume_exact [of id demo_registry None demo_session demo_repo] by simp
qed

end
