(* ===== verification/Flow_Runner_Props.thy ===== *)
theory Flow_Runner_Props
  imports Flow_Runner Flow_Resume_Props
begin

text \<open>
  The instrumented runner computes what the plain flow computes; a flow whose node fails can be resumed at
  exactly that node; and what goes wrong with checkpoints: without a sink the newest cannot be told from the
  first, and a fresh run can never store one in the repository.
\<close>

section \<open>Parity\<close>

definition quiet_services :: "'w services \<Rightarrow> bool" where
  "quiet_services sv \<longleftrightarrow>
     (\<forall>f kind payload w. sv_emit sv = Some f \<longrightarrow> \<not> isl (fst (f kind payload w))) \<and>
     (\<forall>f c w. sv_commit sv = Some f \<longrightarrow> \<not> isl (fst (f c w))) \<and>
     (\<forall>poll i. sv_cancelled sv = Some poll \<longrightarrow> \<not> poll i)"

definition named_flow :: "'s flow \<Rightarrow> bool" where
  "named_flow fl \<longleftrightarrow> (\<forall>n. resolve_copy_id (fl_node fl n) \<noteq> None)"

lemma resolve_named: "resolve_copy_id nd = Some i \<Longrightarrow> resolve_node_id g n nd = Some i"
  by (auto simp: resolve_copy_id_def resolve_node_id_def split: option.splits list.splits)

text \<open>An outcome that is no exception, and what a case on it takes.\<close>

definition quiet :: "('a, 'w) outcome \<Rightarrow> bool" where
  "quiet a \<longleftrightarrow> \<not> isl (fst a)"

lemma quiet_case:
  "quiet a \<Longrightarrow> (case a of (Inl e, w) \<Rightarrow> f e w | (Inr x, w) \<Rightarrow> g x w) = g (projr (fst a)) (snd a)"
  by (auto simp: quiet_def split: prod.splits sum.splits)

lemma quiet_bind: "quiet a \<Longrightarrow> (\<And>x w. quiet (k x w)) \<Longrightarrow> quiet (bind_outcome a k)"
  by (simp add: bind_outcome_def quiet_case)

lemma quiet_Inr [simp]: "quiet (Inr x, w)"
  by (simp add: quiet_def)

lemma quiet_emit: "quiet_services sv \<Longrightarrow> quiet (emit_event sv kind payload w)"
  by (auto simp: quiet_services_def emit_event_def quiet_def split: option.splits sum.splits prod.splits)
    (metis fst_conv isl_def)

lemma quiet_commit: "quiet_services sv \<Longrightarrow> quiet (commit_checkpoint sv c w)"
  by (auto simp: quiet_services_def commit_checkpoint_def quiet_def split: option.splits sum.splits prod.splits)
    (metis fst_conv isl_def)

lemma quiet_boundary: "quiet_services sv \<Longrightarrow> quiet (step_boundary sha sv run node action next_id p w)"
  unfolding step_boundary_def Let_def by (auto intro!: quiet_bind quiet_emit quiet_commit)

lemma phased_run:
  "node_run h s = (case run_node_phased h s of (Inl x, s') \<Rightarrow> (Inl (snd x), s') | (Inr a, s') \<Rightarrow> (Inr a, s'))"
  by (cases h) (auto simp: node_run_def run_node_phased_def split: prod.splits sum.splits)

lemma quiet_step:
  assumes "quiet_services sv" "named_flow fl"
  shows "case node_run (nd_hooks (fl_node fl n)) s of
      (Inl e, s') \<Rightarrow> \<exists>w'. flow_step sha sv fl run n p s w = (Inl (NodeRaised e), s', w')
    | (Inr a, s') \<Rightarrow> \<exists>p' w'. flow_step sha sv fl run n p s w = (Inr (Inr (get_next_node (fl_node fl n) a, p')), s', w') \<and>
        fp_last_action p' = a"
proof -
  obtain node where node: "resolve_copy_id (fl_node fl n) = Some node" using assms(2) by (auto simp: named_flow_def)
  have go: "\<not> (case sv_cancelled sv of None \<Rightarrow> False | Some poll \<Rightarrow> poll (fp_step_count p))"
    using assms(1) by (auto simp: quiet_services_def split: option.splits)
  show ?thesis
  proof (cases "run_node_phased (nd_hooks (fl_node fl n)) s")
    case (Pair res s1)
    show ?thesis
    proof (cases res)
      case (Inl x)
      obtain phase e where x: "x = (phase, e)" by (cases x)
      show ?thesis
        by (simp add: phased_run Pair Inl x flow_step_def Let_def go node quiet_case [OF quiet_emit [OF assms(1)]])
    next
      case (Inr a)
      have id: "get_next_node (fl_node fl n) a = Some m \<Longrightarrow> resolve_node_id (sv_registry sv) m (fl_node fl m) \<noteq> None" for m
        using assms(2) by (auto simp: named_flow_def dest: resolve_named)
      show ?thesis
        by (cases "get_next_node (fl_node fl n) a")
          (auto simp: phased_run Pair Inr flow_step_def Let_def go node id quiet_case [OF quiet_emit [OF assms(1)]]
            quiet_case [OF quiet_boundary [OF assms(1)]])
    qed
  qed
qed

lemma loop_parity:
  assumes "quiet_services sv" "named_flow fl"
  shows "map_option (\<lambda>(a, s', w'). (a, s')) (flow_loop sha stop sv fl run fuel cur p s w) = orch fl fuel cur (fp_last_action p) s"
proof (induction fuel arbitrary: cur p s w)
  case 0
  show ?case
  proof (cases cur)
    case None
    then show ?thesis by (simp add: quiet_case [OF quiet_emit [OF assms(1)]])
  next
    case (Some n)
    then show ?thesis by simp
  qed
next
  case (Suc fuel)
  show ?case
  proof (cases cur)
    case None
    then show ?thesis by (simp add: quiet_case [OF quiet_emit [OF assms(1)]])
  next
    case (Some n)
    obtain res s' where run: "node_run (nd_hooks (fl_node fl n)) s = (res, s')" by fastforce
    show ?thesis
    proof (cases res)
      case (Inl e)
      then show ?thesis using quiet_step [OF assms, where n = n and s = s and sha = sha and run = run and p = p and w = w] Some run by auto
    next
      case (Inr a)
      then obtain p' w' where "flow_step sha sv fl run n p s w = (Inr (Inr (get_next_node (fl_node fl n) a, p')), s', w')"
        "fp_last_action p' = a"
        using quiet_step [OF assms, where n = n and s = s and sha = sha and run = run and p = p and w = w] run by auto
      then show ?thesis using Suc [of "get_next_node (fl_node fl n) a" p' s' w'] Some run Inr by simp
    qed
  qed
qed

text \<open>
  C25. The instrumented runner is at parity with the plain loop. As long as no service raises, the run is not
  cancelled and the nodes carry their identity, it ends with the same action or the same exception and the
  same shared state as the plain loop from the same node, and it does not end when that does not; a resumed
  run is the plain loop from the next node of the resume point.
\<close>

theorem flow_parity:
  assumes "quiet_services sv" "named_flow fl"
    and "case resume of None \<Rightarrow> fl_start fl = Some n
       | Some pt \<Rightarrow> (\<exists>g. sv_registry sv = Some g \<and> registry_get g (fr_next_node_id pt) = Some n)"
  shows "map_option (\<lambda>(a, s', w'). (a, s')) (flow_run sha stop sv fl resume fresh fuel s w) = orch fl fuel (Some n) None s"
proof (cases "sv_emit sv = None \<and> sv_commit sv = None \<and> sv_cancelled sv = None \<and> resume = None")
  case True
  then show ?thesis using assms(3) by (simp add: flow_run_def option.map_comp comp_def case_prod_beta option.map_ident)
next
  case False
  obtain i src where enter: "flow_entry sv fl resume = Inr (n, i, src)"
  proof (cases resume)
    case None
    moreover obtain i where "resolve_copy_id (fl_node fl n) = Some i" using assms(2) by (auto simp: named_flow_def)
    ultimately show ?thesis using that assms(3) by (simp add: flow_entry_def resolve_named)
  next
    case (Some pt)
    then show ?thesis using that assms(3) by (auto simp: flow_entry_def)
  qed
  have "quiet (bind_outcome (emit_event sv kind payload w) (\<lambda>_ w1. case resume of
      None \<Rightarrow> (Inr 0, w1) | Some pt \<Rightarrow> emit_event sv ''flow.resumed'' (resumed_payload pt) w1))" for kind payload
    by (rule quiet_bind) (auto intro: quiet_emit [OF assms(1)] split: option.splits)
  with False enter show ?thesis
    unfolding flow_run_def by (simp only: if_False Let_def sum.case prod.case quiet_case loop_parity [OF assms(1,2)]) (simp add: fresh_progress_def)
qed

section \<open>Resuming at the failed node\<close>



lemma memory_commit:
  "commit_checkpoint (memory_services b g cancelled stamp) c (es, cs) = (Inr (), es, cs @ [c])"
  by (simp add: commit_checkpoint_def memory_services_def)









section \<open>Checkpoints without a sink\<close>

definition zero_sequences :: "ident \<Rightarrow> checkpoint list \<Rightarrow> bool" where
  "zero_sequences run cs \<longleftrightarrow> (\<forall>c \<in> set cs. cp_run_id c = run \<and> cp_last_committed_sequence c = 0)"

lemma sinkless_emit: "emit_event (memory_services False g cancelled stamp) kind payload w = (Inr 0, w)"
  by (simp add: emit_event_def memory_services_def)

lemma sinkless_step:
  assumes "zero_sequences run (snd w)" "fp_last_sequence p = 0"
    and "flow_step sha (memory_services False g cancelled stamp) fl run n p s w = (res, s', w')"
  shows "zero_sequences run (snd w') \<and> (\<forall>succ p'. res = Inr (Inr (succ, p')) \<longrightarrow> fp_last_sequence p' = 0)"
proof -
  obtain es cs where w: "w = (es, cs)" by (cases w)
  have boundary: "step_boundary sha (memory_services False g cancelled stamp) run node action next_id p2 (es, cs) =
      (Inr 0, es, cs @ [build_checkpoint sha (memory_services False g cancelled stamp) run node action next_id 0 (fp_state_revision p2)])"
    if "fp_last_sequence p2 = 0" for node action next_id p2
  proof -
    have "sv_commit (memory_services False g cancelled stamp) \<noteq> None" by (simp add: memory_services_def)
    with that show ?thesis
      by (simp add: step_boundary_def bind_outcome_def sinkless_emit memory_commit Let_def note_sequence_def)
  qed
  have "zero_sequences run (cs @ [build_checkpoint sha (memory_services False g cancelled stamp) run node action next_id 0 k])"
    for node action next_id k
    using assms(1) by (auto simp: w zero_sequences_def build_checkpoint_def Let_def)
  then show ?thesis
    using assms
    by (auto simp: w flow_step_def sinkless_emit boundary Let_def split: if_splits option.splits prod.splits sum.splits)
qed

lemma sinkless_loop:
  assumes "zero_sequences run (snd w)" "fp_last_sequence p = 0"
    and "flow_loop sha stop (memory_services False g cancelled stamp) fl run fuel cur p s w = Some (res, s', w')"
  shows "zero_sequences run (snd w')"
  using assms
proof (induction fuel arbitrary: cur p s w)
  case 0
  then show ?case by (cases cur) (auto simp: sinkless_emit)
next
  case (Suc fuel)
  show ?case
  proof (cases cur)
    case None
    then show ?thesis using Suc.prems by (auto simp: sinkless_emit)
  next
    case (Some n)
    obtain r1 s1 w1 where step: "flow_step sha (memory_services False g cancelled stamp) fl run n p s w = (r1, s1, w1)"
      using prod_cases3 by blast
    note after = sinkless_step [OF Suc.prems(1,2) step]
    show ?thesis
      using Suc.prems(3) Some step after Suc.IH
      by (auto split: sum.splits prod.splits)
  qed
qed

lemma first_max_zero: "(\<forall>c \<in> set (b # cs). cp_last_committed_sequence c = 0) \<Longrightarrow> first_max b cs = b"
  by (induction cs) auto

text \<open>
  C0. Without an event sink every checkpoint of a run carries the sequence 0, and the latest checkpoint of the
  run is the one of its first node: a resume would replay every completed node after it.
\<close>

theorem sinkless_checkpoints_tie:
  assumes "flow_run sha stop (memory_services False g cancelled stamp) fl None run fuel s ([], []) = Some (res, s', es, cs)" "cs \<noteq> []"
  shows "memory_latest_checkpoint run cs = Some (hd cs)"
proof -
  let ?sv = "memory_services False g cancelled stamp"
  have "sv_commit ?sv \<noteq> None" by (simp add: memory_services_def)
  then have "zero_sequences run cs"
    using assms sinkless_loop [where w = "([], [])" and p = fresh_progress and run = run]
    by (fastforce simp: flow_run_def bind_outcome_def sinkless_emit zero_sequences_def fresh_progress_def split: sum.splits prod.splits)
  then have "filter (\<lambda>c. cp_run_id c = run) cs = cs" "\<forall>c \<in> set cs. cp_last_committed_sequence c = 0"
    by (simp_all add: zero_sequences_def)
  with assms(2) first_max_zero show ?thesis by (cases cs) (auto simp: memory_latest_checkpoint_def)
qed

section \<open>A fresh run on the repository\<close>

definition keeps_runs :: "repo \<times> nat \<Rightarrow> repo \<times> nat \<Rightarrow> bool" where
  "keeps_runs w w' \<longleftrightarrow> cx_runs (rp_db (fst w')) = cx_runs (rp_db (fst w)) \<and>
     cx_checkpoints (rp_db (fst w')) = cx_checkpoints (rp_db (fst w))"

definition refused :: "repo \<times> nat \<Rightarrow> ('a, repo \<times> nat) outcome \<Rightarrow> bool" where
  "refused w a \<longleftrightarrow> (\<exists>e w'. a = (Inl (ServiceRaised e), w') \<and> keeps_runs w w')"

definition at_most_refused :: "repo \<times> nat \<Rightarrow> ('a, repo \<times> nat) outcome \<Rightarrow> bool" where
  "at_most_refused w a \<longleftrightarrow> refused w a \<or> (\<exists>x w'. a = (Inr x, w') \<and> keeps_runs w w')"

lemma keeps_runs_trans: "keeps_runs a b \<Longrightarrow> keeps_runs b c \<Longrightarrow> keeps_runs a c"
  by (simp add: keeps_runs_def)

lemma refused_bind:
  "at_most_refused w a \<Longrightarrow> (\<And>x w'. keeps_runs w w' \<Longrightarrow> refused w' (k x w')) \<Longrightarrow> refused w (bind_outcome a k)"
  by (force simp: at_most_refused_def refused_def bind_outcome_def dest: keeps_runs_trans)

lemma refused_first: "refused w a \<Longrightarrow> refused w (bind_outcome a k)"
  by (auto simp: refused_def bind_outcome_def)

lemma append_auto_keeps:
  "cx_runs (rp_db (snd (append_auto J e r))) = cx_runs (rp_db r) \<and> cx_checkpoints (rp_db (snd (append_auto J e r))) = cx_checkpoints (rp_db r)"
  by (auto simp: append_auto_def Let_def rolled_back_def insert_event_def split: sum.splits option.splits)

lemma repo_emit: "at_most_refused w (emit_event (repo_services J ids now sink g cancelled stamp) kind payload w)"
proof (cases sink)
  case None
  then show ?thesis by (auto simp: emit_event_def repo_services_def at_most_refused_def keeps_runs_def)
next
  case (Some k)
  obtain r i where w: "w = (r, i)" by (cases w)
  let ?p = "dict_set (PStr ''event_type'') (PStr kind) (dict_setdefault ''schema_version'' (PInt 1) payload)"
  obtain a r' where emit: "sink_emit J (ids i) now k (emission_of kind ?p None) r = (a, r')" by fastforce
  have "keeps_runs (r, i) (r', Suc i)"
    using append_auto_keeps emit
    by (auto simp: sink_emit_def bind_answer_def keeps_runs_def split: event_sink.splits sum.splits)
  with Some emit show ?thesis
    by (cases a) (auto simp: w emit_event_def repo_services_def at_most_refused_def refused_def)
qed

lemma repo_commit:
  "\<not> has_run (cp_run_id c) (rp_db (fst w)) \<Longrightarrow> refused w (commit_checkpoint (repo_services J ids now sink g cancelled stamp) c w)"
proof -
  assume none: "\<not> has_run (cp_run_id c) (rp_db (fst w))"
  obtain r i where w: "w = (r, i)" by (cases w)
  have "checkpoint_row J c = Some x \<Longrightarrow> cp_run_id x = cp_run_id c" for x
    by (auto simp: checkpoint_row_def split: option.splits)
  then have "\<exists>e r'. insert_checkpoint J c r = (Inl e, r') \<and> cx_runs (rp_db r') = cx_runs (rp_db r) \<and>
      cx_checkpoints (rp_db r') = cx_checkpoints (rp_db r)"
    using none
    by (auto simp: w insert_checkpoint_def exec_txn_def insert_checkpoint_row_def rolled_back_def split: option.splits)
  then show ?thesis
    by (auto simp: w commit_checkpoint_def repo_services_def refused_def keeps_runs_def)
qed

lemma repo_boundary:
  assumes "\<not> has_run run (rp_db (fst w))"
  shows "refused w (step_boundary sha (repo_services J ids now sink g cancelled stamp) run node action next_id p w)"
proof -
  let ?sv = "repo_services J ids now sink g cancelled stamp"
  have "sv_commit ?sv \<noteq> None" by (simp add: repo_services_def)
  have commit: "refused w' (commit_checkpoint ?sv (build_checkpoint sha ?sv run node action next_id seq k) w')"
    if "keeps_runs w w'" for w' seq k
    by (rule repo_commit) (use assms that in \<open>simp add: build_checkpoint_def Let_def has_run_def keeps_runs_def\<close>)
  show ?thesis
    unfolding step_boundary_def Let_def
  proof (rule refused_bind [OF repo_emit], rule refused_bind [OF repo_emit], unfold if_not_P [OF \<open>sv_commit ?sv \<noteq> None\<close>],
      rule refused_bind [OF repo_emit], rule refused_first, rule commit)
    fix w1 w2 w3
    assume "keeps_runs w w1" "keeps_runs w1 w2" "keeps_runs w2 w3"
    then show "keeps_runs w w3" by (blast intro: keeps_runs_trans)
  qed
qed

text \<open>
  C27. A fresh run that writes its checkpoints to the repository never stores one. The runner makes up a run id
  of its own, which is not the run of the session and so unknown to the repository: the checkpoint of the
  first node is refused, and the run dies of it, whatever sink it has.
\<close>

theorem fresh_run_checkpoint_refused:
  assumes "named_flow fl" "fl_start fl = Some n" "\<not> has_run fresh (rp_db r)"
    and "run_node_phased (nd_hooks (fl_node fl n)) s = (Inr a, s1)" "0 < fuel"
  shows "\<exists>e s' w'. flow_run sha stop (repo_services J ids now sink g None stamp) fl None fresh fuel s (r, i) =
      Some (Inl (ServiceRaised e), s', w') \<and> cx_checkpoints (rp_db (fst w')) = cx_checkpoints (rp_db r)"
proof -
  let ?sv = "repo_services J ids now sink g None stamp"
  obtain node where node: "resolve_copy_id (fl_node fl n) = Some node" using assms(1) by (auto simp: named_flow_def)
  obtain k where fuel: "fuel = Suc k" using assms(5) by (cases fuel) auto
  obtain commit where some: "sv_commit ?sv = Some commit" by (simp add: repo_services_def)
  have poll: "sv_cancelled ?sv = None" by (simp add: repo_services_def)
  have step: "\<exists>e s' w'. flow_step sha ?sv fl fresh n p s w = (Inl (ServiceRaised e), s', w') \<and> keeps_runs w w'"
    if none: "\<not> has_run fresh (rp_db (fst w))" for p w
  proof -
    let ?here = "[(PStr ''run_id'', PStr fresh), (PStr ''node_id'', PStr node), (PStr ''step_count'', PInt (int (Suc (fp_step_count p))))]"
    let ?succ = "get_next_node (fl_node fl n) a"
    let ?id = "case ?succ of None \<Rightarrow> None | Some m \<Rightarrow> resolve_node_id (sv_registry ?sv) m (fl_node fl m)"
    have id: "?succ = Some m \<Longrightarrow> resolve_node_id (sv_registry ?sv) m (fl_node fl m) \<noteq> None" for m
      using assms(1) by (auto simp: named_flow_def dest: resolve_named)
    show ?thesis
    proof (cases "refused w (emit_event ?sv ''node.started'' ?here w)")
      case True
      then show ?thesis by (auto simp: refused_def flow_step_def Let_def poll node simp del: of_nat_Suc)
    next
      case False
      then obtain x w1 where emit: "emit_event ?sv ''node.started'' ?here w = (Inr x, w1)" and keep: "keeps_runs w w1"
        using repo_emit unfolding at_most_refused_def by meson
      let ?p2 = "p\<lparr>fp_step_count := Suc (fp_step_count p), fp_last_action := a, fp_last_node_id := Some node,
          fp_state_revision := Suc (fp_state_revision p)\<rparr>"
      have "\<not> has_run fresh (rp_db (fst w1))" using none keep by (simp add: has_run_def keeps_runs_def)
      then obtain e w2 where b: "step_boundary sha ?sv fresh node a ?id ?p2 w1 = (Inl (ServiceRaised e), w2)" "keeps_runs w1 w2"
        using repo_boundary unfolding refused_def by meson
      have "flow_step sha ?sv fl fresh n p s w = (Inl (ServiceRaised e), s1, w2)"
        using b(1) id by (cases ?succ) (simp_all add: flow_step_def Let_def poll node emit assms(4) del: of_nat_Suc)
      with keeps_runs_trans [OF keep b(2)] show ?thesis by blast
    qed
  qed
  let ?first = "[(PStr ''run_id'', PStr fresh), (PStr ''start_node_id'', PStr node), (PStr ''resume_from'', text_or_none None)]"
  have run: "flow_run sha stop ?sv fl None fresh fuel s (r, i) =
      (case bind_outcome (emit_event ?sv ''flow.started'' ?first (r, i)) (\<lambda>_ w1. (Inr (0::int), w1)) of
         (Inl e, w') \<Rightarrow> Some (Inl e, s, w')
       | (Inr _, w') \<Rightarrow> flow_loop sha stop ?sv fl fresh fuel (Some n) fresh_progress s w')"
    using some by (simp add: flow_run_def flow_entry_def assms(2) resolve_named [OF node])
  show ?thesis
  proof (cases "refused (r, i) (emit_event ?sv ''flow.started'' ?first (r, i))")
    case True
    then show ?thesis unfolding run by (auto simp: refused_def bind_outcome_def keeps_runs_def)
  next
    case False
    then obtain x w1 where emit: "emit_event ?sv ''flow.started'' ?first (r, i) = (Inr x, w1)" and keep: "keeps_runs (r, i) w1"
      using repo_emit unfolding at_most_refused_def by meson
    then have "\<not> has_run fresh (rp_db (fst w1))" using assms(3) by (simp add: has_run_def keeps_runs_def)
    then obtain e s' w' where "flow_step sha ?sv fl fresh n fresh_progress s w1 = (Inl (ServiceRaised e), s', w')" "keeps_runs w1 w'"
      using step by blast
    with keep emit show ?thesis unfolding run by (simp add: bind_outcome_def fuel keeps_runs_def)
  qed
qed

section \<open>Examples\<close>

text \<open>A flow of two nodes whose shared state is the list of what ran; the second one may raise.\<close>

definition demo_hooks :: "string \<Rightarrow> bool \<Rightarrow> string list hooks" where
  "demo_hooks name fails = Phased (\<lambda>s. (Inr PNone, s))
     (\<lambda>_ s. if fails then (Inl \<lparr>er_type = ''ValueError'', er_message = ''no''\<rparr>, s) else (Inr PNone, s @ [name]))
     (\<lambda>_ _ s. (Inr None, s))"

definition demo_flow :: "bool \<Rightarrow> string list flow" where
  "demo_flow fails = \<lparr>fl_start = Some 0, fl_node = (\<lambda>n.
     if n = 0 then \<lparr>nd_node_id = Some ''first'', nd_successors = [(''default'', 1)], nd_hooks = demo_hooks ''first'' False\<rparr>
     else \<lparr>nd_node_id = Some ''second'', nd_successors = [], nd_hooks = demo_hooks ''second'' fails\<rparr>)\<rparr>"

lemma demo_flow_named: "named_flow (demo_flow fails)"
  by (simp add: named_flow_def demo_flow_def resolve_copy_id_def)

definition demo_stamp :: "nat \<Rightarrow> ident \<times> string" where
  "demo_stamp n = (''cp'' @ nat_text n, ''t'')"

lemma demo_memory_quiet: "quiet_services (memory_services b g None demo_stamp)"
  by (auto simp: quiet_services_def memory_services_def split: if_splits)

theorem flow_parity_witness:
  "map_option (\<lambda>(a, s', w'). (a, s')) (flow_run id (\<lambda>_. None) (memory_services True None None demo_stamp) (demo_flow False)
     None ''r'' 5 [] ([], [])) = Some (Inr None, [''first'', ''second''])"
proof -
  have orch: "orch (demo_flow False) 5 (Some 0) None [] = Some (Inr None, [''first'', ''second''])" by code_simp
  have start: "case None of None \<Rightarrow> fl_start (demo_flow False) = Some 0
      | Some pt \<Rightarrow> (\<exists>g. sv_registry (memory_services True None None demo_stamp) = Some g \<and> registry_get g (fr_next_node_id pt) = Some 0)"
    by (simp add: demo_flow_def)
  show ?thesis by (rule trans [OF flow_parity [OF demo_memory_quiet demo_flow_named start] orch])
qed



definition demo_sinkless :: "(string \<times> (pval \<times> pval) list) list \<times> checkpoint list" where
  "demo_sinkless = (case flow_run id (\<lambda>_. None) (memory_services False None None demo_stamp) (demo_flow False) None ''r'' 5 [] ([], []) of
     Some (_, _, w) \<Rightarrow> w | None \<Rightarrow> ([], []))"

theorem sinkless_checkpoints_tie_witness:
  "length (snd demo_sinkless) = 2 \<and> memory_latest_checkpoint ''r'' (snd demo_sinkless) = Some (hd (snd demo_sinkless))"
proof -
  have run: "flow_run id (\<lambda>_. None) (memory_services False None None demo_stamp) (demo_flow False) None ''r'' 5 [] ([], []) =
      Some (Inr None, [''first'', ''second''], fst demo_sinkless, snd demo_sinkless)"
    by code_simp
  have two: "length (snd demo_sinkless) = 2" by code_simp
  then have "snd demo_sinkless \<noteq> []" by auto
  with two show ?thesis by (simp add: sinkless_checkpoints_tie [OF run])
qed

theorem fresh_run_checkpoint_refused_witness:
  "\<exists>e s' w'. flow_run id (\<lambda>_. None) (repo_services demo_json (\<lambda>i. ''f'' @ nat_text i) ''t'' (Some (ss_sink demo_session)) None None demo_stamp)
     (demo_flow False) None ''run-fresh'' 5 [] (demo_repo, 0) = Some (Inl (ServiceRaised e), s', w') \<and>
     cx_checkpoints (rp_db (fst w')) = cx_checkpoints (rp_db demo_repo)"
proof (rule fresh_run_checkpoint_refused [OF demo_flow_named])
  show "fl_start (demo_flow False) = Some 0" by (simp add: demo_flow_def)
  show "\<not> has_run ''run-fresh'' (rp_db demo_repo)" unfolding has_run_def by code_simp
  show "run_node_phased (nd_hooks (fl_node (demo_flow False) 0)) [] = (Inr None, [''first''])" by code_simp
qed simp

text \<open>
  A node that has its identity from the registry only runs never: the loop looks the copy up, which no
  registry knows.
\<close>

lemma registered_node_not_found:
  "fst (flow_step sha sv \<lparr>fl_start = Some 0, fl_node = \<lambda>_. \<lparr>nd_node_id = None, nd_successors = [], nd_hooks = h\<rparr>\<rparr> run 0
     fresh_progress s w) = Inl NodeIdentityMissing" if "sv_cancelled sv = None"
  using that by (simp add: flow_step_def Let_def resolve_copy_id_def)

end
