(* ===== verification/Context_Builder.thy ===== *)
theory Context_Builder
  imports Context_Repo
begin

text \<open>
  \<open>context/builder.py\<close> and \<open>context/compaction.py\<close>: the view of a role on the context items of a run. \<open>build\<close>
  collects the items, applies the filters in their order (validation, trust boundary, scope, lifecycle,
  duplicates, conflicts), selects within the budget of tokens, compacts what the budget evicted into
  summary items, which it stores, and stores a snapshot.

  SHA-256, \<open>json.dumps\<close>, \<open>str\<close> of a list of texts and the iteration order of a set of texts are the
  fields of \<open>build_env\<close>. The estimator is the default one, four bytes of UTF-8 to a token, and the
  compaction policy the one the builder makes itself, at most 16 items to a summary.
\<close>

record build_env =
  be_sha :: "string \<Rightarrow> string"
  be_dumps :: "pval \<Rightarrow> string"
  be_str_list :: "string list \<Rightarrow> string"
  be_set_order :: "ident list \<Rightarrow> ident list"
  be_json :: "pval \<Rightarrow> pval option"

datatype build_error = ViewError string | BudgetInvalid string | BudgetExhausted ident int int | RepoFailed repo_error

section \<open>Views and exclusions\<close>

record role_view =
  rv_role :: string
  rv_task_id :: "ident option"

definition role_view_error :: "role_view \<Rightarrow> string option" where
  "role_view_error v =
    (if rv_role v \<notin> {''coordinator'', ''worker'', ''reviewer''} then Some ''role must be one of''
     else if rv_role v = ''worker'' \<and> (case rv_task_id v of None \<Rightarrow> True | Some t \<Rightarrow> t = [])
     then Some ''worker role requires a non-empty task_id''
     else None)"

record exclusion =
  xc_item_id :: ident
  xc_reason :: string
  xc_detail :: string

definition excluded_as :: "string \<Rightarrow> (context_item \<Rightarrow> string) \<Rightarrow> context_item \<Rightarrow> exclusion" where
  "excluded_as reason detail c = \<lparr>xc_item_id = ci_item_id c, xc_reason = reason, xc_detail = detail c\<rparr>"

definition exclusion_value :: "exclusion \<Rightarrow> pval" where
  "exclusion_value x = PDict [(PStr ''item_id'', PStr (xc_item_id x)),
     (PStr ''exclusion_reason'', PStr (xc_reason x)), (PStr ''detail'', PStr (xc_detail x))]"

text \<open>A filter of the chain: what it keeps, and a record for each item it drops, in the order of the items.\<close>

definition sift ::
  "(context_item \<Rightarrow> bool) \<Rightarrow> (context_item \<Rightarrow> exclusion) \<Rightarrow> context_item list \<Rightarrow> context_item list \<times> exclusion list" where
  "sift ok record cs = (filter ok cs, map record (filter (\<lambda>c. \<not> ok c) cs))"

section \<open>The filters\<close>

definition validate_items :: "context_item list \<Rightarrow> context_item list \<times> exclusion list" where
  "validate_items = sift (\<lambda>c. item_error c = None) (excluded_as ''trust_violation'' (\<lambda>_. ''validation raised; see logs''))"

definition within_trust :: "context_item \<Rightarrow> bool" where
  "within_trust c \<longleftrightarrow>
     \<not> (so_trust_level (ci_source c) = ''external_untrusted'' \<and> ci_layer c \<in> {''L0'', ''L1''})"

definition enforce_trust_boundary :: "context_item list \<Rightarrow> context_item list \<times> exclusion list" where
  "enforce_trust_boundary = sift within_trust (excluded_as ''trust_violation'' (\<lambda>c.
     ''external_untrusted source in layer '' @ ci_layer c @ ''; cannot enter Constitution/Role''))"

fun marker_visible :: "role_view \<Rightarrow> string \<Rightarrow> bool" where
  "marker_visible v m \<longleftrightarrow>
     m = ''shared'' \<or>
     (m = ''coordinator'' \<and> rv_role v = ''coordinator'') \<or>
     (m = ''reviewer'' \<and> rv_role v = ''reviewer'') \<or>
     (rv_role v = ''worker'' \<and> (case rv_task_id v of None \<Rightarrow> False | Some t \<Rightarrow> m = ''worker:'' @ t))"

definition visible_to :: "role_view \<Rightarrow> context_item \<Rightarrow> bool" where
  "visible_to v c = list_ex (marker_visible v) (ci_scope c)"

definition opt_text :: "string option \<Rightarrow> string" where
  "opt_text t = (case t of None \<Rightarrow> ''None'' | Some s \<Rightarrow> s)"

definition apply_role_scope :: "build_env \<Rightarrow> role_view \<Rightarrow> context_item list \<Rightarrow> context_item list \<times> exclusion list" where
  "apply_role_scope env v = sift (visible_to v) (excluded_as ''scope_mismatch'' (\<lambda>c.
     ''scope '' @ be_str_list env (ci_scope c) @ '' not visible to '' @ rv_role v @
     '' (task_id='' @ opt_text (rv_task_id v) @ '')''))"

text \<open>
  Expired or not yet valid items, then those another item of the same list supersedes. The superseding
  item counts whether or not it is active itself.
\<close>

definition superseded_ids :: "context_item list \<Rightarrow> ident set" where
  "superseded_ids cs = Option.these (ci_supersedes_item_id ` set cs)"

fun lifecycle_record :: "int \<Rightarrow> context_item \<Rightarrow> exclusion" where
  "lifecycle_record n c =
    (if \<not> is_active_at n c
     then excluded_as ''expired'' (\<lambda>_. ''validity window closed at sequence '' @ int_text n) c
     else excluded_as ''superseded'' (\<lambda>_. ''superseded by a newer item in this candidate set'') c)"

definition remove_expired_and_superseded ::
  "int \<Rightarrow> context_item list \<Rightarrow> context_item list \<times> exclusion list" where
  "remove_expired_and_superseded n cs =
    sift (\<lambda>c. is_active_at n c \<and> ci_item_id c \<notin> superseded_ids cs) (lifecycle_record n) cs"

fun drop_repeated :: "ident set \<Rightarrow> context_item list \<Rightarrow> context_item list \<times> exclusion list" where
  "drop_repeated seen_ids [] = ([], [])"
| "drop_repeated seen_ids (c # cs) =
    (if ci_item_id c \<in> seen_ids then
       (case drop_repeated seen_ids cs of (kept, xs) \<Rightarrow>
          (kept, excluded_as ''deduplication'' (\<lambda>_. ''duplicate item_id in candidate set'') c # xs))
     else (case drop_repeated (insert (ci_item_id c) seen_ids) cs of (kept, xs) \<Rightarrow> (c # kept, xs)))"

definition fact_key :: "context_item \<Rightarrow> string \<times> ident option" where
  "fact_key c = (ci_layer c, ci_task_id c)"

text \<open>The facts of one layer and task, and the ids of those whose group holds two contents.\<close>

definition fact_group :: "context_item list \<Rightarrow> context_item \<Rightarrow> context_item list" where
  "fact_group cs c = filter (\<lambda>d. ci_kind d = ''fact'' \<and> fact_key d = fact_key c) cs"

definition conflicting :: "context_item list \<Rightarrow> context_item \<Rightarrow> bool" where
  "conflicting cs c \<longleftrightarrow> ci_kind c = ''fact'' \<and>
     (let g = fact_group cs c in 2 \<le> length g \<and> 1 < length (remdups (map ci_content g)))"

definition conflict_ids :: "context_item list \<Rightarrow> ident list" where
  "conflict_ids cs = remdups (map ci_item_id (filter (conflicting cs) cs))"

definition resolve_fact_conflicts ::
  "build_env \<Rightarrow> context_item list \<Rightarrow> context_item list \<times> exclusion list" where
  "resolve_fact_conflicts env cs =
    (let ids = conflict_ids cs in
     if ids = [] then (cs, [])
     else (filter (\<lambda>c. ci_item_id c \<notin> set ids) cs,
       map (\<lambda>i. \<lparr>xc_item_id = i, xc_reason = ''conflict'',
          xc_detail = ''two active fact items with same layer/task_id but different content; both excluded pending resolution''\<rparr>)
        (be_set_order env ids)))"

section \<open>Selection within the budget\<close>

definition item_protected :: "context_item \<Rightarrow> bool" where
  "item_protected c =
    (if ci_layer c \<in> {''L0'', ''L1''} then True
     else if ci_kind c = ''constraint'' then True
     else if ci_kind c = ''evidence_ref'' then True
     else if ci_kind c = ''todo'' \<and> ci_valid_to_sequence c = None then True
     else False)"

definition keep_tier :: "context_item \<Rightarrow> int" where
  "keep_tier c =
    (if ci_kind c = ''observation'' then 0
     else if so_source_type (ci_source c) = ''file'' \<and> 500 < ci_estimated_tokens c then 1
     else 2)"

definition keep_key :: "context_item \<Rightarrow> int \<times> int \<times> int \<times> ident" where
  "keep_key c = (keep_tier c, ci_priority c, ci_valid_from_sequence c, ci_item_id c)"

definition items_tokens :: "context_item list \<Rightarrow> int" where
  "items_tokens cs = sum_list (map ci_estimated_tokens cs)"

fun keep_while_fits ::
  "int \<Rightarrow> int \<Rightarrow> context_item list \<Rightarrow> context_item list \<times> exclusion list" where
  "keep_while_fits usable kept_tokens [] = ([], [])"
| "keep_while_fits usable kept_tokens (c # cs) =
    (if kept_tokens + ci_estimated_tokens c \<le> usable then
       (case keep_while_fits usable (kept_tokens + ci_estimated_tokens c) cs of (kept, xs) \<Rightarrow> (c # kept, xs))
     else (case keep_while_fits usable kept_tokens cs of (kept, xs) \<Rightarrow>
       (kept, excluded_as ''budget_overflow'' (\<lambda>c. ''dropped to fit usable_input='' @ int_text usable @
          ''; item tokens='' @ int_text (ci_estimated_tokens c)) c # xs)))"

text \<open>A stable sort in descending order, as \<open>list.sort(reverse=True)\<close>.\<close>

definition sort_down :: "('a \<Rightarrow> 'k::linorder) \<Rightarrow> 'a list \<Rightarrow> 'a list" where
  "sort_down k xs = rev (sort_key k (rev xs))"

definition select_within_budget ::
  "context_item list \<Rightarrow> int \<Rightarrow> int \<Rightarrow> ident \<Rightarrow> build_error + (context_item list \<times> exclusion list)" where
  "select_within_budget cs total_tokens usable run_id =
    (if total_tokens \<le> usable then Inr (cs, [])
     else let protected = filter item_protected cs;
              evictable = filter (\<lambda>c. \<not> item_protected c) cs;
              protected_tokens = items_tokens protected in
       if usable < protected_tokens then Inl (BudgetExhausted run_id protected_tokens usable)
       else (case keep_while_fits usable protected_tokens (sort_down keep_key evictable) of
          (kept, xs) \<Rightarrow> Inr (protected @ kept, xs)))"

section \<open>Compaction\<close>

definition utf8_length :: "string \<Rightarrow> nat" where
  "utf8_length s = sum_list (map (\<lambda>c. if (of_char c :: nat) < 128 then 1 else 2) s)"

definition char4_estimate :: "string \<Rightarrow> int" where
  "char4_estimate s = (if s = [] then 0 else int (max 1 ((utf8_length s + 3) div 4)))"

definition join_text :: "string \<Rightarrow> string list \<Rightarrow> string" where
  "join_text sep ss = (case ss of [] \<Rightarrow> [] | t # ts \<Rightarrow> t @ concat (map (\<lambda>u. sep @ u) ts))"

text \<open>The snippets of the first items, as long as they fit in 400 characters.\<close>

fun snippets :: "nat \<Rightarrow> context_item list \<Rightarrow> string list" where
  "snippets chars [] = []"
| "snippets chars (c # cs) =
    (let s = take 80 (ci_content c) in
     if 400 < chars + length s then [] else s # snippets (chars + length s) cs)"

definition summary_content :: "context_item list \<Rightarrow> string" where
  "summary_content chunk =
     ''[compacted '' @ nat_text (length chunk) @ '' observations: '' @ join_text '', '' (map ci_item_id chunk) @
     ''] snippets: '' @ join_text '' | '' (snippets 0 chunk)"

definition summary_id :: "build_env \<Rightarrow> context_item list \<Rightarrow> ident" where
  "summary_id env chunk = ''summary-'' @ take 16 (be_sha env (join_text '','' (sort (map ci_item_id chunk))))"

definition build_summary_item :: "build_env \<Rightarrow> ident \<Rightarrow> int \<Rightarrow> context_item list \<Rightarrow> context_item" where
  "build_summary_item env run_id at_sequence chunk =
    \<lparr>ci_item_id = summary_id env chunk, ci_run_id = run_id, ci_layer = ''L4'', ci_kind = ''observation'',
     ci_content = summary_content chunk,
     ci_source = \<lparr>so_source_type = ''runtime'', so_source_ref = ''compaction:'' @ join_text '','' (map ci_item_id chunk),
       so_trust_level = ''trusted_local'', so_created_sequence = at_sequence\<rparr>,
     ci_priority = 0, ci_scope = [''shared''], ci_estimated_tokens = char4_estimate (summary_content chunk),
     ci_valid_from_sequence = at_sequence, ci_task_id = None, ci_valid_to_sequence = None,
     ci_supersedes_item_id = None,
     ci_metadata = PDict [(PStr ''compacted_item_ids'', PList (map (PStr \<circ> ci_item_id) chunk)),
       (PStr ''compacted_at_sequence'', PInt at_sequence)]\<rparr>"

definition max_items_per_summary :: nat where
  "max_items_per_summary = 16"

function chunks :: "nat \<Rightarrow> 'a list \<Rightarrow> 'a list list" where
  "chunks n xs = (if xs = [] \<or> n = 0 then [] else take n xs # chunks n (drop n xs))"
  by pat_completeness auto
termination by (relation "measure (length \<circ> snd)") auto

declare chunks.simps [simp del]

record compaction_result =
  cn_summary_item_ids :: "ident list"
  cn_retained_constraint_ids :: "ident list"
  cn_retained_evidence_refs :: "ident list"
  cn_removed_item_ids :: "ident list"
  cn_source_item_ids :: "ident list"
  cn_compaction_hash :: string

record compaction_outcome =
  oc_result :: "compaction_result option"
  oc_final_selected :: "context_item list"
  oc_still_over_budget :: bool

definition compaction_hash :: "build_env \<Rightarrow> context_item list \<Rightarrow> context_item list \<Rightarrow> string" where
  "compaction_hash env eligible summaries = be_sha env (be_dumps env (PDict
     [(PStr ''eligible'', PList (map (\<lambda>c. PDict [(PStr ''item_id'', PStr (ci_item_id c)),
          (PStr ''content_sha256'', PStr (be_sha env (ci_content c)))]) (sort_key ci_item_id eligible))),
      (PStr ''summary_contents'', PList (map PStr (sort (map (be_sha env \<circ> ci_content) summaries))))]))"

text \<open>Everything the selection evicted and that is not protected is absorbed, whatever its kind.\<close>

definition compact ::
  "build_env \<Rightarrow> context_item list \<Rightarrow> context_item list \<Rightarrow> context_budget \<Rightarrow> ident \<Rightarrow> int \<Rightarrow> compaction_outcome" where
  "compact env kept evicted budget run_id at_sequence =
    (if evicted = [] then \<lparr>oc_result = None, oc_final_selected = kept, oc_still_over_budget = False\<rparr>
     else let eligible = filter (\<lambda>c. \<not> item_protected c) evicted;
              final_kept = kept @ filter item_protected evicted in
       if eligible = [] then
         \<lparr>oc_result = None, oc_final_selected = final_kept,
          oc_still_over_budget = usable_input budget < items_tokens final_kept\<rparr>
       else let summaries = map (build_summary_item env run_id at_sequence) (chunks max_items_per_summary eligible);
                final = final_kept @ summaries in
         \<lparr>oc_result = Some
            \<lparr>cn_summary_item_ids = map ci_item_id summaries,
             cn_retained_constraint_ids = map ci_item_id (filter (\<lambda>c. ci_kind c = ''constraint'') final_kept),
             cn_retained_evidence_refs = map ci_item_id (filter (\<lambda>c. ci_kind c = ''evidence_ref'') final_kept),
             cn_removed_item_ids = map ci_item_id eligible,
             cn_source_item_ids = map ci_item_id eligible,
             cn_compaction_hash = compaction_hash env eligible summaries\<rparr>,
          oc_final_selected = final,
          oc_still_over_budget = usable_input budget < items_tokens final\<rparr>)"

section \<open>The snapshot\<close>

definition render_items :: "build_env \<Rightarrow> role_view \<Rightarrow> context_item list \<Rightarrow> string" where
  "render_items env v cs = be_dumps env (PDict
     [(PStr ''role'', PStr (rv_role v)),
      (PStr ''task_id'', case rv_task_id v of None \<Rightarrow> PNone | Some t \<Rightarrow> PStr t),
      (PStr ''items'', PList (map (\<lambda>c. PDict
         [(PStr ''item_id'', PStr (ci_item_id c)), (PStr ''layer'', PStr (ci_layer c)),
          (PStr ''kind'', PStr (ci_kind c)), (PStr ''priority'', PInt (ci_priority c)),
          (PStr ''source_ref'', PStr (so_source_ref (ci_source c))),
          (PStr ''trust_level'', PStr (so_trust_level (ci_source c))),
          (PStr ''estimated_tokens'', PInt (ci_estimated_tokens c)),
          (PStr ''content_sha256'', PStr (be_sha env (ci_content c)))]) (sort_key ci_item_id cs)))])"

text \<open>What the filters leave, and the records of what they dropped, in the order of the filters.\<close>

definition filter_chain ::
  "build_env \<Rightarrow> role_view \<Rightarrow> int \<Rightarrow> context_item list \<Rightarrow> context_item list \<times> exclusion list" where
  "filter_chain env v at_sequence cs =
    (let (c1, x1) = validate_items cs; (c2, x2) = enforce_trust_boundary c1; (c3, x3) = apply_role_scope env v c2;
         (c4, x4) = remove_expired_and_superseded at_sequence c3; (c5, x5) = drop_repeated {} c4;
         (c6, x6) = resolve_fact_conflicts env c5
     in (c6, x1 @ x2 @ x3 @ x4 @ x5 @ x6))"

text \<open>
  The selection after compaction: the new summaries are stored, the record of each summary names how many
  items it absorbed, and protected items beyond the budget raise.
\<close>

definition run_compaction ::
  "build_env \<Rightarrow> context_item list \<Rightarrow> exclusion list \<Rightarrow> context_budget \<Rightarrow> ident \<Rightarrow> int \<Rightarrow> repo \<Rightarrow> compaction_outcome option" where
  "run_compaction env selected budget_excluded budget run_id at_sequence r =
    (let evicted_ids = xc_item_id ` set (filter (\<lambda>x. xc_reason x = ''budget_overflow'') budget_excluded) in
     if evicted_ids = {} then None
     else Some (compact env selected
       (filter (\<lambda>c. ci_item_id c \<in> evicted_ids) (list_context_items run_id None None None r)) budget run_id at_sequence))"

definition new_summaries :: "context_item list \<Rightarrow> compaction_outcome \<Rightarrow> context_item list" where
  "new_summaries selected oc = (if oc_result oc = None then []
     else filter (\<lambda>c. ci_item_id c \<notin> ci_item_id ` set selected) (oc_final_selected oc))"

definition summary_records :: "compaction_outcome \<Rightarrow> exclusion list" where
  "summary_records oc = (case oc_result oc of None \<Rightarrow> []
     | Some res \<Rightarrow> map (\<lambda>i. \<lparr>xc_item_id = i, xc_reason = ''compaction_summary'',
         xc_detail = ''summary item absorbing '' @ nat_text (length (cn_removed_item_ids res)) @ '' source items''\<rparr>)
       (cn_summary_item_ids res))"

definition protected_overflow :: "compaction_outcome \<Rightarrow> int \<Rightarrow> int option" where
  "protected_overflow oc usable =
    (let protected_tokens = items_tokens (filter item_protected (oc_final_selected oc)) in
     if (oc_still_over_budget oc \<or> usable < items_tokens (oc_final_selected oc)) \<and> usable < protected_tokens
     then Some protected_tokens else None)"

type_synonym 'a built = "(build_error + 'a) \<times> repo"

text \<open>The last steps of \<open>build\<close>: render, make the snapshot and store it.\<close>

definition store_selection ::
  "build_env \<Rightarrow> ident \<Rightarrow> ident \<Rightarrow> role_view \<Rightarrow> string \<Rightarrow> int \<Rightarrow> context_item list \<Rightarrow> exclusion list \<Rightarrow> repo \<Rightarrow>
     context_snapshot built" where
  "store_selection env snapshot_id run_id v agent_id at_sequence selected excluded r =
    (case make_snapshot
       \<lparr>sn_snapshot_id = snapshot_id, sn_run_id = run_id, sn_agent_id = agent_id, sn_role = rv_role v,
        sn_source_item_ids = map ci_item_id selected, sn_excluded_items = PTuple (map exclusion_value excluded),
        sn_rendered_hash = be_sha env (render_items env v selected), sn_estimated_tokens = items_tokens selected,
        sn_estimator = ''char4'', sn_created_sequence = at_sequence, sn_task_id = rv_task_id v,
        sn_session_id = None, sn_model_call_id = None, sn_system_prompt_hash = None, sn_static_prefix_hash = None,
        sn_selected_memory_ids = [], sn_selected_artifact_locators = [], sn_selected_event_ids = [],
        sn_event_range = [], sn_compaction_summary_ref = None, sn_omitted_counts = [], sn_input_tokens = None,
        sn_policy_fingerprint = []\<rparr> of
       Inl e \<Rightarrow> (Inl (RepoFailed (InvalidValue e)), r)
     | Inr s \<Rightarrow> (case insert_snapshot (be_json env) s r of
         (Inl e, r') \<Rightarrow> (Inl (RepoFailed e), r')
       | (Inr _, r') \<Rightarrow> (Inr s, r')))"

definition build ::
  "build_env \<Rightarrow> ident \<Rightarrow> ident \<Rightarrow> role_view \<Rightarrow> context_budget \<Rightarrow> string \<Rightarrow> int \<Rightarrow> repo \<Rightarrow> context_snapshot built" where
  "build env snapshot_id run_id v budget agent_id at_sequence r =
    (case budget_error budget of
       Some e \<Rightarrow> (Inl (BudgetInvalid e), r)
     | None \<Rightarrow>
       (case filter_chain env v at_sequence (list_context_items run_id None None None r) of (cs, excluded) \<Rightarrow>
        case select_within_budget cs (items_tokens cs) (usable_input budget) run_id of
          Inl e \<Rightarrow> (Inl e, r)
        | Inr (selected, budget_excluded) \<Rightarrow>
          (case run_compaction env selected budget_excluded budget run_id at_sequence r of
             None \<Rightarrow> store_selection env snapshot_id run_id v agent_id at_sequence selected (excluded @ budget_excluded) r
           | Some oc \<Rightarrow>
             (case (if new_summaries selected oc = [] then (Inr 0, r)
                    else insert_context_items (be_json env) (new_summaries selected oc) r) of
                (Inl e, r') \<Rightarrow> (Inl (RepoFailed e), r')
              | (Inr _, r') \<Rightarrow>
                (case protected_overflow oc (usable_input budget) of
                   Some n \<Rightarrow> (Inl (BudgetExhausted run_id n (usable_input budget)), r')
                 | None \<Rightarrow> store_selection env snapshot_id run_id v agent_id at_sequence (oc_final_selected oc)
                     (excluded @ budget_excluded @ summary_records oc) r')))))"

end
