(* ===== verification/Context_Collect.thy ===== *)
theory Context_Collect
  imports Context_Assembly
begin

text \<open>
  The collecting half of \<open>context/orchestration.py\<close>: the candidates of one call of a provider from its
  request, the repository, and the other sources, whose candidates are an argument. Selecting the context
  items runs the builder, which stores a snapshot, so the collection changes the repository.
\<close>

record assembly_request =
  rq_run_id :: ident
  rq_conversation_id :: ident
  rq_step_id :: ident
  rq_raw_prompt :: string
  rq_workspace :: string
  rq_role :: string
  rq_task_id :: "ident option"
  rq_at_sequence :: int
  rq_additional :: "context_candidate list"

section \<open>Tool events\<close>

definition tool_call_id :: "session_event \<Rightarrow> string option" where
  "tool_call_id e =
    (let v = dict_get (se_payload e) ''call_id'';
         w = (if truthy v then v else dict_get (se_payload e) ''tool_call_id'')
     in case w of PStr s \<Rightarrow> if strip s \<noteq> [] then Some (strip s) else None | _ \<Rightarrow> None)"

definition tool_event_key :: "assembly_env \<Rightarrow> session_event \<Rightarrow> string" where
  "tool_event_key env e =
    (case tool_call_id e of
       Some i \<Rightarrow> ''call:'' @ i
     | None \<Rightarrow>
       (case (dict_get (se_payload e) ''tool'', dict_get (se_payload e) ''call_index'') of
          (PStr t, PNone) \<Rightarrow> ''legacy:'' @ se_event_id e
        | (PStr t, v) \<Rightarrow> ''call:'' @ t @ '':'' @ py_str (ae_str env) v
        | _ \<Rightarrow> ''legacy:'' @ se_event_id e))"

text \<open>The last start with each key, and the results in their order.\<close>

definition is_result :: "session_event \<Rightarrow> bool" where
  "is_result e \<longleftrightarrow> se_event_type e \<in> {''tool.completed'', ''tool.failed'', ''permission.denied''}"

definition tool_starts :: "assembly_env \<Rightarrow> session_event list \<Rightarrow> (string \<times> session_event) list" where
  "tool_starts env es =
    foldl (\<lambda>d e. dict_set (tool_event_key env e) e d) [] (filter (\<lambda>e. se_event_type e = ''tool.started'') es)"

record tool_group =
  tg_candidate_id :: ident
  tg_tool_call_id :: "string option"
  tg_events :: "session_event list"
  tg_result :: session_event

definition group_result :: "assembly_env \<Rightarrow> (string \<times> session_event) list \<Rightarrow> session_event \<Rightarrow> tool_group option" where
  "group_result env starts result =
    (let key = tool_event_key env result in
     case map_of starts key of
       None \<Rightarrow>
         (if prefix ''legacy:'' key
          then Some \<lparr>tg_candidate_id = ''event:'' @ se_event_id result, tg_tool_call_id = None, tg_events = [result], tg_result = result\<rparr>
          else None)
     | Some start \<Rightarrow>
         (let call = (case tool_call_id result of Some i \<Rightarrow> i | None \<Rightarrow> (case tool_call_id start of Some i \<Rightarrow> i | None \<Rightarrow> key)) in
          Some \<lparr>tg_candidate_id = ''tool-group:'' @ call, tg_tool_call_id = Some call, tg_events = [start, result], tg_result = result\<rparr>))"

definition tool_event_groups :: "assembly_env \<Rightarrow> session_event list \<Rightarrow> tool_group list" where
  "tool_event_groups env es =
    sort_key (se_sequence \<circ> tg_result) (List.map_filter (group_result env (tool_starts env es)) (filter is_result es))"

section \<open>Candidates of the repository\<close>

text \<open>\<open>xs[-limit:]\<close> for a positive limit, nothing for zero.\<close>

definition last_of :: "int \<Rightarrow> 'a list \<Rightarrow> 'a list" where
  "last_of limit xs = (if limit = 0 then [] else drop (length xs - nat limit) xs)"

definition message_candidate :: "conversation_message \<Rightarrow> context_candidate" where
  "message_candidate m =
    (let shown = me_role m @ '': '' @ me_content m; user = (me_role m = ''user'') in
     \<lparr>ca_candidate_id = ''message:'' @ me_message_id m, ca_source = ''conversation'', ca_source_ref = me_message_id m,
      ca_layer = ''L3'', ca_kind = ''observation'', ca_scope = [''shared''], ca_priority = (if user then 500 else 400),
      ca_trust = (if user then ''user'' else ''trusted_local''), ca_freshness = me_sequence m,
      ca_estimated_tokens = estimate_tokens shown, ca_content = shown, ca_bucket = ''recent'', ca_pinned = False,
      ca_compressible = True, ca_sensitive = False, ca_conflict_group = None, ca_metadata = []\<rparr>)"

definition message_candidates :: "context_policy \<Rightarrow> assembly_request \<Rightarrow> repo \<Rightarrow> context_candidate list" where
  "message_candidates p q r =
    map message_candidate (filter (\<lambda>m. me_content m \<noteq> [])
      (last_of (pl_recent_message_limit p)
        (filter (\<lambda>m. me_run_id m \<noteq> rq_run_id q) (list_messages (rq_conversation_id q) r))))"

definition task_candidate :: "assembly_env \<Rightarrow> task_state \<Rightarrow> context_candidate" where
  "task_candidate env t =
    (let shown = ''Task '' @ ts_task_id t @ '' status='' @ ts_status t @ '' state='' @ ae_dumps env (ts_payload t);
         resolved = (ts_status t \<in> {''done'', ''completed''}) in
     \<lparr>ca_candidate_id = ''task:'' @ ts_task_id t, ca_source = ''task_state'', ca_source_ref = ts_task_id t,
      ca_layer = ''L2'', ca_kind = ''todo'', ca_scope = [''shared''], ca_priority = 800, ca_trust = ''trusted_local'',
      ca_freshness = int (ts_revision t), ca_estimated_tokens = estimate_tokens shown, ca_content = shown,
      ca_bucket = ''task'', ca_pinned = \<not> resolved, ca_compressible = False, ca_sensitive = False,
      ca_conflict_group = None, ca_metadata = [(PStr ''resolved'', PBool resolved)]\<rparr>)"

definition tool_candidate :: "assembly_env \<Rightarrow> tool_group \<Rightarrow> context_candidate" where
  "tool_candidate env g =
    (let shown = join_text newline (map (\<lambda>e. se_event_type e @ '': '' @ ae_dumps env (PDict (se_payload e))) (tg_events g)) in
     \<lparr>ca_candidate_id = tg_candidate_id g, ca_source = ''tool_result'', ca_source_ref = tg_candidate_id g,
      ca_layer = ''L4'', ca_kind = ''observation'', ca_scope = [''shared''], ca_priority = 550, ca_trust = ''tool_output'',
      ca_freshness = se_sequence (tg_result g), ca_estimated_tokens = estimate_tokens shown, ca_content = shown,
      ca_bucket = ''tool'', ca_pinned = False, ca_compressible = True, ca_sensitive = False, ca_conflict_group = None,
      ca_metadata = [(PStr ''atomic_group'', PBool True), (PStr ''event_ids'', PList (map (PStr \<circ> se_event_id) (tg_events g))),
        (PStr ''tool_call_id'', case tg_tool_call_id g of None \<Rightarrow> PNone | Some i \<Rightarrow> PStr i)]\<rparr>)"

definition tool_candidates :: "assembly_env \<Rightarrow> context_policy \<Rightarrow> assembly_request \<Rightarrow> repo \<Rightarrow> context_candidate list" where
  "tool_candidates env p q r = map (tool_candidate env)
     (last_of (pl_recent_tool_result_limit p) (tool_event_groups env (list_session_events (rq_run_id q) 0 r)))"

text \<open>\<open>dict(item.metadata)\<close>, and \<open>metadata.get(key, default)\<close>.\<close>

definition items_of :: "pval \<Rightarrow> (pval \<times> pval) list" where
  "items_of v = (case v of PDict kvs \<Rightarrow> kvs | _ \<Rightarrow> [])"

definition meta_get :: "(pval \<times> pval) list \<Rightarrow> string \<Rightarrow> pval \<Rightarrow> pval" where
  "meta_get kvs k d = (case map_of kvs (PStr k) of None \<Rightarrow> d | Some v \<Rightarrow> v)"

definition candidate_from_context_item :: "assembly_env \<Rightarrow> context_item \<Rightarrow> context_candidate" where
  "candidate_from_context_item env c =
    (let m = items_of (ci_metadata c); g = dict_get m ''conflict_group'' in
     \<lparr>ca_candidate_id = ''context:'' @ ci_item_id c, ca_source = ''context_item'', ca_source_ref = ci_item_id c,
      ca_layer = ci_layer c, ca_kind = ci_kind c, ca_scope = ci_scope c, ca_priority = ci_priority c,
      ca_trust = so_trust_level (ci_source c), ca_freshness = ci_valid_from_sequence c,
      ca_estimated_tokens = ci_estimated_tokens c, ca_content = ci_content c,
      ca_bucket = py_str (ae_str env) (meta_get m ''bucket'' (PStr ''context'')),
      ca_pinned = truthy (meta_get m ''pinned'' (PBool False)), ca_compressible = truthy (meta_get m ''compressible'' (PBool True)),
      ca_sensitive = truthy (meta_get m ''sensitive'' (PBool False)),
      ca_conflict_group = (if truthy g then Some (py_str (ae_str env) g) else None), ca_metadata = m\<rparr>)"

text \<open>The builder, with the budget of the policy; items are read again, since compaction may have added some.\<close>

definition select_existing_context ::
  "assembly_env \<Rightarrow> context_policy \<Rightarrow> ident \<Rightarrow> assembly_request \<Rightarrow> repo \<Rightarrow> context_item list built" where
  "select_existing_context env p snapshot_id q r =
    (let role = (if rq_role q \<in> {''coordinator'', ''worker'', ''reviewer''} then rq_role q else ''coordinator'');
         v = \<lparr>rv_role = role, rv_task_id = (if role = ''worker'' then rq_task_id q else None)\<rparr>;
         budget = \<lparr>cb_max_input_tokens = pl_max_input_tokens p, cb_reserved_output_tokens = pl_output_reserve_tokens p,
           cb_safety_margin_tokens = max 1 (ae_tenth env (pl_max_input_tokens p)),
           cb_max_single_item_tokens = pl_max_single_candidate_tokens p,
           cb_max_tool_output_tokens = pl_max_single_candidate_tokens p\<rparr>
     in case role_view_error v of
       Some e \<Rightarrow> (Inl (ViewError e), r)
     | None \<Rightarrow>
       (case build (ae_build env) snapshot_id (rq_run_id q) v budget ''context_orchestrator''
           (max (rq_at_sequence q) (last_committed_sequence (rq_run_id q) r)) r of
          (Inl e, r') \<Rightarrow> (Inl e, r')
        | (Inr s, r') \<Rightarrow> (Inr (filter (\<lambda>c. ci_item_id c \<in> set (sn_source_item_ids s))
            (list_context_items (rq_run_id q) None None None r')), r')))"

definition opt_value :: "string option \<Rightarrow> pval" where
  "opt_value t = (case t of None \<Rightarrow> PNone | Some s \<Rightarrow> PStr s)"

definition checkpoint_candidate :: "assembly_env \<Rightarrow> checkpoint \<Rightarrow> context_candidate" where
  "checkpoint_candidate env c =
    (let shown = ae_dumps env (PDict
       [(PStr ''last_committed_sequence'', PInt (cp_last_committed_sequence c)),
        (PStr ''task_state_revision'', PInt (cp_task_state_revision c)),
        (PStr ''pending_operations'', cp_pending_operations c), (PStr ''next_node_id'', opt_value (cp_next_node_id c)),
        (PStr ''state_hash'', PStr (cp_state_hash c))]) in
     \<lparr>ca_candidate_id = ''checkpoint:'' @ cp_checkpoint_id c, ca_source = ''checkpoint'', ca_source_ref = cp_checkpoint_id c,
      ca_layer = ''L2'', ca_kind = ''decision'', ca_scope = [''shared''], ca_priority = 850, ca_trust = ''trusted_local'',
      ca_freshness = cp_last_committed_sequence c, ca_estimated_tokens = estimate_tokens shown, ca_content = shown,
      ca_bucket = ''task'', ca_pinned = truthy (cp_pending_operations c), ca_compressible = False, ca_sensitive = False,
      ca_conflict_group = None, ca_metadata = []\<rparr>)"

definition checkpoint_candidates :: "assembly_env \<Rightarrow> assembly_request \<Rightarrow> repo \<Rightarrow> context_candidate list" where
  "checkpoint_candidates env q r =
    (case latest_checkpoint (rq_run_id q) r of None \<Rightarrow> [] | Some c \<Rightarrow> [checkpoint_candidate env c])"

text \<open>The candidates of the context items. A candidate has the checks of its constructor.\<close>

definition checked :: "context_candidate list \<Rightarrow> assembly_error + context_candidate list" where
  "checked cs = (case List.find (\<lambda>c. candidate_error c \<noteq> None) cs of None \<Rightarrow> Inr cs
     | Some c \<Rightarrow> Inl (CandidateInvalid (the (candidate_error c))))"

definition item_candidates ::
  "assembly_env \<Rightarrow> context_policy \<Rightarrow> ident \<Rightarrow> assembly_request \<Rightarrow> repo \<Rightarrow> (assembly_error + context_candidate list) \<times> repo" where
  "item_candidates env p snapshot_id q r =
    (if list_context_items (rq_run_id q) None None None r = [] then (Inr [], r)
     else case select_existing_context env p snapshot_id q r of
       (Inl e, r') \<Rightarrow> (Inl (CollectFailed e), r')
     | (Inr cs, r') \<Rightarrow> (checked (map (candidate_from_context_item env) cs), r'))"

definition collect_repository ::
  "assembly_env \<Rightarrow> context_policy \<Rightarrow> ident \<Rightarrow> assembly_request \<Rightarrow> repo \<Rightarrow> (assembly_error + context_candidate list) \<times> repo" where
  "collect_repository env p snapshot_id q r =
    (let before = message_candidates p q r @ map (task_candidate env) (list_task_states (rq_run_id q) r) @ tool_candidates env p q r in
     case item_candidates env p snapshot_id q r of
       (Inl e, r') \<Rightarrow> (Inl e, r')
     | (Inr cs, r') \<Rightarrow> (Inr (before @ cs @ checkpoint_candidates env q r'), r'))"

section \<open>The collection and the assembly\<close>

definition runtime_candidate :: "assembly_request \<Rightarrow> context_candidate" where
  "runtime_candidate q =
    \<lparr>ca_candidate_id = ''runtime-prompt'', ca_source = ''runtime_prompt'', ca_source_ref = rq_run_id q @ '':'' @ rq_step_id q,
     ca_layer = ''L0'', ca_kind = ''constraint'', ca_scope = [''shared''], ca_priority = 1000, ca_trust = ''system'',
     ca_freshness = rq_at_sequence q, ca_estimated_tokens = estimate_tokens (rq_raw_prompt q), ca_content = rq_raw_prompt q,
     ca_bucket = ''protected'', ca_pinned = True, ca_compressible = False, ca_sensitive = False, ca_conflict_group = None,
     ca_metadata = []\<rparr>"

definition workspace_candidates :: "assembly_request \<Rightarrow> context_candidate list" where
  "workspace_candidates q =
    (let shown = ''Workspace root: '' @ rq_workspace q in
     if rq_workspace q = [] then []
     else [\<lparr>ca_candidate_id = ''workspace'', ca_source = ''workspace'', ca_source_ref = rq_workspace q, ca_layer = ''L2'',
       ca_kind = ''fact'', ca_scope = [''shared''], ca_priority = 700, ca_trust = ''trusted_local'', ca_freshness = rq_at_sequence q,
       ca_estimated_tokens = estimate_tokens shown, ca_content = shown, ca_bucket = ''task'', ca_pinned = False,
       ca_compressible = False, ca_sensitive = False, ca_conflict_group = None, ca_metadata = []\<rparr>])"

definition collect ::
  "assembly_env \<Rightarrow> context_policy \<Rightarrow> ident \<Rightarrow> context_candidate list \<Rightarrow> assembly_request \<Rightarrow> repo option \<Rightarrow>
     (assembly_error + context_candidate list) \<times> repo option" where
  "collect env p snapshot_id sourced q repository =
    (let own = runtime_candidate q # workspace_candidates q @ rq_additional q in
     case repository of
       None \<Rightarrow> (Inr (own @ sourced), None)
     | Some r \<Rightarrow>
       (case collect_repository env p snapshot_id q r of
          (Inl e, r') \<Rightarrow> (Inl e, Some r')
        | (Inr cs, r') \<Rightarrow> (Inr (own @ cs @ sourced), Some r')))"

definition assemble ::
  "assembly_env \<Rightarrow> context_policy \<Rightarrow> ident \<Rightarrow> context_candidate list \<Rightarrow> assembly_request \<Rightarrow> repo option \<Rightarrow>
     (assembly_error + prompt_assembly) \<times> repo option" where
  "assemble env p snapshot_id sourced q repository =
    (case collect env p snapshot_id sourced q repository of
       (Inl e, r') \<Rightarrow> (Inl e, r')
     | (Inr cs, r') \<Rightarrow> (assemble_candidates env p (rq_run_id q) (rq_step_id q) cs, r'))"

end
