(* ===== verification/Context_Builder_Props.thy ===== *)
theory Context_Builder_Props
  imports Context_Builder Context_Repo_Inv "HOL-Library.Multiset"
begin

text \<open>
  The lemmas on \<open>ContextBuilder.build\<close>: each filter splits its items without losing or repeating one
  (\<open>sieve\<close>), so that a snapshot accounts for every item of the run; what reaches the selection is valid,
  within the trust boundary, visible to the role and active; protected items are kept or the build
  fails. And what compaction does with the items it absorbs.
\<close>

section \<open>Filters as sieves\<close>

locale sieve =
  fixes split :: "context_item list \<Rightarrow> context_item list \<times> exclusion list" and ok :: "context_item list \<Rightarrow> bool"
  assumes keeps_order: "subseq (fst (split cs)) cs"
    and accounts: "ok cs \<Longrightarrow> mset (map ci_item_id (fst (split cs))) + mset (map xc_item_id (snd (split cs))) = mset (map ci_item_id cs)"
begin

lemma kept_in: "c \<in> set (fst (split cs)) \<Longrightarrow> c \<in> set cs"
  using list_emb_set [OF keeps_order] by blast

lemma kept_distinct: "distinct (map ci_item_id cs) \<Longrightarrow> distinct (map ci_item_id (fst (split cs)))"
  by (metis subseq_map [OF keeps_order] subseq_conv_nths distinct_nthsI)

lemma accounts_rest:
  "ok cs \<Longrightarrow> mset (map ci_item_id (fst (split cs))) + (mset (map xc_item_id (snd (split cs))) + M) = mset (map ci_item_id cs) + M"
  using accounts by (metis add.assoc)

end

lemma excluded_as_item_id [simp]: "xc_item_id (excluded_as reason detail c) = ci_item_id c"
  by (simp add: excluded_as_def)

lemma lifecycle_record_item_id [simp]: "xc_item_id (lifecycle_record n c) = ci_item_id c"
  by simp

lemma sift_accounts:
  assumes "\<And>c. xc_item_id (record c) = ci_item_id c"
  shows "mset (map ci_item_id (fst (sift ok record cs))) + mset (map xc_item_id (snd (sift ok record cs))) = mset (map ci_item_id cs)"
  using assms by (induction cs) (auto simp: sift_def)

lemma sift_keeps_order: "subseq (fst (sift ok record cs)) cs"
  by (simp add: sift_def subseq_filter_left)


interpretation validation: sieve validate_items "\<lambda>_. True"
  by unfold_locales (simp_all only: validate_items_def sift_keeps_order sift_accounts excluded_as_item_id)

interpretation boundary: sieve enforce_trust_boundary "\<lambda>_. True"
  by unfold_locales (simp_all only: enforce_trust_boundary_def sift_keeps_order sift_accounts excluded_as_item_id)

interpretation scope: sieve "apply_role_scope env v" "\<lambda>_. True" for env v
  by unfold_locales (simp_all only: apply_role_scope_def sift_keeps_order sift_accounts excluded_as_item_id)

interpretation lifecycle: sieve "remove_expired_and_superseded n" "\<lambda>_. True" for n
  by unfold_locales (simp_all only: remove_expired_and_superseded_def sift_keeps_order sift_accounts lifecycle_record_item_id)

lemma drop_repeated_fst:
  "fst (drop_repeated seen_ids (c # cs)) = (if ci_item_id c \<in> seen_ids then fst (drop_repeated seen_ids cs)
     else c # fst (drop_repeated (insert (ci_item_id c) seen_ids) cs))"
  by (simp split: prod.splits)

lemma drop_repeated_snd:
  "map xc_item_id (snd (drop_repeated seen_ids (c # cs))) =
    (if ci_item_id c \<in> seen_ids then ci_item_id c # map xc_item_id (snd (drop_repeated seen_ids cs))
     else map xc_item_id (snd (drop_repeated (insert (ci_item_id c) seen_ids) cs)))"
  by (simp split: prod.splits)

lemma drop_repeated_order: "subseq (fst (drop_repeated seen_ids cs)) cs"
  by (induction cs arbitrary: seen_ids) (simp, simp only: drop_repeated_fst split: if_split, blast)

lemma drop_repeated_accounts:
  "mset (map ci_item_id (fst (drop_repeated seen_ids cs))) + mset (map xc_item_id (snd (drop_repeated seen_ids cs)))
     = mset (map ci_item_id cs)"
proof (induction cs arbitrary: seen_ids)
  case Nil
  show ?case by simp
next
  case (Cons c cs)
  show ?case unfolding drop_repeated_snd drop_repeated_fst
    using Cons.IH [of seen_ids] Cons.IH [of "insert (ci_item_id c) seen_ids"] by (cases "ci_item_id c \<in> seen_ids") simp_all
qed

lemma drop_repeated_distinct:
  "distinct (map ci_item_id (fst (drop_repeated seen_ids cs))) \<and>
   (\<forall>c \<in> set (fst (drop_repeated seen_ids cs)). ci_item_id c \<notin> seen_ids)"
proof (induction cs arbitrary: seen_ids)
  case Nil
  show ?case by simp
next
  case (Cons c cs)
  show ?case unfolding drop_repeated_fst
    using Cons.IH [of seen_ids] Cons.IH [of "insert (ci_item_id c) seen_ids"] by (cases "ci_item_id c \<in> seen_ids") auto
qed

declare drop_repeated.simps(2) [simp del]

interpretation repeats: sieve "drop_repeated seen_ids" "\<lambda>_. True" for seen_ids
  by unfold_locales (simp_all only: drop_repeated_order drop_repeated_accounts)

text \<open>The iteration order of a set: some order of its elements.\<close>

definition orders_sets :: "build_env \<Rightarrow> bool" where
  "orders_sets env \<longleftrightarrow> (\<forall>ids. distinct ids \<longrightarrow> mset (be_set_order env ids) = mset ids)"

lemma conflict_ids_in: "set (conflict_ids cs) \<subseteq> set (map ci_item_id cs)"
  by (auto simp: conflict_ids_def)

lemma ids_split:
  assumes "distinct ids" "distinct js" "set js \<subseteq> set ids"
  shows "mset (filter (\<lambda>i. i \<notin> set js) ids) + mset js = mset ids"
proof -
  have "mset js = mset (filter (\<lambda>i. i \<in> set js) ids)"
  proof (rule set_eq_iff_mset_eq_distinct [THEN iffD1])
    show "distinct js" "distinct (filter (\<lambda>i. i \<in> set js) ids)" using assms by simp_all
    show "set js = set (filter (\<lambda>i. i \<in> set js) ids)" using assms(3) by auto
  qed
  moreover have "mset (filter (\<lambda>i. i \<notin> set js) ids) + mset (filter (\<lambda>i. i \<in> set js) ids) = mset ids"
    using multiset_partition [of "mset ids" "\<lambda>i. i \<notin> set js"] by simp
  ultimately show ?thesis by simp
qed

lemma accounts_chain:
  fixes a0 a1 a2 a3 a4 a5 a6 :: "'a multiset"
  assumes "a1 + x1 = a0" "a2 + x2 = a1" "a3 + x3 = a2" "a4 + x4 = a3" "a5 + x5 = a4" "a6 + x6 = a5"
  shows "a6 + (x1 + (x2 + (x3 + (x4 + (x5 + x6))))) = a0"
  unfolding assms [symmetric] by (simp add: ac_simps)

lemma mset_filter_parts: "mset (map f (filter P cs)) + mset (map f (filter (\<lambda>c. \<not> P c) cs)) = mset (map f cs)"
  by (induction cs) auto

interpretation facts: sieve "resolve_fact_conflicts env" "\<lambda>cs. distinct (map ci_item_id cs) \<and> orders_sets env" for env
proof
  fix cs
  show "subseq (fst (resolve_fact_conflicts env cs)) cs"
    by (simp add: resolve_fact_conflicts_def Let_def)
  assume ok: "distinct (map ci_item_id cs) \<and> orders_sets env"
  have "map xc_item_id (snd (resolve_fact_conflicts env cs)) =
      (if conflict_ids cs = [] then [] else be_set_order env (conflict_ids cs))"
    by (simp add: resolve_fact_conflicts_def Let_def comp_def)
  moreover have "map ci_item_id (fst (resolve_fact_conflicts env cs)) =
      filter (\<lambda>i. i \<notin> set (conflict_ids cs)) (map ci_item_id cs)"
    by (auto simp: resolve_fact_conflicts_def Let_def filter_map comp_def)
  moreover have "distinct (conflict_ids cs)" by (simp add: conflict_ids_def)
  ultimately show "mset (map ci_item_id (fst (resolve_fact_conflicts env cs))) +
      mset (map xc_item_id (snd (resolve_fact_conflicts env cs))) = mset (map ci_item_id cs)"
    using ids_split [OF _ _ conflict_ids_in, of cs] ok by (auto simp: orders_sets_def simp del: mset_map mset_filter)
qed

section \<open>The chain\<close>

text \<open>An item a role may be shown at a sequence.\<close>

definition admissible :: "role_view \<Rightarrow> int \<Rightarrow> context_item \<Rightarrow> bool" where
  "admissible v n c \<longleftrightarrow> item_error c = None \<and> within_trust c \<and> visible_to v c \<and> is_active_at n c"

lemma filter_chain_eq:
  "fst (filter_chain env v n cs) = fst (resolve_fact_conflicts env (fst (drop_repeated {}
     (fst (remove_expired_and_superseded n (fst (apply_role_scope env v (fst (enforce_trust_boundary (fst (validate_items cs)))))))))))"
  by (simp add: filter_chain_def Let_def split: prod.splits)

lemma filter_chain_order: "subseq (fst (filter_chain env v n cs)) cs"
  unfolding filter_chain_eq
  by (meson subseq_order.trans facts.keeps_order repeats.keeps_order lifecycle.keeps_order scope.keeps_order
      boundary.keeps_order validation.keeps_order)

lemma filter_chain_accounts:
  assumes "orders_sets env"
  shows "mset (map ci_item_id (fst (filter_chain env v n cs))) + mset (map xc_item_id (snd (filter_chain env v n cs)))
     = mset (map ci_item_id cs)"
proof -
  define c1 where "c1 = fst (validate_items cs)"
  define c2 where "c2 = fst (enforce_trust_boundary c1)"
  define c3 where "c3 = fst (apply_role_scope env v c2)"
  define c4 where "c4 = fst (remove_expired_and_superseded n c3)"
  define c5 where "c5 = fst (drop_repeated {} c4)"
  have "distinct (map ci_item_id c5)" by (simp add: c5_def drop_repeated_distinct)
  then have a6: "mset (map ci_item_id (fst (resolve_fact_conflicts env c5))) +
      mset (map xc_item_id (snd (resolve_fact_conflicts env c5))) = mset (map ci_item_id c5)"
    using facts.accounts assms by blast
  have "snd (filter_chain env v n cs) = snd (validate_items cs) @ snd (enforce_trust_boundary c1) @
      snd (apply_role_scope env v c2) @ snd (remove_expired_and_superseded n c3) @ snd (drop_repeated {} c4) @
      snd (resolve_fact_conflicts env c5)"
    by (simp add: filter_chain_def Let_def c1_def c2_def c3_def c4_def c5_def split: prod.splits)
  moreover have "fst (filter_chain env v n cs) = fst (resolve_fact_conflicts env c5)"
    by (simp add: filter_chain_eq c1_def c2_def c3_def c4_def c5_def)
  ultimately show ?thesis
    using accounts_chain [OF validation.accounts [OF TrueI, of cs, folded c1_def] boundary.accounts [OF TrueI, of c1, folded c2_def]
      scope.accounts [OF TrueI, of env v c2, folded c3_def] lifecycle.accounts [OF TrueI, of n c3, folded c4_def]
      repeats.accounts [OF TrueI, of "{}" c4, folded c5_def] a6]
    by (simp only: map_append mset_append)
qed

lemma filter_chain_admissible: "c \<in> set (fst (filter_chain env v n cs)) \<Longrightarrow> admissible v n c"
proof -
  assume "c \<in> set (fst (filter_chain env v n cs))"
  then have "c \<in> set (fst (remove_expired_and_superseded n
     (fst (apply_role_scope env v (fst (enforce_trust_boundary (fst (validate_items cs))))))))"
    unfolding filter_chain_eq by (blast dest: facts.kept_in repeats.kept_in)
  then show ?thesis
    by (simp add: admissible_def remove_expired_and_superseded_def apply_role_scope_def enforce_trust_boundary_def
        validate_items_def sift_def)
qed

lemma filter_chain_distinct: "distinct (map ci_item_id (fst (filter_chain env v n cs)))"
  unfolding filter_chain_eq by (intro facts.kept_distinct) (simp add: drop_repeated_distinct)

section \<open>Selection\<close>

lemma sort_down_mset [simp]: "mset (sort_down k xs) = mset xs"
  by (simp add: sort_down_def)

lemma sort_down_set [simp]: "set (sort_down k xs) = set xs"
  by (simp add: sort_down_def)

lemma keep_while_fits_fst:
  "fst (keep_while_fits usable n (c # cs)) = (if n + ci_estimated_tokens c \<le> usable
     then c # fst (keep_while_fits usable (n + ci_estimated_tokens c) cs) else fst (keep_while_fits usable n cs))"
  by (simp split: prod.splits)

lemma keep_while_fits_snd:
  "map xc_item_id (snd (keep_while_fits usable n (c # cs))) = (if n + ci_estimated_tokens c \<le> usable
     then map xc_item_id (snd (keep_while_fits usable (n + ci_estimated_tokens c) cs))
     else ci_item_id c # map xc_item_id (snd (keep_while_fits usable n cs)))"
  by (simp split: prod.splits)

lemma keep_while_fits_accounts:
  "mset (map ci_item_id (fst (keep_while_fits usable n cs))) + mset (map xc_item_id (snd (keep_while_fits usable n cs)))
     = mset (map ci_item_id cs)"
proof (induction cs arbitrary: n)
  case Nil
  show ?case by simp
next
  case (Cons c cs)
  show ?case unfolding keep_while_fits_fst keep_while_fits_snd
    using Cons.IH [of n] Cons.IH [of "n + ci_estimated_tokens c"] by (cases "n + ci_estimated_tokens c \<le> usable") simp_all
qed

lemma keep_while_fits_bound:
  "n \<le> usable \<Longrightarrow> n + items_tokens (fst (keep_while_fits usable n cs)) \<le> usable"
proof (induction cs arbitrary: n)
  case Nil
  then show ?case by (simp add: items_tokens_def)
next
  case (Cons c cs)
  show ?case unfolding keep_while_fits_fst
    using Cons.IH [of n] Cons.IH [of "n + ci_estimated_tokens c"] Cons.prems
    by (cases "n + ci_estimated_tokens c \<le> usable") (simp_all add: items_tokens_def)
qed

lemma keep_while_fits_order: "subseq (fst (keep_while_fits usable n cs)) cs"
  by (induction cs arbitrary: n) (simp, simp only: keep_while_fits_fst split: if_split, blast)

lemma keep_while_fits_reason: "x \<in> set (snd (keep_while_fits usable n cs)) \<Longrightarrow> xc_reason x = ''budget_overflow''"
proof (induction cs arbitrary: n)
  case Nil
  then show ?case by simp
next
  case (Cons c cs)
  obtain k1 x1 where 1: "keep_while_fits usable n cs = (k1, x1)" by (cases "keep_while_fits usable n cs")
  obtain k2 x2 where 2: "keep_while_fits usable (n + ci_estimated_tokens c) cs = (k2, x2)"
    by (cases "keep_while_fits usable (n + ci_estimated_tokens c) cs")
  show ?case using Cons.prems Cons.IH [of n] Cons.IH [of "n + ci_estimated_tokens c"]
    by (auto simp: 1 2 excluded_as_def split: if_splits)
qed

declare keep_while_fits.simps(2) [simp del]

lemma items_tokens_append [simp]: "items_tokens (xs @ ys) = items_tokens xs + items_tokens ys"
  by (simp add: items_tokens_def)

lemma select_within_budget_cases:
  assumes "select_within_budget cs (items_tokens cs) usable run_id = Inr (kept, dropped)"
  shows "mset (map ci_item_id kept) + mset (map xc_item_id dropped) = mset (map ci_item_id cs)"
    "set kept \<subseteq> set cs" "items_tokens kept \<le> usable" "filter item_protected cs = filter item_protected kept"
    "\<forall>x \<in> set dropped. xc_reason x = ''budget_overflow''"
proof -
  let ?p = "filter item_protected cs" and ?e = "filter (\<lambda>c. \<not> item_protected c) cs"
  let ?k = "keep_while_fits usable (items_tokens ?p) (sort_down keep_key ?e)"
  consider (all) "items_tokens cs \<le> usable" "kept = cs" "dropped = []"
    | (some) "items_tokens ?p \<le> usable" "kept = ?p @ fst ?k" "dropped = snd ?k"
    using assms unfolding select_within_budget_def Let_def
    by (cases "items_tokens cs \<le> usable"; cases "usable < items_tokens ?p") (simp_all add: case_prod_unfold)
  then have "mset (map ci_item_id kept) + mset (map xc_item_id dropped) = mset (map ci_item_id cs) \<and>
      set kept \<subseteq> set cs \<and> items_tokens kept \<le> usable \<and> ?p = filter item_protected kept \<and>
      (\<forall>x \<in> set dropped. xc_reason x = ''budget_overflow'')"
  proof cases
    case all
    then show ?thesis by simp
  next
    case some
    have k: "mset (map ci_item_id (fst ?k)) + mset (map xc_item_id (snd ?k)) = mset (map ci_item_id ?e)"
      using keep_while_fits_accounts [of usable "items_tokens ?p" "sort_down keep_key ?e"] by simp
    have sub: "set (fst ?k) \<subseteq> set ?e"
      using list_emb_set [OF keep_while_fits_order [of usable "items_tokens ?p" "sort_down keep_key ?e"]] by auto
    show ?thesis
    proof (intro conjI)
      show "mset (map ci_item_id kept) + mset (map xc_item_id dropped) = mset (map ci_item_id cs)"
        by (simp only: some map_append mset_append add.assoc k mset_filter_parts)
      show "set kept \<subseteq> set cs" using sub unfolding some by auto
      show "items_tokens kept \<le> usable"
        unfolding some items_tokens_append by (rule keep_while_fits_bound [OF some(1)])
      have "filter item_protected (fst ?k) = []" using sub by (auto simp: filter_empty_conv)
      then show "?p = filter item_protected kept" unfolding some by (simp only: filter_append) simp
      show "\<forall>x \<in> set dropped. xc_reason x = ''budget_overflow''"
        unfolding some using keep_while_fits_reason by blast
    qed
  qed
  then show "mset (map ci_item_id kept) + mset (map xc_item_id dropped) = mset (map ci_item_id cs)"
    "set kept \<subseteq> set cs" "items_tokens kept \<le> usable" "?p = filter item_protected kept"
    "\<forall>x \<in> set dropped. xc_reason x = ''budget_overflow''"
    by blast+
qed

lemma select_within_budget_dropped:
  assumes "select_within_budget cs (items_tokens cs) usable run_id = Inr (kept, dropped)" "x \<in> set dropped"
  shows "\<exists>c \<in> set cs. \<not> item_protected c \<and> ci_item_id c = xc_item_id x"
proof -
  let ?p = "filter item_protected cs" and ?e = "filter (\<lambda>c. \<not> item_protected c) cs"
  let ?k = "keep_while_fits usable (items_tokens ?p) (sort_down keep_key ?e)"
  have "dropped = [] \<or> dropped = snd ?k"
    using assms(1) unfolding select_within_budget_def Let_def
    by (cases "items_tokens cs \<le> usable"; cases "usable < items_tokens ?p") (simp_all add: case_prod_unfold)
  with assms(2) have "xc_item_id x \<in># mset (map xc_item_id (snd ?k))" by auto
  then have "xc_item_id x \<in># mset (map ci_item_id (sort_down keep_key ?e))"
    using keep_while_fits_accounts [of usable "items_tokens ?p" "sort_down keep_key ?e"] by (metis union_iff)
  then show ?thesis by auto
qed

section \<open>Compaction\<close>

text \<open>When the selection evicts something, compaction absorbs exactly the evicted items.\<close>

lemma evicted_unprotected:
  assumes "distinct (map ci_item_id (list_context_items run_id None None None r))"
    and "select_within_budget (fst (filter_chain env v n (list_context_items run_id None None None r)))
      (items_tokens (fst (filter_chain env v n (list_context_items run_id None None None r)))) usable run_id = Inr (kept, dropped)"
    and "c \<in> set (list_context_items run_id None None None r)" "ci_item_id c \<in> xc_item_id ` set dropped"
  shows "\<not> item_protected c \<and> c \<in> set (fst (filter_chain env v n (list_context_items run_id None None None r)))"
proof -
  let ?l = "list_context_items run_id None None None r"
  from assms(4) obtain x where "x \<in> set dropped" "xc_item_id x = ci_item_id c" by auto
  with select_within_budget_dropped [OF assms(2), of x] obtain d where
    d: "d \<in> set (fst (filter_chain env v n ?l))" "\<not> item_protected d" "ci_item_id d = ci_item_id c" by auto
  have "d \<in> set ?l" using d(1) list_emb_set [OF filter_chain_order] by blast
  then have "d = c" using distinct_map_eqD [OF assms(1) _ assms(3)] d(3) by blast
  with d show ?thesis by simp
qed

lemma concat_chunks: "0 < n \<Longrightarrow> concat (chunks n xs) = xs"
proof (induction n xs rule: chunks.induct)
  case (1 n xs)
  show ?case using 1 by (subst chunks.simps) auto
qed

lemma chunks_nonempty: "c \<in> set (chunks n xs) \<Longrightarrow> c \<noteq> [] \<and> length c \<le> n"
proof (induction n xs rule: chunks.induct)
  case (1 n xs)
  show ?case
  proof (cases "xs = [] \<or> n = 0")
    case True
    then show ?thesis using "1.prems" by (subst (asm) chunks.simps) simp
  next
    case False
    then have "chunks n xs = take n xs # chunks n (drop n xs)" by (subst chunks.simps) simp
    then show ?thesis using 1 False by auto
  qed
qed

lemma compact_unprotected:
  assumes "\<forall>c \<in> set evicted. \<not> item_protected c" "evicted \<noteq> []"
  shows "oc_final_selected (compact env kept evicted budget run_id n) =
      kept @ map (build_summary_item env run_id n) (chunks 16 evicted)"
    "\<exists>res. oc_result (compact env kept evicted budget run_id n) = Some res \<and>
      cn_summary_item_ids res = map ci_item_id (map (build_summary_item env run_id n) (chunks 16 evicted)) \<and>
      cn_removed_item_ids res = map ci_item_id evicted"
proof -
  have "filter item_protected evicted = []" "filter (\<lambda>c. \<not> item_protected c) evicted = evicted"
    using assms by (auto simp: filter_empty_conv intro: filter_True)
  then show "oc_final_selected (compact env kept evicted budget run_id n) =
      kept @ map (build_summary_item env run_id n) (chunks 16 evicted)"
    "\<exists>res. oc_result (compact env kept evicted budget run_id n) = Some res \<and>
      cn_summary_item_ids res = map ci_item_id (map (build_summary_item env run_id n) (chunks 16 evicted)) \<and>
      cn_removed_item_ids res = map ci_item_id evicted"
    using assms(2) by (simp_all add: compact_def Let_def max_items_per_summary_def)
qed

section \<open>A snapshot\<close>

lemma store_selection_Inr:
  assumes "store_selection env snapshot_id run_id v agent n selected excluded r = (Inr s, r')"
  shows "sn_source_item_ids s = map ci_item_id selected" "sn_excluded_items s = PTuple (map exclusion_value excluded)"
    "sn_estimated_tokens s = items_tokens selected"
  using assms by (auto simp: store_selection_def make_snapshot_def Let_def split: if_splits sum.splits prod.splits)

text \<open>What a snapshot is made of.\<close>

lemma build_shape:
  assumes "build env snapshot_id run_id v budget agent n r = (Inr s, r')"
    and "distinct (map ci_item_id (list_context_items run_id None None None r))"
  obtains kept evicted dropped excluded where
    "select_within_budget (fst (filter_chain env v n (list_context_items run_id None None None r)))
      (items_tokens (fst (filter_chain env v n (list_context_items run_id None None None r)))) (usable_input budget) run_id
       = Inr (kept, dropped)"
    "evicted = filter (\<lambda>c. ci_item_id c \<in> xc_item_id ` set dropped) (list_context_items run_id None None None r)"
    "sn_source_item_ids s = map ci_item_id (kept @ map (build_summary_item env run_id n) (chunks 16 evicted))"
    "sn_estimated_tokens s = items_tokens (kept @ map (build_summary_item env run_id n) (chunks 16 evicted))"
    "sn_excluded_items s = PTuple (map exclusion_value
       (snd (filter_chain env v n (list_context_items run_id None None None r)) @ dropped @ excluded))"
    "map xc_item_id excluded = map ci_item_id (map (build_summary_item env run_id n) (chunks 16 evicted))"
    "\<forall>x \<in> set excluded. xc_reason x = ''compaction_summary''"
    "budget_error budget = None"
proof -
  let ?l = "list_context_items run_id None None None r"
  let ?f = "filter_chain env v n ?l"
  let ?u = "usable_input budget"
  have be: "budget_error budget = None" using assms(1) by (auto simp: build_def split: option.splits)
  obtain kept dropped where sel: "select_within_budget (fst ?f) (items_tokens (fst ?f)) ?u run_id = Inr (kept, dropped)"
    using assms(1) by (auto simp: build_def be case_prod_unfold split: sum.splits)
  define evicted where "evicted = filter (\<lambda>c. ci_item_id c \<in> xc_item_id ` set dropped) ?l"
  have all: "filter (\<lambda>x. xc_reason x = ''budget_overflow'') dropped = dropped"
    using select_within_budget_cases(5) [OF sel] by (auto intro: filter_True)
  show ?thesis
  proof (cases "dropped = []")
    case True
    then have "run_compaction env kept dropped budget run_id n r = None" by (simp add: run_compaction_def)
    with assms(1) be sel True
    have st: "store_selection env snapshot_id run_id v agent n kept (snd ?f @ []) r = (Inr s, r')"
      by (simp add: build_def case_prod_unfold)
    have "evicted = []" using True by (simp add: evicted_def)
    then have "chunks 16 evicted = []" by (simp add: chunks.simps)
    then show ?thesis
      using that [of kept dropped evicted "[]"] store_selection_Inr [OF st] sel True be by (simp add: evicted_def)
  next
    case False
    define oc where "oc = compact env kept evicted budget run_id n"
    have rc: "run_compaction env kept dropped budget run_id n r = Some oc"
      using False by (simp add: run_compaction_def all evicted_def oc_def)
    obtain r1 where st: "store_selection env snapshot_id run_id v agent n (oc_final_selected oc)
        (snd ?f @ dropped @ summary_records oc) r1 = (Inr s, r')"
      using assms(1) be sel rc by (auto simp: build_def case_prod_unfold split: sum.splits option.splits if_splits)
    have np: "\<forall>c \<in> set evicted. \<not> item_protected c"
      using evicted_unprotected [OF assms(2) sel] by (simp add: evicted_def)
    obtain x where x: "x \<in> set dropped" using False by (cases dropped) auto
    obtain c where "c \<in> set (fst ?f)" "ci_item_id c = xc_item_id x"
      using select_within_budget_dropped [OF sel x] by auto
    then have "c \<in> set evicted"
      using x list_emb_set [OF filter_chain_order] unfolding evicted_def by (auto simp: image_iff) metis
    then have ne: "evicted \<noteq> []" by auto
    have "map xc_item_id (summary_records oc) = map ci_item_id (map (build_summary_item env run_id n) (chunks 16 evicted))"
      "\<forall>x \<in> set (summary_records oc). xc_reason x = ''compaction_summary''"
      using compact_unprotected(2) [OF np ne, of env kept budget run_id n]
      by (auto simp: oc_def summary_records_def comp_def)
    then show ?thesis
      using that [of kept dropped evicted "summary_records oc"] store_selection_Inr [OF st] sel be
        compact_unprotected(1) [OF np ne, of env kept budget run_id n]
      by (simp add: evicted_def oc_def)
  qed
qed

lemma listed_distinct:
  "distinct (map ci_item_id (cx_items (seen r))) \<Longrightarrow> distinct (map ci_item_id (list_context_items run_id None None None r))"
proof -
  assume a: "distinct (map ci_item_id (cx_items (seen r)))"
  let ?f = "filter (\<lambda>c. ci_run_id c = run_id) (cx_items (seen r))"
  have "mset (map ci_item_id (list_context_items run_id None None None r)) = mset (map ci_item_id ?f)"
    by (simp add: list_context_items_def)
  then show ?thesis using a mset_eq_imp_distinct_iff distinct_map_filter by metis
qed

lemma admissible_tokens: "admissible v n c \<Longrightarrow> 0 \<le> ci_estimated_tokens c"
  by (auto simp: admissible_def item_error_def split: if_splits option.splits)

lemma items_tokens_filter: "(\<And>c. c \<in> set cs \<Longrightarrow> 0 \<le> ci_estimated_tokens c) \<Longrightarrow> items_tokens (filter p cs) \<le> items_tokens cs"
  by (induction cs) (auto simp: items_tokens_def, force)

lemma protected_within:
  assumes "select_within_budget (fst (filter_chain env v n cs)) (items_tokens (fst (filter_chain env v n cs))) usable run_id
    = Inr (kept, dropped)"
  shows "items_tokens (filter item_protected (fst (filter_chain env v n cs))) \<le> usable"
proof -
  have "items_tokens (filter item_protected kept) \<le> items_tokens kept"
    by (rule items_tokens_filter) (use select_within_budget_cases(2) [OF assms] filter_chain_admissible admissible_tokens in blast)
  then show ?thesis using select_within_budget_cases(3,4) [OF assms] by simp
qed

lemma summary_unprotected: "\<not> item_protected (build_summary_item env run_id n chunk)"
  by (simp add: item_protected_def build_summary_item_def)

text \<open>After a selection that fits, a build fails only where the repository refuses what it stores.\<close>

lemma build_after_selection:
  assumes "distinct (map ci_item_id (list_context_items run_id None None None r))" "budget_error budget = None"
    and sel: "select_within_budget (fst (filter_chain env v n (list_context_items run_id None None None r)))
      (items_tokens (fst (filter_chain env v n (list_context_items run_id None None None r)))) (usable_input budget) run_id
       = Inr (kept, dropped)"
    and "build env snapshot_id run_id v budget agent n r = (Inl x, r')"
  shows "\<exists>e. x = RepoFailed e"
proof -
  let ?l = "list_context_items run_id None None None r"
  have st: "store_selection env snapshot_id run_id v agent n cs xs r1 = (Inl x, r') \<Longrightarrow> \<exists>e. x = RepoFailed e" for cs xs r1
    by (auto simp: store_selection_def split: sum.splits prod.splits)
  show ?thesis
  proof (cases "run_compaction env kept dropped budget run_id n r")
    case None
    then show ?thesis using assms(2-4) st by (auto simp: build_def case_prod_unfold)
  next
    case (Some oc)
    have "filter item_protected (oc_final_selected oc) = filter item_protected kept"
    proof -
      let ?e = "filter (\<lambda>c. ci_item_id c \<in> xc_item_id ` set (filter (\<lambda>x. xc_reason x = ''budget_overflow'') dropped)) ?l"
      have oc: "oc = compact env kept ?e budget run_id n" using Some by (auto simp: run_compaction_def Let_def split: if_splits)
      have np: "\<forall>c \<in> set ?e. \<not> item_protected c" using evicted_unprotected [OF assms(1) sel] by auto
      show ?thesis
      proof (cases "?e = []")
        case True
        then show ?thesis unfolding oc True by (simp add: compact_def)
      next
        case False
        show ?thesis unfolding oc compact_unprotected(1) [OF np False]
          by (simp add: filter_empty_conv summary_unprotected)
      qed
    qed
    then have "protected_overflow oc (usable_input budget) = None"
      using protected_within [OF sel] select_within_budget_cases(4) [OF sel] by (simp add: protected_overflow_def Let_def)
    then show ?thesis using assms(2-4) st Some
      by (auto simp: build_def case_prod_unfold split: sum.splits if_splits)
  qed
qed

text \<open>
  C31. A snapshot accounts for every context item of its run exactly once: an item is among the sources or
  among the exclusions of the filters and the budget. The other sources are the summaries, each with an
  audit record of its own, and what they absorb was excluded.
\<close>

theorem snapshot_accounts_for_items:
  assumes "distinct (map ci_item_id (cx_items (seen r)))" "orders_sets env"
    and "build env snapshot_id run_id v budget agent n r = (Inr s, r')"
  shows "\<exists>kept evicted dropped records.
    sn_source_item_ids s = map ci_item_id (kept @ map (build_summary_item env run_id n) (chunks 16 evicted)) \<and>
    sn_excluded_items s = PTuple (map exclusion_value (dropped @ records)) \<and>
    mset (map ci_item_id kept) + mset (map xc_item_id dropped) =
      mset (map ci_item_id (list_context_items run_id None None None r)) \<and>
    map (\<lambda>x. (xc_item_id x, xc_reason x)) records =
      map (\<lambda>c. (summary_id env c, ''compaction_summary'')) (chunks 16 evicted) \<and>
    set (map ci_item_id evicted) \<subseteq> set (map xc_item_id dropped)"
proof -
  let ?l = "list_context_items run_id None None None r"
  obtain kept evicted dropped records where b:
    "select_within_budget (fst (filter_chain env v n ?l)) (items_tokens (fst (filter_chain env v n ?l)))
      (usable_input budget) run_id = Inr (kept, dropped)"
    "evicted = filter (\<lambda>c. ci_item_id c \<in> xc_item_id ` set dropped) ?l"
    "sn_source_item_ids s = map ci_item_id (kept @ map (build_summary_item env run_id n) (chunks 16 evicted))"
    "sn_estimated_tokens s = items_tokens (kept @ map (build_summary_item env run_id n) (chunks 16 evicted))"
    "sn_excluded_items s = PTuple (map exclusion_value (snd (filter_chain env v n ?l) @ dropped @ records))"
    "map xc_item_id records = map ci_item_id (map (build_summary_item env run_id n) (chunks 16 evicted))"
    "\<forall>x \<in> set records. xc_reason x = ''compaction_summary''" "budget_error budget = None"
    by (rule build_shape [OF assms(3) listed_distinct [OF assms(1)]])
  let ?d = "snd (filter_chain env v n ?l) @ dropped"
  have "mset (map ci_item_id kept) + mset (map xc_item_id ?d) = mset (map ci_item_id ?l)"
    using filter_chain_accounts [OF assms(2), of v n ?l] select_within_budget_cases(1) [OF b(1)]
    by (simp only: map_append mset_append) (metis add.assoc add.commute)
  moreover have "map (\<lambda>x. (xc_item_id x, xc_reason x)) records = map (\<lambda>i. (i, ''compaction_summary'')) (map xc_item_id records)"
    using b(7) by simp
  then have "map (\<lambda>x. (xc_item_id x, xc_reason x)) records =
      map (\<lambda>c. (summary_id env c, ''compaction_summary'')) (chunks 16 evicted)"
    unfolding b(6) by (simp add: comp_def build_summary_item_def)
  moreover have "set (map ci_item_id evicted) \<subseteq> set (map xc_item_id ?d)" unfolding b(2) by auto
  ultimately show ?thesis
    using b(3,5) by (intro exI [of _ kept] exI [of _ evicted] exI [of _ ?d] exI [of _ records]) simp
qed

text \<open>
  C30. What a role is shown: every source of a snapshot is an item of the run that is valid, active at the
  sequence, visible to the role and not external text in the layers of the instructions, or a summary of
  at most sixteen such items, none of them protected.
\<close>

theorem role_isolation:
  assumes "distinct (map ci_item_id (cx_items (seen r)))"
    and "build env snapshot_id run_id v budget agent n r = (Inr s, r')"
    and "i \<in> set (sn_source_item_ids s)"
  shows "(\<exists>c \<in> set (list_context_items run_id None None None r). ci_item_id c = i \<and> admissible v n c) \<or>
    (\<exists>chunk. i = ci_item_id (build_summary_item env run_id n chunk) \<and> chunk \<noteq> [] \<and> length chunk \<le> 16 \<and>
      list_all (\<lambda>d. d \<in> set (list_context_items run_id None None None r) \<and> admissible v n d \<and> \<not> item_protected d) chunk)"
proof -
  let ?l = "list_context_items run_id None None None r"
  have dl: "distinct (map ci_item_id ?l)" by (rule listed_distinct [OF assms(1)])
  obtain kept evicted dropped where b:
    "select_within_budget (fst (filter_chain env v n ?l)) (items_tokens (fst (filter_chain env v n ?l)))
      (usable_input budget) run_id = Inr (kept, dropped)"
    "evicted = filter (\<lambda>c. ci_item_id c \<in> xc_item_id ` set dropped) ?l"
    "sn_source_item_ids s = map ci_item_id (kept @ map (build_summary_item env run_id n) (chunks 16 evicted))"
    by (rule build_shape [OF assms(2) dl])
  from assms(3) b(3) consider (kept) c where "c \<in> set kept" "ci_item_id c = i"
    | (summary) chunk where "chunk \<in> set (chunks 16 evicted)" "i = ci_item_id (build_summary_item env run_id n chunk)"
    by auto
  then show ?thesis
  proof cases
    case kept
    then have "c \<in> set (fst (filter_chain env v n ?l))" using select_within_budget_cases(2) [OF b(1)] by blast
    then show ?thesis using kept(2) filter_chain_admissible list_emb_set [OF filter_chain_order] by blast
  next
    case summary
    have "set chunk \<subseteq> set evicted" using summary(1) concat_chunks [of 16 evicted] by (metis UN_upper set_concat zero_less_numeral)
    then have "d \<in> set ?l \<and> admissible v n d \<and> \<not> item_protected d" if "d \<in> set chunk" for d
      using that evicted_unprotected [OF dl b(1), of d] filter_chain_admissible [of d env v n ?l] unfolding b(2) by auto
    then show ?thesis using summary chunks_nonempty [OF summary(1)] by (auto simp: list_all_iff)
  qed
qed

text \<open>
  C32. Hard constraints are never dropped silently. A build raises for its budget exactly when the protected
  items the filters leave exceed it; a build that succeeds has all of them among its sources, and stays
  within the budget unless something was evicted and summarised.
\<close>

theorem protected_kept_or_refused:
  assumes "distinct (map ci_item_id (cx_items (seen r)))" "budget_error budget = None"
  shows "case build env snapshot_id run_id v budget agent n r of (outcome, r') \<Rightarrow>
    let cs = fst (filter_chain env v n (list_context_items run_id None None None r)); usable = usable_input budget in
    (case outcome of
       Inr s \<Rightarrow> set (map ci_item_id (filter item_protected cs)) \<subseteq> set (sn_source_item_ids s) \<and>
         items_tokens (filter item_protected cs) \<le> usable \<and>
         (sn_estimated_tokens s \<le> usable \<or> usable < items_tokens cs)
     | Inl (BudgetExhausted j required u) \<Rightarrow> j = run_id \<and> u = usable \<and> required = items_tokens (filter item_protected cs) \<and>
         usable < required \<and> r' = r
     | Inl (RepoFailed e) \<Rightarrow> True | Inl _ \<Rightarrow> False)"
proof -
  let ?l = "list_context_items run_id None None None r"
  let ?f = "filter_chain env v n ?l" and ?u = "usable_input budget"
  have dl: "distinct (map ci_item_id ?l)" by (rule listed_distinct [OF assms(1)])
  obtain outcome r' where o': "build env snapshot_id run_id v budget agent n r = (outcome, r')" by fastforce
  show ?thesis
  proof (cases "select_within_budget (fst ?f) (items_tokens (fst ?f)) ?u run_id")
    case (Inl e)
    then have "outcome = Inl e" "r' = r" using o' assms(2) by (simp_all add: build_def case_prod_unfold)
    moreover have "e = BudgetExhausted run_id (items_tokens (filter item_protected (fst ?f))) ?u"
      "?u < items_tokens (filter item_protected (fst ?f))"
      using Inl by (auto simp: select_within_budget_def Let_def case_prod_unfold split: if_splits)
    ultimately show ?thesis by (simp add: o' Let_def)
  next
    case (Inr kd)
    then obtain kept dropped where sel: "select_within_budget (fst ?f) (items_tokens (fst ?f)) ?u run_id = Inr (kept, dropped)"
      by (cases kd) auto
    show ?thesis
    proof (cases outcome)
      case (Inl x)
      then obtain e where "x = RepoFailed e" using build_after_selection [OF dl assms(2) sel] o' by blast
      then show ?thesis by (simp add: o' Inl)
    next
      case (Inr s)
      obtain kept' evicted dropped' where b:
        "select_within_budget (fst ?f) (items_tokens (fst ?f)) ?u run_id = Inr (kept', dropped')"
        "evicted = filter (\<lambda>c. ci_item_id c \<in> xc_item_id ` set dropped') ?l"
        "sn_source_item_ids s = map ci_item_id (kept' @ map (build_summary_item env run_id n) (chunks 16 evicted))"
        "sn_estimated_tokens s = items_tokens (kept' @ map (build_summary_item env run_id n) (chunks 16 evicted))"
        by (rule build_shape [OF o' [unfolded Inr] dl])
      have "set (map ci_item_id (filter item_protected (fst ?f))) \<subseteq> set (sn_source_item_ids s)"
        unfolding b(3) select_within_budget_cases(4) [OF b(1)] by auto
      moreover have "sn_estimated_tokens s \<le> ?u \<or> ?u < items_tokens (fst ?f)"
      proof (cases "?u < items_tokens (fst ?f)")
        case False
        then have "kept' = fst ?f" "dropped' = []" using b(1) by (auto simp: select_within_budget_def)
        then show ?thesis using b(2,4) False by (simp add: chunks.simps)
      qed simp
      ultimately show ?thesis using protected_within [OF sel] by (simp add: o' Inr Let_def)
    qed
  qed
qed

section \<open>What compaction does to the items it absorbs\<close>

lemma prefix_contains: "prefix a b \<Longrightarrow> contains a b"
  by (cases b) auto

lemma contains_skip: "contains a b \<Longrightarrow> contains a (x # b)"
  by simp

lemma contains_suffix: "prefix a b \<Longrightarrow> contains a (xs @ b)"
  by (induction xs) (auto intro: prefix_contains contains_skip)

lemma first_snippet: "contains (take 80 (ci_content c)) (summary_content (c # cs))"
proof -
  have "snippets 0 (c # cs) = take 80 (ci_content c) # snippets (length (take 80 (ci_content c))) cs"
    by (simp add: Let_def)
  then obtain rest where r: "join_text '' | '' (snippets 0 (c # cs)) = take 80 (ci_content c) @ rest"
    by (simp add: join_text_def)
  obtain front where "summary_content (c # cs) = front @ (take 80 (ci_content c) @ rest)"
    unfolding summary_content_def r by (metis append_assoc)
  then show ?thesis using contains_suffix [OF prefixI [OF refl]] by metis
qed

text \<open>
  C33. Compaction turns what it absorbs into trusted text for everybody: the summary of evicted items, whatever
  their trust level and their scope, is marked \<open>trusted_local\<close>, is visible to every role, passes the trust
  boundary, and contains the text of the first of them.
\<close>

theorem compaction_launders:
  assumes "list_all (\<lambda>c. \<not> item_protected c) evicted" "evicted \<noteq> []"
  shows "\<exists>t \<in> set (oc_final_selected (compact env kept evicted budget run_id n)).
    (\<forall>w. visible_to w t) \<and> within_trust t \<and> so_trust_level (ci_source t) = ''trusted_local'' \<and>
    contains (take 80 (ci_content (hd evicted))) (ci_content t)"
proof -
  let ?t = "build_summary_item env run_id n (take 16 evicted)"
  have "chunks 16 evicted = take 16 evicted # chunks 16 (drop 16 evicted)"
    using assms(2) by (subst chunks.simps) simp
  then have "?t \<in> set (oc_final_selected (compact env kept evicted budget run_id n))"
    using assms by (simp add: compact_unprotected(1) list_all_iff)
  moreover obtain cs where "take 16 evicted = hd evicted # cs" using assms(2) by (cases evicted) simp_all
  then have "contains (take 80 (ci_content (hd evicted))) (ci_content ?t)"
    using first_snippet by (simp add: build_summary_item_def)
  ultimately show ?thesis
    by (intro bexI [of _ ?t]) (simp_all add: build_summary_item_def visible_to_def within_trust_def)
qed

definition demo_env :: build_env where
  "demo_env = \<lparr>be_sha = id, be_dumps = demo_encode, be_str_list = concat, be_set_order = id, be_json = Some\<rparr>"

definition demo_item :: "ident \<Rightarrow> string \<Rightarrow> string \<Rightarrow> string \<Rightarrow> int \<Rightarrow> context_item" where
  "demo_item i content trust scope tokens =
    \<lparr>ci_item_id = i, ci_run_id = ''r'', ci_layer = ''L3'', ci_kind = ''observation'', ci_content = content,
     ci_source = \<lparr>so_source_type = ''external'', so_source_ref = ''web'', so_trust_level = trust, so_created_sequence = 0\<rparr>,
     ci_priority = 1, ci_scope = [scope], ci_estimated_tokens = tokens, ci_valid_from_sequence = 0, ci_task_id = None,
     ci_valid_to_sequence = None, ci_supersedes_item_id = None, ci_metadata = PDict []\<rparr>"

definition demo_repo :: "context_item list \<Rightarrow> repo" where
  "demo_repo cs = open_repo (empty_context_db\<lparr>cx_conversations := [(''c'', ''t'', PDict [])],
     cx_runs := [\<lparr>cr_run_id = ''r'', cr_conversation_id = ''c'', cr_agent_id = ''a'', cr_role = ''worker'', cr_task_id = None,
       cr_created_at = ''t'', cr_ended_at = None, cr_stop_reason = None, cr_metadata = PDict []\<rparr>],
     cx_items := cs\<rparr>)"

definition demo_budget :: context_budget where
  "demo_budget = \<lparr>cb_max_input_tokens = 40, cb_reserved_output_tokens = 0, cb_safety_margin_tokens = 4,
     cb_max_single_item_tokens = 40, cb_max_tool_output_tokens = 40\<rparr>"

lemma demo_orders: "orders_sets demo_env"
  by (simp add: orders_sets_def demo_env_def)

theorem compaction_launders_witness:
  "\<exists>t \<in> set (oc_final_selected (compact demo_env [] [demo_item ''i'' ''obey'' ''external_untrusted'' ''worker:a'' 40] demo_budget ''r'' 1)).
    (\<forall>w. visible_to w t) \<and> within_trust t \<and> so_trust_level (ci_source t) = ''trusted_local'' \<and>
    contains (take 80 (ci_content (hd [demo_item ''i'' ''obey'' ''external_untrusted'' ''worker:a'' 40]))) (ci_content t)"
  by (rule compaction_launders) code_simp+

lemma summary_valid: "0 \<le> n \<Longrightarrow> item_error (build_summary_item env run_id n chunk) = None"
  by (simp add: item_error_def source_error_def build_summary_item_def context_layers_def context_kinds_def
      source_types_def trust_levels_def char4_estimate_def)

lemma items_error_None: "(\<And>c. c \<in> set cs \<Longrightarrow> item_error c = None) \<Longrightarrow> items_error cs = None"
  by (induction cs) auto

lemma item_rows_ids:
  assumes "\<forall>x. J x \<noteq> None"
  shows "\<exists>xs. item_rows J cs = Some xs \<and> map ci_item_id xs = map ci_item_id cs"
proof (induction cs)
  case Nil
  show ?case by simp
next
  case (Cons c cs)
  obtain w where "J (ci_metadata c) = Some w" using assms by blast
  with Cons show ?case by (auto simp: item_row_def)
qed

lemma insert_items_stored:
  "c \<in> set cs \<Longrightarrow> ci_item_id c \<in> ci_item_id ` set (cx_items d) \<Longrightarrow> insert_items cs d = None"
proof (induction cs arbitrary: d)
  case Nil
  then show ?case by simp
next
  case (Cons x cs)
  show ?case
  proof (cases "c = x")
    case True
    then show ?thesis using Cons.prems(2) by (simp add: insert_item_def)
  next
    case False
    have "insert_items cs d' = None" if "insert_item x d = Some d'" for d'
    proof (rule Cons.IH)
      show "c \<in> set cs" using Cons.prems(1) False by simp
      show "ci_item_id c \<in> ci_item_id ` set (cx_items d')"
        using that Cons.prems(2) by (auto simp: insert_item_def split: if_splits)
    qed
    then show ?thesis by (simp split: option.split)
  qed
qed

text \<open>
  C34. Compacting the same items twice fails. A summary is named by the items it absorbs, these stay in the
  repository without an end, and nothing replaces them: when a later build evicts the same sixteen items
  and does not select their summary, it inserts a summary whose id is taken, and raises.
\<close>

theorem stored_summary_rejected:
  assumes "rp_open r = None" "distinct (map ci_item_id (cx_items (rp_db r)))" "budget_error budget = None" "0 \<le> n"
    and json: "\<forall>x. be_json env x \<noteq> None"
    and sel: "select_within_budget (fst (filter_chain env v n (list_context_items run_id None None None r)))
      (items_tokens (fst (filter_chain env v n (list_context_items run_id None None None r)))) (usable_input budget) run_id
       = Inr (kept, dropped)"
    and chunk: "chunk \<in> set (chunks 16 (filter (\<lambda>c. ci_item_id c \<in> xc_item_id ` set dropped) (list_context_items run_id None None None r)))"
    and stored: "summary_id env chunk \<in> ci_item_id ` set (cx_items (rp_db r))"
    and fresh: "summary_id env chunk \<notin> ci_item_id ` set kept"
  shows "build env snapshot_id run_id v budget agent n r = (Inl (RepoFailed IntegrityError), r)"
proof -
  let ?l = "list_context_items run_id None None None r"
  let ?e = "filter (\<lambda>c. ci_item_id c \<in> xc_item_id ` set dropped) ?l"
  let ?oc = "compact env kept ?e budget run_id n"
  have dl: "distinct (map ci_item_id ?l)" using listed_distinct assms(1,2) by (simp add: seen_def)
  have ne: "?e \<noteq> []" using chunk by (auto simp: chunks.simps)
  have np: "\<forall>c \<in> set ?e. \<not> item_protected c" using evicted_unprotected [OF dl sel] by auto
  have all: "filter (\<lambda>x. xc_reason x = ''budget_overflow'') dropped = dropped"
    using select_within_budget_cases(5) [OF sel] by (auto intro: filter_True)
  have "dropped \<noteq> []" using ne by (auto simp: filter_empty_conv)
  then have rc: "run_compaction env kept dropped budget run_id n r = Some ?oc" by (simp add: run_compaction_def all)
  have new: "new_summaries kept ?oc =
      filter (\<lambda>c. ci_item_id c \<notin> ci_item_id ` set kept) (map (build_summary_item env run_id n) (chunks 16 ?e))"
    using compact_unprotected [OF np ne, of env kept budget run_id n]
    by (auto simp: new_summaries_def filter_empty_conv)
  let ?t = "build_summary_item env run_id n chunk"
  have id: "ci_item_id ?t = summary_id env chunk" by (simp add: build_summary_item_def)
  have tin: "?t \<in> set (new_summaries kept ?oc)" unfolding new using chunk fresh id by auto
  then have nonempty: "new_summaries kept ?oc \<noteq> []" by auto
  have "items_error (new_summaries kept ?oc) = None"
    by (rule items_error_None) (auto simp: new summary_valid assms(4))
  moreover obtain xs where xs: "item_rows (be_json env) (new_summaries kept ?oc) = Some xs"
    "map ci_item_id xs = map ci_item_id (new_summaries kept ?oc)" using item_rows_ids [OF json] by blast
  moreover have "insert_items xs (rp_db r) = None"
  proof -
    have "ci_item_id ?t \<in> set (map ci_item_id xs)" unfolding xs(2) using tin by simp
    then obtain x where "x \<in> set xs" "ci_item_id x = ci_item_id ?t" by auto
    then show ?thesis using insert_items_stored [of x xs "rp_db r"] stored id by simp
  qed
  ultimately have "insert_context_items (be_json env) (new_summaries kept ?oc) r = (Inl IntegrityError, r)"
    using assms(1) by (simp add: insert_context_items_def exec_txn_def bind_answer_def)
  then show ?thesis using assms(3) sel rc nonempty by (simp add: build_def case_prod_unfold)
qed

definition demo_view :: role_view where
  "demo_view = \<lparr>rv_role = ''worker'', rv_task_id = Some ''a''\<rparr>"

definition crowd :: "context_item list" where
  "crowd = map (\<lambda>c. demo_item [c] ''x'' ''external_untrusted'' ''worker:a'' 40) ''abcdefghijklmnop''"

text \<open>After the first build of a run whose sixteen items exceed the budget.\<close>

definition crowded :: repo where
  "crowded = snd (build demo_env ''s1'' ''r'' demo_view demo_budget ''a'' 1 (demo_repo crowd))"

lemma crowded_items: "rp_open crowded = None" "cx_items (rp_db crowded) = crowd @ [build_summary_item demo_env ''r'' 1 crowd]"
  by code_simp+

lemma crowded_list: "list_context_items ''r'' None None None crowded = crowd @ [build_summary_item demo_env ''r'' 1 crowd]"
proof -
  have "list_context_items ''r'' None None None crowded = sort_key (\<lambda>c. (ci_valid_from_sequence c, - ci_priority c))
      (filter (\<lambda>c. ci_run_id c = ''r'') (crowd @ [build_summary_item demo_env ''r'' 1 crowd]))"
    by (simp add: list_context_items_def seen_def crowded_items)
  also have "\<dots> = crowd @ [build_summary_item demo_env ''r'' 1 crowd]" by code_simp
  finally show ?thesis .
qed

theorem stored_summary_rejected_witness:
  "fst (build demo_env ''s2'' ''r'' demo_view demo_budget ''a'' 2 crowded) = Inl (RepoFailed IntegrityError)"
proof -
  let ?l = "crowd @ [build_summary_item demo_env ''r'' 1 crowd]"
  let ?d = "snd (keep_while_fits 36 0 (sort_down keep_key ?l))"
  have "build demo_env ''s2'' ''r'' demo_view demo_budget ''a'' 2 crowded = (Inl (RepoFailed IntegrityError), crowded)"
  proof (rule stored_summary_rejected [where kept = "[]" and dropped = ?d and chunk = crowd], unfold crowded_items crowded_list)
    show "None = None" ..
    show "distinct (map ci_item_id ?l)" by code_simp
    show "budget_error demo_budget = None" by code_simp
    show "(0::int) \<le> 2" by simp
    show "\<forall>x. be_json demo_env x \<noteq> None" by (simp add: demo_env_def)
    show "select_within_budget (fst (filter_chain demo_env demo_view 2 ?l))
        (items_tokens (fst (filter_chain demo_env demo_view 2 ?l))) (usable_input demo_budget) ''r'' = Inr ([], ?d)"
      by code_simp
    show "crowd \<in> set (chunks 16 (filter (\<lambda>c. ci_item_id c \<in> xc_item_id ` set ?d) ?l))" by code_simp
    show "summary_id demo_env crowd \<in> ci_item_id ` set ?l" by code_simp
    show "summary_id demo_env crowd \<notin> ci_item_id ` set []" by simp
  qed
  then show ?thesis by simp
qed

definition small_repo :: repo where
  "small_repo = demo_repo [demo_item ''i'' ''x'' ''user'' ''shared'' 5, demo_item ''j'' ''y'' ''user'' ''reviewer'' 5]"

theorem snapshot_accounts_for_items_witness:
  "case build demo_env ''s1'' ''r'' demo_view demo_budget ''a'' 1 small_repo of (Inr s, r') \<Rightarrow>
    (\<exists>kept evicted dropped records.
      sn_source_item_ids s = map ci_item_id (kept @ map (build_summary_item demo_env ''r'' 1) (chunks 16 evicted)) \<and>
      sn_excluded_items s = PTuple (map exclusion_value (dropped @ records)) \<and>
      mset (map ci_item_id kept) + mset (map xc_item_id dropped) =
        mset (map ci_item_id (list_context_items ''r'' None None None small_repo)) \<and>
      map (\<lambda>x. (xc_item_id x, xc_reason x)) records =
        map (\<lambda>c. (summary_id demo_env c, ''compaction_summary'')) (chunks 16 evicted) \<and>
      set (map ci_item_id evicted) \<subseteq> set (map xc_item_id dropped)) | _ \<Rightarrow> False"
proof -
  have "\<exists>s r'. build demo_env ''s1'' ''r'' demo_view demo_budget ''a'' 1 small_repo = (Inr s, r')"
  proof -
    have "\<not> isl (fst (build demo_env ''s1'' ''r'' demo_view demo_budget ''a'' 1 small_repo))" by code_simp
    then show ?thesis by (cases "build demo_env ''s1'' ''r'' demo_view demo_budget ''a'' 1 small_repo") (metis fst_conv isl_def sum.exhaust_sel)
  qed
  then obtain s r' where b: "build demo_env ''s1'' ''r'' demo_view demo_budget ''a'' 1 small_repo = (Inr s, r')" by blast
  have "distinct (map ci_item_id (cx_items (seen small_repo)))" by code_simp
  from snapshot_accounts_for_items [OF this demo_orders b] show ?thesis unfolding b by simp
qed

theorem role_isolation_witness:
  "(\<exists>c \<in> set (list_context_items ''r'' None None None small_repo). ci_item_id c = ''i'' \<and> admissible demo_view 1 c) \<or>
    (\<exists>chunk. ''i'' = ci_item_id (build_summary_item demo_env ''r'' 1 chunk) \<and> chunk \<noteq> [] \<and> length chunk \<le> 16 \<and>
      list_all (\<lambda>d. d \<in> set (list_context_items ''r'' None None None small_repo) \<and> admissible demo_view 1 d \<and> \<not> item_protected d) chunk)"
proof -
  have "case fst (build demo_env ''s1'' ''r'' demo_view demo_budget ''a'' 1 small_repo) of
      Inr s \<Rightarrow> ''i'' \<in> set (sn_source_item_ids s) | Inl _ \<Rightarrow> False" by code_simp
  then obtain s r' where b: "build demo_env ''s1'' ''r'' demo_view demo_budget ''a'' 1 small_repo = (Inr s, r')"
    "''i'' \<in> set (sn_source_item_ids s)"
    by (cases "build demo_env ''s1'' ''r'' demo_view demo_budget ''a'' 1 small_repo") (auto split: sum.splits)
  have "distinct (map ci_item_id (cx_items (seen small_repo)))" by code_simp
  from role_isolation [OF this b] show ?thesis .
qed

theorem protected_kept_or_refused_witness:
  "case build demo_env ''s1'' ''r'' demo_view demo_budget ''a'' 1 small_repo of (outcome, r') \<Rightarrow>
    let cs = fst (filter_chain demo_env demo_view 1 (list_context_items ''r'' None None None small_repo)); usable = usable_input demo_budget in
    (case outcome of
       Inr s \<Rightarrow> set (map ci_item_id (filter item_protected cs)) \<subseteq> set (sn_source_item_ids s) \<and>
         items_tokens (filter item_protected cs) \<le> usable \<and>
         (sn_estimated_tokens s \<le> usable \<or> usable < items_tokens cs)
     | Inl (BudgetExhausted j required u) \<Rightarrow> j = ''r'' \<and> u = usable \<and> required = items_tokens (filter item_protected cs) \<and>
         usable < required \<and> r' = small_repo
     | Inl (RepoFailed e) \<Rightarrow> True | Inl _ \<Rightarrow> False)"
  by (rule protected_kept_or_refused) code_simp+

end
