(* ===== verification/Context_Assembly_Props.thy ===== *)
theory Context_Assembly_Props
  imports Context_Assembly Context_Builder_Props
begin

text \<open>
  The lemmas on the assembly of a prompt: deduplication and conflict resolution lose no candidate without a
  record, the allocation keeps its budgets, the gate on the rendered prompt drops the worst candidates
  first, and the sections keep trusted and untrusted text apart.
\<close>

abbreviation ids_of :: "context_candidate list \<Rightarrow> ident multiset" where
  "ids_of cs \<equiv> mset (map ca_candidate_id cs)"

abbreviation record_ids :: "context_selection list \<Rightarrow> ident multiset" where
  "record_ids xs \<equiv> mset (map sl_candidate_id xs)"

lemma rejected_id [simp]: "sl_candidate_id (rejected reason c) = ca_candidate_id c"
  by (simp add: rejected_def)

lemma accepted_id [simp]: "sl_candidate_id (accepted reason c) = ca_candidate_id c"
  by (simp add: accepted_def)

section \<open>Deduplication\<close>

lemma dict_set_exchange:
  "map_of d k = Some old \<Longrightarrow> add_mset old (mset (map snd (dict_set k v d))) = add_mset v (mset (map snd d))"
  by (induction k v d rule: dict_set.induct) (auto split: if_splits)

lemma dict_set_fresh: "map_of d k = None \<Longrightarrow> mset (map snd (dict_set k v d)) = add_mset v (mset (map snd d))"
  by (induction k v d rule: dict_set.induct) (auto split: if_splits)

lemma dict_set_fresh_ids:
  assumes "map_of d k = None"
  shows "ids_of (map snd (dict_set k v d)) = ids_of (map snd d) + {#ca_candidate_id v#}"
proof -
  have "image_mset ca_candidate_id (mset (map snd (dict_set k v d))) = image_mset ca_candidate_id (add_mset v (mset (map snd d)))"
    using dict_set_fresh [OF assms, of v] by (rule arg_cong)
  then show ?thesis by (simp add: multiset.map_comp comp_def)
qed

lemma dict_set_same: "map_of d k = Some v \<Longrightarrow> map snd (dict_set k v d) = map snd d"
  by (induction k v d rule: dict_set.induct) (auto split: if_splits)

lemma dict_set_ids:
  assumes "map_of d k = Some old"
  shows "ids_of (map snd (dict_set k v d)) + {#ca_candidate_id old#} = ids_of (map snd d) + {#ca_candidate_id v#}"
proof -
  have "image_mset ca_candidate_id (add_mset old (mset (map snd (dict_set k v d)))) =
      image_mset ca_candidate_id (add_mset v (mset (map snd d)))"
    using dict_set_exchange [OF assms, of v] by (rule arg_cong)
  then show ?thesis by (simp add: multiset.map_comp comp_def)
qed

lemma dedup_step_accounts:
  assumes "dedup_step sha (d, xs) c = (d', xs')"
  shows "ids_of (map snd d') + record_ids xs' = ids_of (map snd d) + record_ids xs + {#ca_candidate_id c#}"
    "set (map snd d') \<subseteq> insert c (set (map snd d))"
proof -
  consider "d' = dict_set (content_key sha c) c d"
    | old where "map_of d (content_key sha c) = Some old" "d' = dict_set (content_key sha c) old d"
    using assms by (auto split: option.splits if_splits)
  then show "set (map snd d') \<subseteq> insert c (set (map snd d))"
  proof cases
    case 1
    have "snd x \<in> insert c (snd ` set d)" if "x \<in> set d'" for x
      using set_dict_set [of x "content_key sha c" c d] that unfolding 1 by auto
    then show ?thesis by auto
  next
    case (2 old)
    then have "map snd d' = map snd d" by (simp add: dict_set_same)
    then show ?thesis by (simp only:) blast
  qed
  show "ids_of (map snd d') + record_ids xs' = ids_of (map snd d) + record_ids xs + {#ca_candidate_id c#}"
  proof (cases "map_of d (content_key sha c)")
    case None
    then have "d' = dict_set (content_key sha c) c d" "xs' = xs" using assms by auto
    then show ?thesis using dict_set_fresh_ids [OF None, of c] by (simp del: mset_map)
  next
    case (Some old)
    show ?thesis
    proof (cases "winner_key c < winner_key old")
      case True
      then have "d' = dict_set (content_key sha c) c d" "xs' = xs @ [rejected (''deduplicated_by:'' @ ca_candidate_id c) old]"
        using assms Some by auto
      then have "ids_of (map snd d') + record_ids xs' =
          (ids_of (map snd (dict_set (content_key sha c) c d)) + {#ca_candidate_id old#}) + record_ids xs"
        by simp
      then show ?thesis unfolding dict_set_ids [OF Some] by (simp add: ac_simps del: mset_map)
    next
      case False
      then have "d' = dict_set (content_key sha c) old d" "record_ids xs' = record_ids xs + {#ca_candidate_id c#}"
        using assms Some by auto
      then show ?thesis using dict_set_same [OF Some] by (simp add: ac_simps del: mset_map)
    qed
  qed
qed

lemma dedup_fold:
  "ids_of (map snd (fst (foldl (dedup_step sha) s cs))) + record_ids (snd (foldl (dedup_step sha) s cs)) =
     ids_of (map snd (fst s)) + record_ids (snd s) + ids_of cs \<and>
   set (map snd (fst (foldl (dedup_step sha) s cs))) \<subseteq> set (map snd (fst s)) \<union> set cs"
proof (induction cs arbitrary: s)
  case Nil
  show ?case by simp
next
  case (Cons c cs)
  obtain d xs where s: "s = (d, xs)" by (cases s)
  obtain d' xs' where s': "dedup_step sha (d, xs) c = (d', xs')" by fastforce
  note ih = Cons.IH [of "(d', xs')"] and st = dedup_step_accounts [OF s']
  show ?case unfolding s foldl_Cons s'
  proof
    show "ids_of (map snd (fst (foldl (dedup_step sha) (d', xs') cs))) + record_ids (snd (foldl (dedup_step sha) (d', xs') cs)) =
        ids_of (map snd (fst (d, xs))) + record_ids (snd (d, xs)) + ids_of (c # cs)"
      using conjunct1 [OF ih] st(1) by (simp add: ac_simps)
    show "set (map snd (fst (foldl (dedup_step sha) (d', xs') cs))) \<subseteq> set (map snd (fst (d, xs))) \<union> set (c # cs)"
      using conjunct2 [OF ih] st(2) unfolding fst_conv by (simp only: set_simps) blast
  qed
qed

lemma deduplicate_accounts:
  "ids_of (fst (deduplicate sha cs)) + record_ids (snd (deduplicate sha cs)) = ids_of cs"
  "set (fst (deduplicate sha cs)) \<subseteq> set cs"
proof -
  let ?r = "foldl (dedup_step sha) ([], []) (sort_key (stable_key default_priority_order) cs)"
  have "deduplicate sha cs = (map snd (fst ?r), snd ?r)" by (simp add: deduplicate_def split: prod.splits)
  with dedup_fold [of sha "([], [])" "sort_key (stable_key default_priority_order) cs"]
  show "ids_of (fst (deduplicate sha cs)) + record_ids (snd (deduplicate sha cs)) = ids_of cs"
    "set (fst (deduplicate sha cs)) \<subseteq> set cs"
    by simp_all
qed

lemma distinct_ids_mono:
  "ids_of xs + M = ids_of cs \<Longrightarrow> distinct (map ca_candidate_id cs) \<Longrightarrow> distinct (map ca_candidate_id xs)"
proof -
  assume a: "ids_of xs + M = ids_of cs" "distinct (map ca_candidate_id cs)"
  obtain zs where "M = mset zs" using ex_mset by metis
  with a(1) have "mset (map ca_candidate_id xs @ zs) = ids_of cs" by simp
  then have "distinct (map ca_candidate_id xs @ zs)" using a(2) mset_eq_imp_distinct_iff by metis
  then show "distinct (map ca_candidate_id xs)" by simp
qed

section \<open>Conflicts\<close>

lemma min_by_in: "min_by k x xs \<in> set (x # xs)"
proof (induction xs arbitrary: x)
  case Nil
  show ?case by (simp add: min_by_def)
next
  case (Cons y ys)
  from Cons.IH [of "if k y < k x then y else x"] show ?case by (auto simp: min_by_def split: if_splits)
qed

lemma group_names_in: "g \<in> set (group_names cs) \<longleftrightarrow> (\<exists>c \<in> set cs. group_of c = Some g)"
  by (auto simp: group_names_def List.map_filter_def image_iff)

lemma distinct_group_names: "distinct (group_names cs)"
  by (simp add: group_names_def)

lemma group_winner_in:
  assumes "g \<in> set (group_names cs)"
  shows "group_winner cs g \<in> set cs \<and> group_of (group_winner cs g) = Some g"
proof -
  let ?xs = "filter (\<lambda>c. group_of c = Some g) cs"
  have "?xs \<noteq> []" using assms by (auto simp: group_names_in filter_empty_conv)
  then have "hd ?xs # tl ?xs = ?xs" by simp
  then have "group_winner cs g \<in> set ?xs"
    using min_by_in [of winner_key "hd ?xs" "tl ?xs"] by (simp add: group_winner_def Let_def)
  then show ?thesis by simp
qed

lemma remove_one_id:
  assumes "distinct (map ca_candidate_id xs)" "w \<in> set xs"
  shows "ids_of (filter (\<lambda>c. ca_candidate_id c \<noteq> ca_candidate_id w) xs) + {#ca_candidate_id w#} = ids_of xs"
  using assms
proof (induction xs)
  case Nil
  then show ?case by simp
next
  case (Cons x xs)
  show ?case
  proof (cases "ca_candidate_id x = ca_candidate_id w")
    case True
    then have "filter (\<lambda>c. ca_candidate_id c \<noteq> ca_candidate_id w) xs = xs"
      using Cons.prems(1) unfolding filter_id_conv by (auto simp: image_iff)
    with True show ?thesis by simp
  next
    case False
    with Cons show ?thesis by auto
  qed
qed

lemma group_accounts:
  assumes "distinct (map ca_candidate_id cs)" "g \<in> set (group_names cs)"
  shows "ids_of (group_losers cs g) + {#ca_candidate_id (group_winner cs g)#} = ids_of (filter (\<lambda>c. group_of c = Some g) cs)"
  unfolding group_losers_def
  by (rule remove_one_id) (use assms group_winner_in [OF assms(2)] in \<open>simp_all add: distinct_map_filter\<close>)

lemma groups_accounts:
  assumes "distinct (map ca_candidate_id cs)" "set gs \<subseteq> set (group_names cs)" "distinct gs"
  shows "ids_of (map (group_winner cs) gs) + ids_of (concat (map (group_losers cs) gs)) =
    ids_of (filter (\<lambda>c. group_of c \<in> Some ` set gs) cs)"
  using assms(2,3)
proof (induction gs)
  case Nil
  show ?case by simp
next
  case (Cons g gs)
  have split: "ids_of (filter (\<lambda>c. group_of c \<in> Some ` set (g # gs)) xs) =
      ids_of (filter (\<lambda>c. group_of c = Some g) xs) + ids_of (filter (\<lambda>c. group_of c \<in> Some ` set gs) xs)" for xs
    using Cons.prems(2) by (induction xs) auto
  show ?case unfolding split using Cons.IH Cons.prems group_accounts [OF assms(1), of g]
    by (auto simp: ac_simps simp flip: group_accounts [OF assms(1)])
qed

lemma resolve_conflicts_accounts:
  assumes "distinct (map ca_candidate_id cs)"
  shows "ids_of (fst (resolve_conflicts cs)) + record_ids (snd (snd (resolve_conflicts cs))) = ids_of cs"
    "set (fst (resolve_conflicts cs)) \<subseteq> set cs"
proof -
  let ?gs = "group_names cs"
  have "map sl_candidate_id (concat (map (\<lambda>g. map (rejected (f g)) (group_losers cs g)) gs)) =
      map ca_candidate_id (concat (map (group_losers cs) gs))" for gs and f :: "string \<Rightarrow> string"
    by (induction gs) auto
  then have "record_ids (snd (snd (resolve_conflicts cs))) = ids_of (concat (map (group_losers cs) ?gs))"
    by (simp add: resolve_conflicts_def)
  moreover have "filter (\<lambda>c. group_of c \<in> Some ` set ?gs) cs = filter (\<lambda>c. group_of c \<noteq> None) cs"
    by (rule filter_cong) (auto simp: group_names_in image_iff)
  moreover have "ids_of (filter (\<lambda>c. group_of c = None) cs) + ids_of (filter (\<lambda>c. group_of c \<noteq> None) cs) = ids_of cs"
    by (induction cs) auto
  ultimately show "ids_of (fst (resolve_conflicts cs)) + record_ids (snd (snd (resolve_conflicts cs))) = ids_of cs"
    using groups_accounts [OF assms subset_refl distinct_group_names]
    by (simp add: resolve_conflicts_def add.assoc)
  show "set (fst (resolve_conflicts cs)) \<subseteq> set cs"
    using group_winner_in by (auto simp: resolve_conflicts_def)
qed

section \<open>Allocation\<close>

text \<open>What a filling has made of the evictable candidates offered so far, on top of the protected ones.\<close>

definition filled ::
  "assembly_env \<Rightarrow> context_policy \<Rightarrow> int \<Rightarrow> context_candidate list \<Rightarrow> context_candidate list \<Rightarrow> filling \<Rightarrow> bool" where
  "filled env p remaining protected offered st \<longleftrightarrow>
    (\<exists>chosen. fl_selected st = protected @ chosen \<and> set chosen \<subseteq> set offered \<and>
      ids_of chosen + record_ids (fl_exclusions st) = ids_of offered \<and>
      (\<forall>b. candidate_tokens (filter (\<lambda>c. ca_bucket c = b) chosen) = bucket_total (fl_bucket_used st) b) \<and>
      (\<forall>c \<in> set chosen. bucket_total (fl_bucket_used st) (ca_bucket c) \<le> bucket_limit env p remaining (ca_bucket c) \<and>
         ca_estimated_tokens c \<le> pl_max_single_candidate_tokens p)) \<and>
    map sl_candidate_id (fl_records st) = map ca_candidate_id (fl_selected st) \<and>
    fl_used st = candidate_tokens (fl_selected st) \<and> fl_used st \<le> available_tokens p"

lemma bucket_total_set [simp]: "bucket_total (dict_set k v d) b = (if b = k then v else bucket_total d b)"
  by (simp add: bucket_total_def)

lemma candidate_tokens_append [simp]: "candidate_tokens (xs @ ys) = candidate_tokens xs + candidate_tokens ys"
  by (simp add: candidate_tokens_def)

lemma candidate_tokens_Cons [simp]: "candidate_tokens (x # xs) = ca_estimated_tokens x + candidate_tokens xs"
  by (simp add: candidate_tokens_def)

lemma candidate_tokens_Nil [simp]: "candidate_tokens [] = 0"
  by (simp add: candidate_tokens_def)

lemma zero_buckets_total: "bucket_total (zero_buckets p) b = 0"
proof -
  have "map_of (map (\<lambda>kv. (fst kv, 0::int)) d) b = Some x \<Longrightarrow> x = 0" for d :: "(string \<times> rat) list" and x
    by (induction d) (auto split: if_splits)
  then show ?thesis by (auto simp: bucket_total_def zero_buckets_def split: option.split)
qed

lemma filled_start: "candidate_tokens protected \<le> available_tokens p \<Longrightarrow> filled env p remaining protected [] (start_filling p protected)"
  by (simp add: filled_def start_filling_def zero_buckets_total)

lemma filled_excluded:
  assumes "filled env p remaining protected offered st"
  shows "filled env p remaining protected (offered @ [c]) (st\<lparr>fl_exclusions := fl_exclusions st @ [rejected reason c]\<rparr>)"
proof -
  let ?st = "st\<lparr>fl_exclusions := fl_exclusions st @ [rejected reason c]\<rparr>"
  from assms obtain chosen where "fl_selected st = protected @ chosen" "set chosen \<subseteq> set offered"
    "ids_of chosen + record_ids (fl_exclusions st) = ids_of offered"
    "\<forall>b. candidate_tokens (filter (\<lambda>c. ca_bucket c = b) chosen) = bucket_total (fl_bucket_used st) b"
    "\<forall>c \<in> set chosen. bucket_total (fl_bucket_used st) (ca_bucket c) \<le> bucket_limit env p remaining (ca_bucket c) \<and>
       ca_estimated_tokens c \<le> pl_max_single_candidate_tokens p"
    unfolding filled_def by blast
  then have "\<exists>chosen. fl_selected ?st = protected @ chosen \<and> set chosen \<subseteq> set (offered @ [c]) \<and>
      ids_of chosen + record_ids (fl_exclusions ?st) = ids_of (offered @ [c]) \<and>
      (\<forall>b. candidate_tokens (filter (\<lambda>c. ca_bucket c = b) chosen) = bucket_total (fl_bucket_used ?st) b) \<and>
      (\<forall>c \<in> set chosen. bucket_total (fl_bucket_used ?st) (ca_bucket c) \<le> bucket_limit env p remaining (ca_bucket c) \<and>
         ca_estimated_tokens c \<le> pl_max_single_candidate_tokens p)"
    by (intro exI [of _ chosen]) auto
  with assms show ?thesis unfolding filled_def by simp
qed

lemma filled_step:
  assumes st: "filled env p remaining protected offered st"
  shows "filled env p remaining protected (offered @ [c]) (fill_step env p remaining st c)"
proof -
  let ?t = "ca_estimated_tokens c" and ?b = "ca_bucket c"
  let ?n = "bucket_total (fl_bucket_used st) ?b + ?t"
  consider reason where "fill_step env p remaining st c = st\<lparr>fl_exclusions := fl_exclusions st @ [rejected reason c]\<rparr>"
    | (taken) "fill_step env p remaining st c = st\<lparr>fl_selected := fl_selected st @ [c], fl_used := fl_used st + ?t,
         fl_bucket_used := dict_set ?b ?n (fl_bucket_used st), fl_records := fl_records st @ [accepted (''selected_from:'' @ ?b) c]\<rparr>"
      "?t \<le> pl_max_single_candidate_tokens p" "?n \<le> bucket_limit env p remaining ?b" "fl_used st + ?t \<le> available_tokens p"
    unfolding fill_step_def Let_def by (metis linorder_not_less)
  then show ?thesis
  proof cases
    case 1
    then show ?thesis using filled_excluded [OF st] by simp
  next
    case taken
    from st obtain chosen where ch: "fl_selected st = protected @ chosen" "set chosen \<subseteq> set offered"
      "ids_of chosen + record_ids (fl_exclusions st) = ids_of offered"
      "\<forall>b. candidate_tokens (filter (\<lambda>c. ca_bucket c = b) chosen) = bucket_total (fl_bucket_used st) b"
      "\<forall>c \<in> set chosen. bucket_total (fl_bucket_used st) (ca_bucket c) \<le> bucket_limit env p remaining (ca_bucket c) \<and>
         ca_estimated_tokens c \<le> pl_max_single_candidate_tokens p"
      unfolding filled_def by blast
    let ?st = "fill_step env p remaining st c"
    have "\<exists>chosen. fl_selected ?st = protected @ chosen \<and> set chosen \<subseteq> set (offered @ [c]) \<and>
      ids_of chosen + record_ids (fl_exclusions ?st) = ids_of (offered @ [c]) \<and>
      (\<forall>b. candidate_tokens (filter (\<lambda>c. ca_bucket c = b) chosen) = bucket_total (fl_bucket_used ?st) b) \<and>
      (\<forall>c \<in> set chosen. bucket_total (fl_bucket_used ?st) (ca_bucket c) \<le> bucket_limit env p remaining (ca_bucket c) \<and>
         ca_estimated_tokens c \<le> pl_max_single_candidate_tokens p)"
      by (rule exI [of _ "chosen @ [c]"]) (use ch in \<open>auto simp: taken\<close>)
    moreover have "map sl_candidate_id (fl_records ?st) = map ca_candidate_id (fl_selected ?st)"
      "fl_used ?st = candidate_tokens (fl_selected ?st)" "fl_used ?st \<le> available_tokens p"
      using st taken(4) unfolding filled_def taken(1) by simp_all
    ultimately show ?thesis unfolding filled_def by blast
  qed
qed

lemma filled_fold:
  "filled env p remaining protected offered st \<Longrightarrow>
   filled env p remaining protected (offered @ cs) (foldl (fill_step env p remaining) st cs)"
proof (induction cs arbitrary: offered st)
  case Nil
  then show ?case by simp
next
  case (Cons c cs)
  from Cons.IH [OF filled_step [OF Cons.prems, of c]] show ?case by simp
qed

lemma allocate_filled:
  assumes "allocate env p cs = Inr (st, al)"
  shows "filled env p (available_tokens p - candidate_tokens (filter is_protected cs))
     (sort_key (stable_key default_priority_order) (filter is_protected cs))
     (sort_key winner_key (filter (\<lambda>c. \<not> is_protected c) cs)) st"
proof -
  let ?p = "sort_key (stable_key default_priority_order) (filter is_protected cs)"
  have "mset (map ca_estimated_tokens ?p) = mset (map ca_estimated_tokens (filter is_protected cs))" by simp
  then have same: "candidate_tokens ?p = candidate_tokens (filter is_protected cs)"
    unfolding candidate_tokens_def by (metis sum_mset_sum_list)
  have fits: "candidate_tokens ?p \<le> available_tokens p" using assms by (auto simp: allocate_def Let_def split: if_splits)
  then have "st = foldl (fill_step env p (available_tokens p - candidate_tokens ?p)) (start_filling p ?p)
      (sort_key winner_key (filter (\<lambda>c. \<not> is_protected c) cs))"
    using assms by (auto simp: allocate_def Let_def)
  then have "filled env p (available_tokens p - candidate_tokens ?p) ?p
      ([] @ sort_key winner_key (filter (\<lambda>c. \<not> is_protected c) cs)) st"
    using filled_fold [OF filled_start [OF fits]] by simp
  then show ?thesis by (simp add: same)
qed

lemma ids_of_parts: "ids_of (filter P cs) + ids_of (filter (\<lambda>c. \<not> P c) cs) = ids_of cs"
  by (induction cs) auto

lemma allocate_accounts:
  assumes "allocate env p cs = Inr (st, al)"
  shows "ids_of (fl_selected st) + record_ids (fl_exclusions st) = ids_of cs" "set (fl_selected st) \<subseteq> set cs"
    "set (filter is_protected cs) \<subseteq> set (fl_selected st)"
    "map sl_candidate_id (fl_records st) = map ca_candidate_id (fl_selected st)"
proof -
  let ?p = "sort_key (stable_key default_priority_order) (filter is_protected cs)"
  note f = allocate_filled [OF assms, unfolded filled_def]
  from f obtain chosen where ch: "fl_selected st = ?p @ chosen"
    "set chosen \<subseteq> set (filter (\<lambda>c. \<not> is_protected c) cs)"
    "ids_of chosen + record_ids (fl_exclusions st) = ids_of (sort_key winner_key (filter (\<lambda>c. \<not> is_protected c) cs))"
    by (auto simp del: mset_map)
  have "ids_of (fl_selected st) + record_ids (fl_exclusions st) = ids_of (filter is_protected cs) + ids_of (filter (\<lambda>c. \<not> is_protected c) cs)"
    using ch(3) unfolding ch(1) by (simp add: ac_simps)
  then show "ids_of (fl_selected st) + record_ids (fl_exclusions st) = ids_of cs" by (simp only: ids_of_parts)
  show "set (fl_selected st) \<subseteq> set cs" "set (filter is_protected cs) \<subseteq> set (fl_selected st)" using ch(1,2) by auto
  show "map sl_candidate_id (fl_records st) = map ca_candidate_id (fl_selected st)" using f by blast
qed

section \<open>The gate\<close>

lemma drop_id_accounts:
  assumes "distinct (map ca_candidate_id cs)" "c \<in> set cs"
  shows "ids_of (filter (\<lambda>d. ca_candidate_id d \<noteq> ca_candidate_id c) cs) + {#ca_candidate_id c#} = ids_of cs"
  by (rule remove_one_id [OF assms])

lemma fit_done:
  "rd_tokens (render env p cs) \<le> available_tokens p \<Longrightarrow>
   fit env p cs records xs = Inr \<lparr>ft_current = cs, ft_records = records, ft_exclusions = xs, ft_rendered = render env p cs\<rparr>"
  by (subst fit.simps) (simp add: Let_def)

lemma fit_stuck:
  "\<not> rd_tokens (render env p cs) \<le> available_tokens p \<Longrightarrow> worst_droppable cs = None \<Longrightarrow>
   fit env p cs records xs = Inl (AssemblyExhausted (rd_tokens (render env p cs)) (available_tokens p))"
  by (subst fit.simps) (simp add: Let_def)

lemma fit_drop:
  "\<not> rd_tokens (render env p cs) \<le> available_tokens p \<Longrightarrow> worst_droppable cs = Some c \<Longrightarrow>
   fit env p cs records xs = fit env p (filter (\<lambda>d. ca_candidate_id d \<noteq> ca_candidate_id c) cs)
     (filter (\<lambda>s. sl_candidate_id s \<noteq> ca_candidate_id c) records) (xs @ [rejected ''rendered_prompt_budget'' c])"
  by (subst fit.simps) (simp add: Let_def)

lemma fit_Inr:
  assumes "fit env p cs records xs = Inr f"
  shows "set (ft_current f) \<subseteq> set cs \<and> ft_rendered f = render env p (ft_current f) \<and>
    rd_tokens (ft_rendered f) \<le> available_tokens p \<and>
    (map sl_candidate_id records = map ca_candidate_id cs \<longrightarrow> map sl_candidate_id (ft_records f) = map ca_candidate_id (ft_current f)) \<and>
    (distinct (map ca_candidate_id cs) \<longrightarrow> set (filter is_protected cs) \<subseteq> set (ft_current f) \<and>
      ids_of (ft_current f) + record_ids (ft_exclusions f) = ids_of cs + record_ids xs)"
  using assms
proof (induction env p cs records xs rule: fit.induct)
  case (1 env p cs records xs)
  let ?r = "render env p cs"
  show ?case
  proof (cases "rd_tokens ?r \<le> available_tokens p")
    case True
    then have "f = \<lparr>ft_current = cs, ft_records = records, ft_exclusions = xs, ft_rendered = ?r\<rparr>"
      using "1.prems" fit_done [OF True] by simp
    with True show ?thesis by auto
  next
    case False
    show ?thesis
    proof (cases "worst_droppable cs")
      case None
      then show ?thesis using "1.prems" fit_stuck [OF False None] by simp
    next
      case (Some c)
      let ?cs = "filter (\<lambda>d. ca_candidate_id d \<noteq> ca_candidate_id c) cs"
      let ?records = "filter (\<lambda>s. sl_candidate_id s \<noteq> ca_candidate_id c) records"
      let ?xs = "xs @ [rejected ''rendered_prompt_budget'' c]"
      note w = worst_droppable_Some [OF Some]
      have "fit env p ?cs ?records ?xs = Inr f"
        using "1.prems" fit_drop [OF False Some] by simp
      note ih = "1.IH" [OF refl False Some this]
      have "map sl_candidate_id ?records = map ca_candidate_id ?cs" if "map sl_candidate_id records = map ca_candidate_id cs"
        using arg_cong [OF that, of "filter (\<lambda>i. i \<noteq> ca_candidate_id c)"] by (simp add: filter_map comp_def)
      moreover have "set (filter is_protected cs) \<subseteq> set (filter is_protected ?cs) \<and> distinct (map ca_candidate_id ?cs) \<and>
          ids_of ?cs + record_ids ?xs = ids_of cs + record_ids xs" if "distinct (map ca_candidate_id cs)"
      proof (intro conjI)
        show "distinct (map ca_candidate_id ?cs)" using that by (simp add: distinct_map_filter)
        show "set (filter is_protected cs) \<subseteq> set (filter is_protected ?cs)"
          using w distinct_map_eqD [OF that] by auto
        show "ids_of ?cs + record_ids ?xs = ids_of cs + record_ids xs"
          using drop_id_accounts [OF that conjunct1 [OF w]] by (simp add: ac_simps del: mset_map)
      qed
      ultimately show ?thesis using ih by (auto simp del: mset_map)
    qed
  qed
qed


lemma max_by_ge: "y \<in> set (x # xs) \<Longrightarrow> k y \<le> k (max_by k x xs)"
proof (induction xs arbitrary: x y)
  case Nil
  then show ?case by (simp add: max_by_def)
next
  case (Cons z zs)
  let ?b = "if k x < k z then z else x"
  have step: "max_by k x (z # zs) = max_by k ?b zs" by (simp add: max_by_def)
  have "k y \<le> k ?b \<or> y \<in> set zs" using Cons.prems by auto
  then show ?case
  proof
    assume "k y \<le> k ?b"
    also have "k ?b \<le> k (max_by k ?b zs)" by (rule Cons.IH) simp
    finally show ?thesis by (simp only: step)
  next
    assume "y \<in> set zs"
    then show ?thesis unfolding step by (intro Cons.IH) simp
  qed
qed

lemma worst_droppable_ge:
  assumes "worst_droppable cs = Some w" "c \<in> set cs" "\<not> is_protected c"
  shows "winner_key c \<le> winner_key w"
proof -
  from assms(1) obtain x xs where f: "filter (\<lambda>c. \<not> is_protected c) cs = x # xs" "w = max_by winner_key x xs"
    by (auto simp: worst_droppable_def split: list.splits)
  have "c \<in> set (x # xs)" using assms(2,3) unfolding f(1) [symmetric] by simp
  then show ?thesis unfolding f(2) by (rule max_by_ge)
qed

lemma fit_worst_first:
  assumes "fit env p cs records xs = Inr f" "distinct (map ca_candidate_id cs)"
    and "c \<in> set cs" "c \<notin> set (ft_current f)"
  shows "\<not> is_protected c \<and> (\<forall>k \<in> set (ft_current f). is_protected k \<or> winner_key k \<le> winner_key c)"
  using assms
proof (induction env p cs records xs rule: fit.induct)
  case (1 env p cs records xs)
  let ?r = "render env p cs"
  have big: "\<not> rd_tokens ?r \<le> available_tokens p"
  proof
    assume "rd_tokens ?r \<le> available_tokens p"
    then have "ft_current f = cs" using "1.prems"(1) fit_done by fastforce
    with "1.prems"(3,4) show False by simp
  qed
  then obtain w where w: "worst_droppable cs = Some w"
    using "1.prems"(1) fit_stuck [OF big] by (cases "worst_droppable cs") simp_all
  let ?cs = "filter (\<lambda>d. ca_candidate_id d \<noteq> ca_candidate_id w) cs"
  have rest: "fit env p ?cs (filter (\<lambda>s. sl_candidate_id s \<noteq> ca_candidate_id w) records) (xs @ [rejected ''rendered_prompt_budget'' w]) = Inr f"
    using "1.prems"(1) fit_drop [OF big w] by simp
  show ?case
  proof (cases "ca_candidate_id c = ca_candidate_id w")
    case True
    then have "c = w"
      using distinct_map_eqD [OF "1.prems"(2,3)] conjunct1 [OF worst_droppable_Some [OF w]] by simp
    moreover have "set (ft_current f) \<subseteq> set cs" using fit_Inr [OF rest] by auto
    ultimately show ?thesis using worst_droppable_Some [OF w] worst_droppable_ge [OF w] by blast
  next
    case False
    show ?thesis by (rule "1.IH" [OF refl big w rest]) (use "1.prems" False in \<open>simp_all add: distinct_map_filter\<close>)
  qed
qed

section \<open>The assembly\<close>

lemma assemble_shape:
  assumes "assemble_candidates env p run_id step_id cs = Inr a"
  obtains st al f where
    "allocate env p (fst (resolve_conflicts (fst (deduplicate (be_sha (ae_build env)) cs)))) = Inr (st, al)"
    "fit env p (fl_selected st) (fl_records st) [] = Inr f"
    "pa_prompt a = prompt_of p (ft_current f)" "pa_sections a = sections_of p (ft_current f)"
    "pa_estimated_tokens a = estimate_tokens (pa_prompt a)" "pa_estimated_tokens a \<le> available_tokens p"
    "tr_selected (pa_trace a) = ft_records f"
    "tr_excluded (pa_trace a) = snd (deduplicate (be_sha (ae_build env)) cs) @
      snd (snd (resolve_conflicts (fst (deduplicate (be_sha (ae_build env)) cs)))) @ fl_exclusions st @ ft_exclusions f"
proof -
  let ?free = "fst (resolve_conflicts (fst (deduplicate (be_sha (ae_build env)) cs)))"
  obtain st al where al: "allocate env p ?free = Inr (st, al)"
    using assms by (auto simp: assemble_candidates_def case_prod_unfold split: sum.splits)
  obtain f where f: "fit env p (fl_selected st) (fl_records st) [] = Inr f"
    using assms al by (auto simp: assemble_candidates_def case_prod_unfold split: sum.splits)
  note fi = fit_Inr [OF f]
  have r: "ft_rendered f = render env p (ft_current f)" "rd_tokens (ft_rendered f) \<le> available_tokens p" using fi by blast+
  show ?thesis
    by (rule that [OF al f]) (use assms al f r in \<open>auto simp: assemble_candidates_def case_prod_unfold Let_def render_def\<close>)
qed

definition surviving :: "assembly_env \<Rightarrow> context_candidate list \<Rightarrow> context_candidate list" where
  "surviving env cs = fst (resolve_conflicts (fst (deduplicate (be_sha (ae_build env)) cs)))"

lemma surviving_distinct:
  assumes "distinct (map ca_candidate_id cs)"
  shows "distinct (map ca_candidate_id (fst (deduplicate sha cs)))" "distinct (map ca_candidate_id (surviving env cs))"
proof -
  show d: "distinct (map ca_candidate_id (fst (deduplicate sha cs)))" for sha
    using distinct_ids_mono [OF deduplicate_accounts(1) assms] .
  show "distinct (map ca_candidate_id (surviving env cs))"
    unfolding surviving_def by (rule distinct_ids_mono [OF resolve_conflicts_accounts(1) [OF d] d])
qed


lemma remove1_ids: "c \<in> set cs \<Longrightarrow> ids_of (remove1 c cs) + {#ca_candidate_id c#} = ids_of cs"
  by (induction cs) auto

text \<open>The sections name exactly the candidates that were rendered.\<close>

lemma section_of_ids: "concat (map ps_candidate_ids (section_of name trust content cs)) = map ca_candidate_id cs"
  by (simp add: section_of_def)

lemma sections_ids: "mset (concat (map ps_candidate_ids (sections_of p cs))) = ids_of cs"
proof -
  have parts: "ids_of (trusted_part p cs) + ids_of (untrusted_part p cs) = ids_of (supplemental_of cs)"
    using ids_of_parts [of "\<lambda>c. \<not> untrusted c" "supplemental_of cs"] by (simp add: trusted_part_def untrusted_part_def)
  show ?thesis
  proof (cases "runtime_of cs")
    case None
    then show ?thesis using parts by (simp add: sections_of_def section_of_ids supplemental_of_def)
  next
    case (Some c)
    then have "c \<in> set cs" by (auto simp: runtime_of_def dest: find_SomeD)
    then have "ids_of (supplemental_of cs) + {#ca_candidate_id c#} = ids_of cs" using remove1_ids Some by (simp add: supplemental_of_def)
    then show ?thesis using parts Some by (simp add: sections_of_def section_of_ids)
  qed
qed

text \<open>
  C36. The trace accounts for every candidate exactly once: with distinct ids, the selected and the excluded
  records together name the candidates that were offered, and the sections of the prompt name exactly the
  selected ones.
\<close>

theorem assembly_accounts:
  assumes "distinct (map ca_candidate_id cs)" "assemble_candidates env p run_id step_id cs = Inr a"
  shows "record_ids (tr_selected (pa_trace a)) + record_ids (tr_excluded (pa_trace a)) = ids_of cs \<and>
    mset (concat (map ps_candidate_ids (pa_sections a))) = record_ids (tr_selected (pa_trace a))"
proof -
  let ?d = "deduplicate (be_sha (ae_build env)) cs"
  obtain st al f where a: "allocate env p (surviving env cs) = Inr (st, al)"
    "fit env p (fl_selected st) (fl_records st) [] = Inr f" "pa_sections a = sections_of p (ft_current f)"
    "tr_selected (pa_trace a) = ft_records f"
    "tr_excluded (pa_trace a) = snd ?d @ snd (snd (resolve_conflicts (fst ?d))) @ fl_exclusions st @ ft_exclusions f"
    unfolding surviving_def by (rule assemble_shape [OF assms(2)])
  note dd = surviving_distinct(1) [OF assms(1), of "be_sha (ae_build env)"]
  note acc = allocate_accounts [OF a(1)]
  have ds: "distinct (map ca_candidate_id (fl_selected st))"
    by (rule distinct_ids_mono [OF acc(1) surviving_distinct(2) [OF assms(1)]])
  have f: "ids_of (ft_current f) + record_ids (ft_exclusions f) = ids_of (fl_selected st)"
    "record_ids (ft_records f) = ids_of (ft_current f)"
    using fit_Inr [OF a(2)] ds acc(4) by (auto simp del: mset_map)
  have "record_ids (tr_selected (pa_trace a)) + record_ids (tr_excluded (pa_trace a)) =
      (((ids_of (ft_current f) + record_ids (ft_exclusions f)) + record_ids (fl_exclusions st)) +
        record_ids (snd (snd (resolve_conflicts (fst ?d))))) + record_ids (snd ?d)"
    by (simp only: a(4,5) f(2) map_append mset_append ac_simps)
  also have "\<dots> = ids_of cs"
    using resolve_conflicts_accounts(1) [OF dd] deduplicate_accounts(1) [of "be_sha (ae_build env)" cs] acc(1)
    by (simp only: f(1) surviving_def)
  finally show ?thesis by (simp only: a(3,4) f(2) sections_ids)
qed

text \<open>
  C38. The assembly is a function of the set of candidates: the order in which the sources offer them makes no
  difference, when their ids are distinct.
\<close>

theorem assembly_order_independent:
  assumes "distinct (map ca_candidate_id cs)" "mset cs = mset cs'"
  shows "assemble_candidates env p run_id step_id cs = assemble_candidates env p run_id step_id cs'"
proof -
  have "inj_on (stable_key default_priority_order) (set cs)"
    using assms(1) by (auto simp: inj_on_def stable_key_def distinct_map)
  then have "sort_key (stable_key default_priority_order) cs = sort_key (stable_key default_priority_order) cs'"
    by (intro sort_key_inj_key_eq) (simp_all add: assms(2))
  then have "deduplicate sha cs = deduplicate sha cs'" for sha by (simp add: deduplicate_def)
  then show ?thesis by (simp add: assemble_candidates_def)
qed





text \<open>
  The allocation keeps every budget: the protected candidates and the chosen ones together fit the input
  budget, no bucket with a chosen candidate exceeds its share of what the protected ones leave, and no
  chosen candidate exceeds the limit of a single one.
\<close>

theorem allocation_within_quotas:
  assumes "allocate env p cs = Inr (st, al)"
  shows "fl_used st = candidate_tokens (fl_selected st) \<and> fl_used st \<le> available_tokens p \<and>
    (\<exists>chosen. fl_selected st = sort_key (stable_key default_priority_order) (filter is_protected cs) @ chosen \<and>
      list_all (\<lambda>c. \<not> is_protected c \<and> ca_estimated_tokens c \<le> pl_max_single_candidate_tokens p \<and>
        candidate_tokens (filter (\<lambda>d. ca_bucket d = ca_bucket c) chosen) \<le>
          bucket_limit env p (available_tokens p - candidate_tokens (filter is_protected cs)) (ca_bucket c)) chosen)"
proof -
  note f = allocate_filled [OF assms, unfolded filled_def]
  then obtain chosen where ch: "fl_selected st = sort_key (stable_key default_priority_order) (filter is_protected cs) @ chosen"
    "set chosen \<subseteq> set (sort_key winner_key (filter (\<lambda>c. \<not> is_protected c) cs))"
    "\<forall>b. candidate_tokens (filter (\<lambda>c. ca_bucket c = b) chosen) = bucket_total (fl_bucket_used st) b"
    "\<forall>c \<in> set chosen. bucket_total (fl_bucket_used st) (ca_bucket c) \<le>
       bucket_limit env p (available_tokens p - candidate_tokens (filter is_protected cs)) (ca_bucket c) \<and>
       ca_estimated_tokens c \<le> pl_max_single_candidate_tokens p"
    by blast
  moreover have "\<not> is_protected c" if "c \<in> set chosen" for c using ch(2) that by auto
  ultimately show ?thesis using f by (intro conjI exI [of _ chosen]) (simp_all add: list_all_iff)
qed

text \<open>
  The gate on the rendered prompt drops the worst candidates first: what it drops is not protected, and
  nothing it keeps, protected content apart, ranks after something it drops.
\<close>

theorem gate_drops_worst_first:
  assumes "fit env p cs records xs = Inr f" "distinct (map ca_candidate_id cs)"
  shows "list_all (\<lambda>c. c \<in> set (ft_current f) \<or> (\<not> is_protected c \<and>
    list_all (\<lambda>k. is_protected k \<or> winner_key k \<le> winner_key c) (ft_current f))) cs"
  using fit_worst_first [OF assms] by (auto simp: list_all_iff)

text \<open>
  C39. The gate drops by id, and nothing makes the ids of candidates unique: when the worst candidate of a
  prompt that is too long shares its id with a protected one, the protected one is dropped with it.
\<close>

theorem equal_ids_evict_protected:
  assumes "fit env p cs records xs = Inr f" "available_tokens p < rd_tokens (render env p cs)"
    and "worst_droppable cs = Some w" "d \<in> set cs" "is_protected d" "ca_candidate_id d = ca_candidate_id w"
  shows "d \<notin> set (ft_current f) \<and> ca_candidate_id d \<notin> set (map ca_candidate_id (ft_current f))"
proof -
  let ?cs = "filter (\<lambda>c. ca_candidate_id c \<noteq> ca_candidate_id w) cs"
  have "fit env p ?cs (filter (\<lambda>s. sl_candidate_id s \<noteq> ca_candidate_id w) records) (xs @ [rejected ''rendered_prompt_budget'' w]) = Inr f"
    using assms(1) fit_drop [of env p cs w] assms(2,3) by simp
  then have "set (ft_current f) \<subseteq> set ?cs" using fit_Inr by blast
  then show ?thesis using assms(6) by auto
qed

section \<open>Examples\<close>

definition demo_assembly_env :: assembly_env where
  "demo_assembly_env = \<lparr>ae_build = demo_env, ae_dumps = demo_encode, ae_str = demo_encode,
     ae_share = \<lambda>n f. \<lfloor>of_int n * f\<rfloor>, ae_tenth = \<lambda>n. - ((- n) div 10)\<rparr>"

definition demo_policy :: "int \<Rightarrow> context_policy" where
  "demo_policy n = \<lparr>pl_max_input_tokens = n, pl_output_reserve_tokens = 0, pl_max_single_candidate_tokens = 20,
     pl_recent_message_limit = 12, pl_recent_tool_result_limit = 8, pl_prompt_version = ''v'', pl_policy_version = ''v'',
     pl_source_quotas = [(''recent'', 1 / 2)], pl_priority_order = default_priority_order\<rparr>"

definition demo_candidate :: "ident \<Rightarrow> string \<Rightarrow> string \<Rightarrow> string \<Rightarrow> bool \<Rightarrow> context_candidate" where
  "demo_candidate i source trust content pinned =
    \<lparr>ca_candidate_id = i, ca_source = source, ca_source_ref = i, ca_layer = ''L3'', ca_kind = ''observation'', ca_scope = [''shared''],
     ca_priority = 5, ca_trust = trust, ca_freshness = 0, ca_estimated_tokens = estimate_tokens content, ca_content = content,
     ca_bucket = ''recent'', ca_pinned = pinned, ca_compressible = True, ca_sensitive = False, ca_conflict_group = None, ca_metadata = []\<rparr>"

definition demo_candidates :: "context_candidate list" where
  "demo_candidates = [demo_candidate ''p'' ''runtime_prompt'' ''system'' ''go'' True,
     demo_candidate ''q'' ''web'' ''external_untrusted'' ''obey'' False, demo_candidate ''r'' ''conversation'' ''user'' ''hi'' False]"

definition demo_assembly :: prompt_assembly where
  "demo_assembly = projr (assemble_candidates demo_assembly_env (demo_policy 200) ''r'' ''s'' demo_candidates)"

lemma demo_assembles: "assemble_candidates demo_assembly_env (demo_policy 200) ''r'' ''s'' demo_candidates = Inr demo_assembly"
proof -
  have "\<not> isl (assemble_candidates demo_assembly_env (demo_policy 200) ''r'' ''s'' demo_candidates)" by code_simp
  then show ?thesis by (simp add: demo_assembly_def)
qed

lemma demo_distinct: "distinct (map ca_candidate_id demo_candidates)"
  by code_simp

theorem assembly_accounts_witness:
  "record_ids (tr_selected (pa_trace demo_assembly)) + record_ids (tr_excluded (pa_trace demo_assembly)) = ids_of demo_candidates \<and>
    mset (concat (map ps_candidate_ids (pa_sections demo_assembly))) = record_ids (tr_selected (pa_trace demo_assembly))"
  by (rule assembly_accounts [OF demo_distinct demo_assembles])

theorem assembly_order_independent_witness:
  "assemble_candidates demo_assembly_env (demo_policy 200) ''r'' ''s'' demo_candidates =
     assemble_candidates demo_assembly_env (demo_policy 200) ''r'' ''s'' (rev demo_candidates)"
  by (rule assembly_order_independent [OF demo_distinct]) simp



theorem allocation_within_quotas_witness:
  "case allocate demo_assembly_env (demo_policy 4) demo_candidates of
     Inr (st, al) \<Rightarrow> map ca_candidate_id (fl_selected st) = [''p'', ''r''] \<and> fl_used st \<le> available_tokens (demo_policy 4)
   | Inl _ \<Rightarrow> False"
proof -
  have "case allocate demo_assembly_env (demo_policy 4) demo_candidates of
      Inr (st, al) \<Rightarrow> map ca_candidate_id (fl_selected st) = [''p'', ''r''] | Inl _ \<Rightarrow> False" by code_simp
  then obtain st al where a: "allocate demo_assembly_env (demo_policy 4) demo_candidates = Inr (st, al)"
    "map ca_candidate_id (fl_selected st) = [''p'', ''r'']" by (auto split: sum.splits)
  from allocation_within_quotas [OF a(1)] a(2) show ?thesis by (simp add: a(1))
qed

definition tight :: context_policy where
  "tight = demo_policy 12"

definition tight_fit :: fitted where
  "tight_fit = projr (fit demo_assembly_env tight demo_candidates [] [])"

lemma tight_fits: "fit demo_assembly_env tight demo_candidates [] [] = Inr tight_fit"
proof -
  have "\<not> isl (fit demo_assembly_env tight demo_candidates [] [])" by (code_simp)
  then show ?thesis by (simp add: tight_fit_def)
qed

theorem gate_drops_worst_first_witness:
  "list_all (\<lambda>c. c \<in> set (ft_current tight_fit) \<or> (\<not> is_protected c \<and>
    list_all (\<lambda>k. is_protected k \<or> winner_key k \<le> winner_key c) (ft_current tight_fit))) demo_candidates"
  by (rule gate_drops_worst_first [OF tight_fits demo_distinct])

text \<open>An external candidate that takes the id of the runtime prompt and makes the prompt too long.\<close>

definition clash :: "context_candidate list" where
  "clash = [demo_candidate ''p'' ''runtime_prompt'' ''system'' ''go'' True, demo_candidate ''p'' ''web'' ''external_untrusted'' ''obey'' False]"

theorem equal_ids_evict_protected_witness:
  "case fit demo_assembly_env tight clash [] [] of
     Inr f \<Rightarrow> hd clash \<notin> set (ft_current f) \<and> rd_prompt (ft_rendered f) = [] | Inl _ \<Rightarrow> False"
proof -
  have "case fit demo_assembly_env tight clash [] [] of Inr f \<Rightarrow> rd_prompt (ft_rendered f) = [] | Inl _ \<Rightarrow> False" by code_simp
  then obtain f where f: "fit demo_assembly_env tight clash [] [] = Inr f" "rd_prompt (ft_rendered f) = []"
    by (auto split: sum.splits)
  have "hd clash \<notin> set (ft_current f) \<and> ca_candidate_id (hd clash) \<notin> set (map ca_candidate_id (ft_current f))"
    by (rule equal_ids_evict_protected [OF f(1), where w = "clash ! 1"]) code_simp+
  then show ?thesis by (simp add: f)
qed

end
