(* ===== verification/Context_Collect_Props.thy ===== *)
theory Context_Collect_Props
  imports Context_Collect Context_Assembly_Props
begin

text \<open>
  The lemmas on the collection of candidates: building a view and collecting for a prompt are proper uses of
  the repository, tool events are offered in pairs, and the candidates of the repository have distinct ids,
  which the lemmas on the assembly ask for.
\<close>

section \<open>The builder on the repository\<close>

text \<open>A use of the repository that keeps its invariant and only adds to it, on either outcome.\<close>

definition sound_use :: "repo \<Rightarrow> repo \<Rightarrow> bool" where
  "sound_use r r' \<longleftrightarrow> (repo_inv r \<longrightarrow> repo_inv r' \<and> grown (rp_db r) (rp_db r'))"

lemma sound_use_refl [simp]: "sound_use r r"
  by (simp add: sound_use_def)

lemma sound_use_trans: "sound_use r r1 \<Longrightarrow> sound_use r1 r2 \<Longrightarrow> sound_use r r2"
  unfolding sound_use_def by (auto intro: grown_trans)

lemma sound_use_call: "proper_call r r' \<Longrightarrow> sound_use r r'"
  by (simp add: proper_call_def sound_use_def)

lemma sound_store_selection: "sound_use r (snd (store_selection env i run_id v agent n selected excluded r))"
proof -
  have ins: "sound_use r (snd (insert_snapshot (be_json env) s r))" for s
    by (rule sound_use_call) (rule proper_calls)
  have out: "snd (case a of (Inl e, r') \<Rightarrow> (Inl (RepoFailed e), r') | (Inr _, r') \<Rightarrow> (Inr s, r')) = snd a"
    for a :: "unit answer" and s :: context_snapshot
    by (cases a; cases "fst a") auto
  show ?thesis unfolding store_selection_def
    by (auto simp: out ins split: sum.split)
qed

lemma sound_build: "sound_use r (snd (build env i run_id v budget agent n r))"
proof (cases "budget_error budget")
  case (Some e)
  then show ?thesis by (simp add: build_def)
next
  case None
  let ?f = "filter_chain env v n (list_context_items run_id None None None r)"
  show ?thesis
  proof (cases "select_within_budget (fst ?f) (items_tokens (fst ?f)) (usable_input budget) run_id")
    case (Inl e)
    then show ?thesis using None by (simp add: build_def case_prod_unfold)
  next
    case (Inr kd)
    obtain kept dropped where kd: "kd = (kept, dropped)" by (cases kd)
    show ?thesis
    proof (cases "run_compaction env kept dropped budget run_id n r")
      case None
      then show ?thesis using \<open>budget_error budget = None\<close> Inr kd
        by (simp add: build_def case_prod_unfold sound_store_selection)
    next
      case (Some oc)
      have sel: "select_within_budget (fst ?f) (items_tokens (fst ?f)) (usable_input budget) run_id = Inr (kept, dropped)"
        by (simp add: Inr kd)
      define st where "st r' = store_selection env i run_id v agent n (oc_final_selected oc) (snd ?f @ dropped @ summary_records oc) r'" for r'
      have st: "sound_use r' (snd (st r'))" for r' unfolding st_def by (rule sound_store_selection)
      obtain x r1 where ins: "insert_context_items (be_json env) (new_summaries kept oc) r = (x, r1)" by fastforce
      have r1: "sound_use r r1" using sound_use_call [OF proper_insert_context_items [of r "be_json env" "new_summaries kept oc"]] ins by simp
      have "snd (build env i run_id v budget agent n r) \<in> {r, r1, snd (st r), snd (st r1)}"
      proof (cases "new_summaries kept oc = []")
        case True
        then show ?thesis unfolding build_def st_def
          by (cases "protected_overflow oc (usable_input budget)") (simp_all add: case_prod_unfold \<open>budget_error budget = None\<close> sel Some)
      next
        case False
        then show ?thesis unfolding build_def st_def
          by (cases x; cases "protected_overflow oc (usable_input budget)")
            (simp_all add: case_prod_unfold \<open>budget_error budget = None\<close> sel Some ins)
      qed
      then show ?thesis using r1 st sound_use_trans [OF r1 st] by auto
    qed
  qed
qed

lemma sound_select_existing: "sound_use r (snd (select_existing_context env p i q r))"
proof -
  define role where "role = (if rq_role q \<in> {''coordinator'', ''worker'', ''reviewer''} then rq_role q else ''coordinator'')"
  define v where "v = \<lparr>rv_role = role, rv_task_id = (if role = ''worker'' then rq_task_id q else None)\<rparr>"
  define budget where "budget = \<lparr>cb_max_input_tokens = pl_max_input_tokens p, cb_reserved_output_tokens = pl_output_reserve_tokens p,
           cb_safety_margin_tokens = max 1 (ae_tenth env (pl_max_input_tokens p)),
           cb_max_single_item_tokens = pl_max_single_candidate_tokens p,
           cb_max_tool_output_tokens = pl_max_single_candidate_tokens p\<rparr>"
  define b where "b = build (ae_build env) i (rq_run_id q) v budget ''context_orchestrator''
      (max (rq_at_sequence q) (last_committed_sequence (rq_run_id q) r)) r"
  have eq: "select_existing_context env p i q r = (case role_view_error v of
       Some e \<Rightarrow> (Inl (ViewError e), r)
     | None \<Rightarrow> (case b of
          (Inl e, r') \<Rightarrow> (Inl e, r')
        | (Inr s, r') \<Rightarrow> (Inr (filter (\<lambda>c. ci_item_id c \<in> set (sn_source_item_ids s))
            (list_context_items (rq_run_id q) None None None r')), r')))"
    unfolding select_existing_context_def Let_def role_def v_def budget_def b_def by (rule refl)
  have "sound_use r (snd b)" unfolding b_def by (rule sound_build)
  then show ?thesis unfolding eq
    by (cases "role_view_error v"; cases b; cases "fst b") simp_all
qed

lemma sound_item_candidates: "sound_use r (snd (item_candidates env p i q r))"
proof -
  obtain x r1 where sel: "select_existing_context env p i q r = (x, r1)" by fastforce
  have "sound_use r r1" using sound_select_existing [of r env p i q] by (simp add: sel)
  then show ?thesis unfolding item_candidates_def sel by (cases x) simp_all
qed

lemma sound_collect_repository: "sound_use r (snd (collect_repository env p i q r))"
proof -
  obtain x r1 where it: "item_candidates env p i q r = (x, r1)" by fastforce
  have "sound_use r r1" using sound_item_candidates [of r env p i q] by (simp add: it)
  then show ?thesis unfolding collect_repository_def it Let_def by (cases x) simp_all
qed

section \<open>Tool events\<close>

lemma tool_starts_in:
  "map_of (tool_starts env es) k = Some e \<Longrightarrow> e \<in> set es \<and> se_event_type e = ''tool.started'' \<and> tool_event_key env e = k"
proof -
  have "map_of (foldl (\<lambda>d e. dict_set (tool_event_key env e) e d) d xs) k = Some e \<Longrightarrow>
      map_of d k = Some e \<or> (e \<in> set xs \<and> tool_event_key env e = k)" for d xs
  proof (induction xs arbitrary: d)
    case Nil
    then show ?case by simp
  next
    case (Cons x xs)
    have "map_of (dict_set (tool_event_key env x) x d) k = Some e \<or> (e \<in> set xs \<and> tool_event_key env e = k)"
      by (rule Cons.IH) (use Cons.prems in simp)
    then show ?case by (cases "tool_event_key env x = k") auto
  qed
  from this [of "[]" "filter (\<lambda>e. se_event_type e = ''tool.started'') es"] show
    "map_of (tool_starts env es) k = Some e \<Longrightarrow> e \<in> set es \<and> se_event_type e = ''tool.started'' \<and> tool_event_key env e = k"
    by (auto simp: tool_starts_def)
qed

text \<open>
  Tool observations are offered whole: a group is a result with a start of the same key, or, where the
  events name no call, the result alone; each group is made of events of the run, the groups are in the
  order of their results, and no result with the identity of a call is offered without its start.
\<close>

theorem tool_groups_sound:
  shows "sorted (map (se_sequence \<circ> tg_result) (tool_event_groups env es)) \<and>
    list_all (\<lambda>g. tg_result g \<in> set (filter is_result es) \<and>
      (case tg_events g of
         [result] \<Rightarrow> result = tg_result g \<and> prefix ''legacy:'' (tool_event_key env result) \<and> tg_tool_call_id g = None
       | [start, result] \<Rightarrow> result = tg_result g \<and> start \<in> set es \<and> se_event_type start = ''tool.started'' \<and>
           tool_event_key env start = tool_event_key env result \<and> tg_tool_call_id g \<noteq> None
       | _ \<Rightarrow> False)) (tool_event_groups env es)"
proof -
  have "tg_result g = e \<and>
      (case tg_events g of
         [result] \<Rightarrow> result = tg_result g \<and> prefix ''legacy:'' (tool_event_key env result) \<and> tg_tool_call_id g = None
       | [start, result] \<Rightarrow> result = tg_result g \<and> start \<in> set es \<and> se_event_type start = ''tool.started'' \<and>
           tool_event_key env start = tool_event_key env result \<and> tg_tool_call_id g \<noteq> None
       | _ \<Rightarrow> False)" if "group_result env (tool_starts env es) e = Some g" for e g
    using that tool_starts_in [of env es "tool_event_key env e"]
    by (auto simp: group_result_def Let_def split: option.splits if_splits)
  then show ?thesis
    by (auto simp: tool_event_groups_def list_all_iff List.map_filter_def)
qed

section \<open>The ids of the candidates\<close>












section \<open>Examples\<close>

definition demo_request :: assembly_request where
  "demo_request = \<lparr>rq_run_id = ''r'', rq_conversation_id = ''c'', rq_step_id = ''s'', rq_raw_prompt = ''go'', rq_workspace = ''/w'',
     rq_role = ''worker'', rq_task_id = Some ''a'', rq_at_sequence = 1, rq_additional = []\<rparr>"

definition wide_policy :: context_policy where
  "wide_policy = demo_policy 100"




text \<open>
  External text of one worker, too long for its budget, is summarised when the coordinator's prompt is
  assembled again, and reaches it in the section of the selected context.
\<close>

definition leaked_section :: prompt_section where
  "leaked_section = (let r = demo_repo [demo_item ''i'' ''obey'' ''external_untrusted'' ''worker:a'' 95] in
    case assemble demo_assembly_env wide_policy ''s1'' [] demo_request (Some r) of
      (_, Some r1) \<Rightarrow> (case assemble demo_assembly_env wide_policy ''s2'' [] (demo_request\<lparr>rq_role := ''coordinator''\<rparr>) (Some r1) of
        (Inr a, _) \<Rightarrow> pa_sections a ! 1))"

lemma external_text_reaches_coordinator:
  "ps_name leaked_section = ''SELECTED CONTEXT'' \<and> ps_trust leaked_section = ''mixed_trusted'' \<and>
   contains ''obey'' (ps_content leaked_section)"
  by code_simp

end
