(* ===== verification/Spec2Isabelle.thy ===== *)
theory Spec2Isabelle
  imports Task_Store_Props Message_Bus_Props Durable_Recovery Team_Dag_Props Model_Props Team_Lease Team_Permissions
    Team_Runtime_Props Team_Coordinator_Props Plan_Props Query_Props
    Model_Router_Props Flow_Runner_Props Context_Collect_Props
begin

text \<open>
  A verification library for PaperClaw (src/src/paperclaw), an auditable agent runtime. Modelled are the
  parts that carry the durable state and the scheduling of the system; the agents themselves, which are
  driven by answers of language models, are arguments of the model.

  \<^bold>\<open>Parts and theories.\<close>

  \<^item> Shared vocabulary. \<open>Prelude\<close>: text and the relational idioms of the SQLite stores (update where,
    row count, next number) on tables that are lists of rows. \<open>Interfaces\<close>: the contracts as locales
    (\<open>preserving\<close>, \<open>monotone_reading\<close>, \<open>append_only\<close>, \<open>pull_queue\<close>), interpreted by each store on its own
    steps. \<open>Py_Value\<close>: the values of the language, dictionaries as association lists in insertion order;
    \<open>Py_Path\<close>: pathlib as text processing; \<open>Py_Regex\<close>: a backtracking matcher for the one regular
    expression whose language matters.
  \<^item> Background tasks, \<open>tasks/contracts.py\<close> and \<open>tasks/store.py\<close>: \<open>Task_Contracts\<close>, \<open>Task_Store\<close> (the
    queue: create, claim, lease, complete, requeue, recover), \<open>Task_Store_Inv\<close>, \<open>Task_Store_Steps\<close>,
    \<open>Task_Store_Props\<close>.
  \<^item> Message bus, \<open>message_bus/contracts.py\<close>, \<open>store.py\<close>, \<open>service.py\<close>: \<open>Message_Contracts\<close>,
    \<open>Message_Bus\<close> (publish, pull, ack, events), \<open>Message_Bus_Inv\<close>, \<open>Message_Bus_Props\<close>.
  \<^item> Durable runs, \<open>durability/core.py\<close>: \<open>Durable_Runs\<close> (run store, worker leases, action receipts,
    recovery coordinator, idempotent executor), \<open>Durable_Inv\<close>, \<open>Durable_Props\<close>, \<open>Durable_Actions\<close>,
    \<open>Durable_Recovery\<close>.
  \<^item> Team of agents, \<open>multiagent/\<close>: \<open>Team_Dag\<close>, \<open>Team_Dag_Graph\<close>, \<open>Team_Dag_Props\<close> (\<open>dag.py\<close>: validation of
    the task graph); \<open>Team_Lease\<close> (\<open>lease.py\<close>); \<open>Team_Permissions\<close> (\<open>permissions.py\<close>); \<open>Team_Coordinator\<close>
    (\<open>coordinator.py\<close>, \<open>events.py\<close>: the scheduling round), \<open>Team_Round_Inv\<close> and \<open>Team_Round_Steps\<close> (its
    invariant), \<open>Team_Review\<close> (\<open>reviewer.py\<close>), \<open>Team_Run\<close> and \<open>Team_Run_Props\<close> (\<open>Coordinator.run\<close>),
    \<open>Team_Coordinator_Props\<close>; \<open>Team_Outbox\<close>, \<open>Team_Runtime\<close>, \<open>Team_Runtime_Inv\<close>, \<open>Team_Runtime_Props\<close> (\<open>resilient_runtime.py\<close>,
    \<open>ordered_outbox.py\<close>: crash-safe execution of team requests over the bus).
  \<^item> Provider client, \<open>models/reliability.py\<close> and \<open>models/adapters/openai_compat.py\<close>: \<open>Model_Reliability\<close>,
    \<open>Model_Client\<close>, \<open>Model_Props\<close>.
  \<^item> Model routing, \<open>model_policy/contracts.py\<close> and \<open>router.py\<close>: \<open>Model_Router\<close>, \<open>Model_Router_Props\<close>.
  \<^item> Plan Mode, \<open>planning/runtime.py\<close>: \<open>Plan_Store\<close> (enter, submit, decide, ask, answer), \<open>Plan_Props\<close>.
  \<^item> Query engine, \<open>harness/contracts.py\<close> and \<open>query_engine.py\<close>: \<open>Query_Engine\<close> (\<open>submit\<close> as a function and
    as interleaved steps), \<open>Query_Props\<close>.
  \<^item> Context store, \<open>context/contracts.py\<close>, \<open>repository.py\<close> and the schema of \<open>migrations.py\<close>:
    \<open>Context_Contracts\<close> (records and validators), \<open>Context_Repo\<close> (the SQLite repository with the transaction
    of its connection), \<open>Context_Repo_Inv\<close>, \<open>Context_Repo_Props\<close>.
  \<^item> Sessions, \<open>context/session.py\<close>: \<open>Session_Service\<close> (event sink, open, resume, close), \<open>Session_Props\<close>.
  \<^item> Context of a prompt: \<open>Context_Builder\<close> (\<open>builder.py\<close>, \<open>compaction.py\<close>: the view of a role on the items of a
    run), \<open>Context_Builder_Props\<close>; \<open>Context_Assembly\<close> (\<open>orchestration.py\<close>: candidates, budget, rendering),
    \<open>Context_Assembly_Props\<close>; \<open>Context_Collect\<close> (\<open>orchestration.py\<close>: where the candidates come from),
    \<open>Context_Collect_Props\<close>.
  \<^item> Resumable flows, \<open>runtime/\<close> and \<open>pocketflow\<close>: \<open>Flow_Resume\<close> (node registry, file snapshots, resume
    decision), \<open>Flow_Resume_Props\<close>; \<open>Flow_Runner\<close> (the instrumented runner, its checkpoints, and the plain flow
    loop), \<open>Flow_Runner_Props\<close>.

  \<^bold>\<open>How they interact.\<close> The team runtime is built on the model of the bus: its world holds a \<open>bus\<close> and a
  \<open>team_store\<close>, and its properties rest on the invariant of the bus. The coordinator validates its graph
  with \<open>validate_task_dag\<close> and makes its fix tasks from the findings of the reviewer. The bus and the
  durable runs share the values and the identifiers of \<open>Py_Value\<close> and \<open>Message_Contracts\<close>. Sessions, the
  builder and the collection of candidates are clients of the context repository, and rest on its
  invariant; the flow runner writes its checkpoints to it through \<open>repo_services\<close>, and the decision to
  resume a flow reads them. The assembly of a prompt calls the builder, whose snapshot and summaries change
  the repository.

  \<^bold>\<open>Conventions.\<close> A transaction is one definition on the state: it returns the new state or an error
  (\<open>Inl\<close>), in which case it is rolled back. Times are rational numbers (the floats of the code without
  rounding); clocks, uuids, SHA-256, the JSON encoder, \<open>str\<close> of arbitrary objects, the parsers for
  floats and dates, path resolution and the file system are arguments. Concurrency of processes on one
  database is the order of the transactions, since each begins immediately; the threads of a team are a
  list of turns, each saying what the scheduler finds when it polls.

  \<^bold>\<open>What the lemmas show.\<close> For each store an invariant that every operation keeps (\<open>_Inv\<close>), lifted to
  executions by an interpretation of \<open>preserving\<close>; from it the properties of the queue (refinement of a
  life cycle, fencing of stale workers, dependency gates, exact recovery), of the bus (contiguous
  sequences, monotone cursors, exactly-once draining, idempotent sending, capacity), and of the runs
  (fenced transitions, leases, receipts that are reserved at most once, exact reconciliation). For the
  graph, equivalence of the validator with the definition of an executable graph. For the client,
  termination and bounds of the retry loop, typing of normalised answers, redaction. For the runtime,
  that an acknowledged request has all its publications on the bus, over any crashes. For the coordinator,
  that a scheduling round keeps its books (running tasks, dependencies, reservations within the budgets),
  spends no more than the budget and ends, which tasks it never runs, and that success is certified by the
  last review. For Plan Mode, that phases and plans agree and decisions are final; for the query engine,
  numbered events, one terminal event per run, one active run, and that \<open>submit\<close> refines the interleaved
  steps; for routing, sound and best chains, independence of the order of the configuration, and the walk
  of the fallbacks. For the context repository, that it only grows, that the composite commit is atomic and
  what a leaked transaction does to it; for sessions and flows, exactly when they resume by themselves,
  that the instrumented runner computes what the plain loop does, and that a flow resumes at the node that
  failed. For the builder, isolation of the roles, an account of every item, and that protected items are
  kept or the build is refused; for the assembly, that a prompt fits its budget, keeps protected content
  and external text apart, accounts for every candidate and does not depend on their order. Some theorems
  state where the code does not do what it promises: the trust that compaction gives to external text, the
  build that fails on a stored summary, candidates with equal ids, runs that are resumed although a call
  may be pending.

  \<^bold>\<open>Bounds and fuel.\<close> Loops are structural or have a termination proof (Kahn's queue, the search, the
  cascade of cancellations, the retry loop, the fix rounds, the gate on the rendered prompt, the chunks of
  compaction). The scheduling round polls until its threads end; it runs on a list of turns, and returns
  \<open>None\<close> when the list ends first. A flow may loop for ever: its loop has fuel and is \<open>None\<close> when the fuel
  ends, and \<open>flow_parity\<close> holds for every amount of it.

  \<^bold>\<open>Not modelled.\<close> Network, processes, files, the Redis and PostgreSQL backends, user interfaces, the
  agent loop and everything that depends on answers of a model; of the client the construction of the
  HTTP request; of the runtime the polling for cancellations around the coordinator; of the query engine
  the order in which two threads reach the event handler; of the context repository the memory tables,
  the \<open>transaction()\<close> manager and the migrations; compaction policies other than the default one, and the
  compaction of the history within a run; the checks of tools on paths and commands, whose outcome depends
  on the file system, and the stores of artifacts and memories.
\<close>

end
